(* ===== verification/Prelude.thy ===== *)
theory Prelude
  imports Main "HOL-Library.AList" "HOL-Library.Word"
begin

text \<open>
  What all components share: outcomes of C code (a value, or the fault that undefined
  behaviour, a failed assertion or exhausted fuel stands for), explicit heaps of
  \<open>malloc\<close>ed objects, the C integer conversions the code performs, and the GLib string
  functions of the channel code.
\<close>

named_theorems outcome_simps \<open>how an outcome that is Ok decomposes\<close>
named_theorems heap_simps \<open>reads and frees of live objects\<close>

section \<open>Outcomes\<close>

datatype fault =
    Null_deref          \<comment> \<open>a NULL pointer is read, also by \<open>strcmp\<close> or \<open>strdup\<close>\<close>
  | Use_after_free      \<comment> \<open>a freed object is read or freed again\<close>
  | Out_of_bounds       \<comment> \<open>memory before or after an object is read\<close>
  | Assertion_failed    \<comment> \<open>\<open>g_assert\<close> aborts the process\<close>
  | Signed_overflow     \<comment> \<open>arithmetic on \<open>long\<close> leaves its range\<close>
  | Out_of_fuel         \<comment> \<open>the model's loop bound is used up: the code is still running\<close>

datatype 'a outcome = Ok 'a | Fault fault

primrec obind :: "'a outcome \<Rightarrow> ('a \<Rightarrow> 'b outcome) \<Rightarrow> 'b outcome" where
  "obind (Ok x) f = f x"
| "obind (Fault e) f = Fault e"

lemma obind_eq_Ok [outcome_simps]:
  "obind m f = Ok y \<longleftrightarrow> (\<exists>x. m = Ok x \<and> f x = Ok y)"
  by (cases m) auto

lemma obind_eq_Fault [outcome_simps]:
  "obind m f = Fault e \<longleftrightarrow> m = Fault e \<or> (\<exists>x. m = Ok x \<and> f x = Fault e)"
  by (cases m) auto

lemma obind_assoc: "obind (obind m f) g = obind m (\<lambda>x. obind (f x) g)"
  by (cases m) auto

lemma obind_cong [fundef_cong]:
  "m = m' \<Longrightarrow> (\<And>x. m' = Ok x \<Longrightarrow> f x = f' x) \<Longrightarrow> obind m f = obind m' f'"
  by (cases m') auto

lemma case_outcome_Ok [outcome_simps]:
  "(case m of Ok x \<Rightarrow> f x | Fault e \<Rightarrow> Fault e) = obind m f"
  by (cases m) auto

definition g_assert :: "bool \<Rightarrow> unit outcome" where
  "g_assert b = (if b then Ok () else Fault Assertion_failed)"

lemma g_assert_simps [simp]:
  "g_assert True = Ok ()" "g_assert False = Fault Assertion_failed"
  by (simp_all add: g_assert_def)

lemma g_assert_eq_Ok [outcome_simps]: "g_assert b = Ok u \<longleftrightarrow> b"
  by (simp add: g_assert_def)

text \<open>Reading through a pointer that the code never tests: NULL faults.\<close>

definition deref_null :: "'a option \<Rightarrow> 'a outcome" where
  "deref_null p = (case p of None \<Rightarrow> Fault Null_deref | Some x \<Rightarrow> Ok x)"

lemma deref_null_simps [simp]:
  "deref_null (Some x) = Ok x" "deref_null None = Fault Null_deref"
  by (simp_all add: deref_null_def)

lemma deref_null_eq_Ok [outcome_simps]: "deref_null p = Ok x \<longleftrightarrow> p = Some x"
  by (cases p) auto

section \<open>Heaps\<close>

text \<open>
  Objects that the code allocates and frees live in a heap, a map from addresses. An
  address is never handed out twice, so a stale pointer is always recognised.
\<close>

type_synonym addr = nat
type_synonym 'a heap = "addr \<rightharpoonup> 'a"

definition heap_read :: "'a heap \<Rightarrow> addr \<Rightarrow> 'a outcome" where
  "heap_read h a = (case h a of None \<Rightarrow> Fault Use_after_free | Some x \<Rightarrow> Ok x)"

definition heap_free :: "'a heap \<Rightarrow> addr \<Rightarrow> 'a heap outcome" where
  "heap_free h a = (case h a of None \<Rightarrow> Fault Use_after_free | Some _ \<Rightarrow> Ok (h(a := None)))"

text \<open>\<open>g_list_free_full (list, free)\<close>: every element is freed, in order.\<close>

primrec heap_free_list :: "'a heap \<Rightarrow> addr list \<Rightarrow> 'a heap outcome" where
  "heap_free_list h [] = Ok h"
| "heap_free_list h (a # as) = obind (heap_free h a) (\<lambda>h'. heap_free_list h' as)"

lemma heap_read_Some [heap_simps]: "h a = Some x \<Longrightarrow> heap_read h a = Ok x"
  by (simp add: heap_read_def)

lemma heap_read_None [heap_simps]: "h a = None \<Longrightarrow> heap_read h a = Fault Use_after_free"
  by (simp add: heap_read_def)

lemma heap_read_eq_Ok [outcome_simps]: "heap_read h a = Ok x \<longleftrightarrow> h a = Some x"
  by (simp add: heap_read_def split: option.splits)

lemma heap_free_Some [heap_simps]: "h a = Some x \<Longrightarrow> heap_free h a = Ok (h(a := None))"
  by (simp add: heap_free_def)

lemma heap_free_None [heap_simps]: "h a = None \<Longrightarrow> heap_free h a = Fault Use_after_free"
  by (simp add: heap_free_def)

lemma heap_free_eq_Ok [outcome_simps]:
  "heap_free h a = Ok h' \<longleftrightarrow> a \<in> dom h \<and> h' = h(a := None)"
  by (auto simp: heap_free_def split: option.splits)

lemma heap_free_list_eq_Ok:
  "distinct as \<Longrightarrow> set as \<subseteq> dom h \<Longrightarrow> heap_free_list h as = Ok (h |` (- set as))"
proof (induction as arbitrary: h)
  case Nil
  then show ?case by simp
next
  case (Cons a as)
  then obtain x where a: "h a = Some x" by auto
  from Cons.prems have "set as \<subseteq> dom (h(a := None))" by auto
  with Cons have "heap_free_list (h(a := None)) as = Ok ((h(a := None)) |` (- set as))"
    by simp
  moreover have "(h(a := None)) |` (- set as) = h |` (- set (a # as))"
    by (auto simp: restrict_map_def fun_eq_iff)
  ultimately show ?case by (simp add: a heap_simps)
qed

lemma heap_free_list_append:
  "heap_free_list h (as @ bs) = obind (heap_free_list h as) (\<lambda>h'. heap_free_list h' bs)"
  by (induction as arbitrary: h) (auto simp: obind_assoc)

section \<open>C integers\<close>

text \<open>
  \<open>long\<close> is 64 bits wide (LP64). Signed overflow is undefined behaviour, so arithmetic on
  \<open>long\<close> is arithmetic on \<open>int\<close> that faults when the result leaves the range; \<open>int\<close>
  objects that hold bit masks and the unsigned loop counters are words.
\<close>

definition in_long :: "int \<Rightarrow> bool" where
  "in_long x \<longleftrightarrow> - (2 ^ 63) \<le> x \<and> x < 2 ^ 63"

definition long_result :: "int \<Rightarrow> int outcome" where
  "long_result x = (if in_long x then Ok x else Fault Signed_overflow)"

text \<open>Passing a \<open>long\<close> for an \<open>int\<close> parameter keeps the low 32 bits.\<close>

definition int_of_long :: "int \<Rightarrow> int" where
  "int_of_long x = sint (word_of_int x :: 32 word)"

text \<open>\<open>guint\<close> subtraction on counts wraps below zero.\<close>

definition guint_minus :: "nat \<Rightarrow> nat \<Rightarrow> nat" where
  "guint_minus a b = (if b \<le> a then a - b else a + 2 ^ 32 - b)"

lemma long_result_eq_Ok [outcome_simps]: "long_result x = Ok y \<longleftrightarrow> in_long x \<and> y = x"
  by (auto simp: long_result_def)

lemma in_long_between: "in_long a \<Longrightarrow> in_long b \<Longrightarrow> a \<le> x \<Longrightarrow> x \<le> b \<Longrightarrow> in_long x"
  by (simp add: in_long_def)

lemma guint_minus_le [simp]: "b \<le> a \<Longrightarrow> guint_minus a b = a - b"
  by (simp add: guint_minus_def)

section \<open>GLib string vectors\<close>

text \<open>
  \<open>g_strsplit (s, "/", 0)\<close>: the empty string has no parts, any other string one part
  more than it has delimiters. \<open>g_strjoinv ("/", v)\<close> puts the delimiter between parts.
\<close>

fun split_on :: "char \<Rightarrow> string \<Rightarrow> string list" where
  "split_on d [] = [[]]"
| "split_on d (c # cs) =
     (if c = d then [] # split_on d cs
      else (c # hd (split_on d cs)) # tl (split_on d cs))"

definition g_strsplit :: "char \<Rightarrow> string \<Rightarrow> string list" where
  "g_strsplit d s = (if s = [] then [] else split_on d s)"

fun g_strjoinv :: "char \<Rightarrow> string list \<Rightarrow> string" where
  "g_strjoinv d [] = []"
| "g_strjoinv d [p] = p"
| "g_strjoinv d (p # q # ps) = p @ d # g_strjoinv d (q # ps)"

lemma split_on_nonempty [simp]: "split_on d s \<noteq> []"
  by (induction s) auto

text \<open>The equation to evaluate with: the recursive call stands once.\<close>

lemma split_on_step:
  "split_on d (c # cs) =
     (case split_on d cs of [] \<Rightarrow> [[c]] | p # ps \<Rightarrow> if c = d then [] # p # ps else (c # p) # ps)"
  by (cases "split_on d cs") auto

lemmas split_on_eval = split_on.simps(1) split_on_step

lemma split_on_no_delim: "p \<in> set (split_on d s) \<Longrightarrow> d \<notin> set p"
proof (induction s arbitrary: p)
  case Nil
  then show ?case by simp
next
  case (Cons c cs)
  have "hd (split_on d cs) \<in> set (split_on d cs)" "set (tl (split_on d cs)) \<subseteq> set (split_on d cs)"
    by (simp_all add: list.set_sel(2) subsetI)
  with Cons show ?case by (auto split: if_splits)
qed

lemma g_strjoinv_Cons:
  "ps \<noteq> [] \<Longrightarrow> g_strjoinv d (p # ps) = p @ d # g_strjoinv d ps"
  by (cases ps) auto

lemma g_strjoinv_snoc:
  "ps \<noteq> [] \<Longrightarrow> g_strjoinv d (ps @ [p]) = g_strjoinv d ps @ d # p"
  by (induction d ps rule: g_strjoinv.induct) auto

lemma g_strjoinv_hd_prefix:
  "ps \<noteq> [] \<Longrightarrow> g_strjoinv d ((c # hd ps) # tl ps) = c # g_strjoinv d ps"
  by (cases ps; cases "tl ps") auto

lemma g_strjoinv_split_on: "g_strjoinv d (split_on d s) = s"
  by (induction s) (simp_all add: g_strjoinv_Cons g_strjoinv_hd_prefix)

lemma split_on_append_delim:
  "d \<notin> set p \<Longrightarrow> split_on d (p @ d # s) = p # split_on d s"
  by (induction p) auto

lemma split_on_no_delim_id: "d \<notin> set p \<Longrightarrow> split_on d p = [p]"
  by (induction p) auto

lemma split_on_g_strjoinv:
  "ps \<noteq> [] \<Longrightarrow> \<forall>p\<in>set ps. d \<notin> set p \<Longrightarrow> split_on d (g_strjoinv d ps) = ps"
  by (induction d ps rule: g_strjoinv.induct)
    (simp_all add: split_on_append_delim split_on_no_delim_id)

lemma g_strjoinv_inject:
  assumes "ps \<noteq> []" "qs \<noteq> []" "\<forall>p\<in>set ps. d \<notin> set p" "\<forall>q\<in>set qs. d \<notin> set q"
  shows "g_strjoinv d ps = g_strjoinv d qs \<longleftrightarrow> ps = qs"
  using assms split_on_g_strjoinv by metis

lemma g_strjoinv_eq_iff:
  assumes "ps \<noteq> []" "\<forall>p\<in>set ps. d \<notin> set p"
  shows "g_strjoinv d ps = s \<longleftrightarrow> ps = split_on d s"
  using assms split_on_g_strjoinv g_strjoinv_split_on by metis

section \<open>Association lists\<close>

lemma map_of_update_simps [simp]:
  "map_of (AList.update k v al) = (map_of al)(k \<mapsto> v)"
  by (rule update_conv')

lemma distinct_keys_update [intro]:
  "distinct (map fst al) \<Longrightarrow> distinct (map fst (AList.update k v al))"
  by (rule distinct_update)

end
