(* ===== verification/Channel.thy ===== *)
theory Channel
  imports Prelude
begin

text \<open>
  Channel names (\<^verbatim>\<open>src/src/channel.c\<close>): the wildcard test, and the list of listener
  channels that a message channel reaches. The code builds that list in a fixed array of
  string pointers; it is modelled with the array, and shown equal to the closed form and
  to the globbing relation of the protocol.
\<close>

definition COMETD_MAX_CHANNEL_LEN :: nat where
  "COMETD_MAX_CHANNEL_LEN = 512"

definition COMETD_MAX_CHANNEL_PARTS :: nat where
  "COMETD_MAX_CHANNEL_PARTS = 254"

section \<open>The code\<close>

text \<open>
  The last character of at most 512 is compared with an asterisk; for the empty channel
  the byte before the string is read.
\<close>

definition cometd_channel_is_wildcard :: "string option \<Rightarrow> bool outcome" where
  "cometd_channel_is_wildcard channel =
     obind (g_assert (channel \<noteq> None)) (\<lambda>_.
       let c = the channel; n = min (length c) COMETD_MAX_CHANNEL_LEN
       in if n = 0 then Fault Out_of_bounds else Ok (c ! (n - 1) = CHR ''*''))"

text \<open>\<open>g_strjoinv\<close> on a NULL-terminated array of string pointers.\<close>

definition join_array :: "string option list \<Rightarrow> string" where
  "join_array tmp = g_strjoinv CHR ''/'' (map the (takeWhile (\<lambda>p. p \<noteq> None) tmp))"

text \<open>
  The \<open>for\<close> loop: \<open>i\<close> is the loop counter, the list holds the parts from \<open>i\<close> on, and
  \<open>parts_len - 1\<close>, \<open>parts_len - 2\<close> are unsigned.
\<close>

fun matches_loop ::
  "nat \<Rightarrow> nat \<Rightarrow> string list \<Rightarrow> string option list \<Rightarrow> string list \<Rightarrow> string list" where
  "matches_loop parts_len i [] tmp channels = channels"
| "matches_loop parts_len i (p # ps) tmp channels =
     (let tmp = tmp[i := Some p];
          tmp = (if i < guint_minus parts_len 1 then tmp[i + 1 := Some ''**''] else tmp);
          channels = join_array tmp # channels
      in if i = guint_minus parts_len 2
         then let tmp = tmp[i + 1 := Some ''*'']
              in matches_loop parts_len (i + 1) ps tmp (join_array tmp # channels)
         else matches_loop parts_len (i + 1) ps tmp channels)"

definition cometd_channel_matches :: "string option \<Rightarrow> string list" where
  "cometd_channel_matches channel =
     (case channel of
        None \<Rightarrow> []
      | Some c \<Rightarrow>
          let parts = g_strsplit CHR ''/'' c; parts_len = length parts
          in if parts_len > COMETD_MAX_CHANNEL_PARTS then []
             else matches_loop parts_len 0 parts
                    (replicate (COMETD_MAX_CHANNEL_PARTS + 2) None) [])"

section \<open>The protocol's globbing\<close>

text \<open>
  A pattern reaches a channel when they are equal, when the pattern ends in one asterisk
  that stands for exactly one segment, or in two that stand for one segment or more.
\<close>

definition channel_segments :: "string \<Rightarrow> string list" where
  "channel_segments c = split_on CHR ''/'' c"

definition globs_segments :: "string list \<Rightarrow> string list \<Rightarrow> bool" where
  "globs_segments ps cs \<longleftrightarrow>
     ps = cs \<or>
     ps \<noteq> [] \<and> last ps = ''*'' \<and> length ps = length cs \<and> butlast ps = butlast cs \<or>
     ps \<noteq> [] \<and> last ps = ''**'' \<and> length ps \<le> length cs \<and>
       butlast ps = take (length ps - 1) cs"

definition channel_globs :: "string \<Rightarrow> string \<Rightarrow> bool" where
  "channel_globs pattern channel \<longleftrightarrow>
     globs_segments (channel_segments pattern) (channel_segments channel)"

text \<open>A channel name as the protocol writes it: it starts with a slash.\<close>

definition absolute_channel :: "string \<Rightarrow> bool" where
  "absolute_channel c \<longleftrightarrow> c \<noteq> [] \<and> hd c = CHR ''/''"

section \<open>The loop in closed form\<close>

text \<open>What the iterations from the segment after \<open>d\<close> on put in front of the list.\<close>

fun loop_output :: "string list \<Rightarrow> string list \<Rightarrow> string list" where
  "loop_output d [] = []"
| "loop_output d [p] = [g_strjoinv CHR ''/'' (d @ [p])]"
| "loop_output d (p # q # ps) =
     loop_output (d @ [p]) (q # ps) @
     (if ps = [] then [g_strjoinv CHR ''/'' (d @ [p, ''*''])] else []) @
     [g_strjoinv CHR ''/'' (d @ [p, ''**''])]"

lemma join_array_prefix [simp]:
  "join_array (map Some xs @ replicate m None) = g_strjoinv CHR ''/'' xs"
proof -
  have "takeWhile (\<lambda>p. p \<noteq> None) (map Some xs @ replicate m None) = map Some xs"
    by (induction xs) (cases m, auto)
  then show ?thesis by (simp add: join_array_def comp_def del: not_None_eq)
qed

lemma join_array_prefix_one [simp]:
  "join_array (map Some xs @ Some w # replicate m None) = g_strjoinv CHR ''/'' (xs @ [w])"
  using join_array_prefix [of "xs @ [w]" m] by simp

lemma array_set_next [simp]:
  "(map Some d @ x # xs)[length d := y] = map Some d @ y # xs"
  by (simp add: list_update_append)

lemma array_set_after [simp]:
  "(map Some d @ Some p # x # xs)[Suc (length d) := y] = map Some d @ Some p # y # xs"
  by (simp add: list_update_append)

lemma matches_loop_output:
  assumes "n = length d + length rest" and "length rest \<le> m" and "n < 2 ^ 32"
  shows "matches_loop n (length d) rest (map Some d @ x # replicate m None) channels
         = loop_output d rest @ channels"
  using assms
proof (induction d rest arbitrary: x m channels rule: loop_output.induct)
  case (1 d)
  then show ?case by simp
next
  case (2 d p)
  have "join_array (map Some d @ Some p # replicate m None) = g_strjoinv CHR ''/'' (d @ [p])"
    by simp
  with 2 show ?case by (auto simp: guint_minus_def Let_def)
next
  case (3 d p q ps)
  from "3.prems" obtain m' where m: "m = Suc m'" by (cases m) auto
  have IH: "matches_loop n (Suc (length d)) (q # ps)
      (map Some d @ Some p # y # replicate m' None) chs = loop_output (d @ [p]) (q # ps) @ chs" for y chs
    using "3.IH" [of m' y chs] "3.prems" m by simp
  have join: "join_array (map Some d @ Some p # Some w # replicate m' None)
      = g_strjoinv CHR ''/'' (d @ [p, w])" for w
    using join_array_prefix_one [of "d @ [p]" w m'] by simp
  have bounds: "length d < guint_minus n (Suc 0)" "length d = guint_minus n 2 \<longleftrightarrow> ps = []"
    using "3.prems" by auto
  show ?case
  proof (cases ps)
    case Nil
    then show ?thesis
      by (subst matches_loop.simps(2), subst loop_output.simps(3))
        (simp add: m Let_def join bounds IH [unfolded Nil] del: matches_loop.simps loop_output.simps)
  next
    case Cons
    then show ?thesis
      by (subst matches_loop.simps(2), subst loop_output.simps(3))
        (simp add: m Let_def join bounds IH [unfolded Cons] del: matches_loop.simps loop_output.simps)
  qed
qed

lemma loop_output_closed:
  "rest \<noteq> [] \<Longrightarrow> loop_output d (p # rest) =
     g_strjoinv CHR ''/'' (d @ p # rest) #
     g_strjoinv CHR ''/'' (d @ p # butlast rest @ [''*'']) #
     map (\<lambda>k. g_strjoinv CHR ''/'' (d @ take k (p # rest) @ [''**''])) (rev [1..<Suc (length rest)])"
proof (induction rest arbitrary: d p)
  case Nil
  then show ?case by simp
next
  case (Cons q rest)
  show ?case
  proof (cases "rest = []")
    case True
    then show ?thesis by simp
  next
    case False
    have "rev [1..<Suc (Suc (length rest))] = map Suc (rev [1..<Suc (length rest)]) @ [1]"
      by (simp only: rev_map [symmetric] map_Suc_upt upt_conv_Cons [of 1 "Suc (Suc (length rest))"]) simp
    then have shift: "map f (rev [1..<Suc (Suc (length rest))])
        = map (\<lambda>k. f (Suc k)) (rev [1..<Suc (length rest)]) @ [f 1]" for f :: "nat \<Rightarrow> string"
      by (simp add: comp_def del: upt_Suc)
    from False show ?thesis
      using shift [of "\<lambda>k. g_strjoinv CHR ''/'' (d @ take k (p # q # rest) @ [''**''])"]
      by (simp add: Cons.IH [OF False] del: upt_Suc)
  qed
qed

text \<open>Segments of the channel joined again, and of its patterns, are its segments.\<close>

lemma channel_segments_no_slash: "p \<in> set (channel_segments c) \<Longrightarrow> CHR ''/'' \<notin> set p"
  by (auto simp: channel_segments_def dest: split_on_no_delim)

lemma channel_segments_nonempty [simp]: "channel_segments c \<noteq> []"
  by (simp add: channel_segments_def)

lemma join_channel_segments [simp]: "g_strjoinv CHR ''/'' (channel_segments c) = c"
  by (simp add: channel_segments_def g_strjoinv_split_on)

lemma join_eq_iff_segments:
  "ps \<noteq> [] \<Longrightarrow> \<forall>p\<in>set ps. CHR ''/'' \<notin> set p \<Longrightarrow>
    q = g_strjoinv CHR ''/'' ps \<longleftrightarrow> channel_segments q = ps"
  by (metis channel_segments_def g_strjoinv_eq_iff)

lemma absolute_channel_segments:
  "absolute_channel c \<Longrightarrow> channel_segments c = [] # tl (channel_segments c) \<and>
     2 \<le> length (channel_segments c)"
  by (cases c) (auto simp: absolute_channel_def channel_segments_def Suc_le_eq)

lemma matches_closed:
  assumes "2 \<le> length (channel_segments c)"
    and "length (channel_segments c) \<le> COMETD_MAX_CHANNEL_PARTS"
  shows "cometd_channel_matches (Some c) =
    c # g_strjoinv CHR ''/'' (butlast (channel_segments c) @ [''*'']) #
    map (\<lambda>k. g_strjoinv CHR ''/'' (take k (channel_segments c) @ [''**'']))
      (rev [1..<length (channel_segments c)])"
proof -
  let ?s = "channel_segments c"
  obtain p rest where s: "?s = p # rest" "rest \<noteq> []"
    using assms(1) by (cases ?s; cases "tl ?s") auto
  have "c \<noteq> []" using assms(1) by (auto simp: channel_segments_def)
  have "matches_loop (length ?s) 0 ?s (replicate (COMETD_MAX_CHANNEL_PARTS + 2) None) []
      = loop_output [] ?s"
    using matches_loop_output [of "length ?s" "[]" ?s "COMETD_MAX_CHANNEL_PARTS + 1" None "[]"] assms
    by (simp add: COMETD_MAX_CHANNEL_PARTS_def flip: replicate_Suc)
  moreover have "g_strjoinv CHR ''/'' (p # rest) = c" using s by (metis join_channel_segments)
  moreover have "g_strsplit CHR ''/'' c = ?s"
    using \<open>c \<noteq> []\<close> by (simp add: g_strsplit_def channel_segments_def)
  ultimately show ?thesis
    using assms s by (simp add: cometd_channel_matches_def Let_def loop_output_closed del: upt_Suc)
qed


section \<open>Globbing is what the loop computes\<close>

lemma globs_segments_single:
  "ps \<noteq> [] \<Longrightarrow> cs \<noteq> [] \<Longrightarrow>
    last ps = w \<and> length ps = length cs \<and> butlast ps = butlast cs \<longleftrightarrow> ps = butlast cs @ [w]"
  by (metis append_butlast_last_id butlast_snoc last_snoc length_append_singleton length_butlast
      Suc_pred length_greater_0_conv)

lemma globs_segments_double:
  assumes "2 \<le> length ps"
  shows "last ps = w \<and> length ps \<le> length cs \<and> butlast ps = take (length ps - 1) cs
    \<longleftrightarrow> (\<exists>k\<in>{1..<length cs}. ps = take k cs @ [w])" (is "?l \<longleftrightarrow> ?r")
proof
  assume l: ?l
  have "ps = butlast ps @ [last ps]" using assms by (intro append_butlast_last_id [symmetric]) auto
  with l have "ps = take (length ps - 1) cs @ [w]" by simp
  moreover have "length ps - 1 \<in> {1..<length cs}" using l assms by auto
  ultimately show ?r by blast
next
  assume ?r
  then show ?l by auto
qed

lemma matches_iff_globs:
  assumes "absolute_channel c" and "absolute_channel p"
    and "length (channel_segments c) \<le> COMETD_MAX_CHANNEL_PARTS"
  shows "p \<in> set (cometd_channel_matches (Some c)) \<longleftrightarrow> channel_globs p c"
proof -
  let ?c = "channel_segments c" and ?p = "channel_segments p"
  have len: "2 \<le> length ?c" "2 \<le> length ?p"
    using assms absolute_channel_segments by blast+
  have slash: "\<forall>q\<in>set (butlast ?c @ [''*'']). CHR ''/'' \<notin> set q"
    "\<And>k. \<forall>q\<in>set (take k ?c @ [''**'']). CHR ''/'' \<notin> set q"
    by (auto dest!: in_set_butlastD in_set_takeD channel_segments_no_slash)
  have "p = c \<longleftrightarrow> ?p = ?c" by (metis join_channel_segments)
  moreover have "p = g_strjoinv CHR ''/'' (butlast ?c @ [''*'']) \<longleftrightarrow> ?p = butlast ?c @ [''*'']"
    by (rule join_eq_iff_segments) (use slash in auto)
  moreover have "p = g_strjoinv CHR ''/'' (take k ?c @ [''**'']) \<longleftrightarrow> ?p = take k ?c @ [''**'']" for k
    by (rule join_eq_iff_segments) (use slash in auto)
  ultimately have "p \<in> set (cometd_channel_matches (Some c)) \<longleftrightarrow>
      ?p = ?c \<or> ?p = butlast ?c @ [''*''] \<or> (\<exists>k\<in>{1..<length ?c}. ?p = take k ?c @ [''**''])"
    using matches_closed [OF len(1) assms(3)] by auto
  then show ?thesis
    using globs_segments_single [of ?p ?c "''*''"] globs_segments_double [OF len(2), of "''**''" ?c]
    by (simp add: channel_globs_def globs_segments_def)
qed

lemma matches_order:
  assumes "absolute_channel c"
    and "length (channel_segments c) \<le> COMETD_MAX_CHANNEL_PARTS"
    and "last (channel_segments c) \<notin> {''*'', ''**''}"
  shows "map channel_segments (cometd_channel_matches (Some c)) =
      channel_segments c # (butlast (channel_segments c) @ [''*'']) #
      map (\<lambda>k. take k (channel_segments c) @ [''**'']) (rev [1..<length (channel_segments c)])
    \<and> distinct (cometd_channel_matches (Some c))"
proof -
  let ?c = "channel_segments c"
  let ?out = "?c # (butlast ?c @ [''*'']) # map (\<lambda>k. take k ?c @ [''**'']) (rev [1..<length ?c])"
  have len: "2 \<le> length ?c" using assms(1) absolute_channel_segments by blast
  have segs: "channel_segments (g_strjoinv CHR ''/'' (xs @ [w])) = xs @ [w]"
    if "set xs \<subseteq> set ?c" "CHR ''/'' \<notin> set w" for xs w
    using that join_eq_iff_segments [of "xs @ [w]"] channel_segments_no_slash by fastforce
  have "channel_segments (g_strjoinv CHR ''/'' (butlast ?c @ [''*''])) = butlast ?c @ [''*'']"
    and "channel_segments (g_strjoinv CHR ''/'' (take k ?c @ [''**''])) = take k ?c @ [''**'']" for k
    by (intro segs; auto dest: in_set_butlastD in_set_takeD)+
  then have out: "map channel_segments (cometd_channel_matches (Some c)) = ?out"
    using matches_closed [OF len assms(2)] by (simp add: comp_def)
  have "?c = butlast ?c @ [last ?c]" by simp
  moreover have "inj_on (\<lambda>k. take k ?c @ [''**'']) {1..<length ?c}"
    by (rule inj_on_inverseI [where g = "\<lambda>xs. length xs - 1"]) auto
  ultimately have "distinct ?out"
    using assms(3) by (auto simp: distinct_map) (metis last_snoc)+
  then show ?thesis using out by (metis distinct_map)
qed

lemma channel_is_wildcard_iff:
  "c \<noteq> [] \<Longrightarrow> length c \<le> COMETD_MAX_CHANNEL_LEN \<Longrightarrow>
    cometd_channel_is_wildcard (Some c) = Ok (last c = CHR ''*'')"
  by (simp add: cometd_channel_is_wildcard_def Let_def last_conv_nth min_def)

lemma channel_is_wildcard_empty: "cometd_channel_is_wildcard (Some []) = Fault Out_of_bounds"
  by (simp add: cometd_channel_is_wildcard_def Let_def)

section \<open>The matcher as an interface\<close>

text \<open>
  What the listener table needs from the matcher: for a message channel it lists each
  pattern that globs the channel once. The client's lemmas say what a table that files
  every listener under one pattern then delivers.
\<close>

locale channel_matcher =
  fixes msg_channel :: "string \<Rightarrow> bool"
    and pattern :: "string \<Rightarrow> bool"
    and matches :: "string \<Rightarrow> string list"
    and globs :: "string \<Rightarrow> string \<Rightarrow> bool"
  assumes matches_globs: "msg_channel c \<Longrightarrow> pattern p \<Longrightarrow> p \<in> set (matches c) \<longleftrightarrow> globs p c"
    and matches_distinct: "msg_channel c \<Longrightarrow> distinct (matches c)"
begin

lemma delivered_iff:
  assumes "msg_channel c" "pattern p" "a \<in> set (lookup p)"
    and "\<And>q. a \<in> set (lookup q) \<Longrightarrow> q = p"
  shows "a \<in> set (concat (map lookup (matches c))) \<longleftrightarrow> globs p c"
proof -
  have "a \<in> set (concat (map lookup (matches c))) \<longleftrightarrow> (\<exists>q\<in>set (matches c). a \<in> set (lookup q))"
    by simp
  also have "\<dots> \<longleftrightarrow> p \<in> set (matches c)"
    using assms(3,4) by metis
  also have "\<dots> \<longleftrightarrow> globs p c"
    using assms(1,2) by (rule matches_globs)
  finally show ?thesis .
qed

lemma delivered_once:
  assumes "msg_channel c" and "\<And>q. distinct (lookup q)"
    and "\<And>p q a. a \<in> set (lookup p) \<Longrightarrow> a \<in> set (lookup q) \<Longrightarrow> p = q"
  shows "distinct (concat (map lookup (matches c)))"
proof -
  have "distinct (concat (map lookup ps))" if "distinct ps" for ps
    using that by (induction ps) (auto simp: assms(2) dest: assms(3))
  then show ?thesis using matches_distinct [OF assms(1)] .
qed

end

text \<open>A channel that a message may carry: no more segments or characters than the code allows, no wildcard.\<close>

definition message_channel :: "string \<Rightarrow> bool" where
  "message_channel c \<longleftrightarrow> absolute_channel c \<and> length c \<le> COMETD_MAX_CHANNEL_LEN \<and>
     length (channel_segments c) \<le> COMETD_MAX_CHANNEL_PARTS \<and> last c \<noteq> CHR ''*''"

lemma last_segment:
  assumes "absolute_channel c" and "last (channel_segments c) = w @ [x]"
  shows "last c = x"
proof -
  let ?s = "channel_segments c"
  have "butlast ?s \<noteq> []"
    using absolute_channel_segments [OF assms(1)] by (cases ?s; cases "tl ?s") auto
  moreover have "?s = butlast ?s @ [w @ [x]]"
    using assms(2) by (metis append_butlast_last_id channel_segments_nonempty)
  ultimately have "c = g_strjoinv CHR ''/'' (butlast ?s) @ CHR ''/'' # w @ [x]"
    by (metis g_strjoinv_snoc join_channel_segments)
  then show ?thesis by (metis append_Cons append_assoc last_snoc)
qed

lemma message_channel_last_segment:
  "message_channel c \<Longrightarrow> last (channel_segments c) \<notin> {''*'', ''**''}"
  using last_segment [of c "[]" "CHR ''*''"] last_segment [of c "''*''" "CHR ''*''"]
  by (auto simp: message_channel_def)

interpretation cm: channel_matcher message_channel absolute_channel
  "\<lambda>c. cometd_channel_matches (Some c)" channel_globs
  by unfold_locales
    (simp add: message_channel_def matches_iff_globs,
      metis message_channel_def message_channel_last_segment matches_order)

lemma message_channel_not_wildcard:
  "message_channel c \<Longrightarrow> cometd_channel_is_wildcard (Some c) = Ok False"
  by (simp add: channel_is_wildcard_iff message_channel_def absolute_channel_def)

section \<open>Properties\<close>

text \<open>
  C18. For a channel name that starts with a slash and has at most 254 segments, the
  listener channels that \<open>cometd_channel_matches\<close> lists are exactly the patterns that
  glob the channel: the name itself, the pattern with one asterisk for the last segment,
  and every pattern with two asterisks for a proper suffix.
\<close>

theorem channel_matches_globs:
  assumes "absolute_channel c" and "absolute_channel p"
    and "length (channel_segments c) \<le> COMETD_MAX_CHANNEL_PARTS"
  shows "p \<in> set (cometd_channel_matches (Some c)) \<longleftrightarrow> channel_globs p c"
  using assms by (rule matches_iff_globs)

lemma channel_matches_globs_witness:
  "''/foo/**'' \<in> set (cometd_channel_matches (Some ''/foo/bar/baz''))"
proof -
  have "channel_globs ''/foo/**'' ''/foo/bar/baz''"
    by (simp add: channel_globs_def globs_segments_def channel_segments_def)
  then show ?thesis
    using channel_matches_globs [of "''/foo/bar/baz''" "''/foo/**''"]
    by (simp add: absolute_channel_def channel_segments_def COMETD_MAX_CHANNEL_PARTS_def)
qed

text \<open>
  The list is ordered from the most to the least specific pattern (the channel, its
  single-wildcard pattern, then the double-wildcard patterns from the longest to the
  shortest), and no entry occurs twice unless the channel itself ends in a wildcard.
\<close>

theorem channel_matches_order:
  assumes "absolute_channel c"
    and "length (channel_segments c) \<le> COMETD_MAX_CHANNEL_PARTS"
    and "last (channel_segments c) \<notin> {''*'', ''**''}"
  shows "map channel_segments (cometd_channel_matches (Some c)) =
      channel_segments c # (butlast (channel_segments c) @ [''*'']) #
      map (\<lambda>k. take k (channel_segments c) @ [''**'']) (rev [1..<length (channel_segments c)])
    \<and> distinct (cometd_channel_matches (Some c))"
  using assms by (rule matches_order)

lemma channel_matches_order_witness:
  "distinct (cometd_channel_matches (Some ''/foo/bar''))"
  using channel_matches_order [of "''/foo/bar''"]
  by (simp add: absolute_channel_def channel_segments_def COMETD_MAX_CHANNEL_PARTS_def)

text \<open>
  A channel of more than 254 segments reaches no listener at all, not even one on the
  very same channel name.
\<close>

theorem channel_matches_too_long:
  "length (channel_segments c) > COMETD_MAX_CHANNEL_PARTS \<Longrightarrow> cometd_channel_matches (Some c) = []"
  by (auto simp: cometd_channel_matches_def g_strsplit_def channel_segments_def Let_def)

lemma channel_matches_too_long_witness:
  "cometd_channel_matches (Some (replicate 254 CHR ''/'')) = []"
proof -
  have "length (split_on CHR ''/'' (replicate n CHR ''/'')) = Suc n" for n
    by (induction n) auto
  then show ?thesis
    by (intro channel_matches_too_long) (simp add: channel_segments_def COMETD_MAX_CHANNEL_PARTS_def)
qed

end
