(* ===== verification/Conn.thy ===== *)
theory Conn
  imports Prelude
begin

unbundle bit_operations_syntax

text \<open>
  The connection object and the server's reconnect advice (\<^verbatim>\<open>src/src/conn.c\<close>), and the
  error slot (\<^verbatim>\<open>src/src/error.c\<close>). The connection state is a bit mask tested with
  bitwise and; the transport is a pointer into the transport heap.
\<close>

section \<open>Result codes and the error slot\<close>

definition COMETD_SUCCESS :: int where [simp]: "COMETD_SUCCESS = 0"
definition ECOMETD_JSON_SERIALIZE :: int where [simp]: "ECOMETD_JSON_SERIALIZE = 1"
definition ECOMETD_JSON_DESERIALIZE :: int where [simp]: "ECOMETD_JSON_DESERIALIZE = 2"
definition ECOMETD_INIT_LOOP :: int where [simp]: "ECOMETD_INIT_LOOP = 3"
definition ECOMETD_UNKNOWN :: int where [simp]: "ECOMETD_UNKNOWN = 4"
definition ECOMETD_NO_TRANSPORT :: int where [simp]: "ECOMETD_NO_TRANSPORT = 5"
definition ECOMETD_UNSUCCESSFUL :: int where [simp]: "ECOMETD_UNSUCCESSFUL = 6"
definition ECOMETD_SEND :: int where [simp]: "ECOMETD_SEND = 7"

record cometd_error_st =
  err_code :: int
  err_message :: "string option"

definition cometd_error_new :: cometd_error_st where
  "cometd_error_new = \<lparr>err_code = COMETD_SUCCESS, err_message = None\<rparr>"

section \<open>Advice\<close>

datatype cometd_reconn_advice =
    COMETD_RECONNECT_NONE
  | COMETD_RECONNECT_RETRY
  | COMETD_RECONNECT_HANDSHAKE

record cometd_advice =
  reconnect :: cometd_reconn_advice
  interval :: int

definition cometd_advice_new :: cometd_advice where
  "cometd_advice_new = \<lparr>reconnect = COMETD_RECONNECT_NONE, interval = 0\<rparr>"

definition cometd_advice_is_handshake :: "cometd_advice \<Rightarrow> bool" where
  "cometd_advice_is_handshake advice \<longleftrightarrow> reconnect advice = COMETD_RECONNECT_HANDSHAKE"

definition cometd_advice_is_none :: "cometd_advice \<Rightarrow> bool" where
  "cometd_advice_is_none advice \<longleftrightarrow> reconnect advice = COMETD_RECONNECT_NONE"

definition cometd_advice_is_retry :: "cometd_advice \<Rightarrow> bool" where
  "cometd_advice_is_retry advice \<longleftrightarrow> reconnect advice = COMETD_RECONNECT_RETRY"

section \<open>The connection\<close>

type_synonym cint = "32 word"

definition COMETD_UNINITIALIZED :: cint where "COMETD_UNINITIALIZED = 0x01"
definition COMETD_DISCONNECTED :: cint where "COMETD_DISCONNECTED = 0x02"
definition COMETD_HANDSHAKE_SUCCESS :: cint where "COMETD_HANDSHAKE_SUCCESS = 0x04"
definition COMETD_CONNECTED :: cint where "COMETD_CONNECTED = 0x08"
definition COMETD_DISCONNECTING :: cint where "COMETD_DISCONNECTING = 0x10"
definition COMETD_UNCONNECTED :: cint where "COMETD_UNCONNECTED = 0x20"

lemmas state_defs = COMETD_UNINITIALIZED_def COMETD_DISCONNECTED_def
  COMETD_HANDSHAKE_SUCCESS_def COMETD_CONNECTED_def COMETD_DISCONNECTING_def
  COMETD_UNCONNECTED_def

record cometd_conn =
  conn_state :: cint
  msg_id_seed :: int
  client_id :: "string option"
  transport :: "addr option"
  advice :: "cometd_advice option"

definition cometd_conn_new :: cometd_conn where
  "cometd_conn_new = \<lparr>conn_state = COMETD_UNINITIALIZED, msg_id_seed = 0, client_id = None,
     transport = None, advice = None\<rparr>"

definition cometd_conn_advice :: "cometd_conn \<Rightarrow> cometd_advice option" where
  "cometd_conn_advice c = advice c"

definition cometd_conn_take_advice :: "cometd_advice option \<Rightarrow> cometd_conn \<Rightarrow> cometd_conn" where
  "cometd_conn_take_advice a c = c\<lparr>advice := a\<rparr>"

definition cometd_conn_set_transport :: "addr option \<Rightarrow> cometd_conn \<Rightarrow> cometd_conn outcome" where
  "cometd_conn_set_transport t c =
     obind (g_assert (t \<noteq> None)) (\<lambda>_. Ok (c\<lparr>transport := t\<rparr>))"

definition cometd_conn_client_id :: "cometd_conn \<Rightarrow> string option" where
  "cometd_conn_client_id c = client_id c"

definition cometd_conn_set_client_id :: "string option \<Rightarrow> cometd_conn \<Rightarrow> cometd_conn outcome" where
  "cometd_conn_set_client_id cid c =
     obind (g_assert (cid \<noteq> None)) (\<lambda>_. Ok (c\<lparr>client_id := cid\<rparr>))"

definition cometd_conn_set_state :: "cint \<Rightarrow> cometd_conn \<Rightarrow> cometd_conn" where
  "cometd_conn_set_state status c = c\<lparr>conn_state := status\<rparr>"

definition cometd_conn_state :: "cometd_conn \<Rightarrow> cint" where
  "cometd_conn_state c = conn_state c"

definition cometd_conn_is_state :: "cometd_conn \<Rightarrow> cint \<Rightarrow> bool" where
  "cometd_conn_is_state c status \<longleftrightarrow> cometd_conn_state c AND status \<noteq> 0"

text \<open>\<open>++(conn->msg_id_seed)\<close>, the number of the next message.\<close>

definition next_msg_id :: "cometd_conn \<Rightarrow> (int \<times> cometd_conn) outcome" where
  "next_msg_id c = obind (long_result (msg_id_seed c + 1)) (\<lambda>n. Ok (n, c\<lparr>msg_id_seed := n\<rparr>))"

section \<open>Lemmas\<close>

text \<open>The states that the library ever sets, and the mask tests on them.\<close>

definition conn_states :: "cint set" where
  "conn_states = {COMETD_UNINITIALIZED, COMETD_DISCONNECTED, COMETD_HANDSHAKE_SUCCESS,
     COMETD_CONNECTED, COMETD_UNCONNECTED}"

lemma conn_is_state_single:
  "conn_state c \<in> conn_states \<Longrightarrow> s \<in> conn_states \<Longrightarrow>
    cometd_conn_is_state c s \<longleftrightarrow> conn_state c = s"
  by (auto simp: conn_states_def cometd_conn_is_state_def cometd_conn_state_def state_defs)

lemma conn_is_state_or:
  "cometd_conn_is_state c (s OR t) \<longleftrightarrow> cometd_conn_is_state c s \<or> cometd_conn_is_state c t"
proof -
  have "a AND (s OR t) = 0 \<longleftrightarrow> a AND s = 0 \<and> a AND t = 0" for a :: cint
    by (simp add: bit.conj_disj_distrib or_eq_0_iff)
  then show ?thesis by (simp add: cometd_conn_is_state_def)
qed

lemma is_handshake_advice_simps [simp]:
  "cometd_advice_is_handshake \<lparr>reconnect = r, interval = i\<rparr> \<longleftrightarrow> r = COMETD_RECONNECT_HANDSHAKE"
  "cometd_advice_is_none \<lparr>reconnect = r, interval = i\<rparr> \<longleftrightarrow> r = COMETD_RECONNECT_NONE"
  "cometd_advice_is_retry \<lparr>reconnect = r, interval = i\<rparr> \<longleftrightarrow> r = COMETD_RECONNECT_RETRY"
  by (simp_all add: cometd_advice_is_handshake_def cometd_advice_is_none_def
      cometd_advice_is_retry_def)

lemma advice_cases:
  obtains (none) "cometd_advice_is_none a" "\<not> cometd_advice_is_handshake a" "\<not> cometd_advice_is_retry a"
  | (handshake) "cometd_advice_is_handshake a" "\<not> cometd_advice_is_none a" "\<not> cometd_advice_is_retry a"
  | (retry) "cometd_advice_is_retry a" "\<not> cometd_advice_is_none a" "\<not> cometd_advice_is_handshake a"
  by (cases "reconnect a")
    (simp_all add: cometd_advice_is_handshake_def cometd_advice_is_none_def cometd_advice_is_retry_def)

lemma next_msg_id_eq_Ok [outcome_simps]:
  "next_msg_id c = Ok (n, c') \<longleftrightarrow>
     in_long (msg_id_seed c + 1) \<and> n = msg_id_seed c + 1 \<and> c' = c\<lparr>msg_id_seed := n\<rparr>"
  by (auto simp: next_msg_id_def outcome_simps)

end
