(* ===== verification/Event.thy ===== *)
theory Event
  imports Channel Conn
begin

text \<open>
  The listener table (\<^verbatim>\<open>src/src/event.c\<close>): a hash table from channel names to lists of
  pointers to subscription objects. Subscriptions live in a heap, so that a pointer that is
  used after its subscription was removed is a fault. The hash table keeps the caller's
  channel string as its key; the model assumes that the caller leaves that string alone.
\<close>

section \<open>The table and its operations\<close>

text \<open>A callback pointer is one of the two handlers of the library or one of the user.\<close>

datatype cometd_callback =
    Cometd_process_handshake
  | Cometd_process_connect
  | User_callback nat

record cometd_subscription =
  sub_channel :: string
  sub_callback :: cometd_callback

record listeners =
  sub_table :: "(string \<times> addr list) list"
  sub_heap :: "cometd_subscription heap"
  sub_next :: addr                     \<comment> \<open>the next address \<open>malloc\<close> returns\<close>

definition cometd_listener_new :: listeners where
  "cometd_listener_new = \<lparr>sub_table = [], sub_heap = Map.empty, sub_next = 0\<rparr>"

text \<open>\<open>g_hash_table_lookup\<close>: a channel without an entry has the NULL list.\<close>

definition table_lookup :: "listeners \<Rightarrow> string \<Rightarrow> addr list" where
  "table_lookup L channel = (case map_of (sub_table L) channel of None \<Rightarrow> [] | Some as \<Rightarrow> as)"

definition table_insert :: "string \<Rightarrow> addr list \<Rightarrow> listeners \<Rightarrow> listeners" where
  "table_insert channel as L = L\<lparr>sub_table := AList.update channel as (sub_table L)\<rparr>"

text \<open>The first argument says whether \<open>malloc\<close> gives memory.\<close>

definition cometd_listener_add ::
  "bool \<Rightarrow> listeners \<Rightarrow> string \<Rightarrow> cometd_callback \<Rightarrow> addr option \<times> listeners" where
  "cometd_listener_add malloc_ok L channel cb =
     (let len = length channel
      in if \<not> (len > 0 \<and> len < COMETD_MAX_CHANNEL_LEN - 1) then (None, L)
         else if \<not> malloc_ok then (None, L)
         else let s = sub_next L;
                  L = L\<lparr>sub_heap := (sub_heap L)(s \<mapsto> \<lparr>sub_channel = channel, sub_callback = cb\<rparr>),
                        sub_next := Suc s\<rparr>;
                  list = table_lookup L channel;
                  list = list @ [s]
              in (Some s, table_insert channel list L))"

definition cometd_listener_remove :: "listeners \<Rightarrow> addr option \<Rightarrow> (int \<times> listeners) outcome" where
  "cometd_listener_remove L subscription =
     (case subscription of
        None \<Rightarrow> Ok (ECOMETD_UNKNOWN, L)
      | Some a \<Rightarrow>
          obind (heap_read (sub_heap L) a) (\<lambda>s.
            let channel = sub_channel s;
                list = table_lookup L channel;
                list = remove1 a list;
                L = table_insert channel list L
            in obind (heap_free (sub_heap L) a) (\<lambda>h.
                 Ok (COMETD_SUCCESS, L\<lparr>sub_heap := h\<rparr>))))"

definition cometd_listener_count :: "listeners \<Rightarrow> string option \<Rightarrow> nat" where
  "cometd_listener_count L channel =
     (case channel of None \<Rightarrow> 0 | Some c \<Rightarrow> length (table_lookup L c))"

text \<open>
  The two nested loops of \<open>cometd_listener_get\<close>, which prepend, and the final reverse.
\<close>

primrec prepend_all :: "addr list \<Rightarrow> addr list \<Rightarrow> addr list" where
  "prepend_all [] acc = acc"
| "prepend_all (s # ss) acc = prepend_all ss (s # acc)"

primrec listener_get_loop :: "listeners \<Rightarrow> string list \<Rightarrow> addr list \<Rightarrow> addr list" where
  "listener_get_loop L [] acc = acc"
| "listener_get_loop L (c # cs) acc = listener_get_loop L cs (prepend_all (table_lookup L c) acc)"

definition cometd_listener_get :: "listeners \<Rightarrow> string option \<Rightarrow> addr list outcome" where
  "cometd_listener_get L channel =
     obind (cometd_channel_is_wildcard channel) (\<lambda>w.
     obind (g_assert (\<not> w)) (\<lambda>_.
       Ok (rev (listener_get_loop L (cometd_channel_matches channel) []))))"

text \<open>\<open>cometd_listener_destroy\<close> frees every list of the table.\<close>

primrec destroy_lists :: "cometd_subscription heap \<Rightarrow> (string \<times> addr list) list
    \<Rightarrow> cometd_subscription heap outcome" where
  "destroy_lists h [] = Ok h"
| "destroy_lists h (e # es) = obind (heap_free_list h (snd e)) (\<lambda>h'. destroy_lists h' es)"

definition cometd_listener_destroy :: "listeners \<Rightarrow> listeners outcome" where
  "cometd_listener_destroy L =
     obind (destroy_lists (sub_heap L) (sub_table L)) (\<lambda>h.
       Ok (L\<lparr>sub_heap := h, sub_table := []\<rparr>))"

section \<open>The invariant\<close>

text \<open>
  Every pointer in the table points to a live subscription on the channel it is filed
  under, every live subscription is filed exactly once, and channel names fit.
\<close>

definition table_keys_distinct :: "listeners \<Rightarrow> bool" where
  "table_keys_distinct L \<longleftrightarrow> distinct (map fst (sub_table L))"

definition listeners_wf :: "listeners \<Rightarrow> bool" where
  "listeners_wf L \<longleftrightarrow>
     table_keys_distinct L \<and>
     (\<forall>a s. sub_heap L a = Some s \<longrightarrow> a < sub_next L) \<and>
     (\<forall>c. distinct (table_lookup L c)) \<and>
     (\<forall>c a. a \<in> set (table_lookup L c) \<longleftrightarrow>
        (\<exists>s. sub_heap L a = Some s \<and> sub_channel s = c)) \<and>
     (\<forall>a s. sub_heap L a = Some s \<longrightarrow>
        0 < length (sub_channel s) \<and> length (sub_channel s) < COMETD_MAX_CHANNEL_LEN - 1)"

lemma listeners_wf_new [simp, intro]: "listeners_wf cometd_listener_new"
  by (simp add: listeners_wf_def table_keys_distinct_def cometd_listener_new_def table_lookup_def)

lemma table_keys_distinct_insert [simp]:
  "table_keys_distinct L \<Longrightarrow> table_keys_distinct (table_insert c as L)"
  by (auto simp: table_keys_distinct_def table_insert_def)

lemma table_keys_distinct_updates [simp]:
  "table_keys_distinct (L\<lparr>sub_heap := h\<rparr>) = table_keys_distinct L"
  "table_keys_distinct (L\<lparr>sub_next := n\<rparr>) = table_keys_distinct L"
  by (simp_all add: table_keys_distinct_def)

lemma table_lookup_insert [simp]:
  "table_lookup (table_insert c as L) d = (if d = c then as else table_lookup L d)"
  by (simp add: table_lookup_def table_insert_def)

lemma table_insert_sels [simp]:
  "sub_heap (table_insert c as L) = sub_heap L" "sub_next (table_insert c as L) = sub_next L"
  by (simp_all add: table_insert_def)

lemma table_lookup_updates [simp]:
  "table_lookup (L\<lparr>sub_heap := h\<rparr>) c = table_lookup L c"
  "table_lookup (L\<lparr>sub_next := n\<rparr>) c = table_lookup L c"
  by (simp_all add: table_lookup_def)

lemma listeners_wf_live:
  "listeners_wf L \<Longrightarrow> a \<in> set (table_lookup L c) \<Longrightarrow>
     \<exists>s. sub_heap L a = Some s \<and> sub_channel s = c"
  by (simp add: listeners_wf_def)

lemma listeners_wf_filed:
  "listeners_wf L \<Longrightarrow> sub_heap L a = Some s \<Longrightarrow> a \<in> set (table_lookup L (sub_channel s))"
  by (auto simp: listeners_wf_def)

lemma listeners_wf_below: "listeners_wf L \<Longrightarrow> sub_heap L a = Some s \<Longrightarrow> a < sub_next L"
  by (simp add: listeners_wf_def)

lemma listeners_wf_next: "listeners_wf L \<Longrightarrow> sub_heap L (sub_next L) = None"
  using listeners_wf_below by fastforce

lemma listeners_wf_next_unfiled: "listeners_wf L \<Longrightarrow> sub_next L \<notin> set (table_lookup L c)"
  using listeners_wf_live listeners_wf_next by fastforce

lemma listener_add_wf:
  assumes "listeners_wf L"
  shows "listeners_wf (snd (cometd_listener_add m L c cb))"
proof -
  note fresh = listeners_wf_next [OF assms] listeners_wf_next_unfiled [OF assms]
  show ?thesis
    using assms fresh
    by (auto simp: cometd_listener_add_def Let_def listeners_wf_def less_Suc_eq)
qed

lemma listener_remove_cases:
  assumes "listeners_wf L"
  obtains (null) "p = None" "cometd_listener_remove L p = Ok (ECOMETD_UNKNOWN, L)"
  | (live) a s where "p = Some a" "sub_heap L a = Some s"
      "cometd_listener_remove L p = Ok (COMETD_SUCCESS,
         (table_insert (sub_channel s) (remove1 a (table_lookup L (sub_channel s))) L)
           \<lparr>sub_heap := (sub_heap L)(a := None)\<rparr>)"
  | (freed) a where "p = Some a" "sub_heap L a = None"
      "cometd_listener_remove L p = Fault Use_after_free"
  by (cases p; cases "sub_heap L (the p)")
    (auto simp: cometd_listener_remove_def heap_simps Let_def)

lemma listener_remove_wf:
  assumes "listeners_wf L" and "cometd_listener_remove L p = Ok (code, L')"
  shows "listeners_wf L'"
  using assms
  by (cases rule: listener_remove_cases [OF assms(1), of p])
    (auto simp: listeners_wf_def)

section \<open>What the table does\<close>

lemma prepend_all_rev: "prepend_all ss acc = rev ss @ acc"
  by (induction ss arbitrary: acc) auto

lemma listener_get_loop_rev:
  "listener_get_loop L cs acc = rev (concat (map (table_lookup L) cs)) @ acc"
  by (induction cs arbitrary: acc) (auto simp: prepend_all_rev)

lemma listener_get_concat:
  "cometd_channel_is_wildcard channel = Ok False \<Longrightarrow>
    cometd_listener_get L channel = Ok (concat (map (table_lookup L) (cometd_channel_matches channel)))"
  by (simp add: cometd_listener_get_def listener_get_loop_rev)

lemma listeners_wf_unique:
  "listeners_wf L \<Longrightarrow> a \<in> set (table_lookup L c) \<Longrightarrow> a \<in> set (table_lookup L d) \<Longrightarrow> c = d"
  by (metis listeners_wf_live option.inject)

lemma listeners_wf_distinct: "listeners_wf L \<Longrightarrow> distinct (table_lookup L c)"
  by (simp add: listeners_wf_def)

lemma listener_add_Some:
  assumes "listeners_wf L" and "cometd_listener_add m L c cb = (Some a, L')"
  shows "a = sub_next L" and "sub_heap L' = (sub_heap L)(a \<mapsto> \<lparr>sub_channel = c, sub_callback = cb\<rparr>)"
    and "table_lookup L' d = (if d = c then table_lookup L c @ [a] else table_lookup L d)"
    and "a \<notin> set (table_lookup L d)"
  using assms listeners_wf_next_unfiled [OF assms(1)]
  by (auto simp: cometd_listener_add_def Let_def split: if_splits)

lemma listener_add_None: "cometd_listener_add m L c cb = (None, L') \<Longrightarrow> L' = L"
  by (auto simp: cometd_listener_add_def Let_def split: if_splits)

lemma listener_remove_filed:
  assumes "listeners_wf L" and "a \<in> set (table_lookup L c)"
  shows "\<exists>L'. cometd_listener_remove L (Some a) = Ok (COMETD_SUCCESS, L') \<and>
    (\<forall>d. table_lookup L' d = (if d = c then remove1 a (table_lookup L c) else table_lookup L d))"
  using listeners_wf_live [OF assms]
  by (cases rule: listener_remove_cases [OF assms(1), of "Some a"]) auto

lemma listener_remove_unfiled:
  assumes "listeners_wf L" and "\<forall>c. a \<notin> set (table_lookup L c)"
  shows "cometd_listener_remove L (Some a) = Fault Use_after_free"
  using listeners_wf_filed [OF assms(1)] assms(2)
  by (cases rule: listener_remove_cases [OF assms(1), of "Some a"]) auto

lemma table_entry_lookup:
  "table_keys_distinct L \<Longrightarrow> e \<in> set (sub_table L) \<Longrightarrow> snd e = table_lookup L (fst e)"
  by (cases e) (simp add: table_keys_distinct_def table_lookup_def)

lemma destroy_lists_concat: "destroy_lists h es = heap_free_list h (concat (map snd es))"
  by (induction es arbitrary: h) (simp_all add: heap_free_list_append)

lemma table_lists_distinct:
  assumes "listeners_wf L"
  shows "distinct (concat (map snd (sub_table L)))"
proof -
  have keys: "table_keys_distinct L" using assms by (simp add: listeners_wf_def)
  have "distinct (concat (map snd es))" if "set es \<subseteq> set (sub_table L)" "distinct (map fst es)" for es
    using that
  proof (induction es)
    case (Cons e es)
    have lookup: "snd e' = table_lookup L (fst e')" if "e' \<in> set (e # es)" for e'
      using that Cons.prems(1) table_entry_lookup [OF keys] by blast
    have "a \<notin> set (snd e')" if "a \<in> set (snd e)" "e' \<in> set es" for a e'
    proof
      assume "a \<in> set (snd e')"
      then have "fst e = fst e'"
        using that lookup listeners_wf_unique [OF assms] by (metis list.set_intros)
      then show False using Cons.prems(2) that(2) by force
    qed
    moreover have "distinct (snd e)" using lookup listeners_wf_distinct [OF assms] by simp
    ultimately show ?case using Cons by auto
  qed simp
  then show ?thesis using keys by (simp add: table_keys_distinct_def)
qed

lemma table_lists_live: "listeners_wf L \<Longrightarrow> set (concat (map snd (sub_table L))) = dom (sub_heap L)"
proof (intro equalityI subsetI)
  fix a assume wf: "listeners_wf L" and "a \<in> set (concat (map snd (sub_table L)))"
  then show "a \<in> dom (sub_heap L)"
    using table_entry_lookup [of L] listeners_wf_live [OF wf] by (fastforce simp: listeners_wf_def)
next
  fix a assume wf: "listeners_wf L" and "a \<in> dom (sub_heap L)"
  then obtain s where "sub_heap L a = Some s" by auto
  then have "a \<in> set (table_lookup L (sub_channel s))"
    using wf listeners_wf_filed by blast
  then show "a \<in> set (concat (map snd (sub_table L)))"
  proof -
    obtain as where "map_of (sub_table L) (sub_channel s) = Some as" "a \<in> set as"
      using \<open>a \<in> set (table_lookup L (sub_channel s))\<close>
      by (cases "map_of (sub_table L) (sub_channel s)") (auto simp: table_lookup_def)
    then show ?thesis by (force dest: map_of_SomeD)
  qed
qed

lemma listener_destroy_Ok:
  assumes "listeners_wf L"
  shows "cometd_listener_destroy L = Ok (L\<lparr>sub_heap := Map.empty, sub_table := []\<rparr>)"
proof -
  let ?as = "concat (map snd (sub_table L))"
  have "heap_free_list (sub_heap L) ?as = Ok (sub_heap L |` (- set ?as))"
    using table_lists_distinct table_lists_live assms by (intro heap_free_list_eq_Ok) simp_all
  moreover have "sub_heap L |` (- set ?as) = Map.empty"
    unfolding table_lists_live [OF assms] by (auto simp: restrict_map_def fun_eq_iff)
  ultimately show ?thesis by (simp add: cometd_listener_destroy_def destroy_lists_concat)
qed

section \<open>The table as an interface\<close>

text \<open>
  What the subscribing code relies on: adding files one new pointer at the end of its
  channel's list and removing takes one pointer out, with nothing else changed.
\<close>

locale callback_registry =
  fixes wf :: "'r \<Rightarrow> bool"
    and callbacks :: "'r \<Rightarrow> string \<Rightarrow> addr list"
    and add :: "'r \<Rightarrow> string \<Rightarrow> 'c \<Rightarrow> addr option \<times> 'r"
    and remove :: "'r \<Rightarrow> addr option \<Rightarrow> (int \<times> 'r) outcome"
  assumes add_wf: "wf r \<Longrightarrow> add r c k = (p, r') \<Longrightarrow> wf r'"
    and add_callbacks: "wf r \<Longrightarrow> add r c k = (Some a, r') \<Longrightarrow>
      callbacks r' d = (if d = c then callbacks r c @ [a] else callbacks r d)"
    and add_fresh: "wf r \<Longrightarrow> add r c k = (Some a, r') \<Longrightarrow> a \<notin> set (callbacks r d)"
    and remove_wf: "wf r \<Longrightarrow> remove r p = Ok (code, r') \<Longrightarrow> wf r'"
    and remove_callbacks: "wf r \<Longrightarrow> a \<in> set (callbacks r c) \<Longrightarrow>
      \<exists>r'. remove r (Some a) = Ok (COMETD_SUCCESS, r') \<and>
        (\<forall>d. callbacks r' d = (if d = c then remove1 a (callbacks r c) else callbacks r d))"
    and remove_dead: "wf r \<Longrightarrow> \<forall>c. a \<notin> set (callbacks r c) \<Longrightarrow>
      remove r (Some a) = Fault Use_after_free"
    and callbacks_distinct: "wf r \<Longrightarrow> distinct (callbacks r c)"
    and callbacks_unique: "wf r \<Longrightarrow> a \<in> set (callbacks r c) \<Longrightarrow> a \<in> set (callbacks r d) \<Longrightarrow> c = d"
begin

lemma add_remove:
  assumes "wf r" and "add r c k = (Some a, r')"
  shows "\<exists>r''. remove r' (Some a) = Ok (COMETD_SUCCESS, r'') \<and> wf r'' \<and>
    (\<forall>d. callbacks r'' d = callbacks r d)"
proof -
  have cb: "callbacks r' d = (if d = c then callbacks r c @ [a] else callbacks r d)" for d
    using add_callbacks [OF assms] .
  have "wf r'" using add_wf assms by blast
  moreover have "a \<in> set (callbacks r' c)" by (simp add: cb)
  ultimately obtain r'' where "remove r' (Some a) = Ok (COMETD_SUCCESS, r'')"
    "\<forall>d. callbacks r'' d = (if d = c then remove1 a (callbacks r' c) else callbacks r' d)"
    using remove_callbacks by blast
  moreover have "remove1 a (callbacks r c @ [a]) = callbacks r c"
    using add_fresh [OF assms] by (simp add: remove1_append)
  ultimately show ?thesis
    using remove_wf \<open>wf r'\<close> cb by auto
qed

lemma remove_twice:
  assumes "wf r" and "a \<in> set (callbacks r c)" and "remove r (Some a) = Ok (code, r')"
  shows "remove r' (Some a) = Fault Use_after_free"
proof -
  have "callbacks r' d = (if d = c then remove1 a (callbacks r c) else callbacks r d)" for d
    using remove_callbacks [OF assms(1,2)] assms(3) by auto
  then have "a \<notin> set (callbacks r' d)" for d
    using callbacks_distinct [OF assms(1)] callbacks_unique [OF assms(1,2)] by auto
  then show ?thesis using remove_dead remove_wf assms(1,3) by blast
qed

end

interpretation lr: callback_registry listeners_wf table_lookup "cometd_listener_add True"
  cometd_listener_remove
proof unfold_locales
  show "listeners_wf L'" if "listeners_wf L" "cometd_listener_add True L c k = (p, L')" for L c k p L'
    using listener_add_wf that by (metis snd_conv)
  show "\<exists>L'. cometd_listener_remove L (Some a) = Ok (COMETD_SUCCESS, L') \<and>
      (\<forall>d. table_lookup L' d = (if d = c then remove1 a (table_lookup L c) else table_lookup L d))"
    if "listeners_wf L" "a \<in> set (table_lookup L c)" for L a c
    using that by (rule listener_remove_filed)
  show "table_lookup L' d = (if d = c then table_lookup L c @ [a] else table_lookup L d)"
    if "listeners_wf L" "cometd_listener_add True L c k = (Some a, L')" for L c k a L' d
    using that by (rule listener_add_Some(3))
qed (auto dest: listener_add_Some(4) listener_remove_wf listener_remove_unfiled
    listeners_wf_distinct intro: listeners_wf_unique)

section \<open>Properties\<close>

text \<open>
  C19. A message on a channel reaches every listener whose channel globs it, reaches it
  once, and reaches no other listener: with a consistent table, \<open>cometd_listener_get\<close>
  returns without a fault a list without duplicates that holds exactly the live
  subscriptions whose (absolute) channel globs the message's.
\<close>

theorem listener_get_delivers:
  assumes "listeners_wf L" and "message_channel c"
  shows "\<exists>as. cometd_listener_get L (Some c) = Ok as \<and> distinct as \<and>
    (\<forall>a s. sub_heap L a = Some s \<and> absolute_channel (sub_channel s) \<longrightarrow>
       (a \<in> set as \<longleftrightarrow> channel_globs (sub_channel s) c)) \<and>
    set as \<subseteq> dom (sub_heap L)"
proof -
  let ?as = "concat (map (table_lookup L) (cometd_channel_matches (Some c)))"
  have "cometd_listener_get L (Some c) = Ok ?as"
    using assms(2) by (intro listener_get_concat message_channel_not_wildcard)
  moreover have "distinct ?as"
    using assms listeners_wf_distinct listeners_wf_unique by (intro cm.delivered_once) blast+
  moreover have "a \<in> set ?as \<longleftrightarrow> channel_globs (sub_channel s) c"
    if "sub_heap L a = Some s" "absolute_channel (sub_channel s)" for a s
    using assms that listeners_wf_filed listeners_wf_unique by (intro cm.delivered_iff) blast+
  moreover have "set ?as \<subseteq> dom (sub_heap L)"
    using listeners_wf_live [OF assms(1)] by fastforce
  ultimately show ?thesis by blast
qed

definition example_listeners :: listeners where
  "example_listeners = snd (cometd_listener_add True (snd (cometd_listener_add True
     cometd_listener_new ''/foo/*'' (User_callback 0))) ''/bar'' (User_callback 1))"

lemma example_listeners_wf: "listeners_wf example_listeners"
  by (simp add: example_listeners_def listener_add_wf)

lemma listener_get_delivers_witness:
  "\<exists>as. cometd_listener_get example_listeners (Some ''/foo/x'') = Ok as \<and> distinct as"
  using listener_get_delivers [OF example_listeners_wf, of "''/foo/x''"]
  by (auto simp: message_channel_def absolute_channel_def channel_segments_def
      COMETD_MAX_CHANNEL_LEN_def COMETD_MAX_CHANNEL_PARTS_def)

text \<open>
  Adding a listener and removing it again gives back the old lists on every channel,
  and removing a subscription a second time reads freed memory.
\<close>

theorem listener_add_then_remove:
  assumes "listeners_wf L" and "cometd_listener_add True L c cb = (Some a, L')"
  shows "\<exists>L''. cometd_listener_remove L' (Some a) = Ok (COMETD_SUCCESS, L'') \<and>
    listeners_wf L'' \<and> (\<forall>d. table_lookup L'' d = table_lookup L d) \<and>
    cometd_listener_remove L'' (Some a) = Fault Use_after_free"
proof -
  obtain L'' where L'': "cometd_listener_remove L' (Some a) = Ok (COMETD_SUCCESS, L'')"
    "listeners_wf L''" "\<forall>d. table_lookup L'' d = table_lookup L d"
    using lr.add_remove [OF assms] by blast
  have "listeners_wf L'" using lr.add_wf assms by blast
  moreover have "a \<in> set (table_lookup L' c)" by (simp add: listener_add_Some(3) [OF assms])
  ultimately show ?thesis using L'' lr.remove_twice by blast
qed

lemma listener_add_then_remove_witness:
  "\<exists>L' L''. cometd_listener_add True example_listeners ''/foo'' (User_callback 2) = (Some 2, L') \<and>
    cometd_listener_remove L' (Some 2) = Ok (COMETD_SUCCESS, L'')"
proof -
  obtain L' where L': "cometd_listener_add True example_listeners ''/foo'' (User_callback 2) = (Some 2, L')"
    by (simp add: example_listeners_def cometd_listener_add_def Let_def cometd_listener_new_def
        COMETD_MAX_CHANNEL_LEN_def)
  show ?thesis using listener_add_then_remove [OF example_listeners_wf L'] L' by blast
qed

text \<open>
  A channel name is accepted when it has 1 to 510 characters: then one more listener
  is counted on that channel, and otherwise, or without memory, nothing changes and the
  caller gets NULL.
\<close>

theorem listener_add_bounds:
  "case cometd_listener_add m L c cb of (p, L') \<Rightarrow>
     if m \<and> 1 \<le> length c \<and> length c \<le> 510
     then p = Some (sub_next L) \<and>
       cometd_listener_count L' (Some c) = cometd_listener_count L (Some c) + 1
     else p = None \<and> L' = L"
  by (auto simp: cometd_listener_add_def cometd_listener_count_def Let_def
      COMETD_MAX_CHANNEL_LEN_def Suc_le_eq)

text \<open>
  Destroying a consistent table frees every subscription exactly once: no fault, and
  no live subscription is left.
\<close>

theorem listener_destroy_frees_all:
  assumes "listeners_wf L"
  shows "\<exists>L'. cometd_listener_destroy L = Ok L' \<and> sub_heap L' = Map.empty \<and> sub_table L' = []"
  using listener_destroy_Ok [OF assms] by simp

lemma listener_destroy_frees_all_witness:
  "\<exists>L'. cometd_listener_destroy example_listeners = Ok L' \<and> sub_heap L' = Map.empty"
  using listener_destroy_frees_all [OF example_listeners_wf] by blast

end
