(* ===== verification/Json.thy ===== *)
theory Json
  imports Prelude
begin

text \<open>
  The JSON documents of json-glib as the code handles them. A \<open>JsonNode\<close> is a tree; a
  \<open>JsonObject\<close> is an association list in member order, on which setting a member
  replaces its value in place or appends it. Reading a member that is there with the type
  asked for gives its value. What the library returns for a member that is missing or of
  another type is not in this repository: it is the parameter \<open>json_glib\<close>, with the
  documented case (a missing member is reported and read as NULL, 0 or FALSE) as the named
  hypothesis \<open>json_glib_ok\<close>. The generator and the parser are parameters too.
\<close>

datatype json =
    JNull
  | JBool bool
  | JInt int
  | JDouble "64 word"
  | JString string
  | JArray "json list"
  | JObject "(string \<times> json) list"

type_synonym json_object = "(string \<times> json) list"

text \<open>\<open>None\<close> stands for a NULL \<open>JsonNode*\<close> throughout.\<close>

record json_glib =
  string_of_other :: "json option \<Rightarrow> string option"
  int_of_other :: "json option \<Rightarrow> int"
  boolean_of_other :: "json option \<Rightarrow> bool"
  array_of_other :: "json option \<Rightarrow> json list option"
  object_of_other :: "json option \<Rightarrow> json_object option"
  null_string_node :: json
  generator_to_data :: "json option \<Rightarrow> string option"
  parser_root :: "string \<Rightarrow> json option"

definition json_glib_ok :: "json_glib \<Rightarrow> bool" where
  "json_glib_ok G \<longleftrightarrow>
     string_of_other G None = None \<and> int_of_other G None = 0 \<and>
     boolean_of_other G None = False \<and> array_of_other G None = None \<and>
     object_of_other G None = None"

text \<open>
  For a given document: what the generator writes for it is a C string (without a zero
  byte) that the parser reads back.
\<close>

definition json_text_ok :: "json_glib \<Rightarrow> json \<Rightarrow> bool" where
  "json_text_ok G n \<longleftrightarrow> (case generator_to_data G (Some n) of
       None \<Rightarrow> True
     | Some d \<Rightarrow> parser_root G d = Some n \<and> CHR 0x00 \<notin> set d)"

section \<open>Member access\<close>

definition json_object_has_member :: "json_object \<Rightarrow> string \<Rightarrow> bool" where
  "json_object_has_member obj name \<longleftrightarrow> map_of obj name \<noteq> None"

definition json_object_get_string_member ::
  "json_glib \<Rightarrow> json_object \<Rightarrow> string \<Rightarrow> string option" where
  "json_object_get_string_member G obj name =
     (case map_of obj name of Some (JString s) \<Rightarrow> Some s | other \<Rightarrow> string_of_other G other)"

definition json_object_get_int_member :: "json_glib \<Rightarrow> json_object \<Rightarrow> string \<Rightarrow> int" where
  "json_object_get_int_member G obj name =
     (case map_of obj name of Some (JInt i) \<Rightarrow> i | other \<Rightarrow> int_of_other G other)"

definition json_object_get_boolean_member :: "json_glib \<Rightarrow> json_object \<Rightarrow> string \<Rightarrow> bool" where
  "json_object_get_boolean_member G obj name =
     (case map_of obj name of Some (JBool b) \<Rightarrow> b | other \<Rightarrow> boolean_of_other G other)"

definition json_object_get_array_member ::
  "json_glib \<Rightarrow> json_object \<Rightarrow> string \<Rightarrow> json list option" where
  "json_object_get_array_member G obj name =
     (case map_of obj name of Some (JArray a) \<Rightarrow> Some a | other \<Rightarrow> array_of_other G other)"

definition json_object_get_object_member ::
  "json_glib \<Rightarrow> json_object \<Rightarrow> string \<Rightarrow> json_object option" where
  "json_object_get_object_member G obj name =
     (case map_of obj name of Some (JObject ob) \<Rightarrow> Some ob | other \<Rightarrow> object_of_other G other)"

definition json_object_set_member :: "json_object \<Rightarrow> string \<Rightarrow> json \<Rightarrow> json_object" where
  "json_object_set_member obj name v = AList.update name v obj"

text \<open>A string member set from a \<open>char*\<close> that may be NULL.\<close>

definition json_string_node :: "json_glib \<Rightarrow> string option \<Rightarrow> json" where
  "json_string_node G s = (case s of Some t \<Rightarrow> JString t | None \<Rightarrow> null_string_node G)"

text \<open>
  A node that is not of the container type asked for, or NULL, has no container: the
  library reports it and returns NULL, and the element list of NULL is empty.
\<close>

fun json_node_get_object :: "json option \<Rightarrow> json_object option" where
  "json_node_get_object (Some (JObject obj)) = Some obj"
| "json_node_get_object _ = None"

fun json_node_get_array :: "json option \<Rightarrow> json list option" where
  "json_node_get_array (Some (JArray arr)) = Some arr"
| "json_node_get_array _ = None"

definition json_array_get_elements :: "json list option \<Rightarrow> json list" where
  "json_array_get_elements arr = (case arr of None \<Rightarrow> [] | Some xs \<Rightarrow> xs)"

definition json_node_dup_string :: "json_glib \<Rightarrow> json \<Rightarrow> string option" where
  "json_node_dup_string G n = (case n of JString s \<Rightarrow> Some s | other \<Rightarrow> string_of_other G (Some other))"

text \<open>
  \<open>json_node_copy\<close> takes a reference to the object or array of a node instead of copying it. So a copy
  goes on showing what is changed in that container: \<open>later\<close> is the node after code that keeps
  its container and changes it in place. A plain value belongs to its node.
\<close>

definition json_node_copy :: "json \<Rightarrow> json option \<Rightarrow> json" where
  "json_node_copy node later =
     (case (node, later) of
        (JObject _, Some (JObject obj)) \<Rightarrow> JObject obj
      | (JArray _, Some (JArray arr)) \<Rightarrow> JArray arr
      | _ \<Rightarrow> node)"

section \<open>Serialising (\<^verbatim>\<open>src/src/json.c\<close>)\<close>

definition cometd_json_node2str :: "json_glib \<Rightarrow> json option \<Rightarrow> string option" where
  "cometd_json_node2str G node = generator_to_data G node"

text \<open>
  The argument is a buffer of which \<open>strlen\<close> looks for the first zero byte; where there is
  none it reads past the end. The parser gets the bytes before it; the root of a failed
  parse is NULL, and so is its copy.
\<close>

definition c_string :: "string \<Rightarrow> string outcome" where
  "c_string buf = (if CHR 0x00 \<in> set buf then Ok (takeWhile (\<lambda>c. c \<noteq> CHR 0x00) buf)
                   else Fault Out_of_bounds)"

definition cometd_json_str2node :: "json_glib \<Rightarrow> string \<Rightarrow> json option outcome" where
  "cometd_json_str2node G str = obind (c_string str) (\<lambda>s. Ok (parser_root G s))"

section \<open>Lemmas\<close>

lemma json_object_get_string_JString [simp]:
  "map_of obj name = Some (JString s) \<Longrightarrow> json_object_get_string_member G obj name = Some s"
  by (simp add: json_object_get_string_member_def)

lemma json_object_get_string_missing [simp]:
  "json_glib_ok G \<Longrightarrow> map_of obj name = None \<Longrightarrow> json_object_get_string_member G obj name = None"
  by (simp add: json_object_get_string_member_def json_glib_ok_def)

lemma json_object_get_int_JInt [simp]:
  "map_of obj name = Some (JInt i) \<Longrightarrow> json_object_get_int_member G obj name = i"
  by (simp add: json_object_get_int_member_def)

lemma json_object_get_int_missing [simp]:
  "json_glib_ok G \<Longrightarrow> map_of obj name = None \<Longrightarrow> json_object_get_int_member G obj name = 0"
  by (simp add: json_object_get_int_member_def json_glib_ok_def)

lemma json_object_get_boolean_JBool [simp]:
  "map_of obj name = Some (JBool b) \<Longrightarrow> json_object_get_boolean_member G obj name = b"
  by (simp add: json_object_get_boolean_member_def)

lemma json_object_get_array_JArray [simp]:
  "map_of obj name = Some (JArray a) \<Longrightarrow> json_object_get_array_member G obj name = Some a"
  by (simp add: json_object_get_array_member_def)

lemma json_object_get_array_missing [simp]:
  "json_glib_ok G \<Longrightarrow> map_of obj name = None \<Longrightarrow> json_object_get_array_member G obj name = None"
  by (simp add: json_object_get_array_member_def json_glib_ok_def)

lemma json_object_get_object_JObject [simp]:
  "map_of obj name = Some (JObject ob) \<Longrightarrow> json_object_get_object_member G obj name = Some ob"
  by (simp add: json_object_get_object_member_def)

lemma map_of_set_member [simp]:
  "map_of (json_object_set_member obj name v) = (map_of obj)(name \<mapsto> v)"
  by (simp add: json_object_set_member_def)

lemma has_member_set_member [simp]:
  "json_object_has_member (json_object_set_member obj name v) n \<longleftrightarrow>
     n = name \<or> json_object_has_member obj n"
  by (simp add: json_object_has_member_def)

lemma json_string_node_Some [simp]: "json_string_node G (Some s) = JString s"
  by (simp add: json_string_node_def)

lemma json_node_get_object_eq_Some [simp]:
  "json_node_get_object n = Some obj \<longleftrightarrow> n = Some (JObject obj)"
  by (cases n rule: json_node_get_object.cases) auto

lemma json_node_get_array_eq_Some [simp]:
  "json_node_get_array n = Some arr \<longleftrightarrow> n = Some (JArray arr)"
  by (cases n rule: json_node_get_array.cases) auto

lemma json_array_get_elements_simps [simp]:
  "json_array_get_elements (Some xs) = xs" "json_array_get_elements None = []"
  by (simp_all add: json_array_get_elements_def)

lemma c_string_terminated: "CHR 0x00 \<notin> set d \<Longrightarrow> c_string (d @ CHR 0x00 # junk) = Ok d"
proof -
  assume "CHR 0x00 \<notin> set d"
  then have "takeWhile (\<lambda>c. c \<noteq> CHR 0x00) (d @ CHR 0x00 # junk) = d"
    by (induction d) auto
  then show ?thesis by (simp add: c_string_def)
qed

lemma str2node_node2str:
  assumes "json_text_ok G n" and "cometd_json_node2str G (Some n) = Some d"
  shows "cometd_json_str2node G (d @ CHR 0x00 # junk) = Ok (Some n)"
  using assms c_string_terminated
  by (auto simp: json_text_ok_def cometd_json_node2str_def cometd_json_str2node_def)

text \<open>
  An instance for evaluating examples: every read of a missing member gives NULL, and the
  generator and parser know one document.
\<close>

definition example_json_lib :: "json option \<Rightarrow> json_glib" where
  "example_json_lib reply = \<lparr>string_of_other = (\<lambda>_. None), int_of_other = (\<lambda>_. 0),
     boolean_of_other = (\<lambda>_. False), array_of_other = (\<lambda>_. None),
     object_of_other = (\<lambda>_. None), null_string_node = JNull,
     generator_to_data = (\<lambda>_. Some ''{}''), parser_root = (\<lambda>_. reply)\<rparr>"

lemma example_json_lib_ok [simp]: "json_glib_ok (example_json_lib reply)"
  by (simp add: json_glib_ok_def example_json_lib_def)

end
