(* ===== verification/Handle.thy ===== *)
theory Handle
  imports Event Json
begin

text \<open>
  The client handle and everything it points to (\<^verbatim>\<open>src/include/cometd.h\<close> and the headers
  under \<^verbatim>\<open>src/include/cometd/\<close>), the environment the library runs in, the error slot, the
  configuration calls and the run loop's function table (\<^verbatim>\<open>src/src/loop.c\<close> and the part of
  \<^verbatim>\<open>src/src/loops/gthread.c\<close> that is not the thread's body).
\<close>

section \<open>Function pointers\<close>

text \<open>
  The library stores function pointers of its own and of the user program. A value of these
  types says which function a pointer refers to; the user's are numbered, and what they
  do is a parameter of the model.
\<close>

datatype send_function = Long_polling_send | User_send nat
datatype recv_function = Long_polling_recv | User_recv nat
datatype ext_function = Logger_incoming | Logger_outgoing | Yammer_outgoing | User_ext nat
datatype loop_function = Gthread | User_loop nat

record cometd_transport =
  tr_name :: string
  tr_send :: "send_function option"
  tr_recv :: "recv_function option"

record cometd_ext_t =
  incoming :: "ext_function option"
  outgoing :: "ext_function option"

text \<open>
  The extension record is called \<open>cometd_ext_t\<close>: \<open>cometd_ext\<close> is the name Isabelle gives
  to the extension type of the handle's record.
\<close>

text \<open>The thread field of the gthread loop: not yet written, a running thread, or NULL.\<close>

datatype thread_field = Thread_unset | Thread_started | Thread_null

record cometd_loop =
  loop_start :: "loop_function option"
  loop_stop :: "loop_function option"
  loop_wait :: "loop_function option"
  loop_destroy :: "loop_function option"
  loop_thread :: thread_field

section \<open>The handle\<close>

record cometd_config =
  url :: string
  backoff_increment :: int
  max_backoff :: int
  max_network_delay :: int
  request_timeout :: int
  append_message_type_to_url :: int
  transports :: "addr list"

record cometd_sys_s =
  handshake_handler :: "addr option"
  connect_handler :: "addr option"
  subscribe_handler :: "addr option"
  unsubscribe_handler :: "addr option"
  disconnect_handler :: "addr option"

text \<open>
  One handle with the heaps its pointers lead into, the token of the yammer extension (a
  global of the library), what was printed, and the state of the world outside the library.
  The inbox's queue is the only part of the inbox that carries data.
\<close>

record 'w cometd =
  conn :: cometd_conn
  config :: cometd_config
  last_error :: cometd_error_st
  loop :: cometd_loop
  inbox :: "json list"
  subscriptions :: listeners
  sys_s :: cometd_sys_s
  exts :: "addr list"
  transport_heap :: "cometd_transport heap"
  ext_heap :: "cometd_ext_t heap"
  next_addr :: addr
  g_token :: "string option"
  stdout :: "(string \<times> string option \<times> string option) list"
  world :: 'w

section \<open>The environment\<close>

text \<open>What libcurl and the allocator answer during one POST.\<close>

record http_request =
  req_url :: string
  req_header :: string
  req_body :: string
  req_timeout_ms :: int

record curl_result =
  curl_init_ok :: bool
  body_malloc :: "char option"              \<comment> \<open>the byte that \<open>malloc (1)\<close> gives, or NULL\<close>
  body_chunks :: "(string \<times> bool) list"    \<comment> \<open>delivered pieces; whether \<open>realloc\<close> had memory\<close>
  perform_ok :: bool
  response_code :: int

text \<open>
  The code outside this repository: json-glib, libcurl, the C library's sleep, whether
  \<open>malloc\<close> gives memory for the subscription at an address, the join of the loop thread
  (the rest of its run), and the user program's callbacks, extensions, transports and
  loops, each a function of the message and the whole state.
\<close>

record 'w env =
  json_lib :: json_glib
  curl_post :: "http_request \<Rightarrow> 'w \<Rightarrow> curl_result \<times> 'w"
  usleep :: "int \<Rightarrow> 'w \<Rightarrow> 'w"
  sub_malloc_ok :: "addr \<Rightarrow> bool"
  g_thread_join :: "'w cometd \<Rightarrow> 'w cometd"
  user_callback :: "nat \<Rightarrow> json option \<Rightarrow> 'w cometd \<Rightarrow> (int \<times> json option \<times> 'w cometd) outcome"
  user_ext :: "nat \<Rightarrow> json option \<Rightarrow> 'w cometd \<Rightarrow> (json option \<times> 'w cometd) outcome"
  user_send :: "nat \<Rightarrow> json option \<Rightarrow> 'w cometd \<Rightarrow> (json option \<times> 'w cometd) outcome"
  user_recv :: "nat \<Rightarrow> 'w cometd \<Rightarrow> (json option \<times> 'w cometd) outcome"
  user_loop_start :: "nat \<Rightarrow> 'w cometd \<Rightarrow> (int \<times> 'w cometd) outcome"
  user_loop_stop :: "nat \<Rightarrow> 'w cometd \<Rightarrow> 'w cometd outcome"
  user_loop_wait :: "nat \<Rightarrow> int \<Rightarrow> 'w cometd \<Rightarrow> 'w cometd outcome"
  user_loop_destroy :: "nat \<Rightarrow> 'w cometd \<Rightarrow> 'w cometd outcome"

section \<open>Errors, current transport\<close>

definition cometd_error :: "int \<Rightarrow> string \<Rightarrow> 'w cometd \<Rightarrow> int \<times> 'w cometd" where
  "cometd_error code message h =
     (code, h\<lparr>last_error := \<lparr>err_code = code, err_message = Some message\<rparr>\<rparr>)"

definition cometd_last_error :: "'w cometd \<Rightarrow> cometd_error_st" where
  "cometd_last_error h = last_error h"

definition cometd_current_transport :: "'w cometd \<Rightarrow> addr option" where
  "cometd_current_transport h = transport (conn h)"

text \<open>Reading the transport object a pointer refers to.\<close>

definition read_transport :: "addr option \<Rightarrow> 'w cometd \<Rightarrow> cometd_transport outcome" where
  "read_transport t h = obind (deref_null t) (\<lambda>a. heap_read (transport_heap h) a)"

section \<open>Run loops\<close>

definition cometd_loop_malloc :: cometd_loop where
  "cometd_loop_malloc = \<lparr>loop_start = None, loop_stop = None, loop_wait = None,
     loop_destroy = None, loop_thread = Thread_unset\<rparr>"

definition cometd_loop_gthread_new :: cometd_loop where
  "cometd_loop_gthread_new = cometd_loop_malloc\<lparr>loop_start := Some Gthread,
     loop_stop := Some Gthread, loop_destroy := Some Gthread, loop_wait := Some Gthread\<rparr>"

text \<open>
  Starting the gthread loop creates the thread and returns 0; the thread's body is
  \<open>cometd_loop_gthread_run\<close>, modelled separately.
\<close>

definition cometd_loop_gthread_start :: "'w cometd \<Rightarrow> int \<times> 'w cometd" where
  "cometd_loop_gthread_start h = (0, h\<lparr>loop := (loop h)\<lparr>loop_thread := Thread_started\<rparr>\<rparr>)"

text \<open>Joining an unset thread field uses an indeterminate pointer; joining NULL is reported and ignored.\<close>

definition cometd_loop_gthread_stop :: "'w env \<Rightarrow> 'w cometd \<Rightarrow> 'w cometd outcome" where
  "cometd_loop_gthread_stop E h =
     (case loop_thread (loop h) of
        Thread_unset \<Rightarrow> Fault Out_of_bounds
      | Thread_null \<Rightarrow> Ok h
      | Thread_started \<Rightarrow>
          let h = g_thread_join E h
          in Ok (h\<lparr>loop := (loop h)\<lparr>loop_thread := Thread_null\<rparr>\<rparr>))"

text \<open>\<open>usleep\<close> takes an unsigned 32-bit count of microseconds.\<close>

definition cometd_loop_gthread_wait :: "'w env \<Rightarrow> int \<Rightarrow> 'w cometd \<Rightarrow> 'w cometd outcome" where
  "cometd_loop_gthread_wait E millis h =
     (if millis < 1 then Ok h
      else obind (long_result (millis * 1000)) (\<lambda>us.
        Ok (h\<lparr>world := usleep E (uint (word_of_int us :: 32 word)) (world h)\<rparr>)))"

definition cometd_loop_start :: "'w env \<Rightarrow> 'w cometd \<Rightarrow> (int \<times> 'w cometd) outcome" where
  "cometd_loop_start E h =
     (case loop_start (loop h) of
        None \<Rightarrow> Fault Assertion_failed
      | Some Gthread \<Rightarrow> Ok (cometd_loop_gthread_start h)
      | Some (User_loop n) \<Rightarrow> user_loop_start E n h)"

definition cometd_loop_stop :: "'w env \<Rightarrow> 'w cometd \<Rightarrow> 'w cometd outcome" where
  "cometd_loop_stop E h =
     (case loop_stop (loop h) of
        None \<Rightarrow> Fault Assertion_failed
      | Some Gthread \<Rightarrow> cometd_loop_gthread_stop E h
      | Some (User_loop n) \<Rightarrow> user_loop_stop E n h)"

definition cometd_loop_wait :: "'w env \<Rightarrow> int \<Rightarrow> 'w cometd \<Rightarrow> 'w cometd outcome" where
  "cometd_loop_wait E millis h =
     (case loop_wait (loop h) of
        None \<Rightarrow> Fault Assertion_failed
      | Some Gthread \<Rightarrow> cometd_loop_gthread_wait E millis h
      | Some (User_loop n) \<Rightarrow> user_loop_wait E n millis h)"

text \<open>The gthread destructor frees the loop's private memory, which nothing else refers to.\<close>

definition cometd_loop_destroy :: "'w env \<Rightarrow> 'w cometd \<Rightarrow> 'w cometd outcome" where
  "cometd_loop_destroy E h =
     (case loop_destroy (loop h) of
        None \<Rightarrow> Ok h
      | Some Gthread \<Rightarrow> Ok h
      | Some (User_loop n) \<Rightarrow> user_loop_destroy E n h)"

section \<open>Configuration\<close>

datatype cometd_opt =
    COMETDOPT_URL string
  | COMETDOPT_REQUEST_TIMEOUT int
  | COMETDOPT_LOOP cometd_loop
  | COMETDOPT_BACKOFF_INCREMENT int
  | COMETDOPT_MAX_BACKOFF int

fun cometd_configure :: "'w env \<Rightarrow> cometd_opt \<Rightarrow> 'w cometd \<Rightarrow> (int \<times> 'w cometd) outcome" where
  "cometd_configure E (COMETDOPT_URL v) h = Ok (0, h\<lparr>config := (config h)\<lparr>url := v\<rparr>\<rparr>)"
| "cometd_configure E (COMETDOPT_REQUEST_TIMEOUT v) h =
     Ok (0, h\<lparr>config := (config h)\<lparr>request_timeout := v\<rparr>\<rparr>)"
| "cometd_configure E (COMETDOPT_LOOP v) h =
     obind (cometd_loop_destroy E h) (\<lambda>h. Ok (0, h\<lparr>loop := v\<rparr>))"
| "cometd_configure E (COMETDOPT_BACKOFF_INCREMENT v) h =
     Ok (0, h\<lparr>config := (config h)\<lparr>backoff_increment := v\<rparr>\<rparr>)"
| "cometd_configure E (COMETDOPT_MAX_BACKOFF v) h =
     Ok (0, h\<lparr>config := (config h)\<lparr>max_backoff := v\<rparr>\<rparr>)"

section \<open>Listeners of the handle\<close>

definition cometd_add_listener ::
  "'w env \<Rightarrow> string \<Rightarrow> cometd_callback \<Rightarrow> 'w cometd \<Rightarrow> addr option \<times> 'w cometd" where
  "cometd_add_listener E channel cb h =
     (case cometd_listener_add (sub_malloc_ok E (sub_next (subscriptions h)))
             (subscriptions h) channel cb of
        (s, L) \<Rightarrow> (s, h\<lparr>subscriptions := L\<rparr>))"

definition cometd_remove_listener ::
  "addr option \<Rightarrow> 'w cometd \<Rightarrow> (int \<times> 'w cometd) outcome" where
  "cometd_remove_listener s h =
     obind (cometd_listener_remove (subscriptions h) s) (\<lambda>(code, L).
       Ok (code, h\<lparr>subscriptions := L\<rparr>))"

definition cometd_conn_subscriptions :: "'w cometd \<Rightarrow> listeners" where
  "cometd_conn_subscriptions h = subscriptions h"

section \<open>Lemmas\<close>

lemma read_transport_eq_Ok [outcome_simps]:
  "read_transport t h = Ok x \<longleftrightarrow> (\<exists>a. t = Some a \<and> transport_heap h a = Some x)"
  by (auto simp: read_transport_def outcome_simps)

lemma read_transport_live [heap_simps]:
  "transport_heap h a = Some x \<Longrightarrow> read_transport (Some a) h = Ok x"
  by (simp add: read_transport_def heap_simps)

lemma loop_wait_zero [simp]:
  "loop_wait (loop h) = Some Gthread \<Longrightarrow> cometd_loop_wait E 0 h = Ok h"
  by (simp add: cometd_loop_wait_def cometd_loop_gthread_wait_def)

section \<open>An example environment\<close>

text \<open>
  For evaluating examples: a server that gives every request the same answer, a world that
  is the list of requests made, user code that does nothing and succeeds.
\<close>

definition example_env :: "json_glib \<Rightarrow> curl_result \<Rightarrow> http_request list env" where
  "example_env G answer = \<lparr>json_lib = G, curl_post = (\<lambda>r w. (answer, w @ [r])),
     usleep = (\<lambda>us w. w), sub_malloc_ok = (\<lambda>_. True), g_thread_join = (\<lambda>h. h),
     user_callback = (\<lambda>k n h. Ok (0, n, h)), user_ext = (\<lambda>k n h. Ok (n, h)),
     user_send = (\<lambda>k n h. Ok (None, h)), user_recv = (\<lambda>k h. Ok (None, h)),
     user_loop_start = (\<lambda>k h. Ok (0, h)), user_loop_stop = (\<lambda>k h. Ok h),
     user_loop_wait = (\<lambda>k m h. Ok h), user_loop_destroy = (\<lambda>k h. Ok h)\<rparr>"

definition answer_with :: "(string \<times> bool) list \<Rightarrow> int \<Rightarrow> curl_result" where
  "answer_with pieces code = \<lparr>curl_init_ok = True, body_malloc = Some CHR ''x'',
     body_chunks = pieces, perform_ok = True, response_code = code\<rparr>"

definition example_handle :: "http_request list cometd" where
  "example_handle = \<lparr>conn = cometd_conn_new,
     config = \<lparr>url = ''http://localhost'', backoff_increment = 1000, max_backoff = 30000,
       max_network_delay = 1000, request_timeout = 60000, append_message_type_to_url = 1,
       transports = []\<rparr>,
     last_error = cometd_error_new, loop = cometd_loop_gthread_new, inbox = [],
     subscriptions = cometd_listener_new,
     sys_s = \<lparr>handshake_handler = None, connect_handler = None,
       subscribe_handler = None, unsubscribe_handler = None, disconnect_handler = None\<rparr>, exts = [],
     transport_heap = Map.empty, ext_heap = Map.empty, next_addr = 0, g_token = None,
     stdout = [], world = []\<rparr>"

lemmas example_defs = example_env_def answer_with_def example_handle_def example_json_lib_def

end
