(* ===== verification/Msg.thy ===== *)
theory Msg
  imports Handle
begin

text \<open>
  Reading and building messages (\<^verbatim>\<open>src/src/msg.c\<close> and the message constructors of
  \<^verbatim>\<open>src/src/cometd.c\<close>). \<open>strcmp\<close> and \<open>strdup\<close> on a NULL string are faults, so the
  readers return an outcome where the code hands them what a message did not contain.
\<close>

definition COMETD_CHANNEL_META_HANDSHAKE :: string where
  "COMETD_CHANNEL_META_HANDSHAKE = ''/meta/handshake''"
definition COMETD_CHANNEL_META_CONNECT :: string where
  "COMETD_CHANNEL_META_CONNECT = ''/meta/connect''"
definition COMETD_CHANNEL_META_SUBSCRIBE :: string where
  "COMETD_CHANNEL_META_SUBSCRIBE = ''/meta/subscribe''"
definition COMETD_CHANNEL_META_UNSUBSCRIBE :: string where
  "COMETD_CHANNEL_META_UNSUBSCRIBE = ''/meta/unsubscribe''"

lemmas channel_name_defs = COMETD_CHANNEL_META_HANDSHAKE_def COMETD_CHANNEL_META_CONNECT_def
  COMETD_CHANNEL_META_SUBSCRIBE_def COMETD_CHANNEL_META_UNSUBSCRIBE_def

section \<open>Readers\<close>

definition cometd_msg_is_successful :: "json_glib \<Rightarrow> json option \<Rightarrow> bool" where
  "cometd_msg_is_successful G node =
     (let msg = (case node of
          Some (JArray arr) \<Rightarrow> (if length arr > 0 then json_node_get_object (Some (arr ! 0)) else None)
        | Some (JObject obj) \<Rightarrow> Some obj
        | _ \<Rightarrow> None)
      in case msg of
           Some obj \<Rightarrow> if json_object_has_member obj ''successful''
                       then json_object_get_boolean_member G obj ''successful'' else False
         | None \<Rightarrow> False)"

definition cometd_msg_has_data :: "json option \<Rightarrow> bool" where
  "cometd_msg_has_data node =
     (case json_node_get_object node of None \<Rightarrow> False
      | Some obj \<Rightarrow> json_object_has_member obj ''data'')"

definition cometd_msg_channel :: "json_glib \<Rightarrow> json option \<Rightarrow> string option" where
  "cometd_msg_channel G node =
     (case json_node_get_object node of None \<Rightarrow> None
      | Some obj \<Rightarrow> json_object_get_string_member G obj ''channel'')"

definition cometd_msg_client_id :: "json_glib \<Rightarrow> json option \<Rightarrow> string option outcome" where
  "cometd_msg_client_id G node =
     (case json_node_get_object node of None \<Rightarrow> Ok None
      | Some obj \<Rightarrow>
          obind (deref_null (json_object_get_string_member G obj ''clientId'')) (\<lambda>s. Ok (Some s)))"

definition cometd_msg_supported_connection_types ::
  "json_glib \<Rightarrow> json option \<Rightarrow> string option list" where
  "cometd_msg_supported_connection_types G node =
     (case json_node_get_object node of None \<Rightarrow> []
      | Some obj \<Rightarrow>
          (case json_object_get_array_member G obj ''supportedConnectionTypes'' of
             None \<Rightarrow> []
           | Some arr \<Rightarrow> map (json_node_dup_string G) arr))"

definition cometd_msg_set_boolean_member :: "json option \<Rightarrow> string \<Rightarrow> bool \<Rightarrow> json outcome" where
  "cometd_msg_set_boolean_member node member val =
     obind (g_assert (json_node_get_object node \<noteq> None)) (\<lambda>_.
       Ok (JObject (json_object_set_member (the (json_node_get_object node)) member (JBool val))))"

section \<open>Advice\<close>

definition cometd_msg_advice :: "json_glib \<Rightarrow> json option \<Rightarrow> cometd_advice option outcome" where
  "cometd_msg_advice G node =
     (case json_node_get_object node of
        None \<Rightarrow> Ok None
      | Some obj \<Rightarrow>
          let advice_obj = (if json_object_has_member obj ''advice''
                            then json_object_get_object_member G obj ''advice'' else None)
          in case advice_obj of
               None \<Rightarrow> Ok None
             | Some ao \<Rightarrow>
                 let reconnect_str = json_object_get_string_member G ao ''reconnect'';
                     itv = json_object_get_int_member G ao ''interval''
                 in if reconnect_str \<noteq> None \<or> itv \<noteq> 0
                    then let a = cometd_advice_new\<lparr>interval := itv\<rparr>
                         in obind (deref_null reconnect_str) (\<lambda>r.
                              Ok (Some (if r = ''none'' then a\<lparr>reconnect := COMETD_RECONNECT_NONE\<rparr>
                                        else if r = ''handshake'' then a\<lparr>reconnect := COMETD_RECONNECT_HANDSHAKE\<rparr>
                                        else if r = ''retry'' then a\<lparr>reconnect := COMETD_RECONNECT_RETRY\<rparr>
                                        else a)))
                    else Ok None)"

fun reconnect_name :: "cometd_reconn_advice \<Rightarrow> string" where
  "reconnect_name COMETD_RECONNECT_NONE = ''none''"
| "reconnect_name COMETD_RECONNECT_RETRY = ''retry''"
| "reconnect_name COMETD_RECONNECT_HANDSHAKE = ''handshake''"

definition cometd_msg_set_advice :: "json option \<Rightarrow> cometd_advice option \<Rightarrow> json option" where
  "cometd_msg_set_advice msg adv =
     (case json_node_get_object msg of
        None \<Rightarrow> msg
      | Some obj \<Rightarrow>
          (case adv of
             None \<Rightarrow> msg
           | Some a \<Rightarrow>
               let ao = json_object_set_member [] ''reconnect'' (JString (reconnect_name (reconnect a)));
                   ao = json_object_set_member ao ''interval'' (JInt (interval a))
               in Some (JObject (json_object_set_member obj ''advice'' (JObject ao)))))"

section \<open>Payloads\<close>

text \<open>The scan for the last connect message; \<open>i\<close> is the position of the list's head.\<close>

primrec find_connect :: "json_glib \<Rightarrow> nat \<Rightarrow> nat option \<Rightarrow> json list \<Rightarrow> nat option outcome" where
  "find_connect G i index [] = Ok index"
| "find_connect G i index (msg # msgs) =
     obind (deref_null (cometd_msg_channel G (Some msg))) (\<lambda>channel.
       find_connect G (i + 1)
         (if channel = COMETD_CHANNEL_META_CONNECT then Some i else index) msgs)"

text \<open>Returns the connect message, and the payload without it.\<close>

definition cometd_msg_extract_connect ::
  "json_glib \<Rightarrow> json option \<Rightarrow> (json option \<times> json option) outcome" where
  "cometd_msg_extract_connect G payload =
     (let msgs = json_array_get_elements (json_node_get_array payload)
      in obind (find_connect G 0 None msgs) (\<lambda>index.
           case index of
             None \<Rightarrow> Ok (None, payload)
           | Some i \<Rightarrow> Ok (Some (msgs ! i), Some (JArray (take i msgs @ drop (i + 1) msgs)))))"

definition cometd_msg_wrap :: "json \<Rightarrow> json" where
  "cometd_msg_wrap msg = JArray [msg]"

text \<open>The payload shares the object of the message: it is the one that the message has \<open>later\<close>.\<close>

definition cometd_msg_wrap_copy :: "json \<Rightarrow> json option \<Rightarrow> json" where
  "cometd_msg_wrap_copy msg later = cometd_msg_wrap (json_node_copy msg later)"

lemma msg_wrap_copy_same [simp]: "cometd_msg_wrap_copy msg (Some msg) = JArray [msg]"
  by (simp add: cometd_msg_wrap_copy_def cometd_msg_wrap_def json_node_copy_def split: json.split)

section \<open>Constructors\<close>

definition take_msg_id :: "'w cometd \<Rightarrow> (int \<times> 'w cometd) outcome" where
  "take_msg_id h = obind (next_msg_id (conn h)) (\<lambda>(seed, c). Ok (seed, h\<lparr>conn := c\<rparr>))"

definition set_members :: "(string \<times> json) list \<Rightarrow> json_object" where
  "set_members ms = foldl (\<lambda>obj (name, v). json_object_set_member obj name v) [] ms"

definition cometd_msg_connect_new :: "'w env \<Rightarrow> 'w cometd \<Rightarrow> (json \<times> 'w cometd) outcome" where
  "cometd_msg_connect_new E h =
     obind (take_msg_id h) (\<lambda>(seed, h).
     obind (read_transport (cometd_current_transport h) h) (\<lambda>t.
       Ok (JObject (set_members
             [(''id'', JInt seed),
              (''channel'', JString COMETD_CHANNEL_META_CONNECT),
              (''connectionType'', JString (tr_name t)),
              (''clientId'', json_string_node (json_lib E) (cometd_conn_client_id (conn h)))]), h)))"

definition cometd_msg_bad_connect_new :: "'w env \<Rightarrow> 'w cometd \<Rightarrow> (json \<times> 'w cometd) outcome" where
  "cometd_msg_bad_connect_new E h =
     obind (cometd_msg_connect_new E h) (\<lambda>(msg, h).
     obind (cometd_msg_set_boolean_member (Some msg) ''successful'' False) (\<lambda>msg. Ok (msg, h)))"

text \<open>The loop over the registry that collects the transport names.\<close>

primrec transport_names :: "'w cometd \<Rightarrow> addr list \<Rightarrow> string list outcome" where
  "transport_names h [] = Ok []"
| "transport_names h (t # ts) =
     obind (read_transport (Some t) h) (\<lambda>tr.
     obind (transport_names h ts) (\<lambda>ns. Ok (tr_name tr # ns)))"

definition cometd_new_handshake_message :: "'w cometd \<Rightarrow> (json \<times> 'w cometd) outcome" where
  "cometd_new_handshake_message h =
     obind (take_msg_id h) (\<lambda>(seed, h).
     obind (transport_names h (transports (config h))) (\<lambda>names.
       Ok (JObject (set_members
             [(''id'', JInt seed),
              (''channel'', JString COMETD_CHANNEL_META_HANDSHAKE),
              (''version'', JString ''1.0''),
              (''minimumVersion'', JString ''0.9''),
              (''advice'', JObject (set_members [(''timeout'', JInt 60000), (''interval'', JInt 0)])),
              (''supportedConnectionTypes'', JArray (map JString names))]), h)))"

definition cometd_new_publish_message ::
  "'w env \<Rightarrow> string \<Rightarrow> json \<Rightarrow> 'w cometd \<Rightarrow> (json \<times> 'w cometd) outcome" where
  "cometd_new_publish_message E channel data h =
     obind (take_msg_id h) (\<lambda>(seed, h).
       Ok (JObject (set_members
             [(''id'', JInt seed),
              (''channel'', JString channel),
              (''clientId'', json_string_node (json_lib E) (cometd_conn_client_id (conn h))),
              (''data'', data)]), h))"

definition cometd_new_subscribe_message ::
  "'w env \<Rightarrow> string \<Rightarrow> 'w cometd \<Rightarrow> (json \<times> 'w cometd) outcome" where
  "cometd_new_subscribe_message E channel h =
     obind (take_msg_id h) (\<lambda>(seed, h).
       Ok (JObject (set_members
             [(''id'', JInt seed),
              (''channel'', JString COMETD_CHANNEL_META_SUBSCRIBE),
              (''clientId'', json_string_node (json_lib E) (cometd_conn_client_id (conn h))),
              (''subscription'', JString channel)]), h))"

definition cometd_new_unsubscribe_message ::
  "'w env \<Rightarrow> string \<Rightarrow> 'w cometd \<Rightarrow> (json \<times> 'w cometd) outcome" where
  "cometd_new_unsubscribe_message E channel h =
     obind (take_msg_id h) (\<lambda>(seed, h).
       Ok (JObject (set_members
             [(''id'', JInt seed),
              (''channel'', JString COMETD_CHANNEL_META_UNSUBSCRIBE),
              (''clientId'', json_string_node (json_lib E) (cometd_conn_client_id (conn h))),
              (''subscription'', JString channel)]), h))"

section \<open>Lemmas\<close>

lemma msg_channel_JString [simp]:
  "map_of obj ''channel'' = Some (JString c) \<Longrightarrow> cometd_msg_channel G (Some (JObject obj)) = Some c"
  by (simp add: cometd_msg_channel_def)

lemma msg_channel_None [simp]: "cometd_msg_channel G None = None"
  by (simp add: cometd_msg_channel_def)

lemma take_msg_id_eq_Ok [outcome_simps]:
  "take_msg_id h = Ok (n, h') \<longleftrightarrow> in_long (msg_id_seed (conn h) + 1) \<and>
     n = msg_id_seed (conn h) + 1 \<and> h' = h\<lparr>conn := (conn h)\<lparr>msg_id_seed := n\<rparr>\<rparr>"
  by (auto simp: take_msg_id_def outcome_simps)

lemma set_members_simps [simp]:
  "set_members [] = []" "set_members (ms @ [(n, v)]) = json_object_set_member (set_members ms) n v"
  by (simp_all add: set_members_def)

lemma advice_member:
  "map_of obj ''advice'' = Some (JObject ao) \<Longrightarrow>
    cometd_msg_advice G (Some (JObject obj)) =
      (let r = json_object_get_string_member G ao ''reconnect'';
           i = json_object_get_int_member G ao ''interval''
       in if r \<noteq> None \<or> i \<noteq> 0
          then obind (deref_null r) (\<lambda>r. Ok (Some \<lparr>reconnect =
                 (if r = ''handshake'' then COMETD_RECONNECT_HANDSHAKE
                  else if r = ''retry'' then COMETD_RECONNECT_RETRY
                  else COMETD_RECONNECT_NONE), interval = i\<rparr>))
          else Ok None)"
  by (auto simp: cometd_msg_advice_def json_object_has_member_def Let_def cometd_advice_new_def
      intro!: obind_cong)

lemma find_connect_Ok:
  assumes "find_connect G i acc msgs = Ok r"
  shows "(\<forall>m\<in>set msgs. cometd_msg_channel G (Some m) \<noteq> None) \<and>
    (case r of
       None \<Rightarrow> acc = None \<and> (\<forall>m\<in>set msgs. cometd_msg_channel G (Some m) \<noteq> Some COMETD_CHANNEL_META_CONNECT)
     | Some k \<Rightarrow>
         (acc = Some k \<and> (\<forall>m\<in>set msgs. cometd_msg_channel G (Some m) \<noteq> Some COMETD_CHANNEL_META_CONNECT)) \<or>
         (i \<le> k \<and> k - i < length msgs \<and>
          cometd_msg_channel G (Some (msgs ! (k - i))) = Some COMETD_CHANNEL_META_CONNECT \<and>
          (\<forall>m\<in>set (drop (Suc (k - i)) msgs). cometd_msg_channel G (Some m) \<noteq> Some COMETD_CHANNEL_META_CONNECT)))"
  using assms
proof (induction msgs arbitrary: i acc)
  case Nil
  then show ?case by (auto split: option.splits)
next
  case (Cons m msgs)
  then obtain c where c: "cometd_msg_channel G (Some m) = Some c"
    and rest: "find_connect G (i + 1) (if c = COMETD_CHANNEL_META_CONNECT then Some i else acc) msgs = Ok r"
    by (auto simp: outcome_simps)
  have shift: "Suc i \<le> k \<Longrightarrow> k - i = Suc (k - Suc i)" for k by arith
  from Cons.IH [OF rest] c show ?case
    by (auto split: option.splits if_splits simp: shift)
qed

lemma find_connect_total:
  "\<forall>m\<in>set msgs. cometd_msg_channel G (Some m) \<noteq> None \<Longrightarrow> \<exists>r. find_connect G i acc msgs = Ok r"
  by (induction msgs arbitrary: i acc) auto

lemma find_connect_Fault:
  "\<exists>m\<in>set msgs. cometd_msg_channel G (Some m) = None \<Longrightarrow> find_connect G i acc msgs = Fault Null_deref"
proof (induction msgs arbitrary: i acc)
  case Nil
  then show ?case by simp
next
  case (Cons m msgs)
  then show ?case by (cases "cometd_msg_channel G (Some m)") auto
qed

section \<open>Properties\<close>

text \<open>
  Writing advice into a message and reading it back gives the same advice, whatever
  advice the message carried before, and no other member of the message changes.
\<close>

theorem msg_advice_roundtrip:
  "cometd_msg_advice G (cometd_msg_set_advice (Some (JObject obj)) (Some a)) = Ok (Some a) \<and>
   (\<exists>obj'. cometd_msg_set_advice (Some (JObject obj)) (Some a) = Some (JObject obj') \<and>
      (\<forall>n. n \<noteq> ''advice'' \<longrightarrow> map_of obj' n = map_of obj n))"
proof -
  define ao where "ao = json_object_set_member (json_object_set_member [] ''reconnect''
    (JString (reconnect_name (reconnect a)))) ''interval'' (JInt (interval a))"
  define obj' where "obj' = json_object_set_member obj ''advice'' (JObject ao)"
  have set: "cometd_msg_set_advice (Some (JObject obj)) (Some a) = Some (JObject obj')"
    by (simp add: cometd_msg_set_advice_def obj'_def ao_def Let_def)
  have "cometd_msg_advice G (Some (JObject obj')) = Ok (Some a)"
    by (cases "reconnect a") (simp_all add: obj'_def ao_def advice_member Let_def)
  moreover have "\<forall>n. n \<noteq> ''advice'' \<longrightarrow> map_of obj' n = map_of obj n"
    by (simp add: obj'_def)
  ultimately show ?thesis using set by auto
qed

lemma msg_advice_roundtrip_witness:
  "cometd_msg_advice (example_json_lib None) (cometd_msg_set_advice (Some (JObject []))
     (Some \<lparr>reconnect = COMETD_RECONNECT_RETRY, interval = 100\<rparr>)) =
   Ok (Some \<lparr>reconnect = COMETD_RECONNECT_RETRY, interval = 100\<rparr>) \<and>
   map_of ([] :: json_object) ''id'' = None"
  using msg_advice_roundtrip [of "example_json_lib None" "[]" "\<lparr>reconnect = COMETD_RECONNECT_RETRY, interval = 100\<rparr>"] by simp

text \<open>
  Advice that has an interval other than zero but no reconnect member makes the reader
  pass NULL to \<open>strcmp\<close>: a server can crash the client with one field left out.
\<close>

theorem msg_advice_interval_only_faults:
  assumes "json_glib_ok G" and "map_of obj ''advice'' = Some (JObject ao)"
    and "map_of ao ''reconnect'' = None" and "map_of ao ''interval'' = Some (JInt i)" and "i \<noteq> 0"
  shows "cometd_msg_advice G (Some (JObject obj)) = Fault Null_deref"
  using assms by (simp add: advice_member Let_def)

lemma msg_advice_interval_only_faults_witness:
  "cometd_msg_advice (example_json_lib None)
     (Some (JObject [(''advice'', JObject [(''interval'', JInt 100)])])) = Fault Null_deref"
  by (rule msg_advice_interval_only_faults [of _ _ "[(''interval'', JInt 100)]" 100]) simp_all

text \<open>
  Extracting the connect message from a payload whose messages all name their channel
  takes out the last message on \<^verbatim>\<open>/meta/connect\<close> and keeps all others in order; without
  such a message the payload is unchanged and there is no connect message.
\<close>

theorem extract_connect_splits:
  assumes "\<forall>m\<in>set msgs. cometd_msg_channel G (Some m) \<noteq> None"
  shows "(\<exists>pre c post. msgs = pre @ c # post \<and>
      cometd_msg_channel G (Some c) = Some COMETD_CHANNEL_META_CONNECT \<and>
      (\<forall>m\<in>set post. cometd_msg_channel G (Some m) \<noteq> Some COMETD_CHANNEL_META_CONNECT) \<and>
      cometd_msg_extract_connect G (Some (JArray msgs)) = Ok (Some c, Some (JArray (pre @ post)))) \<or>
    ((\<forall>m\<in>set msgs. cometd_msg_channel G (Some m) \<noteq> Some COMETD_CHANNEL_META_CONNECT) \<and>
      cometd_msg_extract_connect G (Some (JArray msgs)) = Ok (None, Some (JArray msgs)))"
proof -
  obtain r where r: "find_connect G 0 None msgs = Ok r" using find_connect_total [OF assms] by blast
  show ?thesis
  proof (cases r)
    case None
    then show ?thesis using find_connect_Ok [OF r] r by (simp add: cometd_msg_extract_connect_def)
  next
    case (Some k)
    then have "k < length msgs" using find_connect_Ok [OF r] by auto
    then have "msgs = take k msgs @ msgs ! k # drop (Suc k) msgs" by (simp add: id_take_nth_drop)
    then show ?thesis
      using find_connect_Ok [OF r] r Some
      by (intro disjI1 exI [of _ "take k msgs"] exI [of _ "msgs ! k"] exI [of _ "drop (Suc k) msgs"])
        (simp add: cometd_msg_extract_connect_def)
  qed
qed

lemma extract_connect_splits_witness:
  "\<exists>r. cometd_msg_extract_connect (example_json_lib None) (Some (JArray
      [JObject [(''channel'', JString ''/foo'')], JObject [(''channel'', JString ''/meta/connect'')]]))
    = Ok r"
  using extract_connect_splits [of "[JObject [(''channel'', JString ''/foo'')],
      JObject [(''channel'', JString ''/meta/connect'')]]" "example_json_lib None"]
  by auto

text \<open>
  A payload with one message that does not name its channel as a string crashes the
  loop thread: the extraction compares a NULL channel.
\<close>

theorem extract_connect_missing_channel:
  assumes "json_glib_ok G" and "JObject obj \<in> set msgs" and "map_of obj ''channel'' = None"
  shows "cometd_msg_extract_connect G (Some (JArray msgs)) = Fault Null_deref"
proof -
  have "cometd_msg_channel G (Some (JObject obj)) = None"
    using assms(1,3) by (simp add: cometd_msg_channel_def)
  then have "find_connect G 0 None msgs = Fault Null_deref"
    using assms(2) by (intro find_connect_Fault) auto
  then show ?thesis by (simp add: cometd_msg_extract_connect_def)
qed

lemma extract_connect_missing_channel_witness:
  "cometd_msg_extract_connect (example_json_lib None) (Some (JArray [JObject []])) = Fault Null_deref"
  by (rule extract_connect_missing_channel [of _ "[]"]) simp_all

end
