(* ===== verification/Ext.thy ===== *)
theory Ext
  imports Msg
begin

text \<open>
  Extensions (\<^verbatim>\<open>src/src/ext.c\<close>) and the two that come with the library
  (\<^verbatim>\<open>src/src/exts/logger.c\<close>, \<^verbatim>\<open>src/src/exts/yammer.c\<close>). An extension sees every
  message and may change it in place: its function returns the message as it leaves it.
\<close>

section \<open>The list of extensions\<close>

definition cometd_ext_malloc :: cometd_ext_t where
  "cometd_ext_malloc = \<lparr>incoming = None, outgoing = None\<rparr>"

definition cometd_ext_new :: cometd_ext_t where
  "cometd_ext_new = cometd_ext_malloc"

text \<open>An extension object gets an address of its own.\<close>

definition alloc_ext :: "cometd_ext_t \<Rightarrow> 'w cometd \<Rightarrow> addr \<times> 'w cometd" where
  "alloc_ext e h = (next_addr h,
     h\<lparr>ext_heap := (ext_heap h)(next_addr h \<mapsto> e), next_addr := Suc (next_addr h)\<rparr>)"

definition cometd_ext_destroy :: "addr \<Rightarrow> 'w cometd \<Rightarrow> 'w cometd outcome" where
  "cometd_ext_destroy e h = obind (heap_free (ext_heap h) e) (\<lambda>eh. Ok (h\<lparr>ext_heap := eh\<rparr>))"

definition cometd_ext_add :: "addr \<Rightarrow> 'w cometd \<Rightarrow> 'w cometd" where
  "cometd_ext_add e h = h\<lparr>exts := exts h @ [e]\<rparr>"

definition cometd_ext_remove :: "addr \<Rightarrow> 'w cometd \<Rightarrow> 'w cometd outcome" where
  "cometd_ext_remove e h = cometd_ext_destroy e (h\<lparr>exts := remove1 e (exts h)\<rparr>)"

section \<open>The library's extensions\<close>

text \<open>
  \<open>printf\<close> is given the kind of message, its channel and its text; the last two may be NULL.
\<close>

definition print_log :: "'w env \<Rightarrow> string \<Rightarrow> json option \<Rightarrow> 'w cometd \<Rightarrow> 'w cometd" where
  "print_log E kind node h =
     h\<lparr>stdout := stdout h @
        [(kind, cometd_msg_channel (json_lib E) node, cometd_json_node2str (json_lib E) node)]\<rparr>"

definition logger_incoming :: "'w env \<Rightarrow> json option \<Rightarrow> 'w cometd \<Rightarrow> 'w cometd" where
  "logger_incoming E msg h = print_log E ''incoming'' msg h"

definition logger_outgoing :: "'w env \<Rightarrow> json option \<Rightarrow> 'w cometd \<Rightarrow> 'w cometd" where
  "logger_outgoing E msg h = print_log E ''outgoing'' msg h"

definition cometd_ext_logger_new :: cometd_ext_t where
  "cometd_ext_logger_new = cometd_ext_new
     \<lparr>incoming := Some Logger_incoming, outgoing := Some Logger_outgoing\<rparr>"

definition cometd_ext_yammer_new :: "string option \<Rightarrow> 'w cometd \<Rightarrow> cometd_ext_t \<times> 'w cometd" where
  "cometd_ext_yammer_new token h =
     (cometd_ext_new\<lparr>outgoing := Some Yammer_outgoing\<rparr>, h\<lparr>g_token := token\<rparr>)"

definition yammer_outgoing ::
  "'w env \<Rightarrow> json option \<Rightarrow> 'w cometd \<Rightarrow> (json option \<times> 'w cometd) outcome" where
  "yammer_outgoing E msg h =
     obind (deref_null (cometd_msg_channel (json_lib E) msg)) (\<lambda>channel.
       if channel = COMETD_CHANNEL_META_HANDSHAKE
       then case json_node_get_object msg of
              None \<Rightarrow> Ok (msg, h)
            | Some obj \<Rightarrow>
                let ext = set_members
                      [(''auth'', JString ''oauth''),
                       (''token'', json_string_node (json_lib E) (g_token h)),
                       (''push_message_bodies'', JBool True),
                       (''ack'', JBool False)]
                in Ok (Some (JObject (json_object_set_member obj ''ext'' (JObject ext))), h)
       else Ok (msg, h))"

section \<open>Firing\<close>

fun call_ext :: "'w env \<Rightarrow> ext_function \<Rightarrow> json option \<Rightarrow> 'w cometd
    \<Rightarrow> (json option \<times> 'w cometd) outcome" where
  "call_ext E Logger_incoming n h = Ok (n, logger_incoming E n h)"
| "call_ext E Logger_outgoing n h = Ok (n, logger_outgoing E n h)"
| "call_ext E Yammer_outgoing n h = yammer_outgoing E n h"
| "call_ext E (User_ext k) n h = user_ext E k n h"

primrec cometd_impl_ext_fire :: "'w env \<Rightarrow> bool \<Rightarrow> addr list \<Rightarrow> json option \<Rightarrow> 'w cometd
    \<Rightarrow> (json option \<times> 'w cometd) outcome" where
  "cometd_impl_ext_fire E is_incoming [] n h = Ok (n, h)"
| "cometd_impl_ext_fire E is_incoming (e # es) n h =
     obind (heap_read (ext_heap h) e) (\<lambda>ext.
       case (if is_incoming then incoming ext else outgoing ext) of
         None \<Rightarrow> cometd_impl_ext_fire E is_incoming es n h
       | Some f \<Rightarrow> obind (call_ext E f n h) (\<lambda>(n, h). cometd_impl_ext_fire E is_incoming es n h))"

definition cometd_ext_fire_incoming ::
  "'w env \<Rightarrow> json option \<Rightarrow> 'w cometd \<Rightarrow> (json option \<times> 'w cometd) outcome" where
  "cometd_ext_fire_incoming E n h = cometd_impl_ext_fire E True (exts h) n h"

definition cometd_ext_fire_outgoing ::
  "'w env \<Rightarrow> json option \<Rightarrow> 'w cometd \<Rightarrow> (json option \<times> 'w cometd) outcome" where
  "cometd_ext_fire_outgoing E n h = cometd_impl_ext_fire E False (exts h) n h"

section \<open>Lemmas\<close>

lemma ext_fire_none [simp]: "exts h = [] \<Longrightarrow> cometd_ext_fire_incoming E n h = Ok (n, h)"
  "exts h = [] \<Longrightarrow> cometd_ext_fire_outgoing E n h = Ok (n, h)"
  by (simp_all add: cometd_ext_fire_incoming_def cometd_ext_fire_outgoing_def)

lemma ext_fire_append:
  "cometd_impl_ext_fire E d (es @ fs) n h =
     obind (cometd_impl_ext_fire E d es n h) (\<lambda>(n, h). cometd_impl_ext_fire E d fs n h)"
  by (induction es arbitrary: n h) (auto simp: obind_assoc intro!: obind_cong split: option.splits)

end
