(* ===== verification/Http.thy ===== *)
theory Http
  imports Msg
begin

text \<open>
  HTTP transfers (\<^verbatim>\<open>src/src/http.c\<close>): the body buffer that grows with every piece libcurl
  delivers, one POST, and posting a message. libcurl's answers and the allocator's come
  from the environment.
\<close>

section \<open>The body buffer\<close>

text \<open>The buffer's bytes and the count of bytes received; one byte more is allocated.\<close>

record MemoryStruct =
  memory :: string
  mem_size :: nat

text \<open>
  libcurl hands over \<open>size * nmemb\<close> bytes. The flag says whether \<open>realloc\<close> gave memory:
  the code copies through the result without looking.
\<close>

definition WriteMemoryCallback :: "string \<times> bool \<Rightarrow> MemoryStruct \<Rightarrow> (nat \<times> MemoryStruct) outcome" where
  "WriteMemoryCallback piece mem =
     (case piece of (contents, realloc_ok) \<Rightarrow>
        if \<not> realloc_ok then Fault Null_deref
        else Ok (length contents,
               mem\<lparr>memory := take (mem_size mem) (memory mem) @ contents @ [CHR 0x00],
                   mem_size := mem_size mem + length contents\<rparr>))"

primrec write_pieces :: "(string \<times> bool) list \<Rightarrow> MemoryStruct \<Rightarrow> MemoryStruct outcome" where
  "write_pieces [] mem = Ok mem"
| "write_pieces (p # ps) mem = obind (WriteMemoryCallback p mem) (\<lambda>(n, mem). write_pieces ps mem)"

section \<open>Posting\<close>

text \<open>
  The result is the buffer, or NULL. The timeout is a \<open>long\<close> that the caller passes for
  an \<open>int\<close>. Where libcurl or the buffer cannot be set up, nothing is sent.
\<close>

definition http_json_post ::
  "'w env \<Rightarrow> string \<Rightarrow> string \<Rightarrow> int \<Rightarrow> 'w cometd \<Rightarrow> (string option \<times> 'w cometd) outcome" where
  "http_json_post E target data timeout h =
     (let request = \<lparr>req_url = target, req_header = ''Content-Type: application/json'',
                     req_body = data, req_timeout_ms = int_of_long timeout\<rparr>;
          (res, w) = curl_post E request (world h)
      in if \<not> curl_init_ok res then Ok (None, h)
         else case body_malloc res of
                None \<Rightarrow> Ok (None, h)
              | Some junk \<Rightarrow>
                  let h = h\<lparr>world := w\<rparr>
                  in obind (write_pieces (body_chunks res) \<lparr>memory = [junk], mem_size = 0\<rparr>) (\<lambda>body.
                       let http_error = \<not> (perform_ok res \<and>
                             response_code res \<ge> 200 \<and> response_code res \<le> 299)
                       in Ok (if http_error then None else Some (memory body), h)))"

definition http_post_msg ::
  "'w env \<Rightarrow> json option \<Rightarrow> 'w cometd \<Rightarrow> (json option \<times> 'w cometd) outcome" where
  "http_post_msg E msg h =
     (case cometd_json_node2str (json_lib E) msg of
        None \<Rightarrow> Ok (None, snd (cometd_error ECOMETD_JSON_SERIALIZE ''could not serialize json'' h))
      | Some data \<Rightarrow>
          obind (http_json_post E (url (config h)) data (request_timeout (config h)) h) (\<lambda>(resp, h).
            case resp of
              None \<Rightarrow> Ok (None, snd (cometd_error ECOMETD_SEND ''could not post'' h))
            | Some buf \<Rightarrow>
                obind (cometd_json_str2node (json_lib E) buf) (\<lambda>payload.
                  case payload of
                    None \<Rightarrow> Ok (None, snd (cometd_error ECOMETD_JSON_DESERIALIZE
                                          ''could not de-serialize json'' h))
                  | Some n \<Rightarrow> Ok (Some n, h))))"

section \<open>Lemmas\<close>

lemma write_pieces_concat:
  assumes "\<forall>p\<in>set ps. snd p" and "n = mem_size mem" and "n \<le> length (memory mem)"
  shows "write_pieces ps mem = Ok (if ps = [] then mem
    else \<lparr>memory = take n (memory mem) @ concat (map fst ps) @ [CHR 0x00],
          mem_size = n + length (concat (map fst ps))\<rparr>)"
  using assms
proof (induction ps arbitrary: mem n)
  case Nil
  then show ?case by simp
next
  case (Cons p ps)
  obtain c where p: "p = (c, True)" using Cons.prems(1) by (cases p) auto
  let ?mem = "mem\<lparr>memory := take n (memory mem) @ c @ [CHR 0x00], mem_size := n + length c\<rparr>"
  have step: "WriteMemoryCallback p mem = Ok (length c, ?mem)"
    using Cons.prems by (simp add: WriteMemoryCallback_def p)
  have "write_pieces ps ?mem = Ok (if ps = [] then ?mem
    else \<lparr>memory = take (n + length c) (memory ?mem) @ concat (map fst ps) @ [CHR 0x00],
          mem_size = n + length c + length (concat (map fst ps))\<rparr>)"
    using Cons.prems by (intro Cons.IH) auto
  then show ?case using Cons.prems(3) by (simp add: step [unfolded p] p)
qed

lemma http_post_world_only:
  "http_json_post E t d m h = Ok (r, h') \<Longrightarrow> \<exists>w. h' = h\<lparr>world := w\<rparr>"
  by (cases h) (auto simp: http_json_post_def Let_def outcome_simps split: prod.splits if_splits option.splits)

section \<open>Properties\<close>

text \<open>What a completed transfer answers: 2xx status, all buffers allocated.\<close>

definition transfer_ok :: "curl_result \<Rightarrow> bool" where
  "transfer_ok res \<longleftrightarrow> curl_init_ok res \<and> body_malloc res \<noteq> None \<and>
     (\<forall>p\<in>set (body_chunks res). snd p) \<and> perform_ok res \<and>
     200 \<le> response_code res \<and> response_code res \<le> 299"

lemma http_json_post_ok:
  assumes "curl_post E \<lparr>req_url = target, req_header = ''Content-Type: application/json'',
      req_body = data, req_timeout_ms = int_of_long timeout\<rparr> (world h) = (res, w)"
    and "transfer_ok res"
  shows "http_json_post E target data timeout h =
    Ok (Some (if body_chunks res = [] then [the (body_malloc res)]
              else concat (map fst (body_chunks res)) @ [CHR 0x00]), h\<lparr>world := w\<rparr>)"
proof -
  obtain junk where junk: "body_malloc res = Some junk" using assms(2) by (auto simp: transfer_ok_def)
  have "\<forall>p\<in>set (body_chunks res). snd p" using assms(2) by (simp add: transfer_ok_def)
  note pieces = write_pieces_concat [OF this, of 0 "\<lparr>memory = [junk], mem_size = 0\<rparr>"]
  show ?thesis
    using assms pieces by (simp add: http_json_post_def transfer_ok_def junk)
qed

text \<open>
  C25. When the server answers a POST with the text of a JSON document, the caller gets
  that document, in however many pieces libcurl delivers the text; nothing but the world
  outside changes, and the request carries the text of the message.
\<close>

theorem http_post_msg_reply:
  assumes "cometd_json_node2str (json_lib E) (Some msg) = Some data"
    and "curl_post E \<lparr>req_url = url (config h), req_header = ''Content-Type: application/json'',
      req_body = data, req_timeout_ms = int_of_long (request_timeout (config h))\<rparr> (world h) = (res, w)"
    and "transfer_ok res" and "body_chunks res \<noteq> []"
    and "concat (map fst (body_chunks res)) = reply_text"
    and "cometd_json_node2str (json_lib E) (Some reply) = Some reply_text"
    and "json_text_ok (json_lib E) reply"
  shows "http_post_msg E (Some msg) h = Ok (Some reply, h\<lparr>world := w\<rparr>)"
  using http_json_post_ok [OF assms(2,3)] assms str2node_node2str [OF assms(7,6), of "[]"]
  by (simp add: http_post_msg_def)

lemma http_post_msg_reply_witness:
  "http_post_msg (example_env (example_json_lib (Some JNull)) (answer_with [(''{'', True), (''}'', True)] 200))
     (Some JNull) example_handle =
   Ok (Some JNull, example_handle\<lparr>world := [\<lparr>req_url = ''http://localhost'',
     req_header = ''Content-Type: application/json'', req_body = ''{}'', req_timeout_ms = 60000\<rparr>]\<rparr>)"
  by (rule http_post_msg_reply [where data = "''{}''" and reply_text = "''{}''"
        and res = "answer_with [(''{'', True), (''}'', True)] 200"])
    (simp_all add: example_defs cometd_json_node2str_def json_text_ok_def transfer_ok_def int_of_long_def)

text \<open>
  \<open>http_post_msg\<close> reports every failure: when it returns no payload, the error slot
  holds one of its three codes (serialising, sending, de-serialising), and when it returns
  one the slot is as before.
\<close>

theorem http_post_msg_reports:
  assumes "http_post_msg E msg h = Ok (payload, h')"
  shows "(payload = None \<longrightarrow> err_code (last_error h') \<in>
      {ECOMETD_JSON_SERIALIZE, ECOMETD_SEND, ECOMETD_JSON_DESERIALIZE}) \<and>
    (payload \<noteq> None \<longrightarrow> last_error h' = last_error h)"
  using assms
  by (auto simp: http_post_msg_def cometd_error_def outcome_simps
      dest!: http_post_world_only split: option.splits)

lemma http_post_msg_reports_witness:
  "\<exists>h'. http_post_msg (example_env (example_json_lib None) (answer_with [(''fail'', True)] 500))
     (Some JNull) example_handle = Ok (None, h') \<and> err_code (last_error h') \<in> {1, 7, 2}"
proof -
  obtain h' where h': "http_post_msg (example_env (example_json_lib None) (answer_with [(''fail'', True)] 500))
     (Some JNull) example_handle = Ok (None, h')"
    by (simp add: http_post_msg_def http_json_post_def example_defs cometd_json_node2str_def
        WriteMemoryCallback_def cometd_error_def)
  show ?thesis using http_post_msg_reports [OF h'] h' by simp
qed

text \<open>
  A success status without a body: libcurl never calls back, so the buffer is the one
  byte that \<open>malloc\<close> gave, and unless that byte happens to be zero \<open>strlen\<close> reads past
  the allocation.
\<close>

theorem http_empty_body_reads_garbage:
  assumes "cometd_json_node2str (json_lib E) msg = Some data"
    and "curl_post E \<lparr>req_url = url (config h), req_header = ''Content-Type: application/json'',
      req_body = data, req_timeout_ms = int_of_long (request_timeout (config h))\<rparr> (world h) = (res, w)"
    and "transfer_ok res" and "body_chunks res = []" and "body_malloc res = Some junk"
    and "junk \<noteq> CHR 0x00"
  shows "http_post_msg E msg h = Fault Out_of_bounds"
  using http_json_post_ok [OF assms(2,3)] assms
  by (simp add: http_post_msg_def cometd_json_str2node_def c_string_def)

lemma http_empty_body_reads_garbage_witness:
  "http_post_msg (example_env (example_json_lib None) (answer_with [] 200)) (Some JNull) example_handle
     = Fault Out_of_bounds"
  by (rule http_empty_body_reads_garbage [where data = "''{}''" and res = "answer_with [] 200"
        and junk = "CHR ''x''"])
    (simp_all add: example_defs cometd_json_node2str_def transfer_ok_def)

end
