(* ===== verification/Transport.thy ===== *)
theory Transport
  imports Http
begin

text \<open>
  Transports: the registry (in \<^verbatim>\<open>src/src/cometd.c\<close>), the negotiation
  (\<^verbatim>\<open>src/src/transport.c\<close>) and the long-polling transport
  (\<^verbatim>\<open>src/src/transport_long_polling.c\<close>).
\<close>

section \<open>The registry\<close>

definition COMETD_TRANSPORT_LONG_POLLING :: cometd_transport where
  "COMETD_TRANSPORT_LONG_POLLING = \<lparr>tr_name = ''long-polling'',
     tr_send = Some Long_polling_send, tr_recv = Some Long_polling_recv\<rparr>"

definition set_transports :: "addr list \<Rightarrow> 'w cometd \<Rightarrow> 'w cometd" where
  "set_transports ts h = h\<lparr>config := (config h)\<lparr>transports := ts\<rparr>\<rparr>"

definition cometd_register_transport :: "cometd_transport \<Rightarrow> 'w cometd \<Rightarrow> int \<times> 'w cometd" where
  "cometd_register_transport t h =
     (let a = next_addr h;
          h = h\<lparr>transport_heap := (transport_heap h)(a \<mapsto> t), next_addr := Suc a\<rparr>
      in (0, set_transports (a # transports (config h)) h))"

text \<open>\<open>g_list_find_custom\<close> with \<open>find_transport_by_name\<close>: the first entry of that name.\<close>

primrec find_transport_by_name :: "'w cometd \<Rightarrow> string \<Rightarrow> addr list \<Rightarrow> addr option outcome" where
  "find_transport_by_name h name [] = Ok None"
| "find_transport_by_name h name (t # ts) =
     obind (read_transport (Some t) h) (\<lambda>tr.
       if tr_name tr = name then Ok (Some t) else find_transport_by_name h name ts)"

definition cometd_find_transport :: "string \<Rightarrow> 'w cometd \<Rightarrow> addr option outcome" where
  "cometd_find_transport name h = find_transport_by_name h name (transports (config h))"

definition cometd_unregister_transport :: "string \<Rightarrow> 'w cometd \<Rightarrow> (int \<times> 'w cometd) outcome" where
  "cometd_unregister_transport name h =
     obind (find_transport_by_name h name (transports (config h))) (\<lambda>t.
       case t of
         None \<Rightarrow> Ok (0, h)
       | Some a \<Rightarrow>
           let h = set_transports (remove1 a (transports (config h))) h
           in obind (heap_free (transport_heap h) a) (\<lambda>th. Ok (0, h\<lparr>transport_heap := th\<rparr>)))"

section \<open>Negotiation\<close>

text \<open>The inner loop: the first registered transport of the offered name.\<close>

primrec negotiate_inner :: "'w cometd \<Rightarrow> string option \<Rightarrow> addr list \<Rightarrow> addr option \<Rightarrow> addr option outcome" where
  "negotiate_inner h item [] found = Ok found"
| "negotiate_inner h item (t # ts) found =
     obind (read_transport (Some t) h) (\<lambda>tr.
     obind (deref_null item) (\<lambda>name.
       if tr_name tr = name then Ok (Some t) else negotiate_inner h item ts found))"

text \<open>The outer loop goes on to the last offered name.\<close>

primrec negotiate_outer :: "'w cometd \<Rightarrow> addr list \<Rightarrow> string option list \<Rightarrow> addr option \<Rightarrow> addr option outcome" where
  "negotiate_outer h registry [] found = Ok found"
| "negotiate_outer h registry (item # items) found =
     obind (negotiate_inner h item registry found) (\<lambda>found. negotiate_outer h registry items found)"

definition cometd_transport_negotiate ::
  "json_glib \<Rightarrow> addr list \<Rightarrow> json option \<Rightarrow> 'w cometd \<Rightarrow> addr option outcome" where
  "cometd_transport_negotiate G registry n h =
     negotiate_outer h registry (cometd_msg_supported_connection_types G n) None"

section \<open>Long polling\<close>

definition long_polling_send_impl ::
  "'w env \<Rightarrow> json option \<Rightarrow> 'w cometd \<Rightarrow> (json option \<times> 'w cometd) outcome" where
  "long_polling_send_impl E node h =
     (case cometd_json_node2str (json_lib E) node of
        None \<Rightarrow> Ok (None, h)
      | Some data \<Rightarrow>
          obind (http_json_post E (url (config h)) data (request_timeout (config h)) h) (\<lambda>(resp, h).
            case resp of
              None \<Rightarrow> Ok (None, h)
            | Some buf \<Rightarrow> obind (cometd_json_str2node (json_lib E) buf) (\<lambda>ret. Ok (ret, h))))"

definition cometd_transport_long_polling_send ::
  "'w env \<Rightarrow> json option \<Rightarrow> 'w cometd \<Rightarrow> (json option \<times> 'w cometd) outcome" where
  "cometd_transport_long_polling_send E node h = long_polling_send_impl E node h"

definition cometd_transport_long_polling_recv ::
  "'w env \<Rightarrow> 'w cometd \<Rightarrow> (json option \<times> 'w cometd) outcome" where
  "cometd_transport_long_polling_recv E h =
     obind (cometd_msg_connect_new E h) (\<lambda>(msg, h).
       long_polling_send_impl E (Some (cometd_msg_wrap msg)) h)"

text \<open>Calls through a transport's function pointers.\<close>

definition call_send ::
  "'w env \<Rightarrow> cometd_transport \<Rightarrow> json option \<Rightarrow> 'w cometd \<Rightarrow> (json option \<times> 'w cometd) outcome" where
  "call_send E t node h =
     obind (deref_null (tr_send t)) (\<lambda>f.
       case f of Long_polling_send \<Rightarrow> cometd_transport_long_polling_send E node h
               | User_send n \<Rightarrow> user_send E n node h)"

definition call_recv :: "'w env \<Rightarrow> cometd_transport \<Rightarrow> 'w cometd \<Rightarrow> (json option \<times> 'w cometd) outcome" where
  "call_recv E t h =
     obind (deref_null (tr_recv t)) (\<lambda>f.
       case f of Long_polling_recv \<Rightarrow> cometd_transport_long_polling_recv E h
               | User_recv n \<Rightarrow> user_recv E n h)"

section \<open>The registry, read\<close>

text \<open>Every registered pointer is live, below the next address, and registered once.\<close>

definition registry_wf :: "'w cometd \<Rightarrow> bool" where
  "registry_wf h \<longleftrightarrow> distinct (transports (config h)) \<and>
     (\<forall>t\<in>set (transports (config h)). transport_heap h t \<noteq> None) \<and>
     (\<forall>t tr. transport_heap h t = Some tr \<longrightarrow> t < next_addr h)"

text \<open>The first registered transport of a name.\<close>

primrec first_named :: "'w cometd \<Rightarrow> string \<Rightarrow> addr list \<Rightarrow> addr option" where
  "first_named h name [] = None"
| "first_named h name (t # ts) =
     (if map_option tr_name (transport_heap h t) = Some name then Some t else first_named h name ts)"

lemma first_named_SomeD:
  "first_named h name ts = Some a \<Longrightarrow>
    a \<in> set ts \<and> (\<exists>tr. transport_heap h a = Some tr \<and> tr_name tr = name)"
  by (induction ts) (auto split: if_splits)

lemma find_transport_first_named:
  "\<forall>t\<in>set ts. transport_heap h t \<noteq> None \<Longrightarrow> find_transport_by_name h name ts = Ok (first_named h name ts)"
proof (induction ts)
  case Nil
  then show ?case by simp
next
  case (Cons t ts)
  then obtain tr where "transport_heap h t = Some tr" by auto
  with Cons show ?case by (simp add: heap_simps)
qed

lemma find_transport_wf:
  "registry_wf h \<Longrightarrow> cometd_find_transport name h = Ok (first_named h name (transports (config h)))"
  by (simp add: cometd_find_transport_def registry_wf_def find_transport_first_named)

lemma negotiate_inner_first_named:
  "\<forall>t\<in>set ts. transport_heap h t \<noteq> None \<Longrightarrow>
    negotiate_inner h (Some name) ts found =
      Ok (case first_named h name ts of None \<Rightarrow> found | Some t \<Rightarrow> Some t)"
proof (induction ts)
  case Nil
  then show ?case by simp
next
  case (Cons t ts)
  then obtain tr where "transport_heap h t = Some tr" by auto
  with Cons show ?case by (simp add: heap_simps)
qed

lemma negotiate_outer_last:
  assumes "\<forall>t\<in>set ts. transport_heap h t \<noteq> None"
  shows "negotiate_outer h ts (map Some names) found =
    Ok (case find (\<lambda>n. first_named h n ts \<noteq> None) (rev names) of
          None \<Rightarrow> found | Some n \<Rightarrow> first_named h n ts)"
proof (induction names arbitrary: found)
  case Nil
  then show ?case by simp
next
  case (Cons n names)
  have "find P (xs @ [x]) = (case find P xs of None \<Rightarrow> if P x then Some x else None | Some y \<Rightarrow> Some y)"
    for P xs and x :: string
    by (induction xs) auto
  with Cons show ?case
    by (auto simp: negotiate_inner_first_named [OF assms] split: option.splits)
qed

lemma first_named_heap_cong:
  "\<forall>t\<in>set ts. transport_heap h' t = transport_heap h t \<Longrightarrow> first_named h' name ts = first_named h name ts"
  by (induction ts) auto

lemma registry_wf_fresh: "registry_wf h \<Longrightarrow> next_addr h \<notin> set (transports (config h))"
  by (auto simp: registry_wf_def)

lemma register_transport_wf: "registry_wf h \<Longrightarrow> registry_wf (snd (cometd_register_transport t h))"
  using registry_wf_fresh [of h]
  by (auto simp: registry_wf_def cometd_register_transport_def set_transports_def Let_def less_Suc_eq)

lemma register_transport_find:
  assumes "registry_wf h" and "cometd_register_transport t h = (r, h')"
  shows "cometd_find_transport name h' =
    (if name = tr_name t then Ok (Some (next_addr h)) else cometd_find_transport name h)"
proof -
  have wf: "registry_wf h'" using register_transport_wf [OF assms(1), of t] assms(2) by simp
  have "first_named h' name (transports (config h)) = first_named h name (transports (config h))"
    using registry_wf_fresh [OF assms(1)] assms(2)
    by (intro first_named_heap_cong) (auto simp: cometd_register_transport_def set_transports_def Let_def)
  then show ?thesis
    using assms(2) find_transport_wf [OF assms(1)] find_transport_wf [OF wf]
    by (auto simp: cometd_register_transport_def set_transports_def Let_def)
qed

lemma unregister_transport_Ok:
  assumes "registry_wf h" and "cometd_find_transport name h = Ok (Some a)"
  shows "\<exists>h'. cometd_unregister_transport name h = Ok (0, h') \<and>
    transports (config h') = remove1 a (transports (config h)) \<and>
    transport_heap h' = (transport_heap h)(a := None) \<and> conn h' = conn h"
proof -
  have find: "find_transport_by_name h name (transports (config h)) = Ok (Some a)"
    using assms(2) by (simp add: cometd_find_transport_def)
  then have "first_named h name (transports (config h)) = Some a"
    using assms(1) find_transport_first_named by (fastforce simp: registry_wf_def)
  then obtain tr where "transport_heap h a = Some tr"
    using first_named_SomeD by blast
  then show ?thesis
    using find by (simp add: cometd_unregister_transport_def set_transports_def Let_def heap_simps)
qed

section \<open>Properties\<close>

text \<open>
  Negotiation with a reply that offers the named transports picks the last name on the
  server's list that has a registered transport (and of that name the most recently
  registered one), or none when no name is registered.
\<close>

theorem negotiate_picks_last_offer:
  assumes "registry_wf h"
    and "cometd_msg_supported_connection_types G n = map Some names"
  shows "cometd_transport_negotiate G (transports (config h)) n h =
    Ok (case find (\<lambda>name. first_named h name (transports (config h)) \<noteq> None) (rev names) of
          None \<Rightarrow> None
        | Some name \<Rightarrow> first_named h name (transports (config h)))"
  using assms by (simp add: cometd_transport_negotiate_def negotiate_outer_last registry_wf_def)

definition example_registry :: "http_request list cometd" where
  "example_registry = snd (cometd_register_transport \<lparr>tr_name = ''test'', tr_send = None, tr_recv = None\<rparr>
     (snd (cometd_register_transport COMETD_TRANSPORT_LONG_POLLING example_handle)))"

lemma example_registry_wf: "registry_wf example_registry"
proof -
  have "registry_wf example_handle" by (simp add: registry_wf_def example_handle_def)
  then show ?thesis by (simp add: example_registry_def register_transport_wf)
qed

lemma negotiate_picks_last_offer_witness:
  "cometd_transport_negotiate (example_json_lib None) (transports (config example_registry))
     (Some (JObject [(''supportedConnectionTypes'',
        JArray [JString ''long-polling'', JString ''test'', JString ''other''])])) example_registry
   = Ok (Some 1)"
  by (subst negotiate_picks_last_offer
        [OF example_registry_wf, of _ _ "[''long-polling'', ''test'', ''other'']"])
    (simp_all add: cometd_msg_supported_connection_types_def json_node_dup_string_def
      example_registry_def cometd_register_transport_def COMETD_TRANSPORT_LONG_POLLING_def
      set_transports_def Let_def example_handle_def)

text \<open>
  Registering a transport makes it the one found under its name and leaves every other
  name as it was; unregistering the name again gives back the lookups there were before.
\<close>

theorem register_then_unregister:
  assumes "registry_wf h" and "cometd_register_transport t h = (r, h')"
  shows "cometd_find_transport (tr_name t) h' = Ok (Some (next_addr h)) \<and>
    (\<forall>name. name \<noteq> tr_name t \<longrightarrow> cometd_find_transport name h' = cometd_find_transport name h) \<and>
    (\<exists>h''. cometd_unregister_transport (tr_name t) h' = Ok (0, h'') \<and> registry_wf h'' \<and>
       (\<forall>name. cometd_find_transport name h'' = cometd_find_transport name h))"
proof -
  note find = register_transport_find [OF assms]
  have wf: "registry_wf h'" using register_transport_wf [OF assms(1), of t] assms(2) by simp
  obtain h'' where h'': "cometd_unregister_transport (tr_name t) h' = Ok (0, h'')"
    "transports (config h'') = transports (config h)"
    "transport_heap h'' = (transport_heap h')(next_addr h := None)"
    using unregister_transport_Ok [OF wf, of "tr_name t" "next_addr h"] find assms(2)
    by (auto simp: cometd_register_transport_def set_transports_def Let_def)
  have heap: "\<forall>a\<in>set (transports (config h)). transport_heap h'' a = transport_heap h a"
    using h''(3) registry_wf_fresh [OF assms(1)] assms(2)
    by (auto simp: cometd_register_transport_def set_transports_def Let_def)
  have "next_addr h'' = next_addr h'"
    using h''(1) by (auto simp: cometd_unregister_transport_def set_transports_def Let_def
        outcome_simps split: option.splits)
  then have "registry_wf h''"
    using wf assms(1) h'' heap by (auto simp: registry_wf_def split: if_splits)
  moreover have "cometd_find_transport name h'' = cometd_find_transport name h" for name
    using find_transport_wf assms(1) calculation h''(2) first_named_heap_cong [OF heap] by metis
  ultimately show ?thesis using find h''(1) by auto
qed

lemma register_then_unregister_witness:
  "cometd_find_transport ''t'' (snd (cometd_register_transport
     \<lparr>tr_name = ''t'', tr_send = None, tr_recv = None\<rparr> example_registry)) = Ok (Some 2)"
proof -
  obtain r h' where reg: "cometd_register_transport
      \<lparr>tr_name = ''t'', tr_send = None, tr_recv = None\<rparr> example_registry = (r, h')"
    by fastforce
  have "next_addr example_registry = 2"
    by (simp add: example_registry_def cometd_register_transport_def set_transports_def Let_def
        example_handle_def)
  then show ?thesis using register_then_unregister [OF example_registry_wf reg] reg by simp
qed

text \<open>
  Unregistering the transport that the connection uses frees it under the connection:
  the connection keeps the pointer, and the next use of it reads freed memory.
\<close>

theorem unregister_current_dangles:
  assumes "registry_wf h" and "cometd_find_transport name h = Ok (Some a)"
    and "cometd_current_transport h = Some a"
  shows "\<exists>h'. cometd_unregister_transport name h = Ok (0, h') \<and>
    read_transport (cometd_current_transport h') h' = Fault Use_after_free"
  using unregister_transport_Ok [OF assms(1,2)] assms(3)
  by (auto simp: cometd_current_transport_def read_transport_def heap_simps)

lemma unregister_current_dangles_witness:
  "\<exists>h'. cometd_unregister_transport ''test''
      (example_registry\<lparr>conn := (conn example_registry)\<lparr>transport := Some 1\<rparr>\<rparr>) = Ok (0, h') \<and>
    read_transport (cometd_current_transport h') h' = Fault Use_after_free"
proof (rule unregister_current_dangles)
  show "registry_wf (example_registry\<lparr>conn := (conn example_registry)\<lparr>transport := Some 1\<rparr>\<rparr>)"
    using example_registry_wf by (simp add: registry_wf_def)
qed (simp_all add: cometd_find_transport_def example_registry_def cometd_register_transport_def
    set_transports_def Let_def example_handle_def read_transport_def heap_simps
    cometd_current_transport_def COMETD_TRANSPORT_LONG_POLLING_def)

end
