(* ===== verification/Inbox.thy ===== *)
theory Inbox
  imports Handle
begin

text \<open>
  The inbox (\<^verbatim>\<open>src/src/inbox.c\<close>): a queue of messages between the loop thread, which
  pushes, and the listening thread, which takes. Every push and every take holds the mutex
  from its first to its last access, so each is one step on the queue; only the wait on the
  condition lets go of the mutex, and then other threads' pushes come in.
\<close>

section \<open>The queue operations\<close>

definition cometd_inbox_push_msg :: "json \<Rightarrow> json list \<Rightarrow> json list" where
  "cometd_inbox_push_msg node queue = queue @ [node]"

primrec push_each :: "json list \<Rightarrow> json list \<Rightarrow> json list" where
  "push_each [] queue = queue"
| "push_each (m # ms) queue = push_each ms (cometd_inbox_push_msg m queue)"

definition cometd_inbox_push :: "json option \<Rightarrow> json list \<Rightarrow> json list" where
  "cometd_inbox_push payload queue =
     push_each (json_array_get_elements (json_node_get_array payload)) queue"

text \<open>
  One wait on the condition: what others pushed before it returned, and whether it was
  woken (TRUE) or the deadline of 100 ms passed (FALSE). The code waits again while it is
  woken and the queue is still empty; the deadline is fixed before the first wait, so a
  list of waits that is used up ends like a deadline.
\<close>

type_synonym inbox_wait = "json list \<times> bool"

fun wait_nonempty :: "inbox_wait list \<Rightarrow> json list \<Rightarrow> json list" where
  "wait_nonempty [] queue = queue"
| "wait_nonempty ((pushed, woken) # ws) queue =
     (if queue \<noteq> [] then queue
      else if woken then wait_nonempty ws (push_each pushed queue)
      else push_each pushed queue)"

definition cometd_inbox_take :: "inbox_wait list \<Rightarrow> json list \<Rightarrow> json option \<times> json list" where
  "cometd_inbox_take ws queue =
     (case wait_nonempty ws queue of
        [] \<Rightarrow> (None, [])
      | m # rest \<Rightarrow> (Some m, rest))"

section \<open>First in, first out\<close>

text \<open>
  The interface the two threads share: a queue whose contents a push extends at the end
  and a successful take shortens at the front.
\<close>

datatype ('m, 'x) queue_step = Push 'm | Take 'x

text \<open>
  A run of steps on a queue given by its push and its take (with what others push while a
  take waits): what was pushed by anyone, what was taken, and the queue at the end.
\<close>

fun queue_run :: "('m \<Rightarrow> 'q \<Rightarrow> 'q) \<Rightarrow> ('x \<Rightarrow> 'q \<Rightarrow> 'm option \<times> 'q) \<Rightarrow> ('x \<Rightarrow> 'q \<Rightarrow> 'm list) \<Rightarrow>
    ('m, 'x) queue_step list \<Rightarrow> 'q \<Rightarrow> 'm list \<times> 'm list \<times> 'q" where
  "queue_run push take_one arrivals [] q = ([], [], q)"
| "queue_run push take_one arrivals (Push m # steps) q =
     (case queue_run push take_one arrivals steps (push m q) of
        (pushed, taken, q') \<Rightarrow> (m # pushed, taken, q'))"
| "queue_run push take_one arrivals (Take x # steps) q =
     (case take_one x q of (r, q1) \<Rightarrow>
      case queue_run push take_one arrivals steps q1 of (pushed, taken, q') \<Rightarrow>
        (arrivals x q @ pushed, (case r of None \<Rightarrow> [] | Some m \<Rightarrow> [m]) @ taken, q'))"

locale fifo_queue =
  fixes contents :: "'q \<Rightarrow> 'm list"
    and push :: "'m \<Rightarrow> 'q \<Rightarrow> 'q"
    and take_one :: "'x \<Rightarrow> 'q \<Rightarrow> 'm option \<times> 'q"
    and arrivals :: "'x \<Rightarrow> 'q \<Rightarrow> 'm list"    \<comment> \<open>pushed by others while the take waits\<close>
  assumes contents_push: "contents (push m q) = contents q @ [m]"
    and contents_take: "take_one x q = (r, q') \<Longrightarrow>
      (case r of None \<Rightarrow> [] | Some m \<Rightarrow> [m]) @ contents q' = contents q @ arrivals x q"
    and take_None: "take_one x q = (None, q') \<Longrightarrow> contents q' = []"
begin

lemma run_fifo:
  "queue_run push take_one arrivals steps q = (pushed, taken, q') \<Longrightarrow>
    taken @ contents q' = contents q @ pushed"
proof (induction steps arbitrary: q pushed taken q')
  case Nil
  then show ?case by simp
next
  case (Cons step steps)
  show ?case
  proof (cases step)
    case (Push m)
    obtain p t r where r: "queue_run push take_one arrivals steps (push m q) = (p, t, r)"
      by (metis prod_cases3)
    with Cons.prems Push show ?thesis using Cons.IH [OF r] by (simp add: contents_push)
  next
    case (Take x)
    obtain a q1 where a: "take_one x q = (a, q1)" by fastforce
    obtain p t r where r: "queue_run push take_one arrivals steps q1 = (p, t, r)"
      by (metis prod_cases3)
    show ?thesis
      using Cons.prems Take Cons.IH [OF r] contents_take [OF a] a r
      by (auto split: option.splits)
  qed
qed

end

section \<open>The inbox is such a queue\<close>

lemma push_each_append [simp]: "push_each ms queue = queue @ ms"
  by (induction ms arbitrary: queue) (simp_all add: cometd_inbox_push_msg_def)

text \<open>What came in during the waits of one take.\<close>

fun wait_arrivals :: "inbox_wait list \<Rightarrow> json list \<Rightarrow> json list" where
  "wait_arrivals [] queue = []"
| "wait_arrivals ((pushed, woken) # ws) queue =
     (if queue \<noteq> [] then []
      else if woken then pushed @ wait_arrivals ws pushed
      else pushed)"

lemma wait_nonempty_arrivals: "wait_nonempty ws queue = queue @ wait_arrivals ws queue"
  by (induction ws queue rule: wait_nonempty.induct) auto

lemma inbox_take_None: "cometd_inbox_take ws queue = (None, q') \<Longrightarrow> q' = []"
  by (auto simp: cometd_inbox_take_def split: list.splits)

lemma inbox_take_nonempty: "queue \<noteq> [] \<Longrightarrow> cometd_inbox_take ws queue = (Some (hd queue), tl queue)"
  by (cases ws; cases queue) (auto simp: cometd_inbox_take_def)

interpretation ibx: fifo_queue "\<lambda>q. q" cometd_inbox_push_msg cometd_inbox_take wait_arrivals
  by unfold_locales
    (auto simp: cometd_inbox_push_msg_def cometd_inbox_take_def wait_nonempty_arrivals
      split: list.splits)

lemma inbox_push_append [simp]:
  "cometd_inbox_push (Some (JArray ms)) queue = queue @ ms"
  by (simp add: cometd_inbox_push_def)

section \<open>Properties\<close>

text \<open>
  C24. Whatever the order in which the loop thread pushes and the listening thread takes,
  and whatever arrives while a take waits, the messages taken followed by those still in
  the inbox are the messages there at the start followed by those pushed: none is lost,
  repeated or overtaken. A take that returns NULL leaves the inbox empty.
\<close>

theorem inbox_fifo:
  "(queue_run cometd_inbox_push_msg cometd_inbox_take wait_arrivals steps queue
      = (pushed, taken, queue') \<longrightarrow> taken @ queue' = queue @ pushed) \<and>
   (cometd_inbox_take ws queue = (None, queue'') \<longrightarrow> queue'' = [])"
  using ibx.run_fifo ibx.take_None by blast

lemma inbox_fifo_witness:
  "queue_run cometd_inbox_push_msg cometd_inbox_take wait_arrivals
     [Push (JInt 1), Take [], Take [([], True), ([JInt 3], True)], Take [([JInt 4], False)]] [JNull]
     = ([JInt 1, JInt 4], [JNull, JInt 1, JInt 4], []) \<and>
   [JNull, JInt 1, JInt 4] @ [] = [JNull] @ [JInt 1, JInt 4 :: json]"
proof -
  have run: "queue_run cometd_inbox_push_msg cometd_inbox_take wait_arrivals
     [Push (JInt 1), Take [], Take [([], True), ([JInt 3], True)], Take [([JInt 4], False)]] [JNull]
     = ([JInt 1, JInt 4], [JNull, JInt 1, JInt 4], [])"
    by (simp add: cometd_inbox_take_def cometd_inbox_push_msg_def)
  show ?thesis using run conjunct1 [OF inbox_fifo, THEN mp, OF run] by simp
qed

end
