(* ===== verification/Cometd.thy ===== *)
theory Cometd
  imports Ext Transport Inbox
begin

unbundle bit_operations_syntax

text \<open>
  The client (\<^verbatim>\<open>src/src/cometd.c\<close>): dispatch of messages to listeners, the handshake with its
  retries and backoff, connecting, publishing, subscribing, unsubscribing, creation and
  destruction of a handle.

  A handler can start a handshake, whose reply is dispatched to handlers again. Every
  operation below that dispatches takes the handshake as the argument \<open>hs\<close>; the loop
  \<open>cometd_handshake_loop\<close> closes the knot. Its fuel bounds every chain of attempts, in
  the loop itself and in the loops nested in it; where it is used up the result is the
  fault \<open>Out_of_fuel\<close>, never a made-up result.
\<close>

section \<open>Backoff\<close>

definition cometd_impl_should_backoff :: "cometd_advice \<Rightarrow> int \<Rightarrow> bool" where
  "cometd_impl_should_backoff adv attempt \<longleftrightarrow>
     \<not> cometd_advice_is_none adv \<and> interval adv = 0 \<and> attempt > 1"

definition cometd_impl_compute_backoff :: "cometd_config \<Rightarrow> int \<Rightarrow> int outcome" where
  "cometd_impl_compute_backoff c attempt =
     (if backoff_increment c = 0 then Ok (-1)
      else obind (long_result (attempt * backoff_increment c)) (\<lambda>backoff.
        Ok (if max_backoff c \<noteq> 0 \<and> backoff < max_backoff c then backoff else -1)))"

definition cometd_get_backoff :: "'w cometd \<Rightarrow> int \<Rightarrow> int outcome" where
  "cometd_get_backoff h attempt =
     (case advice (conn h) of
        None \<Rightarrow> cometd_impl_compute_backoff (config h) attempt
      | Some adv \<Rightarrow>
          if cometd_impl_should_backoff adv attempt
          then cometd_impl_compute_backoff (config h) (attempt - 1)
          else if cometd_advice_is_handshake adv \<or> cometd_advice_is_retry adv then Ok (interval adv)
          else if cometd_advice_is_none adv then Ok (-1)
          else Ok (backoff_increment (config h)))"

section \<open>State tests\<close>

definition cometd_should_recv :: "'w cometd \<Rightarrow> bool" where
  "cometd_should_recv h \<longleftrightarrow> cometd_conn_is_state (conn h)
     (COMETD_CONNECTED OR COMETD_HANDSHAKE_SUCCESS OR COMETD_UNCONNECTED)"

definition cometd_should_retry_recv :: "'w cometd \<Rightarrow> bool" where
  "cometd_should_retry_recv h \<longleftrightarrow> cometd_conn_is_state (conn h) COMETD_UNCONNECTED \<and>
     (case cometd_conn_advice (conn h) of None \<Rightarrow> False | Some a \<Rightarrow> cometd_advice_is_retry a)"

definition cometd_should_handshake :: "'w cometd \<Rightarrow> bool" where
  "cometd_should_handshake h \<longleftrightarrow>
     (if cometd_conn_is_state (conn h) (COMETD_HANDSHAKE_SUCCESS OR COMETD_CONNECTED) then False
      else case advice (conn h) of None \<Rightarrow> True | Some a \<Rightarrow> cometd_advice_is_handshake a)"

definition cometd_is_meta_channel :: "string option \<Rightarrow> bool" where
  "cometd_is_meta_channel channel =
     (case channel of None \<Rightarrow> False | Some c \<Rightarrow> take 5 c = ''/meta'')"

section \<open>The library's handlers\<close>

definition cometd_handle_advice ::
  "('w cometd \<Rightarrow> (int \<times> 'w cometd) outcome) \<Rightarrow> cometd_advice option \<Rightarrow> 'w cometd \<Rightarrow> 'w cometd outcome" where
  "cometd_handle_advice hs adv h =
     (case adv of
        None \<Rightarrow> Ok h
      | Some a \<Rightarrow> if cometd_advice_is_handshake a then obind (hs h) (\<lambda>(code, h). Ok h) else Ok h)"

definition cometd_process_handshake ::
  "'w env \<Rightarrow> json option \<Rightarrow> 'w cometd \<Rightarrow> (int \<times> 'w cometd) outcome" where
  "cometd_process_handshake E msg h =
     obind (cometd_transport_negotiate (json_lib E) (transports (config h)) msg h) (\<lambda>t.
     obind (case t of
              Some a \<Rightarrow>
                obind (cometd_msg_client_id (json_lib E) msg) (\<lambda>cid.
                obind (cometd_conn_set_transport (Some a) (conn h)) (\<lambda>c.
                obind (cometd_conn_set_client_id cid c) (\<lambda>c.
                  Ok (COMETD_SUCCESS, h\<lparr>conn := cometd_conn_set_state COMETD_HANDSHAKE_SUCCESS c\<rparr>))))
            | None \<Rightarrow> Ok (ECOMETD_NO_TRANSPORT, h)) (\<lambda>(code, h).
     obind (cometd_msg_advice (json_lib E) msg) (\<lambda>adv.
       Ok (code, h\<lparr>conn := cometd_conn_take_advice adv (conn h)\<rparr>))))"

definition cometd_process_connect ::
  "'w env \<Rightarrow> ('w cometd \<Rightarrow> (int \<times> 'w cometd) outcome) \<Rightarrow> json option \<Rightarrow> 'w cometd \<Rightarrow> (int \<times> 'w cometd) outcome" where
  "cometd_process_connect E hs msg h =
     (if cometd_conn_is_state (conn h) (COMETD_DISCONNECTING OR COMETD_DISCONNECTED)
      then Ok (COMETD_SUCCESS, h)
      else obind (cometd_msg_advice (json_lib E) msg) (\<lambda>adv.
        let h = (if adv \<noteq> None then h\<lparr>conn := cometd_conn_take_advice adv (conn h)\<rparr> else h)
        in if \<not> cometd_msg_is_successful (json_lib E) msg
           then let h = h\<lparr>conn := cometd_conn_set_state COMETD_UNCONNECTED (conn h)\<rparr>
                in obind (cometd_handle_advice hs adv h) (\<lambda>h. Ok (COMETD_SUCCESS, h))
           else Ok (COMETD_SUCCESS, h\<lparr>conn := cometd_conn_set_state COMETD_CONNECTED (conn h)\<rparr>)))"

section \<open>Dispatch\<close>

text \<open>A handler may change the message in place; the library's own do not.\<close>

fun run_callback :: "'w env \<Rightarrow> ('w cometd \<Rightarrow> (int \<times> 'w cometd) outcome) \<Rightarrow> cometd_callback
    \<Rightarrow> json option \<Rightarrow> 'w cometd \<Rightarrow> (int \<times> json option \<times> 'w cometd) outcome" where
  "run_callback E hs Cometd_process_handshake msg h =
     obind (cometd_process_handshake E msg h) (\<lambda>(code, h). Ok (code, msg, h))"
| "run_callback E hs Cometd_process_connect msg h =
     obind (cometd_process_connect E hs msg h) (\<lambda>(code, h). Ok (code, msg, h))"
| "run_callback E hs (User_callback k) msg h = user_callback E k msg h"

text \<open>The loop of \<open>cometd_listener_fire\<close>: it stops at the first handler that fails.\<close>

primrec fire_items :: "'w env \<Rightarrow> ('w cometd \<Rightarrow> (int \<times> 'w cometd) outcome) \<Rightarrow> addr list
    \<Rightarrow> json option \<Rightarrow> 'w cometd \<Rightarrow> (int \<times> json option \<times> 'w cometd) outcome" where
  "fire_items E hs [] msg h = Ok (COMETD_SUCCESS, msg, h)"
| "fire_items E hs (a # as) msg h =
     obind (heap_read (sub_heap (subscriptions h)) a) (\<lambda>s.
     obind (run_callback E hs (sub_callback s) msg h) (\<lambda>(code, msg, h).
       if code \<noteq> COMETD_SUCCESS then Ok (ECOMETD_UNKNOWN, msg, h)
       else fire_items E hs as msg h))"

definition cometd_listener_fire :: "'w env \<Rightarrow> ('w cometd \<Rightarrow> (int \<times> 'w cometd) outcome) \<Rightarrow> string option
    \<Rightarrow> json option \<Rightarrow> 'w cometd \<Rightarrow> (int \<times> json option \<times> 'w cometd) outcome" where
  "cometd_listener_fire E hs channel msg h =
     (if channel = None then Ok (ECOMETD_UNKNOWN, msg, h)
      else obind (cometd_listener_get (subscriptions h) channel) (\<lambda>list.
        if list = [] then Ok (COMETD_SUCCESS, msg, h) else fire_items E hs list msg h))"

definition cometd_process_msg :: "'w env \<Rightarrow> ('w cometd \<Rightarrow> (int \<times> 'w cometd) outcome)
    \<Rightarrow> json option \<Rightarrow> 'w cometd \<Rightarrow> (int \<times> json option \<times> 'w cometd) outcome" where
  "cometd_process_msg E hs msg h =
     obind (cometd_ext_fire_incoming E msg h) (\<lambda>(msg, h).
       cometd_listener_fire E hs (cometd_msg_channel (json_lib E) msg) msg h)"

text \<open>
  The elements are processed where they are, so the payload that comes back holds them as
  extensions and handlers left them.
\<close>

primrec process_elements :: "'w env \<Rightarrow> ('w cometd \<Rightarrow> (int \<times> 'w cometd) outcome)
    \<Rightarrow> json list \<Rightarrow> 'w cometd \<Rightarrow> (json list \<times> 'w cometd) outcome" where
  "process_elements E hs [] h = Ok ([], h)"
| "process_elements E hs (m # ms) h =
     obind (cometd_process_msg E hs (Some m) h) (\<lambda>(ret, m', h).
     obind (process_elements E hs ms h) (\<lambda>(ms', h).
       Ok ((case m' of None \<Rightarrow> m | Some x \<Rightarrow> x) # ms', h)))"

definition cometd_impl_process_sync :: "'w env \<Rightarrow> ('w cometd \<Rightarrow> (int \<times> 'w cometd) outcome)
    \<Rightarrow> json \<Rightarrow> 'w cometd \<Rightarrow> (int \<times> json \<times> 'w cometd) outcome" where
  "cometd_impl_process_sync E hs root h =
     (case json_node_get_array (Some root) of
        None \<Rightarrow> Ok (COMETD_SUCCESS, root, h)
      | Some msgs \<Rightarrow> obind (process_elements E hs msgs h) (\<lambda>(msgs, h).
          Ok (COMETD_SUCCESS, JArray msgs, h)))"

section \<open>Sending\<close>

text \<open>What happens to the reply, NULL or a payload.\<close>

definition finish_send :: "'w env \<Rightarrow> ('w cometd \<Rightarrow> (int \<times> 'w cometd) outcome)
    \<Rightarrow> json option \<times> 'w cometd \<Rightarrow> (int \<times> 'w cometd) outcome" where
  "finish_send E hs reply =
     (case reply of (payload, h) \<Rightarrow>
       case payload of
         None \<Rightarrow> Ok (err_code (cometd_last_error h), h)
       | Some p \<Rightarrow>
           obind (cometd_impl_process_sync E hs p h) (\<lambda>(code, p, h).
             if code \<noteq> COMETD_SUCCESS then Ok (cometd_error code ''processing error'' h)
             else if \<not> cometd_msg_is_successful (json_lib E) (Some p)
                  then Ok (ECOMETD_UNSUCCESSFUL, h)
                  else Ok (code, h)))"

text \<open>
  The message is wrapped in a payload before the outgoing extensions see it, but the payload holds the
  same object, so what they change in it is sent.
\<close>

definition cometd_impl_send_msg_sync :: "'w env \<Rightarrow> ('w cometd \<Rightarrow> (int \<times> 'w cometd) outcome)
    \<Rightarrow> json \<Rightarrow> addr option \<Rightarrow> 'w cometd \<Rightarrow> (int \<times> 'w cometd) outcome" where
  "cometd_impl_send_msg_sync E hs msg t h =
     obind (cometd_ext_fire_outgoing E (Some msg) h) (\<lambda>(later, h).
       let outgoing_payload = cometd_msg_wrap_copy msg later
       in obind (if t = None then http_post_msg E (Some outgoing_payload) h
                else obind (read_transport t h) (\<lambda>tr. call_send E tr (Some outgoing_payload) h))
           (finish_send E hs))"

definition cometd_transport_send :: "'w env \<Rightarrow> ('w cometd \<Rightarrow> (int \<times> 'w cometd) outcome)
    \<Rightarrow> json \<Rightarrow> 'w cometd \<Rightarrow> (int \<times> 'w cometd) outcome" where
  "cometd_transport_send E hs msg h =
     (let t = cometd_current_transport h
      in if t = None then Ok (ECOMETD_UNKNOWN, h) else cometd_impl_send_msg_sync E hs msg t h)"

section \<open>Handshake\<close>

definition cometd_impl_handshake :: "'w env \<Rightarrow> ('w cometd \<Rightarrow> (int \<times> 'w cometd) outcome)
    \<Rightarrow> 'w cometd \<Rightarrow> (int \<times> 'w cometd) outcome" where
  "cometd_impl_handshake E hs h =
     obind (cometd_new_handshake_message h) (\<lambda>(handshake, h).
     obind (cometd_impl_send_msg_sync E hs handshake None h) (\<lambda>(code, h).
       Ok (if code = COMETD_SUCCESS \<and> cometd_current_transport h = None
           then ECOMETD_NO_TRANSPORT else code, h)))"

text \<open>\<open>attempt\<close> is a \<open>guint\<close>: it wraps at \<open>2 ^ 32\<close>.\<close>

fun cometd_handshake_loop :: "'w env \<Rightarrow> nat \<Rightarrow> 32 word \<Rightarrow> int \<Rightarrow> int \<Rightarrow> 'w cometd
    \<Rightarrow> (int \<times> 'w cometd) outcome" where
  "cometd_handshake_loop E 0 attempt backoff code h = Fault Out_of_fuel"
| "cometd_handshake_loop E (Suc n) attempt backoff code h =
     (if \<not> cometd_should_handshake h then Ok (code, h)
      else obind (cometd_loop_wait E backoff h) (\<lambda>h.
           obind (cometd_impl_handshake E (\<lambda>h. cometd_handshake_loop E n 1 0 ECOMETD_UNKNOWN h) h)
             (\<lambda>(code, h).
           obind (cometd_get_backoff h (uint attempt)) (\<lambda>backoff.
             if backoff = -1 then Ok (code, h)
             else cometd_handshake_loop E n (attempt + 1) backoff code h))))"

definition cometd_handshake :: "'w env \<Rightarrow> nat \<Rightarrow> 'w cometd \<Rightarrow> (int \<times> 'w cometd) outcome" where
  "cometd_handshake E fuel h = cometd_handshake_loop E fuel 1 0 ECOMETD_UNKNOWN h"

section \<open>Connecting and disconnecting\<close>

definition cometd_connect :: "'w env \<Rightarrow> nat \<Rightarrow> 'w cometd \<Rightarrow> (int \<times> 'w cometd) outcome" where
  "cometd_connect E fuel h =
     obind (cometd_handshake E fuel h) (\<lambda>(error_code, h).
       if error_code \<noteq> COMETD_SUCCESS then Ok (error_code, h)
       else obind (cometd_loop_start E h) (\<lambda>(r, h).
         if r \<noteq> 0 then Ok (cometd_error ECOMETD_INIT_LOOP ''could not initialize connection loop'' h)
         else Ok (error_code, h\<lparr>conn := cometd_conn_set_state COMETD_CONNECTED (conn h)\<rparr>)))"

definition cometd_disconnect :: "'w env \<Rightarrow> bool \<Rightarrow> 'w cometd \<Rightarrow> (int \<times> 'w cometd) outcome" where
  "cometd_disconnect E wait_for_server h =
     (let h = (if wait_for_server then h
               else h\<lparr>conn := cometd_conn_set_state COMETD_DISCONNECTED (conn h)\<rparr>)
      in obind (cometd_loop_stop E h) (\<lambda>h. Ok (COMETD_SUCCESS, h)))"

section \<open>Publish, subscribe, unsubscribe\<close>

definition cometd_publish :: "'w env \<Rightarrow> nat \<Rightarrow> string \<Rightarrow> json \<Rightarrow> 'w cometd \<Rightarrow> (int \<times> 'w cometd) outcome" where
  "cometd_publish E fuel channel message h =
     obind (cometd_new_publish_message E channel message h) (\<lambda>(node, h).
       cometd_transport_send E (cometd_handshake E fuel) node h)"

definition cometd_subscribe :: "'w env \<Rightarrow> nat \<Rightarrow> string \<Rightarrow> cometd_callback \<Rightarrow> 'w cometd
    \<Rightarrow> (addr option \<times> 'w cometd) outcome" where
  "cometd_subscribe E fuel channel handler h =
     obind (if \<not> cometd_is_meta_channel (Some channel)
            then obind (cometd_new_subscribe_message E channel h) (\<lambda>(node, h).
                   cometd_transport_send E (cometd_handshake E fuel) node h)
            else Ok (COMETD_SUCCESS, h)) (\<lambda>(code, h).
       Ok (if code = COMETD_SUCCESS then cometd_add_listener E channel handler h else (None, h)))"

definition cometd_unsubscribe :: "'w env \<Rightarrow> nat \<Rightarrow> addr option \<Rightarrow> 'w cometd
    \<Rightarrow> (int \<times> 'w cometd) outcome" where
  "cometd_unsubscribe E fuel s h =
     (case s of
        None \<Rightarrow> Ok (ECOMETD_UNKNOWN, h)
      | Some a \<Rightarrow>
          obind (heap_read (sub_heap (subscriptions h)) a) (\<lambda>sub.
            let channel = sub_channel sub; code = ECOMETD_UNKNOWN
            in obind (if \<not> cometd_is_meta_channel (Some channel) \<and>
                         cometd_listener_count (subscriptions h) (Some channel) = 1
                      then obind (cometd_new_unsubscribe_message E channel h) (\<lambda>(node, h).
                             cometd_transport_send E (cometd_handshake E fuel) node h)
                      else Ok (code, h)) (\<lambda>(code, h).
                 if code \<noteq> COMETD_SUCCESS then cometd_remove_listener s h else Ok (code, h))))"

section \<open>Receiving\<close>

definition cometd_recv :: "'w env \<Rightarrow> 'w cometd \<Rightarrow> (json option \<times> 'w cometd) outcome" where
  "cometd_recv E h =
     obind (g_assert (cometd_current_transport h \<noteq> None)) (\<lambda>_.
     obind (read_transport (cometd_current_transport h) h) (\<lambda>t.
     obind (call_recv E t h) (\<lambda>(payload, h).
       case payload of
         Some p \<Rightarrow> Ok (Some p, h)
       | None \<Rightarrow> obind (cometd_msg_bad_connect_new E h) (\<lambda>(msg, h). Ok (Some (cometd_msg_wrap msg), h)))))"

text \<open>
  The listening loop. Each entry of the schedule is one turn of it: what other threads do to the
  handle before the take, the waits inside the take, and what they do between the take and what
  follows it, the processing of the message or, after a take that found nothing, the test of the
  state. Where the schedule ends the loop is still running.
\<close>

type_synonym 'w listen_turn = "('w cometd \<Rightarrow> 'w cometd) \<times> inbox_wait list \<times> ('w cometd \<Rightarrow> 'w cometd)"

definition stop_states :: cint where
  "stop_states = COMETD_DISCONNECTED OR COMETD_DISCONNECTING OR COMETD_UNINITIALIZED"

fun listen_loop :: "'w env \<Rightarrow> nat \<Rightarrow> 'w listen_turn list \<Rightarrow> 'w cometd \<Rightarrow> 'w cometd outcome" where
  "listen_loop E fuel [] h = Fault Out_of_fuel"
| "listen_loop E fuel ((before, waits, after) # sched) h =
     (let h = before h;
          (msg, queue) = cometd_inbox_take waits (inbox h);
          h = after (h\<lparr>inbox := queue\<rparr>)
      in case msg of
           Some m \<Rightarrow> obind (cometd_process_msg E (cometd_handshake E fuel) (Some m) h) (\<lambda>(ret, m, h).
                       listen_loop E fuel sched h)
         | None \<Rightarrow> if cometd_conn_is_state (conn h) stop_states then Ok h
                   else listen_loop E fuel sched h)"

definition cometd_listen :: "'w env \<Rightarrow> nat \<Rightarrow> 'w listen_turn list \<Rightarrow> 'w cometd \<Rightarrow> 'w cometd outcome" where
  "cometd_listen E fuel sched h =
     (if cometd_conn_is_state (conn h) stop_states then Ok h else listen_loop E fuel sched h)"

section \<open>Creation and destruction\<close>

definition cometd_impl_set_sys_s :: "'w env \<Rightarrow> 'w cometd \<Rightarrow> 'w cometd" where
  "cometd_impl_set_sys_s E h =
     (let (s1, h) = cometd_add_listener E COMETD_CHANNEL_META_HANDSHAKE Cometd_process_handshake h;
          (s2, h) = cometd_add_listener E COMETD_CHANNEL_META_CONNECT Cometd_process_connect h
      in h\<lparr>sys_s := \<lparr>handshake_handler = s1, connect_handler = s2,
       subscribe_handler = None, unsubscribe_handler = None, disconnect_handler = None\<rparr>\<rparr>)"

text \<open>The handle as \<open>malloc\<close>ed, before its fields are set, is given by the token and the world only.\<close>

definition cometd_new :: "'w env \<Rightarrow> string option \<Rightarrow> 'w \<Rightarrow> 'w cometd" where
  "cometd_new E token w =
     (let h = \<lparr>conn = cometd_conn_new,
           config = \<lparr>url = [], backoff_increment = 1000, max_backoff = 30000,
             max_network_delay = 1000, request_timeout = 60000, append_message_type_to_url = 1,
             transports = []\<rparr>,
           last_error = cometd_error_new, loop = cometd_loop_gthread_new, inbox = [],
           subscriptions = cometd_listener_new,
           sys_s = \<lparr>handshake_handler = None, connect_handler = None,
       subscribe_handler = None, unsubscribe_handler = None, disconnect_handler = None\<rparr>, exts = [],
           transport_heap = Map.empty, ext_heap = Map.empty, next_addr = 0, g_token = token,
           stdout = [], world = w\<rparr>;
         (r, h) = cometd_register_transport COMETD_TRANSPORT_LONG_POLLING h
      in cometd_impl_set_sys_s E h)"

definition cometd_impl_destroy_sys_s :: "'w cometd \<Rightarrow> 'w cometd outcome" where
  "cometd_impl_destroy_sys_s h =
     obind (cometd_remove_listener (handshake_handler (sys_s h)) h) (\<lambda>(r, h).
     obind (cometd_remove_listener (connect_handler (sys_s h)) h) (\<lambda>(r, h). Ok h))"

definition cometd_destroy :: "'w env \<Rightarrow> 'w cometd \<Rightarrow> 'w cometd outcome" where
  "cometd_destroy E h =
     obind (cometd_impl_destroy_sys_s h) (\<lambda>h.
     obind (heap_free_list (transport_heap h) (transports (config h))) (\<lambda>th.
     obind (cometd_listener_destroy (subscriptions h)) (\<lambda>L.
     obind (cometd_loop_destroy E (h\<lparr>transport_heap := th, subscriptions := L\<rparr>)) (\<lambda>h.
     obind (heap_free_list (ext_heap h) (exts h)) (\<lambda>eh.
       Ok (h\<lparr>ext_heap := eh, inbox := []\<rparr>))))))"

section \<open>Lemmas\<close>

lemma should_handshake_iff:
  "cometd_should_handshake h \<longleftrightarrow>
     \<not> cometd_conn_is_state (conn h) COMETD_HANDSHAKE_SUCCESS \<and>
     \<not> cometd_conn_is_state (conn h) COMETD_CONNECTED \<and>
     (case advice (conn h) of None \<Rightarrow> True | Some a \<Rightarrow> cometd_advice_is_handshake a)"
  by (auto simp: cometd_should_handshake_def conn_is_state_or)

lemma should_recv_iff:
  "conn_state (conn h) \<in> conn_states \<Longrightarrow> cometd_should_recv h \<longleftrightarrow>
     conn_state (conn h) \<in> {COMETD_CONNECTED, COMETD_HANDSHAKE_SUCCESS, COMETD_UNCONNECTED}"
  by (simp add: cometd_should_recv_def conn_is_state_or conn_is_state_single conn_states_def)

lemma compute_backoff_cases:
  assumes "cometd_impl_compute_backoff c attempt = Ok b"
  shows "b = -1 \<or> (b = attempt * backoff_increment c \<and> b < max_backoff c)"
  using assms by (auto simp: cometd_impl_compute_backoff_def outcome_simps split: if_splits)

lemma finish_send_None [simp]: "finish_send E hs (None, h) = Ok (err_code (last_error h), h)"
  by (simp add: finish_send_def cometd_last_error_def)

lemma send_msg_sync_no_exts:
  "exts h = [] \<Longrightarrow> cometd_impl_send_msg_sync E hs msg None h =
     obind (http_post_msg E (Some (JArray [msg])) h) (finish_send E hs)"
  by (simp add: cometd_impl_send_msg_sync_def)

lemma send_msg_sync_transport:
  "exts h = [] \<Longrightarrow> transport_heap h a = Some tr \<Longrightarrow> cometd_impl_send_msg_sync E hs msg (Some a) h =
     obind (call_send E tr (Some (JArray [msg])) h) (finish_send E hs)"
  by (simp add: cometd_impl_send_msg_sync_def heap_simps)

end
