(* ===== verification/Gthread.thy ===== *)
theory Gthread
  imports Cometd
begin

text \<open>
  The loop thread (\<^verbatim>\<open>src/src/loops/gthread.c\<close>, \<open>cometd_loop_gthread_run\<close>): it polls the
  server while the connection is up, hands connect messages to the library's handler and
  everything else to the inbox, and backs off while the connection is down.
\<close>

text \<open>
  Each round comes with what other threads did to the handle before the loop tests its
  condition; where that schedule ends, the thread is still running. \<open>attempt\<close> is a \<open>guint\<close>.
\<close>

fun gthread_loop :: "'w env \<Rightarrow> nat \<Rightarrow> ('w cometd \<Rightarrow> 'w cometd) list \<Rightarrow> 32 word \<Rightarrow> int
    \<Rightarrow> 'w cometd \<Rightarrow> 'w cometd outcome" where
  "gthread_loop E fuel [] attempt backoff h = Fault Out_of_fuel"
| "gthread_loop E fuel (others # sched) attempt backoff h =
     (let h = others h
      in if \<not> cometd_should_recv h then Ok h
         else obind (cometd_loop_wait E backoff h) (\<lambda>h.
              obind (cometd_recv E h) (\<lambda>(payload, h).
              obind (cometd_msg_extract_connect (json_lib E) payload) (\<lambda>(connect, payload).
                let h = h\<lparr>inbox := cometd_inbox_push payload (inbox h)\<rparr>
                in obind (cometd_process_msg E (cometd_handshake E fuel) connect h) (\<lambda>(ret, connect, h).
                   obind (if cometd_should_retry_recv h
                          then obind (cometd_get_backoff h (uint attempt)) (\<lambda>b. Ok (b, attempt))
                          else Ok (0, 0)) (\<lambda>(backoff, attempt).
                     if backoff = -1 then Ok h
                     else gthread_loop E fuel sched (attempt + 1) backoff h))))))"

definition cometd_loop_gthread_run ::
  "'w env \<Rightarrow> nat \<Rightarrow> ('w cometd \<Rightarrow> 'w cometd) list \<Rightarrow> 'w cometd \<Rightarrow> 'w cometd outcome" where
  "cometd_loop_gthread_run E fuel sched h =
     obind (gthread_loop E fuel sched 1 0 h) (\<lambda>h.
       Ok (h\<lparr>conn := cometd_conn_set_state COMETD_DISCONNECTED (conn h)\<rparr>))"

end
