(* ===== verification/Session.thy ===== *)
theory Session
  imports Gthread
begin

text \<open>
  What the library's own handlers and state tests do: the handshake reply, the connect
  reply, which loops a state lets run, and the delays between attempts.
\<close>

section \<open>State tests\<close>

lemma is_state_two:
  "conn_state c \<in> conn_states \<Longrightarrow> s \<in> conn_states \<Longrightarrow> t \<in> conn_states \<Longrightarrow>
    cometd_conn_is_state c (s OR t) \<longleftrightarrow> conn_state c = s \<or> conn_state c = t"
  by (simp add: conn_is_state_or conn_is_state_single)

lemma conn_states_members [simp]:
  "COMETD_UNINITIALIZED \<in> conn_states" "COMETD_DISCONNECTED \<in> conn_states"
  "COMETD_HANDSHAKE_SUCCESS \<in> conn_states" "COMETD_CONNECTED \<in> conn_states"
  "COMETD_UNCONNECTED \<in> conn_states"
  by (simp_all add: conn_states_def)

lemma states_distinct [simp]:
  "COMETD_UNINITIALIZED \<noteq> COMETD_DISCONNECTED" "COMETD_UNINITIALIZED \<noteq> COMETD_HANDSHAKE_SUCCESS"
  "COMETD_UNINITIALIZED \<noteq> COMETD_CONNECTED" "COMETD_UNINITIALIZED \<noteq> COMETD_UNCONNECTED"
  "COMETD_DISCONNECTED \<noteq> COMETD_HANDSHAKE_SUCCESS" "COMETD_DISCONNECTED \<noteq> COMETD_CONNECTED"
  "COMETD_DISCONNECTED \<noteq> COMETD_UNCONNECTED" "COMETD_HANDSHAKE_SUCCESS \<noteq> COMETD_CONNECTED"
  "COMETD_HANDSHAKE_SUCCESS \<noteq> COMETD_UNCONNECTED" "COMETD_CONNECTED \<noteq> COMETD_UNCONNECTED"
  by (simp_all add: state_defs)

lemmas states_distinct' [simp] = states_distinct [symmetric]

lemma not_disconnecting:
  assumes "conn_state c \<in> conn_states"
  shows "\<not> cometd_conn_is_state c COMETD_DISCONNECTING"
proof -
  have "s AND COMETD_DISCONNECTING = 0" if "s \<in> conn_states" for s
    using that by (auto simp: conn_states_def state_defs)
  then show ?thesis using assms by (simp add: cometd_conn_is_state_def cometd_conn_state_def)
qed

lemma stop_states_iff:
  "conn_state c \<in> conn_states \<Longrightarrow> cometd_conn_is_state c stop_states \<longleftrightarrow>
    conn_state c = COMETD_DISCONNECTED \<or> conn_state c = COMETD_UNINITIALIZED"
  by (simp add: stop_states_def conn_is_state_or conn_is_state_single not_disconnecting)

lemma disconnect_states_iff:
  "conn_state c \<in> conn_states \<Longrightarrow>
    cometd_conn_is_state c (COMETD_DISCONNECTING OR COMETD_DISCONNECTED) \<longleftrightarrow>
      conn_state c = COMETD_DISCONNECTED"
  by (simp add: conn_is_state_or conn_is_state_single not_disconnecting)

lemma should_retry_recv_iff:
  "conn_state (conn h) \<in> conn_states \<Longrightarrow> cometd_should_retry_recv h \<longleftrightarrow>
    conn_state (conn h) = COMETD_UNCONNECTED \<and>
    (\<exists>a. advice (conn h) = Some a \<and> cometd_advice_is_retry a)"
  by (auto simp: cometd_should_retry_recv_def conn_is_state_single cometd_conn_advice_def
      split: option.splits)

lemma should_handshake_states:
  "conn_state (conn h) \<in> conn_states \<Longrightarrow> cometd_should_handshake h \<longleftrightarrow>
    conn_state (conn h) \<notin> {COMETD_HANDSHAKE_SUCCESS, COMETD_CONNECTED} \<and>
    (case advice (conn h) of None \<Rightarrow> True | Some a \<Rightarrow> cometd_advice_is_handshake a)"
  by (simp add: should_handshake_iff conn_is_state_single)

section \<open>The handshake reply\<close>

lemma process_handshake_found:
  assumes "registry_wf h" and "cometd_msg_supported_connection_types (json_lib E) msg = map Some names"
    and "cometd_msg_advice (json_lib E) msg = Ok adv"
    and "find (\<lambda>name. first_named h name (transports (config h)) \<noteq> None) (rev names) = Some name"
  shows "cometd_process_handshake E msg h =
    obind (cometd_msg_client_id (json_lib E) msg) (\<lambda>cid.
    obind (g_assert (cid \<noteq> None)) (\<lambda>_.
      Ok (COMETD_SUCCESS, h\<lparr>conn := (conn h)\<lparr>transport := first_named h name (transports (config h)),
        client_id := cid, conn_state := COMETD_HANDSHAKE_SUCCESS, advice := adv\<rparr>\<rparr>)))"
proof -
  obtain a where a: "first_named h name (transports (config h)) = Some a"
    using assms(4) by (auto simp: find_Some_iff)
  have "cometd_transport_negotiate (json_lib E) (transports (config h)) msg h = Ok (Some a)"
    using assms a by (simp add: cometd_transport_negotiate_def negotiate_outer_last registry_wf_def)
  then show ?thesis
    using assms(3) a
    by (auto simp: cometd_process_handshake_def cometd_conn_set_transport_def obind_assoc
        cometd_conn_set_client_id_def cometd_conn_set_state_def cometd_conn_take_advice_def
        intro!: obind_cong)
qed

lemma process_handshake_not_found:
  assumes "registry_wf h" and "cometd_msg_supported_connection_types (json_lib E) msg = map Some names"
    and "cometd_msg_advice (json_lib E) msg = Ok adv"
    and "find (\<lambda>name. first_named h name (transports (config h)) \<noteq> None) (rev names) = None"
  shows "cometd_process_handshake E msg h =
    Ok (ECOMETD_NO_TRANSPORT, h\<lparr>conn := (conn h)\<lparr>advice := adv\<rparr>\<rparr>)"
proof -
  have "cometd_transport_negotiate (json_lib E) (transports (config h)) msg h = Ok None"
    using assms by (simp add: cometd_transport_negotiate_def negotiate_outer_last registry_wf_def)
  then show ?thesis
    using assms(3) by (simp add: cometd_process_handshake_def cometd_conn_take_advice_def)
qed

section \<open>The connect reply\<close>

definition advises_handshake :: "cometd_advice option \<Rightarrow> bool" where
  "advises_handshake adv = (case adv of None \<Rightarrow> False | Some a \<Rightarrow> cometd_advice_is_handshake a)"

lemma process_connect_disconnected:
  "conn_state (conn h) = COMETD_DISCONNECTED \<Longrightarrow> cometd_process_connect E hs msg h = Ok (COMETD_SUCCESS, h)"
  by (simp add: cometd_process_connect_def disconnect_states_iff)

lemma process_connect_live:
  assumes "conn_state (conn h) \<in> conn_states - {COMETD_DISCONNECTED}"
    and "cometd_msg_advice (json_lib E) msg = Ok adv"
  shows "cometd_process_connect E hs msg h =
    (let c = (conn h)\<lparr>advice := (if adv = None then advice (conn h) else adv)\<rparr>
     in if cometd_msg_is_successful (json_lib E) msg
        then Ok (COMETD_SUCCESS, h\<lparr>conn := c\<lparr>conn_state := COMETD_CONNECTED\<rparr>\<rparr>)
        else if advises_handshake adv
        then obind (hs (h\<lparr>conn := c\<lparr>conn_state := COMETD_UNCONNECTED\<rparr>\<rparr>)) (\<lambda>(code, h). Ok (COMETD_SUCCESS, h))
        else Ok (COMETD_SUCCESS, h\<lparr>conn := c\<lparr>conn_state := COMETD_UNCONNECTED\<rparr>\<rparr>))"
proof -
  have "\<not> cometd_conn_is_state (conn h) (COMETD_DISCONNECTING OR COMETD_DISCONNECTED)"
    using assms(1) by (simp add: disconnect_states_iff)
  moreover have "conn h = (conn h)\<lparr>advice := advice (conn h)\<rparr>" by simp
  ultimately show ?thesis
    using assms(2)
    by (auto simp: cometd_process_connect_def cometd_conn_take_advice_def cometd_handle_advice_def
        advises_handshake_def cometd_conn_set_state_def obind_assoc Let_def split: option.splits
        intro!: obind_cong)
qed

section \<open>The delays between attempts\<close>

text \<open>
  The delay after attempt \<open>k\<close> of the default schedule: \<open>k\<close> increments while they stay below
  the maximum, \<open>-1\<close> (give up) from then on.
\<close>

definition scheduled_delay :: "cometd_config \<Rightarrow> int \<Rightarrow> int" where
  "scheduled_delay c k = (if k * backoff_increment c < max_backoff c then k * backoff_increment c else -1)"

lemma compute_backoff_schedule:
  assumes "0 < backoff_increment c" and "0 \<le> k" and "in_long (k * backoff_increment c)"
  shows "cometd_impl_compute_backoff c k = Ok (scheduled_delay c k)"
proof -
  have "0 \<le> k * backoff_increment c" using assms(1,2) by simp
  then show ?thesis
    using assms(1,3) by (auto simp: cometd_impl_compute_backoff_def scheduled_delay_def long_result_def)
qed

lemma get_backoff_no_advice:
  "advice (conn h) = None \<Longrightarrow> 0 < backoff_increment (config h) \<Longrightarrow> 0 \<le> k \<Longrightarrow>
    in_long (k * backoff_increment (config h)) \<Longrightarrow>
    cometd_get_backoff h k = Ok (scheduled_delay (config h) k)"
  by (simp add: cometd_get_backoff_def compute_backoff_schedule)

lemma get_backoff_advised:
  assumes "advice (conn h) = Some a" and "\<not> cometd_advice_is_none a"
    and "0 < backoff_increment (config h)" and "1 \<le> k"
    and "in_long ((k - 1) * backoff_increment (config h))"
  shows "cometd_get_backoff h k = Ok (if interval a = 0 \<and> k > 1
    then scheduled_delay (config h) (k - 1) else interval a)"
  using assms
  by (cases a rule: advice_cases)
    (auto simp: cometd_get_backoff_def cometd_impl_should_backoff_def compute_backoff_schedule)

lemma get_backoff_none:
  "advice (conn h) = Some a \<Longrightarrow> cometd_advice_is_none a \<Longrightarrow> cometd_get_backoff h k = Ok (-1)"
  by (cases a rule: advice_cases)
    (auto simp: cometd_get_backoff_def cometd_impl_should_backoff_def)

lemma scheduled_delay_gives_up:
  assumes "0 < backoff_increment c" and "0 \<le> k" and "scheduled_delay c k = -1" and "k \<le> m"
  shows "scheduled_delay c m = -1"
proof -
  have "0 \<le> k * backoff_increment c" using assms(1,2) by simp
  then have "\<not> k * backoff_increment c < max_backoff c"
    using assms(3) by (auto simp: scheduled_delay_def split: if_splits)
  moreover have "k * backoff_increment c \<le> m * backoff_increment c"
    using assms(1,4) by (simp add: mult_right_mono)
  ultimately show ?thesis by (simp add: scheduled_delay_def)
qed

lemma retry_not_handshake: "cometd_advice_is_retry a \<Longrightarrow> \<not> cometd_advice_is_handshake a"
  by (simp add: cometd_advice_is_retry_def cometd_advice_is_handshake_def)

section \<open>Properties\<close>

text \<open>
  C21. A handshake reply that offers transports: when one of them is registered and the
  reply has a client id, the connection takes the negotiated transport, the client id, the
  state HANDSHAKE_SUCCESS and the reply's advice and nothing else changes; when none is
  registered the result is ECOMETD_NO_TRANSPORT and only the advice is replaced. The
  reply's \<open>successful\<close> member is never read, and a reply without advice erases the old one.
\<close>

theorem process_handshake_outcome:
  assumes "registry_wf h"
    and "cometd_msg_supported_connection_types (json_lib E) (Some (JObject obj)) = map Some names"
    and "cometd_msg_advice (json_lib E) (Some (JObject obj)) = Ok adv"
    and "map_of obj ''clientId'' = Some (JString cid)"
  shows "cometd_process_handshake E (Some (JObject obj)) h =
    (case find (\<lambda>name. first_named h name (transports (config h)) \<noteq> None) (rev names) of
       None \<Rightarrow> Ok (ECOMETD_NO_TRANSPORT, h\<lparr>conn := (conn h)\<lparr>advice := adv\<rparr>\<rparr>)
     | Some name \<Rightarrow> Ok (COMETD_SUCCESS, h\<lparr>conn := (conn h)
         \<lparr>transport := first_named h name (transports (config h)), client_id := Some cid,
          conn_state := COMETD_HANDSHAKE_SUCCESS, advice := adv\<rparr>\<rparr>))"
  using process_handshake_found [OF assms(1-3)] process_handshake_not_found [OF assms(1-3)] assms(4)
  by (simp add: cometd_msg_client_id_def split: option.splits)

definition example_handshake_reply :: json_object where
  "example_handshake_reply = [(''channel'', JString ''/meta/handshake''),
     (''supportedConnectionTypes'', JArray [JString ''long-polling'']),
     (''clientId'', JString ''abc''), (''successful'', JBool False)]"

lemma example_handshake_reply_read:
  "cometd_msg_supported_connection_types (example_json_lib r) (Some (JObject example_handshake_reply))
     = map Some [''long-polling'']"
  "cometd_msg_advice (example_json_lib r) (Some (JObject example_handshake_reply)) = Ok None"
  "map_of example_handshake_reply ''clientId'' = Some (JString ''abc'')"
  by (simp_all add: example_handshake_reply_def cometd_msg_supported_connection_types_def
      json_node_dup_string_def cometd_msg_advice_def json_object_has_member_def)

lemma example_registry_long_polling:
  "first_named example_registry ''long-polling'' (transports (config example_registry)) = Some 0"
  by (simp add: example_registry_def cometd_register_transport_def set_transports_def Let_def
      example_handle_def COMETD_TRANSPORT_LONG_POLLING_def)

lemma process_handshake_outcome_witness:
  "cometd_process_handshake (example_env (example_json_lib None) (answer_with [] 200))
     (Some (JObject example_handshake_reply)) example_registry =
   Ok (COMETD_SUCCESS, example_registry\<lparr>conn := (conn example_registry)\<lparr>transport := Some 0,
     client_id := Some ''abc'', conn_state := COMETD_HANDSHAKE_SUCCESS, advice := None\<rparr>\<rparr>)"
  using process_handshake_outcome [OF example_registry_wf, of
      "example_env (example_json_lib None) (answer_with [] 200)" example_handshake_reply
      "[''long-polling'']" None "''abc''"] example_registry_long_polling
  by (simp add: example_env_def example_handshake_reply_read)

text \<open>
  A handshake reply that offers a registered transport but has no client id, as a
  refusal has, makes the client pass NULL to \<open>strdup\<close>.
\<close>

theorem handshake_without_client_id_crashes:
  assumes "registry_wf h" and "json_glib_ok (json_lib E)"
    and "cometd_msg_supported_connection_types (json_lib E) (Some (JObject obj)) = map Some names"
    and "name \<in> set names" and "first_named h name (transports (config h)) \<noteq> None"
    and "map_of obj ''clientId'' = None"
  shows "cometd_process_handshake E (Some (JObject obj)) h = Fault Null_deref"
proof -
  obtain n where "find (\<lambda>name. first_named h name (transports (config h)) \<noteq> None) (rev names) = Some n"
    using assms(4,5) by (cases "find (\<lambda>name. first_named h name (transports (config h)) \<noteq> None) (rev names)")
      (auto simp: find_None_iff)
  moreover from this obtain a where "first_named h n (transports (config h)) = Some a"
    by (auto simp: find_Some_iff)
  ultimately have "cometd_transport_negotiate (json_lib E) (transports (config h)) (Some (JObject obj)) h = Ok (Some a)"
    using assms by (simp add: cometd_transport_negotiate_def negotiate_outer_last registry_wf_def)
  moreover have "cometd_msg_client_id (json_lib E) (Some (JObject obj)) = Fault Null_deref"
    using assms(2,6) by (simp add: cometd_msg_client_id_def)
  ultimately show ?thesis by (simp add: cometd_process_handshake_def)
qed

lemma handshake_without_client_id_crashes_witness:
  "cometd_process_handshake (example_env (example_json_lib None) (answer_with [] 200))
     (Some (JObject [(''supportedConnectionTypes'', JArray [JString ''long-polling''])])) example_registry =
   Fault Null_deref"
  by (rule handshake_without_client_id_crashes [OF example_registry_wf, of _ _ "[''long-polling'']" "''long-polling''"])
    (simp_all add: example_env_def cometd_msg_supported_connection_types_def json_node_dup_string_def
      example_registry_long_polling)

text \<open>
  C20. A connect reply: after a disconnect it changes nothing; otherwise new advice
  replaces the old and missing advice keeps it, a successful reply leads to CONNECTED, any
  other to UNCONNECTED, from where advice to handshake in this very reply starts a
  handshake whose result code is dropped.
\<close>

theorem process_connect_outcome:
  assumes "conn_state (conn h) \<in> conn_states" and "cometd_msg_advice (json_lib E) msg = Ok adv"
  shows "cometd_process_connect E hs msg h =
    (if conn_state (conn h) = COMETD_DISCONNECTED then Ok (COMETD_SUCCESS, h)
     else let c = (conn h)\<lparr>advice := (if adv = None then advice (conn h) else adv)\<rparr>
       in if cometd_msg_is_successful (json_lib E) msg
          then Ok (COMETD_SUCCESS, h\<lparr>conn := c\<lparr>conn_state := COMETD_CONNECTED\<rparr>\<rparr>)
          else if advises_handshake adv
          then obind (hs (h\<lparr>conn := c\<lparr>conn_state := COMETD_UNCONNECTED\<rparr>\<rparr>)) (\<lambda>(code, h). Ok (COMETD_SUCCESS, h))
          else Ok (COMETD_SUCCESS, h\<lparr>conn := c\<lparr>conn_state := COMETD_UNCONNECTED\<rparr>\<rparr>))"
  using process_connect_disconnected [of h E hs msg] process_connect_live [OF _ assms(2), of h hs] assms(1)
  by simp

lemma process_connect_outcome_witness:
  "cometd_process_connect (example_env (example_json_lib None) (answer_with [] 200)) (\<lambda>h. Ok (0, h))
     (Some (JObject [(''successful'', JBool True)])) example_handle =
   Ok (COMETD_SUCCESS, example_handle\<lparr>conn := (conn example_handle)\<lparr>advice := None, conn_state := COMETD_CONNECTED\<rparr>\<rparr>)"
  by (subst process_connect_outcome [where adv = None])
    (simp_all add: example_defs cometd_conn_new_def cometd_msg_advice_def json_object_has_member_def
      cometd_msg_is_successful_def Let_def)

text \<open>
  In the states the library sets, the loop thread polls exactly in CONNECTED,
  HANDSHAKE_SUCCESS and UNCONNECTED, backs off and polls again exactly in UNCONNECTED with
  advice to retry, and a handshake is attempted exactly outside HANDSHAKE_SUCCESS and
  CONNECTED with no advice or advice to handshake. So polling and the handshake compete in
  UNCONNECTED only, and no advice asks for both.
\<close>

theorem loop_conditions:
  assumes "conn_state (conn h) \<in> conn_states"
  shows "(cometd_should_recv h \<longleftrightarrow>
      conn_state (conn h) \<in> {COMETD_CONNECTED, COMETD_HANDSHAKE_SUCCESS, COMETD_UNCONNECTED}) \<and>
    (cometd_should_retry_recv h \<longleftrightarrow> conn_state (conn h) = COMETD_UNCONNECTED \<and>
      (\<exists>a. advice (conn h) = Some a \<and> cometd_advice_is_retry a)) \<and>
    (cometd_should_handshake h \<longleftrightarrow>
      conn_state (conn h) \<notin> {COMETD_HANDSHAKE_SUCCESS, COMETD_CONNECTED} \<and>
      (advice (conn h) = None \<or> advises_handshake (advice (conn h)))) \<and>
    \<not> (cometd_should_retry_recv h \<and> cometd_should_handshake h)"
  using assms retry_not_handshake
  by (auto simp: should_recv_iff should_retry_recv_iff should_handshake_states advises_handshake_def
      split: option.splits)

lemma loop_conditions_witness:
  "cometd_should_handshake example_handle \<and> \<not> cometd_should_recv example_handle"
  using loop_conditions [of example_handle]
  by (simp add: example_handle_def cometd_conn_new_def)

text \<open>
  C36. The delay after attempt \<open>k\<close>. Advice \<open>none\<close> gives up at once. Advice with an
  interval gives that interval for ever. Without advice the delays are 1, 2, 3, ...
  increments as long as they stay below the maximum and then \<open>-1\<close>, and advice with interval
  0 asks for one immediate attempt before the same schedule; once it has given up it would
  give up at every later attempt too.
\<close>

theorem backoff_schedule:
  assumes "0 < backoff_increment (config h)" and "1 \<le> k" and "in_long (k * backoff_increment (config h))"
  shows "cometd_get_backoff h k = Ok (case advice (conn h) of
      None \<Rightarrow> scheduled_delay (config h) k
    | Some a \<Rightarrow> if cometd_advice_is_none a then -1
               else if interval a \<noteq> 0 then interval a
               else if k = 1 then 0 else scheduled_delay (config h) (k - 1)) \<and>
    (scheduled_delay (config h) k = -1 \<longrightarrow> (\<forall>m\<ge>k. scheduled_delay (config h) m = -1))"
proof -
  have "in_long ((k - 1) * backoff_increment (config h))"
  proof (rule in_long_between [OF _ assms(3), of 0])
    show "0 \<le> (k - 1) * backoff_increment (config h)" using assms(1,2) by simp
  qed (use assms(1) in \<open>simp_all add: in_long_def mult_right_mono\<close>)
  then have "cometd_get_backoff h k = Ok (if interval a = 0 \<and> k > 1
      then scheduled_delay (config h) (k - 1) else interval a)"
    if "advice (conn h) = Some a" "\<not> cometd_advice_is_none a" for a
    using get_backoff_advised that assms(1,2) by blast
  moreover have "cometd_get_backoff h k = Ok (scheduled_delay (config h) k)" if "advice (conn h) = None"
    using get_backoff_no_advice [OF that assms(1) _ assms(3)] assms(2) by simp
  moreover have "\<forall>m\<ge>k. scheduled_delay (config h) m = -1" if "scheduled_delay (config h) k = -1"
    using scheduled_delay_gives_up [OF assms(1) _ that] assms(2) by simp
  ultimately show ?thesis
    using assms(2) get_backoff_none by (cases "advice (conn h)") auto
qed

lemma backoff_schedule_witness:
  "cometd_get_backoff example_handle 29 = Ok 29000 \<and> cometd_get_backoff example_handle 30 = Ok (-1)"
  using backoff_schedule [of example_handle 29] backoff_schedule [of example_handle 30]
  by (simp add: example_handle_def cometd_conn_new_def scheduled_delay_def in_long_def)

end
