(* ===== verification/Lifecycle.thy ===== *)
theory Lifecycle
  imports Session
begin

text \<open>
  The life of a handle: what \<open>cometd_new\<close> sets up, and that \<open>cometd_destroy\<close> frees every
  subscription, transport and extension exactly once on a consistent handle.
\<close>

section \<open>Consistent handles\<close>

text \<open>
  The registry, the listener table and the list of extensions own live objects, each once,
  and nothing else is allocated; the library's handlers, where they could be allocated, are
  two subscriptions of the table.
\<close>

definition exts_wf :: "'w cometd \<Rightarrow> bool" where
  "exts_wf h \<longleftrightarrow> distinct (exts h) \<and> set (exts h) = dom (ext_heap h) \<and>
     (\<forall>e\<in>set (exts h). e < next_addr h)"

definition sys_s_wf :: "'w cometd \<Rightarrow> bool" where
  "sys_s_wf h \<longleftrightarrow>
     (\<forall>a. handshake_handler (sys_s h) = Some a \<longrightarrow> sub_heap (subscriptions h) a \<noteq> None) \<and>
     (\<forall>a. connect_handler (sys_s h) = Some a \<longrightarrow> sub_heap (subscriptions h) a \<noteq> None) \<and>
     (handshake_handler (sys_s h) \<noteq> None \<longrightarrow> handshake_handler (sys_s h) \<noteq> connect_handler (sys_s h))"

definition handle_wf :: "'w cometd \<Rightarrow> bool" where
  "handle_wf h \<longleftrightarrow> registry_wf h \<and> dom (transport_heap h) = set (transports (config h)) \<and>
     listeners_wf (subscriptions h) \<and> exts_wf h \<and> sys_s_wf h"

section \<open>Creation\<close>

lemma add_listener_cases:
  obtains (stored) L where "cometd_add_listener E channel cb h = (Some (sub_next (subscriptions h)), h\<lparr>subscriptions := L\<rparr>)"
      "cometd_listener_add True (subscriptions h) channel cb = (Some (sub_next (subscriptions h)), L)"
      "1 \<le> length channel" "length channel \<le> 510"
  | (failed) "cometd_add_listener E channel cb h = (None, h)"
proof (cases "sub_malloc_ok E (sub_next (subscriptions h)) \<and> channel \<noteq> [] \<and> length channel < 511")
  case True
  then show thesis
    by (intro stored [of "snd (cometd_listener_add True (subscriptions h) channel cb)"])
      (simp_all add: cometd_add_listener_def cometd_listener_add_def Let_def COMETD_MAX_CHANNEL_LEN_def Suc_le_eq)
next
  case False
  then show thesis
    by (intro failed) (auto simp: cometd_add_listener_def cometd_listener_add_def Let_def COMETD_MAX_CHANNEL_LEN_def)
qed

lemma add_listener_wf:
  "listeners_wf (subscriptions h) \<Longrightarrow> listeners_wf (subscriptions (snd (cometd_add_listener E channel cb h)))"
  by (cases rule: add_listener_cases [of E channel cb h])
    (use listener_add_wf [of "subscriptions h" True channel cb] in auto)

lemma add_listener_only_subscriptions:
  "\<exists>L. snd (cometd_add_listener E channel cb h) = h\<lparr>subscriptions := L\<rparr>"
  by (cases rule: add_listener_cases [of E channel cb h]) (auto intro: exI [of _ "subscriptions h"])

text \<open>The two internal handlers, when memory is there for them.\<close>

definition initial_listeners :: listeners where
  "initial_listeners = \<lparr>sub_table = [(''/meta/handshake'', [0]), (''/meta/connect'', [1])],
     sub_heap = [0 \<mapsto> \<lparr>sub_channel = ''/meta/handshake'', sub_callback = Cometd_process_handshake\<rparr>,
       1 \<mapsto> \<lparr>sub_channel = ''/meta/connect'', sub_callback = Cometd_process_connect\<rparr>],
     sub_next = 2\<rparr>"

lemma add_initial_listeners:
  "cometd_listener_add True cometd_listener_new ''/meta/handshake'' Cometd_process_handshake =
    (Some 0, \<lparr>sub_table = [(''/meta/handshake'', [0])],
       sub_heap = [0 \<mapsto> \<lparr>sub_channel = ''/meta/handshake'', sub_callback = Cometd_process_handshake\<rparr>],
       sub_next = 1\<rparr>)"
  "cometd_listener_add True \<lparr>sub_table = [(''/meta/handshake'', [0])],
       sub_heap = [0 \<mapsto> \<lparr>sub_channel = ''/meta/handshake'', sub_callback = Cometd_process_handshake\<rparr>],
       sub_next = 1\<rparr> ''/meta/connect'' Cometd_process_connect = (Some 1, initial_listeners)"
  by (simp_all add: cometd_listener_add_def cometd_listener_new_def Let_def COMETD_MAX_CHANNEL_LEN_def
      table_lookup_def table_insert_def initial_listeners_def)

lemma initial_listeners_wf: "listeners_wf initial_listeners"
  using lr.add_wf [OF lr.add_wf [OF listeners_wf_new add_initial_listeners(1)] add_initial_listeners(2)] .

lemma cometd_new_eq:
  assumes "sub_malloc_ok E 0" and "sub_malloc_ok E 1"
  shows "cometd_new E token w = \<lparr>conn = cometd_conn_new,
    config = \<lparr>url = [], backoff_increment = 1000, max_backoff = 30000,
      max_network_delay = 1000, request_timeout = 60000, append_message_type_to_url = 1,
      transports = [0]\<rparr>,
    last_error = cometd_error_new, loop = cometd_loop_gthread_new, inbox = [],
    subscriptions = initial_listeners,
    sys_s = \<lparr>handshake_handler = Some 0, connect_handler = Some 1,
       subscribe_handler = None, unsubscribe_handler = None, disconnect_handler = None\<rparr>, exts = [],
    transport_heap = [0 \<mapsto> COMETD_TRANSPORT_LONG_POLLING], ext_heap = Map.empty, next_addr = 1,
    g_token = token, stdout = [], world = w\<rparr>"
  using assms add_initial_listeners
  by (simp add: cometd_new_def cometd_register_transport_def set_transports_def Let_def
      cometd_impl_set_sys_s_def cometd_add_listener_def channel_name_defs cometd_listener_new_def)

lemma cometd_new_wf:
  assumes "sub_malloc_ok E 0" and "sub_malloc_ok E 1"
  shows "handle_wf (cometd_new E token w)"
proof -
  have "sub_heap initial_listeners 0 \<noteq> None" "sub_heap initial_listeners 1 \<noteq> None"
    by (simp_all add: initial_listeners_def)
  then show ?thesis
    by (auto simp: cometd_new_eq [OF assms] handle_wf_def registry_wf_def initial_listeners_wf
        exts_wf_def sys_s_wf_def)
qed

lemma meta_segments:
  "channel_segments ''/meta/handshake'' = [[], ''meta'', ''handshake'']"
  "channel_segments ''/meta/connect'' = [[], ''meta'', ''connect'']"
  by (simp_all add: channel_segments_def split_on_eval del: split_on.simps(2))

lemma message_channel_meta:
  "message_channel ''/meta/handshake''" "message_channel ''/meta/connect''"
  by (simp_all add: message_channel_def absolute_channel_def meta_segments
      COMETD_MAX_CHANNEL_LEN_def COMETD_MAX_CHANNEL_PARTS_def)

lemma matches_meta:
  "cometd_channel_matches (Some ''/meta/handshake'') =
     [''/meta/handshake'', ''/meta/*'', ''/meta/**'', ''/**'']"
  "cometd_channel_matches (Some ''/meta/connect'') =
     [''/meta/connect'', ''/meta/*'', ''/meta/**'', ''/**'']"
  by (simp_all add: matches_closed meta_segments COMETD_MAX_CHANNEL_PARTS_def)

lemma initial_listeners_get:
  "cometd_listener_get initial_listeners (Some ''/meta/handshake'') = Ok [0]"
  "cometd_listener_get initial_listeners (Some ''/meta/connect'') = Ok [1]"
  by (simp_all add: listener_get_concat message_channel_not_wildcard message_channel_meta matches_meta
      initial_listeners_def table_lookup_def)

section \<open>Destruction\<close>

lemma remove_handler:
  assumes "listeners_wf (subscriptions h)"
    and "\<forall>a. p = Some a \<longrightarrow> sub_heap (subscriptions h) a \<noteq> None"
  shows "\<exists>L code. cometd_remove_listener p h = Ok (code, h\<lparr>subscriptions := L\<rparr>) \<and> listeners_wf L \<and>
    (\<forall>a. Some a \<noteq> p \<longrightarrow> sub_heap L a = sub_heap (subscriptions h) a)"
proof (cases p)
  case None
  then show ?thesis
    using assms(1) by (intro exI [of _ "subscriptions h"]) (simp add: cometd_remove_listener_def cometd_listener_remove_def)
next
  case (Some a)
  then obtain sub where "sub_heap (subscriptions h) a = Some sub" using assms(2) by auto
  then obtain L where "cometd_listener_remove (subscriptions h) p = Ok (COMETD_SUCCESS, L)"
    "sub_heap L = (sub_heap (subscriptions h))(a := None)"
    using Some listener_remove_cases [OF assms(1), of p] by (auto simp: cometd_listener_remove_def heap_simps Let_def)
  then show ?thesis
    using Some listener_remove_wf [OF assms(1), of p] by (auto simp: cometd_remove_listener_def)
qed

lemma destroy_sys_s_Ok:
  assumes "listeners_wf (subscriptions h)" and "sys_s_wf h"
  shows "\<exists>L. cometd_impl_destroy_sys_s h = Ok (h\<lparr>subscriptions := L\<rparr>) \<and> listeners_wf L"
proof -
  obtain L code where L: "cometd_remove_listener (handshake_handler (sys_s h)) h = Ok (code, h\<lparr>subscriptions := L\<rparr>)"
    "listeners_wf L" "\<forall>a. Some a \<noteq> handshake_handler (sys_s h) \<longrightarrow> sub_heap L a = sub_heap (subscriptions h) a"
    using remove_handler [of h "handshake_handler (sys_s h)"] assms by (auto simp: sys_s_wf_def)
  have "\<forall>a. connect_handler (sys_s h) = Some a \<longrightarrow> sub_heap L a \<noteq> None"
    using assms(2) L(3) by (auto simp: sys_s_wf_def)
  then obtain M code where "cometd_remove_listener (connect_handler (sys_s h)) (h\<lparr>subscriptions := L\<rparr>)
      = Ok (code, h\<lparr>subscriptions := M\<rparr>)" "listeners_wf M"
    using remove_handler [of "h\<lparr>subscriptions := L\<rparr>" "connect_handler (sys_s h)"] L(2) by auto
  then show ?thesis using L(1) by (auto simp: cometd_impl_destroy_sys_s_def)
qed

lemma heap_free_list_all:
  "distinct as \<Longrightarrow> set as = dom hp \<Longrightarrow> heap_free_list hp as = Ok Map.empty"
proof -
  assume "distinct as" "set as = dom hp"
  moreover from this have "hp |` (- set as) = Map.empty" by (auto simp: restrict_map_def fun_eq_iff)
  ultimately show ?thesis using heap_free_list_eq_Ok [of as hp] by simp
qed

lemma destroy_frees_all:
  assumes "handle_wf h" and "loop_destroy (loop h) \<in> {None, Some Gthread}"
  shows "\<exists>h'. cometd_destroy E h = Ok h' \<and> transport_heap h' = Map.empty \<and>
    ext_heap h' = Map.empty \<and> sub_heap (subscriptions h') = Map.empty \<and> inbox h' = []"
proof -
  obtain L where L: "cometd_impl_destroy_sys_s h = Ok (h\<lparr>subscriptions := L\<rparr>)" "listeners_wf L"
    using destroy_sys_s_Ok [of h] assms(1) by (auto simp: handle_wf_def)
  have "heap_free_list (transport_heap h) (transports (config h)) = Ok Map.empty"
    "heap_free_list (ext_heap h) (exts h) = Ok Map.empty"
    using assms(1) by (auto intro!: heap_free_list_all simp: handle_wf_def registry_wf_def exts_wf_def)
  then show ?thesis
    using assms(2) L(1) listener_destroy_Ok [OF L(2)]
    by (auto simp: cometd_destroy_def cometd_loop_destroy_def)
qed

section \<open>Properties\<close>

text \<open>
  With memory for its two internal subscriptions, a new handle is consistent, has the
  long-polling transport, is UNINITIALIZED without an error, and dispatches replies on the
  handshake and the connect channel to the library's handlers and to nothing else.
\<close>

theorem cometd_new_ready:
  assumes "sub_malloc_ok E 0" and "sub_malloc_ok E 1"
  shows "handle_wf (cometd_new E token w) \<and>
    cometd_find_transport ''long-polling'' (cometd_new E token w) = Ok (Some 0) \<and>
    conn_state (conn (cometd_new E token w)) = COMETD_UNINITIALIZED \<and>
    err_code (cometd_last_error (cometd_new E token w)) = COMETD_SUCCESS \<and>
    cometd_listener_fire E hs (Some ''/meta/handshake'') msg (cometd_new E token w) =
      obind (cometd_process_handshake E msg (cometd_new E token w)) (\<lambda>(code, h).
        Ok (if code = COMETD_SUCCESS then COMETD_SUCCESS else ECOMETD_UNKNOWN, msg, h)) \<and>
    cometd_listener_fire E hs (Some ''/meta/connect'') msg (cometd_new E token w) =
      obind (cometd_process_connect E hs msg (cometd_new E token w)) (\<lambda>(code, h).
        Ok (if code = COMETD_SUCCESS then COMETD_SUCCESS else ECOMETD_UNKNOWN, msg, h))"
proof (intro conjI)
  let ?h = "cometd_new E token w"
  have subs: "subscriptions ?h = initial_listeners" by (simp add: cometd_new_eq [OF assms])
  show "handle_wf ?h" by (rule cometd_new_wf [OF assms])
  show "cometd_find_transport ''long-polling'' ?h = Ok (Some 0)"
    by (simp add: cometd_new_eq [OF assms] cometd_find_transport_def read_transport_def heap_simps
        COMETD_TRANSPORT_LONG_POLLING_def)
  have heap: "heap_read (sub_heap initial_listeners) 0 =
      Ok \<lparr>sub_channel = ''/meta/handshake'', sub_callback = Cometd_process_handshake\<rparr>"
    "heap_read (sub_heap initial_listeners) 1 =
      Ok \<lparr>sub_channel = ''/meta/connect'', sub_callback = Cometd_process_connect\<rparr>"
    by (simp_all add: initial_listeners_def heap_read_def)
  show "cometd_listener_fire E hs (Some ''/meta/handshake'') msg ?h =
      obind (cometd_process_handshake E msg ?h) (\<lambda>(code, h).
        Ok (if code = COMETD_SUCCESS then COMETD_SUCCESS else ECOMETD_UNKNOWN, msg, h))"
    by (auto simp: cometd_listener_fire_def subs initial_listeners_get heap obind_assoc intro!: obind_cong)
  show "cometd_listener_fire E hs (Some ''/meta/connect'') msg ?h =
      obind (cometd_process_connect E hs msg ?h) (\<lambda>(code, h).
        Ok (if code = COMETD_SUCCESS then COMETD_SUCCESS else ECOMETD_UNKNOWN, msg, h))"
    by (auto simp: cometd_listener_fire_def subs initial_listeners_get heap obind_assoc intro!: obind_cong
        simp del: One_nat_def)
qed (simp_all add: cometd_new_eq [OF assms] cometd_conn_new_def cometd_last_error_def cometd_error_new_def)

lemma cometd_new_ready_witness:
  "handle_wf (cometd_new (example_env (example_json_lib None) (answer_with [] 200)) None [])"
  by (rule conjunct1 [OF cometd_new_ready]) (simp_all add: example_env_def)

text \<open>
  Destroying a consistent handle with the gthread loop frees every subscription, every
  registered transport and every extension exactly once: there is no fault and nothing
  allocated is left.
\<close>

theorem cometd_destroy_frees_all:
  assumes "handle_wf h" and "loop_destroy (loop h) \<in> {None, Some Gthread}"
  shows "\<exists>h'. cometd_destroy E h = Ok h' \<and> transport_heap h' = Map.empty \<and>
    ext_heap h' = Map.empty \<and> sub_heap (subscriptions h') = Map.empty \<and> inbox h' = []"
  using assms by (rule destroy_frees_all)

lemma cometd_destroy_frees_all_witness:
  "\<exists>h'. cometd_destroy (example_env (example_json_lib None) (answer_with [] 200))
     (cometd_new (example_env (example_json_lib None) (answer_with [] 200)) None []) = Ok h' \<and>
     transport_heap h' = Map.empty"
proof -
  let ?E = "example_env (example_json_lib None) (answer_with [] 200)"
  have "handle_wf (cometd_new ?E None [])"
    by (rule cometd_new_wf) (simp_all add: example_env_def)
  moreover have "loop_destroy (loop (cometd_new ?E None [])) \<in> {None, Some Gthread}"
    by (subst cometd_new_eq) (simp_all add: example_env_def cometd_loop_gthread_new_def cometd_loop_malloc_def)
  ultimately show ?thesis using cometd_destroy_frees_all [of "cometd_new ?E None []" ?E] by blast
qed

end
