(* ===== verification/Wire.thy ===== *)
theory Wire
  imports Lifecycle
begin

text \<open>
  A message on the wire: the POST that carries it, the answers a server can give, and what
  one send over HTTP, with or without the long-polling transport, makes of them.
\<close>

section \<open>Requests and answers\<close>

definition post_request :: "'w env \<Rightarrow> 'w cometd \<Rightarrow> json \<Rightarrow> http_request" where
  "post_request E h msg = \<lparr>req_url = url (config h),
     req_header = ''Content-Type: application/json'',
     req_body = the (cometd_json_node2str (json_lib E) (Some (JArray [msg]))),
     req_timeout_ms = int_of_long (request_timeout (config h))\<rparr>"

definition post_answer :: "'w env \<Rightarrow> 'w cometd \<Rightarrow> json \<Rightarrow> curl_result \<times> 'w" where
  "post_answer E h msg = curl_post E (post_request E h msg) (world h)"

text \<open>libcurl delivered an answer that is not a success.\<close>

definition refused :: "curl_result \<Rightarrow> bool" where
  "refused res \<longleftrightarrow> curl_init_ok res \<and> body_malloc res \<noteq> None \<and>
     (\<forall>p\<in>set (body_chunks res). snd p) \<and>
     \<not> (perform_ok res \<and> 200 \<le> response_code res \<and> response_code res \<le> 299)"

text \<open>The answer is the text of a payload of one message, in any number of pieces.\<close>

definition carries :: "'w env \<Rightarrow> curl_result \<Rightarrow> json_object \<Rightarrow> bool" where
  "carries E res obj \<longleftrightarrow>
     transfer_ok res \<and> body_chunks res \<noteq> [] \<and>
     cometd_json_node2str (json_lib E) (Some (JArray [JObject obj])) =
       Some (concat (map fst (body_chunks res))) \<and>
     json_text_ok (json_lib E) (JArray [JObject obj])"

definition serialises :: "'w env \<Rightarrow> bool" where
  "serialises E \<longleftrightarrow> (\<forall>n. cometd_json_node2str (json_lib E) (Some n) \<noteq> None)"

lemma http_json_post_refused:
  assumes "refused (fst (curl_post E \<lparr>req_url = target, req_header = ''Content-Type: application/json'',
      req_body = data, req_timeout_ms = int_of_long timeout\<rparr> (world h)))"
  shows "http_json_post E target data timeout h = Ok (None, h\<lparr>world := snd (curl_post E
    \<lparr>req_url = target, req_header = ''Content-Type: application/json'',
     req_body = data, req_timeout_ms = int_of_long timeout\<rparr> (world h))\<rparr>)"
proof -
  obtain res w where post: "curl_post E \<lparr>req_url = target, req_header = ''Content-Type: application/json'',
      req_body = data, req_timeout_ms = int_of_long timeout\<rparr> (world h) = (res, w)" by fastforce
  then have r: "refused res" using assms by simp
  then obtain junk where junk: "body_malloc res = Some junk" by (auto simp: refused_def)
  have "\<forall>p\<in>set (body_chunks res). snd p" using r by (simp add: refused_def)
  note pieces = write_pieces_concat [OF this, of 0 "\<lparr>memory = [junk], mem_size = 0\<rparr>"]
  show ?thesis using r pieces by (auto simp: http_json_post_def post junk refused_def Let_def)
qed

lemma serialised:
  "serialises E \<Longrightarrow> cometd_json_node2str (json_lib E) (Some (JArray [msg])) = Some (req_body (post_request E h msg))"
  by (auto simp: serialises_def post_request_def)

lemma json_post_refused:
  assumes "refused (fst (post_answer E h msg))"
  shows "http_json_post E (url (config h)) (req_body (post_request E h msg)) (request_timeout (config h)) h =
    Ok (None, h\<lparr>world := snd (post_answer E h msg)\<rparr>)"
  using http_json_post_refused [of E "url (config h)" "req_body (post_request E h msg)"
      "request_timeout (config h)" h] assms
  by (simp add: post_answer_def post_request_def)

lemma json_post_carries:
  assumes "carries E (fst (post_answer E h msg)) obj"
  shows "\<exists>buf. http_json_post E (url (config h)) (req_body (post_request E h msg)) (request_timeout (config h)) h =
    Ok (Some buf, h\<lparr>world := snd (post_answer E h msg)\<rparr>) \<and>
    cometd_json_str2node (json_lib E) buf = Ok (Some (JArray [JObject obj]))"
proof -
  let ?body = "concat (map fst (body_chunks (fst (post_answer E h msg))))"
  have "curl_post E \<lparr>req_url = url (config h), req_header = ''Content-Type: application/json'',
      req_body = req_body (post_request E h msg), req_timeout_ms = int_of_long (request_timeout (config h))\<rparr>
      (world h) = (fst (post_answer E h msg), snd (post_answer E h msg))"
    by (simp add: post_answer_def post_request_def)
  from http_json_post_ok [OF this] assms
  have "http_json_post E (url (config h)) (req_body (post_request E h msg)) (request_timeout (config h)) h =
    Ok (Some (?body @ [CHR 0x00]), h\<lparr>world := snd (post_answer E h msg)\<rparr>)"
    by (simp add: carries_def)
  moreover have "cometd_json_str2node (json_lib E) (?body @ [CHR 0x00]) = Ok (Some (JArray [JObject obj]))"
    using assms str2node_node2str [of "json_lib E" "JArray [JObject obj]" ?body "[]"] by (simp add: carries_def)
  ultimately show ?thesis by blast
qed

section \<open>Posting a message\<close>

lemma post_msg_refused:
  assumes "serialises E" and "refused (fst (post_answer E h msg))"
  shows "http_post_msg E (Some (JArray [msg])) h =
    Ok (None, h\<lparr>last_error := \<lparr>err_code = ECOMETD_SEND, err_message = Some ''could not post''\<rparr>,
      world := snd (post_answer E h msg)\<rparr>)"
  using json_post_refused [OF assms(2)] serialised [OF assms(1), of msg h]
  by (simp add: http_post_msg_def cometd_error_def)

lemma post_msg_carries:
  assumes "serialises E" and "carries E (fst (post_answer E h msg)) obj"
  shows "http_post_msg E (Some (JArray [msg])) h =
    Ok (Some (JArray [JObject obj]), h\<lparr>world := snd (post_answer E h msg)\<rparr>)"
  using json_post_carries [OF assms(2)] serialised [OF assms(1), of msg h]
  by (auto simp: http_post_msg_def)

text \<open>The long-polling transport does the same, without the error slot.\<close>

lemma long_polling_refused:
  assumes "serialises E" and "refused (fst (post_answer E h msg))"
  shows "cometd_transport_long_polling_send E (Some (JArray [msg])) h =
    Ok (None, h\<lparr>world := snd (post_answer E h msg)\<rparr>)"
  using json_post_refused [OF assms(2)] serialised [OF assms(1), of msg h]
  by (simp add: cometd_transport_long_polling_send_def long_polling_send_impl_def)

lemma long_polling_carries:
  assumes "serialises E" and "carries E (fst (post_answer E h msg)) obj"
  shows "cometd_transport_long_polling_send E (Some (JArray [msg])) h =
    Ok (Some (JArray [JObject obj]), h\<lparr>world := snd (post_answer E h msg)\<rparr>)"
  using json_post_carries [OF assms(2)] serialised [OF assms(1), of msg h]
  by (auto simp: cometd_transport_long_polling_send_def long_polling_send_impl_def)

section \<open>Sending over the current transport\<close>

text \<open>A client without extensions whose current transport is the long-polling one.\<close>

definition long_polling_client :: "'w cometd \<Rightarrow> bool" where
  "long_polling_client h \<longleftrightarrow> exts h = [] \<and>
     (\<exists>a tr. transport (conn h) = Some a \<and> transport_heap h a = Some tr \<and> tr_send tr = Some Long_polling_send)"

text \<open>An acknowledgement: a reply on a channel that nobody listens to.\<close>

definition acknowledges :: "'w env \<Rightarrow> 'w cometd \<Rightarrow> curl_result \<Rightarrow> bool \<Rightarrow> bool" where
  "acknowledges E h res b \<longleftrightarrow> (\<exists>obj c. carries E res obj \<and>
     map_of obj ''channel'' = Some (JString c) \<and> map_of obj ''successful'' = Some (JBool b) \<and>
     cometd_listener_get (subscriptions h) (Some c) = Ok [])"

lemma transport_send_refused:
  assumes "long_polling_client h" and "serialises E" and "refused (fst (post_answer E h msg))"
  shows "cometd_transport_send E hs msg h =
    Ok (err_code (last_error h), h\<lparr>world := snd (post_answer E h msg)\<rparr>)"
  using assms(1) long_polling_refused [OF assms(2,3)]
  by (auto simp: long_polling_client_def cometd_transport_send_def cometd_current_transport_def
      send_msg_sync_transport call_send_def)

lemma transport_send_acknowledged:
  assumes "long_polling_client h" and "serialises E" and "acknowledges E h (fst (post_answer E h msg)) b"
  shows "cometd_transport_send E hs msg h =
    Ok (if b then COMETD_SUCCESS else ECOMETD_UNSUCCESSFUL, h\<lparr>world := snd (post_answer E h msg)\<rparr>)"
proof -
  obtain obj c where ack: "carries E (fst (post_answer E h msg)) obj"
    "map_of obj ''channel'' = Some (JString c)" "map_of obj ''successful'' = Some (JBool b)"
    "cometd_listener_get (subscriptions h) (Some c) = Ok []"
    using assms(3) by (auto simp: acknowledges_def)
  obtain a tr where tr: "transport (conn h) = Some a" "transport_heap h a = Some tr"
    "tr_send tr = Some Long_polling_send" and "exts h = []"
    using assms(1) by (auto simp: long_polling_client_def)
  then have "cometd_transport_send E hs msg h =
      finish_send E hs (Some (JArray [JObject obj]), h\<lparr>world := snd (post_answer E h msg)\<rparr>)"
    using long_polling_carries [OF assms(2) ack(1)]
    by (simp add: cometd_transport_send_def cometd_current_transport_def send_msg_sync_transport call_send_def)
  also have "\<dots> = Ok (if b then COMETD_SUCCESS else ECOMETD_UNSUCCESSFUL, h\<lparr>world := snd (post_answer E h msg)\<rparr>)"
    using ack(2-4) \<open>exts h = []\<close>
    by (simp add: finish_send_def cometd_impl_process_sync_def cometd_process_msg_def cometd_listener_fire_def
        cometd_msg_is_successful_def json_object_has_member_def)
  finally show ?thesis .
qed

end
