(* ===== verification/Messaging.thy ===== *)
theory Messaging
  imports Wire
begin

text \<open>
  What publishing, subscribing and unsubscribing do over the long-polling transport, what
  extensions and listeners see of a message, and how connecting and disconnecting treat
  the loop.
\<close>

section \<open>The messages\<close>

definition publish_message :: "'w env \<Rightarrow> 'w cometd \<Rightarrow> string \<Rightarrow> json \<Rightarrow> json" where
  "publish_message E h channel data = JObject
     [(''id'', JInt (msg_id_seed (conn h) + 1)), (''channel'', JString channel),
      (''clientId'', json_string_node (json_lib E) (client_id (conn h))), (''data'', data)]"

definition subscription_message :: "'w env \<Rightarrow> 'w cometd \<Rightarrow> string \<Rightarrow> string \<Rightarrow> json" where
  "subscription_message E h meta channel = JObject
     [(''id'', JInt (msg_id_seed (conn h) + 1)), (''channel'', JString meta),
      (''clientId'', json_string_node (json_lib E) (client_id (conn h))),
      (''subscription'', JString channel)]"

definition with_next_id :: "'w cometd \<Rightarrow> 'w cometd" where
  "with_next_id h = h\<lparr>conn := (conn h)\<lparr>msg_id_seed := msg_id_seed (conn h) + 1\<rparr>\<rparr>"

definition ids_left :: "'w cometd \<Rightarrow> bool" where
  "ids_left h \<longleftrightarrow> in_long (msg_id_seed (conn h) + 1)"

lemma with_next_id_simps [simp]:
  "transport (conn (with_next_id h)) = transport (conn h)" "exts (with_next_id h) = exts h"
  "transport_heap (with_next_id h) = transport_heap h" "subscriptions (with_next_id h) = subscriptions h"
  "config (with_next_id h) = config h" "world (with_next_id h) = world h"
  "last_error (with_next_id h) = last_error h" "loop (with_next_id h) = loop h"
  by (simp_all add: with_next_id_def)

lemma with_next_id_cong [simp]:
  "long_polling_client (with_next_id h) = long_polling_client h"
  "post_answer E (with_next_id h) msg = post_answer E h msg"
  "acknowledges E (with_next_id h) res b = acknowledges E h res b"
  by (simp_all add: long_polling_client_def post_answer_def post_request_def acknowledges_def)

lemma new_messages:
  assumes "ids_left h"
  shows "cometd_new_publish_message E c data h = Ok (publish_message E h c data, with_next_id h)"
    and "cometd_new_subscribe_message E c h =
      Ok (subscription_message E h ''/meta/subscribe'' c, with_next_id h)"
    and "cometd_new_unsubscribe_message E c h =
      Ok (subscription_message E h ''/meta/unsubscribe'' c, with_next_id h)"
  using assms
  by (simp_all add: ids_left_def cometd_new_publish_message_def cometd_new_subscribe_message_def
      cometd_new_unsubscribe_message_def take_msg_id_def next_msg_id_def long_result_def
      publish_message_def subscription_message_def with_next_id_def set_members_def
      json_object_set_member_def channel_name_defs cometd_conn_client_id_def)

section \<open>Unsubscribing\<close>

lemma unsubscribe_last:
  assumes "sub_heap (subscriptions h) a = Some s" and "\<not> cometd_is_meta_channel (Some (sub_channel s))"
    and "cometd_listener_count (subscriptions h) (Some (sub_channel s)) = 1" and "ids_left h"
    and "cometd_transport_send E (cometd_handshake E fuel)
      (subscription_message E h ''/meta/unsubscribe'' (sub_channel s)) (with_next_id h) = Ok (code, h')"
  shows "cometd_unsubscribe E fuel (Some a) h =
    (if code = COMETD_SUCCESS then Ok (COMETD_SUCCESS, h') else cometd_remove_listener (Some a) h')"
  using assms by (simp add: cometd_unsubscribe_def heap_simps new_messages)

lemma unsubscribe_local:
  assumes "sub_heap (subscriptions h) a = Some s"
    and "cometd_is_meta_channel (Some (sub_channel s)) \<or>
      cometd_listener_count (subscriptions h) (Some (sub_channel s)) \<noteq> 1"
  shows "cometd_unsubscribe E fuel (Some a) h = cometd_remove_listener (Some a) h"
  using assms by (auto simp: cometd_unsubscribe_def heap_simps)

lemma remove_listener_live:
  assumes "listeners_wf (subscriptions h)" and "sub_heap (subscriptions h) a = Some s"
  shows "\<exists>L. cometd_remove_listener (Some a) h = Ok (COMETD_SUCCESS, h\<lparr>subscriptions := L\<rparr>) \<and>
    listeners_wf L \<and> (\<forall>d. table_lookup L d =
      (if d = sub_channel s then remove1 a (table_lookup (subscriptions h) d) else table_lookup (subscriptions h) d))"
proof -
  obtain L where L: "cometd_listener_remove (subscriptions h) (Some a) = Ok (COMETD_SUCCESS, L)"
    "\<forall>d. table_lookup L d = (if d = sub_channel s then remove1 a (table_lookup (subscriptions h) (sub_channel s))
       else table_lookup (subscriptions h) d)"
    using lr.remove_callbacks [OF assms(1) listeners_wf_filed [OF assms]] by blast
  moreover have "listeners_wf L" using lr.remove_wf [OF assms(1) L(1)] .
  ultimately show ?thesis by (auto simp: cometd_remove_listener_def)
qed

section \<open>Extensions and listeners\<close>

lemma send_msg_sync_after_exts:
  assumes "cometd_ext_fire_outgoing E (Some msg) h = Ok (m, h')"
  shows "cometd_impl_send_msg_sync E hs msg t h =
      obind (if t = None then http_post_msg E (Some (cometd_msg_wrap_copy msg m)) h'
             else obind (read_transport t h') (\<lambda>tr. call_send E tr (Some (cometd_msg_wrap_copy msg m)) h'))
        (finish_send E hs)"
  using assms
  by (cases t) (simp_all add: cometd_impl_send_msg_sync_def)

lemma fire_items_append:
  "fire_items E hs (as @ bs) msg h =
    obind (fire_items E hs as msg h) (\<lambda>(code, msg, h).
      if code \<noteq> COMETD_SUCCESS then Ok (code, msg, h) else fire_items E hs bs msg h)"
  by (induction as arbitrary: msg h) (auto simp: obind_assoc intro!: obind_cong split: prod.splits)

section \<open>What the code of a send says\<close>

lemma carries_unique: "carries E res obj \<Longrightarrow> carries E res obj' \<Longrightarrow> obj = obj'"
  by (auto simp: carries_def json_text_ok_def cometd_json_node2str_def)

lemma acknowledges_unique: "acknowledges E h res b \<Longrightarrow> acknowledges E h res b' \<Longrightarrow> b = b'"
  by (auto simp: acknowledges_def dest: carries_unique)

lemma acknowledged_not_refused: "acknowledges E h res b \<Longrightarrow> \<not> refused res"
  by (auto simp: acknowledges_def carries_def transfer_ok_def refused_def)

lemma send_acknowledged_or_refused:
  assumes "long_polling_client h" and "serialises E"
    and "acknowledges E h (fst (post_answer E h msg)) True \<or> acknowledges E h (fst (post_answer E h msg)) False \<or>
      refused (fst (post_answer E h msg))"
  shows "\<exists>code. cometd_transport_send E hs msg h = Ok (code, h\<lparr>world := snd (post_answer E h msg)\<rparr>) \<and>
    (code = COMETD_SUCCESS \<longleftrightarrow> acknowledges E h (fst (post_answer E h msg)) True \<or>
      (refused (fst (post_answer E h msg)) \<and> err_code (last_error h) = COMETD_SUCCESS))"
  using assms(3)
proof (elim disjE)
  assume "refused (fst (post_answer E h msg))"
  with transport_send_refused [OF assms(1,2) this] show ?thesis by (auto dest: acknowledged_not_refused)
next
  assume "acknowledges E h (fst (post_answer E h msg)) True"
  with transport_send_acknowledged [OF assms(1,2) this] show ?thesis by auto
next
  assume "acknowledges E h (fst (post_answer E h msg)) False"
  with transport_send_acknowledged [OF assms(1,2) this] show ?thesis
    by (auto dest: acknowledged_not_refused acknowledges_unique)
qed

section \<open>An example client\<close>

text \<open>A client after its handshake, with one listener of its own on \<^verbatim>\<open>/foo\<close>.\<close>

definition example_client :: "http_request list env \<Rightarrow> http_request list cometd" where
  "example_client E = (snd (cometd_add_listener E ''/foo'' (User_callback 0) (cometd_new E None [])))
     \<lparr>conn := \<lparr>conn_state = COMETD_HANDSHAKE_SUCCESS, msg_id_seed = 1, client_id = Some ''abc'',
        transport = Some 0, advice = None\<rparr>\<rparr>"

definition client_listeners :: listeners where
  "client_listeners = snd (cometd_listener_add True initial_listeners ''/foo'' (User_callback 0))"

lemma client_listeners_eq:
  "client_listeners = \<lparr>sub_table = [(''/meta/handshake'', [0]), (''/meta/connect'', [1]), (''/foo'', [2])],
     sub_heap = (sub_heap initial_listeners)(2 \<mapsto> \<lparr>sub_channel = ''/foo'', sub_callback = User_callback 0\<rparr>),
     sub_next = 3\<rparr>"
  by (simp add: client_listeners_def cometd_listener_add_def Let_def COMETD_MAX_CHANNEL_LEN_def
      initial_listeners_def table_lookup_def table_insert_def)

lemma client_listeners_wf: "listeners_wf client_listeners"
  by (simp add: client_listeners_def listener_add_wf initial_listeners_wf)

definition ack_env :: "string \<Rightarrow> bool \<Rightarrow> int \<Rightarrow> http_request list env" where
  "ack_env channel b code = example_env (example_json_lib (Some (JArray [JObject
     [(''channel'', JString channel), (''successful'', JBool b)]]))) (answer_with [(''{}'', True)] code)"

lemma ack_env_malloc: "sub_malloc_ok (ack_env c b r) a"
  by (simp add: ack_env_def example_env_def)

lemma example_client_eq:
  "example_client (ack_env c b r) = (cometd_new (ack_env c b r) None [])
     \<lparr>subscriptions := client_listeners,
      conn := \<lparr>conn_state = COMETD_HANDSHAKE_SUCCESS, msg_id_seed = 1, client_id = Some ''abc'',
        transport = Some 0, advice = None\<rparr>\<rparr>"
  by (simp add: example_client_def cometd_new_eq [OF ack_env_malloc ack_env_malloc] cometd_add_listener_def
      ack_env_malloc client_listeners_def split: prod.split)

lemma example_client_simps [simp]:
  "long_polling_client (example_client (ack_env c b r))" "ids_left (example_client (ack_env c b r))"
  "subscriptions (example_client (ack_env c b r)) = client_listeners"
  "last_error (example_client (ack_env c b r)) = cometd_error_new"
  by (simp_all add: example_client_eq long_polling_client_def ids_left_def in_long_def
      cometd_new_eq [OF ack_env_malloc ack_env_malloc] COMETD_TRANSPORT_LONG_POLLING_def)

lemma ack_env_serialises [simp]: "serialises (ack_env c b r)"
  by (simp add: serialises_def ack_env_def example_defs cometd_json_node2str_def)

lemma ack_env_answer:
  "fst (post_answer (ack_env c b r) h msg) = answer_with [(''{}'', True)] r"
  by (simp add: post_answer_def ack_env_def example_env_def)

lemma ack_env_refused: "r < 200 \<or> 299 < r \<Longrightarrow> refused (fst (post_answer (ack_env c b r) h msg))"
  by (auto simp: ack_env_answer refused_def answer_with_def)

lemma ack_env_acknowledges:
  assumes "cometd_listener_get (subscriptions h) (Some c) = Ok []"
  shows "acknowledges (ack_env c b 200) h (fst (post_answer (ack_env c b 200) h msg)) b"
  unfolding acknowledges_def
proof (intro exI conjI)
  have "carries (ack_env c b 200) (answer_with [(''{}'', True)] 200)
      [(''channel'', JString c), (''successful'', JBool b)]"
    by (simp add: carries_def answer_with_def transfer_ok_def ack_env_def example_env_def
        example_json_lib_def cometd_json_node2str_def json_text_ok_def)
  then show "carries (ack_env c b 200) (fst (post_answer (ack_env c b 200) h msg))
      [(''channel'', JString c), (''successful'', JBool b)]"
    by (simp only: ack_env_answer)
qed (use assms in simp_all)

lemma client_listeners_get_ack:
  "cometd_listener_get client_listeners (Some ''/ack'') = Ok []"
proof -
  have segs: "channel_segments ''/ack'' = [[], ''ack'']"
    by (simp add: channel_segments_def split_on_eval del: split_on.simps(2))
  have "message_channel ''/ack''"
    by (simp add: message_channel_def absolute_channel_def segs COMETD_MAX_CHANNEL_LEN_def COMETD_MAX_CHANNEL_PARTS_def)
  moreover have "cometd_channel_matches (Some ''/ack'') = [''/ack'', ''/*'', ''/**'']"
    by (simp add: matches_closed segs COMETD_MAX_CHANNEL_PARTS_def)
  ultimately show ?thesis
    by (simp add: listener_get_concat message_channel_not_wildcard client_listeners_eq table_lookup_def)
qed

lemma example_client_ack:
  "acknowledges (ack_env ''/ack'' b 200) (example_client (ack_env ''/ack'' b 200))
     (fst (post_answer (ack_env ''/ack'' b 200) (example_client (ack_env ''/ack'' b 200)) msg)) b"
  by (rule ack_env_acknowledges) (simp add: client_listeners_get_ack)

section \<open>Properties\<close>

text \<open>
  C26. Publishing sends the channel, the data, the client id and a fresh message id, and
  reports the server's acknowledgement: COMETD_SUCCESS when it is positive and
  ECOMETD_UNSUCCESSFUL when it is not; apart from the message id the client is unchanged.
\<close>

theorem publish_acknowledged:
  assumes "long_polling_client h" and "ids_left h" and "serialises E"
    and "acknowledges E h (fst (post_answer E h (publish_message E h channel data))) b"
  shows "cometd_publish E fuel channel data h =
    Ok (if b then COMETD_SUCCESS else ECOMETD_UNSUCCESSFUL,
        (with_next_id h)\<lparr>world := snd (post_answer E h (publish_message E h channel data))\<rparr>)"
  using transport_send_acknowledged [of "with_next_id h"] assms
  by (simp add: cometd_publish_def new_messages)

lemma publish_acknowledged_witness:
  "\<exists>h'. cometd_publish (ack_env ''/ack'' True 200) 1 ''/foo'' JNull (example_client (ack_env ''/ack'' True 200))
     = Ok (COMETD_SUCCESS, h')"
  using publish_acknowledged [OF _ _ _ example_client_ack, where fuel = 1] by simp

text \<open>
  C32. A publish whose POST the server refuses or that cannot be sent reports the code of
  the last error before it: the long-polling transport records no error, so a client that
  had none gets COMETD_SUCCESS for a message that was lost.
\<close>

theorem publish_hides_failed_post:
  assumes "long_polling_client h" and "ids_left h" and "serialises E"
    and "refused (fst (post_answer E h (publish_message E h channel data)))"
  shows "cometd_publish E fuel channel data h =
      Ok (err_code (cometd_last_error h),
        (with_next_id h)\<lparr>world := snd (post_answer E h (publish_message E h channel data))\<rparr>) \<and>
    (last_error h = cometd_error_new \<longrightarrow>
      (\<exists>h'. cometd_publish E fuel channel data h = Ok (COMETD_SUCCESS, h') \<and> last_error h' = cometd_error_new))"
  using transport_send_refused [of "with_next_id h"] assms
  by (simp add: cometd_publish_def new_messages cometd_last_error_def cometd_error_new_def)

lemma publish_hides_failed_post_witness:
  "\<exists>h'. cometd_publish (ack_env ''/ack'' True 503) 1 ''/foo'' JNull (example_client (ack_env ''/ack'' True 503))
     = Ok (COMETD_SUCCESS, h')"
  using publish_hides_failed_post [of "example_client (ack_env ''/ack'' True 503)" "ack_env ''/ack'' True 503"
      "''/foo''" JNull 1] ack_env_refused [of 503]
  by auto

text \<open>
  C31. Subscribing to a meta channel never contacts the server and adds the listener. On any other
  channel the listener is added when the server acknowledges the subscription, and not when it rejects
  it; when the POST is refused it is added nevertheless, unless an error was recorded before, because the
  transport reports the last error and records none. A listener that is added is the last one on its
  channel.
\<close>

theorem subscribe_outcome:
  assumes "listeners_wf (subscriptions h)" and "long_polling_client h" and "ids_left h" and "serialises E"
    and "reply = fst (post_answer E h (subscription_message E h ''/meta/subscribe'' channel))"
    and "\<not> cometd_is_meta_channel (Some channel) \<Longrightarrow>
      acknowledges E h reply True \<or> acknowledges E h reply False \<or> refused reply"
    and "1 \<le> length channel" and "length channel \<le> 510" and "sub_malloc_ok E (sub_next (subscriptions h))"
  shows "\<exists>s h'. cometd_subscribe E fuel channel cb h = Ok (s, h') \<and>
    (if cometd_is_meta_channel (Some channel) then world h' = world h \<and> conn h' = conn h
     else world h' = snd (post_answer E h (subscription_message E h ''/meta/subscribe'' channel))) \<and>
    (if cometd_is_meta_channel (Some channel) \<or> acknowledges E h reply True \<or>
        (refused reply \<and> err_code (cometd_last_error h) = COMETD_SUCCESS)
     then s = Some (sub_next (subscriptions h)) \<and> listeners_wf (subscriptions h') \<and>
       table_lookup (subscriptions h') channel = table_lookup (subscriptions h) channel @ [sub_next (subscriptions h)]
     else s = None \<and> subscriptions h' = subscriptions h)"
proof -
  have add: "\<exists>L. cometd_add_listener E channel cb k = (Some (sub_next (subscriptions h)), k\<lparr>subscriptions := L\<rparr>) \<and>
      listeners_wf L \<and> table_lookup L channel = table_lookup (subscriptions h) channel @ [sub_next (subscriptions h)]"
    if "subscriptions k = subscriptions h" for k
  proof -
    obtain L where L: "cometd_listener_add True (subscriptions h) channel cb = (Some (sub_next (subscriptions h)), L)"
      using assms(7,8) by (simp add: cometd_listener_add_def Let_def COMETD_MAX_CHANNEL_LEN_def Suc_le_eq)
    then show ?thesis
      using assms(9) that lr.add_wf [OF assms(1) L] lr.add_callbacks [OF assms(1) L, of channel]
      by (auto simp: cometd_add_listener_def)
  qed
  show ?thesis
  proof (cases "cometd_is_meta_channel (Some channel)")
    case True
    then show ?thesis using add [of h] by (auto simp: cometd_subscribe_def)
  next
    case False
    let ?w = "snd (post_answer E h (subscription_message E h ''/meta/subscribe'' channel))"
    let ?took = "acknowledges E h reply True \<or> (refused reply \<and> err_code (cometd_last_error h) = COMETD_SUCCESS)"
    obtain code where "cometd_transport_send E (cometd_handshake E fuel)
        (subscription_message E h ''/meta/subscribe'' channel) (with_next_id h) = Ok (code, (with_next_id h)\<lparr>world := ?w\<rparr>)"
      and "code = COMETD_SUCCESS \<longleftrightarrow> ?took"
      using send_acknowledged_or_refused [of "with_next_id h" E
          "subscription_message E h ''/meta/subscribe'' channel" "cometd_handshake E fuel"] assms(2,4-6) False
      by (auto simp: cometd_last_error_def)
    then show ?thesis
      using False assms(3) add [of "(with_next_id h)\<lparr>world := ?w\<rparr>"]
      by (auto simp: cometd_subscribe_def new_messages)
  qed
qed

lemma subscribe_outcome_witness:
  "\<exists>h'. cometd_subscribe (ack_env ''/ack'' True 503) 1 ''/bar'' (User_callback 1)
     (example_client (ack_env ''/ack'' True 503)) = Ok (Some 3, h')"
proof -
  let ?E = "ack_env ''/ack'' True 503" and ?h = "example_client (ack_env ''/ack'' True 503)"
  have bar: "\<not> cometd_is_meta_channel (Some ''/bar'')" by (simp add: cometd_is_meta_channel_def)
  have refuse: "refused (fst (post_answer ?E ?h m))" for m by (rule ack_env_refused) simp
  have "sub_next client_listeners = 3" "err_code (cometd_last_error ?h) = COMETD_SUCCESS"
    by (simp_all add: client_listeners_eq cometd_last_error_def cometd_error_new_def)
  with subscribe_outcome [of ?h ?E _ "''/bar''" 1 "User_callback 1", OF _ _ _ _ refl]
  show ?thesis using bar refuse client_listeners_wf by (auto simp: ack_env_malloc)
qed

text \<open>
  The test for meta channels compares five characters, so a channel like
  \<^verbatim>\<open>/metadata\<close> counts as one: subscribing to it adds a listener here and never tells the
  server, and unsubscribing from it never does either.
\<close>

theorem meta_prefix_is_local:
  assumes "listeners_wf (subscriptions h)" and "channel = ''/meta'' @ rest" and "length channel \<le> 510"
    and "sub_malloc_ok E (sub_next (subscriptions h))"
  shows "\<exists>h'. cometd_subscribe E fuel channel cb h = Ok (Some (sub_next (subscriptions h)), h') \<and>
    world h' = world h \<and> conn h' = conn h \<and>
    (\<exists>h''. cometd_unsubscribe E fuel (Some (sub_next (subscriptions h))) h' = Ok (COMETD_SUCCESS, h'') \<and>
       world h'' = world h \<and> conn h'' = conn h \<and>
       (\<forall>d. table_lookup (subscriptions h'') d = table_lookup (subscriptions h) d))"
proof -
  let ?a = "sub_next (subscriptions h)"
  have meta: "cometd_is_meta_channel (Some channel)" using assms(2) by (simp add: cometd_is_meta_channel_def)
  obtain L where L: "cometd_listener_add True (subscriptions h) channel cb = (Some ?a, L)"
    using assms(2,3) by (simp add: cometd_listener_add_def Let_def COMETD_MAX_CHANNEL_LEN_def Suc_le_eq)
  have sub: "cometd_subscribe E fuel channel cb h = Ok (Some ?a, h\<lparr>subscriptions := L\<rparr>)"
    using assms(4) L meta by (simp add: cometd_subscribe_def cometd_add_listener_def)
  have live: "sub_heap L ?a = Some \<lparr>sub_channel = channel, sub_callback = cb\<rparr>"
    using listener_add_Some(2) [OF assms(1) L] by simp
  obtain M where M: "cometd_listener_remove L (Some ?a) = Ok (COMETD_SUCCESS, M)"
    "\<forall>d. table_lookup M d = table_lookup (subscriptions h) d"
    using lr.add_remove [OF assms(1) L] by blast
  have "cometd_unsubscribe E fuel (Some ?a) (h\<lparr>subscriptions := L\<rparr>) =
      cometd_remove_listener (Some ?a) (h\<lparr>subscriptions := L\<rparr>)"
    using live meta by (intro unsubscribe_local) auto
  then show ?thesis using sub M by (auto simp: cometd_remove_listener_def)
qed

lemma meta_prefix_is_local_witness:
  "\<exists>h'. cometd_subscribe (ack_env ''/ack'' True 200) 1 ''/metadata'' (User_callback 1)
     (example_client (ack_env ''/ack'' True 200)) = Ok (Some 3, h') \<and>
     world h' = world (example_client (ack_env ''/ack'' True 200))"
  using meta_prefix_is_local [of "example_client (ack_env ''/ack'' True 200)" "''/metadata''" "''data''"
      "ack_env ''/ack'' True 200" 1 "User_callback 1"] client_listeners_wf
  by (auto simp: ack_env_malloc client_listeners_eq)

text \<open>
  C30. Unsubscribing the last listener of a channel contacts the server and then does the
  opposite of what it intends: when the server acknowledges, the local listener stays and
  goes on receiving; when the server rejects or cannot be reached after an earlier error,
  the local listener is removed and the caller gets COMETD_SUCCESS.
\<close>

theorem unsubscribe_last_inverted:
  assumes "listeners_wf (subscriptions h)" and "long_polling_client h" and "ids_left h" and "serialises E"
    and "sub_heap (subscriptions h) a = Some s" and "\<not> cometd_is_meta_channel (Some (sub_channel s))"
    and "cometd_listener_count (subscriptions h) (Some (sub_channel s)) = 1"
    and "acknowledges E h (fst (post_answer E h (subscription_message E h ''/meta/unsubscribe'' (sub_channel s)))) b
      \<or> \<not> b \<and> err_code (last_error h) \<noteq> COMETD_SUCCESS \<and>
        refused (fst (post_answer E h (subscription_message E h ''/meta/unsubscribe'' (sub_channel s))))"
  shows "\<exists>h'. cometd_unsubscribe E fuel (Some a) h = Ok (COMETD_SUCCESS, h') \<and>
    (if b then subscriptions h' = subscriptions h
     else \<forall>c. a \<notin> set (table_lookup (subscriptions h') c))"
proof -
  let ?w = "snd (post_answer E h (subscription_message E h ''/meta/unsubscribe'' (sub_channel s)))"
  let ?h = "(with_next_id h)\<lparr>world := ?w\<rparr>"
  obtain code where send: "cometd_transport_send E (cometd_handshake E fuel)
      (subscription_message E h ''/meta/unsubscribe'' (sub_channel s)) (with_next_id h) = Ok (code, ?h)"
    and code: "code = COMETD_SUCCESS \<longleftrightarrow> b"
    using transport_send_acknowledged [of "with_next_id h" E _ b] transport_send_refused [of "with_next_id h" E]
      assms(2,4,8) by fastforce
  obtain L where L: "cometd_remove_listener (Some a) ?h = Ok (COMETD_SUCCESS, ?h\<lparr>subscriptions := L\<rparr>)"
    "\<forall>d. table_lookup L d = (if d = sub_channel s then remove1 a (table_lookup (subscriptions h) d)
        else table_lookup (subscriptions h) d)"
    using remove_listener_live [of ?h a s] assms(1,5) by auto
  have "a \<notin> set (table_lookup L c)" for c
    using L(2) listeners_wf_distinct [OF assms(1)] listeners_wf_unique [OF assms(1)]
      listeners_wf_filed [OF assms(1,5)] by auto
  then show ?thesis using unsubscribe_last [OF assms(5-7,3) send] L(1) code by auto
qed

lemma unsubscribe_last_inverted_witness:
  "(\<exists>h'. cometd_unsubscribe (ack_env ''/ack'' True 200) 1 (Some 2) (example_client (ack_env ''/ack'' True 200))
     = Ok (COMETD_SUCCESS, h') \<and> table_lookup (subscriptions h') ''/foo'' = [2]) \<and>
   (\<exists>h'. cometd_unsubscribe (ack_env ''/ack'' False 200) 1 (Some 2) (example_client (ack_env ''/ack'' False 200))
     = Ok (COMETD_SUCCESS, h') \<and> 2 \<notin> set (table_lookup (subscriptions h') ''/foo''))"
proof -
  have foo: "sub_heap client_listeners 2 = Some \<lparr>sub_channel = ''/foo'', sub_callback = User_callback 0\<rparr>"
    "table_lookup client_listeners ''/foo'' = [2]" "cometd_listener_count client_listeners (Some ''/foo'') = 1"
    "\<not> cometd_is_meta_channel (Some ''/foo'')"
    by (simp_all add: client_listeners_eq table_lookup_def cometd_listener_count_def cometd_is_meta_channel_def)
  have "\<exists>h'. cometd_unsubscribe (ack_env ''/ack'' b 200) 1 (Some 2) (example_client (ack_env ''/ack'' b 200)) =
      Ok (COMETD_SUCCESS, h') \<and> (if b then subscriptions h' = client_listeners
        else \<forall>c. 2 \<notin> set (table_lookup (subscriptions h') c))" for b
    using unsubscribe_last_inverted [of "example_client (ack_env ''/ack'' b 200)" "ack_env ''/ack'' b 200" 2
        "\<lparr>sub_channel = ''/foo'', sub_callback = User_callback 0\<rparr>" b 1] foo client_listeners_wf example_client_ack
    by (cases b) simp_all
  from this [of True] this [of False] show ?thesis using foo(2) by auto
qed

text \<open>
  While a channel has other listeners, and on meta channels, unsubscribing is local:
  the listener is taken out, all others stay, and the server is not contacted.
\<close>

theorem unsubscribe_other_local:
  assumes "listeners_wf (subscriptions h)" and "sub_heap (subscriptions h) a = Some s"
    and "cometd_is_meta_channel (Some (sub_channel s)) \<or>
      2 \<le> cometd_listener_count (subscriptions h) (Some (sub_channel s))"
  shows "\<exists>L. cometd_unsubscribe E fuel (Some a) h = Ok (COMETD_SUCCESS, h\<lparr>subscriptions := L\<rparr>) \<and>
    listeners_wf L \<and> (\<forall>d. table_lookup L d =
      (if d = sub_channel s then remove1 a (table_lookup (subscriptions h) d) else table_lookup (subscriptions h) d))"
  using remove_listener_live [OF assms(1,2)] unsubscribe_local [OF assms(2), of E fuel] assms(3) by auto

lemma unsubscribe_other_local_witness:
  "\<exists>L. cometd_unsubscribe (ack_env ''/ack'' True 200) 1 (Some 0) (example_client (ack_env ''/ack'' True 200)) =
    Ok (COMETD_SUCCESS, (example_client (ack_env ''/ack'' True 200))\<lparr>subscriptions := L\<rparr>) \<and> listeners_wf L"
proof -
  have "sub_heap client_listeners 0 =
      Some \<lparr>sub_channel = ''/meta/handshake'', sub_callback = Cometd_process_handshake\<rparr>"
    by (simp add: client_listeners_eq initial_listeners_def)
  then show ?thesis
    using unsubscribe_other_local [of "example_client (ack_env ''/ack'' True 200)" 0
      "\<lparr>sub_channel = ''/meta/handshake'', sub_callback = Cometd_process_handshake\<rparr>"
      "ack_env ''/ack'' True 200" 1] client_listeners_wf
    by (auto simp: cometd_is_meta_channel_def)
qed

end
