(* ===== verification/Dispatch.thy ===== *)
theory Dispatch
  imports Messaging
begin

text \<open>
  Extensions, handlers and the run loop around a message: what extensions can change, which
  handlers run and whose failures count, and what connecting, disconnecting and listening do.
\<close>

section \<open>Lemmas\<close>

lemma ext_add_fire:
  "cometd_impl_ext_fire E d (exts (cometd_ext_add e h)) n k =
    obind (cometd_impl_ext_fire E d (exts h) n k) (\<lambda>(n, k). cometd_impl_ext_fire E d [e] n k)"
  by (simp add: cometd_ext_add_def ext_fire_append)

lemma process_sync_code:
  "cometd_impl_process_sync E hs root h = Ok (code, root', h') \<Longrightarrow> code = COMETD_SUCCESS"
  by (auto simp: cometd_impl_process_sync_def outcome_simps split: option.splits)

lemma wildcard_fire:
  assumes "c \<noteq> []" and "last c = CHR ''*''" and "length c \<le> COMETD_MAX_CHANNEL_LEN"
  shows "cometd_listener_fire E hs (Some c) msg h = Fault Assertion_failed"
  using channel_is_wildcard_iff [OF assms(1,3)] assms(2)
  by (simp add: cometd_listener_fire_def cometd_listener_get_def)

lemma loop_start_gthread:
  "loop_start (loop h) = Some Gthread \<Longrightarrow>
    cometd_loop_start E h = Ok (0, h\<lparr>loop := (loop h)\<lparr>loop_thread := Thread_started\<rparr>\<rparr>)"
  by (simp add: cometd_loop_start_def cometd_loop_gthread_start_def)

section \<open>Properties of extensions\<close>

text \<open>
  Extensions see a message in the order in which they were added, each what the ones
  before it left, in both directions; the logger leaves the message as it is and prints one
  line for it.
\<close>

theorem extensions_in_order:
  "cometd_ext_fire_incoming E n (cometd_ext_add e h) =
      obind (cometd_impl_ext_fire E True (exts h) n (cometd_ext_add e h)) (\<lambda>(n, k).
        cometd_impl_ext_fire E True [e] n k) \<and>
   cometd_ext_fire_outgoing E n (cometd_ext_add e h) =
      obind (cometd_impl_ext_fire E False (exts h) n (cometd_ext_add e h)) (\<lambda>(n, k).
        cometd_impl_ext_fire E False [e] n k) \<and>
   (ext_heap h e = Some cometd_ext_logger_new \<longrightarrow>
      cometd_impl_ext_fire E True [e] n h = Ok (n, h\<lparr>stdout := stdout h @
        [(''incoming'', cometd_msg_channel (json_lib E) n, cometd_json_node2str (json_lib E) n)]\<rparr>) \<and>
      cometd_impl_ext_fire E False [e] n h = Ok (n, h\<lparr>stdout := stdout h @
        [(''outgoing'', cometd_msg_channel (json_lib E) n, cometd_json_node2str (json_lib E) n)]\<rparr>))"
  by (simp add: cometd_ext_fire_incoming_def cometd_ext_fire_outgoing_def ext_add_fire heap_simps
      cometd_ext_logger_new_def logger_incoming_def logger_outgoing_def print_log_def)

definition logger_handle :: "http_request list cometd" where
  "logger_handle = snd (alloc_ext cometd_ext_logger_new example_handle)"

lemma extensions_in_order_witness:
  "cometd_impl_ext_fire (example_env (example_json_lib None) (answer_with [] 200)) True [0] None logger_handle =
    Ok (None, logger_handle\<lparr>stdout := [(''incoming'', None, Some ''{}'')]\<rparr>)"
proof -
  have "ext_heap logger_handle 0 = Some cometd_ext_logger_new" "stdout logger_handle = []"
    by (simp_all add: logger_handle_def alloc_ext_def example_handle_def)
  then show ?thesis
    using extensions_in_order [of "example_env (example_json_lib None) (answer_with [] 200)" None 0 logger_handle]
    by (simp add: example_env_def example_json_lib_def cometd_json_node2str_def)
qed

section \<open>Properties of dispatch\<close>

text \<open>
  The handlers of a message run in the order of the list until one fails: then the
  result is ECOMETD_UNKNOWN with what that handler left, and none of the later ones runs.
\<close>

theorem fire_stops_at_failure:
  assumes "fire_items E hs as msg h = Ok (COMETD_SUCCESS, msg1, h1)"
    and "sub_heap (subscriptions h1) a = Some s"
    and "run_callback E hs (sub_callback s) msg1 h1 = Ok (code, msg2, h2)"
  shows "fire_items E hs (as @ a # bs) msg h =
    (if code = COMETD_SUCCESS then fire_items E hs bs msg2 h2 else Ok (ECOMETD_UNKNOWN, msg2, h2))"
  using assms by (simp add: fire_items_append heap_simps)

lemma fire_stops_at_failure_witness:
  "fire_items (example_env (example_json_lib None) (answer_with [] 200)) (\<lambda>h. Ok (0, h)) ([] @ 0 # [7]) None
     (example_handle\<lparr>subscriptions := initial_listeners\<rparr>) =
   Ok (ECOMETD_UNKNOWN, None, example_handle\<lparr>subscriptions := initial_listeners\<rparr>)"
proof -
  let ?E = "example_env (example_json_lib None) (answer_with [] 200)"
  let ?h = "example_handle\<lparr>subscriptions := initial_listeners\<rparr>"
  have "cometd_process_handshake ?E None ?h = Ok (ECOMETD_NO_TRANSPORT, ?h)"
    by (simp add: cometd_process_handshake_def cometd_transport_negotiate_def cometd_conn_new_def
      cometd_msg_supported_connection_types_def cometd_msg_advice_def cometd_conn_take_advice_def example_handle_def)
  then have "run_callback ?E (\<lambda>h. Ok (0, h)) Cometd_process_handshake None ?h = Ok (ECOMETD_NO_TRANSPORT, None, ?h)"
    by simp
  from fire_stops_at_failure [of ?E "\<lambda>h. Ok (0, h)" "[]" None ?h None ?h 0
      "\<lparr>sub_channel = ''/meta/handshake'', sub_callback = Cometd_process_handshake\<rparr>" ECOMETD_NO_TRANSPORT None ?h "[7]"] this
  show ?thesis by (simp add: initial_listeners_def)
qed

text \<open>
  A failing handler is never reported to the sender: processing a payload always
  returns COMETD_SUCCESS, and so the code of a send depends on the payload alone.
\<close>

theorem handler_failures_not_reported:
  assumes "finish_send E hs (Some p, h) = Ok (code, h')"
  shows "\<exists>p'. cometd_impl_process_sync E hs p h = Ok (COMETD_SUCCESS, p', h') \<and>
    code = (if cometd_msg_is_successful (json_lib E) (Some p') then COMETD_SUCCESS else ECOMETD_UNSUCCESSFUL)"
  using assms process_sync_code
  by (fastforce simp: finish_send_def outcome_simps split: if_splits)

lemma handler_failures_not_reported_witness:
  "\<exists>p'. cometd_impl_process_sync (example_env (example_json_lib None) (answer_with [] 200)) (\<lambda>h. Ok (0, h))
     (JArray []) example_handle = Ok (COMETD_SUCCESS, p', example_handle)"
proof -
  have "finish_send (example_env (example_json_lib None) (answer_with [] 200)) (\<lambda>h. Ok (0, h)) (Some (JArray []), example_handle)
      = Ok (ECOMETD_UNSUCCESSFUL, example_handle)"
    by (simp add: finish_send_def cometd_impl_process_sync_def cometd_msg_is_successful_def)
  then show ?thesis using handler_failures_not_reported by blast
qed

text \<open>
  A server can stop the client with the name of a channel: a message on a channel that
  ends in an asterisk fails an assertion, and one on the empty channel reads the byte before
  the string.
\<close>

theorem wildcard_message_aborts:
  assumes "exts h = []" and "map_of obj ''channel'' = Some (JString c)"
    and "c = [] \<or> last c = CHR ''*'' \<and> length c \<le> COMETD_MAX_CHANNEL_LEN"
  shows "cometd_process_msg E hs (Some (JObject obj)) h =
    Fault (if c = [] then Out_of_bounds else Assertion_failed)"
  using assms wildcard_fire [of c E hs]
  by (auto simp: cometd_process_msg_def cometd_listener_fire_def cometd_listener_get_def channel_is_wildcard_empty)

lemma wildcard_message_aborts_witness:
  "cometd_process_msg (example_env (example_json_lib None) (answer_with [] 200)) (\<lambda>h. Ok (0, h))
     (Some (JObject [(''channel'', JString ''/foo/*'')])) example_handle = Fault Assertion_failed"
  by (subst wildcard_message_aborts [where c = "''/foo/*''"])
    (simp_all add: example_handle_def COMETD_MAX_CHANNEL_LEN_def)

section \<open>Properties of the run loop\<close>

text \<open>
  Connecting: when the handshake fails the loop is not started and the handshake's
  code is returned; when it succeeds the loop is started and the client is CONNECTED. A
  client that is already past its handshake gets ECOMETD_UNKNOWN and nothing changes.
\<close>

theorem connect_outcome:
  assumes "loop_start (loop h1) = Some Gthread" and "cometd_handshake E fuel h = Ok (code, h1)"
  shows "cometd_connect E fuel h =
      (if code \<noteq> COMETD_SUCCESS then Ok (code, h1)
       else Ok (COMETD_SUCCESS, h1\<lparr>loop := (loop h1)\<lparr>loop_thread := Thread_started\<rparr>,
         conn := (conn h1)\<lparr>conn_state := COMETD_CONNECTED\<rparr>\<rparr>)) \<and>
    (conn_state (conn h) \<in> {COMETD_HANDSHAKE_SUCCESS, COMETD_CONNECTED} \<longrightarrow>
      code = ECOMETD_UNKNOWN \<and> h1 = h)"
proof -
  obtain n where n: "fuel = Suc n" using assms(2) by (cases fuel) (auto simp: cometd_handshake_def)
  have "conn_state (conn h) \<in> {COMETD_HANDSHAKE_SUCCESS, COMETD_CONNECTED} \<Longrightarrow> \<not> cometd_should_handshake h"
    by (auto simp: should_handshake_states)
  then show ?thesis
    using assms(2) loop_start_gthread [OF assms(1)]
    by (auto simp: cometd_connect_def cometd_conn_set_state_def cometd_handshake_def n)
qed

lemma connect_outcome_witness:
  "cometd_connect (ack_env ''/ack'' True 200) 1 (example_client (ack_env ''/ack'' True 200)) =
    Ok (ECOMETD_UNKNOWN, example_client (ack_env ''/ack'' True 200))"
proof -
  let ?E = "ack_env ''/ack'' True 200" and ?h = "example_client (ack_env ''/ack'' True 200)"
  have state: "conn_state (conn ?h) = COMETD_HANDSHAKE_SUCCESS" "loop_start (loop ?h) = Some Gthread"
    by (simp_all add: example_client_eq cometd_new_eq [OF ack_env_malloc ack_env_malloc] cometd_loop_gthread_new_def)
  then have "cometd_handshake ?E 1 ?h = Ok (ECOMETD_UNKNOWN, ?h)"
    by (simp add: cometd_handshake_def should_handshake_states)
  from connect_outcome [OF state(2) this] show ?thesis by simp
qed

end
