(* ===== verification/Invariant.thy ===== *)
theory Invariant
  imports Dispatch
begin

unbundle bit_operations_syntax

text \<open>
  Invariants of the handle. The locale \<open>handle_invariant\<close> asks that a predicate survives
  the few updates the code makes to the handle while it sends, receives and dispatches;
  it shows once that then every operation, the nested handshakes included, keeps it.
  \<open>client_invariant\<close> adds the listener table, the loop and the inbox. Both are
  interpreted for the session, the memory and the message ids.
\<close>

section \<open>What user code must keep\<close>

definition user_code_keeps :: "'w env \<Rightarrow> ('w cometd \<Rightarrow> bool) \<Rightarrow> 'w cometd \<Rightarrow> bool" where
  "user_code_keeps E I h \<longleftrightarrow>
     (\<forall>k n c n' h'. user_callback E k n h = Ok (c, n', h') \<longrightarrow> I h') \<and>
     (\<forall>k n n' h'. user_ext E k n h = Ok (n', h') \<longrightarrow> I h') \<and>
     (\<forall>k n n' h'. user_send E k n h = Ok (n', h') \<longrightarrow> I h') \<and>
     (\<forall>k n' h'. user_recv E k h = Ok (n', h') \<longrightarrow> I h') \<and>
     (\<forall>k c h'. user_loop_start E k h = Ok (c, h') \<longrightarrow> I h') \<and>
     (\<forall>k h'. user_loop_stop E k h = Ok h' \<longrightarrow> I h') \<and>
     (\<forall>k m h'. user_loop_wait E k m h = Ok h' \<longrightarrow> I h') \<and>
     (\<forall>k h'. user_loop_destroy E k h = Ok h' \<longrightarrow> I h') \<and>
     I (g_thread_join E h)"

definition environment_keeps :: "'w env \<Rightarrow> ('w cometd \<Rightarrow> bool) \<Rightarrow> bool" where
  "environment_keeps E I \<longleftrightarrow> (\<forall>h. I h \<longrightarrow> user_code_keeps E I h)"

lemma environment_keepsD:
  assumes "environment_keeps E I" and "I h"
  shows "user_callback E k n h = Ok (c, n', h') \<Longrightarrow> I h'" "user_ext E k n h = Ok (n', h') \<Longrightarrow> I h'"
    "user_send E k n h = Ok (n', h') \<Longrightarrow> I h'" "user_recv E k h = Ok (n', h') \<Longrightarrow> I h'"
    "user_loop_start E k h = Ok (c, h') \<Longrightarrow> I h'" "user_loop_stop E k h = Ok h' \<Longrightarrow> I h'"
    "user_loop_wait E k m h = Ok h' \<Longrightarrow> I h'" "user_loop_destroy E k h = Ok h' \<Longrightarrow> I h'"
    "I (g_thread_join E h)"
proof -
  have "user_code_keeps E I h" using assms by (simp add: environment_keeps_def)
  then show "user_callback E k n h = Ok (c, n', h') \<Longrightarrow> I h'" "user_ext E k n h = Ok (n', h') \<Longrightarrow> I h'"
    "user_send E k n h = Ok (n', h') \<Longrightarrow> I h'" "user_recv E k h = Ok (n', h') \<Longrightarrow> I h'"
    "user_loop_start E k h = Ok (c, h') \<Longrightarrow> I h'" "user_loop_stop E k h = Ok h' \<Longrightarrow> I h'"
    "user_loop_wait E k m h = Ok h' \<Longrightarrow> I h'" "user_loop_destroy E k h = Ok h' \<Longrightarrow> I h'"
    "I (g_thread_join E h)"
    by (auto simp: user_code_keeps_def)
qed

text \<open>An operation with a nested handshake keeps the predicate when that handshake does.\<close>

definition keeps_step :: "('w cometd \<Rightarrow> bool) \<Rightarrow> ('w cometd \<Rightarrow> (int \<times> 'w cometd) outcome) \<Rightarrow> bool" where
  "keeps_step I hs \<longleftrightarrow> (\<forall>h code h'. I h \<longrightarrow> hs h = Ok (code, h') \<longrightarrow> I h')"

lemma keeps_stepD: "keeps_step I hs \<Longrightarrow> I h \<Longrightarrow> hs h = Ok (code, h') \<Longrightarrow> I h'"
  by (auto simp: keeps_step_def)

lemma negotiate_inner_live:
  "negotiate_inner h item ts found = Ok (Some a) \<Longrightarrow> found = Some a \<or> transport_heap h a \<noteq> None"
  by (induction ts) (auto simp: outcome_simps split: if_splits)

lemma negotiate_outer_live:
  "negotiate_outer h ts items found = Ok (Some a) \<Longrightarrow> found = Some a \<or> transport_heap h a \<noteq> None"
proof (induction items arbitrary: found)
  case Nil
  then show ?case by simp
next
  case (Cons item items)
  then obtain f where f: "negotiate_inner h item ts found = Ok f" "negotiate_outer h ts items f = Ok (Some a)"
    by (auto simp: outcome_simps)
  from Cons.IH [OF f(2)] show ?case using f(1) negotiate_inner_live by blast
qed

lemma transport_negotiate_live:
  "cometd_transport_negotiate G ts n h = Ok (Some a) \<Longrightarrow> transport_heap h a \<noteq> None"
  by (auto simp: cometd_transport_negotiate_def dest: negotiate_outer_live)

section \<open>Sending, receiving, dispatching\<close>

locale handle_invariant =
  fixes I :: "'w cometd \<Rightarrow> bool"
  assumes next_id: "I h \<Longrightarrow> I (h\<lparr>conn := (conn h)\<lparr>msg_id_seed := msg_id_seed (conn h) + 1\<rparr>\<rparr>)"
    and set_error: "I h \<Longrightarrow> I (h\<lparr>last_error := e\<rparr>)"
    and set_world: "I h \<Longrightarrow> I (h\<lparr>world := w\<rparr>)"
    and set_stdout: "I h \<Longrightarrow> I (h\<lparr>stdout := lines\<rparr>)"
    and set_advice: "I h \<Longrightarrow> I (h\<lparr>conn := (conn h)\<lparr>advice := a\<rparr>\<rparr>)"
    and set_state: "I h \<Longrightarrow> s \<in> {COMETD_CONNECTED, COMETD_UNCONNECTED, COMETD_DISCONNECTED} \<Longrightarrow>
      I (h\<lparr>conn := (conn h)\<lparr>conn_state := s\<rparr>\<rparr>)"
    and set_session: "I h \<Longrightarrow> transport_heap h t \<noteq> None \<Longrightarrow>
      I (h\<lparr>conn := (conn h)\<lparr>transport := Some t, client_id := Some cid, conn_state := COMETD_HANDSHAKE_SUCCESS\<rparr>\<rparr>)"
begin

lemma message_ids:
  "I h \<Longrightarrow> take_msg_id h = Ok (n, h') \<Longrightarrow> I h'"
  "I h \<Longrightarrow> cometd_new_handshake_message h = Ok (m, h') \<Longrightarrow> I h'"
  "I h \<Longrightarrow> cometd_new_publish_message E c d h = Ok (m, h') \<Longrightarrow> I h'"
  "I h \<Longrightarrow> cometd_new_subscribe_message E c h = Ok (m, h') \<Longrightarrow> I h'"
  "I h \<Longrightarrow> cometd_new_unsubscribe_message E c h = Ok (m, h') \<Longrightarrow> I h'"
  "I h \<Longrightarrow> cometd_msg_connect_new E h = Ok (m, h') \<Longrightarrow> I h'"
  "I h \<Longrightarrow> cometd_msg_bad_connect_new E h = Ok (m, h') \<Longrightarrow> I h'"
  by (auto simp: outcome_simps next_id cometd_new_handshake_message_def cometd_new_publish_message_def
      cometd_new_subscribe_message_def cometd_new_unsubscribe_message_def cometd_msg_connect_new_def
      cometd_msg_bad_connect_new_def)

lemma posting: "I h \<Longrightarrow> http_json_post E t d m h = Ok (r, h') \<Longrightarrow> I h'"
  using http_post_world_only set_world by blast

lemma posting_msg: "I h \<Longrightarrow> http_post_msg E msg h = Ok (r, h') \<Longrightarrow> I h'"
  by (fastforce simp: http_post_msg_def cometd_error_def outcome_simps intro: set_error dest: posting
      split: option.splits)

lemma long_polling:
  "I h \<Longrightarrow> long_polling_send_impl E n h = Ok (r, h') \<Longrightarrow> I h'"
  by (auto simp: long_polling_send_impl_def outcome_simps dest: posting split: option.splits)

lemma transport_send_fun:
  assumes "environment_keeps E I" and "I h" and "call_send E t n h = Ok (r, h')"
  shows "I h'"
proof -
  from assms(3) obtain f where "tr_send t = Some f" by (auto simp: call_send_def outcome_simps)
  then show ?thesis
    using assms environment_keepsD(3) [OF assms(1,2)]
    by (cases f) (auto simp: call_send_def cometd_transport_long_polling_send_def dest: long_polling)
qed

lemma transport_recv_fun:
  assumes "environment_keeps E I" and "I h" and "call_recv E t h = Ok (r, h')"
  shows "I h'"
proof -
  from assms(3) obtain f where "tr_recv t = Some f" by (auto simp: call_recv_def outcome_simps)
  then show ?thesis
    using assms environment_keepsD(4) [OF assms(1,2)]
    by (cases f) (auto simp: call_recv_def cometd_transport_long_polling_recv_def outcome_simps
        dest: long_polling message_ids(6))
qed

lemma extension_call:
  "environment_keeps E I \<Longrightarrow> I h \<Longrightarrow> call_ext E f n h = Ok (n', h') \<Longrightarrow> I h'"
  by (cases f) (auto simp: logger_incoming_def logger_outgoing_def print_log_def yammer_outgoing_def
      outcome_simps Let_def intro: set_stdout environment_keepsD(2) split: if_splits option.splits)

lemma extensions:
  assumes "environment_keeps E I"
  shows "I h \<Longrightarrow> cometd_impl_ext_fire E d es n h = Ok (n', h') \<Longrightarrow> I h'"
proof (induction es arbitrary: n h)
  case Nil
  then show ?case by simp
next
  case (Cons e es)
  from Cons.prems show ?case
    by (auto simp: outcome_simps split: option.splits
        dest: extension_call [OF assms Cons.prems(1)] intro: Cons.IH)
qed

lemma loop_waits:
  "environment_keeps E I \<Longrightarrow> I h \<Longrightarrow> cometd_loop_wait E m h = Ok h' \<Longrightarrow> I h'"
  by (auto simp: cometd_loop_wait_def cometd_loop_gthread_wait_def outcome_simps
      intro: set_world environment_keepsD(7) split: option.splits loop_function.splits if_splits)

lemma handshake_reply:
  assumes "I h" and "cometd_process_handshake E msg h = Ok (code, h')"
  shows "I h'"
proof -
  from assms(2) obtain t code1 h1 adv where
    t: "cometd_transport_negotiate (json_lib E) (transports (config h)) msg h = Ok t" and
    h1: "(case t of
           Some a \<Rightarrow>
             obind (cometd_msg_client_id (json_lib E) msg) (\<lambda>cid.
             obind (cometd_conn_set_transport (Some a) (conn h)) (\<lambda>c.
             obind (cometd_conn_set_client_id cid c) (\<lambda>c.
               Ok (COMETD_SUCCESS, h\<lparr>conn := cometd_conn_set_state COMETD_HANDSHAKE_SUCCESS c\<rparr>))))
         | None \<Rightarrow> Ok (ECOMETD_NO_TRANSPORT, h)) = Ok (code1, h1)" and
    h': "h' = h1\<lparr>conn := cometd_conn_take_advice adv (conn h1)\<rparr>"
    by (auto simp: cometd_process_handshake_def outcome_simps)
  have "I h1"
  proof (cases t)
    case (Some a)
    then show ?thesis
      using h1 set_session [OF assms(1) transport_negotiate_live] t
      by (auto simp: outcome_simps cometd_conn_set_transport_def cometd_conn_set_client_id_def
          cometd_conn_set_state_def)
  qed (use h1 assms(1) in simp)
  then show ?thesis using set_advice by (simp add: h' cometd_conn_take_advice_def)
qed

lemma connect_reply:
  assumes "keeps_step I hs" and "I h" and "cometd_process_connect E hs msg h = Ok (code, h')"
  shows "I h'"
proof (cases "cometd_conn_is_state (conn h) (COMETD_DISCONNECTING OR COMETD_DISCONNECTED)")
  case True
  then show ?thesis using assms by (simp add: cometd_process_connect_def)
next
  case False
  with assms(3) obtain adv where adv: "cometd_msg_advice (json_lib E) msg = Ok adv"
    by (auto simp: cometd_process_connect_def outcome_simps)
  have took: "I (h\<lparr>conn := (if adv \<noteq> None then cometd_conn_take_advice adv (conn h) else conn h)\<rparr>)"
    using assms(2) set_advice by (simp add: cometd_conn_take_advice_def)
  from set_state [OF took, of COMETD_UNCONNECTED] set_state [OF took, of COMETD_CONNECTED]
  show ?thesis
    using assms(3) False adv keeps_stepD [OF assms(1)]
    by (cases adv) (auto simp: cometd_process_connect_def Let_def outcome_simps cometd_conn_set_state_def
        cometd_handle_advice_def split: if_splits)
qed

lemma callback:
  assumes "environment_keeps E I" and "keeps_step I hs" and "I h"
    and "run_callback E hs cb msg h = Ok (code, msg', h')"
  shows "I h'"
  using assms handshake_reply [OF assms(3)] connect_reply [OF assms(2,3)] environment_keepsD(1) [OF assms(1,3)]
  by (cases cb) (auto simp: outcome_simps)

lemma listeners_fire_items:
  assumes "environment_keeps E I" and "keeps_step I hs"
  shows "I h \<Longrightarrow> fire_items E hs as msg h = Ok (code, msg', h') \<Longrightarrow> I h'"
proof (induction as arbitrary: msg h)
  case Nil
  then show ?case by simp
next
  case (Cons a as)
  from Cons.prems show ?case
    by (auto simp: outcome_simps split: if_splits dest: callback [OF assms Cons.prems(1)] intro: Cons.IH)
qed

lemma message:
  assumes "environment_keeps E I" and "keeps_step I hs" and "I h"
    and "cometd_process_msg E hs msg h = Ok (code, msg', h')"
  shows "I h'"
  using assms(4)
  by (auto simp: cometd_process_msg_def cometd_ext_fire_incoming_def cometd_listener_fire_def outcome_simps
      split: if_splits dest!: extensions [OF assms(1,3)] dest: listeners_fire_items [OF assms(1,2)])

lemma payload_elements:
  assumes "environment_keeps E I" and "keeps_step I hs"
  shows "I h \<Longrightarrow> process_elements E hs ms h = Ok (ms', h') \<Longrightarrow> I h'"
proof (induction ms arbitrary: h ms')
  case Nil
  then show ?case by simp
next
  case (Cons m ms)
  from Cons.prems show ?case
    by (auto simp: outcome_simps dest: message [OF assms Cons.prems(1)] intro: Cons.IH)
qed

lemma reply:
  assumes "environment_keeps E I" and "keeps_step I hs" and "I h" and "finish_send E hs (p, h) = Ok (code, h')"
  shows "I h'"
  using assms(3,4)
  by (auto simp: finish_send_def cometd_impl_process_sync_def outcome_simps cometd_error_def
      split: option.splits if_splits dest: payload_elements [OF assms(1-3)])

lemma send:
  assumes "environment_keeps E I" and "keeps_step I hs" and "I h"
    and "cometd_impl_send_msg_sync E hs msg t h = Ok (code, h')"
  shows "I h'"
proof -
  let ?post = "\<lambda>p h1. if t = None then http_post_msg E (Some p) h1
    else obind (read_transport t h1) (\<lambda>tr. call_send E tr (Some p) h1)"
  obtain msg1 h1 where 1: "cometd_ext_fire_outgoing E (Some msg) h = Ok (msg1, h1)"
    and rest: "obind (?post (cometd_msg_wrap_copy msg msg1) h1) (finish_send E hs) = Ok (code, h')"
    using assms(4) by (cases "cometd_ext_fire_outgoing E (Some msg) h")
      (auto simp: cometd_impl_send_msg_sync_def Let_def)
  from rest obtain p h2 where 2: "?post (cometd_msg_wrap_copy msg msg1) h1 = Ok (p, h2)" and 3: "finish_send E hs (p, h2) = Ok (code, h')"
    unfolding obind_eq_Ok by (metis surj_pair)
  have h1: "I h1" using extensions [OF assms(1,3)] 1 by (simp add: cometd_ext_fire_outgoing_def)
  have "I h2"
  proof (cases "t = None")
    case True
    then show ?thesis using 2 posting_msg [OF h1] by simp
  next
    case False
    then obtain tr where "call_send E tr (Some (cometd_msg_wrap_copy msg msg1)) h1 = Ok (p, h2)"
      using 2 by (auto simp: outcome_simps)
    then show ?thesis using transport_send_fun [OF assms(1) h1] by simp
  qed
  then show ?thesis using reply [OF assms(1,2) _ 3] by simp
qed

lemma send_over_transport:
  assumes "environment_keeps E I" and "keeps_step I hs" and "I h" and "cometd_transport_send E hs msg h = Ok (code, h')"
  shows "I h'"
  using assms(3,4) by (auto simp: cometd_transport_send_def Let_def split: if_splits dest: send [OF assms(1-3)])

lemma handshake_attempt:
  assumes "environment_keeps E I" and "keeps_step I hs" and "I h" and "cometd_impl_handshake E hs h = Ok (code, h')"
  shows "I h'"
  using assms(4)
  by (auto simp: cometd_impl_handshake_def outcome_simps
      dest!: message_ids(2) [OF assms(3)] dest: send [OF assms(1,2)])

lemma handshake_loop:
  assumes "environment_keeps E I"
  shows "I h \<Longrightarrow> cometd_handshake_loop E n attempt backoff code h = Ok (code', h') \<Longrightarrow> I h'"
proof (induction n arbitrary: attempt backoff code h code' h')
  case 0
  then show ?case by simp
next
  case (Suc n)
  have nested: "keeps_step I (\<lambda>h. cometd_handshake_loop E n 1 0 ECOMETD_UNKNOWN h)"
    using Suc.IH by (auto simp: keeps_step_def)
  show ?case
  proof (cases "cometd_should_handshake h")
    case False
    then show ?thesis using Suc.prems by simp
  next
    case True
    then obtain h1 code2 h2 b where
      1: "cometd_loop_wait E backoff h = Ok h1" and
      2: "cometd_impl_handshake E (\<lambda>h. cometd_handshake_loop E n 1 0 ECOMETD_UNKNOWN h) h1 = Ok (code2, h2)" and
      3: "(if b = -1 then Ok (code2, h2) else cometd_handshake_loop E n (attempt + 1) b code2 h2) = Ok (code', h')"
      using Suc.prems(2) by (auto simp: outcome_simps)
    have "I h2" using handshake_attempt [OF assms nested _ 2] loop_waits [OF assms Suc.prems(1) 1] .
    then show ?thesis using 3 Suc.IH by (auto split: if_splits)
  qed
qed

lemma handshake: "environment_keeps E I \<Longrightarrow> keeps_step I (cometd_handshake E fuel)"
  by (auto simp: keeps_step_def cometd_handshake_def intro: handshake_loop)

lemma receive:
  assumes "environment_keeps E I" and "I h" and "cometd_recv E h = Ok (p, h')"
  shows "I h'"
  using assms(3)
  by (auto simp: cometd_recv_def outcome_simps split: option.splits
      dest!: transport_recv_fun [OF assms(1,2)] dest: message_ids(7))

end

section \<open>The client as a state machine\<close>

text \<open>
  The calls a program can make on a handle, one delivery by the listening thread and one
  round of the loop thread, each as one step. \<open>own\<close> says which subscriptions the program
  gives back (the library's two are not its to remove).
\<close>

inductive client_step :: "'w env \<Rightarrow> (addr option \<Rightarrow> bool) \<Rightarrow> 'w cometd \<Rightarrow> 'w cometd \<Rightarrow> bool"
  for E :: "'w env" and own :: "addr option \<Rightarrow> bool" where
  Configure: "cometd_configure E opt h = Ok (r, h') \<Longrightarrow> client_step E own h h'"
| Register: "cometd_register_transport t h = (r, h') \<Longrightarrow> client_step E own h h'"
| Unregister: "cometd_unregister_transport name h = Ok (r, h') \<Longrightarrow> client_step E own h h'"
| Add_ext: "alloc_ext e h = (a, h1) \<Longrightarrow> client_step E own h (cometd_ext_add a h1)"
| Remove_ext: "a \<in> set (exts h) \<Longrightarrow> cometd_ext_remove a h = Ok h' \<Longrightarrow> client_step E own h h'"
| Add_listener: "cometd_add_listener E c cb h = (p, h') \<Longrightarrow> client_step E own h h'"
| Remove_listener: "own p \<Longrightarrow> cometd_remove_listener p h = Ok (r, h') \<Longrightarrow> client_step E own h h'"
| Connect: "cometd_connect E fuel h = Ok (r, h') \<Longrightarrow> client_step E own h h'"
| Disconnect: "cometd_disconnect E wait h = Ok (r, h') \<Longrightarrow> client_step E own h h'"
| Publish: "cometd_publish E fuel c d h = Ok (r, h') \<Longrightarrow> client_step E own h h'"
| Subscribe: "cometd_subscribe E fuel c cb h = Ok (s, h') \<Longrightarrow> client_step E own h h'"
| Unsubscribe: "own p \<Longrightarrow> cometd_unsubscribe E fuel p h = Ok (r, h') \<Longrightarrow> client_step E own h h'"
| Deliver: "cometd_inbox_take waits (inbox h) = (Some m, queue) \<Longrightarrow>
    cometd_process_msg E (cometd_handshake E fuel) (Some m) (h\<lparr>inbox := queue\<rparr>) = Ok (r, m', h') \<Longrightarrow>
    client_step E own h h'"
| Poll: "cometd_should_recv h \<Longrightarrow> cometd_loop_wait E backoff h = Ok h1 \<Longrightarrow>
    cometd_recv E h1 = Ok (payload, h2) \<Longrightarrow>
    cometd_msg_extract_connect (json_lib E) payload = Ok (connect, rest) \<Longrightarrow>
    cometd_process_msg E (cometd_handshake E fuel) connect
      (h2\<lparr>inbox := cometd_inbox_push rest (inbox h2)\<rparr>) = Ok (r, m', h') \<Longrightarrow>
    client_step E own h h'"
| Loop_end: "client_step E own h (h\<lparr>conn := cometd_conn_set_state COMETD_DISCONNECTED (conn h)\<rparr>)"

definition client_reachable :: "'w env \<Rightarrow> (addr option \<Rightarrow> bool) \<Rightarrow> 'w cometd \<Rightarrow> 'w cometd \<Rightarrow> bool" where
  "client_reachable E own = (client_step E own)\<^sup>*\<^sup>*"

inductive_cases client_stepE: "client_step E own h h'"

lemma client_step_mono: "client_step E own h h' \<Longrightarrow> (\<And>p. own p \<Longrightarrow> own' p) \<Longrightarrow> client_step E own' h h'"
  by (erule client_stepE) (auto intro: client_step.intros)

lemma client_reachable_mono:
  assumes "client_reachable E own h h'" and "\<And>p. own p \<Longrightarrow> own' p"
  shows "client_reachable E own' h h'"
  using assms(1) unfolding client_reachable_def
  by (induction rule: rtranclp_induct) (auto intro: client_step_mono [OF _ assms(2)] rtranclp.rtrancl_into_rtrancl)

section \<open>Every step keeps an invariant\<close>

locale client_invariant = handle_invariant I for I :: "'w cometd \<Rightarrow> bool" +
  fixes own :: "addr option \<Rightarrow> bool"
  assumes set_loop: "I h \<Longrightarrow> I (h\<lparr>loop := l\<rparr>)"
    and set_inbox: "I h \<Longrightarrow> I (h\<lparr>inbox := queue\<rparr>)"
    and set_config: "I h \<Longrightarrow> transports settings = transports (config h) \<Longrightarrow> I (h\<lparr>config := settings\<rparr>)"
    and register: "I h \<Longrightarrow> cometd_register_transport t h = (r, h') \<Longrightarrow> I h'"
    and unregister: "I h \<Longrightarrow> cometd_unregister_transport name h = Ok (r, h') \<Longrightarrow> I h'"
    and add_ext: "I h \<Longrightarrow> alloc_ext e h = (a, h1) \<Longrightarrow> I (cometd_ext_add a h1)"
    and remove_ext: "I h \<Longrightarrow> a \<in> set (exts h) \<Longrightarrow> cometd_ext_remove a h = Ok h' \<Longrightarrow> I h'"
    and add_subscription: "I h \<Longrightarrow> cometd_listener_add m (subscriptions h) c cb = (p, L) \<Longrightarrow> I (h\<lparr>subscriptions := L\<rparr>)"
    and remove_subscription: "I h \<Longrightarrow> own p \<Longrightarrow> cometd_listener_remove (subscriptions h) p = Ok (r, L) \<Longrightarrow>
      I (h\<lparr>subscriptions := L\<rparr>)"
begin

lemma configure:
  "environment_keeps E I \<Longrightarrow> I h \<Longrightarrow> cometd_configure E opt h = Ok (r, h') \<Longrightarrow> I h'"
  by (cases opt) (auto simp: outcome_simps cometd_loop_destroy_def intro!: set_config set_loop
      intro: environment_keepsD(8) split: option.splits loop_function.splits)

lemma add_listener: "I h \<Longrightarrow> cometd_add_listener E c cb h = (p, h') \<Longrightarrow> I h'"
  by (auto simp: cometd_add_listener_def intro: add_subscription split: prod.splits)

lemma remove_listener: "I h \<Longrightarrow> own p \<Longrightarrow> cometd_remove_listener p h = Ok (r, h') \<Longrightarrow> I h'"
  by (auto simp: cometd_remove_listener_def outcome_simps intro: remove_subscription)

lemma loop_starts:
  assumes "environment_keeps E I" and "I h" and "cometd_loop_start E h = Ok (r, h')"
  shows "I h'"
  using assms(3) set_loop [OF assms(2)] environment_keepsD(5) [OF assms(1,2)]
  by (auto simp: cometd_loop_start_def cometd_loop_gthread_start_def split: option.splits loop_function.splits)

lemma loop_stops:
  assumes "environment_keeps E I" and "I h" and "cometd_loop_stop E h = Ok h'"
  shows "I h'"
  using assms(2,3) set_loop [OF environment_keepsD(9) [OF assms(1,2)]] environment_keepsD(6) [OF assms(1,2)]
  by (auto simp: cometd_loop_stop_def cometd_loop_gthread_stop_def Let_def
      split: option.splits loop_function.splits thread_field.splits)

lemma connect:
  assumes "environment_keeps E I" and "I h" and "cometd_connect E fuel h = Ok (r, h')"
  shows "I h'"
proof -
  obtain code h1 where 1: "cometd_handshake E fuel h = Ok (code, h1)"
    and rest: "(if code \<noteq> COMETD_SUCCESS then Ok (code, h1)
      else obind (cometd_loop_start E h1) (\<lambda>(r, h).
         if r \<noteq> 0 then Ok (cometd_error ECOMETD_INIT_LOOP ''could not initialize connection loop'' h)
         else Ok (code, h\<lparr>conn := cometd_conn_set_state COMETD_CONNECTED (conn h)\<rparr>))) = Ok (r, h')"
    using assms(3) by (auto simp: cometd_connect_def outcome_simps)
  have h1: "I h1" using handshake [OF assms(1)] keeps_stepD assms(2) 1 by blast
  show ?thesis
  proof (cases "code = COMETD_SUCCESS")
    case True
    then obtain q h2 where "cometd_loop_start E h1 = Ok (q, h2)"
      "(if q \<noteq> 0 then Ok (cometd_error ECOMETD_INIT_LOOP ''could not initialize connection loop'' h2)
         else Ok (code, h2\<lparr>conn := cometd_conn_set_state COMETD_CONNECTED (conn h2)\<rparr>)) = Ok (r, h')"
      using rest by (auto simp: outcome_simps)
    then show ?thesis
      using loop_starts [OF assms(1) h1] set_error set_state
      by (auto simp: cometd_error_def cometd_conn_set_state_def split: if_splits)
  qed (use h1 rest in auto)
qed

lemma disconnect:
  "environment_keeps E I \<Longrightarrow> I h \<Longrightarrow> cometd_disconnect E w h = Ok (r, h') \<Longrightarrow> I h'"
  by (auto simp: cometd_disconnect_def Let_def outcome_simps cometd_conn_set_state_def
      intro: loop_stops set_state split: if_splits)

lemma publish:
  assumes "environment_keeps E I" and "I h" and "cometd_publish E fuel c d h = Ok (r, h')"
  shows "I h'"
  using assms(3) send_over_transport [OF assms(1) handshake [OF assms(1)]] message_ids(3) [OF assms(2)]
  unfolding cometd_publish_def obind_eq_Ok by fastforce

lemma subscribe:
  assumes "environment_keeps E I" and "I h" and "cometd_subscribe E fuel c cb h = Ok (s, h')"
  shows "I h'"
proof -
  let ?send = "if \<not> cometd_is_meta_channel (Some c)
      then obind (cometd_new_subscribe_message E c h) (\<lambda>(node, h). cometd_transport_send E (cometd_handshake E fuel) node h)
      else Ok (COMETD_SUCCESS, h)"
  obtain code h1 where 1: "?send = Ok (code, h1)"
    and rest: "(if code = COMETD_SUCCESS then cometd_add_listener E c cb h1 else (None, h1)) = (s, h')"
    using assms(3) by (cases ?send) (auto simp: cometd_subscribe_def)
  have "I h1"
  proof (cases "cometd_is_meta_channel (Some c)")
    case False
    then obtain node h2 where "cometd_new_subscribe_message E c h = Ok (node, h2)"
      "cometd_transport_send E (cometd_handshake E fuel) node h2 = Ok (code, h1)"
      using 1 by (auto simp: outcome_simps)
    then show ?thesis
      using send_over_transport [OF assms(1) handshake [OF assms(1)]] message_ids(4) [OF assms(2)] by blast
  qed (use 1 assms(2) in auto)
  then show ?thesis using rest add_listener by (auto split: if_splits)
qed

lemma unsubscribe:
  assumes "environment_keeps E I" and "I h" and "own p" and "cometd_unsubscribe E fuel p h = Ok (r, h')"
  shows "I h'"
proof (cases p)
  case None
  then show ?thesis using assms(2,4) by (simp add: cometd_unsubscribe_def)
next
  case (Some a)
  then obtain s where s: "sub_heap (subscriptions h) a = Some s"
    using assms(4) by (auto simp: cometd_unsubscribe_def outcome_simps)
  show ?thesis
  proof (cases "cometd_is_meta_channel (Some (sub_channel s)) \<or>
      cometd_listener_count (subscriptions h) (Some (sub_channel s)) \<noteq> 1")
    case True
    then show ?thesis
      using unsubscribe_local [OF s True] remove_listener [OF assms(2,3)] assms(4) Some by simp
  next
    case False
    then obtain node h2 code h1 where "cometd_new_unsubscribe_message E (sub_channel s) h = Ok (node, h2)"
      and sent: "cometd_transport_send E (cometd_handshake E fuel) node h2 = Ok (code, h1)"
      and rest: "(if code \<noteq> COMETD_SUCCESS then cometd_remove_listener (Some a) h1 else Ok (code, h1)) = Ok (r, h')"
      using assms(4) s by (auto simp: cometd_unsubscribe_def outcome_simps Some)
    then have "I h1"
      using send_over_transport [OF assms(1) handshake [OF assms(1)] _ sent] message_ids(5) [OF assms(2)] by blast
    then show ?thesis using rest remove_listener [OF _ assms(3)] Some by (auto split: if_splits)
  qed
qed

lemma poll:
  assumes "environment_keeps E I" and "I h" and "cometd_loop_wait E backoff h = Ok h1"
    and "cometd_recv E h1 = Ok (payload, h2)"
    and "cometd_process_msg E (cometd_handshake E fuel) connect (h2\<lparr>inbox := queue\<rparr>) = Ok (r, m', h')"
  shows "I h'"
  using message [OF assms(1) handshake [OF assms(1)] _ assms(5)] set_inbox
    receive [OF assms(1) loop_waits [OF assms(1-3)] assms(4)] by blast

lemma step_keeps:
  assumes "environment_keeps E I" and "I h" and "client_step E own h h'"
  shows "I h'"
  using assms(3,1,2)
proof (cases rule: client_step.cases)
  case (Poll backoff h1 payload h2 connect rest fuel r m')
  then show ?thesis using poll [OF assms(1,2)] by blast
next
  case (Deliver waits m queue fuel r m')
  then show ?thesis using message [OF assms(1) handshake [OF assms(1)] set_inbox [OF assms(2)]] by blast
next
  case Loop_end
  then show ?thesis using set_state [OF assms(2)] by (simp add: cometd_conn_set_state_def)
qed (use assms in \<open>auto intro: configure register unregister add_ext remove_ext add_listener remove_listener
    connect disconnect publish subscribe unsubscribe\<close>)

lemma reachable_keeps:
  assumes "environment_keeps E I" and "client_reachable E own h h'"
  shows "I h \<Longrightarrow> I h'"
  using assms(2) unfolding client_reachable_def
  by (induction rule: rtranclp_induct) (auto intro: step_keeps [OF assms(1)])

end

end
