(* ===== verification/Client.thy ===== *)
theory Client
  imports Invariant
begin

text \<open>
  The invariants of the client: interpretations of \<open>client_invariant\<close> for the session, for
  the memory the handle owns and for the message ids, and what follows for every state that
  a program can reach from a new handle.
\<close>

section \<open>The session\<close>

text \<open>
  The state is one of those the library sets, transport and client id are set together,
  and a client in the state HANDSHAKE_SUCCESS has both. (A CONNECTED client may have neither: see
  \<open>connect_reply_strands_client\<close> in \<open>Polling\<close>.)
\<close>

definition session_ok :: "'w cometd \<Rightarrow> bool" where
  "session_ok h \<longleftrightarrow> conn_state (conn h) \<in> conn_states \<and>
     (transport (conn h) = None \<longleftrightarrow> client_id (conn h) = None) \<and>
     (conn_state (conn h) = COMETD_HANDSHAKE_SUCCESS \<longrightarrow> transport (conn h) \<noteq> None)"

lemma register_transport_frame:
  "cometd_register_transport t h = (r, h') \<Longrightarrow>
    conn h' = conn h \<and> subscriptions h' = subscriptions h \<and> exts h' = exts h \<and>
    ext_heap h' = ext_heap h \<and> sys_s h' = sys_s h \<and> next_addr h' = Suc (next_addr h)"
  by (auto simp: cometd_register_transport_def set_transports_def Let_def)

lemma unregister_transport_frame:
  "cometd_unregister_transport name h = Ok (r, h') \<Longrightarrow>
    conn h' = conn h \<and> subscriptions h' = subscriptions h \<and> exts h' = exts h \<and>
    ext_heap h' = ext_heap h \<and> sys_s h' = sys_s h \<and> next_addr h' = next_addr h"
  by (auto simp: cometd_unregister_transport_def set_transports_def Let_def outcome_simps split: option.splits)

lemma add_ext_frame:
  "alloc_ext e h = (a, h1) \<Longrightarrow> cometd_ext_add a h1 = h\<lparr>exts := exts h @ [next_addr h],
    ext_heap := (ext_heap h)(next_addr h \<mapsto> e), next_addr := Suc (next_addr h)\<rparr>"
  by (auto simp: alloc_ext_def cometd_ext_add_def)

lemma remove_ext_frame:
  "cometd_ext_remove a h = Ok h' \<Longrightarrow>
    h' = h\<lparr>exts := remove1 a (exts h), ext_heap := (ext_heap h)(a := None)\<rparr>"
  by (auto simp: cometd_ext_remove_def cometd_ext_destroy_def outcome_simps)

interpretation session: client_invariant session_ok "\<lambda>_. True"
  by unfold_locales
    (auto simp: session_ok_def add_ext_frame dest: register_transport_frame unregister_transport_frame
      remove_ext_frame)

section \<open>Message ids\<close>

interpretation ids: client_invariant "\<lambda>h. n \<le> msg_id_seed (conn h)" "\<lambda>_. True" for n
  by unfold_locales
    (auto simp: add_ext_frame dest: register_transport_frame unregister_transport_frame remove_ext_frame)

section \<open>Memory\<close>

text \<open>The program's own subscriptions: all but the two of the library.\<close>

definition not_internal :: "cometd_sys_s \<Rightarrow> addr option \<Rightarrow> bool" where
  "not_internal S p \<longleftrightarrow> p = None \<or> p \<noteq> handshake_handler S \<and> p \<noteq> connect_handler S"

lemma handle_wf_register:
  assumes "handle_wf h" and "cometd_register_transport t h = (r, h')"
  shows "handle_wf h'"
proof -
  have "registry_wf h'" using register_transport_wf [of h t] assms by (simp add: handle_wf_def)
  moreover have "dom (transport_heap h') = set (transports (config h'))"
    using assms(2) domD [of _ "transport_heap h"] assms(1)
    by (auto simp: handle_wf_def cometd_register_transport_def set_transports_def Let_def)
  ultimately show ?thesis
    using assms(1) register_transport_frame [OF assms(2)]
    by (auto simp: handle_wf_def exts_wf_def sys_s_wf_def less_Suc_eq)
qed

lemma handle_wf_unregister:
  assumes "handle_wf h" and "cometd_unregister_transport name h = Ok (r, h')"
  shows "handle_wf h'"
proof (cases "first_named h name (transports (config h))")
  case None
  then have "h' = h"
    using assms by (auto simp: cometd_unregister_transport_def handle_wf_def registry_wf_def
        find_transport_first_named)
  then show ?thesis using assms(1) by simp
next
  case (Some a)
  then have "h' = (set_transports (remove1 a (transports (config h))) h)\<lparr>transport_heap := (transport_heap h)(a := None)\<rparr>"
    using assms by (auto simp: cometd_unregister_transport_def handle_wf_def registry_wf_def
        find_transport_first_named outcome_simps set_transports_def)
  then show ?thesis
    using assms(1) by (auto simp: handle_wf_def registry_wf_def exts_wf_def sys_s_wf_def set_transports_def
        split: if_splits)
qed

lemma handle_wf_add_ext: "handle_wf h \<Longrightarrow> alloc_ext e h = (a, h1) \<Longrightarrow> handle_wf (cometd_ext_add a h1)"
  by (auto simp: add_ext_frame handle_wf_def registry_wf_def exts_wf_def sys_s_wf_def less_Suc_eq)

lemma handle_wf_remove_ext: "handle_wf h \<Longrightarrow> cometd_ext_remove a h = Ok h' \<Longrightarrow> handle_wf h'"
  by (auto simp: handle_wf_def registry_wf_def exts_wf_def sys_s_wf_def dest!: remove_ext_frame
      split: if_splits)

lemma handle_wf_add_subscription:
  assumes "handle_wf h" and "cometd_listener_add m (subscriptions h) c cb = (p, L)"
  shows "handle_wf (h\<lparr>subscriptions := L\<rparr>)"
proof -
  have wf: "listeners_wf (subscriptions h)" using assms(1) by (simp add: handle_wf_def)
  then have "listeners_wf L" using listener_add_wf [of "subscriptions h" m c cb] assms(2) by simp
  moreover have "sub_heap L a \<noteq> None" if "sub_heap (subscriptions h) a \<noteq> None" for a
    using listener_add_Some(2) [OF wf] listener_add_None assms(2) that by (cases p) fastforce+
  ultimately show ?thesis
    using assms(1) by (auto simp: handle_wf_def registry_wf_def exts_wf_def sys_s_wf_def)
qed

lemma handle_wf_remove_subscription:
  assumes "handle_wf h" and "not_internal (sys_s h) p" and "cometd_listener_remove (subscriptions h) p = Ok (r, L)"
  shows "handle_wf (h\<lparr>subscriptions := L\<rparr>)"
proof -
  have wf: "listeners_wf (subscriptions h)" using assms(1) by (simp add: handle_wf_def)
  have "sub_heap L a = sub_heap (subscriptions h) a" if "Some a \<noteq> p" for a
    using assms(3) that by (cases rule: listener_remove_cases [OF wf, of p]) auto
  then show ?thesis
    using assms(1,2) listener_remove_wf [OF wf assms(3)]
    by (auto simp: handle_wf_def registry_wf_def exts_wf_def sys_s_wf_def not_internal_def)
qed

lemma handle_wf_cong:
  "transports (config h') = transports (config h) \<Longrightarrow> transport_heap h' = transport_heap h \<Longrightarrow>
    next_addr h' = next_addr h \<Longrightarrow> subscriptions h' = subscriptions h \<Longrightarrow> exts h' = exts h \<Longrightarrow>
    ext_heap h' = ext_heap h \<Longrightarrow> sys_s h' = sys_s h \<Longrightarrow> handle_wf h' = handle_wf h"
  by (simp add: handle_wf_def registry_wf_def exts_wf_def sys_s_wf_def)

interpretation memory: client_invariant "\<lambda>h. handle_wf h \<and> sys_s h = S" "not_internal S" for S
proof unfold_locales
  show "handle_wf h' \<and> sys_s h' = S"
    if "handle_wf h \<and> sys_s h = S" "cometd_register_transport t h = (r, h')" for h :: "'a cometd" and t r h'
    using that handle_wf_register register_transport_frame by blast
  show "handle_wf h' \<and> sys_s h' = S"
    if "handle_wf h \<and> sys_s h = S" "cometd_unregister_transport name h = Ok (r, h')" for h :: "'a cometd" and name r h'
    using that handle_wf_unregister unregister_transport_frame by blast
  show "handle_wf (cometd_ext_add a h1) \<and> sys_s (cometd_ext_add a h1) = S"
    if "handle_wf h \<and> sys_s h = S" "alloc_ext e h = (a, h1)" for h :: "'a cometd" and e a h1
    using that handle_wf_add_ext add_ext_frame [OF that(2)] by fastforce
  show "handle_wf h' \<and> sys_s h' = S"
    if "handle_wf h \<and> sys_s h = S" "a \<in> set (exts h)" "cometd_ext_remove a h = Ok h'" for h :: "'a cometd" and a h'
    using that handle_wf_remove_ext by (auto dest: remove_ext_frame)
  show "handle_wf (h\<lparr>subscriptions := L\<rparr>) \<and> sys_s (h\<lparr>subscriptions := L\<rparr>) = S"
    if "handle_wf h \<and> sys_s h = S" "cometd_listener_add m (subscriptions h) c cb = (p, L)"
    for h :: "'a cometd" and m c cb p L
    using that handle_wf_add_subscription by auto
  show "handle_wf (h\<lparr>subscriptions := L\<rparr>) \<and> sys_s (h\<lparr>subscriptions := L\<rparr>) = S"
    if "handle_wf h \<and> sys_s h = S" "not_internal S p" "cometd_listener_remove (subscriptions h) p = Ok (r, L)"
    for h :: "'a cometd" and p r L
    using that handle_wf_remove_subscription by auto
qed (simp_all cong: handle_wf_cong)

section \<open>Properties\<close>

lemma cometd_new_session_ok: "session_ok (cometd_new E token w)"
proof -
  have "conn (cometd_new E token w) = cometd_conn_new"
    by (simp add: cometd_new_def cometd_register_transport_def set_transports_def Let_def
        cometd_impl_set_sys_s_def cometd_add_listener_def split: prod.splits)
  then show ?thesis by (simp add: session_ok_def cometd_conn_new_def)
qed

text \<open>
  C1. In every state that a program reaches from a new handle by calls of the library,
  deliveries and rounds of the loop thread, the session is consistent: the state is one of
  the five the library sets, the client id and the transport are set together, and a client
  in the state HANDSHAKE_SUCCESS has both.
\<close>

theorem reachable_session_ok:
  assumes "environment_keeps E session_ok" and "client_reachable E own (cometd_new E token w) h"
  shows "session_ok h"
proof -
  have "client_reachable E (\<lambda>_. True) (cometd_new E token w) h"
    using assms(2) by (rule client_reachable_mono) simp
  from session.reachable_keeps [OF assms(1) this cometd_new_session_ok] show ?thesis .
qed

text \<open>
  C2. In every state that is reached without removing the library's own two subscriptions,
  every subscription, transport and extension of the handle is live and owned once, and
  destroying the handle there (with the gthread loop) frees all of them without a fault.
\<close>

theorem reachable_destroy_frees_all:
  assumes "sub_malloc_ok E 0" and "sub_malloc_ok E 1"
    and "environment_keeps E (\<lambda>h. handle_wf h \<and> sys_s h = \<lparr>handshake_handler = Some 0, connect_handler = Some 1,
       subscribe_handler = None, unsubscribe_handler = None, disconnect_handler = None\<rparr>)"
    and "client_reachable E (\<lambda>p. p \<noteq> Some 0 \<and> p \<noteq> Some 1) (cometd_new E token w) h"
    and "loop_destroy (loop h) \<in> {None, Some Gthread}"
  shows "handle_wf h \<and> (\<exists>h'. cometd_destroy E h = Ok h' \<and> transport_heap h' = Map.empty \<and>
    ext_heap h' = Map.empty \<and> sub_heap (subscriptions h') = Map.empty)"
proof -
  let ?S = "\<lparr>handshake_handler = Some 0, connect_handler = Some 1,
       subscribe_handler = None, unsubscribe_handler = None, disconnect_handler = None\<rparr>"
  have "handle_wf (cometd_new E token w) \<and> sys_s (cometd_new E token w) = ?S"
    using cometd_new_wf [OF assms(1,2)] by (simp add: cometd_new_eq [OF assms(1,2)])
  moreover have "client_reachable E (not_internal ?S) (cometd_new E token w) h"
    using assms(4) by (rule client_reachable_mono) (auto simp: not_internal_def)
  ultimately have "handle_wf h" using memory.reachable_keeps [OF assms(3)] by blast
  then show ?thesis using destroy_frees_all [OF _ assms(5)] by blast
qed

text \<open>
  Message ids never go down in the life of a handle, so no id is given twice as long
  as the counter does not overflow.
\<close>

theorem reachable_ids_grow:
  assumes "environment_keeps E (\<lambda>k. msg_id_seed (conn h) \<le> msg_id_seed (conn k))"
    and "client_reachable E own h h'"
  shows "msg_id_seed (conn h) \<le> msg_id_seed (conn h') \<and>
    (\<forall>n k. take_msg_id h' = Ok (n, k) \<longrightarrow> msg_id_seed (conn h) < n \<and> msg_id_seed (conn k) = n)"
proof -
  have "client_reachable E (\<lambda>_. True) h h'" using assms(2) by (rule client_reachable_mono) simp
  then show ?thesis using ids.reachable_keeps [OF assms(1)] by (auto simp: outcome_simps)
qed

section \<open>The invariants hold of an example\<close>

lemma example_env_keeps [simp]: "environment_keeps (ack_env c b r) I"
  by (auto simp: environment_keeps_def user_code_keeps_def ack_env_def example_env_def)

text \<open>One step from a new handle: the loop thread ends.\<close>

lemma example_loop_end:
  "\<exists>h'. client_step (ack_env ''/ack'' True 503) own (cometd_new (ack_env ''/ack'' True 503) None []) h' \<and>
     conn_state (conn h') = COMETD_DISCONNECTED \<and> loop_destroy (loop h') = Some Gthread \<and> msg_id_seed (conn h') = 0"
  by (rule exI, rule conjI, rule Loop_end)
    (simp add: cometd_new_eq [OF ack_env_malloc ack_env_malloc] cometd_conn_set_state_def cometd_conn_new_def
      cometd_loop_gthread_new_def)

lemma reachable_session_ok_witness:
  "\<exists>h. client_reachable (ack_env ''/ack'' True 503) (\<lambda>_. True) (cometd_new (ack_env ''/ack'' True 503) None []) h \<and>
     conn_state (conn h) = COMETD_DISCONNECTED \<and> session_ok h"
  using example_loop_end [of "\<lambda>_. True"] reachable_session_ok [OF example_env_keeps, where own = "\<lambda>_. True"]
  unfolding client_reachable_def by blast

lemma reachable_destroy_frees_all_witness:
  "\<exists>h h'. client_reachable (ack_env ''/ack'' True 503) (\<lambda>p. p \<noteq> Some 0 \<and> p \<noteq> Some 1)
      (cometd_new (ack_env ''/ack'' True 503) None []) h \<and>
     cometd_destroy (ack_env ''/ack'' True 503) h = Ok h' \<and> transport_heap h' = Map.empty"
proof -
  obtain h where h: "client_step (ack_env ''/ack'' True 503) (\<lambda>p. p \<noteq> Some 0 \<and> p \<noteq> Some 1)
      (cometd_new (ack_env ''/ack'' True 503) None []) h" "loop_destroy (loop h) = Some Gthread"
    using example_loop_end by blast
  then have "client_reachable (ack_env ''/ack'' True 503) (\<lambda>p. p \<noteq> Some 0 \<and> p \<noteq> Some 1)
      (cometd_new (ack_env ''/ack'' True 503) None []) h"
    unfolding client_reachable_def by blast
  then show ?thesis
    using reachable_destroy_frees_all [OF ack_env_malloc ack_env_malloc example_env_keeps] h(2) by blast
qed

lemma reachable_ids_grow_witness:
  "\<exists>h. client_reachable (ack_env ''/ack'' True 503) (\<lambda>_. True) (cometd_new (ack_env ''/ack'' True 503) None []) h \<and>
     conn_state (conn h) = COMETD_DISCONNECTED \<and> 0 \<le> msg_id_seed (conn h)"
proof -
  obtain h where h: "client_step (ack_env ''/ack'' True 503) (\<lambda>_. True)
      (cometd_new (ack_env ''/ack'' True 503) None []) h" "conn_state (conn h) = COMETD_DISCONNECTED"
    using example_loop_end by blast
  then have "client_reachable (ack_env ''/ack'' True 503) (\<lambda>_. True) (cometd_new (ack_env ''/ack'' True 503) None []) h"
    unfolding client_reachable_def by blast
  from reachable_ids_grow [OF example_env_keeps this] this h(2) show ?thesis
    by (auto simp: cometd_new_eq [OF ack_env_malloc ack_env_malloc] cometd_conn_new_def)
qed

end
