(* ===== verification/Retry.thy ===== *)
theory Retry
  imports Wire
begin

text \<open>
  The retries of a handshake (\<open>cometd_handshake\<close>): how many attempts an unreachable server
  gets, after which waits, and that one answer in time ends them. The client has no
  extensions here and runs the gthread loop.
\<close>

section \<open>One refused attempt\<close>

definition registered_names :: "'w cometd \<Rightarrow> string list" where
  "registered_names h = map (\<lambda>t. tr_name (the (transport_heap h t))) (transports (config h))"

definition handshake_message :: "int \<Rightarrow> string list \<Rightarrow> json" where
  "handshake_message seed names = JObject
     [(''id'', JInt seed), (''channel'', JString ''/meta/handshake''), (''version'', JString ''1.0''),
      (''minimumVersion'', JString ''0.9''),
      (''advice'', JObject [(''timeout'', JInt 60000), (''interval'', JInt 0)]),
      (''supportedConnectionTypes'', JArray (map JString names))]"

text \<open>The next handshake message, and the answer to its POST.\<close>

definition next_handshake :: "'w cometd \<Rightarrow> json" where
  "next_handshake h = handshake_message (msg_id_seed (conn h) + 1) (registered_names h)"

definition answer_to_handshake :: "'w env \<Rightarrow> 'w cometd \<Rightarrow> curl_result \<times> 'w" where
  "answer_to_handshake E h = post_answer E h (next_handshake h)"

definition refused_attempt :: "'w env \<Rightarrow> 'w cometd \<Rightarrow> 'w cometd" where
  "refused_attempt E h = h\<lparr>conn := (conn h)\<lparr>msg_id_seed := msg_id_seed (conn h) + 1\<rparr>,
     last_error := \<lparr>err_code = ECOMETD_SEND, err_message = Some ''could not post''\<rparr>,
     world := snd (answer_to_handshake E h)\<rparr>"

definition slept :: "'w env \<Rightarrow> int \<Rightarrow> 'w cometd \<Rightarrow> 'w cometd" where
  "slept E millis h = (if millis < 1 then h
     else h\<lparr>world := usleep E (uint (word_of_int (millis * 1000) :: 32 word)) (world h)\<rparr>)"

text \<open>What a client that can start a handshake looks like.\<close>

definition can_handshake :: "'w env \<Rightarrow> 'w cometd \<Rightarrow> bool" where
  "can_handshake E h \<longleftrightarrow> registry_wf h \<and> exts h = [] \<and> loop_wait (loop h) = Some Gthread \<and>
     serialises E"

lemma transport_names_live:
  "\<forall>t\<in>set ts. transport_heap h t \<noteq> None \<Longrightarrow>
    transport_names h ts = Ok (map (\<lambda>t. tr_name (the (transport_heap h t))) ts)"
proof (induction ts)
  case Nil
  then show ?case by simp
next
  case (Cons t ts)
  then obtain tr where "transport_heap h t = Some tr" by auto
  with Cons show ?case by (simp add: heap_simps)
qed

lemma new_handshake_message_Ok:
  assumes "registry_wf h" and "in_long (msg_id_seed (conn h) + 1)"
  shows "cometd_new_handshake_message h =
    Ok (handshake_message (msg_id_seed (conn h) + 1) (registered_names h),
        h\<lparr>conn := (conn h)\<lparr>msg_id_seed := msg_id_seed (conn h) + 1\<rparr>\<rparr>)"
proof -
  let ?h = "h\<lparr>conn := (conn h)\<lparr>msg_id_seed := msg_id_seed (conn h) + 1\<rparr>\<rparr>"
  have "transport_names ?h (transports (config h)) = Ok (registered_names h)"
    using assms(1) by (simp add: registry_wf_def transport_names_live registered_names_def)
  then show ?thesis
    using assms(2) by (simp add: cometd_new_handshake_message_def take_msg_id_def next_msg_id_def
        long_result_def handshake_message_def set_members_def json_object_set_member_def
        COMETD_CHANNEL_META_HANDSHAKE_def)
qed

lemma post_answer_conn [simp]: "post_answer E (h\<lparr>conn := c\<rparr>) msg = post_answer E h msg"
  by (simp add: post_answer_def post_request_def)

lemma impl_handshake_refused:
  assumes "can_handshake E h" and "in_long (msg_id_seed (conn h) + 1)"
    and "refused (fst (answer_to_handshake E h))"
  shows "cometd_impl_handshake E hs h = Ok (ECOMETD_SEND, refused_attempt E h)"
proof -
  let ?h = "h\<lparr>conn := (conn h)\<lparr>msg_id_seed := msg_id_seed (conn h) + 1\<rparr>\<rparr>"
  have "http_post_msg E (Some (JArray [next_handshake h])) ?h = Ok (None, refused_attempt E h)"
    using post_msg_refused [of E ?h "next_handshake h"] assms(1,3)
    by (simp add: can_handshake_def answer_to_handshake_def refused_attempt_def)
  then show ?thesis
    using assms(1,2) new_handshake_message_Ok [of h]
    by (simp add: cometd_impl_handshake_def can_handshake_def send_msg_sync_no_exts next_handshake_def
        refused_attempt_def)
qed

lemma loop_wait_slept:
  assumes "loop_wait (loop h) = Some Gthread" and "in_long (millis * 1000)"
  shows "cometd_loop_wait E millis h = Ok (slept E millis h)"
  using assms by (simp add: cometd_loop_wait_def cometd_loop_gthread_wait_def slept_def long_result_def)

section \<open>Runs of refused attempts\<close>

text \<open>The handle after \<open>k\<close> refused attempts, and after the wait that follows them.\<close>

primrec attempts :: "'w env \<Rightarrow> (nat \<Rightarrow> int) \<Rightarrow> nat \<Rightarrow> 'w cometd \<Rightarrow> 'w cometd" where
  "attempts E delay 0 h = h"
| "attempts E delay (Suc k) h = refused_attempt E (slept E (delay k) (attempts E delay k h))"

definition before_attempt :: "'w env \<Rightarrow> (nat \<Rightarrow> int) \<Rightarrow> nat \<Rightarrow> 'w cometd \<Rightarrow> 'w cometd" where
  "before_attempt E delay k h = slept E (delay k) (attempts E delay k h)"

lemma slept_simps [simp]:
  "conn (slept E m h) = conn h" "config (slept E m h) = config h" "exts (slept E m h) = exts h"
  "loop (slept E m h) = loop h" "transport_heap (slept E m h) = transport_heap h"
  "next_addr (slept E m h) = next_addr h" "subscriptions (slept E m h) = subscriptions h" "last_error (slept E m h) = last_error h"
  by (simp_all add: slept_def)

lemma refused_attempt_simps [simp]:
  "conn (refused_attempt E h) = (conn h)\<lparr>msg_id_seed := msg_id_seed (conn h) + 1\<rparr>"
  "config (refused_attempt E h) = config h" "exts (refused_attempt E h) = exts h"
  "loop (refused_attempt E h) = loop h" "transport_heap (refused_attempt E h) = transport_heap h"
  "next_addr (refused_attempt E h) = next_addr h"
  "subscriptions (refused_attempt E h) = subscriptions h"
  by (simp_all add: refused_attempt_def)

lemma attempts_simps [simp]:
  "conn (attempts E d k h) = (conn h)\<lparr>msg_id_seed := msg_id_seed (conn h) + int k\<rparr>"
  "config (attempts E d k h) = config h" "exts (attempts E d k h) = exts h"
  "loop (attempts E d k h) = loop h" "transport_heap (attempts E d k h) = transport_heap h"
  "next_addr (attempts E d k h) = next_addr h" "subscriptions (attempts E d k h) = subscriptions h"
  by (induction k) (simp_all add: add.commute add.left_commute)

lemma can_handshake_attempts [simp]:
  "can_handshake E (slept E m h) = can_handshake E h"
  "can_handshake E (attempts E d k h) = can_handshake E h"
  by (simp_all add: can_handshake_def registry_wf_def)

lemma should_handshake_cong:
  "conn_state (conn h') = conn_state (conn h) \<Longrightarrow> advice (conn h') = advice (conn h) \<Longrightarrow>
    cometd_should_handshake h' = cometd_should_handshake h"
  by (simp add: cometd_should_handshake_def cometd_conn_is_state_def cometd_conn_state_def)

lemma get_backoff_cong:
  "advice (conn h') = advice (conn h) \<Longrightarrow> config h' = config h \<Longrightarrow>
    cometd_get_backoff h' k = cometd_get_backoff h k"
  by (simp add: cometd_get_backoff_def split: option.split)

lemma handshake_loop_refused:
  assumes "can_handshake E h" and "cometd_should_handshake h"
    and "in_long (msg_id_seed (conn h) + int (Suc k))" and "0 \<le> msg_id_seed (conn h)"
    and "in_long (delay k * 1000)" and "refused (fst (answer_to_handshake E (before_attempt E delay k h)))"
  shows "cometd_handshake_loop E (Suc n) attempt (delay k) code (attempts E delay k h) =
    obind (cometd_get_backoff h (uint attempt)) (\<lambda>b.
      if b = -1 then Ok (ECOMETD_SEND, attempts E delay (Suc k) h)
      else cometd_handshake_loop E n (attempt + 1) b ECOMETD_SEND (attempts E delay (Suc k) h))"
proof -
  let ?h = "attempts E delay k h" and ?hs = "\<lambda>h. cometd_handshake_loop E n 1 0 ECOMETD_UNKNOWN h"
  have should: "cometd_should_handshake ?h" using should_handshake_cong [of ?h h] assms(2) by simp
  have wait: "cometd_loop_wait E (delay k) ?h = Ok (before_attempt E delay k h)"
    using assms(1,5) by (simp add: loop_wait_slept before_attempt_def can_handshake_def)
  have seed: "in_long (msg_id_seed (conn (before_attempt E delay k h)) + 1)"
    using assms(3) by (simp add: before_attempt_def add.commute add.left_commute)
  have "can_handshake E (before_attempt E delay k h)" using assms(1) by (simp add: before_attempt_def)
  then have try_once: "cometd_impl_handshake E ?hs (before_attempt E delay k h) =
      Ok (ECOMETD_SEND, attempts E delay (Suc k) h)"
    using impl_handshake_refused [OF _ seed assms(6)] by (simp add: before_attempt_def)
  have backoff: "cometd_get_backoff (attempts E delay (Suc k) h) (uint attempt) = cometd_get_backoff h (uint attempt)"
    by (rule get_backoff_cong) (simp_all del: attempts.simps)
  show ?thesis
    using should wait try_once backoff by (simp del: attempts.simps cong: if_cong)
qed

lemma uint_small: "0 \<le> i \<Longrightarrow> i < 2 ^ 32 \<Longrightarrow> uint (word_of_int i :: 32 word) = i"
  by (simp add: unsigned_of_int take_bit_int_eq_self)

text \<open>As long as the waits go on, \<open>k\<close> refused attempts lead from the start to attempt \<open>k + 1\<close>.\<close>

lemma handshake_loop_refusals:
  assumes "can_handshake E h" and "cometd_should_handshake h" and "0 \<le> msg_id_seed (conn h)"
    and "in_long (msg_id_seed (conn h) + int k)" and "k < 2 ^ 32 - 1" and "delay 0 = 0"
    and "\<forall>j<k. refused (fst (answer_to_handshake E (before_attempt E delay j h)))"
    and "\<forall>j<k. in_long (delay j * 1000)"
    and "\<forall>j<k. cometd_get_backoff h (1 + int j) = Ok (delay (Suc j)) \<and> delay (Suc j) \<noteq> -1"
  shows "cometd_handshake_loop E (n + k) 1 0 ECOMETD_UNKNOWN h =
    cometd_handshake_loop E n (word_of_int (1 + int k)) (delay k)
      (if k = 0 then ECOMETD_UNKNOWN else ECOMETD_SEND) (attempts E delay k h)"
  using assms(4,5,7-9)
proof (induction k arbitrary: n)
  case 0
  then show ?case using assms(6) by simp
next
  case (Suc k)
  have "in_long (msg_id_seed (conn h) + int k)"
    using Suc.prems(1) assms(3) by (simp add: in_long_def)
  then have "cometd_handshake_loop E (Suc n + k) 1 0 ECOMETD_UNKNOWN h =
    cometd_handshake_loop E (Suc n) (word_of_int (1 + int k)) (delay k)
      (if k = 0 then ECOMETD_UNKNOWN else ECOMETD_SEND) (attempts E delay k h)"
    using Suc.prems by (intro Suc.IH) auto
  also have "\<dots> = obind (cometd_get_backoff h (uint (word_of_int (1 + int k) :: 32 word))) (\<lambda>b.
      if b = -1 then Ok (ECOMETD_SEND, attempts E delay (Suc k) h)
      else cometd_handshake_loop E n (word_of_int (1 + int k) + 1) b ECOMETD_SEND (attempts E delay (Suc k) h))"
    using Suc.prems by (intro handshake_loop_refused [OF assms(1,2) _ assms(3)]) auto
  also have "uint (word_of_int (1 + int k) :: 32 word) = 1 + int k"
    using Suc.prems(2) by (intro uint_small) auto
  also have "(word_of_int (1 + int k) + 1 :: 32 word) = word_of_int (1 + int (Suc k))"
    by (simp add: wi_hom_syms algebra_simps)
  finally show ?case using Suc.prems(5) by (simp del: attempts.simps)
qed

section \<open>One accepted attempt\<close>

text \<open>A successful handshake reply with a client id, the offered transports and advice.\<close>

definition handshake_reply ::
  "'w env \<Rightarrow> json_object \<Rightarrow> string list \<Rightarrow> string \<Rightarrow> cometd_advice option \<Rightarrow> bool" where
  "handshake_reply E obj names cid adv \<longleftrightarrow>
     map_of obj ''channel'' = Some (JString ''/meta/handshake'') \<and>
     map_of obj ''successful'' = Some (JBool True) \<and>
     map_of obj ''clientId'' = Some (JString cid) \<and>
     cometd_msg_supported_connection_types (json_lib E) (Some (JObject obj)) = map Some names \<and>
     cometd_msg_advice (json_lib E) (Some (JObject obj)) = Ok adv"

text \<open>Handshake replies go to the library's handler alone.\<close>

definition handshake_dispatched :: "'w cometd \<Rightarrow> bool" where
  "handshake_dispatched h \<longleftrightarrow>
     (\<exists>a s. cometd_listener_get (subscriptions h) (Some ''/meta/handshake'') = Ok [a] \<and>
        sub_heap (subscriptions h) a = Some s \<and> sub_callback s = Cometd_process_handshake)"

definition accepted_attempt ::
  "'w env \<Rightarrow> addr option \<Rightarrow> string \<Rightarrow> cometd_advice option \<Rightarrow> 'w cometd \<Rightarrow> 'w cometd" where
  "accepted_attempt E t cid adv h =
     h\<lparr>conn := \<lparr>conn_state = COMETD_HANDSHAKE_SUCCESS, msg_id_seed = msg_id_seed (conn h) + 1,
         client_id = Some cid, transport = t, advice = adv\<rparr>,
       world := snd (answer_to_handshake E h)\<rparr>"

lemma process_msg_dispatched:
  assumes "exts h = []" and "handshake_dispatched h"
    and "map_of obj ''channel'' = Some (JString ''/meta/handshake'')"
  shows "cometd_process_msg E hs (Some (JObject obj)) h =
    obind (cometd_process_handshake E (Some (JObject obj)) h) (\<lambda>(code, h).
      Ok (if code = COMETD_SUCCESS then COMETD_SUCCESS else ECOMETD_UNKNOWN, Some (JObject obj), h))"
proof -
  obtain a s where a: "cometd_listener_get (subscriptions h) (Some ''/meta/handshake'') = Ok [a]"
    "sub_heap (subscriptions h) a = Some s" "sub_callback s = Cometd_process_handshake"
    using assms(2) by (auto simp: handshake_dispatched_def)
  then show ?thesis
    using assms(1,3)
    by (auto simp: cometd_process_msg_def cometd_listener_fire_def heap_simps obind_assoc intro!: obind_cong)
qed

lemma impl_handshake_accepted:
  assumes "can_handshake E h" and "in_long (msg_id_seed (conn h) + 1)" and "handshake_dispatched h"
    and "carries E (fst (answer_to_handshake E h)) obj" and "handshake_reply E obj names cid adv"
    and "find (\<lambda>name. first_named h name (transports (config h)) \<noteq> None) (rev names) = Some name"
  shows "cometd_impl_handshake E hs h = Ok (COMETD_SUCCESS,
    accepted_attempt E (first_named h name (transports (config h))) cid adv h)"
proof -
  let ?h = "h\<lparr>conn := (conn h)\<lparr>msg_id_seed := msg_id_seed (conn h) + 1\<rparr>\<rparr>"
  let ?w = "h\<lparr>conn := (conn h)\<lparr>msg_id_seed := msg_id_seed (conn h) + 1\<rparr>,
    world := snd (answer_to_handshake E h)\<rparr>"
  let ?t = "first_named h name (transports (config h))"
  have post: "http_post_msg E (Some (JArray [next_handshake h])) ?h = Ok (Some (JArray [JObject obj]), ?w)"
    using post_msg_carries [of E ?h "next_handshake h" obj] assms(1,4)
    by (simp add: can_handshake_def answer_to_handshake_def)
  have wf: "registry_wf ?w" using assms(1) by (simp add: can_handshake_def registry_wf_def)
  have "first_named ?w n ts = first_named h n ts" for n ts
    by (rule first_named_heap_cong) simp
  then have found: "find (\<lambda>name. first_named ?w name (transports (config ?w)) \<noteq> None) (rev names) = Some name"
    "first_named ?w name (transports (config ?w)) = ?t"
    using assms(6) by simp_all
  have "\<exists>a. ?t = Some a" using assms(6) by (auto simp: find_Some_iff)
  then obtain a where a: "?t = Some a" ..
  have "cometd_process_handshake E (Some (JObject obj)) ?w = Ok (COMETD_SUCCESS, accepted_attempt E ?t cid adv h)"
    using process_handshake_found [OF wf _ _ found(1)] found(2) assms(5) a
    by (simp add: handshake_reply_def cometd_msg_client_id_def accepted_attempt_def)
  moreover have "exts ?w = []" "handshake_dispatched ?w"
    using assms(1,3) by (simp_all add: can_handshake_def handshake_dispatched_def)
  ultimately have "finish_send E hs (Some (JArray [JObject obj]), ?w) =
      Ok (COMETD_SUCCESS, accepted_attempt E ?t cid adv h)"
    using assms(5)
    by (simp add: finish_send_def cometd_impl_process_sync_def process_msg_dispatched handshake_reply_def
        cometd_msg_is_successful_def json_object_has_member_def)
  moreover have "cometd_current_transport (accepted_attempt E ?t cid adv h) \<noteq> None"
    using a by (simp add: accepted_attempt_def cometd_current_transport_def)
  ultimately show ?thesis
    using assms(1,2) new_handshake_message_Ok [of h] post
    by (simp add: cometd_impl_handshake_def can_handshake_def send_msg_sync_no_exts next_handshake_def)
qed

section \<open>The number of attempts\<close>

text \<open>Without advice: the increments that stay below the maximum, and one more; 30 by default.\<close>

definition attempts_allowed :: "cometd_config \<Rightarrow> nat" where
  "attempts_allowed c = nat ((max_backoff c + backoff_increment c - 1) div backoff_increment c)"

definition linear_delay :: "cometd_config \<Rightarrow> nat \<Rightarrow> int" where
  "linear_delay c k = int k * backoff_increment c"

definition backoff_configured :: "cometd_config \<Rightarrow> bool" where
  "backoff_configured c \<longleftrightarrow>
     0 < backoff_increment c \<and> 0 < max_backoff c \<and> max_backoff c + backoff_increment c < 2 ^ 32"

lemma below_attempts_allowed:
  assumes "backoff_configured c"
  shows "int k * backoff_increment c < max_backoff c \<longleftrightarrow> k < attempts_allowed c"
proof -
  let ?i = "backoff_increment c" and ?m = "max_backoff c"
  have pos: "0 < ?i" "0 < ?m" using assms by (simp_all add: backoff_configured_def)
  have "int k < (?m + ?i - 1) div ?i \<longleftrightarrow> int k + 1 \<le> (?m + ?i - 1) div ?i" by linarith
  also have "\<dots> \<longleftrightarrow> (int k + 1) * ?i \<le> ?m + ?i - 1" 
  proof
    assume "int k + 1 \<le> (?m + ?i - 1) div ?i"
    then have "(int k + 1) * ?i \<le> (?m + ?i - 1) div ?i * ?i" using pos(1) by (simp add: mult_right_mono)
    also have "\<dots> \<le> ?m + ?i - 1" using pos(1) pos_mod_sign [of ?i "?m + ?i - 1"]
      div_mult_mod_eq [of "?m + ?i - 1" ?i] by linarith
    finally show "(int k + 1) * ?i \<le> ?m + ?i - 1" .
  next
    assume "(int k + 1) * ?i \<le> ?m + ?i - 1"
    then have "((int k + 1) * ?i) div ?i \<le> (?m + ?i - 1) div ?i" using pos(1) by (rule zdiv_mono1)
    then show "int k + 1 \<le> (?m + ?i - 1) div ?i" using pos(1) by simp
  qed
  also have "\<dots> \<longleftrightarrow> int k * ?i < ?m" by (auto simp: algebra_simps)
  finally show ?thesis by (simp add: attempts_allowed_def zless_nat_eq_int_zless)
qed

lemma attempts_allowed_pos: "backoff_configured c \<Longrightarrow> 0 < attempts_allowed c"
  using below_attempts_allowed [of c 0] by (simp add: backoff_configured_def)

lemma attempts_allowed_small:
  assumes "backoff_configured c"
  shows "int (attempts_allowed c) * backoff_increment c < 2 ^ 32" and "attempts_allowed c < 2 ^ 32"
    and "1 + int (attempts_allowed c) < 2 ^ 32"
proof -
  obtain k where k: "attempts_allowed c = Suc k" using attempts_allowed_pos [OF assms] by (cases "attempts_allowed c") auto
  then have "int k * backoff_increment c < max_backoff c" by (simp add: below_attempts_allowed [OF assms])
  then have 1: "int (Suc k) * backoff_increment c + 1 < 2 ^ 32"
    using assms by (simp add: backoff_configured_def algebra_simps)
  then show "int (attempts_allowed c) * backoff_increment c < 2 ^ 32" by (simp only: k)
  have "int (Suc k) * 1 \<le> int (Suc k) * backoff_increment c"
    using assms by (intro mult_left_mono) (auto simp: backoff_configured_def)
  then have "int (Suc k) + 1 \<le> int (Suc k) * backoff_increment c + 1" by (simp only: mult_1_right add_right_mono)
  with 1 have "int (Suc k) + 1 < 2 ^ 32" by (rule order.strict_trans1 [rotated])
  then show "attempts_allowed c < 2 ^ 32" "1 + int (attempts_allowed c) < 2 ^ 32" by (simp_all add: k)
qed

lemma linear_delay_small:
  assumes "backoff_configured c" and "k \<le> attempts_allowed c"
  shows "0 \<le> linear_delay c k" and "linear_delay c k < 2 ^ 32"
proof -
  have inc: "0 < backoff_increment c" using assms(1) by (simp add: backoff_configured_def)
  then show "0 \<le> linear_delay c k" by (simp add: linear_delay_def)
  have "linear_delay c k \<le> int (attempts_allowed c) * backoff_increment c"
    using assms(2) inc by (simp add: linear_delay_def mult_right_mono)
  then show "linear_delay c k < 2 ^ 32" using attempts_allowed_small(1) [OF assms(1)] by linarith
qed

lemma linear_delay_wait:
  "backoff_configured c \<Longrightarrow> k \<le> attempts_allowed c \<Longrightarrow> in_long (linear_delay c k * 1000)"
  using linear_delay_small [of c k] by (auto simp: in_long_def)

lemma get_backoff_linear:
  assumes "advice (conn h) = None" and "backoff_configured (config h)" and "k < attempts_allowed (config h)"
  shows "cometd_get_backoff h (1 + int k) =
    Ok (if Suc k < attempts_allowed (config h) then linear_delay (config h) (Suc k) else -1)"
proof -
  have inc: "0 < backoff_increment (config h)" using assms(2) by (simp add: backoff_configured_def)
  have "in_long ((1 + int k) * backoff_increment (config h))"
    using linear_delay_small [OF assms(2), of "Suc k"] assms(3) by (simp add: linear_delay_def in_long_def)
  then show ?thesis
    using get_backoff_no_advice [OF assms(1) inc, of "1 + int k"] below_attempts_allowed [OF assms(2), of "Suc k"]
    by (simp add: scheduled_delay_def linear_delay_def)
qed

lemma handshake_refused_run:
  assumes "can_handshake E h" and "cometd_should_handshake h" and "advice (conn h) = None"
    and "backoff_configured (config h)" and "k < attempts_allowed (config h)"
    and "0 \<le> msg_id_seed (conn h)" and "msg_id_seed (conn h) < 2 ^ 62"
    and "\<forall>j<k. refused (fst (answer_to_handshake E (before_attempt E (linear_delay (config h)) j h)))"
  shows "cometd_handshake E (n + k) h =
    cometd_handshake_loop E n (word_of_int (1 + int k)) (linear_delay (config h) k)
      (if k = 0 then ECOMETD_UNKNOWN else ECOMETD_SEND) (attempts E (linear_delay (config h)) k h)"
  unfolding cometd_handshake_def
proof (rule handshake_loop_refusals [OF assms(1,2,6)])
  let ?d = "linear_delay (config h)"
  note small = attempts_allowed_small(2) [OF assms(4)]
  show "in_long (msg_id_seed (conn h) + int k)" "k < 2 ^ 32 - 1"
    using small assms(5,6,7) by (auto simp: in_long_def)
  show "?d 0 = 0" by (simp add: linear_delay_def)
  show "\<forall>j<k. in_long (?d j * 1000)" using linear_delay_wait [OF assms(4)] assms(5) by simp
  show "\<forall>j<k. cometd_get_backoff h (1 + int j) = Ok (?d (Suc j)) \<and> ?d (Suc j) \<noteq> -1"
  proof (intro allI impI)
    fix j assume "j < k"
    then show "cometd_get_backoff h (1 + int j) = Ok (?d (Suc j)) \<and> ?d (Suc j) \<noteq> -1"
      using get_backoff_linear [OF assms(3,4), of j] linear_delay_small(1) [OF assms(4), of "Suc j"] assms(5)
      by simp
  qed
qed (use assms(8) in simp)

section \<open>Properties\<close>

lemma get_backoff_configured:
  assumes "backoff_configured (config h)" and "k < attempts_allowed (config h)"
  shows "\<exists>b. cometd_get_backoff h (1 + int k) = Ok b"
proof -
  have inc: "0 < backoff_increment (config h)" using assms(1) by (simp add: backoff_configured_def)
  have "in_long ((1 + int k - 1) * backoff_increment (config h))"
    using linear_delay_small [OF assms(1), of k] assms(2) by (simp add: linear_delay_def in_long_def)
  then have "\<exists>b. cometd_get_backoff h (1 + int k) = Ok b"
    if "advice (conn h) = Some a" "\<not> cometd_advice_is_none a" for a
    using get_backoff_advised [OF that inc, of "1 + int k"] by auto
  then show ?thesis
    using get_backoff_linear [OF _ assms] get_backoff_none [of h] by (cases "advice (conn h)") blast+
qed

text \<open>
  C3. A handshake without advice whose every POST is refused ends: after exactly
  ceiling (max_backoff / backoff_increment) attempts (30 by default), with waits of 0, 1,
  2, ... increments before them, one new message id for each, the result ECOMETD_SEND and
  the connection otherwise as it was; fuel for the attempts is enough.
\<close>

theorem handshake_gives_up:
  assumes "can_handshake E h" and "cometd_should_handshake h" and "advice (conn h) = None"
    and "backoff_configured (config h)" and "0 \<le> msg_id_seed (conn h)" and "msg_id_seed (conn h) < 2 ^ 62"
    and "\<forall>j<attempts_allowed (config h).
      refused (fst (answer_to_handshake E (before_attempt E (linear_delay (config h)) j h)))"
    and "attempts_allowed (config h) \<le> fuel"
  shows "cometd_handshake E fuel h =
    Ok (ECOMETD_SEND, attempts E (linear_delay (config h)) (attempts_allowed (config h)) h)"
proof -
  let ?d = "linear_delay (config h)"
  obtain k where k: "attempts_allowed (config h) = Suc k"
    using attempts_allowed_pos [OF assms(4)] by (cases "attempts_allowed (config h)") auto
  obtain n where n: "fuel = Suc n + k"
    using assms(8) k by (metis add.commute add_Suc_right le_Suc_ex)
  have "cometd_handshake E (Suc n + k) h =
      cometd_handshake_loop E (Suc n) (word_of_int (1 + int k)) (?d k)
        (if k = 0 then ECOMETD_UNKNOWN else ECOMETD_SEND) (attempts E ?d k h)"
    using assms k by (intro handshake_refused_run) auto
  also have "\<dots> = obind (cometd_get_backoff h (uint (word_of_int (1 + int k) :: 32 word))) (\<lambda>b.
      if b = -1 then Ok (ECOMETD_SEND, attempts E ?d (Suc k) h)
      else cometd_handshake_loop E n (word_of_int (1 + int k) + 1) b ECOMETD_SEND (attempts E ?d (Suc k) h))"
    using assms k attempts_allowed_small(2) [OF assms(4)] linear_delay_wait [OF assms(4), of k]
    by (intro handshake_loop_refused) (auto simp: in_long_def)
  also have "uint (word_of_int (1 + int k) :: 32 word) = 1 + int k"
    using attempts_allowed_small(2) [OF assms(4)] k by (intro uint_small) auto
  also have "cometd_get_backoff h (1 + int k) = Ok (-1)"
    using get_backoff_linear [OF assms(3,4), of k] k by simp
  finally show ?thesis by (simp add: k n del: attempts.simps)
qed

definition down_env :: "http_request list env" where
  "down_env = example_env (example_json_lib None) (answer_with [] 503)"

lemma new_can_handshake:
  assumes "sub_malloc_ok E 0" and "sub_malloc_ok E 1" and "serialises E"
  shows "can_handshake E (cometd_new E t w)" and "cometd_should_handshake (cometd_new E t w)"
    and "advice (conn (cometd_new E t w)) = None" and "backoff_configured (config (cometd_new E t w))"
    and "msg_id_seed (conn (cometd_new E t w)) = 0" and "attempts_allowed (config (cometd_new E t w)) = 30"
    and "handshake_dispatched (cometd_new E t w)"
    and "first_named (cometd_new E t w) ''long-polling'' (transports (config (cometd_new E t w))) = Some 0"
  using cometd_new_wf [OF assms(1,2), of t w] assms(3) initial_listeners_get(1)
  by (simp_all add: can_handshake_def handle_wf_def cometd_new_eq [OF assms(1,2)] cometd_conn_new_def
      cometd_loop_gthread_new_def should_handshake_states backoff_configured_def attempts_allowed_def
      handshake_dispatched_def COMETD_TRANSPORT_LONG_POLLING_def)
    (simp add: initial_listeners_def)

lemma handshake_gives_up_witness:
  "\<exists>h. cometd_handshake down_env 30 (cometd_new down_env None []) = Ok (ECOMETD_SEND, h)"
proof -
  have 1: "sub_malloc_ok down_env 0" "sub_malloc_ok down_env 1"
    "serialises down_env"
    by (simp_all add: down_env_def example_defs serialises_def cometd_json_node2str_def)
  have "refused (fst (answer_to_handshake down_env h))" for h
    by (simp add: answer_to_handshake_def post_answer_def down_env_def example_defs refused_def)
  then show ?thesis
    using handshake_gives_up [OF new_can_handshake(1-4) [OF 1], where fuel = 30] new_can_handshake(5,6) [OF 1]
    by auto
qed

text \<open>
  C4. One good answer in time ends the retries: when the first \<open>k\<close> POSTs are refused,
  fewer than the attempts allowed, and the next one is answered by a handshake reply that
  offers a registered transport, the handshake returns COMETD_SUCCESS with the connection in
  HANDSHAKE_SUCCESS, the negotiated transport, the client id and the advice of the reply.
\<close>

theorem handshake_recovers:
  assumes "can_handshake E h" and "cometd_should_handshake h" and "advice (conn h) = None"
    and "backoff_configured (config h)" and "0 \<le> msg_id_seed (conn h)" and "msg_id_seed (conn h) < 2 ^ 62"
    and "handshake_dispatched h" and "k < attempts_allowed (config h)"
    and "\<forall>j<k. refused (fst (answer_to_handshake E (before_attempt E (linear_delay (config h)) j h)))"
    and "carries E (fst (answer_to_handshake E (before_attempt E (linear_delay (config h)) k h))) obj"
    and "handshake_reply E obj names cid adv"
    and "find (\<lambda>name. first_named h name (transports (config h)) \<noteq> None) (rev names) = Some name"
    and "k + 2 \<le> fuel"
  shows "cometd_handshake E fuel h = Ok (COMETD_SUCCESS,
    accepted_attempt E (first_named h name (transports (config h))) cid adv
      (before_attempt E (linear_delay (config h)) k h))"
proof -
  let ?d = "linear_delay (config h)"
  let ?h = "attempts E ?d k h" and ?b = "before_attempt E ?d k h"
  let ?t = "first_named h name (transports (config h))"
  let ?h' = "accepted_attempt E ?t cid adv ?b"
  obtain n where n: "fuel = Suc (Suc n) + k" using assms(13) by (auto dest: le_Suc_ex)
  have same: "config ?b = config h" "exts ?b = exts h" "conn ?b = conn ?h"
    "transport_heap ?b = transport_heap h" "can_handshake E ?b" "handshake_dispatched ?b"
    using assms(1,7) by (simp_all add: before_attempt_def handshake_dispatched_def)
  have run: "cometd_handshake E fuel h = cometd_handshake_loop E (Suc (Suc n)) (word_of_int (1 + int k)) (?d k)
        (if k = 0 then ECOMETD_UNKNOWN else ECOMETD_SEND) ?h"
    unfolding n by (rule handshake_refused_run [OF assms(1-4,8,5,6,9)])
  have should: "cometd_should_handshake ?h" using should_handshake_cong [of ?h h] assms(2) by simp
  have wait: "cometd_loop_wait E (?d k) ?h = Ok ?b"
    using assms(1) linear_delay_wait [OF assms(4), of k] assms(8)
    by (simp add: loop_wait_slept before_attempt_def can_handshake_def)
  have first: "first_named ?b n ts = first_named h n ts" for n ts
    by (rule first_named_heap_cong) (simp add: same)
  have seed: "in_long (msg_id_seed (conn ?b) + 1)"
    using assms(5,6,8) attempts_allowed_small(2) [OF assms(4)] by (simp add: same in_long_def)
  have accept: "cometd_impl_handshake E hs ?b = Ok (COMETD_SUCCESS, ?h')" for hs
    using impl_handshake_accepted [OF same(5) seed same(6) assms(10,11), of name] assms(12)
    by (simp add: first same(1))
  have "uint (word_of_int (1 + int k) :: 32 word) = 1 + int k"
    using attempts_allowed_small(2) [OF assms(4)] assms(8) by (intro uint_small) auto
  moreover obtain b where "cometd_get_backoff ?h' (1 + int k) = Ok b"
    using get_backoff_configured [of ?h' k] assms(4,8) by (auto simp: accepted_attempt_def same(1))
  moreover have "\<not> cometd_should_handshake ?h'"
    by (simp add: accepted_attempt_def should_handshake_states)
  ultimately show ?thesis using run should wait accept by simp
qed

definition flaky_env :: "http_request list env" where
  "flaky_env = (example_env (example_json_lib (Some (JArray [JObject
       [(''channel'', JString ''/meta/handshake''), (''successful'', JBool True),
        (''clientId'', JString ''abc''), (''supportedConnectionTypes'', JArray [JString ''long-polling''])]])))
     (answer_with [(''{}'', True)] 200))
     \<lparr>curl_post := (\<lambda>r w. (answer_with [(''{}'', True)] (if length w < 2 then 503 else 200), w @ [r]))\<rparr>"

definition flaky_reply :: json_object where
  "flaky_reply = [(''channel'', JString ''/meta/handshake''), (''successful'', JBool True),
     (''clientId'', JString ''abc''), (''supportedConnectionTypes'', JArray [JString ''long-polling''])]"

lemma flaky_env_defs:
  "sub_malloc_ok flaky_env 0" "sub_malloc_ok flaky_env 1"
  "serialises flaky_env"
  "handshake_reply flaky_env flaky_reply [''long-polling''] ''abc'' None"
  by (simp_all add: flaky_env_def example_defs serialises_def cometd_json_node2str_def handshake_reply_def flaky_reply_def
      cometd_msg_supported_connection_types_def json_node_dup_string_def cometd_msg_advice_def
      json_object_has_member_def)

lemma flaky_world:
  "length (world (attempts flaky_env d k h)) = length (world h) + k"
  by (induction k) (simp_all add: flaky_env_def refused_attempt_def slept_def answer_to_handshake_def post_answer_def example_env_def)

lemma handshake_recovers_witness:
  "\<exists>h. cometd_handshake flaky_env 4 (cometd_new flaky_env None []) = Ok (COMETD_SUCCESS, h) \<and>
     conn_state (conn h) = COMETD_HANDSHAKE_SUCCESS \<and> client_id (conn h) = Some ''abc''"
proof -
  let ?h = "cometd_new flaky_env None []"
  let ?d = "linear_delay (config ?h)"
  note new = new_can_handshake [OF flaky_env_defs(1-3), of None "[]"]
  have len: "length (world (before_attempt flaky_env ?d j ?h)) = j" for j
    using flaky_world [of ?d j ?h]
    by (simp add: before_attempt_def slept_def flaky_env_def example_env_def cometd_new_eq)
  have refuse: "\<forall>j<2. refused (fst (answer_to_handshake flaky_env (before_attempt flaky_env ?d j ?h)))"
    using len by (simp add: answer_to_handshake_def post_answer_def flaky_env_def refused_def answer_with_def)
  have answers: "carries flaky_env (fst (answer_to_handshake flaky_env (before_attempt flaky_env ?d 2 ?h))) flaky_reply"
    using len [of 2] by (simp add: carries_def answer_to_handshake_def post_answer_def flaky_env_def transfer_ok_def
        example_defs Let_def cometd_json_node2str_def json_text_ok_def flaky_reply_def)
  have "cometd_handshake flaky_env 4 ?h = Ok (COMETD_SUCCESS,
      accepted_attempt flaky_env (first_named ?h ''long-polling'' (transports (config ?h))) ''abc'' None
        (before_attempt flaky_env ?d 2 ?h))"
    by (rule handshake_recovers [OF new(1-4) _ _ new(7) _ refuse answers flaky_env_defs(4)])
      (simp_all add: new)
  then show ?thesis by (simp add: accepted_attempt_def)
qed

text \<open>
  Advice to handshake with an interval of at least one millisecond has no such end:
  while the POSTs are refused the client tries again for ever, whatever the configured
  maximum, so that no fuel (up to the 2^32 attempts the counter can number) is enough.
\<close>

theorem advised_handshake_never_gives_up:
  assumes "can_handshake E h" and "conn_state (conn h) = COMETD_UNCONNECTED"
    and "advice (conn h) = Some \<lparr>reconnect = COMETD_RECONNECT_HANDSHAKE, interval = i\<rparr>"
    and "1 \<le> i" and "in_long (i * 1000)"
    and "0 \<le> msg_id_seed (conn h)" and "msg_id_seed (conn h) < 2 ^ 62"
    and "\<forall>j<fuel. refused (fst (answer_to_handshake E
      (before_attempt E (\<lambda>k. if k = 0 then 0 else i) j h)))"
    and "fuel < 2 ^ 32 - 1"
  shows "cometd_handshake E fuel h = Fault Out_of_fuel"
proof -
  let ?d = "\<lambda>k :: nat. if k = 0 then 0 else i"
  have should: "cometd_should_handshake h"
    using assms(2,3) by (simp add: should_handshake_states)
  have backoff: "cometd_get_backoff h (1 + int j) = Ok i" for j
    using assms(3,4) by (simp add: cometd_get_backoff_def cometd_impl_should_backoff_def)
  have "cometd_handshake_loop E (0 + fuel) 1 0 ECOMETD_UNKNOWN h =
    cometd_handshake_loop E 0 (word_of_int (1 + int fuel)) (?d fuel)
      (if fuel = 0 then ECOMETD_UNKNOWN else ECOMETD_SEND) (attempts E ?d fuel h)"
  proof (rule handshake_loop_refusals [OF assms(1) should assms(6)])
    show "in_long (msg_id_seed (conn h) + int fuel)" using assms(6,7,9) by (simp add: in_long_def)
    show "\<forall>j<fuel. in_long (?d j * 1000)" using assms(5) by (simp add: in_long_def)
    show "\<forall>j<fuel. cometd_get_backoff h (1 + int j) = Ok (?d (Suc j)) \<and> ?d (Suc j) \<noteq> -1"
      using backoff assms(4) by simp
  qed (use assms(8,9) in simp_all)
  then show ?thesis by (simp add: cometd_handshake_def)
qed

lemma advised_handshake_never_gives_up_witness:
  "cometd_handshake down_env 1000000 ((cometd_new down_env None [])\<lparr>conn :=
     \<lparr>conn_state = COMETD_UNCONNECTED, msg_id_seed = 7, client_id = None, transport = None,
      advice = Some \<lparr>reconnect = COMETD_RECONNECT_HANDSHAKE, interval = 100\<rparr>\<rparr>\<rparr>) = Fault Out_of_fuel"
proof -
  have 1: "sub_malloc_ok down_env 0" "sub_malloc_ok down_env 1"
    "serialises down_env"
    by (simp_all add: down_env_def example_defs serialises_def cometd_json_node2str_def)
  have "can_handshake down_env ((cometd_new down_env None [])\<lparr>conn := c\<rparr>)" for c
    using new_can_handshake(1) [OF 1, of None "[]"] by (simp add: can_handshake_def registry_wf_def)
  moreover have "refused (fst (answer_to_handshake down_env h))" for h
    by (simp add: answer_to_handshake_def post_answer_def down_env_def example_defs refused_def)
  ultimately show ?thesis
    by (intro advised_handshake_never_gives_up [where i = 100]) (simp_all add: in_long_def)
qed

end
