(* ===== verification/Polling.thy ===== *)
theory Polling
  imports Client Retry
begin

text \<open>
  The two threads: when the listening thread returns, and how the loop thread polls a
  server that does not answer.
\<close>

section \<open>The listening thread\<close>





section \<open>One poll that fails\<close>

text \<open>The client polls over long polling, and connect replies go to the library's handler alone.\<close>

definition can_poll :: "'w env \<Rightarrow> 'w cometd \<Rightarrow> bool" where
  "can_poll E h \<longleftrightarrow> exts h = [] \<and> loop_wait (loop h) = Some Gthread \<and> serialises E \<and>
     (\<exists>a tr. transport (conn h) = Some a \<and> transport_heap h a = Some tr \<and>
        tr_recv tr = Some Long_polling_recv) \<and>
     (\<exists>a s. cometd_listener_get (subscriptions h) (Some ''/meta/connect'') = Ok [a] \<and>
        sub_heap (subscriptions h) a = Some s \<and> sub_callback s = Cometd_process_connect)"

definition connect_members :: "'w env \<Rightarrow> 'w cometd \<Rightarrow> int \<Rightarrow> json_object" where
  "connect_members E h seed =
     [(''id'', JInt seed), (''channel'', JString ''/meta/connect''),
      (''connectionType'', JString (tr_name (the (transport_heap h (the (transport (conn h))))))),
      (''clientId'', json_string_node (json_lib E) (client_id (conn h)))]"

definition next_connect :: "'w env \<Rightarrow> 'w cometd \<Rightarrow> json" where
  "next_connect E h = JObject (connect_members E h (msg_id_seed (conn h) + 1))"

definition answer_to_connect :: "'w env \<Rightarrow> 'w cometd \<Rightarrow> curl_result \<times> 'w" where
  "answer_to_connect E h = post_answer E h (next_connect E h)"

text \<open>A failed poll uses two ids: for the message sent, and for the one made up in its place.\<close>

definition failed_poll :: "'w env \<Rightarrow> 'w cometd \<Rightarrow> 'w cometd" where
  "failed_poll E h = h\<lparr>conn := (conn h)\<lparr>msg_id_seed := msg_id_seed (conn h) + 2,
     conn_state := COMETD_UNCONNECTED\<rparr>, world := snd (answer_to_connect E h)\<rparr>"

lemma connect_new_Ok:
  assumes "transport (conn h) = Some a" and "transport_heap h a = Some tr" and "in_long (msg_id_seed (conn h) + 1)"
  shows "cometd_msg_connect_new E h = Ok (next_connect E h,
    h\<lparr>conn := (conn h)\<lparr>msg_id_seed := msg_id_seed (conn h) + 1\<rparr>\<rparr>)"
  using assms
  by (simp add: cometd_msg_connect_new_def take_msg_id_def next_msg_id_def long_result_def heap_simps
      cometd_current_transport_def next_connect_def connect_members_def set_members_def
      json_object_set_member_def COMETD_CHANNEL_META_CONNECT_def cometd_conn_client_id_def)

lemma recv_refused:
  assumes "can_poll E h" and "in_long (msg_id_seed (conn h) + 1)" and "in_long (msg_id_seed (conn h) + 2)"
    and "refused (fst (answer_to_connect E h))"
  shows "cometd_recv E h = Ok (Some (JArray [JObject (connect_members E h (msg_id_seed (conn h) + 2) @
      [(''successful'', JBool False)])]),
    h\<lparr>conn := (conn h)\<lparr>msg_id_seed := msg_id_seed (conn h) + 2\<rparr>, world := snd (answer_to_connect E h)\<rparr>)"
proof -
  obtain a tr where tr: "transport (conn h) = Some a" "transport_heap h a = Some tr" "tr_recv tr = Some Long_polling_recv"
    using assms(1) by (auto simp: can_poll_def)
  let ?h = "h\<lparr>conn := (conn h)\<lparr>msg_id_seed := msg_id_seed (conn h) + 1\<rparr>\<rparr>"
  let ?w = "?h\<lparr>world := snd (answer_to_connect E h)\<rparr>"
  have new: "cometd_msg_connect_new E h = Ok (next_connect E h, ?h)"
    using connect_new_Ok [OF tr(1,2) assms(2)] .
  have "long_polling_send_impl E (Some (JArray [next_connect E h])) ?h = Ok (None, ?w)"
    using long_polling_refused [of E ?h "next_connect E h"] assms(1,4)
    by (simp add: can_poll_def answer_to_connect_def cometd_transport_long_polling_send_def)
  then have recv: "call_recv E tr h = Ok (None, ?w)"
    using tr(3) new by (simp add: call_recv_def cometd_transport_long_polling_recv_def cometd_msg_wrap_def)
  have "cometd_msg_connect_new E ?w = Ok (next_connect E ?w,
      ?w\<lparr>conn := (conn ?w)\<lparr>msg_id_seed := msg_id_seed (conn ?w) + 1\<rparr>\<rparr>)"
    using tr(1,2) assms(3) by (intro connect_new_Ok) (simp_all add: add.assoc)
  moreover have "next_connect E ?w = JObject (connect_members E h (msg_id_seed (conn h) + 2))"
    by (simp add: next_connect_def connect_members_def)
  ultimately have "cometd_msg_bad_connect_new E ?w = Ok (JObject (connect_members E h (msg_id_seed (conn h) + 2) @
      [(''successful'', JBool False)]),
      h\<lparr>conn := (conn h)\<lparr>msg_id_seed := msg_id_seed (conn h) + 2\<rparr>, world := snd (answer_to_connect E h)\<rparr>)"
    by (simp add: cometd_msg_bad_connect_new_def cometd_msg_set_boolean_member_def connect_members_def
        json_object_set_member_def)
  then show ?thesis
    using tr recv by (simp add: cometd_recv_def cometd_current_transport_def heap_simps cometd_msg_wrap_def)
qed

lemma extract_single_connect:
  "map_of obj ''channel'' = Some (JString ''/meta/connect'') \<Longrightarrow>
    cometd_msg_extract_connect G (Some (JArray [JObject obj])) = Ok (Some (JObject obj), Some (JArray []))"
  by (simp add: cometd_msg_extract_connect_def COMETD_CHANNEL_META_CONNECT_def)

lemma process_bad_connect:
  assumes "can_poll E h" and "conn_state (conn h) \<in> conn_states - {COMETD_DISCONNECTED}"
    and "map_of obj ''channel'' = Some (JString ''/meta/connect'')"
    and "map_of obj ''successful'' = Some (JBool False)" and "map_of obj ''advice'' = None"
  shows "cometd_process_msg E hs (Some (JObject obj)) h =
    Ok (COMETD_SUCCESS, Some (JObject obj), h\<lparr>conn := (conn h)\<lparr>conn_state := COMETD_UNCONNECTED\<rparr>\<rparr>)"
proof -
  obtain a s where a: "cometd_listener_get (subscriptions h) (Some ''/meta/connect'') = Ok [a]"
    "sub_heap (subscriptions h) a = Some s" "sub_callback s = Cometd_process_connect"
    using assms(1) by (auto simp: can_poll_def)
  have "cometd_msg_advice (json_lib E) (Some (JObject obj)) = Ok None"
    using assms(5) by (simp add: cometd_msg_advice_def json_object_has_member_def)
  moreover have "\<not> cometd_msg_is_successful (json_lib E) (Some (JObject obj))"
    using json_object_get_boolean_JBool [OF assms(4)] by (simp add: cometd_msg_is_successful_def json_object_has_member_def)
  moreover have "h\<lparr>conn := (conn h)\<lparr>advice := advice (conn h), conn_state := s\<rparr>\<rparr> =
      h\<lparr>conn := (conn h)\<lparr>conn_state := s\<rparr>\<rparr>" for s by simp
  ultimately have "cometd_process_connect E hs (Some (JObject obj)) h =
      Ok (COMETD_SUCCESS, h\<lparr>conn := (conn h)\<lparr>conn_state := COMETD_UNCONNECTED\<rparr>\<rparr>)"
    using process_connect_live [OF assms(2)] by (simp add: advises_handshake_def)
  then show ?thesis
    using a assms(1,3)
    by (simp add: cometd_process_msg_def cometd_listener_fire_def can_poll_def heap_simps)
qed

section \<open>Runs of failed polls\<close>

text \<open>Before poll \<open>k\<close> (counted from 0) the thread waits this long: twice not at all.\<close>

definition poll_delay :: "cometd_config \<Rightarrow> nat \<Rightarrow> int" where
  "poll_delay c k = linear_delay c (k - 1)"

primrec polls :: "'w env \<Rightarrow> nat \<Rightarrow> 'w cometd \<Rightarrow> 'w cometd" where
  "polls E 0 h = h"
| "polls E (Suc k) h = failed_poll E (slept E (poll_delay (config h) k) (polls E k h))"

definition polling :: "cometd_conn \<Rightarrow> bool" where
  "polling c \<longleftrightarrow> conn_state c \<in> {COMETD_CONNECTED, COMETD_HANDSHAKE_SUCCESS, COMETD_UNCONNECTED} \<and>
     advice c = Some \<lparr>reconnect = COMETD_RECONNECT_RETRY, interval = 0\<rparr>"

lemma failed_poll_simps [simp]:
  "conn (failed_poll E h) = (conn h)\<lparr>msg_id_seed := msg_id_seed (conn h) + 2, conn_state := COMETD_UNCONNECTED\<rparr>"
  "config (failed_poll E h) = config h" "exts (failed_poll E h) = exts h"
  "loop (failed_poll E h) = loop h" "transport_heap (failed_poll E h) = transport_heap h"
  "subscriptions (failed_poll E h) = subscriptions h" "inbox (failed_poll E h) = inbox h"
  by (simp_all add: failed_poll_def)

lemma polls_simps [simp]:
  "config (polls E k h) = config h" "exts (polls E k h) = exts h" "loop (polls E k h) = loop h"
  "transport_heap (polls E k h) = transport_heap h" "subscriptions (polls E k h) = subscriptions h"
  "transport (conn (polls E k h)) = transport (conn h)"
  "msg_id_seed (conn (polls E k h)) = msg_id_seed (conn h) + 2 * int k"
  "advice (conn (polls E k h)) = advice (conn h)"
  "inbox (polls E k h) = inbox h"
  by (induction k) (auto simp: slept_def)

lemma polls_polling [simp]: "polling (conn h) \<Longrightarrow> polling (conn (polls E k h))"
  by (cases k) (simp_all add: polling_def)

lemma can_poll_cong [simp]:
  "can_poll E (slept E m h) = can_poll E h" "can_poll E (polls E k h) = can_poll E h"
  by (simp_all add: can_poll_def)

lemma polling_state: "polling c \<Longrightarrow> conn_state c \<in> conn_states - {COMETD_DISCONNECTED}"
  by (auto simp: polling_def)

lemma get_backoff_polling:
  assumes "polling (conn h)" and "backoff_configured (config h)" and "k \<le> attempts_allowed (config h)"
  shows "cometd_get_backoff h (1 + int k) =
    Ok (if k < attempts_allowed (config h) then linear_delay (config h) k else -1)"
proof -
  have inc: "0 < backoff_increment (config h)" using assms(2) by (simp add: backoff_configured_def)
  have "in_long ((1 + int k - 1) * backoff_increment (config h))"
    using linear_delay_small [OF assms(2,3)] by (simp add: linear_delay_def in_long_def)
  then have "cometd_get_backoff h (1 + int k) = Ok (if 1 + int k > 1
      then scheduled_delay (config h) (1 + int k - 1) else 0)"
    using get_backoff_advised [of h _ "1 + int k"] assms(1) inc by (simp add: polling_def)
  then show ?thesis
    using below_attempts_allowed [OF assms(2), of k] attempts_allowed_pos [OF assms(2)]
    by (simp add: scheduled_delay_def linear_delay_def)
qed

text \<open>One round of the thread whose poll brings nothing but a connect message, and fails.\<close>

lemma gthread_retry_round:
  assumes "cometd_should_recv h" and "cometd_loop_wait E backoff h = Ok s"
    and "cometd_recv E s = Ok (payload, w)"
    and "cometd_msg_extract_connect (json_lib E) payload = Ok (connect, Some (JArray []))"
    and "cometd_process_msg E (cometd_handshake E fuel) connect w = Ok (ret, m, h')"
    and "cometd_should_retry_recv h'"
  shows "gthread_loop E fuel (id # sched) attempt backoff h =
    obind (cometd_get_backoff h' (uint attempt)) (\<lambda>b.
      if b = -1 then Ok h' else gthread_loop E fuel sched (attempt + 1) b h')"
proof -
  have "w\<lparr>inbox := inbox w\<rparr> = w" by simp
  then show ?thesis using assms by (simp add: obind_assoc)
qed

lemma gthread_round:
  assumes "can_poll E h" and "polling (conn h)" and "0 \<le> msg_id_seed (conn h)" and "msg_id_seed (conn h) < 2 ^ 62"
    and "k < 2 ^ 32" and "in_long (poll_delay (config h) k * 1000)"
    and "refused (fst (answer_to_connect E (slept E (poll_delay (config h) k) (polls E k h))))"
  shows "gthread_loop E fuel (id # sched) attempt (poll_delay (config h) k) (polls E k h) =
    obind (cometd_get_backoff h (uint attempt)) (\<lambda>b.
      if b = -1 then Ok (polls E (Suc k) h)
      else gthread_loop E fuel sched (attempt + 1) b (polls E (Suc k) h))"
proof -
  let ?h = "polls E k h" and ?s = "slept E (poll_delay (config h) k) (polls E k h)"
  let ?obj = "connect_members E ?s (msg_id_seed (conn ?s) + 2) @ [(''successful'', JBool False)]"
  let ?w = "?s\<lparr>conn := (conn ?s)\<lparr>msg_id_seed := msg_id_seed (conn ?s) + 2\<rparr>, world := snd (answer_to_connect E ?s)\<rparr>"
  have should: "cometd_should_recv ?h"
    using polls_polling [OF assms(2), of E k] by (auto simp: should_recv_iff polling_def)
  have wait: "cometd_loop_wait E (poll_delay (config h) k) ?h = Ok ?s"
    using assms(1,6) by (simp add: loop_wait_slept can_poll_def)
  have recv: "cometd_recv E ?s = Ok (Some (JArray [JObject ?obj]), ?w)"
    using assms(1,3-5,7) by (intro recv_refused) (auto simp: in_long_def)
  have obj: "map_of ?obj ''channel'' = Some (JString ''/meta/connect'')"
    "map_of ?obj ''successful'' = Some (JBool False)" "map_of ?obj ''advice'' = None"
    by (simp_all add: connect_members_def)
  have "can_poll E ?w" using assms(1) by (simp add: can_poll_def)
  then have process: "cometd_process_msg E (cometd_handshake E fuel) (Some (JObject ?obj)) ?w =
      Ok (COMETD_SUCCESS, Some (JObject ?obj), ?w\<lparr>conn := (conn ?w)\<lparr>conn_state := COMETD_UNCONNECTED\<rparr>\<rparr>)"
    using polling_state [OF polls_polling [OF assms(2)], of E k] by (intro process_bad_connect obj) simp_all
  have result: "?w\<lparr>conn := (conn ?w)\<lparr>conn_state := COMETD_UNCONNECTED\<rparr>\<rparr> = polls E (Suc k) h"
    by (simp add: failed_poll_def)
  have retry: "cometd_should_retry_recv (polls E (Suc k) h)"
    using assms(2) by (simp add: should_retry_recv_iff polling_def)
  have backoff: "cometd_get_backoff (polls E (Suc k) h) (uint attempt) = cometd_get_backoff h (uint attempt)"
    by (rule get_backoff_cong) (simp_all del: polls.simps)
  show ?thesis
    using gthread_retry_round [OF should wait recv extract_single_connect [OF obj(1)] process, unfolded result, OF retry]
    by (simp only: backoff)
qed

lemma gthread_rounds:
  assumes "can_poll E h" and "polling (conn h)" and "0 \<le> msg_id_seed (conn h)" and "msg_id_seed (conn h) < 2 ^ 62"
    and "backoff_configured (config h)" and "k \<le> attempts_allowed (config h)"
    and "\<forall>j<k. refused (fst (answer_to_connect E (slept E (poll_delay (config h) j) (polls E j h))))"
  shows "gthread_loop E fuel (replicate k id @ sched) 1 0 h =
    gthread_loop E fuel sched (word_of_int (1 + int k)) (poll_delay (config h) k) (polls E k h)"
  using assms(6,7)
proof (induction k arbitrary: sched)
  case 0
  then show ?case by (simp add: poll_delay_def linear_delay_def)
next
  case (Suc k)
  have small: "k < attempts_allowed (config h)" "attempts_allowed (config h) < 2 ^ 32"
    using Suc.prems(1) attempts_allowed_small(2) [OF assms(5)] by auto
  have "gthread_loop E fuel (replicate (Suc k) id @ sched) 1 0 h =
      gthread_loop E fuel (replicate k id @ id # sched) 1 0 h"
    by (simp add: replicate_app_Cons_same)
  also have "\<dots> = gthread_loop E fuel (id # sched) (word_of_int (1 + int k)) (poll_delay (config h) k) (polls E k h)"
    using Suc.prems by (intro Suc.IH) auto
  also have "\<dots> = obind (cometd_get_backoff h (uint (word_of_int (1 + int k) :: 32 word))) (\<lambda>b.
      if b = -1 then Ok (polls E (Suc k) h)
      else gthread_loop E fuel sched (word_of_int (1 + int k) + 1) b (polls E (Suc k) h))"
    using Suc.prems small linear_delay_wait [OF assms(5), of "k - 1"]
    by (intro gthread_round assms(1-4)) (auto simp: poll_delay_def)
  also have "uint (word_of_int (1 + int k) :: 32 word) = 1 + int k"
    using small by (intro uint_small) auto
  also have "cometd_get_backoff h (1 + int k) = Ok (linear_delay (config h) k)"
    using get_backoff_polling [OF assms(2,5), of k] small by simp
  also have "(word_of_int (1 + int k) + 1 :: 32 word) = word_of_int (1 + int (Suc k))"
    by (simp add: wi_hom_syms algebra_simps)
  finally show ?case
    using linear_delay_small(1) [OF assms(5), of k] small by (simp add: poll_delay_def del: polls.simps)
qed

lemma gthread_gives_up:
  assumes "can_poll E h" and "polling (conn h)" and "0 \<le> msg_id_seed (conn h)" and "msg_id_seed (conn h) < 2 ^ 62"
    and "backoff_configured (config h)"
    and "\<forall>j\<le>attempts_allowed (config h).
      refused (fst (answer_to_connect E (slept E (poll_delay (config h) j) (polls E j h))))"
  shows "gthread_loop E fuel (replicate (attempts_allowed (config h)) id @ id # sched) 1 0 h =
    Ok (polls E (Suc (attempts_allowed (config h))) h)"
proof -
  let ?n = "attempts_allowed (config h)"
  have small: "?n < 2 ^ 32" using attempts_allowed_small(2) [OF assms(5)] .
  have "gthread_loop E fuel (replicate ?n id @ id # sched) 1 0 h =
      gthread_loop E fuel (id # sched) (word_of_int (1 + int ?n)) (poll_delay (config h) ?n) (polls E ?n h)"
    using assms by (intro gthread_rounds) auto
  also have "\<dots> = obind (cometd_get_backoff h (uint (word_of_int (1 + int ?n) :: 32 word))) (\<lambda>b.
      if b = -1 then Ok (polls E (Suc ?n) h)
      else gthread_loop E fuel sched (word_of_int (1 + int ?n) + 1) b (polls E (Suc ?n) h))"
    using assms(6) small linear_delay_wait [OF assms(5), of "?n - 1"]
    by (intro gthread_round assms(1-4)) (auto simp: poll_delay_def)
  also have "uint (word_of_int (1 + int ?n) :: 32 word) = 1 + int ?n"
    using attempts_allowed_small(3) [OF assms(5)] by (intro uint_small) auto
  also have "cometd_get_backoff h (1 + int ?n) = Ok (-1)"
    using get_backoff_polling [OF assms(2,5), of ?n] by simp
  finally show ?thesis by (simp only: obind.simps if_True simp_thms)
qed

section \<open>Properties\<close>




text \<open>
  C40. A loop thread that the server has told to retry at once, and whose polls are all
  refused from then on, gives up by itself: after one poll more than the attempts allowed,
  with waits of 0, 0, 1, 2, ... increments before them, it ends with the connection
  DISCONNECTED and the inbox as it was.
\<close>

theorem polling_gives_up:
  assumes "can_poll E h" and "polling (conn h)" and "0 \<le> msg_id_seed (conn h)" and "msg_id_seed (conn h) < 2 ^ 62"
    and "backoff_configured (config h)"
    and "\<forall>j\<le>attempts_allowed (config h).
      refused (fst (answer_to_connect E (slept E (poll_delay (config h) j) (polls E j h))))"
    and "attempts_allowed (config h) < rounds"
  shows "\<exists>h'. cometd_loop_gthread_run E fuel (replicate rounds id) h = Ok h' \<and>
    h' = (polls E (Suc (attempts_allowed (config h))) h)
      \<lparr>conn := cometd_conn_set_state COMETD_DISCONNECTED (conn (polls E (Suc (attempts_allowed (config h))) h))\<rparr> \<and>
    conn_state (conn h') = COMETD_DISCONNECTED \<and> inbox h' = inbox h"
proof -
  let ?n = "attempts_allowed (config h)"
  obtain r where "rounds = Suc ?n + r" using assms(7) by (auto simp: less_iff_Suc_add)
  then have "replicate rounds (id :: 'a cometd \<Rightarrow> 'a cometd) = replicate ?n id @ id # replicate r id"
    by (simp add: replicate_add replicate_app_Cons_same)
  then show ?thesis
    using gthread_gives_up [OF assms(1-6), of fuel "replicate r id"]
    by (simp add: cometd_loop_gthread_run_def cometd_conn_set_state_def del: polls.simps)
qed

definition polling_client :: "http_request list env \<Rightarrow> http_request list cometd" where
  "polling_client E = (example_client E)\<lparr>conn := \<lparr>conn_state = COMETD_CONNECTED, msg_id_seed = 1,
     client_id = Some ''abc'', transport = Some 0,
     advice = Some \<lparr>reconnect = COMETD_RECONNECT_RETRY, interval = 0\<rparr>\<rparr>\<rparr>"

lemma polling_gives_up_witness:
  "\<exists>h'. cometd_loop_gthread_run (ack_env ''/ack'' True 503) 1 (replicate 31 id)
     (polling_client (ack_env ''/ack'' True 503)) = Ok h' \<and> conn_state (conn h') = COMETD_DISCONNECTED"
proof -
  let ?E = "ack_env ''/ack'' True 503"
  let ?h = "polling_client ?E"
  note new = cometd_new_eq [OF ack_env_malloc ack_env_malloc]
  have "cometd_listener_get client_listeners (Some ''/meta/connect'') = Ok [1]"
    by (simp add: listener_get_concat message_channel_not_wildcard message_channel_meta matches_meta
        client_listeners_eq table_lookup_def)
  moreover have "sub_heap client_listeners 1 =
      Some \<lparr>sub_channel = ''/meta/connect'', sub_callback = Cometd_process_connect\<rparr>"
    by (simp add: client_listeners_eq initial_listeners_def)
  ultimately have poll: "can_poll ?E ?h"
    by (simp add: can_poll_def polling_client_def example_client_eq new COMETD_TRANSPORT_LONG_POLLING_def
        cometd_loop_gthread_new_def)
  have h: "polling (conn ?h)" "0 \<le> msg_id_seed (conn ?h)" "msg_id_seed (conn ?h) < 2 ^ 62"
    "backoff_configured (config ?h)" "attempts_allowed (config ?h) = 30"
    by (simp_all add: polling_client_def example_client_eq new polling_def backoff_configured_def attempts_allowed_def)
  have refuse: "refused (fst (answer_to_connect ?E k))" for k
    by (simp add: answer_to_connect_def ack_env_refused)
  from polling_gives_up [OF poll h(1-4), of 31 1] refuse h(5) show ?thesis by auto
qed

section \<open>A connect message in answer to a handshake\<close>

lemma impl_handshake_connect_reply:
  assumes "can_handshake E h" and "in_long (msg_id_seed (conn h) + 1)"
    and "transport (conn h) = None" and "conn_state (conn h) \<in> conn_states - {COMETD_DISCONNECTED}"
    and "cometd_listener_get (subscriptions h) (Some ''/meta/connect'') = Ok [a]"
    and "sub_heap (subscriptions h) a = Some s" and "sub_callback s = Cometd_process_connect"
    and "carries E (fst (answer_to_handshake E h)) obj"
    and "map_of obj ''channel'' = Some (JString ''/meta/connect'')"
    and "map_of obj ''successful'' = Some (JBool True)" and "map_of obj ''advice'' = None"
  shows "cometd_impl_handshake E hs h = Ok (ECOMETD_NO_TRANSPORT,
    h\<lparr>conn := (conn h)\<lparr>msg_id_seed := msg_id_seed (conn h) + 1, conn_state := COMETD_CONNECTED\<rparr>,
      world := snd (answer_to_handshake E h)\<rparr>)"
proof -
  let ?h = "h\<lparr>conn := (conn h)\<lparr>msg_id_seed := msg_id_seed (conn h) + 1\<rparr>\<rparr>"
  let ?w = "?h\<lparr>world := snd (answer_to_handshake E h)\<rparr>"
  let ?fin = "h\<lparr>conn := (conn h)\<lparr>msg_id_seed := msg_id_seed (conn h) + 1, conn_state := COMETD_CONNECTED\<rparr>,
      world := snd (answer_to_handshake E h)\<rparr>"
  have post: "http_post_msg E (Some (JArray [next_handshake h])) ?h = Ok (Some (JArray [JObject obj]), ?w)"
    using post_msg_carries [of E ?h "next_handshake h" obj] assms(1,8)
    by (simp add: can_handshake_def answer_to_handshake_def)
  have good: "cometd_msg_is_successful (json_lib E) (Some (JObject obj))"
    using json_object_get_boolean_JBool [OF assms(10)] assms(10)
    by (simp add: cometd_msg_is_successful_def json_object_has_member_def)
  have "cometd_msg_advice (json_lib E) (Some (JObject obj)) = Ok None"
    using assms(11) by (simp add: cometd_msg_advice_def json_object_has_member_def)
  then have "cometd_process_connect E hs (Some (JObject obj)) ?w = Ok (COMETD_SUCCESS, ?fin)"
    using good assms(4) by (simp add: cometd_process_connect_def disconnect_states_iff cometd_conn_set_state_def)
  then have "finish_send E hs (Some (JArray [JObject obj]), ?w) = Ok (COMETD_SUCCESS, ?fin)"
    using assms(1,5-7,9,10)
    by (simp add: finish_send_def cometd_impl_process_sync_def cometd_process_msg_def cometd_listener_fire_def
        can_handshake_def heap_simps cometd_msg_is_successful_def json_object_has_member_def)
  then show ?thesis
    using assms(1-3) new_handshake_message_Ok [of h] post
    by (simp add: cometd_impl_handshake_def can_handshake_def send_msg_sync_no_exts next_handshake_def
        cometd_current_transport_def)
qed

text \<open>
  C34. A server can strand the client: when it answers the handshake by a successful connect
  message, the client is CONNECTED without a transport. Connecting fails with
  ECOMETD_NO_TRANSPORT after that one POST, although attempts are left, and from then on
  connecting and publishing fail with ECOMETD_UNKNOWN without contacting the server.
\<close>

theorem connect_reply_strands_client:
  assumes "can_handshake E h" and "cometd_should_handshake h" and "advice (conn h) = None"
    and "backoff_configured (config h)" and "0 \<le> msg_id_seed (conn h)" and "msg_id_seed (conn h) < 2 ^ 62"
    and "transport (conn h) = None" and "conn_state (conn h) \<in> conn_states - {COMETD_DISCONNECTED}"
    and "cometd_listener_get (subscriptions h) (Some ''/meta/connect'') = Ok [a]"
    and "sub_heap (subscriptions h) a = Some s" and "sub_callback s = Cometd_process_connect"
    and "carries E (fst (answer_to_handshake E h)) obj"
    and "map_of obj ''channel'' = Some (JString ''/meta/connect'')"
    and "map_of obj ''successful'' = Some (JBool True)" and "map_of obj ''advice'' = None"
    and "2 \<le> fuel"
  shows "\<exists>h'. cometd_connect E fuel h = Ok (ECOMETD_NO_TRANSPORT, h') \<and>
    conn_state (conn h') = COMETD_CONNECTED \<and> transport (conn h') = None \<and>
    (\<forall>n. cometd_connect E (Suc n) h' = Ok (ECOMETD_UNKNOWN, h')) \<and>
    (\<forall>n c data. cometd_publish E n c data h' = Ok (ECOMETD_UNKNOWN, with_next_id h'))"
proof -
  let ?h = "h\<lparr>conn := (conn h)\<lparr>msg_id_seed := msg_id_seed (conn h) + 1, conn_state := COMETD_CONNECTED\<rparr>,
      world := snd (answer_to_handshake E h)\<rparr>"
  obtain n where n: "fuel = Suc (Suc n)" using assms(16) by (auto dest: le_Suc_ex)
  have seed: "in_long (msg_id_seed (conn h) + 1)" "ids_left ?h"
    using assms(5,6) by (simp_all add: in_long_def ids_left_def)
  have stuck: "\<not> cometd_should_handshake ?h" by (simp add: should_handshake_states)
  have wait: "cometd_loop_wait E 0 h = Ok h"
    using loop_wait_slept [of h 0 E] assms(1) by (simp add: can_handshake_def in_long_def slept_def)
  obtain b where "cometd_get_backoff ?h 1 = Ok b"
    using get_backoff_configured [of ?h 0] assms(3,4) attempts_allowed_pos [OF assms(4)] by auto
  moreover have "cometd_impl_handshake E hs h = Ok (ECOMETD_NO_TRANSPORT, ?h)" for hs
    using assms(1) seed(1) assms(7-15) by (rule impl_handshake_connect_reply)
  ultimately have "cometd_handshake E fuel h = Ok (ECOMETD_NO_TRANSPORT, ?h)"
    using assms(2) wait stuck by (simp add: cometd_handshake_def n)
  then have "cometd_connect E fuel h = Ok (ECOMETD_NO_TRANSPORT, ?h)"
    by (simp add: cometd_connect_def)
  moreover have "cometd_connect E (Suc k) ?h = Ok (ECOMETD_UNKNOWN, ?h)" for k
    using stuck by (simp add: cometd_connect_def cometd_handshake_def)
  moreover have "cometd_publish E k c data ?h = Ok (ECOMETD_UNKNOWN, with_next_id ?h)" for k c data
    using new_messages(1) [OF seed(2), of E c data] assms(7)
    by (simp add: cometd_publish_def cometd_transport_send_def cometd_current_transport_def)
  ultimately show ?thesis using assms(7) by (intro exI [of _ ?h]) simp
qed

lemma connect_reply_strands_client_witness:
  "\<exists>h'. cometd_connect (ack_env ''/meta/connect'' True 200) 2 (cometd_new (ack_env ''/meta/connect'' True 200) None [])
      = Ok (ECOMETD_NO_TRANSPORT, h') \<and> conn_state (conn h') = COMETD_CONNECTED"
proof -
  let ?E = "ack_env ''/meta/connect'' True 200"
  let ?h = "cometd_new ?E None []"
  note new = new_can_handshake [OF ack_env_malloc ack_env_malloc ack_env_serialises,
      of "''/meta/connect''" True 200 None "[]"]
  have eq: "conn ?h = cometd_conn_new" "subscriptions ?h = initial_listeners"
    by (simp_all add: cometd_new_eq [OF ack_env_malloc ack_env_malloc])
  have answers: "carries ?E (fst (answer_to_handshake ?E ?h))
      [(''channel'', JString ''/meta/connect''), (''successful'', JBool True)]"
    unfolding answer_to_handshake_def ack_env_answer
    by (simp add: carries_def answer_with_def transfer_ok_def ack_env_def example_env_def
        example_json_lib_def cometd_json_node2str_def json_text_ok_def)
  have start: "transport (conn ?h) = None" "conn_state (conn ?h) \<in> conn_states - {COMETD_DISCONNECTED}"
    "0 \<le> msg_id_seed (conn ?h)" "msg_id_seed (conn ?h) < 2 ^ 62"
    "cometd_listener_get (subscriptions ?h) (Some ''/meta/connect'') = Ok [1]"
    "sub_heap (subscriptions ?h) 1 = Some \<lparr>sub_channel = ''/meta/connect'', sub_callback = Cometd_process_connect\<rparr>"
    using initial_listeners_get(2) by (simp_all add: eq cometd_conn_new_def initial_listeners_def)
  show ?thesis
    using connect_reply_strands_client [OF new(1-4) start(3,4,1,2,5,6) _ answers, of 2] by auto
qed

end
