(* ===== verification/Extended.thy ===== *)
theory Extended
  imports Messaging Retry
begin

text \<open>
  A handshake of a client that uses the extensions of the library: what they add to the message
  reaches the server, because the payload holds the object that they change.
\<close>

section \<open>Chains of the library's extensions\<close>

definition yammer_ext :: cometd_ext_t where
  "yammer_ext = cometd_ext_new\<lparr>outgoing := Some Yammer_outgoing\<rparr>"

definition library_exts :: "'w cometd \<Rightarrow> addr list \<Rightarrow> bool" where
  "library_exts h es \<longleftrightarrow> (\<forall>e\<in>set es. ext_heap h e = Some cometd_ext_logger_new \<or> ext_heap h e = Some yammer_ext)"

definition loggers :: "'w cometd \<Rightarrow> addr list \<Rightarrow> addr list" where
  "loggers h es = [e \<leftarrow> es. ext_heap h e = Some cometd_ext_logger_new]"

definition yammers :: "'w cometd \<Rightarrow> addr list \<Rightarrow> addr list" where
  "yammers h es = [e \<leftarrow> es. ext_heap h e = Some yammer_ext]"

text \<open>The authentication, and the handshake message that has it.\<close>

definition authentication :: "'w env \<Rightarrow> 'w cometd \<Rightarrow> json" where
  "authentication E h = JObject
     [(''auth'', JString ''oauth''), (''token'', json_string_node (json_lib E) (g_token h)),
      (''push_message_bodies'', JBool True), (''ack'', JBool False)]"

definition signed_handshake :: "'w env \<Rightarrow> 'w cometd \<Rightarrow> json" where
  "signed_handshake E h = JObject
     [(''id'', JInt (msg_id_seed (conn h) + 1)), (''channel'', JString ''/meta/handshake''),
      (''version'', JString ''1.0''), (''minimumVersion'', JString ''0.9''),
      (''advice'', JObject [(''timeout'', JInt 60000), (''interval'', JInt 0)]),
      (''supportedConnectionTypes'', JArray (map JString (registered_names h))),
      (''ext'', authentication E h)]"

lemma ext_kinds [simp]:
  "outgoing yammer_ext = Some Yammer_outgoing" "incoming yammer_ext = None"
  "outgoing cometd_ext_logger_new = Some Logger_outgoing"
  "incoming cometd_ext_logger_new = Some Logger_incoming"
  "yammer_ext \<noteq> cometd_ext_logger_new" "cometd_ext_logger_new \<noteq> yammer_ext"
  by (simp_all add: yammer_ext_def cometd_ext_new_def cometd_ext_malloc_def cometd_ext_logger_new_def)

lemma set_member_twice [simp]:
  "json_object_set_member (json_object_set_member obj n v) n w = json_object_set_member obj n w"
  unfolding json_object_set_member_def by (induction obj) auto

lemma yammer_outgoing_handshake:
  assumes "map_of obj ''channel'' = Some (JString ''/meta/handshake'')"
  shows "yammer_outgoing E (Some (JObject obj)) h =
    Ok (Some (JObject (json_object_set_member obj ''ext'' (authentication E h))), h)"
  using assms by (simp add: yammer_outgoing_def COMETD_CHANNEL_META_HANDSHAKE_def authentication_def
      set_members_def json_object_set_member_def)

lemma fire_library_outgoing:
  assumes "library_exts h es" and "map_of obj ''channel'' = Some (JString ''/meta/handshake'')"
  shows "\<exists>out. length out = length (loggers h es) \<and>
    cometd_impl_ext_fire E False es (Some (JObject obj)) h = Ok (Some (JObject
      (if yammers h es = [] then obj else json_object_set_member obj ''ext'' (authentication E h))),
      h\<lparr>stdout := stdout h @ out\<rparr>)"
  using assms
proof (induction es arbitrary: obj h)
  case Nil
  then show ?case by (simp add: loggers_def yammers_def)
next
  case (Cons e es)
  have rest: "library_exts h es" using Cons.prems(1) by (simp add: library_exts_def)
  consider "ext_heap h e = Some cometd_ext_logger_new" | "ext_heap h e = Some yammer_ext"
    using Cons.prems(1) by (auto simp: library_exts_def)
  then show ?case
  proof cases
    case 1
    let ?line = "(''outgoing'', cometd_msg_channel (json_lib E) (Some (JObject obj)),
      cometd_json_node2str (json_lib E) (Some (JObject obj)))"
    let ?h = "h\<lparr>stdout := stdout h @ [?line]\<rparr>"
    have same: "loggers ?h es = loggers h es" "yammers ?h es = yammers h es"
      "authentication E ?h = authentication E h" "library_exts ?h es"
      using rest by (simp_all add: loggers_def yammers_def authentication_def library_exts_def)
    obtain out where "length out = length (loggers h es)"
      "cometd_impl_ext_fire E False es (Some (JObject obj)) ?h = Ok (Some (JObject
        (if yammers h es = [] then obj else json_object_set_member obj ''ext'' (authentication E h))),
        ?h\<lparr>stdout := stdout ?h @ out\<rparr>)"
      using Cons.IH [OF same(4) Cons.prems(2)] by (auto simp: same)
    then show ?thesis
      using 1 by (intro exI [of _ "?line # out"])
        (simp add: heap_simps logger_outgoing_def print_log_def loggers_def yammers_def)
  next
    case 2
    let ?obj = "json_object_set_member obj ''ext'' (authentication E h)"
    obtain out where "length out = length (loggers h es)"
      "cometd_impl_ext_fire E False es (Some (JObject ?obj)) h = Ok (Some (JObject ?obj),
        h\<lparr>stdout := stdout h @ out\<rparr>)"
      using Cons.IH [OF rest, of ?obj] Cons.prems(2) by auto
    then show ?thesis
      using 2 yammer_outgoing_handshake [OF Cons.prems(2), of E h]
      by (intro exI [of _ out]) (simp add: heap_simps loggers_def yammers_def)
  qed
qed

lemma fire_library_incoming:
  assumes "library_exts h es"
  shows "\<exists>out. length out = length (loggers h es) \<and>
    cometd_impl_ext_fire E True es n h = Ok (n, h\<lparr>stdout := stdout h @ out\<rparr>)"
  using assms
proof (induction es arbitrary: h)
  case Nil
  then show ?case by (simp add: loggers_def)
next
  case (Cons e es)
  have rest: "library_exts h es" using Cons.prems by (simp add: library_exts_def)
  consider "ext_heap h e = Some cometd_ext_logger_new" | "ext_heap h e = Some yammer_ext"
    using Cons.prems by (auto simp: library_exts_def)
  then show ?case
  proof cases
    case 1
    let ?line = "(''incoming'', cometd_msg_channel (json_lib E) n, cometd_json_node2str (json_lib E) n)"
    let ?h = "h\<lparr>stdout := stdout h @ [?line]\<rparr>"
    have same: "loggers ?h es = loggers h es" "library_exts ?h es"
      using rest by (simp_all add: loggers_def library_exts_def)
    obtain out where "length out = length (loggers h es)"
      "cometd_impl_ext_fire E True es n ?h = Ok (n, ?h\<lparr>stdout := stdout ?h @ out\<rparr>)"
      using Cons.IH [OF same(2)] by (auto simp: same)
    then show ?thesis
      using 1 by (intro exI [of _ "?line # out"])
        (simp add: heap_simps logger_incoming_def print_log_def loggers_def)
  next
    case 2
    then show ?thesis using Cons.IH [OF rest] by (simp add: heap_simps loggers_def)
  qed
qed

section \<open>The handshake\<close>

lemma send_with_library_exts:
  assumes "library_exts h (exts h)" and "registry_wf h" and "in_long (msg_id_seed (conn h) + 1)"
    and "yammers h (exts h) \<noteq> []"
  shows "\<exists>out. length out = length (loggers h (exts h)) \<and> cometd_impl_handshake E hs h =
    obind (obind (http_post_msg E (Some (JArray [signed_handshake E h]))
        (h\<lparr>conn := (conn h)\<lparr>msg_id_seed := msg_id_seed (conn h) + 1\<rparr>, stdout := stdout h @ out\<rparr>))
      (finish_send E hs)) (\<lambda>(code, h).
       Ok (if code = COMETD_SUCCESS \<and> cometd_current_transport h = None
           then ECOMETD_NO_TRANSPORT else code, h))"
proof -
  let ?h = "h\<lparr>conn := (conn h)\<lparr>msg_id_seed := msg_id_seed (conn h) + 1\<rparr>\<rparr>"
  obtain obj where obj: "next_handshake h = JObject obj" and
    ext: "json_object_set_member obj ''ext'' (authentication E h) = obj @ [(''ext'', authentication E h)]"
    and ch: "map_of obj ''channel'' = Some (JString ''/meta/handshake'')"
    by (simp add: next_handshake_def handshake_message_def json_object_set_member_def)
  have signed: "signed_handshake E h = JObject (json_object_set_member obj ''ext'' (authentication E h))"
    using obj unfolding ext by (auto simp: next_handshake_def handshake_message_def signed_handshake_def)
  have same: "loggers ?h (exts h) = loggers h (exts h)" "yammers ?h (exts h) = yammers h (exts h)"
    "authentication E ?h = authentication E h" "library_exts ?h (exts h)"
    using assms(1) by (simp_all add: loggers_def yammers_def authentication_def library_exts_def)
  obtain out where out: "length out = length (loggers h (exts h))"
    "cometd_ext_fire_outgoing E (Some (next_handshake h)) ?h =
      Ok (Some (signed_handshake E h), ?h\<lparr>stdout := stdout h @ out\<rparr>)"
    using fire_library_outgoing [OF same(4) ch, of E] assms(4)
    by (auto simp: same cometd_ext_fire_outgoing_def obj signed)
  have "cometd_msg_wrap_copy (next_handshake h) (Some (signed_handshake E h)) = JArray [signed_handshake E h]"
    by (simp add: cometd_msg_wrap_copy_def cometd_msg_wrap_def json_node_copy_def obj signed)
  with out show ?thesis
    using new_handshake_message_Ok [OF assms(2,3)]
    by (intro exI [of _ out]) (simp add: cometd_impl_handshake_def send_msg_sync_after_exts [OF out(2)]
        next_handshake_def [symmetric])
qed

text \<open>
  C35. When the client uses the library's loggers and at least one yammer extension, in any
  order and number, the POST of its handshake carries the message together with the
  authentication that the extension adds, once, and an answer to that POST that accepts it leads to
  the same client as without extensions, apart from one line of output for each logger
  on the way out and one on the way in.
\<close>

theorem handshake_authenticated:
  assumes "library_exts h (exts h)" and "yammers h (exts h) \<noteq> []"
    and "registry_wf h" and "serialises E" and "in_long (msg_id_seed (conn h) + 1)" and "handshake_dispatched h"
    and "carries E (fst (post_answer E h (signed_handshake E h))) obj" and "handshake_reply E obj names cid adv"
    and "find (\<lambda>name. first_named h name (transports (config h)) \<noteq> None) (rev names) = Some name"
  shows "\<exists>out. length out = 2 * length (loggers h (exts h)) \<and>
    cometd_impl_handshake E hs h = Ok (COMETD_SUCCESS,
      (accepted_attempt E (first_named h name (transports (config h))) cid adv h)
        \<lparr>stdout := stdout h @ out, world := snd (post_answer E h (signed_handshake E h))\<rparr>)"
proof -
  obtain out where out: "length out = length (loggers h (exts h))" "cometd_impl_handshake E hs h =
    obind (obind (http_post_msg E (Some (JArray [signed_handshake E h]))
        (h\<lparr>conn := (conn h)\<lparr>msg_id_seed := msg_id_seed (conn h) + 1\<rparr>, stdout := stdout h @ out\<rparr>))
      (finish_send E hs)) (\<lambda>(code, h).
       Ok (if code = COMETD_SUCCESS \<and> cometd_current_transport h = None
           then ECOMETD_NO_TRANSPORT else code, h))"
    using send_with_library_exts [OF assms(1,3,5,2), of E hs] by blast
  let ?w = "h\<lparr>conn := (conn h)\<lparr>msg_id_seed := msg_id_seed (conn h) + 1\<rparr>, stdout := stdout h @ out,
    world := snd (post_answer E h (signed_handshake E h))\<rparr>"
  have post: "http_post_msg E (Some (JArray [signed_handshake E h]))
      (h\<lparr>conn := (conn h)\<lparr>msg_id_seed := msg_id_seed (conn h) + 1\<rparr>, stdout := stdout h @ out\<rparr>) =
    Ok (Some (JArray [JObject obj]), ?w)"
    using post_msg_carries [OF assms(4), of "h\<lparr>conn := (conn h)\<lparr>msg_id_seed := msg_id_seed (conn h) + 1\<rparr>,
        stdout := stdout h @ out\<rparr>" "signed_handshake E h" obj] assms(7)
    by (simp add: post_answer_def post_request_def)
  obtain log where log: "length log = length (loggers h (exts h))"
    "cometd_ext_fire_incoming E (Some (JObject obj)) ?w = Ok (Some (JObject obj), ?w\<lparr>stdout := stdout ?w @ log\<rparr>)"
    using fire_library_incoming [of ?w "exts ?w" E "Some (JObject obj)"] assms(1)
    by (auto simp: loggers_def library_exts_def cometd_ext_fire_incoming_def)
  let ?v = "?w\<lparr>stdout := stdout h @ (out @ log)\<rparr>"
  let ?t = "first_named h name (transports (config h))"
  let ?fin = "(accepted_attempt E ?t cid adv h)\<lparr>stdout := stdout h @ (out @ log),
    world := snd (post_answer E h (signed_handshake E h))\<rparr>"
  have wf: "registry_wf ?v" using assms(3) by (simp add: registry_wf_def)
  have "first_named ?v n ts = first_named h n ts" for n ts by (rule first_named_heap_cong) simp
  then have found: "find (\<lambda>name. first_named ?v name (transports (config ?v)) \<noteq> None) (rev names) = Some name"
    "first_named ?v name (transports (config ?v)) = ?t" using assms(9) by simp_all
  obtain a where a: "?t = Some a" using assms(9) by (auto simp: find_Some_iff)
  have "cometd_process_handshake E (Some (JObject obj)) ?v = Ok (COMETD_SUCCESS, ?fin)"
    using process_handshake_found [OF wf _ _ found(1)] found(2) assms(8) a
    by (simp add: handshake_reply_def cometd_msg_client_id_def accepted_attempt_def)
  moreover obtain b s where "cometd_listener_get (subscriptions h) (Some ''/meta/handshake'') = Ok [b]"
    "sub_heap (subscriptions h) b = Some s" "sub_callback s = Cometd_process_handshake"
    using assms(6) by (auto simp: handshake_dispatched_def)
  ultimately have "finish_send E hs (Some (JArray [JObject obj]), ?w) = Ok (COMETD_SUCCESS, ?fin)"
    using assms(8) log(2)
    by (simp add: finish_send_def cometd_impl_process_sync_def cometd_process_msg_def cometd_listener_fire_def
        handshake_reply_def cometd_msg_is_successful_def json_object_has_member_def heap_simps)
  moreover have "cometd_current_transport ?fin \<noteq> None"
    using a by (simp add: accepted_attempt_def cometd_current_transport_def)
  ultimately show ?thesis
    using out log(1) post by (intro exI [of _ "out @ log"]) simp
qed

text \<open>A client with a logger and the yammer extension, and a server that takes its handshake.\<close>

definition earlier_request :: http_request where
  "earlier_request = \<lparr>req_url = [], req_header = [], req_body = [], req_timeout_ms = 0\<rparr>"

definition yammer_client :: "http_request list cometd" where
  "yammer_client = (let (yammer, h) = cometd_ext_yammer_new (Some ''secret'')
       (cometd_new flaky_env None [earlier_request, earlier_request]);
     (a, h) = alloc_ext cometd_ext_logger_new h; (b, h) = alloc_ext yammer h
   in cometd_ext_add b (cometd_ext_add a h))"

lemma yammer_client_eq:
  "yammer_client = (cometd_new flaky_env None [earlier_request, earlier_request])
     \<lparr>exts := [1, 2], ext_heap := [1 \<mapsto> cometd_ext_logger_new, 2 \<mapsto> yammer_ext], next_addr := 3,
      g_token := Some ''secret''\<rparr>"
  by (simp add: yammer_client_def cometd_new_eq [OF flaky_env_defs(1,2)] cometd_ext_yammer_new_def alloc_ext_def
      cometd_ext_add_def Let_def yammer_ext_def numeral_2_eq_2 numeral_3_eq_3)

lemma handshake_authenticated_witness:
  "\<exists>h. cometd_impl_handshake flaky_env (\<lambda>h. Ok (0, h)) yammer_client = Ok (COMETD_SUCCESS, h) \<and>
     length (stdout h) = 2 \<and> client_id (conn h) = Some ''abc'' \<and> length (world h) = 3 \<and>
     transport (conn h) = Some 0"
proof -
  let ?n = "cometd_new flaky_env None [earlier_request, earlier_request]"
  note new = new_can_handshake [OF flaky_env_defs(1-3), of None "[earlier_request, earlier_request]"]
  note eq = cometd_new_eq [OF flaky_env_defs(1,2), of None "[earlier_request, earlier_request]"]
  have exts: "library_exts yammer_client (exts yammer_client)" "yammers yammer_client (exts yammer_client) \<noteq> []"
    "length (loggers yammer_client (exts yammer_client)) = 1" "stdout yammer_client = []"
    by (simp_all add: yammer_client_eq library_exts_def yammers_def loggers_def eq)
  have "conn yammer_client = conn ?n" "config yammer_client = config ?n"
    "transport_heap yammer_client = transport_heap ?n" "subscriptions yammer_client = subscriptions ?n"
    "world yammer_client = [earlier_request, earlier_request]"
    by (simp_all add: yammer_client_eq eq)
  note same = this
  have wf: "registry_wf yammer_client"
    by (simp add: registry_wf_def yammer_client_eq eq)
  have "in_long (msg_id_seed (conn yammer_client) + 1)" using new(5) same(1) by (simp add: in_long_def)
  moreover have "handshake_dispatched yammer_client" using new(7) same by (simp add: handshake_dispatched_def)
  moreover have answer: "post_answer flaky_env yammer_client m =
      (answer_with [(''{}'', True)] 200, [earlier_request, earlier_request, post_request flaky_env yammer_client m])" for m
    by (simp add: post_answer_def flaky_env_def same(5))
  moreover have "carries flaky_env (answer_with [(''{}'', True)] 200) flaky_reply"
    by (simp add: carries_def flaky_env_def transfer_ok_def
        example_defs Let_def cometd_json_node2str_def json_text_ok_def flaky_reply_def)
  moreover have "first_named yammer_client n ts = first_named ?n n ts" for n ts
    by (rule first_named_heap_cong) (simp add: same)
  ultimately obtain out where "length out = 2" "cometd_impl_handshake flaky_env (\<lambda>h. Ok (0, h)) yammer_client = Ok (COMETD_SUCCESS,
      (accepted_attempt flaky_env (Some 0) ''abc'' None yammer_client)\<lparr>stdout := stdout yammer_client @ out,
        world := snd (post_answer flaky_env yammer_client (signed_handshake flaky_env yammer_client))\<rparr>)"
    using handshake_authenticated [OF exts(1,2) wf flaky_env_defs(3) _ _ _ flaky_env_defs(4),
        where hs = "\<lambda>h. Ok (0, h)" and name = "''long-polling''"]
      exts(3) new(8) by (auto simp: same)
  then show ?thesis by (simp add: accepted_attempt_def answer exts(4))
qed

end
