(* ===== verification/Ev_Types.thy ===== *)
theory Ev_Types
  imports Prelude Complex_Main
begin

unbundle bit_operations_syntax

text \<open>
  The data of the event loop library libev that the repository carries
  (\<^verbatim>\<open>src/deps/ev/ev.h\<close>, \<^verbatim>\<open>src/deps/ev/ev_vars.h\<close>, the types of \<^verbatim>\<open>src/deps/ev/ev.c\<close>), in
  its default configuration for Unix systems: five priorities, 4-heaps with cached timestamps,
  \<open>eventfd\<close>, \<open>signalfd\<close>, \<open>inotify\<close>, one loop; which backends are compiled in is a parameter. Watchers are objects of the user that the loop points to: they live in a
  memory from addresses to one record that holds the fields of every watcher type, of which
  a watcher uses those of its own type. The singly linked lists of watchers are lists. An
  array with its count is a list, or a function with a count where the code leaves index 0
  unused (the heaps); the spare capacity behind the count is not part of the model.
  Timestamps are real numbers: \<open>double\<close> without its rounding.
\<close>

type_synonym ev_tstamp = real
type_synonym ev_mask = "32 word"

section \<open>Event masks and flags\<close>

definition EV_READ :: ev_mask where "EV_READ = 0x01"
definition EV_WRITE :: ev_mask where "EV_WRITE = 0x02"
definition EV__IOFDSET :: ev_mask where "EV__IOFDSET = 0x80"
definition EV_TIMER :: ev_mask where "EV_TIMER = 0x00000100"
definition EV_PERIODIC :: ev_mask where "EV_PERIODIC = 0x00000200"
definition EV_SIGNAL :: ev_mask where "EV_SIGNAL = 0x00000400"
definition EV_CHILD :: ev_mask where "EV_CHILD = 0x00000800"
definition EV_STAT :: ev_mask where "EV_STAT = 0x00001000"
definition EV_IDLE :: ev_mask where "EV_IDLE = 0x00002000"
definition EV_PREPARE :: ev_mask where "EV_PREPARE = 0x00004000"
definition EV_CHECK :: ev_mask where "EV_CHECK = 0x00008000"
definition EV_EMBED :: ev_mask where "EV_EMBED = 0x00010000"
definition EV_FORK :: ev_mask where "EV_FORK = 0x00020000"
definition EV_CLEANUP :: ev_mask where "EV_CLEANUP = 0x00040000"
definition EV_ASYNC :: ev_mask where "EV_ASYNC = 0x00080000"
definition EV_CUSTOM :: ev_mask where "EV_CUSTOM = 0x01000000"
definition EV_ERROR :: ev_mask where "EV_ERROR = 0x80000000"

text \<open>Set in \<open>reify\<close> when the kernel has to hear about a file descriptor.\<close>

definition EV_ANFD_REIFY :: ev_mask where "EV_ANFD_REIFY = 1"

definition EVRUN_NOWAIT :: ev_mask where "EVRUN_NOWAIT = 1"
definition EVRUN_ONCE :: ev_mask where "EVRUN_ONCE = 2"
definition EVBREAK_CANCEL :: int where "EVBREAK_CANCEL = 0"
definition EVBREAK_ONE :: int where "EVBREAK_ONE = 1"
definition EVBREAK_ALL :: int where "EVBREAK_ALL = 2"
definition EVBREAK_RECURSE :: int where "EVBREAK_RECURSE = 0x80"

text \<open>Flags of a new loop and the backends.\<close>

definition EVFLAG_NOENV :: ev_mask where "EVFLAG_NOENV = 0x01000000"
definition EVFLAG_FORKCHECK :: ev_mask where "EVFLAG_FORKCHECK = 0x02000000"
definition EVFLAG_NOINOTIFY :: ev_mask where "EVFLAG_NOINOTIFY = 0x00100000"
definition EVFLAG_SIGNALFD :: ev_mask where "EVFLAG_SIGNALFD = 0x00200000"
definition EVFLAG_NOSIGMASK :: ev_mask where "EVFLAG_NOSIGMASK = 0x00400000"
definition EVBACKEND_SELECT :: ev_mask where "EVBACKEND_SELECT = 0x00000001"
definition EVBACKEND_POLL :: ev_mask where "EVBACKEND_POLL = 0x00000002"
definition EVBACKEND_EPOLL :: ev_mask where "EVBACKEND_EPOLL = 0x00000004"
definition EVBACKEND_KQUEUE :: ev_mask where "EVBACKEND_KQUEUE = 0x00000008"
definition EVBACKEND_PORT :: ev_mask where "EVBACKEND_PORT = 0x00000020"
definition EVBACKEND_MASK :: ev_mask where "EVBACKEND_MASK = 0x0000FFFF"

lemmas ev_flag_defs = EVFLAG_NOENV_def EVFLAG_FORKCHECK_def EVFLAG_NOINOTIFY_def EVFLAG_SIGNALFD_def EVFLAG_NOSIGMASK_def EVBACKEND_SELECT_def
  EVBACKEND_POLL_def EVBACKEND_EPOLL_def EVBACKEND_KQUEUE_def EVBACKEND_PORT_def EVBACKEND_MASK_def

lemmas ev_mask_defs = EV_READ_def EV_WRITE_def EV__IOFDSET_def EV_TIMER_def EV_PERIODIC_def
  EV_SIGNAL_def EV_CHILD_def EV_STAT_def EV_IDLE_def EV_PREPARE_def EV_CHECK_def EV_EMBED_def EV_FORK_def EV_CLEANUP_def
  EV_ASYNC_def EV_CUSTOM_def EV_ERROR_def EV_ANFD_REIFY_def

definition EV_MINPRI :: int where "EV_MINPRI = -2"
definition EV_MAXPRI :: int where "EV_MAXPRI = 2"
definition NUMPRI :: nat where "NUMPRI = nat (EV_MAXPRI - EV_MINPRI + 1)"

definition MIN_INTERVAL :: ev_tstamp where "MIN_INTERVAL = 0.0001220703125"
definition MIN_TIMEJUMP :: ev_tstamp where "MIN_TIMEJUMP = 1"
definition MAX_BLOCKTIME :: ev_tstamp where "MAX_BLOCKTIME = 59.743"

lemma NUMPRI_eq [simp]: "NUMPRI = 5"
  by (simp add: NUMPRI_def EV_MINPRI_def EV_MAXPRI_def)

section \<open>Watchers\<close>

text \<open>A callback pointer is one of the library's own functions, one of the user's, or NULL.\<close>

datatype ev_callback = Pendingcb | Pipecb | Childcb | Once_cb_io | Once_cb_to | Stat_timer_cb | Infy_cb | Sigfdcb | Ev_x_cb_sig | Ev_x_cb_io | Ev_x_cb_to
  | Embed_io_cb | Embed_prepare_cb | Embed_fork_cb | Null_cb | User_cb nat

text \<open>The callbacks of one-shot watches.\<close>

datatype once_callback = Ev_x_loopexit_cb | Ev_x_once_cb | User_once nat

text \<open>
  \<open>struct stat\<close>: the members that are compared, and one that stands for those that are not.
\<close>

record ev_statdata =
  st_dev :: int
  st_ino :: int
  st_mode :: int
  st_nlink :: int
  st_uid :: int
  st_gid :: int
  st_rdev :: int
  st_size :: int
  st_atime :: int
  st_mtime :: int
  st_ctime :: int
  st_blocks :: int

text \<open>
  \<open>active\<close> is 0 for a watcher that is not started, otherwise its index in a heap, its index
  plus one in an array, or 1; \<open>pending\<close> is 0 or the index plus one among the pending events
  of its priority.
\<close>

record ev_watcher =
  w_active :: nat
  w_pending :: nat
  w_priority :: int
  w_cb :: ev_callback
  w_at :: ev_tstamp
  w_fd :: int                       \<comment> \<open>\<open>ev_io\<close>\<close>
  w_events :: ev_mask
  w_repeat :: ev_tstamp             \<comment> \<open>\<open>ev_timer\<close>\<close>
  w_offset :: ev_tstamp             \<comment> \<open>\<open>ev_periodic\<close>\<close>
  w_interval :: ev_tstamp
  w_reschedule_cb :: "nat option"
  w_sent :: bool                    \<comment> \<open>\<open>ev_async\<close>\<close>
  w_signum :: int                   \<comment> \<open>\<open>ev_signal\<close>\<close>
  w_pid :: int                      \<comment> \<open>\<open>ev_child\<close>\<close>
  w_flags :: ev_mask
  w_rpid :: int
  w_rstatus :: int
  w_path :: string                  \<comment> \<open>\<open>ev_stat\<close>; its timer is at the next address, its interval in \<open>w_interval\<close>\<close>
  w_prev :: ev_statdata
  w_attr :: ev_statdata
  w_wd :: int

text \<open>The watchers inside the loop structure, and the one for SIGCHLD, have fixed addresses.\<close>

definition pending_w :: addr where "pending_w = 0"
definition pipe_w :: addr where "pipe_w = 1"
definition childev :: addr where "childev = 2"
definition fs_w :: addr where "fs_w = 3"
definition sigfd_w :: addr where "sigfd_w = 4"

definition abspri :: "ev_watcher \<Rightarrow> nat" where
  "abspri w = nat (w_priority w - EV_MINPRI)"

text \<open>
  The events of libevent that \<^verbatim>\<open>src/deps/ev/event.c\<close> emulates (\<^verbatim>\<open>event.h\<close>). An event at address \<open>e\<close> has
  its io or signal watcher there and its timer behind it. \<open>ev_base\<close> tells whether the pointer to the
  loop is set; \<open>short\<close> has 16 bits. The last type is a one-shot watch: descriptor, callback, argument.
\<close>

record event =
  ev_base :: bool
  ev_callback :: nat
  ev_arg :: nat
  ev_fd :: int
  ev_pri :: int
  ev_res :: ev_mask
  ev_flags :: ev_mask
  ev_events :: "16 word"

type_synonym ev_x_once = "int \<times> nat \<times> nat"

section \<open>The loop\<close>

text \<open>What is known about one file descriptor, and an entry of a heap.\<close>

record anfd =
  fd_head :: "addr list"
  fd_events :: ev_mask
  fd_reify_flag :: ev_mask
  fd_emask :: ev_mask                \<comment> \<open>what the epoll backend has told the kernel\<close>
  fd_egen :: "32 word"               \<comment> \<open>its generation counter\<close>

record anhe =
  he_at :: ev_tstamp
  he_w :: addr

record pollfd =
  poll_fd :: nat
  poll_events :: ev_mask

text \<open>A signal: seen and not yet passed on, watched by this loop, and its watchers.\<close>

record ansig =
  sig_flag :: bool
  sig_loop :: bool
  sig_head :: "addr list"

datatype modify_function = Poll_modify | Select_modify | Epoll_modify | Kqueue_modify | Port_modify | User_modify nat
datatype poll_function = Poll_poll | Select_poll | Epoll_poll | Kqueue_poll | Port_poll | User_poll nat

text \<open>What the kernel is told of a descriptor and reports of it, and the operations of \<open>epoll_ctl\<close>.\<close>

record epoll_event =
  ep_events :: ev_mask
  ep_data :: "64 word"

datatype epoll_op = EPOLL_CTL_ADD | EPOLL_CTL_MOD | EPOLL_CTL_DEL

text \<open>A change or an event of \<open>kqueue\<close>, an event of a Solaris port, an event of \<open>inotify\<close>.\<close>

record kevent =
  ke_ident :: nat
  ke_filter :: int
  ke_flags :: ev_mask
  ke_fflags :: ev_mask
  ke_data :: int

record port_event =
  portev_source :: int
  portev_object :: nat
  portev_events :: ev_mask

record inotify_event =
  in_wd :: int
  in_mask :: ev_mask

text \<open>A word of the descriptor sets of \<open>select\<close>.\<close>

type_synonym fd_mask = "64 word"

record 'w ev_loop =
  ev_rt_now :: ev_tstamp
  now_floor :: ev_tstamp
  mn_now :: ev_tstamp
  rtmn_diff :: ev_tstamp
  io_blocktime :: ev_tstamp
  timeout_blocktime :: ev_tstamp
  backend :: ev_mask
  activecnt :: int
  loop_done :: int
  backend_fd :: int
  backend_mintime :: ev_tstamp
  backend_modify :: modify_function
  backend_poll :: poll_function
  anfds :: "anfd list"
  pendings :: "nat \<Rightarrow> (addr \<times> ev_mask) list"
  rfeeds :: "addr list"
  pipe_write_wanted :: bool
  pipe_write_skipped :: bool
  pipe_bytes :: nat                  \<comment> \<open>written to the pipe and not yet read\<close>
  postfork :: bool
  vec_ri :: "fd_mask list"
  vec_wi :: "fd_mask list"
  polls :: "pollfd list"
  pollidxs :: "int list"
  epoll_eventmax :: nat
  epoll_eperms :: "nat list"
  kqueue_changes :: "kevent list"
  kqueue_eventmax :: nat
  port_eventmax :: nat
  fdchanges :: "nat list"
  timers :: "nat \<Rightarrow> anhe"
  timercnt :: nat
  periodics :: "nat \<Rightarrow> anhe"
  periodiccnt :: nat
  idles :: "nat \<Rightarrow> addr list"
  idleall :: int
  prepares :: "addr list"
  checks :: "addr list"
  forks :: "addr list"
  cleanups :: "addr list"
  async_pending :: bool
  asyncs :: "addr list"
  sig_pending :: bool
  signals :: "ansig list"            \<comment> \<open>static, with one loop in the process\<close>
  childs :: "nat \<Rightarrow> addr list"
  fs_fd :: int
  fs_2625 :: bool
  fs_hash :: "nat \<Rightarrow> addr list"
  sigfd :: int
  sigfd_set :: "int list"
  onces :: "addr \<rightharpoonup> once_callback \<times> nat"       \<comment> \<open>allocated \<open>struct ev_once\<close>s: callback and argument\<close>
  x_cur :: bool                      \<comment> \<open>this loop is the current base of the emulation\<close>
  x_events :: "addr \<Rightarrow> event"         \<comment> \<open>the memory of the user's events\<close>
  x_onces :: "nat \<rightharpoonup> ev_x_once"
  curpid :: int
  origflags :: ev_mask
  loop_count :: "32 word"
  loop_depth :: "32 word"
  userdata :: nat
  watchers :: "addr \<Rightarrow> ev_watcher"
  ev_world :: 'w

section \<open>The environment\<close>

text \<open>
  The clocks, the system calls of the backends and the user's functions. \<open>poll\<close> answers with an error number
  or with the returned events of every entry and the count of entries with any, \<open>select\<close> with
  an error number or the sets that it has overwritten, which keep their length,
  \<open>epoll_wait\<close> with an error number or at most as many events as there is room for; \<open>epoll_ctl\<close>
  gives 0 or an error number. \<open>kevent_call\<close> is given the changes and answers with at most as many events as
  there is room for; \<open>port_getn\<close> with an error number or 0, and with events only when it has set their count.
  A call that makes or changes something named by a number gives a negative number and an error number when
  it fails. \<open>signalfd_read\<close> gives the signals of all reads up to the one that comes up short. \<open>libev_flags\<close> is the variable \<open>LIBEV_FLAGS\<close> of a program that runs without elevated privileges.
  The callbacks of embedding watchers work on a second loop; \<open>embed_cb\<close> is defined where there is one.
\<close>

datatype poll_answer = Poll_errno int | Poll_revents nat "ev_mask list"
datatype select_answer = Select_errno int | Select_sets "fd_mask list" "fd_mask list"
datatype epoll_answer = Epoll_errno int | Epoll_events "epoll_event list"
datatype kevent_answer = Kevent_errno int | Kevent_events "kevent list"

record 'w ev_env =
  ev_time :: "'w \<Rightarrow> ev_tstamp \<times> 'w"
  get_clock :: "'w \<Rightarrow> ev_tstamp \<times> 'w"
  have_monotonic :: bool
  ev_sleep :: "ev_tstamp \<Rightarrow> 'w \<Rightarrow> 'w"
  poll_call :: "pollfd list \<Rightarrow> int \<Rightarrow> 'w \<Rightarrow> poll_answer \<times> 'w"
  select_call :: "fd_mask list \<Rightarrow> fd_mask list \<Rightarrow> int \<times> int \<Rightarrow> 'w \<Rightarrow> select_answer \<times> 'w"
  epoll_create :: "bool \<Rightarrow> 'w \<Rightarrow> int \<times> 'w"        \<comment> \<open>with or without \<open>EPOLL_CLOEXEC\<close>\<close>
  epoll_ctl :: "int \<Rightarrow> epoll_op \<Rightarrow> nat \<Rightarrow> epoll_event \<Rightarrow> 'w \<Rightarrow> int \<times> 'w"
  epoll_wait :: "int \<Rightarrow> nat \<Rightarrow> int \<Rightarrow> 'w \<Rightarrow> epoll_answer \<times> 'w"
  kqueue_create :: "'w \<Rightarrow> int \<times> 'w"
  kevent_call :: "int \<Rightarrow> kevent list \<Rightarrow> nat \<Rightarrow> int \<times> int \<Rightarrow> 'w \<Rightarrow> kevent_answer \<times> 'w"
  port_create :: "'w \<Rightarrow> int \<times> 'w"
  port_associate :: "int \<Rightarrow> nat \<Rightarrow> ev_mask \<Rightarrow> 'w \<Rightarrow> int \<times> 'w"
  port_dissociate :: "int \<Rightarrow> nat \<Rightarrow> 'w \<Rightarrow> 'w"
  port_getn :: "int \<Rightarrow> nat \<Rightarrow> int \<times> int \<Rightarrow> 'w \<Rightarrow> (int \<times> port_event list option) \<times> 'w"
  use_port :: bool
  use_kqueue :: bool
  use_epoll :: bool
  close_fd :: "int \<Rightarrow> 'w \<Rightarrow> 'w"
  uname_release :: "'w \<Rightarrow> string option"
  lstat :: "string \<Rightarrow> 'w \<Rightarrow> ev_statdata option"
  statfs_type :: "string \<Rightarrow> 'w \<Rightarrow> int option"
  inotify_init :: "bool \<Rightarrow> 'w \<Rightarrow> int \<times> 'w"        \<comment> \<open>with or without flags\<close>
  inotify_add_watch :: "int \<Rightarrow> string \<Rightarrow> ev_mask \<Rightarrow> 'w \<Rightarrow> (int \<times> int) \<times> 'w"
  inotify_rm_watch :: "int \<Rightarrow> int \<Rightarrow> 'w \<Rightarrow> 'w"
  inotify_read :: "int \<Rightarrow> 'w \<Rightarrow> inotify_event list \<times> 'w"
  signalfd :: "int \<Rightarrow> int list \<Rightarrow> bool \<Rightarrow> 'w \<Rightarrow> (int \<times> int) \<times> 'w"
  signalfd_read :: "int \<Rightarrow> 'w \<Rightarrow> int list \<times> 'w"
  block_signals :: "int list \<Rightarrow> 'w \<Rightarrow> 'w"
  libev_flags :: "'w \<Rightarrow> ev_mask option"
  new_pipe :: "'w \<Rightarrow> nat \<times> 'w"           \<comment> \<open>the descriptor the loop reads wakeups from\<close>
  waitpid :: "'w \<Rightarrow> (int \<times> int) option \<times> 'w"
  set_handler :: "int \<Rightarrow> bool \<Rightarrow> 'w \<Rightarrow> 'w"    \<comment> \<open>catch a signal, or back to the default\<close>
  unblock_signal :: "int \<Rightarrow> 'w \<Rightarrow> 'w"
  alloc_once :: "'w \<Rightarrow> addr option \<times> 'w"
  alloc_x_once :: "'w \<Rightarrow> nat option \<times> 'w"
  ev_getpid :: "'w \<Rightarrow> int"
  fd_valid :: "nat \<Rightarrow> 'w \<Rightarrow> bool"
  reschedule :: "nat \<Rightarrow> ev_watcher \<Rightarrow> ev_tstamp \<Rightarrow> ev_tstamp"
  user_cb :: "nat \<Rightarrow> addr \<Rightarrow> ev_mask \<Rightarrow> 'w ev_loop \<Rightarrow> 'w ev_loop outcome"
  user_once :: "nat \<Rightarrow> ev_mask \<Rightarrow> nat \<Rightarrow> 'w ev_loop \<Rightarrow> 'w ev_loop outcome"
  user_event :: "nat \<Rightarrow> int \<Rightarrow> 16 word \<Rightarrow> nat \<Rightarrow> 'w ev_loop \<Rightarrow> 'w ev_loop outcome"
  user_modify :: "nat \<Rightarrow> nat \<Rightarrow> ev_mask \<Rightarrow> ev_mask \<Rightarrow> 'w ev_loop \<Rightarrow> 'w ev_loop outcome"
  user_poll :: "nat \<Rightarrow> ev_tstamp \<Rightarrow> 'w ev_loop \<Rightarrow> 'w ev_loop outcome"
  embed_cb :: "ev_callback \<Rightarrow> addr \<Rightarrow> 'w ev_loop \<Rightarrow> 'w ev_loop outcome"

text \<open>Changing one watcher in the memory.\<close>

definition upd_watcher :: "addr \<Rightarrow> (ev_watcher \<Rightarrow> ev_watcher) \<Rightarrow> 'w ev_loop \<Rightarrow> 'w ev_loop" where
  "upd_watcher w f l = l\<lparr>watchers := (watchers l)(w := f (watchers l w))\<rparr>"

end
