(* ===== verification/Ev_Heap.thy ===== *)
theory Ev_Heap
  imports Ev_Types
begin

text \<open>
  The timer heaps of libev (\<^verbatim>\<open>src/deps/ev/ev.c\<close>): a heap in an array that is indexed from
  \<open>HEAP0\<close>, with the timestamp of every watcher cached in its entry and the index of every
  entry kept in its watcher. Both variants of the source are modelled, the 4-heap of the
  default configuration and the 2-heap. The element that sifts is held outside the array
  while others move over its place; the lemmas look at the array with it put back, on
  which every move is a swap of a parent with a child.
\<close>

section \<open>The code\<close>

definition set_active :: "addr \<Rightarrow> nat \<Rightarrow> (addr \<Rightarrow> ev_watcher) \<Rightarrow> addr \<Rightarrow> ev_watcher" where
  "set_active w k ws = ws(w := (ws w)\<lparr>w_active := k\<rparr>)"

subsection \<open>The 4-heap\<close>

definition DHEAP :: nat where "DHEAP = 4"
definition HEAP0 :: nat where "HEAP0 = DHEAP - 1"
definition HPARENT :: "nat \<Rightarrow> nat" where "HPARENT k = (k - HEAP0 - 1) div DHEAP + HEAP0"

lemma HEAP0_eq [simp]: "HEAP0 = 3"
  by (simp add: HEAP0_def DHEAP_def)

lemma DHEAP_eq [simp]: "DHEAP = 4"
  by (simp add: DHEAP_def)

text \<open>The search for the least of up to four children that start at \<open>pos\<close>.\<close>

definition min_child :: "(nat \<Rightarrow> anhe) \<Rightarrow> nat \<Rightarrow> nat \<Rightarrow> nat option" where
  "min_child heap e pos =
     (if pos + DHEAP - 1 < e then
        let m = pos;
            m = (if he_at (heap (pos + 1)) < he_at (heap m) then pos + 1 else m);
            m = (if he_at (heap (pos + 2)) < he_at (heap m) then pos + 2 else m);
            m = (if he_at (heap (pos + 3)) < he_at (heap m) then pos + 3 else m)
        in Some m
      else if pos < e then
        let m = pos;
            m = (if pos + 1 < e \<and> he_at (heap (pos + 1)) < he_at (heap m) then pos + 1 else m);
            m = (if pos + 2 < e \<and> he_at (heap (pos + 2)) < he_at (heap m) then pos + 2 else m);
            m = (if pos + 3 < e \<and> he_at (heap (pos + 3)) < he_at (heap m) then pos + 3 else m)
        in Some m
      else None)"

lemma min_child_Some:
  assumes "min_child heap e pos = Some m"
  shows "pos \<le> m" "m < pos + 4" "m < e"
    and "\<And>j. pos \<le> j \<Longrightarrow> j < pos + 4 \<Longrightarrow> j < e \<Longrightarrow> he_at (heap m) \<le> he_at (heap j)"
proof -
  have cases: "j = pos \<or> j = pos + 1 \<or> j = pos + 2 \<or> j = pos + 3" if "pos \<le> j" "j < pos + 4" for j
    using that by arith
  show "pos \<le> m" "m < pos + 4" "m < e"
    using assms by (auto simp: min_child_def Let_def split: if_splits)
  show "he_at (heap m) \<le> he_at (heap j)" if "pos \<le> j" "j < pos + 4" "j < e" for j
    using cases [OF that(1,2)] that(3) assms
    by (elim disjE) (auto simp: min_child_def Let_def split: if_splits)
qed

lemma min_child_None: "min_child heap e pos = None \<longleftrightarrow> e \<le> pos"
  by (auto simp: min_child_def Let_def)

function downheap_loop :: "nat \<Rightarrow> anhe \<Rightarrow> (nat \<Rightarrow> anhe) \<Rightarrow> (addr \<Rightarrow> ev_watcher) \<Rightarrow> nat
    \<Rightarrow> (nat \<Rightarrow> anhe) \<times> (addr \<Rightarrow> ev_watcher)" where
  "downheap_loop e he heap ws k =
     (case min_child heap e (DHEAP * (k - HEAP0) + HEAP0 + 1) of
        None \<Rightarrow> (heap(k := he), set_active (he_w he) k ws)
      | Some m \<Rightarrow>
          if he_at he \<le> he_at (heap m) then (heap(k := he), set_active (he_w he) k ws)
          else downheap_loop e he (heap(k := heap m)) (set_active (he_w (heap m)) k ws) m)"
  by pat_completeness auto
termination
proof (relation "measure (\<lambda>(e, he, heap, ws, k). e - k)", simp)
  fix e he heap ws k m
  assume "min_child heap e (DHEAP * (k - HEAP0) + HEAP0 + 1) = Some m"
  from min_child_Some(1,3) [OF this]
  show "((e, he, heap(k := heap m), set_active (he_w (heap m)) k ws, m), e, he, heap, ws, k)
      \<in> measure (\<lambda>(e, he, heap, ws, k). e - k)"
    by (cases "k \<ge> 3") auto
qed

declare downheap_loop.simps [simp del]

definition downheap :: "(nat \<Rightarrow> anhe) \<Rightarrow> nat \<Rightarrow> nat \<Rightarrow> (addr \<Rightarrow> ev_watcher)
    \<Rightarrow> (nat \<Rightarrow> anhe) \<times> (addr \<Rightarrow> ev_watcher)" where
  "downheap heap n k ws = downheap_loop (n + HEAP0) (heap k) heap ws k"

function upheap_loop :: "anhe \<Rightarrow> (nat \<Rightarrow> anhe) \<Rightarrow> (addr \<Rightarrow> ev_watcher) \<Rightarrow> nat
    \<Rightarrow> (nat \<Rightarrow> anhe) \<times> (addr \<Rightarrow> ev_watcher)" where
  "upheap_loop he heap ws k =
     (let p = HPARENT k
      in if p = k \<or> he_at (heap p) \<le> he_at he
         then (heap(k := he), set_active (he_w he) k ws)
         else upheap_loop he (heap(k := heap p)) (set_active (he_w (heap p)) k ws) p)"
  by pat_completeness auto
termination
  by (relation "measure (\<lambda>(he, heap, ws, k). if k < 3 then 4 else k)")
    (auto simp: HPARENT_def)

declare upheap_loop.simps [simp del]

definition upheap :: "(nat \<Rightarrow> anhe) \<Rightarrow> nat \<Rightarrow> (addr \<Rightarrow> ev_watcher)
    \<Rightarrow> (nat \<Rightarrow> anhe) \<times> (addr \<Rightarrow> ev_watcher)" where
  "upheap heap k ws = upheap_loop (heap k) heap ws k"

definition adjustheap :: "(nat \<Rightarrow> anhe) \<Rightarrow> nat \<Rightarrow> nat \<Rightarrow> (addr \<Rightarrow> ev_watcher)
    \<Rightarrow> (nat \<Rightarrow> anhe) \<times> (addr \<Rightarrow> ev_watcher)" where
  "adjustheap heap n k ws =
     (if k > HEAP0 \<and> he_at (heap k) \<le> he_at (heap (HPARENT k)) then upheap heap k ws
      else downheap heap n k ws)"

text \<open>\<open>reheap\<close> sifts the elements up from the first to the last.\<close>

primrec reheap_loop :: "nat \<Rightarrow> nat \<Rightarrow> (nat \<Rightarrow> anhe) \<Rightarrow> (addr \<Rightarrow> ev_watcher)
    \<Rightarrow> (nat \<Rightarrow> anhe) \<times> (addr \<Rightarrow> ev_watcher)" where
  "reheap_loop 0 i heap ws = (heap, ws)"
| "reheap_loop (Suc r) i heap ws =
     (case upheap heap (i + HEAP0) ws of (heap, ws) \<Rightarrow> reheap_loop r (i + 1) heap ws)"

definition reheap :: "(nat \<Rightarrow> anhe) \<Rightarrow> nat \<Rightarrow> (addr \<Rightarrow> ev_watcher)
    \<Rightarrow> (nat \<Rightarrow> anhe) \<times> (addr \<Rightarrow> ev_watcher)" where
  "reheap heap n ws = reheap_loop n 0 heap ws"

subsection \<open>The 2-heap\<close>

text \<open>Index 0 is never in use (a child of 0 would be 0 itself), so the loop stops there.\<close>

definition HPARENT2 :: "nat \<Rightarrow> nat" where "HPARENT2 k = k div 2"

function downheap2_loop :: "nat \<Rightarrow> anhe \<Rightarrow> (nat \<Rightarrow> anhe) \<Rightarrow> (addr \<Rightarrow> ev_watcher) \<Rightarrow> nat
    \<Rightarrow> (nat \<Rightarrow> anhe) \<times> (addr \<Rightarrow> ev_watcher)" where
  "downheap2_loop n he heap ws k =
     (let c = k * 2
      in if k = 0 \<or> c \<ge> n + 1 then (heap(k := he), set_active (he_w he) k ws)
         else let c = c + (if c + 1 < n + 1 \<and> he_at (heap c) > he_at (heap (c + 1)) then 1 else 0)
              in if he_at he \<le> he_at (heap c) then (heap(k := he), set_active (he_w he) k ws)
                 else downheap2_loop n he (heap(k := heap c)) (set_active (he_w (heap c)) k ws) c)"
  by pat_completeness auto
termination
  by (relation "measure (\<lambda>(n, he, heap, ws, k). n + 1 - k)") (auto simp: Let_def split: if_splits)

declare downheap2_loop.simps [simp del]

definition downheap2 :: "(nat \<Rightarrow> anhe) \<Rightarrow> nat \<Rightarrow> nat \<Rightarrow> (addr \<Rightarrow> ev_watcher)
    \<Rightarrow> (nat \<Rightarrow> anhe) \<times> (addr \<Rightarrow> ev_watcher)" where
  "downheap2 heap n k ws = downheap2_loop n (heap k) heap ws k"


function upheap2_loop :: "anhe \<Rightarrow> (nat \<Rightarrow> anhe) \<Rightarrow> (addr \<Rightarrow> ev_watcher) \<Rightarrow> nat
    \<Rightarrow> (nat \<Rightarrow> anhe) \<times> (addr \<Rightarrow> ev_watcher)" where
  "upheap2_loop he heap ws k =
     (let p = HPARENT2 k
      in if p = 0 \<or> he_at (heap p) \<le> he_at he
         then (heap(k := he), set_active (he_w he) k ws)
         else upheap2_loop he (heap(k := heap p)) (set_active (he_w (heap p)) k ws) p)"
  by pat_completeness auto
termination
  by (relation "measure (\<lambda>(he, heap, ws, k). k)") (auto simp: HPARENT2_def)

declare upheap2_loop.simps [simp del]

definition upheap2 :: "(nat \<Rightarrow> anhe) \<Rightarrow> nat \<Rightarrow> (addr \<Rightarrow> ev_watcher)
    \<Rightarrow> (nat \<Rightarrow> anhe) \<times> (addr \<Rightarrow> ev_watcher)" where
  "upheap2 heap k ws = upheap2_loop (heap k) heap ws k"

section \<open>The order and the indices\<close>

text \<open>
  For a heap of \<open>n\<close> entries from index \<open>first\<close>: its range, the heap condition, the heap
  condition but for one element that may be out of place, and the indices in the watchers,
  which are right but perhaps for one element.
\<close>

definition heap_range :: "nat \<Rightarrow> nat \<Rightarrow> nat set" where
  "heap_range first n = {first..<first + n}"

definition heap_ordered :: "nat \<Rightarrow> (nat \<Rightarrow> nat) \<Rightarrow> nat \<Rightarrow> (nat \<Rightarrow> anhe) \<Rightarrow> bool" where
  "heap_ordered first parent n v \<longleftrightarrow>
     (\<forall>j\<in>heap_range first n. j \<noteq> first \<longrightarrow> he_at (v (parent j)) \<le> he_at (v j))"

definition ordered_but :: "nat \<Rightarrow> nat \<Rightarrow> (nat \<Rightarrow> nat) \<Rightarrow> nat \<Rightarrow> (nat \<Rightarrow> anhe) \<Rightarrow> bool" where
  "ordered_but k first parent n v \<longleftrightarrow>
     (\<forall>j\<in>heap_range first n. j \<noteq> first \<longrightarrow> j \<noteq> k \<longrightarrow> parent j \<noteq> k \<longrightarrow> he_at (v (parent j)) \<le> he_at (v j)) \<and>
     (\<forall>j\<in>heap_range first n. j \<noteq> first \<longrightarrow> parent j = k \<longrightarrow> k \<noteq> first \<longrightarrow> he_at (v (parent k)) \<le> he_at (v j))"

definition above_children :: "nat \<Rightarrow> nat \<Rightarrow> (nat \<Rightarrow> nat) \<Rightarrow> nat \<Rightarrow> (nat \<Rightarrow> anhe) \<Rightarrow> bool" where
  "above_children k first parent n v \<longleftrightarrow>
     (\<forall>j\<in>heap_range first n. j \<noteq> first \<longrightarrow> parent j = k \<longrightarrow> he_at (v k) \<le> he_at (v j))"

definition below_parent :: "nat \<Rightarrow> nat \<Rightarrow> (nat \<Rightarrow> nat) \<Rightarrow> (nat \<Rightarrow> anhe) \<Rightarrow> bool" where
  "below_parent k first parent v \<longleftrightarrow> k = first \<or> he_at (v (parent k)) \<le> he_at (v k)"

definition indexed_but :: "nat set \<Rightarrow> nat \<Rightarrow> nat \<Rightarrow> (nat \<Rightarrow> anhe) \<Rightarrow> (addr \<Rightarrow> ev_watcher) \<Rightarrow> bool" where
  "indexed_but X first n v ws \<longleftrightarrow> inj_on (\<lambda>j. he_w (v j)) (heap_range first n) \<and>
     (\<forall>j\<in>heap_range first n - X. w_active (ws (he_w (v j))) = j)"

text \<open>Only the indices of the given watchers differ between two memories.\<close>

definition only_active :: "addr set \<Rightarrow> (addr \<Rightarrow> ev_watcher) \<Rightarrow> (addr \<Rightarrow> ev_watcher) \<Rightarrow> bool" where
  "only_active A ws ws' \<longleftrightarrow> (\<forall>w. \<exists>i. ws' w = (ws w)\<lparr>w_active := i\<rparr>) \<and> (\<forall>w. w \<notin> A \<longrightarrow> ws' w = ws w)"

lemma only_active_refl [simp]: "only_active A ws ws"
proof -
  have "ws w = (ws w)\<lparr>w_active := w_active (ws w)\<rparr>" for w by simp
  then show ?thesis unfolding only_active_def by blast
qed

lemma only_active_set:
  assumes "only_active A ws ws'" and "w \<in> A"
  shows "only_active A ws (set_active w k ws')"
proof -
  have "\<exists>i. set_active w k ws' u = (ws u)\<lparr>w_active := i\<rparr>" for u
  proof (cases "u = w")
    case True
    obtain i where "ws' w = (ws w)\<lparr>w_active := i\<rparr>" using assms(1) by (auto simp: only_active_def)
    then have "set_active w k ws' u = (ws u)\<lparr>w_active := k\<rparr>" using True by (simp add: set_active_def)
    then show ?thesis by blast
  next
    case False
    then show ?thesis using assms(1) by (simp add: only_active_def set_active_def)
  qed
  then show ?thesis using assms by (auto simp: only_active_def set_active_def)
qed

text \<open>What every sifting achieves, and what holds while an element sifts.\<close>

definition heap_result ::
  "nat \<Rightarrow> (nat \<Rightarrow> nat) \<Rightarrow> nat \<Rightarrow> anhe set \<Rightarrow> (nat \<Rightarrow> anhe) \<Rightarrow> (addr \<Rightarrow> ev_watcher)
    \<Rightarrow> (nat \<Rightarrow> anhe) \<times> (addr \<Rightarrow> ev_watcher) \<Rightarrow> bool" where
  "heap_result first parent n S v0 ws0 r \<longleftrightarrow> (case r of (v, ws) \<Rightarrow>
     heap_ordered first parent n v \<and> indexed_but {} first n v ws \<and> v ` heap_range first n = S \<and>
     (\<forall>j. j \<notin> heap_range first n \<longrightarrow> v j = v0 j) \<and> only_active (he_w ` S) ws0 ws)"

definition sifting ::
  "nat \<Rightarrow> (nat \<Rightarrow> nat) \<Rightarrow> nat \<Rightarrow> anhe set \<Rightarrow> (nat \<Rightarrow> anhe) \<Rightarrow> (addr \<Rightarrow> ev_watcher)
    \<Rightarrow> (nat \<Rightarrow> anhe) \<Rightarrow> (addr \<Rightarrow> ev_watcher) \<Rightarrow> nat \<Rightarrow> bool" where
  "sifting first parent n S v0 ws0 v ws k \<longleftrightarrow> k \<in> heap_range first n \<and>
     ordered_but k first parent n v \<and> indexed_but {k} first n v ws \<and> v ` heap_range first n = S \<and>
     (\<forall>j. j \<notin> heap_range first n \<longrightarrow> v j = v0 j) \<and> only_active (he_w ` S) ws0 ws"

definition swap_at :: "nat \<Rightarrow> nat \<Rightarrow> (nat \<Rightarrow> anhe) \<Rightarrow> nat \<Rightarrow> anhe" where
  "swap_at i j v = v(i := v j, j := v i)"

lemma swap_at_image: "i \<in> R \<Longrightarrow> j \<in> R \<Longrightarrow> swap_at i j v ` R = v ` R"
  by (auto simp: swap_at_def image_def split: if_splits)

lemma indexed_swap:
  assumes "indexed_but {k} first n v ws" and "k \<in> heap_range first n" and "p \<in> heap_range first n" and "p \<noteq> k"
  shows "indexed_but {p} first n (swap_at k p v) (set_active (he_w (v p)) k ws)"
proof -
  have inj: "he_w (v i) = he_w (v j) \<longleftrightarrow> i = j" if "i \<in> heap_range first n" "j \<in> heap_range first n" for i j
    using assms(1) that by (auto simp: indexed_but_def inj_on_def)
  have "inj_on (\<lambda>j. he_w (swap_at k p v j)) (heap_range first n)"
    using assms(2-4) by (auto simp: inj_on_def swap_at_def inj split: if_splits)
  then show ?thesis
    using assms by (auto simp: indexed_but_def swap_at_def set_active_def inj)
qed

lemma indexed_put:
  assumes "indexed_but {k} first n v ws" and "k \<in> heap_range first n"
  shows "indexed_but {} first n v (set_active (he_w (v k)) k ws)"
  using assms by (auto simp: indexed_but_def set_active_def inj_on_def)

locale heap_order =
  fixes first :: nat and parent :: "nat \<Rightarrow> nat"
  assumes parent_less: "first < k \<Longrightarrow> parent k < k"
    and parent_ge: "first < k \<Longrightarrow> first \<le> parent k"
begin

lemma sifting_done:
  assumes "sifting first parent n S v0 ws0 v ws k"
    and "below_parent k first parent v" and "above_children k first parent n v"
  shows "heap_result first parent n S v0 ws0 (v, set_active (he_w (v k)) k ws)"
proof -
  have k: "k \<in> heap_range first n" and "v ` heap_range first n = S" using assms(1) by (auto simp: sifting_def)
  then have "he_w (v k) \<in> he_w ` S" by blast
  moreover have "heap_ordered first parent n v"
    using assms by (fastforce simp: sifting_def heap_ordered_def ordered_but_def below_parent_def above_children_def)
  ultimately show ?thesis
    using assms(1) indexed_put [of k first n v ws] only_active_set
    by (simp add: heap_result_def sifting_def)
qed

lemma parent_in_range:
  assumes "k \<in> heap_range first n" and "k \<noteq> first"
  shows "parent k \<in> heap_range first n" "parent k < k"
proof -
  have "first < k" using assms by (simp add: heap_range_def)
  from parent_less [OF this] parent_ge [OF this] show "parent k < k" "parent k \<in> heap_range first n"
    using assms by (simp_all add: heap_range_def)
qed

lemma sifting_swap:
  assumes "sifting first parent n S v0 ws0 v ws k" and "p \<in> heap_range first n" and "p \<noteq> k"
    and "ordered_but p first parent n (swap_at k p v)"
  shows "sifting first parent n S v0 ws0 (swap_at k p v) (set_active (he_w (v p)) k ws) p"
  using assms swap_at_image [of k "heap_range first n" p v]
    indexed_swap [of k first n v ws p] only_active_set [of "he_w ` S" ws0 ws "he_w (v p)" k]
  by (auto simp: sifting_def) (auto simp: swap_at_def)

lemma sift_up_step:
  assumes "sifting first parent n S v0 ws0 v ws k" and "above_children k first parent n v"
    and "k \<noteq> first" and "he_at (v k) < he_at (v (parent k))"
  shows "sifting first parent n S v0 ws0 (swap_at k (parent k) v) (set_active (he_w (v (parent k))) k ws) (parent k)"
    and "above_children (parent k) first parent n (swap_at k (parent k) v)"
proof -
  let ?p = "parent k" and ?v = "swap_at k (parent k) v"
  have k: "k \<in> heap_range first n" using assms(1) by (simp add: sifting_def)
  note p = parent_in_range [OF k assms(3)]
  have but: "he_at (v (parent j)) \<le> he_at (v j)"
    if "j \<in> heap_range first n" "j \<noteq> first" "j \<noteq> k" "parent j \<noteq> k" for j
    using assms(1) that by (simp add: sifting_def ordered_but_def)
  have grand: "he_at (v ?p) \<le> he_at (v j)" if "j \<in> heap_range first n" "j \<noteq> first" "parent j = k" for j
    using assms(1,3) that by (simp add: sifting_def ordered_but_def)
  have less: "parent j < j" if "j \<in> heap_range first n" "j \<noteq> first" for j
    using parent_in_range [OF that] by simp
  have "ordered_but ?p first parent n ?v"
    unfolding ordered_but_def
  proof (intro conjI ballI impI)
    fix j
    assume j: "j \<in> heap_range first n" "j \<noteq> first" "j \<noteq> ?p" "parent j \<noteq> ?p"
    then have "j \<noteq> k" by auto
    show "he_at (?v (parent j)) \<le> he_at (?v j)"
    proof (cases "parent j = k")
      case True
      then show ?thesis using grand [OF j(1,2)] j \<open>j \<noteq> k\<close> by (simp add: swap_at_def)
    next
      case False
      then show ?thesis using but [OF j(1,2) \<open>j \<noteq> k\<close>] j \<open>j \<noteq> k\<close> by (simp add: swap_at_def)
    qed
  next
    fix j
    assume j: "j \<in> heap_range first n" "j \<noteq> first" "parent j = ?p" "?p \<noteq> first"
    have up: "he_at (v (parent ?p)) \<le> he_at (v ?p)"
      using but [OF p(1) j(4)] p(2) less [OF p(1) j(4)] by simp
    have pp: "parent ?p \<noteq> k" "parent ?p \<noteq> ?p" using p(2) less [OF p(1) j(4)] by auto
    show "he_at (?v (parent ?p)) \<le> he_at (?v j)"
    proof (cases "j = k")
      case True
      then show ?thesis using up pp by (simp add: swap_at_def)
    next
      case False
      moreover have "j \<noteq> ?p" using less [OF j(1,2)] j(3) by auto
      ultimately show ?thesis
        using up pp but [OF j(1,2) False] j(3) p(2) by (auto simp: swap_at_def intro: order_trans)
    qed
  qed
  then show "sifting first parent n S v0 ws0 ?v (set_active (he_w (v ?p)) k ws) ?p"
    using sifting_swap [OF assms(1) p(1)] p(2) by simp
  show "above_children ?p first parent n ?v"
    unfolding above_children_def
  proof (intro ballI impI)
    fix j
    assume j: "j \<in> heap_range first n" "j \<noteq> first" "parent j = ?p"
    have "j \<noteq> ?p" using less [OF j(1,2)] j(3) by auto
    then show "he_at (?v ?p) \<le> he_at (?v j)"
      using but [OF j(1,2)] assms(4) j(3) p(2) by (cases "j = k") (auto simp: swap_at_def)
  qed
qed

lemma sift_down_step:
  assumes "sifting first parent n S v0 ws0 v ws k" and "below_parent k first parent v"
    and "c \<in> heap_range first n" and "c \<noteq> first" and "parent c = k" and "he_at (v c) < he_at (v k)"
    and "\<forall>j\<in>heap_range first n. j \<noteq> first \<longrightarrow> parent j = k \<longrightarrow> he_at (v c) \<le> he_at (v j)"
  shows "sifting first parent n S v0 ws0 (swap_at k c v) (set_active (he_w (v c)) k ws) c"
    and "below_parent c first parent (swap_at k c v)"
proof -
  let ?v = "swap_at k c v"
  have k: "k \<in> heap_range first n" using assms(1) by (simp add: sifting_def)
  have less: "parent j < j" if "j \<in> heap_range first n" "j \<noteq> first" for j
    using parent_in_range [OF that] by simp
  have kc: "k < c" using less [OF assms(3,4)] assms(5) by simp
  have but: "he_at (v (parent j)) \<le> he_at (v j)"
    if "j \<in> heap_range first n" "j \<noteq> first" "j \<noteq> k" "parent j \<noteq> k" for j
    using assms(1) that by (simp add: sifting_def ordered_but_def)
  have "ordered_but c first parent n ?v"
    unfolding ordered_but_def
  proof (intro conjI ballI impI)
    fix j
    assume j: "j \<in> heap_range first n" "j \<noteq> first" "j \<noteq> c" "parent j \<noteq> c"
    show "he_at (?v (parent j)) \<le> he_at (?v j)"
    proof (cases "j = k")
      case True
      have "parent k \<noteq> k" using less [OF j(1,2)] True by simp
      have "he_at (v (parent k)) \<le> he_at (v c)"
        using assms(1,3-5) j(2) True by (simp add: sifting_def ordered_but_def)
      then show ?thesis using True j kc \<open>parent k \<noteq> k\<close> by (simp add: swap_at_def)
    next
      case False
      then show ?thesis
        using but [OF j(1,2) False] assms(7) j kc by (cases "parent j = k") (simp_all add: swap_at_def)
    qed
  next
    fix j
    assume j: "j \<in> heap_range first n" "j \<noteq> first" "parent j = c" "c \<noteq> first"
    have "j > c" using less [OF j(1,2)] j(3) by simp
    moreover have "he_at (v c) \<le> he_at (v j)" using but [OF j(1,2)] j(3) kc \<open>j > c\<close> by simp
    ultimately show "he_at (?v (parent c)) \<le> he_at (?v j)"
      using assms(5) kc by (simp add: swap_at_def)
  qed
  then show "sifting first parent n S v0 ws0 ?v (set_active (he_w (v c)) k ws) c"
    using sifting_swap [OF assms(1,3)] kc by simp
  show "below_parent c first parent ?v"
    using assms(5,6) kc by (simp add: below_parent_def swap_at_def)
qed

end

interpretation h4: heap_order HEAP0 HPARENT
  by unfold_locales (simp_all add: HPARENT_def)

interpretation h2: heap_order 1 HPARENT2
  by unfold_locales (simp_all add: HPARENT2_def)

section \<open>The loops\<close>

lemma put_swap: "m \<noteq> k \<Longrightarrow> swap_at k m (heap(k := he)) = (heap(k := heap m))(m := he)"
  by (auto simp: swap_at_def)

lemma h4_children:
  "j \<in> heap_range HEAP0 n \<Longrightarrow> j \<noteq> HEAP0 \<Longrightarrow> k \<in> heap_range HEAP0 n \<Longrightarrow>
    HPARENT j = k \<longleftrightarrow> DHEAP * (k - HEAP0) + HEAP0 + 1 \<le> j \<and> j < DHEAP * (k - HEAP0) + HEAP0 + 1 + 4"
  by (auto simp: heap_range_def HPARENT_def)

lemma downheap_loop_correct:
  assumes "sifting HEAP0 HPARENT n S v0 ws0 (heap(k := he)) ws k" and "below_parent k HEAP0 HPARENT (heap(k := he))"
  shows "heap_result HEAP0 HPARENT n S v0 ws0 (downheap_loop (n + HEAP0) he heap ws k)"
  using assms
proof (induction "n + HEAP0" he heap ws k rule: downheap_loop.induct)
  case (1 he heap ws k)
  let ?v = "heap(k := he)" and ?pos = "DHEAP * (k - HEAP0) + HEAP0 + 1"
  have k: "k \<in> heap_range HEAP0 n" using 1(2) by (simp add: sifting_def)
  then have kpos: "k < ?pos" by (auto simp: heap_range_def)
  note children = h4_children [OF _ _ k]
  have stop: "heap_result HEAP0 HPARENT n S v0 ws0 (?v, set_active (he_w he) k ws)"
    if "above_children k HEAP0 HPARENT n ?v"
    using h4.sifting_done [where v = ?v, OF 1(2,3) that] by simp
  show ?case
  proof (cases "min_child heap (n + HEAP0) ?pos")
    case None
    then have "n + HEAP0 \<le> ?pos" by (simp add: min_child_None)
    then have "above_children k HEAP0 HPARENT n ?v"
      using children by (fastforce simp: above_children_def heap_range_def)
    with stop show ?thesis by (subst downheap_loop.simps) (simp only: None option.case)
  next
    case (Some m)
    note m = min_child_Some [OF Some]
    have mk: "m \<noteq> k" "m \<in> heap_range HEAP0 n" "m \<noteq> HEAP0" using m(1-3) kpos by (auto simp: heap_range_def)
    have least: "he_at (heap m) \<le> he_at (?v j)" if "j \<in> heap_range HEAP0 n" "j \<noteq> HEAP0" "HPARENT j = k" for j
      using m(4) [of j] children [OF that(1,2)] that kpos by (auto simp: heap_range_def)
    show ?thesis
    proof (cases "he_at he \<le> he_at (heap m)")
      case True
      then have "above_children k HEAP0 HPARENT n ?v"
        using least by (fastforce simp: above_children_def)
      with stop True show ?thesis by (subst downheap_loop.simps) (simp only: Some option.case if_True)
    next
      case False
      have "HPARENT m = k" using children [OF mk(2,3)] m(1,2) by simp
      note step = h4.sift_down_step [where v = ?v, OF 1(2,3) mk(2,3) this]
      have "heap_result HEAP0 HPARENT n S v0 ws0
          (downheap_loop (n + HEAP0) he (heap(k := heap m)) (set_active (he_w (heap m)) k ws) m)"
        using 1(1) [OF Some False] step False least mk(1) by (simp add: put_swap del: HEAP0_eq DHEAP_eq)
      then show ?thesis using False by (subst downheap_loop.simps) (simp only: Some option.case if_False)
    qed
  qed
qed

lemma upheap_loop_correct:
  assumes "sifting HEAP0 HPARENT n S v0 ws0 (heap(k := he)) ws k"
    and "above_children k HEAP0 HPARENT n (heap(k := he))"
  shows "heap_result HEAP0 HPARENT n S v0 ws0 (upheap_loop he heap ws k)"
  using assms
proof (induction he heap ws k rule: upheap_loop.induct)
  case (1 he heap ws k)
  let ?v = "heap(k := he)" and ?p = "HPARENT k"
  have k: "k \<in> heap_range HEAP0 n" using 1(2) by (simp add: sifting_def)
  have pk: "?p = k \<longleftrightarrow> k = HEAP0" using k by (auto simp: heap_range_def HPARENT_def)
  have stop: "heap_result HEAP0 HPARENT n S v0 ws0 (?v, set_active (he_w he) k ws)" if "below_parent k HEAP0 HPARENT ?v"
    using h4.sifting_done [where v = ?v, OF 1(2) that 1(3)] by simp
  show ?case
  proof (cases "?p = k \<or> he_at (heap ?p) \<le> he_at he")
    case True
    then have "below_parent k HEAP0 HPARENT ?v"
      using pk by (auto simp: below_parent_def)
    with stop True show ?thesis
      by (simp add: upheap_loop.simps [of _ _ _ k])
  next
    case False
    note step = h4.sift_up_step [where v = ?v, OF 1(2,3)]
    have sift: "sifting HEAP0 HPARENT n S v0 ws0 ((heap(k := heap ?p))(?p := he)) (set_active (he_w (heap ?p)) k ws) ?p"
      "above_children ?p HEAP0 HPARENT n ((heap(k := heap ?p))(?p := he))"
      using step False pk by (simp_all add: put_swap del: HEAP0_eq)
    have "heap_result HEAP0 HPARENT n S v0 ws0
        (upheap_loop he (heap(k := heap ?p)) (set_active (he_w (heap ?p)) k ws) ?p)"
      by (rule 1(1) [OF refl False sift])
    then show ?thesis using False by (simp add: upheap_loop.simps [of _ _ _ k] Let_def)
  qed
qed

lemma downheap2_loop_correct:
  assumes "sifting 1 HPARENT2 n S v0 ws0 (heap(k := he)) ws k" and "below_parent k 1 HPARENT2 (heap(k := he))"
  shows "heap_result 1 HPARENT2 n S v0 ws0 (downheap2_loop n he heap ws k)"
  using assms
proof (induction n he heap ws k rule: downheap2_loop.induct)
  case (1 n he heap ws k)
  let ?v = "heap(k := he)" and ?c = "k * 2"
  have k: "k \<in> heap_range 1 n" using 1(2) by (simp add: sifting_def)
  have stop: "heap_result 1 HPARENT2 n S v0 ws0 (?v, set_active (he_w he) k ws)"
    if "above_children k 1 HPARENT2 n ?v"
    using h2.sifting_done [where v = ?v, OF 1(2,3) that] by simp
  show ?case
  proof (cases "?c \<ge> n + 1")
    case True
    then have "above_children k 1 HPARENT2 n ?v"
      by (auto simp: above_children_def heap_range_def HPARENT2_def)
    with stop True show ?thesis by (simp add: downheap2_loop.simps [of _ _ _ _ k])
  next
    case False
    define c where "c = ?c + (if ?c + 1 < n + 1 \<and> he_at (heap ?c) > he_at (heap (?c + 1)) then 1 else 0)"
    have c: "c \<noteq> k" "c \<in> heap_range 1 n" "c \<noteq> 1" "HPARENT2 c = k"
      using k False by (auto simp: c_def heap_range_def HPARENT2_def)
    have least: "he_at (heap c) \<le> he_at (?v j)" if "j \<in> heap_range 1 n" "j \<noteq> 1" "HPARENT2 j = k" for j
    proof -
      have "j = ?c \<or> j = ?c + 1" using that(3) by (auto simp: HPARENT2_def)
      then show ?thesis using that k by (auto simp: c_def heap_range_def)
    qed
    have unfold: "downheap2_loop n he heap ws k =
      (if he_at he \<le> he_at (heap c) then (?v, set_active (he_w he) k ws)
       else downheap2_loop n he (heap(k := heap c)) (set_active (he_w (heap c)) k ws) c)"
      using k False by (subst downheap2_loop.simps) (simp add: c_def Let_def heap_range_def)
    show ?thesis
    proof (cases "he_at he \<le> he_at (heap c)")
      case True
      then have "above_children k 1 HPARENT2 n ?v"
        using least by (fastforce simp: above_children_def)
      with stop True show ?thesis by (simp add: unfold)
    next
      case False
      note step = h2.sift_down_step [where v = ?v, OF 1(2,3) c(2-4)]
      have lo: "\<not> (k = 0 \<or> n + 1 \<le> ?c)" using k \<open>\<not> ?c \<ge> n + 1\<close> by (simp add: heap_range_def)
      have sift: "sifting 1 HPARENT2 n S v0 ws0 ((heap(k := heap c))(c := he)) (set_active (he_w (heap c)) k ws) c"
        "below_parent c 1 HPARENT2 ((heap(k := heap c))(c := he))"
        using step False least c(1) by (simp_all add: put_swap del: One_nat_def)
      have "heap_result 1 HPARENT2 n S v0 ws0
          (downheap2_loop n he (heap(k := heap c)) (set_active (he_w (heap c)) k ws) c)"
        by (rule 1(1) [OF refl lo c_def False sift])
      then show ?thesis using False by (simp add: unfold)
    qed
  qed
qed

lemma upheap2_loop_correct:
  assumes "sifting 1 HPARENT2 n S v0 ws0 (heap(k := he)) ws k"
    and "above_children k 1 HPARENT2 n (heap(k := he))"
  shows "heap_result 1 HPARENT2 n S v0 ws0 (upheap2_loop he heap ws k)"
  using assms
proof (induction he heap ws k rule: upheap2_loop.induct)
  case (1 he heap ws k)
  let ?v = "heap(k := he)" and ?p = "HPARENT2 k"
  have k: "k \<in> heap_range 1 n" using 1(2) by (simp add: sifting_def)
  then have pk: "?p = 0 \<longleftrightarrow> k = 1" "?p \<noteq> k" by (auto simp: heap_range_def HPARENT2_def)
  have stop: "heap_result 1 HPARENT2 n S v0 ws0 (?v, set_active (he_w he) k ws)" if "below_parent k 1 HPARENT2 ?v"
    using h2.sifting_done [where v = ?v, OF 1(2) that 1(3)] by simp
  show ?case
  proof (cases "?p = 0 \<or> he_at (heap ?p) \<le> he_at he")
    case True
    then have "below_parent k 1 HPARENT2 ?v"
      using pk by (auto simp: below_parent_def)
    with stop True show ?thesis
      by (simp add: upheap2_loop.simps [of _ _ _ k])
  next
    case False
    note step = h2.sift_up_step [where v = ?v, OF 1(2,3)]
    have sift: "sifting 1 HPARENT2 n S v0 ws0 ((heap(k := heap ?p))(?p := he)) (set_active (he_w (heap ?p)) k ws) ?p"
      "above_children ?p 1 HPARENT2 n ((heap(k := heap ?p))(?p := he))"
      using step False pk by (simp_all add: put_swap del: One_nat_def)
    have "heap_result 1 HPARENT2 n S v0 ws0
        (upheap2_loop he (heap(k := heap ?p)) (set_active (he_w (heap ?p)) k ws) ?p)"
      by (rule 1(1) [OF refl False sift])
    then show ?thesis using False by (simp add: upheap2_loop.simps [of _ _ _ k] Let_def)
  qed
qed

section \<open>What the operations do to a heap\<close>

definition heap_ok :: "nat \<Rightarrow> (nat \<Rightarrow> anhe) \<Rightarrow> (addr \<Rightarrow> ev_watcher) \<Rightarrow> bool" where
  "heap_ok n v ws \<longleftrightarrow> heap_ordered HEAP0 HPARENT n v \<and> indexed_but {} HEAP0 n v ws"

definition heap_entries :: "nat \<Rightarrow> (nat \<Rightarrow> anhe) \<Rightarrow> anhe set" where
  "heap_entries n v = v ` heap_range HEAP0 n"

text \<open>A heap of \<open>n\<close> entries \<open>S\<close>; the array elsewhere and the watchers as before but for indices.\<close>

definition heap_of :: "nat \<Rightarrow> anhe set \<Rightarrow> (nat \<Rightarrow> anhe) \<Rightarrow> (addr \<Rightarrow> ev_watcher)
    \<Rightarrow> (nat \<Rightarrow> anhe) \<times> (addr \<Rightarrow> ev_watcher) \<Rightarrow> bool" where
  "heap_of n S v0 ws0 r \<longleftrightarrow> (case r of (v, ws) \<Rightarrow> heap_ok n v ws \<and> heap_entries n v = S \<and>
     (\<forall>j. j \<notin> heap_range HEAP0 n \<longrightarrow> v j = v0 j) \<and> only_active (he_w ` S) ws0 ws)"

lemma heap_result_of: "heap_result HEAP0 HPARENT n S v0 ws0 r \<longleftrightarrow> heap_of n S v0 ws0 r"
  by (simp add: heap_result_def heap_of_def heap_ok_def heap_entries_def split: prod.splits)

lemmas heap_result_of3 = heap_result_of [unfolded HEAP0_eq]

lemma sifting_start:
  assumes "k \<in> heap_range HEAP0 n" and "ordered_but k HEAP0 HPARENT n v" and "indexed_but {k} HEAP0 n v ws"
  shows "sifting HEAP0 HPARENT n (heap_entries n v) v ws (v(k := v k)) ws k"
  using assms by (simp add: sifting_def heap_entries_def)

lemma adjustheap_correct:
  assumes "k \<in> heap_range HEAP0 n" and "ordered_but k HEAP0 HPARENT n v" and "indexed_but {k} HEAP0 n v ws"
  shows "heap_of n (heap_entries n v) v ws (adjustheap v n k ws)"
proof (cases "k > HEAP0 \<and> he_at (v k) \<le> he_at (v (HPARENT k))")
  case True
  then have "above_children k HEAP0 HPARENT n (v(k := v k))"
    using assms(2) by (fastforce simp: ordered_but_def above_children_def)
  from upheap_loop_correct [OF sifting_start [OF assms] this] True show ?thesis
    by (simp add: adjustheap_def upheap_def heap_result_of3)
next
  case False
  then have "below_parent k HEAP0 HPARENT (v(k := v k))"
    using assms(1) by (auto simp: below_parent_def heap_range_def)
  from downheap_loop_correct [OF sifting_start [OF assms] this] False show ?thesis
    by (auto simp: adjustheap_def downheap_def heap_result_of3)
qed

lemma upheap_correct:
  assumes "k \<in> heap_range HEAP0 n" and "ordered_but k HEAP0 HPARENT n v" and "indexed_but {k} HEAP0 n v ws"
    and "above_children k HEAP0 HPARENT n v"
  shows "heap_of n (heap_entries n v) v ws (upheap v k ws)"
  using upheap_loop_correct [OF sifting_start [OF assms(1-3)]] assms(4) by (simp add: upheap_def heap_result_of3)

lemma downheap_correct:
  assumes "k \<in> heap_range HEAP0 n" and "ordered_but k HEAP0 HPARENT n v" and "indexed_but {k} HEAP0 n v ws"
    and "below_parent k HEAP0 HPARENT v"
  shows "heap_of n (heap_entries n v) v ws (downheap v n k ws)"
  using downheap_loop_correct [OF sifting_start [OF assms(1-3)]] assms(4) by (simp add: downheap_def heap_result_of3)

text \<open>The root is the least, a new last entry sifts up, the place of a removed entry is filled.\<close>

lemma heap_range_cases: "j \<in> heap_range HEAP0 n \<longleftrightarrow> 3 \<le> j \<and> j < n + 3"
  by (auto simp: heap_range_def)

lemma heap_root_least:
  assumes "heap_ordered HEAP0 HPARENT n v" and "j \<in> heap_range HEAP0 n"
  shows "he_at (v HEAP0) \<le> he_at (v j)"
  using assms(2)
proof (induction j rule: less_induct)
  case (less j)
  show ?case
  proof (cases "j = HEAP0")
    case False
    note p = h4.parent_in_range [OF less.prems False]
    have "he_at (v (HPARENT j)) \<le> he_at (v j)"
      using assms(1) less.prems False by (simp add: heap_ordered_def)
    then show ?thesis using less.IH [OF p(2,1)] by simp
  qed simp
qed

lemma inj_on_upd:
  assumes "inj_on (\<lambda>j. he_w (v j)) R" and "\<And>j. j \<in> R \<Longrightarrow> j \<noteq> k \<Longrightarrow> he_w (v j) \<noteq> he_w he"
  shows "inj_on (\<lambda>j. he_w ((v(k := he)) j)) (insert k R)"
proof (rule inj_onI)
  fix i j
  assume "i \<in> insert k R" "j \<in> insert k R" "he_w ((v(k := he)) i) = he_w ((v(k := he)) j)"
  then show "i = j"
    using assms(2) [of i] assms(2) [of j] inj_onD [OF assms(1), of i j]
    by (cases "i = k"; cases "j = k") auto
qed

lemma heap_insert:
  assumes "heap_ok n v ws" and "he_w he \<notin> he_w ` heap_entries n v"
  shows "heap_of (Suc n) (insert he (heap_entries n v)) v ws (upheap (v(n + HEAP0 := he)) (n + HEAP0) ws)"
proof -
  let ?k = "n + HEAP0" and ?v = "v(n + HEAP0 := he)"
  have range: "heap_range 3 (Suc n) = insert (n + 3) (heap_range 3 n)" "n + 3 \<notin> heap_range 3 n"
    by (auto simp: heap_range_def)
  have other: "he_w (v j) \<noteq> he_w he" if "j \<in> heap_range HEAP0 n" for j
    using assms(2) imageI [OF imageI [OF that, of v], of he_w] by (auto simp: heap_entries_def)
  have child: "HPARENT j \<noteq> ?k" if "j \<in> heap_range HEAP0 (Suc n)" "j \<noteq> HEAP0" for j
    using h4.parent_in_range(2) [OF that] that by (auto simp: heap_range_def)
  have "ordered_but ?k HEAP0 HPARENT (Suc n) ?v"
    using assms(1) child by (auto simp: ordered_but_def heap_ok_def heap_ordered_def range(1))
  moreover have "indexed_but {?k} HEAP0 (Suc n) ?v ws"
  proof -
    have "inj_on (\<lambda>j. he_w (v j)) (heap_range HEAP0 n)" using assms(1) by (simp add: heap_ok_def indexed_but_def)
    then have "inj_on (\<lambda>j. he_w (?v j)) (insert ?k (heap_range HEAP0 n))"
      using other by (intro inj_on_upd) auto
    then show ?thesis using assms(1) by (auto simp: heap_ok_def indexed_but_def range)
  qed
  moreover have "above_children ?k HEAP0 HPARENT (Suc n) ?v"
    using child by (auto simp: above_children_def)
  moreover have "heap_entries (Suc n) ?v = insert he (heap_entries n v)"
    by (auto simp: heap_entries_def range)
  ultimately have "heap_of (Suc n) (insert he (heap_entries n v)) ?v ws (upheap ?v ?k ws)"
    using upheap_correct [of ?k "Suc n" ?v ws] range(1) by simp
  then show ?thesis by (auto simp: heap_of_def range(1) split: prod.splits)
qed

lemma heap_entries_inj:
  "indexed_but X HEAP0 n v ws \<Longrightarrow> i \<in> heap_range HEAP0 n \<Longrightarrow> j \<in> heap_range HEAP0 n \<Longrightarrow> v i = v j \<longleftrightarrow> i = j"
  by (auto simp: indexed_but_def inj_on_def)

lemma heap_remove:
  assumes "heap_ok (Suc n) v ws" and "k \<in> heap_range HEAP0 (Suc n)"
  shows "heap_of n (heap_entries (Suc n) v - {v k}) (if k < n + HEAP0 then v(k := v (n + HEAP0)) else v) ws
    (if k < n + HEAP0 then adjustheap (v(k := v (n + HEAP0))) n k ws else (v, ws))"
proof -
  let ?l = "n + HEAP0"
  have range: "heap_range 3 (Suc n) = insert (n + 3) (heap_range 3 n)" "n + 3 \<notin> heap_range 3 n"
    by (auto simp: heap_range_def)
  have idx: "indexed_but {} HEAP0 (Suc n) v ws" and ord: "heap_ordered HEAP0 HPARENT (Suc n) v"
    using assms(1) by (simp_all add: heap_ok_def)
  note inj = heap_entries_inj [OF idx]
  show ?thesis
  proof (cases "k < ?l")
    case True
    let ?v = "v(k := v ?l)"
    have k: "k \<in> heap_range HEAP0 n" using assms(2) True by (auto simp: heap_range_def)
    have "ordered_but k HEAP0 HPARENT n ?v"
    proof -
      have edge: "he_at (v (HPARENT j)) \<le> he_at (v j)" if "j \<in> heap_range HEAP0 n" "j \<noteq> HEAP0" for j
        using ord that by (simp add: heap_ordered_def range)
      have "he_at (v (HPARENT k)) \<le> he_at (v j)"
        if "j \<in> heap_range HEAP0 n" "j \<noteq> HEAP0" "HPARENT j = k" "k \<noteq> HEAP0" for j
        using edge [OF that(1,2)] edge [OF k that(4)] that(3) by simp
      moreover have "HPARENT k \<noteq> k" if "k \<noteq> HEAP0" using h4.parent_in_range(2) [OF k that] by simp
      moreover have "j \<noteq> k" if "j \<in> heap_range HEAP0 n" "j \<noteq> HEAP0" "HPARENT j = k" for j
        using h4.parent_in_range(2) [OF that(1,2)] that(3) by auto
      ultimately show ?thesis using edge by (simp add: ordered_but_def)
    qed
    moreover have "indexed_but {k} HEAP0 n ?v ws"
      using idx range k by (auto simp: indexed_but_def inj_on_def)
    moreover have "heap_entries n ?v = heap_entries (Suc n) v - {v k}"
    proof -
      have "v j \<noteq> v k" if "j \<in> heap_range HEAP0 (Suc n)" "j \<noteq> k" for j using inj assms(2) that by simp
      then show ?thesis using k range by (auto simp: heap_entries_def image_iff)
    qed
    ultimately show ?thesis using adjustheap_correct [OF k, of ?v ws] True by simp
  next
    case False
    then have k: "k = ?l" using assms(2) by (auto simp: range heap_range_def)
    have "heap_entries (Suc n) v - {v k} = heap_entries n v"
      using inj k range by (auto simp: heap_entries_def)
    moreover have "heap_ok n v ws"
      using idx ord by (auto simp: heap_ok_def heap_ordered_def indexed_but_def range inj_on_def)
    ultimately show ?thesis using False by (simp add: heap_of_def)
  qed
qed

text \<open>An entry whose timestamp changes: in place for any change, from the root for a later one.\<close>

lemma change_entry:
  assumes "heap_ok n v ws" and "k \<in> heap_range HEAP0 n" and "he_w he = he_w (v k)"
  shows "ordered_but k HEAP0 HPARENT n (v(k := he))" "indexed_but {k} HEAP0 n (v(k := he)) ws"
    "heap_entries n (v(k := he)) = insert he (heap_entries n v - {v k})"
proof -
  have idx: "indexed_but {} HEAP0 n v ws" using assms(1) by (simp add: heap_ok_def)
  have edge: "he_at (v (HPARENT j)) \<le> he_at (v j)" if "j \<in> heap_range HEAP0 n" "j \<noteq> HEAP0" for j
    using assms(1) that by (simp add: heap_ordered_def heap_ok_def)
  have "he_at (v (HPARENT k)) \<le> he_at (v j)"
    if "j \<in> heap_range HEAP0 n" "j \<noteq> HEAP0" "HPARENT j = k" "k \<noteq> HEAP0" for j
    using edge [OF that(1,2)] edge [OF assms(2) that(4)] that(3) by simp
  moreover have "HPARENT k \<noteq> k" if "k \<noteq> HEAP0" using h4.parent_in_range(2) [OF assms(2) that] by simp
  moreover have "j \<noteq> k" if "j \<in> heap_range HEAP0 n" "j \<noteq> HEAP0" "HPARENT j = k" for j
    using h4.parent_in_range(2) [OF that(1,2)] that(3) by auto
  ultimately show "ordered_but k HEAP0 HPARENT n (v(k := he))" using edge by (simp add: ordered_but_def)
  have inj: "inj_on (\<lambda>j. he_w (v j)) (heap_range HEAP0 n)" using idx by (simp add: indexed_but_def)
  have "inj_on (\<lambda>j. he_w ((v(k := he)) j)) (insert k (heap_range HEAP0 n))"
    using inj inj_onD [OF inj _ _ assms(2)] assms(3) by (intro inj_on_upd) auto
  then show "indexed_but {k} HEAP0 n (v(k := he)) ws"
    using idx assms(2) by (simp add: indexed_but_def insert_absorb)
  have "inj_on v (heap_range HEAP0 n)" using heap_entries_inj [OF idx] by (simp add: inj_on_def)
  then have "v ` (heap_range HEAP0 n - {k}) = v ` heap_range HEAP0 n - {v k}"
    using assms(2) by (subst inj_on_image_set_diff) auto
  then show "heap_entries n (v(k := he)) = insert he (heap_entries n v - {v k})"
    using assms(2) by (simp add: heap_entries_def fun_upd_image Collect_neg_eq Diff_eq [symmetric])
qed

lemma heap_adjust:
  assumes "heap_ok n v ws" and "k \<in> heap_range HEAP0 n" and "he_w he = he_w (v k)"
  shows "heap_of n (insert he (heap_entries n v - {v k})) (v(k := he)) ws (adjustheap (v(k := he)) n k ws)"
  using adjustheap_correct [OF assms(2) change_entry(1,2) [OF assms]] change_entry(3) [OF assms] by simp

lemma heap_reorder_root:
  assumes "heap_ok n v ws" and "0 < n" and "he_w he = he_w (v HEAP0)"
  shows "heap_of n (insert he (heap_entries n v - {v HEAP0})) (v(HEAP0 := he)) ws (downheap (v(HEAP0 := he)) n HEAP0 ws)"
proof -
  have root: "HEAP0 \<in> heap_range HEAP0 n" using assms(2) by (simp add: heap_range_def)
  show ?thesis
    using downheap_correct [OF root change_entry(1,2) [OF assms(1) root assms(3)]]
      change_entry(3) [OF assms(1) root assms(3)] by (simp add: below_parent_def)
qed

lemma only_active_trans:
  assumes "only_active A ws ws'" and "only_active B ws' ws''" and "A \<subseteq> C" and "B \<subseteq> C"
  shows "only_active C ws ws''"
proof -
  have "\<exists>i. ws'' w = (ws w)\<lparr>w_active := i\<rparr>" for w
  proof -
    obtain i j where "ws' w = (ws w)\<lparr>w_active := i\<rparr>" "ws'' w = (ws' w)\<lparr>w_active := j\<rparr>"
      using assms(1,2) unfolding only_active_def by blast
    then have "ws'' w = (ws w)\<lparr>w_active := j\<rparr>" by simp
    then show ?thesis by blast
  qed
  moreover have "ws'' w = ws w" if "w \<notin> C" for w
  proof -
    have "w \<notin> A" "w \<notin> B" using assms(3,4) that by auto
    then show ?thesis using assms(1,2) by (simp add: only_active_def)
  qed
  ultimately show ?thesis by (simp add: only_active_def)
qed

lemma reheap_loop_correct:
  assumes "heap_ok i v ws" and "indexed_but {} HEAP0 (i + r) v ws"
  shows "heap_of (i + r) (heap_entries (i + r) v) v ws (reheap_loop r i v ws)"
  using assms
proof (induction r arbitrary: i v ws)
  case 0
  then show ?case by (simp add: heap_of_def)
next
  case (Suc r)
  let ?k = "i + HEAP0" and ?n = "Suc i + r"
  have sub: "heap_range HEAP0 i \<subseteq> heap_range HEAP0 ?n" "?k \<in> heap_range HEAP0 ?n" "?k \<notin> heap_range HEAP0 i"
    and split: "heap_range HEAP0 (Suc i) = insert ?k (heap_range HEAP0 i)"
    by (auto simp: heap_range_def)
  have pre: "heap_range HEAP0 (Suc i) \<subseteq> heap_range HEAP0 ?n" by (auto simp: heap_range_def)
  have inj: "he_w (v a) = he_w (v b) \<longleftrightarrow> a = b" if "a \<in> heap_range HEAP0 ?n" "b \<in> heap_range HEAP0 ?n" for a b
    using Suc.prems(2) that by (auto simp: indexed_but_def inj_on_def)
  obtain v1 ws1 where up: "upheap v ?k ws = (v1, ws1)" by fastforce
  have "he_w (v ?k) \<notin> he_w ` heap_entries i v"
  proof
    assume "he_w (v ?k) \<in> he_w ` heap_entries i v"
    then obtain j where "j \<in> heap_range HEAP0 i" "he_w (v ?k) = he_w (v j)" by (auto simp: heap_entries_def)
    then show False using inj [of ?k j] sub by auto
  qed
  from heap_insert [OF Suc.prems(1) this]
  have one: "heap_of (Suc i) (heap_entries (Suc i) v) v ws (v1, ws1)"
    using up by (simp add: heap_entries_def split [unfolded HEAP0_eq])
  then have v1: "v1 ` heap_range HEAP0 (Suc i) = v ` heap_range HEAP0 (Suc i)"
      "\<And>j. j \<notin> heap_range HEAP0 (Suc i) \<Longrightarrow> v1 j = v j"
    and ws1: "only_active (he_w ` heap_entries (Suc i) v) ws ws1" and ok1: "heap_ok (Suc i) v1 ws1"
    by (simp_all add: heap_of_def heap_entries_def)
  have image: "heap_entries ?n v1 = heap_entries ?n v"
  proof -
    have "v1 ` (heap_range HEAP0 ?n - heap_range HEAP0 (Suc i)) = v ` (heap_range HEAP0 ?n - heap_range HEAP0 (Suc i))"
      using v1(2) by (intro image_cong) auto
    moreover have "heap_range HEAP0 ?n = heap_range HEAP0 (Suc i) \<union> (heap_range HEAP0 ?n - heap_range HEAP0 (Suc i))"
      using pre by blast
    ultimately show ?thesis using v1(1) unfolding heap_entries_def by (metis image_Un)
  qed
  have low: "\<exists>a\<in>heap_range HEAP0 (Suc i). v1 j = v a" if "j \<in> heap_range HEAP0 (Suc i)" for j
    using v1(1) that by (metis imageE imageI)
  have "indexed_but {} HEAP0 ?n v1 ws1"
    unfolding indexed_but_def
  proof (intro conjI ballI inj_onI)
    fix a b
    assume ab: "a \<in> heap_range HEAP0 ?n" "b \<in> heap_range HEAP0 ?n" "he_w (v1 a) = he_w (v1 b)"
    show "a = b"
    proof (cases "a \<in> heap_range HEAP0 (Suc i) \<and> b \<in> heap_range HEAP0 (Suc i)")
      case True
      then show ?thesis using ok1 ab(3) by (auto simp: heap_ok_def indexed_but_def inj_on_def)
    next
      case False
      show ?thesis
      proof (cases "a \<notin> heap_range HEAP0 (Suc i) \<and> b \<notin> heap_range HEAP0 (Suc i)")
        case True
        then show ?thesis using inj ab v1(2) by simp
      next
        case mixed: False
        have "v1 x \<noteq> v1 y \<and> he_w (v1 x) \<noteq> he_w (v1 y)"
          if "x \<in> heap_range HEAP0 (Suc i)" "y \<in> heap_range HEAP0 ?n" "y \<notin> heap_range HEAP0 (Suc i)" for x y
        proof -
          note xy = that
          obtain c where "c \<in> heap_range HEAP0 (Suc i)" "v1 x = v c" using low [OF xy(1)] by blast
          then show ?thesis using inj [of c y] v1(2) [OF xy(3)] xy pre by auto
        qed
        then show ?thesis using False mixed ab by metis
      qed
    qed
  next
    fix j
    assume j: "j \<in> heap_range HEAP0 ?n - {}"
    show "w_active (ws1 (he_w (v1 j))) = j"
    proof (cases "j \<in> heap_range HEAP0 (Suc i)")
      case True
      then show ?thesis using ok1 by (simp add: heap_ok_def indexed_but_def)
    next
      case False
      have "he_w (v j) \<notin> he_w ` heap_entries (Suc i) v"
      proof
        assume "he_w (v j) \<in> he_w ` heap_entries (Suc i) v"
        then obtain a where "a \<in> heap_range HEAP0 (Suc i)" "he_w (v j) = he_w (v a)" by (auto simp: heap_entries_def)
        then show False using inj [of j a] False j pre by auto
      qed
      then have "ws1 (he_w (v j)) = ws (he_w (v j))" using ws1 by (simp add: only_active_def)
      then show ?thesis using Suc.prems(2) j v1(2) [OF False] by (simp add: indexed_but_def)
    qed
  qed
  from Suc.IH [OF ok1 this] have rest: "heap_of ?n (heap_entries ?n v) v1 ws1 (reheap_loop r (Suc i) v1 ws1)"
    by (simp only: image)
  obtain v2 ws2 where r: "reheap_loop r (Suc i) v1 ws1 = (v2, ws2)" by fastforce
  have "heap_entries (Suc i) v \<subseteq> heap_entries ?n v" using pre by (auto simp: heap_entries_def)
  then have "only_active (he_w ` heap_entries ?n v) ws ws2"
    using only_active_trans [OF ws1, of "he_w ` heap_entries ?n v" ws2] rest r by (simp add: heap_of_def image_mono)
  moreover have "v2 j = v j" if "j \<notin> heap_range HEAP0 ?n" for j
    using rest r v1(2) [of j] that pre by (auto simp: heap_of_def)
  ultimately show ?case using rest r up by (simp add: heap_of_def)
qed

lemma reheap_correct:
  assumes "indexed_but {} HEAP0 n v ws"
  shows "heap_of n (heap_entries n v) v ws (reheap v n ws)"
proof -
  have "heap_ok 0 v ws" by (simp add: heap_ok_def heap_ordered_def indexed_but_def heap_range_def)
  then show ?thesis using reheap_loop_correct [of 0 v ws n] assms by (simp add: reheap_def)
qed

end
