(* ===== verification/Ev_Pending.thy ===== *)
theory Ev_Pending
  imports Ev_Types
begin

unbundle bit_operations_syntax

text \<open>
  Arrays that grow, pending events, watcher lists and the reference count of the loop
  (\<^verbatim>\<open>src/deps/ev/ev.c\<close>).
\<close>

section \<open>Array sizes\<close>

definition MALLOC_ROUND :: int where "MALLOC_ROUND = 4096"

text \<open>Doubling until the count fits; \<open>cnt\<close> and \<open>ncur\<close> are positive and far below \<open>2 ^ 31\<close>.\<close>

function double_until :: "int \<Rightarrow> int \<Rightarrow> int" where
  "double_until cnt ncur =
     (let ncur = ncur * 2 in if ncur > 0 \<and> cnt > ncur then double_until cnt ncur else ncur)"
  by pat_completeness auto
termination
  by (relation "measure (\<lambda>(cnt, ncur). nat (cnt - ncur))") auto

declare double_until.simps [simp del]

definition array_nextsize :: "int \<Rightarrow> int \<Rightarrow> int \<Rightarrow> int" where
  "array_nextsize elem cur cnt =
     (let ncur = double_until cnt (cur + 1)
      in if elem * ncur > MALLOC_ROUND - 8 * 4
         then let ncur = ncur * elem;
                  ncur = (ncur + elem + (MALLOC_ROUND - 1) + 8 * 4) AND NOT (MALLOC_ROUND - 1);
                  ncur = ncur - 8 * 4
              in ncur div elem
         else ncur)"

section \<open>The reference count and the watcher's activity\<close>

definition ev_ref :: "'w ev_loop \<Rightarrow> 'w ev_loop" where
  "ev_ref l = l\<lparr>activecnt := activecnt l + 1\<rparr>"

definition ev_unref :: "'w ev_loop \<Rightarrow> 'w ev_loop" where
  "ev_unref l = l\<lparr>activecnt := activecnt l - 1\<rparr>"

definition pri_adjust :: "addr \<Rightarrow> 'w ev_loop \<Rightarrow> 'w ev_loop" where
  "pri_adjust w l =
     (let pri = w_priority (watchers l w);
          pri = (if pri < EV_MINPRI then EV_MINPRI else pri);
          pri = (if pri > EV_MAXPRI then EV_MAXPRI else pri)
      in upd_watcher w (\<lambda>x. x\<lparr>w_priority := pri\<rparr>) l)"

definition ev_start :: "addr \<Rightarrow> nat \<Rightarrow> 'w ev_loop \<Rightarrow> 'w ev_loop" where
  "ev_start w act l = ev_ref (upd_watcher w (\<lambda>x. x\<lparr>w_active := act\<rparr>) (pri_adjust w l))"

definition ev_stop :: "addr \<Rightarrow> 'w ev_loop \<Rightarrow> 'w ev_loop" where
  "ev_stop w l = upd_watcher w (\<lambda>x. x\<lparr>w_active := 0\<rparr>) (ev_unref l)"

definition ev_is_active :: "addr \<Rightarrow> 'w ev_loop \<Rightarrow> bool" where
  "ev_is_active w l \<longleftrightarrow> w_active (watchers l w) \<noteq> 0"

definition wlist_add :: "addr list \<Rightarrow> addr \<Rightarrow> addr list" where
  "wlist_add head elem = elem # head"

primrec wlist_del :: "addr list \<Rightarrow> addr \<Rightarrow> addr list" where
  "wlist_del [] elem = []"
| "wlist_del (w # ws) elem = (if w = elem then ws else w # wlist_del ws elem)"

section \<open>Pending events\<close>

definition ev_feed_event :: "addr \<Rightarrow> ev_mask \<Rightarrow> 'w ev_loop \<Rightarrow> 'w ev_loop" where
  "ev_feed_event w revents l =
     (let pri = abspri (watchers l w); p = w_pending (watchers l w); q = pendings l pri
      in if p \<noteq> 0
         then l\<lparr>pendings := (pendings l)(pri := q[p - 1 := (fst (q ! (p - 1)), snd (q ! (p - 1)) OR revents)])\<rparr>
         else let p = Suc (length q)
              in upd_watcher w (\<lambda>x. x\<lparr>w_pending := p\<rparr>) (l\<lparr>pendings := (pendings l)(pri := q @ [(w, revents)])\<rparr>))"

definition feed_reverse :: "addr \<Rightarrow> 'w ev_loop \<Rightarrow> 'w ev_loop" where
  "feed_reverse w l = l\<lparr>rfeeds := rfeeds l @ [w]\<rparr>"

text \<open>\<open>feed_reverse_done\<close> feeds the collected watchers from the last to the first; there is at least one.\<close>

primrec feed_all :: "addr list \<Rightarrow> ev_mask \<Rightarrow> 'w ev_loop \<Rightarrow> 'w ev_loop" where
  "feed_all [] revents l = l"
| "feed_all (w # ws) revents l = feed_all ws revents (ev_feed_event w revents l)"

definition feed_reverse_done :: "ev_mask \<Rightarrow> 'w ev_loop \<Rightarrow> 'w ev_loop" where
  "feed_reverse_done revents l = feed_all (rev (rfeeds l)) revents (l\<lparr>rfeeds := []\<rparr>)"

definition queue_events :: "addr list \<Rightarrow> ev_mask \<Rightarrow> 'w ev_loop \<Rightarrow> 'w ev_loop" where
  "queue_events events type l = feed_all events type l"

definition clear_pending :: "addr \<Rightarrow> 'w ev_loop \<Rightarrow> 'w ev_loop" where
  "clear_pending w l =
     (let pri = abspri (watchers l w); p = w_pending (watchers l w); q = pendings l pri
      in if p \<noteq> 0
         then upd_watcher w (\<lambda>x. x\<lparr>w_pending := 0\<rparr>)
                (l\<lparr>pendings := (pendings l)(pri := q[p - 1 := (pending_w, snd (q ! (p - 1)))])\<rparr>)
         else l)"

definition ev_clear_pending :: "addr \<Rightarrow> 'w ev_loop \<Rightarrow> ev_mask \<times> 'w ev_loop" where
  "ev_clear_pending w l =
     (let pri = abspri (watchers l w); p = w_pending (watchers l w); q = pendings l pri
      in if p \<noteq> 0
         then (snd (q ! (p - 1)),
               upd_watcher w (\<lambda>x. x\<lparr>w_pending := 0\<rparr>)
                (l\<lparr>pendings := (pendings l)(pri := q[p - 1 := (pending_w, snd (q ! (p - 1)))])\<rparr>))
         else (0, l))"

primrec count_pending :: "nat \<Rightarrow> 'w ev_loop \<Rightarrow> nat" where
  "count_pending 0 l = 0"
| "count_pending (Suc pri) l = length (pendings l pri) + count_pending pri l"

definition ev_pending_count :: "'w ev_loop \<Rightarrow> nat" where
  "ev_pending_count l = count_pending NUMPRI l"

section \<open>The invariant of the pending queues\<close>

text \<open>
  A pending watcher is found where its \<open>pending\<close> says, an entry that is not the dummy says
  so of its watcher, and the dummy itself is never pending. Priorities are in range.
\<close>

definition refs_ok :: "(addr \<Rightarrow> nat) \<Rightarrow> (addr \<Rightarrow> nat) \<Rightarrow> (nat \<Rightarrow> addr list) \<Rightarrow> bool" where
  "refs_ok p a q \<longleftrightarrow>
     (\<forall>w. p w \<noteq> 0 \<longrightarrow> p w \<le> length (q (a w)) \<and> q (a w) ! (p w - 1) = w) \<and>
     (\<forall>pri i. i < length (q pri) \<longrightarrow> q pri ! i \<noteq> pending_w \<longrightarrow>
        p (q pri ! i) = Suc i \<and> a (q pri ! i) = pri) \<and>
     p pending_w = 0"

definition pending_ok :: "'w ev_loop \<Rightarrow> bool" where
  "pending_ok l \<longleftrightarrow> refs_ok (\<lambda>w. w_pending (watchers l w)) (\<lambda>w. abspri (watchers l w))
     (\<lambda>pri. map fst (pendings l pri))"

section \<open>Lemmas\<close>

named_theorems loop_simps \<open>fields of the loop after an update\<close>

lemma upd_watcher_fields [loop_simps, simp]:
  "watchers (upd_watcher w f l) = (watchers l)(w := f (watchers l w))"
  "pendings (upd_watcher w f l) = pendings l"
  "activecnt (upd_watcher w f l) = activecnt l"
  "timers (upd_watcher w f l) = timers l" "timercnt (upd_watcher w f l) = timercnt l"
  "periodics (upd_watcher w f l) = periodics l" "periodiccnt (upd_watcher w f l) = periodiccnt l"
  "mn_now (upd_watcher w f l) = mn_now l" "ev_rt_now (upd_watcher w f l) = ev_rt_now l"
  "anfds (upd_watcher w f l) = anfds l" "fdchanges (upd_watcher w f l) = fdchanges l"
  "rfeeds (upd_watcher w f l) = rfeeds l" "ev_world (upd_watcher w f l) = ev_world l"
  by (simp_all add: upd_watcher_def)

lemma wlist_del_remove1: "wlist_del ws w = remove1 w ws"
  by (induction ws) auto

lemma double_until_ge:
  assumes "0 < ncur"
  shows "cnt \<le> double_until cnt ncur \<and> 2 * ncur \<le> double_until cnt ncur"
  using assms
proof (induction cnt ncur rule: double_until.induct)
  case (1 cnt ncur)
  then show ?case by (subst (1 2) double_until.simps) (auto simp: Let_def)
qed

lemma and_not_4095: "(x :: int) AND NOT (MALLOC_ROUND - 1) = x - x mod 4096"
proof -
  have M: "MALLOC_ROUND - 1 = mask 12" by (simp add: MALLOC_ROUND_def mask_eq_exp_minus_1)
  have "(x AND NOT (mask 12)) + take_bit 12 x = (x AND NOT (mask 12)) OR take_bit 12 x"
    by (rule disjunctive_add) (simp add: bit_simps)
  moreover have "(x AND NOT (mask 12)) OR take_bit 12 x = x"
    by (rule bit_eqI) (auto simp: bit_simps)
  ultimately show ?thesis unfolding M by (simp add: take_bit_eq_mod algebra_simps)
qed

lemma array_nextsize_ge:
  assumes "0 < elem" and "0 \<le> cur"
  shows "cnt \<le> array_nextsize elem cur cnt \<and> cur < array_nextsize elem cur cnt"
proof -
  define m where "m = double_until cnt (cur + 1)"
  have m: "cnt \<le> m" "2 * (cur + 1) \<le> m" using double_until_ge [of "cur + 1" cnt] assms(2) by (simp_all add: m_def)
  show ?thesis
  proof (cases "elem * m > MALLOC_ROUND - 8 * 4")
    case True
    let ?x = "m * elem + elem + (MALLOC_ROUND - 1) + 8 * 4"
    have "m * elem \<le> ?x - ?x mod 4096 - 8 * 4"
      using pos_mod_bound [of 4096 ?x] assms(1) by (simp add: MALLOC_ROUND_def)
    then have "m \<le> (?x - ?x mod 4096 - 8 * 4) div elem"
      using assms(1) by (simp add: zdiv_mono1 [of "m * elem" _ elem, simplified])
    moreover have "array_nextsize elem cur cnt = (?x - ?x mod 4096 - 8 * 4) div elem"
      using True by (simp add: array_nextsize_def m_def [symmetric] Let_def and_not_4095)
    ultimately show ?thesis using m assms(2) by simp
  next
    case False
    then show ?thesis using m assms(2) by (simp add: array_nextsize_def m_def [symmetric] Let_def)
  qed
qed

subsection \<open>The invariant on references\<close>

lemma refs_okI:
  assumes "\<And>w. p w \<noteq> 0 \<Longrightarrow> p w \<le> length (q (a w)) \<and> q (a w) ! (p w - 1) = w"
    and "\<And>pri i. i < length (q pri) \<Longrightarrow> q pri ! i \<noteq> pending_w \<Longrightarrow> p (q pri ! i) = Suc i \<and> a (q pri ! i) = pri"
    and "p pending_w = 0"
  shows "refs_ok p a q"
  using assms unfolding refs_ok_def by blast

lemma refs_okD:
  assumes "refs_ok p a q"
  shows "p w \<noteq> 0 \<Longrightarrow> p w \<le> length (q (a w))" "p w \<noteq> 0 \<Longrightarrow> q (a w) ! (p w - 1) = w"
    "i < length (q pri) \<Longrightarrow> q pri ! i \<noteq> pending_w \<Longrightarrow> p (q pri ! i) = Suc i"
    "i < length (q pri) \<Longrightarrow> q pri ! i \<noteq> pending_w \<Longrightarrow> a (q pri ! i) = pri" "p pending_w = 0"
  using assms unfolding refs_ok_def by blast+

lemma refs_ok_append:
  assumes "refs_ok p a q" and "p w = 0" and "w \<noteq> pending_w"
  shows "refs_ok (p(w := Suc (length (q (a w))))) a (q(a w := q (a w) @ [w]))"
proof (rule refs_okI)
  fix u
  assume u: "(p(w := Suc (length (q (a w))))) u \<noteq> 0"
  show "(p(w := Suc (length (q (a w))))) u \<le> length ((q(a w := q (a w) @ [w])) (a u)) \<and>
    (q(a w := q (a w) @ [w])) (a u) ! ((p(w := Suc (length (q (a w))))) u - 1) = u"
  proof (cases "u = w")
    case False
    then have "p u \<noteq> 0" using u by simp
    then have "p u - 1 < length (q (a u))" using refs_okD(1) [OF assms(1), of u] by simp
    then show ?thesis
      using False refs_okD(1,2) [OF assms(1) \<open>p u \<noteq> 0\<close>] by (auto simp: nth_append)
  qed simp
next
  fix pri i
  assume i: "i < length ((q(a w := q (a w) @ [w])) pri)" "(q(a w := q (a w) @ [w])) pri ! i \<noteq> pending_w"
  show "(p(w := Suc (length (q (a w))))) ((q(a w := q (a w) @ [w])) pri ! i) = Suc i \<and>
    a ((q(a w := q (a w) @ [w])) pri ! i) = pri"
  proof (cases "pri = a w \<and> i = length (q pri)")
    case True
    then show ?thesis by simp
  next
    case False
    then have old: "i < length (q pri)" "(q(a w := q (a w) @ [w])) pri ! i = q pri ! i"
      using i(1) by (auto simp: nth_append split: if_splits)
    then have "q pri ! i \<noteq> w" using refs_okD(3) [OF assms(1) old(1)] assms(2,3) by auto
    then show ?thesis using refs_okD(3,4) [OF assms(1) old(1)] i(2) old(2) by simp
  qed
qed (use assms refs_okD(5) [OF assms(1)] in simp)

lemma refs_ok_clear:
  assumes "refs_ok p a q" and "p w \<noteq> 0"
  shows "refs_ok (p(w := 0)) a (q(a w := (q (a w))[p w - 1 := pending_w]))"
proof (rule refs_okI)
  note w = refs_okD(1,2) [OF assms]
  fix u
  assume u: "(p(w := 0)) u \<noteq> 0"
  then have uw: "u \<noteq> w" "p u \<noteq> 0" by (auto split: if_splits)
  note u = refs_okD(1,2) [OF assms(1) uw(2)]
  have "a u = a w \<Longrightarrow> p u - 1 \<noteq> p w - 1" using u(2) w(2) uw(1) by auto
  then show "(p(w := 0)) u \<le> length ((q(a w := (q (a w))[p w - 1 := pending_w])) (a u)) \<and>
    (q(a w := (q (a w))[p w - 1 := pending_w])) (a u) ! ((p(w := 0)) u - 1) = u"
    using u uw(1) by (cases "a u = a w") (simp_all add: nth_list_update)
next
  fix pri i
  assume i: "i < length ((q(a w := (q (a w))[p w - 1 := pending_w])) pri)"
    "(q(a w := (q (a w))[p w - 1 := pending_w])) pri ! i \<noteq> pending_w"
  have old: "i < length (q pri)" using i(1) by (cases "pri = a w") simp_all
  then have new: "(q(a w := (q (a w))[p w - 1 := pending_w])) pri ! i = q pri ! i" and ni: "\<not> (pri = a w \<and> i = p w - 1)"
    using i(2) by (cases "pri = a w"; cases "i = p w - 1"; simp)+
  then have "q pri ! i \<noteq> w"
    using refs_okD(3,4) [OF assms(1) old] i(2) by auto
  then show "(p(w := 0)) ((q(a w := (q (a w))[p w - 1 := pending_w])) pri ! i) = Suc i \<and>
    a ((q(a w := (q (a w))[p w - 1 := pending_w])) pri ! i) = pri"
    using refs_okD(3,4) [OF assms(1) old] i(2) new by simp
qed (use refs_okD(5) [OF assms(1)] in simp)

lemma refs_ok_pop:
  assumes "refs_ok p a q" and "q pri \<noteq> []"
  shows "refs_ok (p(last (q pri) := 0)) a (q(pri := butlast (q pri)))"
proof (rule refs_okI)
  let ?w = "last (q pri)" and ?n = "length (q pri) - 1"
  have n: "?n < length (q pri)" "q pri ! ?n = ?w" using assms(2) by (simp_all add: last_conv_nth)
  fix u
  assume u: "(p(?w := 0)) u \<noteq> 0"
  then have uw: "u \<noteq> ?w" "p u \<noteq> 0" by (auto split: if_splits)
  note u = refs_okD(1,2) [OF assms(1) uw(2)]
  have "a u = pri \<Longrightarrow> p u - 1 \<noteq> ?n" using u(2) n(2) uw(1) by auto
  then show "(p(?w := 0)) u \<le> length ((q(pri := butlast (q pri))) (a u)) \<and>
    (q(pri := butlast (q pri))) (a u) ! ((p(?w := 0)) u - 1) = u"
    using u uw by (cases "a u = pri") (auto simp: nth_butlast)
next
  let ?w = "last (q pri)" and ?n = "length (q pri) - 1"
  have n: "?n < length (q pri)" "q pri ! ?n = ?w" using assms(2) by (simp_all add: last_conv_nth)
  fix pri' i
  assume i: "i < length ((q(pri := butlast (q pri))) pri')" "(q(pri := butlast (q pri))) pri' ! i \<noteq> pending_w"
  then have old: "i < length (q pri')" "(q(pri := butlast (q pri))) pri' ! i = q pri' ! i"
    "pri' = pri \<Longrightarrow> i < ?n"
    by (auto simp: nth_butlast split: if_splits)
  have "q pri' ! i \<noteq> ?w"
  proof
    assume eq: "q pri' ! i = ?w"
    then show False
      using refs_okD(3,4) [OF assms(1) old(1)] refs_okD(3,4) [OF assms(1) n(1)] n(2) i(2) old(2,3) by auto
  qed
  then show "(p(?w := 0)) ((q(pri := butlast (q pri))) pri' ! i) = Suc i \<and>
    a ((q(pri := butlast (q pri))) pri' ! i) = pri'"
    using refs_okD(3,4) [OF assms(1) old(1)] i(2) old(2) by simp
qed (use refs_okD(5) [OF assms(1)] in simp)

lemma refs_ok_pri: "refs_ok p a q \<Longrightarrow> p w = 0 \<Longrightarrow> refs_ok p (a(w := x)) q"
  by (force simp: refs_ok_def)

lemma pending_ok_feed:
  assumes "pending_ok l" and "w \<noteq> pending_w"
  shows "pending_ok (ev_feed_event w revents l)"
proof (cases "w_pending (watchers l w) = 0")
  case True
  let ?a = "abspri (watchers l w)"
  have "(\<lambda>u. w_pending (watchers (ev_feed_event w revents l) u)) =
      (\<lambda>u. w_pending (watchers l u))(w := Suc (length (map fst (pendings l ?a))))"
    "(\<lambda>u. abspri (watchers (ev_feed_event w revents l) u)) = (\<lambda>u. abspri (watchers l u))"
    "(\<lambda>pri. map fst (pendings (ev_feed_event w revents l) pri)) =
      (\<lambda>pri. map fst (pendings l pri))(?a := map fst (pendings l ?a) @ [w])"
    using True by (auto simp: ev_feed_event_def Let_def abspri_def fun_eq_iff)
  then show ?thesis
    using refs_ok_append [of "\<lambda>w. w_pending (watchers l w)" "\<lambda>w. abspri (watchers l w)" "\<lambda>pri. map fst (pendings l pri)" w]
      assms True by (simp add: pending_ok_def)
next
  case False
  have keep: "map fst (q[i := (fst (q ! i), x)]) = map fst q" for q :: "(addr \<times> ev_mask) list" and i x
    by (cases "i < length q") (simp_all add: map_update list_update_same_conv list_update_beyond)
  have "(\<lambda>pri. map fst (pendings (ev_feed_event w revents l) pri)) = (\<lambda>pri. map fst (pendings l pri))"
    using False keep by (auto simp: ev_feed_event_def Let_def fun_eq_iff)
  then show ?thesis
    using assms False by (simp add: pending_ok_def) (simp add: ev_feed_event_def Let_def)
qed

lemma pending_ok_clear:
  assumes "pending_ok l"
  shows "pending_ok (clear_pending w l)" "w_pending (watchers (clear_pending w l) w) = 0"
proof -
  let ?a = "abspri (watchers l w)" and ?p = "w_pending (watchers l w)"
  show "w_pending (watchers (clear_pending w l) w) = 0" by (simp add: clear_pending_def Let_def)
  show "pending_ok (clear_pending w l)"
  proof (cases "?p = 0")
    case True
    then show ?thesis using assms by (simp add: clear_pending_def Let_def)
  next
    case False
    then have "(\<lambda>u. w_pending (watchers (clear_pending w l) u)) = (\<lambda>u. w_pending (watchers l u))(w := 0)"
      "(\<lambda>u. abspri (watchers (clear_pending w l) u)) = (\<lambda>u. abspri (watchers l u))"
      "(\<lambda>pri. map fst (pendings (clear_pending w l) pri)) =
        (\<lambda>pri. map fst (pendings l pri))(?a := (map fst (pendings l ?a))[?p - 1 := pending_w])"
      by (auto simp: clear_pending_def Let_def abspri_def fun_eq_iff map_update)
    then show ?thesis
      using refs_ok_clear [of "\<lambda>w. w_pending (watchers l w)" "\<lambda>w. abspri (watchers l w)" "\<lambda>pri. map fst (pendings l pri)" w]
        assms False by (simp add: pending_ok_def)
  qed
qed

lemma pending_ok_upd:
  assumes "pending_ok l" and "\<And>x. w_pending (f x) = w_pending x"
    and "(\<forall>x. w_priority (f x) = w_priority x) \<or> w_pending (watchers l w) = 0"
  shows "pending_ok (upd_watcher w f l)"
proof -
  have p: "(\<lambda>u. w_pending (watchers (upd_watcher w f l) u)) = (\<lambda>u. w_pending (watchers l u))"
    using assms(2) by (auto simp: fun_eq_iff)
  have a: "(\<lambda>u. abspri (watchers (upd_watcher w f l) u)) =
      (\<lambda>u. abspri (watchers l u))(w := abspri (f (watchers l w)))"
    by (auto simp: fun_eq_iff)
  show ?thesis
  proof (cases "w_pending (watchers l w) = 0")
    case True
    then show ?thesis unfolding pending_ok_def p a
      using assms(1) by (simp add: pending_ok_def refs_ok_pri)
  next
    case False
    then have "abspri (f (watchers l w)) = abspri (watchers l w)" using assms(3) by (auto simp: abspri_def)
    then show ?thesis unfolding pending_ok_def p a
      using assms(1) by (simp add: pending_ok_def fun_upd_idem)
  qed
qed

end
