(* ===== verification/Ev_Fd.thy ===== *)
theory Ev_Fd
  imports Ev_Pending
begin

unbundle bit_operations_syntax

text \<open>
  File descriptors: events of descriptors and their watchers, and the list of changed
  descriptors (\<^verbatim>\<open>src/deps/ev/ev.c\<close>).
\<close>

section \<open>Events of a descriptor\<close>

text \<open>\<open>anfds [fd]\<close>; its length is \<open>anfdmax\<close>.\<close>

definition anfd_at :: "nat \<Rightarrow> 'w ev_loop \<Rightarrow> anfd outcome" where
  "anfd_at fd l = (if fd < length (anfds l) then Ok (anfds l ! fd) else Fault Out_of_bounds)"

definition put_anfd :: "nat \<Rightarrow> anfd \<Rightarrow> 'w ev_loop \<Rightarrow> 'w ev_loop" where
  "put_anfd fd a l = l\<lparr>anfds := (anfds l)[fd := a]\<rparr>"

primrec feed_ios :: "addr list \<Rightarrow> ev_mask \<Rightarrow> 'w ev_loop \<Rightarrow> 'w ev_loop" where
  "feed_ios [] revents l = l"
| "feed_ios (w # ws) revents l =
     feed_ios ws revents
       (let ev = w_events (watchers l w) AND revents
        in if ev \<noteq> 0 then ev_feed_event w ev l else l)"

definition fd_event_nocheck :: "nat \<Rightarrow> ev_mask \<Rightarrow> 'w ev_loop \<Rightarrow> 'w ev_loop outcome" where
  "fd_event_nocheck fd revents l = obind (anfd_at fd l) (\<lambda>a. Ok (feed_ios (fd_head a) revents l))"

definition fd_event :: "nat \<Rightarrow> ev_mask \<Rightarrow> 'w ev_loop \<Rightarrow> 'w ev_loop outcome" where
  "fd_event fd revents l =
     obind (anfd_at fd l) (\<lambda>a. if fd_reify_flag a = 0 then fd_event_nocheck fd revents l else Ok l)"

definition ev_feed_fd_event :: "int \<Rightarrow> ev_mask \<Rightarrow> 'w ev_loop \<Rightarrow> 'w ev_loop outcome" where
  "ev_feed_fd_event fd revents l =
     (if fd \<ge> 0 \<and> fd < int (length (anfds l)) then fd_event_nocheck (nat fd) revents l else Ok l)"

definition fd_change :: "nat \<Rightarrow> ev_mask \<Rightarrow> 'w ev_loop \<Rightarrow> 'w ev_loop outcome" where
  "fd_change fd flags l =
     obind (anfd_at fd l) (\<lambda>a.
       let reify = fd_reify_flag a;
           l = put_anfd fd (a\<lparr>fd_reify_flag := (reify OR flags) AND 0xFF\<rparr>) l
       in Ok (if reify = 0 then l\<lparr>fdchanges := fdchanges l @ [fd]\<rparr> else l))"

section \<open>Watchers of descriptors\<close>

definition no_anfd :: anfd where
  "no_anfd = \<lparr>fd_head = [], fd_events = 0, fd_reify_flag = 0, fd_emask = 0, fd_egen = 0\<rparr>"

text \<open>\<open>array_needsize\<close> with zeroed memory; \<open>sizeof (ANFD)\<close> is 16.\<close>

definition anfds_needsize :: "nat \<Rightarrow> 'w ev_loop \<Rightarrow> 'w ev_loop" where
  "anfds_needsize cnt l =
     (if cnt > length (anfds l)
      then l\<lparr>anfds := anfds l @ replicate
        (nat (array_nextsize 16 (int (length (anfds l))) (int cnt)) - length (anfds l)) no_anfd\<rparr>
      else l)"

definition ev_io_start :: "addr \<Rightarrow> 'w ev_loop \<Rightarrow> 'w ev_loop outcome" where
  "ev_io_start w l =
     (if ev_is_active w l then Ok l
      else
        let fd = w_fd (watchers l w); ev = w_events (watchers l w)
        in obind (g_assert (fd \<ge> 0)) (\<lambda>_.
           obind (g_assert (ev AND NOT (EV__IOFDSET OR EV_READ OR EV_WRITE) = 0)) (\<lambda>_.
           let l = anfds_needsize (nat fd + 1) (ev_start w 1 l)
           in obind (anfd_at (nat fd) l) (\<lambda>a.
           let l = put_anfd (nat fd) (a\<lparr>fd_head := wlist_add (fd_head a) w\<rparr>) l
           in obind (fd_change (nat fd) (ev AND EV__IOFDSET OR EV_ANFD_REIFY) l) (\<lambda>l.
           Ok (upd_watcher w (\<lambda>x. x\<lparr>w_events := w_events x AND NOT EV__IOFDSET\<rparr>) l))))))"

definition ev_io_stop :: "addr \<Rightarrow> 'w ev_loop \<Rightarrow> 'w ev_loop outcome" where
  "ev_io_stop w l =
     (let l = clear_pending w l
      in if \<not> ev_is_active w l then Ok l
         else
           let fd = w_fd (watchers l w)
           in obind (g_assert (fd \<ge> 0 \<and> fd < int (length (anfds l)))) (\<lambda>_.
              obind (anfd_at (nat fd) l) (\<lambda>a.
              let l = ev_stop w (put_anfd (nat fd) (a\<lparr>fd_head := wlist_del (fd_head a) w\<rparr>) l)
              in fd_change (nat fd) EV_ANFD_REIFY l)))"

section \<open>Bad descriptors\<close>

text \<open>
  \<open>while ((w = anfds [fd].head))\<close>: every round stops the first watcher. A round that did not
  take it off the list would repeat for ever; the fuel is the length of the list, and using
  it up is a fault.
\<close>

primrec fd_kill_loop :: "nat \<Rightarrow> nat \<Rightarrow> 'w ev_loop \<Rightarrow> 'w ev_loop outcome" where
  "fd_kill_loop 0 fd l =
     obind (anfd_at fd l) (\<lambda>a. if fd_head a = [] then Ok l else Fault Out_of_fuel)"
| "fd_kill_loop (Suc n) fd l =
     obind (anfd_at fd l) (\<lambda>a.
       case fd_head a of [] \<Rightarrow> Ok l
       | w # _ \<Rightarrow> obind (ev_io_stop w l) (\<lambda>l.
           fd_kill_loop n fd (ev_feed_event w (EV_ERROR OR EV_READ OR EV_WRITE) l)))"

definition fd_kill :: "nat \<Rightarrow> 'w ev_loop \<Rightarrow> 'w ev_loop outcome" where
  "fd_kill fd l = obind (anfd_at fd l) (\<lambda>a. fd_kill_loop (length (fd_head a)) fd l)"

text \<open>\<open>fd_valid\<close> answers for the moment of the call; a descriptor that is not valid gives \<open>EBADF\<close>.\<close>

primrec fd_ebadf_loop :: "'w ev_env \<Rightarrow> nat list \<Rightarrow> 'w ev_loop \<Rightarrow> 'w ev_loop outcome" where
  "fd_ebadf_loop env [] l = Ok l"
| "fd_ebadf_loop env (fd # fds) l =
     obind (anfd_at fd l) (\<lambda>a.
       obind (if fd_events a \<noteq> 0 \<and> \<not> fd_valid env fd (ev_world l) then fd_kill fd l else Ok l)
         (fd_ebadf_loop env fds))"

definition fd_ebadf :: "'w ev_env \<Rightarrow> 'w ev_loop \<Rightarrow> 'w ev_loop outcome" where
  "fd_ebadf env l = fd_ebadf_loop env [0..<length (anfds l)] l"

primrec fd_enomem_loop :: "nat list \<Rightarrow> 'w ev_loop \<Rightarrow> 'w ev_loop outcome" where
  "fd_enomem_loop [] l = Ok l"
| "fd_enomem_loop (fd # fds) l =
     obind (anfd_at fd l) (\<lambda>a. if fd_events a \<noteq> 0 then fd_kill fd l else fd_enomem_loop fds l)"

definition fd_enomem :: "'w ev_loop \<Rightarrow> 'w ev_loop outcome" where
  "fd_enomem l = fd_enomem_loop (rev [0..<length (anfds l)]) l"

primrec fd_rearm_loop :: "nat list \<Rightarrow> 'w ev_loop \<Rightarrow> 'w ev_loop outcome" where
  "fd_rearm_loop [] l = Ok l"
| "fd_rearm_loop (fd # fds) l =
     obind (anfd_at fd l) (\<lambda>a.
       obind (if fd_events a \<noteq> 0
              then fd_change fd (EV__IOFDSET OR EV_ANFD_REIFY) (put_anfd fd (a\<lparr>fd_events := 0, fd_emask := 0\<rparr>) l)
              else Ok l)
         (fd_rearm_loop fds))"

definition fd_rearm_all :: "'w ev_loop \<Rightarrow> 'w ev_loop outcome" where
  "fd_rearm_all l = fd_rearm_loop [0..<length (anfds l)] l"

section \<open>Error numbers\<close>

definition EINTR :: int where "EINTR = 4"
definition EBADF :: int where "EBADF = 9"
definition ENOMEM :: int where "ENOMEM = 12"

section \<open>Read and write masks\<close>

text \<open>What the watchers of a list ask for together.\<close>

definition or_events :: "'w ev_loop \<Rightarrow> addr list \<Rightarrow> ev_mask" where
  "or_events l ws = foldl (\<lambda>e w. e OR (w_events (watchers l w) AND 0xFF)) 0 ws"

definition rw_mask :: "ev_mask \<Rightarrow> bool" where
  "rw_mask e \<longleftrightarrow> e AND NOT (EV_READ OR EV_WRITE) = 0"

lemma rw_mask_cases: "rw_mask e \<longleftrightarrow> e \<in> {0, EV_READ, EV_WRITE, EV_READ OR EV_WRITE}"
proof
  assume e: "rw_mask e"
  have "e = (e AND 3) OR (e AND NOT 3)" by (rule bit_word_eqI) (auto simp: bit_simps)
  also have "e AND 3 = take_bit 2 e" by (simp add: take_bit_eq_mask mask_eq_exp_minus_1)
  finally have e3: "e = take_bit 2 e" using e by (simp add: rw_mask_def ev_mask_defs)
  have "uint (take_bit 2 e) = uint e mod 4" by (simp only: unsigned_take_bit_eq) (simp add: take_bit_eq_mod)
  then have "uint e < 4" using e3 by simp
  moreover have "0 \<le> uint e" by simp
  ultimately have "uint e = 0 \<or> uint e = 1 \<or> uint e = 2 \<or> uint e = 3" by arith
  then have "e = 0 \<or> e = 1 \<or> e = 2 \<or> e = 3" by (auto simp: word_uint_eq_iff)
  then show "e \<in> {0, EV_READ, EV_WRITE, EV_READ OR EV_WRITE}" by (auto simp: ev_mask_defs)
qed (auto simp: rw_mask_def ev_mask_defs)

lemma rw_mask_or [intro]: "rw_mask e \<Longrightarrow> rw_mask f \<Longrightarrow> rw_mask (e OR f)"
  by (auto simp: rw_mask_cases ev_mask_defs)

lemma rw_mask_low: "rw_mask e \<Longrightarrow> e AND 0xFF = e"
  by (auto simp: rw_mask_cases ev_mask_defs)

lemma rw_mask_0 [simp]: "rw_mask 0"
  by (simp add: rw_mask_def)

lemma rw_mask_or_events:
  assumes "\<And>w. w \<in> set ws \<Longrightarrow> rw_mask (w_events (watchers l w))"
  shows "rw_mask (or_events l ws)"
proof -
  have "rw_mask e \<Longrightarrow> rw_mask (foldl (\<lambda>e w. e OR (w_events (watchers l w) AND 0xFF)) e ws)" for e
    using assms by (induction ws arbitrary: e) (auto simp: rw_mask_low)
  then show ?thesis by (simp add: or_events_def)
qed

section \<open>The books\<close>

text \<open>
  The part of the loop that changing the backend's view does not touch, and the part that
  keeping the books on descriptors does not touch.
\<close>

definition backend_core :: "'w ev_loop \<Rightarrow> 'w ev_loop" where
  "backend_core l = l\<lparr>polls := [], pollidxs := [], vec_ri := [], vec_wi := [], kqueue_changes := []\<rparr>"

definition fd_core :: "'w ev_loop \<Rightarrow> 'w ev_loop" where
  "fd_core l = l\<lparr>polls := [], pollidxs := [], vec_ri := [], vec_wi := [], kqueue_changes := [], anfds := [], fdchanges := []\<rparr>"

text \<open>Two loops with the same view of the backend.\<close>

definition same_backend :: "'w ev_loop \<Rightarrow> 'w ev_loop \<Rightarrow> bool" where
  "same_backend l' l \<longleftrightarrow>
     polls l' = polls l \<and> pollidxs l' = pollidxs l \<and> vec_ri l' = vec_ri l \<and> vec_wi l' = vec_wi l \<and>
     kqueue_changes l' = kqueue_changes l"

lemma same_backend_trans: "same_backend l'' l' \<Longrightarrow> same_backend l' l \<Longrightarrow> same_backend l'' l"
  by (simp add: same_backend_def)

lemma backend_coreD:
  assumes "backend_core l' = backend_core l"
  shows "fd_core l' = fd_core l" "anfds l' = anfds l" "fdchanges l' = fdchanges l"
    "watchers l' = watchers l" "backend_modify l' = backend_modify l"
proof -
  have "fd_core (backend_core l') = fd_core (backend_core l)" "anfds (backend_core l') = anfds (backend_core l)"
    "fdchanges (backend_core l') = fdchanges (backend_core l)"
    "watchers (backend_core l') = watchers (backend_core l)"
    "backend_modify (backend_core l') = backend_modify (backend_core l)"
    using assms by simp_all
  then show "fd_core l' = fd_core l" "anfds l' = anfds l" "fdchanges l' = fdchanges l"
    "watchers l' = watchers l" "backend_modify l' = backend_modify l"
    by (simp_all add: backend_core_def fd_core_def)
qed

lemma fd_coreD:
  assumes "fd_core l' = fd_core l"
  shows "watchers l' = watchers l" "backend_modify l' = backend_modify l" "pendings l' = pendings l"
    "timers l' = timers l" "timercnt l' = timercnt l" "periodics l' = periodics l"
    "periodiccnt l' = periodiccnt l" "activecnt l' = activecnt l" "mn_now l' = mn_now l"
    "ev_rt_now l' = ev_rt_now l" "rfeeds l' = rfeeds l" "ev_world l' = ev_world l"
proof -
  have "watchers (fd_core l') = watchers (fd_core l)"
    "backend_modify (fd_core l') = backend_modify (fd_core l)"
    "pendings (fd_core l') = pendings (fd_core l)"
    "timers (fd_core l') = timers (fd_core l)"
    "timercnt (fd_core l') = timercnt (fd_core l)"
    "periodics (fd_core l') = periodics (fd_core l)"
    "periodiccnt (fd_core l') = periodiccnt (fd_core l)"
    "activecnt (fd_core l') = activecnt (fd_core l)"
    "mn_now (fd_core l') = mn_now (fd_core l)"
    "ev_rt_now (fd_core l') = ev_rt_now (fd_core l)"
    "rfeeds (fd_core l') = rfeeds (fd_core l)"
    "ev_world (fd_core l') = ev_world (fd_core l)"
    using assms by simp_all
  then show "watchers l' = watchers l" "backend_modify l' = backend_modify l" "pendings l' = pendings l"
    "timers l' = timers l" "timercnt l' = timercnt l" "periodics l' = periodics l"
    "periodiccnt l' = periodiccnt l" "activecnt l' = activecnt l" "mn_now l' = mn_now l"
    "ev_rt_now l' = ev_rt_now l" "rfeeds l' = rfeeds l" "ev_world l' = ev_world l"
    by (simp_all add: fd_core_def)
qed

text \<open>
  The books: the changed descriptors are those marked, the lists hold active watchers of
  their descriptor with read and write events only, and what is recorded of a descriptor
  that has not changed is the union of what its watchers ask for. \<open>chs\<close> stands for
  \<open>fdchanges\<close>, of which \<open>fd_reify\<close> works off a suffix.
\<close>

definition io_lists_ok :: "'w ev_loop \<Rightarrow> bool" where
  "io_lists_ok l \<longleftrightarrow> (\<forall>fd < length (anfds l).
     distinct (fd_head (anfds l ! fd)) \<and>
     (\<forall>w \<in> set (fd_head (anfds l ! fd)).
        w_fd (watchers l w) = int fd \<and> w_active (watchers l w) = 1 \<and> rw_mask (w_events (watchers l w))))"

definition fds_ok_for :: "nat list \<Rightarrow> 'w ev_loop \<Rightarrow> bool" where
  "fds_ok_for chs l \<longleftrightarrow> io_lists_ok l \<and> distinct chs \<and>
     (\<forall>fd \<in> set chs. fd < length (anfds l)) \<and>
     (\<forall>fd < length (anfds l).
        (fd_reify_flag (anfds l ! fd) \<noteq> 0) = (fd \<in> set chs) \<and>
        rw_mask (fd_events (anfds l ! fd)) \<and>
        (fd \<notin> set chs \<longrightarrow> fd_events (anfds l ! fd) = or_events l (fd_head (anfds l ! fd))))"

definition fds_ok :: "'w ev_loop \<Rightarrow> bool" where
  "fds_ok l \<longleftrightarrow> fds_ok_for (fdchanges l) l"

text \<open>The kernel watches exactly what is recorded.\<close>

definition kernel_synced :: "('w ev_loop \<Rightarrow> nat \<Rightarrow> ev_mask) \<Rightarrow> 'w ev_loop \<Rightarrow> bool" where
  "kernel_synced kmask l \<longleftrightarrow>
     (\<forall>fd. kmask l fd = (if fd < length (anfds l) then fd_events (anfds l ! fd) else 0))"
lemma or_events_cong:
  "(\<And>w. w \<in> set ws \<Longrightarrow> w_events (watchers l' w) = w_events (watchers l w)) \<Longrightarrow> or_events l' ws = or_events l ws"
  unfolding or_events_def by (intro foldl_cong) auto

lemma fds_ok_touch:
  assumes ok: "fds_ok l" and fd: "fd < length (anfds l)" and ws: "distinct ws" and r: "r \<noteq> 0"
    and anfds: "anfds l' = (anfds l)[fd := (anfds l ! fd)\<lparr>fd_head := ws, fd_reify_flag := r\<rparr>]"
    and chs: "fdchanges l' = (if fd \<in> set (fdchanges l) then fdchanges l else fdchanges l @ [fd])"
    and new: "\<And>w. w \<in> set ws \<Longrightarrow>
      w_fd (watchers l' w) = int fd \<and> w_active (watchers l' w) = 1 \<and> rw_mask (w_events (watchers l' w))"
    and old: "\<And>k w. k < length (anfds l) \<Longrightarrow> k \<noteq> fd \<Longrightarrow> w \<in> set (fd_head (anfds l ! k)) \<Longrightarrow>
      w_fd (watchers l' w) = w_fd (watchers l w) \<and> w_active (watchers l' w) = w_active (watchers l w) \<and>
      w_events (watchers l' w) = w_events (watchers l w)"
  shows "fds_ok l'"
proof -
  have a: "anfds l' ! k = (if k = fd then (anfds l ! fd)\<lparr>fd_head := ws, fd_reify_flag := r\<rparr> else anfds l ! k)"
    if "k < length (anfds l)" for k
    using that by (simp add: anfds nth_list_update)
  have len: "length (anfds l') = length (anfds l)" by (simp add: anfds)
  have io: "io_lists_ok l'"
    unfolding io_lists_ok_def len
  proof (intro allI impI conjI ballI)
    fix k assume k: "k < length (anfds l)"
    then show "distinct (fd_head (anfds l' ! k))"
      using ok ws by (auto simp: a fds_ok_def fds_ok_for_def io_lists_ok_def)
    fix w assume w: "w \<in> set (fd_head (anfds l' ! k))"
    show "w_fd (watchers l' w) = int k" "w_active (watchers l' w) = 1" "rw_mask (w_events (watchers l' w))"
      using ok k w new [of w] old [OF k, of w]
      by (auto simp: a fds_ok_def fds_ok_for_def io_lists_ok_def split: if_splits)
  qed
  have ev: "or_events l' (fd_head (anfds l ! k)) = or_events l (fd_head (anfds l ! k))"
    if "k < length (anfds l)" "k \<noteq> fd" for k
    by (rule or_events_cong) (use old [OF that] in blast)
  show ?thesis
    using ok fd r io by (auto simp: fds_ok_def fds_ok_for_def len a chs ev)
qed

lemma fds_ok_flag:
  "fds_ok l \<Longrightarrow> fd < length (anfds l) \<Longrightarrow> (fd_reify_flag (anfds l ! fd) = 0) = (fd \<notin> set (fdchanges l))"
  by (auto simp: fds_ok_def fds_ok_for_def)

lemma fd_change_eq:
  assumes "fd < length (anfds l)" "(fd_reify_flag (anfds l ! fd) = 0) = (fd \<notin> set (fdchanges l))"
  shows "fd_change fd flags (put_anfd fd ((anfds l ! fd)\<lparr>fd_head := ws\<rparr>) l) =
    Ok (l\<lparr>anfds := (anfds l)[fd := (anfds l ! fd)\<lparr>fd_head := ws,
            fd_reify_flag := (fd_reify_flag (anfds l ! fd) OR flags) AND 0xFF\<rparr>],
          fdchanges := (if fd \<in> set (fdchanges l) then fdchanges l else fdchanges l @ [fd])\<rparr>)"
  using assms by (simp add: fd_change_def anfd_at_def put_anfd_def Let_def)

lemma or_reify_nonzero: "((r :: ev_mask) OR (f OR EV_ANFD_REIFY)) AND 0xFF \<noteq> 0"
proof -
  have "bit ((r OR (f OR EV_ANFD_REIFY)) AND 0xFF) 0" by (simp add: EV_ANFD_REIFY_def bit_simps)
  then show ?thesis by (metis bit_0_eq bot_apply bot_bool_def)
qed

lemma fds_ok_needsize:
  assumes "fds_ok l"
  shows "fds_ok (anfds_needsize cnt l)" "cnt \<le> length (anfds (anfds_needsize cnt l))"
    "fdchanges (anfds_needsize cnt l) = fdchanges l" "fd_core (anfds_needsize cnt l) = fd_core l"
    "same_backend (anfds_needsize cnt l) l"
    "\<exists>n. anfds (anfds_needsize cnt l) = anfds l @ replicate n no_anfd"
proof -
  let ?l = "anfds_needsize cnt l"
  obtain n where n: "anfds ?l = anfds l @ replicate n no_anfd"
    by (cases "cnt > length (anfds l)") (auto simp: anfds_needsize_def intro: that [of 0])
  then show "\<exists>n. anfds ?l = anfds l @ replicate n no_anfd" by blast
  show f: "fdchanges ?l = fdchanges l" "fd_core ?l = fd_core l" "same_backend ?l l"
    by (simp_all add: anfds_needsize_def fd_core_def same_backend_def)
  have "io_lists_ok ?l"
    using assms fd_coreD(1) [OF f(2)]
    by (auto simp: fds_ok_def fds_ok_for_def io_lists_ok_def n nth_append no_anfd_def)
  then show "fds_ok ?l"
    using assms fd_coreD(1) [OF f(2)]
    by (auto simp: fds_ok_def fds_ok_for_def n f nth_append no_anfd_def or_events_def)
  show "cnt \<le> length (anfds ?l)"
    using array_nextsize_ge [of 16 "int (length (anfds l))" "int cnt"] by (auto simp: anfds_needsize_def)
qed

lemma kernel_synced_keep:
  assumes "kernel_synced km l" "km' l' = km l" "map fd_events (anfds l') = map fd_events (anfds l) @ replicate n 0"
  shows "kernel_synced km' l'"
  unfolding kernel_synced_def
proof
  fix fd
  have len: "length (anfds l') = length (anfds l) + n" using assms(3) by (metis length_append length_map length_replicate)
  have "fd_events (anfds l' ! fd) = (map fd_events (anfds l) @ replicate n 0) ! fd" if "fd < length (anfds l')"
    using that assms(3) by (metis nth_map)
  then show "km' l' fd = (if fd < length (anfds l') then fd_events (anfds l' ! fd) else 0)"
    using assms(1,2) len by (auto simp: kernel_synced_def nth_append)
qed

lemma clear_pending_keeps:
  "anfds (clear_pending w l) = anfds l" "fdchanges (clear_pending w l) = fdchanges l"
  "same_backend (clear_pending w l) l"
  "activecnt (clear_pending w l) = activecnt l" "backend_modify (clear_pending w l) = backend_modify l"
  "w_fd (watchers (clear_pending w l) x) = w_fd (watchers l x)"
  "w_active (watchers (clear_pending w l) x) = w_active (watchers l x)"
  "w_events (watchers (clear_pending w l) x) = w_events (watchers l x)"
  "abspri (watchers (clear_pending w l) x) = abspri (watchers l x)"
  by (simp_all add: clear_pending_def Let_def upd_watcher_def abspri_def same_backend_def)

lemma ev_feed_event_keeps:
  "anfds (ev_feed_event w e l) = anfds l" "fdchanges (ev_feed_event w e l) = fdchanges l"
  "same_backend (ev_feed_event w e l) l"
  "activecnt (ev_feed_event w e l) = activecnt l" "backend_modify (ev_feed_event w e l) = backend_modify l"
  "w_fd (watchers (ev_feed_event w e l) x) = w_fd (watchers l x)"
  "w_active (watchers (ev_feed_event w e l) x) = w_active (watchers l x)"
  "w_events (watchers (ev_feed_event w e l) x) = w_events (watchers l x)"
  "abspri (watchers (ev_feed_event w e l) x) = abspri (watchers l x)"
  by (simp_all add: ev_feed_event_def Let_def upd_watcher_def abspri_def same_backend_def)

lemma fds_ok_frame:
  assumes "fds_ok l" "anfds l' = anfds l" "fdchanges l' = fdchanges l"
    "\<And>x. w_fd (watchers l' x) = w_fd (watchers l x)" "\<And>x. w_active (watchers l' x) = w_active (watchers l x)"
    "\<And>x. w_events (watchers l' x) = w_events (watchers l x)"
  shows "fds_ok l'"
  using assms by (simp add: fds_ok_def fds_ok_for_def io_lists_ok_def or_events_def)

section \<open>Queued events\<close>

definition queued :: "addr \<Rightarrow> ev_mask \<Rightarrow> 'w ev_loop \<Rightarrow> bool" where
  "queued w ev l \<longleftrightarrow> w_pending (watchers l w) \<noteq> 0 \<and>
     w_pending (watchers l w) \<le> length (pendings l (abspri (watchers l w))) \<and>
     pendings l (abspri (watchers l w)) ! (w_pending (watchers l w) - 1) = (w, ev)"

lemma queued_feed:
  assumes "w_pending (watchers l w) = 0"
  shows "queued w ev (ev_feed_event w ev l)"
  using assms by (simp add: queued_def ev_feed_event_def Let_def abspri_def)

lemma queued_feed_other:
  assumes "queued w ev l" "x \<noteq> w" "pending_ok l"
  shows "queued w ev (ev_feed_event x ev' l)"
proof (cases "w_pending (watchers l x) = 0")
  case True
  then show ?thesis
    using assms by (auto simp: queued_def ev_feed_event_def Let_def abspri_def nth_append)
next
  case False
  have "abspri (watchers l x) = abspri (watchers l w) \<Longrightarrow> w_pending (watchers l x) - 1 \<noteq> w_pending (watchers l w) - 1"
    using refs_okD(2) [OF assms(3) [unfolded pending_ok_def], of x] refs_okD(2) [OF assms(3) [unfolded pending_ok_def], of w]
      assms(1,2) False by (auto simp: queued_def)
  then show ?thesis
    using assms False by (auto simp: queued_def ev_feed_event_def Let_def nth_list_update)
qed

lemma queued_clear_other:
  assumes "queued w ev l" "x \<noteq> w" "pending_ok l"
  shows "queued w ev (clear_pending x l)"
proof -
  have "w_pending (watchers l x) \<noteq> 0 \<Longrightarrow> abspri (watchers l x) = abspri (watchers l w) \<Longrightarrow>
      w_pending (watchers l x) - 1 \<noteq> w_pending (watchers l w) - 1"
    using refs_okD(2) [OF assms(3) [unfolded pending_ok_def], of x] refs_okD(2) [OF assms(3) [unfolded pending_ok_def], of w]
      assms(1,2) by (auto simp: queued_def)
  then show ?thesis
    using assms(1,2) by (auto simp: queued_def clear_pending_def Let_def nth_list_update)
qed

text \<open>A watcher that has at least these events waiting.\<close>

definition queued_with :: "addr \<Rightarrow> ev_mask \<Rightarrow> 'w ev_loop \<Rightarrow> bool" where
  "queued_with w ev l \<longleftrightarrow> (\<exists>e. queued w e l \<and> e AND ev = ev)"

lemma queued_with_feed:
  assumes "pending_ok l" "w \<noteq> pending_w"
  shows "queued_with w ev (ev_feed_event w ev l)"
proof (cases "w_pending (watchers l w) = 0")
  case True
  then show ?thesis using queued_feed [OF True, of ev] by (auto simp: queued_with_def)
next
  case False
  let ?q = "pendings l (abspri (watchers l w))" and ?i = "w_pending (watchers l w) - 1"
  have i: "w_pending (watchers l w) \<le> length ?q" "fst (?q ! ?i) = w"
    using refs_okD(1,2) [OF assms(1) [unfolded pending_ok_def] False] False by (auto simp: nth_map)
  then have "queued w (snd (?q ! ?i) OR ev) (ev_feed_event w ev l)"
    using False by (simp add: queued_def ev_feed_event_def Let_def)
  moreover have "(snd (?q ! ?i) OR ev) AND ev = ev" by (rule bit_word_eqI) (auto simp: bit_simps)
  ultimately show ?thesis unfolding queued_with_def by blast
qed

lemma queued_with_feed_other:
  assumes "queued_with w ev l" "x \<noteq> w" "pending_ok l"
  shows "queued_with w ev (ev_feed_event x ev' l)"
  using assms queued_feed_other unfolding queued_with_def by blast

lemma queued_with_upd:
  assumes "\<And>x. w_pending (f x) = w_pending x" "\<And>x. w_priority (f x) = w_priority x"
  shows "queued_with w ev (upd_watcher x f l) = queued_with w ev l"
  using assms by (auto simp: queued_with_def queued_def abspri_def)

lemma queued_with_keep:
  assumes "queued_with w ev l" "pending_ok l" "x \<noteq> pending_w"
  shows "queued_with w ev (ev_feed_event x ev' l)"
proof (cases "x = w")
  case True
  obtain e where e: "queued w e l" "e AND ev = ev" using assms(1) by (auto simp: queued_with_def)
  then have "w_pending (watchers l w) - 1 < length (pendings l (abspri (watchers l w)))" by (auto simp: queued_def)
  then have "queued w (e OR ev') (ev_feed_event w ev' l)"
    using e(1) by (simp add: queued_def ev_feed_event_def Let_def)
  moreover have "(e OR ev') AND ev = ev"
  proof (rule bit_word_eqI)
    fix n assume "n < LENGTH(32)"
    have "bit (e AND ev) n = bit ev n" using e(2) by simp
    then show "bit ((e OR ev') AND ev) n = bit ev n" by (auto simp: bit_simps)
  qed
  ultimately show ?thesis using True by (auto simp: queued_with_def)
next
  case False
  then show ?thesis using queued_with_feed_other assms(1,2) by blast
qed

end
