(* ===== verification/Ev_Poll.thy ===== *)
theory Ev_Poll
  imports Ev_Fd
begin

unbundle bit_operations_syntax

text \<open>The backend over \<open>poll\<close> (\<^verbatim>\<open>src/deps/ev/ev_poll.c\<close>).\<close>

section \<open>The code\<close>

definition POLLIN :: ev_mask where "POLLIN = 0x001"
definition POLLOUT :: ev_mask where "POLLOUT = 0x004"
definition POLLERR :: ev_mask where "POLLERR = 0x008"
definition POLLHUP :: ev_mask where "POLLHUP = 0x010"
definition POLLNVAL :: ev_mask where "POLLNVAL = 0x020"

lemmas poll_mask_defs = POLLIN_def POLLOUT_def POLLERR_def POLLHUP_def POLLNVAL_def

text \<open>New entries of \<open>pollidxs\<close> are -1; the length of the list is \<open>pollidxmax\<close>.\<close>

definition pollidx_init :: "nat \<Rightarrow> int list" where
  "pollidx_init count = replicate count (-1)"

definition pollidxs_needsize :: "nat \<Rightarrow> 'w ev_loop \<Rightarrow> 'w ev_loop" where
  "pollidxs_needsize cnt l =
     (if cnt > length (pollidxs l)
      then l\<lparr>pollidxs := pollidxs l @ pollidx_init
        (nat (array_nextsize 4 (int (length (pollidxs l))) (int cnt)) - length (pollidxs l))\<rparr>
      else l)"

text \<open>The entry of a descriptor, allocated when it has none.\<close>

definition poll_slot :: "nat \<Rightarrow> 'w ev_loop \<Rightarrow> nat \<times> 'w ev_loop" where
  "poll_slot fd l =
     (if pollidxs l ! fd < 0
      then (length (polls l),
            l\<lparr>pollidxs := (pollidxs l)[fd := int (length (polls l))],
              polls := polls l @ [\<lparr>poll_fd = fd, poll_events = 0\<rparr>]\<rparr>)
      else (nat (pollidxs l ! fd), l))"

definition poll_remove :: "nat \<Rightarrow> nat \<Rightarrow> 'w ev_loop \<Rightarrow> 'w ev_loop" where
  "poll_remove fd idx l =
     (let pidx = (pollidxs l)[fd := -1];
          pollcnt = length (polls l) - 1;
          moved = polls l ! pollcnt
      in if idx < pollcnt
         then l\<lparr>polls := (take pollcnt (polls l))[idx := moved],
                pollidxs := pidx[poll_fd moved := int idx]\<rparr>
         else l\<lparr>polls := take pollcnt (polls l), pollidxs := pidx\<rparr>)"

definition poll_modify :: "nat \<Rightarrow> ev_mask \<Rightarrow> ev_mask \<Rightarrow> 'w ev_loop \<Rightarrow> 'w ev_loop outcome" where
  "poll_modify fd oev nev l =
     (if oev = nev then Ok l
      else
        let (idx, l) = poll_slot fd (pollidxs_needsize (fd + 1) l)
        in if idx \<ge> length (polls l) then Fault Out_of_bounds
           else obind (g_assert (poll_fd (polls l ! idx) = fd)) (\<lambda>_.
             if nev \<noteq> 0
             then Ok (l\<lparr>polls := (polls l)[idx := (polls l ! idx)\<lparr>poll_events :=
                    (if nev AND EV_READ \<noteq> 0 then POLLIN else 0) OR
                    (if nev AND EV_WRITE \<noteq> 0 then POLLOUT else 0)\<rparr>]\<rparr>)
             else Ok (poll_remove fd idx l)))"

text \<open>One returned entry, and the walk over the entries until \<open>res\<close> of them had events.\<close>

definition poll_entry :: "nat \<Rightarrow> ev_mask \<Rightarrow> 'w ev_loop \<Rightarrow> 'w ev_loop outcome" where
  "poll_entry fd revents l =
     (if revents AND POLLNVAL \<noteq> 0 then fd_kill fd l
      else fd_event fd
        ((if revents AND (POLLOUT OR POLLERR OR POLLHUP) \<noteq> 0 then EV_WRITE else 0) OR
         (if revents AND (POLLIN OR POLLERR OR POLLHUP) \<noteq> 0 then EV_READ else 0)) l)"

fun poll_events_loop :: "nat \<Rightarrow> (pollfd \<times> ev_mask) list \<Rightarrow> 'w ev_loop \<Rightarrow> 'w ev_loop outcome" where
  "poll_events_loop 0 ps l = Ok l"
| "poll_events_loop (Suc res) [] l = Fault Assertion_failed"
| "poll_events_loop (Suc res) ((p, revents) # ps) l =
     (if revents \<noteq> 0
      then obind (poll_entry (poll_fd p) revents l) (poll_events_loop res ps)
      else poll_events_loop (Suc res) ps l)"

definition poll_poll :: "'w ev_env \<Rightarrow> ev_tstamp \<Rightarrow> 'w ev_loop \<Rightarrow> 'w ev_loop outcome" where
  "poll_poll env timeout l =
     (let (answer, world) = poll_call env (polls l) \<lfloor>timeout * 1000\<rfloor> (ev_world l);
          l = l\<lparr>ev_world := world\<rparr>
      in case answer of
           Poll_errno e \<Rightarrow>
             (if e = EBADF then fd_ebadf env l
              else if e = ENOMEM then fd_enomem l
              else if e \<noteq> EINTR then Fault Assertion_failed
              else Ok l)
         | Poll_revents res revents \<Rightarrow> poll_events_loop res (zip (polls l) revents) l)"

definition poll_init :: "'w ev_loop \<Rightarrow> ev_mask \<times> 'w ev_loop" where
  "poll_init l =
     (EVBACKEND_POLL,
      l\<lparr>backend_mintime := 0.001, backend_modify := Poll_modify, backend_poll := Poll_poll,
        pollidxs := [], polls := []\<rparr>)"

section \<open>The entries as a map\<close>

text \<open>Descriptor and entry point to each other.\<close>

definition polls_ok :: "'w ev_loop \<Rightarrow> bool" where
  "polls_ok l \<longleftrightarrow>
     (\<forall>fd < length (pollidxs l). 0 \<le> pollidxs l ! fd \<longrightarrow>
        nat (pollidxs l ! fd) < length (polls l) \<and> poll_fd (polls l ! nat (pollidxs l ! fd)) = fd) \<and>
     (\<forall>i < length (polls l). poll_fd (polls l ! i) < length (pollidxs l) \<and>
        pollidxs l ! poll_fd (polls l ! i) = int i)"

definition poll_mask :: "'w ev_loop \<Rightarrow> nat \<Rightarrow> ev_mask" where
  "poll_mask l fd =
     (if fd < length (pollidxs l) \<and> 0 \<le> pollidxs l ! fd
      then let e = poll_events (polls l ! nat (pollidxs l ! fd))
           in (if e AND POLLIN \<noteq> 0 then EV_READ else 0) OR (if e AND POLLOUT \<noteq> 0 then EV_WRITE else 0)
      else 0)"

lemma pollidxs_needsize_ok:
  assumes "polls_ok l"
  shows "polls_ok (pollidxs_needsize cnt l)" "poll_mask (pollidxs_needsize cnt l) = poll_mask l"
    "cnt \<le> length (pollidxs (pollidxs_needsize cnt l))" "backend_core (pollidxs_needsize cnt l) = backend_core l"
proof -
  let ?l = "pollidxs_needsize cnt l"
  obtain n where n: "pollidxs ?l = pollidxs l @ replicate n (-1)" "polls ?l = polls l"
    by (cases "cnt > length (pollidxs l)") (auto simp: pollidxs_needsize_def pollidx_init_def intro: that [of 0])
  show "polls_ok ?l" using assms by (auto simp: polls_ok_def n nth_append)
  show "poll_mask ?l = poll_mask l" by (auto simp: poll_mask_def n nth_append fun_eq_iff)
  show "cnt \<le> length (pollidxs ?l)"
    using array_nextsize_ge [of 4 "int (length (pollidxs l))" "int cnt"]
    by (auto simp: pollidxs_needsize_def pollidx_init_def)
  show "backend_core ?l = backend_core l" by (simp add: pollidxs_needsize_def backend_core_def)
qed

lemma poll_slot_ok:
  assumes "polls_ok l" "fd < length (pollidxs l)" "poll_slot fd l = (idx, l')"
  shows "polls_ok l'" "poll_mask l' = poll_mask l" "idx < length (polls l')" "poll_fd (polls l' ! idx) = fd"
    "pollidxs l' ! fd = int idx" "length (pollidxs l') = length (pollidxs l)" "backend_core l' = backend_core l"
proof -
  have new: "polls_ok l' \<and> poll_mask l' = poll_mask l" if "pollidxs l ! fd < 0"
  proof -
    have "poll_fd (polls l ! i) \<noteq> fd" if "i < length (polls l)" for i
      using assms(1) that \<open>pollidxs l ! fd < 0\<close> by (auto simp: polls_ok_def)
    moreover have "l' = l\<lparr>pollidxs := (pollidxs l)[fd := int (length (polls l))],
        polls := polls l @ [\<lparr>poll_fd = fd, poll_events = 0\<rparr>]\<rparr>"
      using assms(3) that by (auto simp: poll_slot_def)
    moreover have "poll_mask l' k = poll_mask l k" for k
      using calculation assms that by (cases "k = fd") (auto simp: poll_mask_def polls_ok_def nth_append)
    ultimately show ?thesis
      using assms by (auto simp: polls_ok_def fun_eq_iff nth_list_update nth_append)
  qed
  show "polls_ok l'" "poll_mask l' = poll_mask l"
    using new assms by (auto simp: poll_slot_def split: if_splits)
  show "idx < length (polls l')" "poll_fd (polls l' ! idx) = fd" "pollidxs l' ! fd = int idx"
    "length (pollidxs l') = length (pollidxs l)" "backend_core l' = backend_core l"
    using assms by (auto simp: poll_slot_def polls_ok_def backend_core_def split: if_splits)
qed

lemma poll_remove_ok:
  assumes "polls_ok l" "fd < length (pollidxs l)" "pollidxs l ! fd = int idx" "idx < length (polls l)"
  shows "polls_ok (poll_remove fd idx l)" "poll_mask (poll_remove fd idx l) = (poll_mask l)(fd := 0)"
proof -
  let ?l = "poll_remove fd idx l" and ?n = "length (polls l) - 1"
  let ?m = "poll_fd (polls l ! ?n)"
  have to: "nat (pollidxs l ! k) < length (polls l)" "poll_fd (polls l ! nat (pollidxs l ! k)) = k"
    if "k < length (pollidxs l)" "0 \<le> pollidxs l ! k" for k
    using assms(1) that by (auto simp: polls_ok_def)
  have fro: "poll_fd (polls l ! i) < length (pollidxs l)" "pollidxs l ! poll_fd (polls l ! i) = int i"
    if "i < length (polls l)" for i
    using assms(1) that by (auto simp: polls_ok_def)
  have n: "?n < length (polls l)" "nat (int (length (polls l)) - 1) = ?n" using assms(4) by auto
  have fd_idx: "poll_fd (polls l ! idx) = fd" using to [OF assms(2)] assms(3) by simp
  have m: "?m = fd \<longleftrightarrow> idx = ?n" using fro(2) [OF n(1)] assms(3) fd_idx by (metis of_nat_eq_iff)
  have px: "pollidxs ?l ! k = (if k = fd then -1 else if k = ?m then int idx else pollidxs l ! k)"
    "length (pollidxs ?l) = length (pollidxs l)" if "k < length (pollidxs l)" for k
    using that m assms(4) by (auto simp: poll_remove_def Let_def nth_list_update)
  have ps: "polls ?l ! i = (if i = idx then polls l ! ?n else polls l ! i)" if "i < ?n" for i
    using that by (auto simp: poll_remove_def Let_def nth_list_update)
  have len: "length (polls ?l) = ?n" "length (pollidxs ?l) = length (pollidxs l)"
    by (simp_all add: poll_remove_def Let_def)
  have keep: "nat (pollidxs l ! k) < ?n \<and> nat (pollidxs l ! k) \<noteq> idx"
    if "k < length (pollidxs l)" "0 \<le> pollidxs l ! k" "k \<noteq> fd" "k \<noteq> ?m" for k
  proof -
    have "nat (pollidxs l ! k) \<noteq> ?n" "nat (pollidxs l ! k) \<noteq> idx"
      using to(2) [OF that(1,2)] that(3,4) fd_idx by metis+
    then show ?thesis using to(1) [OF that(1,2)] by linarith
  qed
  have moved: "idx < ?n" if "?m \<noteq> fd" using that m assms(4) by auto
  have "polls_ok ?l"
    unfolding polls_ok_def len
  proof (intro conjI allI impI)
    fix k
    assume k: "k < length (pollidxs l)" "0 \<le> pollidxs ?l ! k"
    then show "nat (pollidxs ?l ! k) < ?n" "poll_fd (polls ?l ! nat (pollidxs ?l ! k)) = k"
      using px(1) [OF k(1)] ps moved keep [OF k(1)] to [OF k(1)] by (auto split: if_splits)
  next
    fix i
    assume i: "i < ?n"
    then have "i < length (polls l)" by simp
    note i' = fro [OF this]
    show "poll_fd (polls ?l ! i) < length (pollidxs l)" using ps [OF i] fro(1) [OF n(1)] i'(1) by simp
    show "pollidxs ?l ! poll_fd (polls ?l ! i) = int i"
    proof (cases "i = idx")
      case True
      then show ?thesis using ps [OF i] px(1) [OF fro(1) [OF n(1)]] i m by simp
    next
      case False
      then have "poll_fd (polls l ! i) \<noteq> fd" "poll_fd (polls l ! i) \<noteq> ?m"
        using i'(2) assms(3) fro(2) [OF n(1)] i by auto
      then show ?thesis using ps [OF i] px(1) [OF i'(1)] i'(2) False by simp
    qed
  qed
  moreover have "poll_mask ?l k = ((poll_mask l)(fd := 0)) k" for k
  proof (cases "k < length (pollidxs l)")
    case k: True
    consider "k = fd" | "k \<noteq> fd" "k = ?m" | "k \<noteq> fd" "k \<noteq> ?m" by blast
    then show ?thesis
    proof cases
      case 1
      then show ?thesis using px(1) [OF k] by (simp add: poll_mask_def)
    next
      case 2
      then have "poll_events (polls ?l ! nat (pollidxs ?l ! k)) = poll_events (polls l ! nat (pollidxs l ! k))"
        "0 \<le> pollidxs ?l ! k" "0 \<le> pollidxs l ! k"
        using px(1) [OF k] ps [of idx] moved fro(2) [OF n(1)] n(2) by auto
      then show ?thesis using 2 k len by (simp add: poll_mask_def)
    next
      case 3
      then have "pollidxs ?l ! k = pollidxs l ! k" using px(1) [OF k] by simp
      then show ?thesis using 3 k len keep [OF k] ps by (auto simp: poll_mask_def)
    qed
  qed (use assms(2) len in \<open>auto simp: poll_mask_def\<close>)
  ultimately show "polls_ok ?l" "poll_mask ?l = (poll_mask l)(fd := 0)" by auto
qed

lemma poll_bits:
  assumes "rw_mask nev"
  defines "e \<equiv> (if nev AND EV_READ \<noteq> 0 then POLLIN else 0) OR (if nev AND EV_WRITE \<noteq> 0 then POLLOUT else 0)"
  shows "(if e AND POLLIN \<noteq> 0 then EV_READ else 0) OR (if e AND POLLOUT \<noteq> 0 then EV_WRITE else 0) = nev"
  using assms by (auto simp: rw_mask_cases ev_mask_defs poll_mask_defs)

lemma poll_modify_ok:
  assumes "polls_ok l" "poll_mask l fd = oev" "rw_mask nev"
  shows "\<exists>l'. poll_modify fd oev nev l = Ok l' \<and> polls_ok l' \<and> poll_mask l' = (poll_mask l)(fd := nev) \<and>
    backend_core l' = backend_core l"
proof (cases "oev = nev")
  case True
  then show ?thesis using assms by (auto simp: poll_modify_def)
next
  case False
  define l1 where "l1 = pollidxs_needsize (fd + 1) l"
  obtain idx l2 where slot: "poll_slot fd l1 = (idx, l2)" by fastforce
  note l1 = pollidxs_needsize_ok [OF assms(1), of "fd + 1", folded l1_def]
  have "fd < length (pollidxs l1)" using l1(3) by simp
  note l2 = poll_slot_ok [OF l1(1) this slot]
  have fd: "fd < length (pollidxs l2)" using l1(3) l2(6) by simp
  have code: "poll_modify fd oev nev l =
     (if nev \<noteq> 0
      then Ok (l2\<lparr>polls := (polls l2)[idx := (polls l2 ! idx)\<lparr>poll_events :=
             (if nev AND EV_READ \<noteq> 0 then POLLIN else 0) OR (if nev AND EV_WRITE \<noteq> 0 then POLLOUT else 0)\<rparr>]\<rparr>)
      else Ok (poll_remove fd idx l2))"
    unfolding poll_modify_def using False slot l2(3,4) by (simp only: l1_def [symmetric] Let_def) simp
  show ?thesis
  proof (cases "nev = 0")
    case True
    have "backend_core (poll_remove fd idx l2) = backend_core l2"
      by (simp add: poll_remove_def backend_core_def Let_def)
    then show ?thesis
      using poll_remove_ok [OF l2(1) fd l2(5,3)] True l1(2,4) l2(2,7) code by simp
  next
    case nz: False
    let ?e = "(if nev AND EV_READ \<noteq> 0 then POLLIN else 0) OR (if nev AND EV_WRITE \<noteq> 0 then POLLOUT else 0)"
    let ?l = "l2\<lparr>polls := (polls l2)[idx := (polls l2 ! idx)\<lparr>poll_events := ?e\<rparr>]\<rparr>"
    have other: "nat (pollidxs l2 ! k) \<noteq> idx" if "k < length (pollidxs l2)" "0 \<le> pollidxs l2 ! k" "k \<noteq> fd" for k
      using l2(1,4) that by (auto simp: polls_ok_def)
    have "polls_ok ?l" using l2(1,3) by (auto simp: polls_ok_def nth_list_update)
    moreover have "poll_mask ?l k = ((poll_mask l2)(fd := nev)) k" for k
      using l2(3,5) fd other [of k] poll_bits [OF assms(3)] by (cases "k = fd") (auto simp: poll_mask_def Let_def)
    moreover have "backend_core ?l = backend_core l" using l2(7) l1(4) by (simp add: backend_core_def)
    ultimately show ?thesis
      using nz l1(2) l2(2) by (simp add: code fun_eq_iff)
  qed
qed
end
