(* ===== verification/Ev_Select.thy ===== *)
theory Ev_Select
  imports Ev_Fd
begin

unbundle bit_operations_syntax

text \<open>
  The backend over \<open>select\<close> (\<^verbatim>\<open>src/deps/ev/ev_select.c\<close>), in its form for systems that define
  \<open>NFDBITS\<close>: the sets of descriptors for reading and writing are arrays of 64-bit words that
  grow with the largest descriptor. The sets that are handed to \<open>select\<close> and overwritten by it
  (\<open>vec_ro\<close>, \<open>vec_wo\<close>) only live during a call.
\<close>

section \<open>The code\<close>

definition NFDBITS :: nat where "NFDBITS = 64"

definition select_mask_of :: "nat \<Rightarrow> fd_mask" where
  "select_mask_of fd = push_bit (fd mod NFDBITS) 1"

text \<open>Growing both sets to \<open>word + 1\<close> words; their common length is \<open>vec_max\<close>.\<close>

definition select_grow :: "nat \<Rightarrow> 'w ev_loop \<Rightarrow> 'w ev_loop" where
  "select_grow word l =
     (let vec_max = length (vec_ri l)
      in if vec_max \<le> word
         then l\<lparr>vec_ri := vec_ri l @ replicate (word + 1 - vec_max) 0,
                vec_wi := vec_wi l @ replicate (word + 1 - vec_max) 0\<rparr>
         else l)"

text \<open>Setting the bit of a descriptor, and clearing it again when it is not wanted.\<close>

definition put_bit :: "nat \<Rightarrow> fd_mask \<Rightarrow> bool \<Rightarrow> fd_mask list \<Rightarrow> fd_mask list" where
  "put_bit word m wanted vec =
     (let vec = vec[word := vec ! word OR m]
      in if \<not> wanted then vec[word := vec ! word AND NOT m] else vec)"

definition select_modify :: "nat \<Rightarrow> ev_mask \<Rightarrow> ev_mask \<Rightarrow> 'w ev_loop \<Rightarrow> 'w ev_loop outcome" where
  "select_modify fd oev nev l =
     (if oev = nev then Ok l
      else
        let word = fd div NFDBITS;
            m = select_mask_of fd;
            l = select_grow word l
        in Ok (l\<lparr>vec_ri := put_bit word m (nev AND EV_READ \<noteq> 0) (vec_ri l),
                 vec_wi := put_bit word m (nev AND EV_WRITE \<noteq> 0) (vec_wi l)\<rparr>))"

text \<open>The walk over the returned sets goes from the last bit of the last word to the first.\<close>

primrec select_bits :: "nat \<Rightarrow> nat \<Rightarrow> fd_mask \<Rightarrow> fd_mask \<Rightarrow> 'w ev_loop \<Rightarrow> 'w ev_loop outcome" where
  "select_bits 0 word word_r word_w l = Ok l"
| "select_bits (Suc i) word word_r word_w l =
     (let m = push_bit i 1;
          events = (if word_r AND m \<noteq> 0 then EV_READ else 0) OR (if word_w AND m \<noteq> 0 then EV_WRITE else 0)
      in obind (if events \<noteq> 0 then fd_event (word * NFDBITS + i) events l else Ok l)
           (select_bits i word word_r word_w))"

primrec select_words :: "nat \<Rightarrow> fd_mask list \<Rightarrow> fd_mask list \<Rightarrow> 'w ev_loop \<Rightarrow> 'w ev_loop outcome" where
  "select_words 0 vec_ro vec_wo l = Ok l"
| "select_words (Suc word) vec_ro vec_wo l =
     obind
       (if vec_ro ! word \<noteq> 0 \<or> vec_wo ! word \<noteq> 0
        then select_bits NFDBITS word (vec_ro ! word) (vec_wo ! word) l
        else Ok l)
       (select_words word vec_ro vec_wo)"

text \<open>\<open>EV_TV_SET\<close>: seconds and microseconds.\<close>

definition tv_set :: "ev_tstamp \<Rightarrow> int \<times> int" where
  "tv_set t = (\<lfloor>t\<rfloor>, \<lfloor>(t - of_int \<lfloor>t\<rfloor>) * 1000000\<rfloor>)"

definition select_poll :: "'w ev_env \<Rightarrow> ev_tstamp \<Rightarrow> 'w ev_loop \<Rightarrow> 'w ev_loop outcome" where
  "select_poll env timeout l =
     (let (answer, world) = select_call env (vec_ri l) (vec_wi l) (tv_set timeout) (ev_world l);
          l = l\<lparr>ev_world := world\<rparr>
      in case answer of
           Select_errno e \<Rightarrow>
             (if e = EBADF then fd_ebadf env l
              else if e = ENOMEM then fd_enomem l
              else if e \<noteq> EINTR then Fault Assertion_failed
              else Ok l)
         | Select_sets vec_ro vec_wo \<Rightarrow> select_words (length (vec_ri l)) vec_ro vec_wo l)"

definition select_init :: "'w ev_loop \<Rightarrow> ev_mask \<times> 'w ev_loop" where
  "select_init l =
     (EVBACKEND_SELECT,
      l\<lparr>backend_mintime := 0.000001, backend_modify := Select_modify, backend_poll := Select_poll,
        vec_ri := [], vec_wi := []\<rparr>)"

section \<open>The sets as a map\<close>

text \<open>The mask of a descriptor that two sets of bits stand for.\<close>

definition bits_mask :: "fd_mask list \<Rightarrow> fd_mask list \<Rightarrow> nat \<Rightarrow> ev_mask" where
  "bits_mask r w fd =
     (let word = fd div NFDBITS; b = fd mod NFDBITS
      in (if word < length r \<and> bit (r ! word) b then EV_READ else 0) OR
         (if word < length w \<and> bit (w ! word) b then EV_WRITE else 0))"

definition select_mask :: "'w ev_loop \<Rightarrow> nat \<Rightarrow> ev_mask" where
  "select_mask l = bits_mask (vec_ri l) (vec_wi l)"

definition selects_ok :: "'w ev_loop \<Rightarrow> bool" where
  "selects_ok l \<longleftrightarrow> length (vec_ri l) = length (vec_wi l)"

lemma fd_split: "fd = fd' \<longleftrightarrow> fd div NFDBITS = fd' div NFDBITS \<and> fd mod NFDBITS = fd' mod NFDBITS"
  by (metis div_mult_mod_eq)

lemma bit_select_mask_of:
  "bit (select_mask_of fd) b \<longleftrightarrow> b = fd mod NFDBITS"
  by (auto simp: select_mask_of_def bit_simps NFDBITS_def)

lemma bit_put_bit:
  assumes "fd div NFDBITS < length vec" "k < length vec"
  shows "bit (put_bit (fd div NFDBITS) (select_mask_of fd) wanted vec ! k) b \<longleftrightarrow>
    (if k = fd div NFDBITS \<and> b = fd mod NFDBITS then wanted else bit (vec ! k) b)"
proof -
  have "bit (vec ! k) b \<Longrightarrow> b < 64" using bit_imp_le_length [of "vec ! k" b] by simp
  moreover have "fd mod NFDBITS < 64" by (simp add: NFDBITS_def)
  ultimately show ?thesis
    using assms by (auto simp: put_bit_def Let_def nth_list_update bit_simps bit_select_mask_of)
qed

lemma length_put_bit [simp]: "length (put_bit word m wanted vec) = length vec"
  by (simp add: put_bit_def Let_def)

lemma bits_mask_put:
  assumes "fd div NFDBITS < length r" "fd div NFDBITS < length w" "rw_mask nev"
  shows "bits_mask (put_bit (fd div NFDBITS) (select_mask_of fd) (nev AND EV_READ \<noteq> 0) r)
      (put_bit (fd div NFDBITS) (select_mask_of fd) (nev AND EV_WRITE \<noteq> 0) w) = (bits_mask r w)(fd := nev)"
proof
  fix k
  show "bits_mask (put_bit (fd div NFDBITS) (select_mask_of fd) (nev AND EV_READ \<noteq> 0) r)
      (put_bit (fd div NFDBITS) (select_mask_of fd) (nev AND EV_WRITE \<noteq> 0) w) k = ((bits_mask r w)(fd := nev)) k"
  proof (cases "k = fd")
    case True
    then show ?thesis
      using assms by (simp add: bits_mask_def Let_def bit_put_bit) (auto simp: rw_mask_cases ev_mask_defs)
  next
    case False
    then have "\<not> (k div NFDBITS = fd div NFDBITS \<and> k mod NFDBITS = fd mod NFDBITS)"
      using fd_split [of k fd] by simp
    then show ?thesis
      using assms False by (auto simp: bits_mask_def Let_def bit_put_bit)
  qed
qed

lemma bits_mask_grow: "bits_mask (r @ replicate m 0) (w @ replicate n 0) = bits_mask r w"
  by (auto simp: bits_mask_def Let_def nth_append fun_eq_iff)

lemma select_modify_ok:
  assumes "selects_ok l" "select_mask l fd = oev" "rw_mask nev"
  shows "\<exists>l'. select_modify fd oev nev l = Ok l' \<and> selects_ok l' \<and> select_mask l' = (select_mask l)(fd := nev) \<and>
    backend_core l' = backend_core l"
proof (cases "oev = nev")
  case True
  then show ?thesis using assms by (auto simp: select_modify_def)
next
  case False
  define l1 where "l1 = select_grow (fd div NFDBITS) l"
  have len: "length (vec_ri l1) = length (vec_wi l1)" "fd div NFDBITS < length (vec_ri l1)"
    using assms(1) by (auto simp: l1_def select_grow_def selects_ok_def Let_def)
  have same: "select_mask l1 = select_mask l" "backend_core l1 = backend_core l"
    by (simp_all add: l1_def select_grow_def select_mask_def bits_mask_grow backend_core_def Let_def)
  have "select_modify fd oev nev l = Ok (l1\<lparr>
      vec_ri := put_bit (fd div NFDBITS) (select_mask_of fd) (nev AND EV_READ \<noteq> 0) (vec_ri l1),
      vec_wi := put_bit (fd div NFDBITS) (select_mask_of fd) (nev AND EV_WRITE \<noteq> 0) (vec_wi l1)\<rparr>)"
    using False by (simp add: select_modify_def Let_def l1_def)
  then show ?thesis
    using len same bits_mask_put [of fd "vec_ri l1" "vec_wi l1" nev] assms(3)
    by (simp add: selects_ok_def select_mask_def backend_core_def)
qed

end
