(* ===== verification/Ev_Epoll.thy ===== *)
theory Ev_Epoll
  imports Ev_Fd
begin

unbundle bit_operations_syntax

text \<open>
  The backend over \<open>epoll\<close> (\<^verbatim>\<open>src/deps/ev/ev_epoll.c\<close>). The kernel keeps its own list of
  descriptors, which it may shorten by itself; the loop never deletes from it, and finds
  out about stale entries by a generation counter that is part of every event. Descriptors
  that \<open>epoll\<close> refuses but that are always ready (regular files) are kept in a list.
\<close>

section \<open>The code\<close>

definition EPOLLIN :: ev_mask where "EPOLLIN = 0x001"
definition EPOLLOUT :: ev_mask where "EPOLLOUT = 0x004"
definition EPOLLERR :: ev_mask where "EPOLLERR = 0x008"
definition EPOLLHUP :: ev_mask where "EPOLLHUP = 0x010"
definition EPERM :: int where "EPERM = 1"
definition ENOENT :: int where "ENOENT = 2"
definition EEXIST :: int where "EEXIST = 17"

definition EV_EMASK_EPERM :: ev_mask where "EV_EMASK_EPERM = 0x80"

text \<open>The generation counter in the upper 32 bits, the descriptor in the lower ones.\<close>

definition epoll_data :: "nat \<Rightarrow> 32 word \<Rightarrow> 64 word" where
  "epoll_data fd egen = ucast (word_of_nat fd :: 32 word) OR push_bit 32 (ucast egen)"

definition data_fd :: "64 word \<Rightarrow> nat" where
  "data_fd d = unat (ucast d :: 32 word)"

definition data_egen :: "64 word \<Rightarrow> 32 word" where
  "data_egen d = ucast (drop_bit 32 d)"

definition epoll_bits :: "ev_mask \<Rightarrow> ev_mask" where
  "epoll_bits ev = (if ev AND EV_READ \<noteq> 0 then EPOLLIN else 0) OR (if ev AND EV_WRITE \<noteq> 0 then EPOLLOUT else 0)"

definition call_epoll_ctl :: "'w ev_env \<Rightarrow> epoll_op \<Rightarrow> nat \<Rightarrow> epoll_event \<Rightarrow> 'w ev_loop \<Rightarrow> int \<times> 'w ev_loop" where
  "call_epoll_ctl env op fd ev l =
     (case epoll_ctl env (backend_fd l) op fd ev (ev_world l) of (r, world) \<Rightarrow> (r, l\<lparr>ev_world := world\<rparr>))"

text \<open>The label \<open>dec_egen\<close>, and what comes before it.\<close>

definition dec_egen :: "nat \<Rightarrow> 'w ev_loop \<Rightarrow> 'w ev_loop outcome" where
  "dec_egen fd l = obind (anfd_at fd l) (\<lambda>a. Ok (put_anfd fd (a\<lparr>fd_egen := fd_egen a - 1\<rparr>) l))"

definition kill_and_dec :: "nat \<Rightarrow> 'w ev_loop \<Rightarrow> 'w ev_loop outcome" where
  "kill_and_dec fd l = obind (fd_kill fd l) (dec_egen fd)"

definition epoll_eperm :: "nat \<Rightarrow> ev_mask \<Rightarrow> 'w ev_loop \<Rightarrow> 'w ev_loop outcome" where
  "epoll_eperm fd oldmask l =
     obind (anfd_at fd l) (\<lambda>a.
       let l = put_anfd fd (a\<lparr>fd_emask := EV_EMASK_EPERM\<rparr>) l
       in Ok (if oldmask AND EV_EMASK_EPERM = 0 then l\<lparr>epoll_eperms := epoll_eperms l @ [fd]\<rparr> else l))"

definition epoll_modify :: "'w ev_env \<Rightarrow> nat \<Rightarrow> ev_mask \<Rightarrow> ev_mask \<Rightarrow> 'w ev_loop \<Rightarrow> 'w ev_loop outcome" where
  "epoll_modify env fd oev nev l =
     (if nev = 0 then Ok l
      else
        obind (anfd_at fd l) (\<lambda>a.
          let oldmask = fd_emask a;
              egen = fd_egen a + 1;
              l = put_anfd fd (a\<lparr>fd_emask := nev AND 0xFF, fd_egen := egen\<rparr>) l;
              ev = \<lparr>ep_events = epoll_bits nev, ep_data = epoll_data fd egen\<rparr>;
              (r, l) = call_epoll_ctl env (if oev \<noteq> 0 \<and> oldmask \<noteq> nev then EPOLL_CTL_MOD else EPOLL_CTL_ADD) fd ev l
          in if r = 0 then Ok l
             else if r = ENOENT then
               let (r, l) = call_epoll_ctl env EPOLL_CTL_ADD fd ev l
               in if r = 0 then Ok l else kill_and_dec fd l
             else if r = EEXIST then
               if oldmask = nev then dec_egen fd l
               else
                 let (r, l) = call_epoll_ctl env EPOLL_CTL_MOD fd ev l
                 in if r = 0 then Ok l else kill_and_dec fd l
             else if r = EPERM then epoll_eperm fd oldmask l
             else kill_and_dec fd l))"

text \<open>One event that the kernel reports.\<close>

definition epoll_got :: "ev_mask \<Rightarrow> ev_mask" where
  "epoll_got e =
     (if e AND (EPOLLOUT OR EPOLLERR OR EPOLLHUP) \<noteq> 0 then EV_WRITE else 0) OR
     (if e AND (EPOLLIN OR EPOLLERR OR EPOLLHUP) \<noteq> 0 then EV_READ else 0)"

definition epoll_one :: "'w ev_env \<Rightarrow> epoll_event \<Rightarrow> 'w ev_loop \<Rightarrow> 'w ev_loop outcome" where
  "epoll_one env ev l =
     (let fd = data_fd (ep_data ev)
      in obind (anfd_at fd l) (\<lambda>a.
           let want = fd_events a; got = epoll_got (ep_events ev)
           in if fd_egen a \<noteq> data_egen (ep_data ev) then Ok (l\<lparr>postfork := True\<rparr>)
              else if got AND NOT want \<noteq> 0 then
                let l = put_anfd fd (a\<lparr>fd_emask := want\<rparr>) l;
                    (r, l) = call_epoll_ctl env (if want \<noteq> 0 then EPOLL_CTL_MOD else EPOLL_CTL_DEL) fd
                      (ev\<lparr>ep_events := epoll_bits want\<rparr>) l
                in if r \<noteq> 0 then Ok (l\<lparr>postfork := True\<rparr>) else fd_event fd got l
              else fd_event fd got l))"

primrec epoll_events_loop :: "'w ev_env \<Rightarrow> epoll_event list \<Rightarrow> 'w ev_loop \<Rightarrow> 'w ev_loop outcome" where
  "epoll_events_loop env [] l = Ok l"
| "epoll_events_loop env (ev # evs) l = obind (epoll_one env ev l) (epoll_events_loop env evs)"

text \<open>The descriptors that are always ready, from the last to the first; one that is not wanted leaves the list.\<close>

primrec eperms_loop :: "nat \<Rightarrow> 'w ev_loop \<Rightarrow> 'w ev_loop outcome" where
  "eperms_loop 0 l = Ok l"
| "eperms_loop (Suc i) l =
     (if i \<ge> length (epoll_eperms l) then Fault Out_of_bounds
      else
        let fd = epoll_eperms l ! i
        in obind (anfd_at fd l) (\<lambda>a.
             let events = fd_events a AND (EV_READ OR EV_WRITE)
             in obind
                  (if fd_emask a AND EV_EMASK_EPERM \<noteq> 0 \<and> events \<noteq> 0 then fd_event fd events l
                   else Ok (l\<lparr>epoll_eperms := butlast ((epoll_eperms l)[i := last (epoll_eperms l)])\<rparr>))
                  (eperms_loop i)))"

text \<open>\<open>sizeof (struct epoll_event)\<close> is 12.\<close>

definition epoll_poll :: "'w ev_env \<Rightarrow> ev_tstamp \<Rightarrow> 'w ev_loop \<Rightarrow> 'w ev_loop outcome" where
  "epoll_poll env timeout l =
     (let timeout = (if epoll_eperms l \<noteq> [] then 0 else timeout);
          (answer, world) = epoll_wait env (backend_fd l) (epoll_eventmax l) \<lfloor>timeout * 1000\<rfloor> (ev_world l);
          l = l\<lparr>ev_world := world\<rparr>
      in case answer of
           Epoll_errno e \<Rightarrow> (if e \<noteq> EINTR then Fault Assertion_failed else Ok l)
         | Epoll_events evs \<Rightarrow>
             obind (epoll_events_loop env evs l) (\<lambda>l.
               let l = (if length evs = epoll_eventmax l
                        then l\<lparr>epoll_eventmax :=
                          nat (array_nextsize 12 (int (epoll_eventmax l)) (int (epoll_eventmax l) + 1))\<rparr>
                        else l)
               in eperms_loop (length (epoll_eperms l)) l))"

definition epoll_init :: "'w ev_env \<Rightarrow> 'w ev_loop \<Rightarrow> ev_mask \<times> 'w ev_loop" where
  "epoll_init env l =
     (let (fd, world) = epoll_create env True (ev_world l);
          (fd, world) = (if fd < 0 then epoll_create env False world else (fd, world));
          l = l\<lparr>backend_fd := fd, ev_world := world\<rparr>
      in if fd < 0 then (0, l)
         else
           (EVBACKEND_EPOLL,
            l\<lparr>backend_mintime := 0.001, backend_modify := Epoll_modify, backend_poll := Epoll_poll,
              epoll_eventmax := 64\<rparr>))"

definition epoll_fork :: "'w ev_env \<Rightarrow> 'w ev_loop \<Rightarrow> 'w ev_loop outcome" where
  "epoll_fork env l =
     (let (fd, world) = epoll_create env False (close_fd env (backend_fd l) (ev_world l))
      in if fd < 0 then Fault Assertion_failed
         else fd_rearm_all (l\<lparr>backend_fd := fd, ev_world := world\<rparr>))"

section \<open>What the kernel knows\<close>

text \<open>
  The documented behaviour of \<open>epoll_ctl\<close> for descriptors that are open and can be polled:
  \<open>interest\<close> is the kernel's list of an epoll descriptor.
\<close>

definition epoll_kernel ::
  "'w ev_env \<Rightarrow> (int \<Rightarrow> 'w \<Rightarrow> nat \<Rightarrow> epoll_event option) \<Rightarrow> (nat \<Rightarrow> 'w \<Rightarrow> bool) \<Rightarrow> bool" where
  "epoll_kernel env interest pollable \<longleftrightarrow> (\<forall>efd fd ev w. pollable fd w \<longrightarrow>
     (case epoll_ctl env efd EPOLL_CTL_ADD fd ev w of (r, w') \<Rightarrow> pollable fd w' \<and>
        (if interest efd w fd = None then r = 0 \<and> interest efd w' = (interest efd w)(fd \<mapsto> ev)
         else r = EEXIST \<and> interest efd w' = interest efd w)) \<and>
     (case epoll_ctl env efd EPOLL_CTL_MOD fd ev w of (r, w') \<Rightarrow> pollable fd w' \<and>
        (if interest efd w fd = None then r = ENOENT \<and> interest efd w' = interest efd w
         else r = 0 \<and> interest efd w' = (interest efd w)(fd \<mapsto> ev))))"

text \<open>An entry that the kernel has is the one it was last told; it may have lost any.\<close>

definition told_event :: "nat \<Rightarrow> anfd \<Rightarrow> epoll_event" where
  "told_event fd a = \<lparr>ep_events = epoll_bits (fd_emask a), ep_data = epoll_data fd (fd_egen a)\<rparr>"

definition epoll_ok :: "(int \<Rightarrow> 'w \<Rightarrow> nat \<Rightarrow> epoll_event option) \<Rightarrow> 'w ev_loop \<Rightarrow> bool" where
  "epoll_ok interest l \<longleftrightarrow> (\<forall>fd < length (anfds l). \<forall>ev.
     interest (backend_fd l) (ev_world l) fd = Some ev \<longrightarrow> ev = told_event fd (anfds l ! fd))"

lemma epoll_kernel_ctl:
  assumes "epoll_kernel env interest pollable" "pollable fd (ev_world l)"
  shows "\<exists>r w. call_epoll_ctl env EPOLL_CTL_ADD fd ev l = (r, l\<lparr>ev_world := w\<rparr>) \<and> pollable fd w \<and>
      (if interest (backend_fd l) (ev_world l) fd = None
       then r = 0 \<and> interest (backend_fd l) w = (interest (backend_fd l) (ev_world l))(fd \<mapsto> ev)
       else r = EEXIST \<and> interest (backend_fd l) w = interest (backend_fd l) (ev_world l))"
    "\<exists>r w. call_epoll_ctl env EPOLL_CTL_MOD fd ev l = (r, l\<lparr>ev_world := w\<rparr>) \<and> pollable fd w \<and>
      (if interest (backend_fd l) (ev_world l) fd = None
       then r = ENOENT \<and> interest (backend_fd l) w = interest (backend_fd l) (ev_world l)
       else r = 0 \<and> interest (backend_fd l) w = (interest (backend_fd l) (ev_world l))(fd \<mapsto> ev))"
proof -
  note spec = assms(1) [unfolded epoll_kernel_def, rule_format, OF assms(2), of "backend_fd l" ev]
  show "\<exists>r w. call_epoll_ctl env EPOLL_CTL_ADD fd ev l = (r, l\<lparr>ev_world := w\<rparr>) \<and> pollable fd w \<and>
      (if interest (backend_fd l) (ev_world l) fd = None
       then r = 0 \<and> interest (backend_fd l) w = (interest (backend_fd l) (ev_world l))(fd \<mapsto> ev)
       else r = EEXIST \<and> interest (backend_fd l) w = interest (backend_fd l) (ev_world l))"
  proof -
    obtain r w where c: "epoll_ctl env (backend_fd l) EPOLL_CTL_ADD fd ev (ev_world l) = (r, w)" by force
    have "call_epoll_ctl env EPOLL_CTL_ADD fd ev l = (r, l\<lparr>ev_world := w\<rparr>)" by (simp add: call_epoll_ctl_def c)
    then show ?thesis using conjunct1 [OF spec, unfolded c prod.case] by blast
  qed
  show "\<exists>r w. call_epoll_ctl env EPOLL_CTL_MOD fd ev l = (r, l\<lparr>ev_world := w\<rparr>) \<and> pollable fd w \<and>
      (if interest (backend_fd l) (ev_world l) fd = None
       then r = ENOENT \<and> interest (backend_fd l) w = interest (backend_fd l) (ev_world l)
       else r = 0 \<and> interest (backend_fd l) w = (interest (backend_fd l) (ev_world l))(fd \<mapsto> ev))"
  proof -
    obtain r w where c: "epoll_ctl env (backend_fd l) EPOLL_CTL_MOD fd ev (ev_world l) = (r, w)" by force
    have "call_epoll_ctl env EPOLL_CTL_MOD fd ev l = (r, l\<lparr>ev_world := w\<rparr>)" by (simp add: call_epoll_ctl_def c)
    then show ?thesis using conjunct2 [OF spec, unfolded c prod.case] by blast
  qed
qed

lemma epoll_data_parts:
  assumes "fd < 2 ^ 32"
  shows "data_fd (epoll_data fd egen) = fd" "data_egen (epoll_data fd egen) = egen"
proof -
  have "(ucast (epoll_data fd egen) :: 32 word) = word_of_nat fd"
    by (rule bit_word_eqI) (simp add: epoll_data_def bit_simps)
  then show "data_fd (epoll_data fd egen) = fd"
    using assms by (simp add: data_fd_def unat_of_nat take_bit_eq_mod)
  show "data_egen (epoll_data fd egen) = egen"
    by (rule bit_word_eqI) (simp add: data_egen_def epoll_data_def bit_simps)
qed

lemma epoll_ok_put:
  assumes "epoll_ok interest l" "fd < length (anfds l)" "backend_fd l' = backend_fd l"
    "anfds l' = (anfds l)[fd := a]"
    "interest (backend_fd l) (ev_world l') = (interest (backend_fd l) (ev_world l))(fd \<mapsto> told_event fd a)"
  shows "epoll_ok interest l'"
  using assms by (auto simp: epoll_ok_def nth_list_update split: if_splits)

lemma epoll_modify_ok:
  assumes k: "epoll_kernel env interest pollable" and ok: "epoll_ok interest l" and fd: "fd < length (anfds l)"
    and p: "pollable fd (ev_world l)" and nev: "rw_mask nev" "nev \<noteq> 0"
  shows "\<exists>l' egen w. epoll_modify env fd oev nev l = Ok l' \<and> epoll_ok interest l' \<and>
    l' = l\<lparr>anfds := (anfds l)[fd := (anfds l ! fd)\<lparr>fd_emask := nev, fd_egen := egen\<rparr>], ev_world := w\<rparr> \<and>
    (egen = fd_egen (anfds l ! fd) + 1 \<or> egen = fd_egen (anfds l ! fd)) \<and>
    interest (backend_fd l) w =
      (interest (backend_fd l) (ev_world l))(fd \<mapsto> \<lparr>ep_events = epoll_bits nev, ep_data = epoll_data fd egen\<rparr>)"
proof -
  let ?a = "anfds l ! fd" and ?K = "interest (backend_fd l)"
  define ev where "ev = \<lparr>ep_events = epoll_bits nev, ep_data = epoll_data fd (fd_egen ?a + 1)\<rparr>"
  define a1 where "a1 = ?a\<lparr>fd_emask := nev, fd_egen := fd_egen ?a + 1\<rparr>"
  define l1 where "l1 = put_anfd fd a1 l"
  have l1: "ev_world l1 = ev_world l" "backend_fd l1 = backend_fd l" "anfds l1 = (anfds l)[fd := a1]"
    by (simp_all add: l1_def put_anfd_def)
  have ev: "ev = told_event fd a1" by (simp add: ev_def told_event_def a1_def)
  have new: ?thesis
    if code: "epoll_modify env fd oev nev l = Ok (l1\<lparr>ev_world := w\<rparr>)" and w: "?K w = (?K (ev_world l))(fd \<mapsto> ev)" for w
  proof -
    have "epoll_ok interest (l1\<lparr>ev_world := w\<rparr>)"
      by (rule epoll_ok_put [OF ok fd]) (use w ev l1 in simp_all)
    moreover have "l1\<lparr>ev_world := w\<rparr> = l\<lparr>anfds := (anfds l)[fd := ?a\<lparr>fd_emask := nev, fd_egen := fd_egen ?a + 1\<rparr>], ev_world := w\<rparr>"
      by (simp add: l1_def put_anfd_def a1_def)
    ultimately show ?thesis using code w ev_def by blast
  qed
  have start: "epoll_modify env fd oev nev l =
     (let (r, l) = call_epoll_ctl env (if oev \<noteq> 0 \<and> fd_emask ?a \<noteq> nev then EPOLL_CTL_MOD else EPOLL_CTL_ADD) fd ev l1
      in if r = 0 then Ok l
         else if r = ENOENT then
           let (r, l) = call_epoll_ctl env EPOLL_CTL_ADD fd ev l in if r = 0 then Ok l else kill_and_dec fd l
         else if r = EEXIST then
           if fd_emask ?a = nev then dec_egen fd l
           else let (r, l) = call_epoll_ctl env EPOLL_CTL_MOD fd ev l in if r = 0 then Ok l else kill_and_dec fd l
         else if r = EPERM then epoll_eperm fd (fd_emask ?a) l
         else kill_and_dec fd l)"
    unfolding ev_def l1_def a1_def epoll_modify_def using nev fd
    by (simp only: anfd_at_def Let_def [of "nev"] Let_def [of "fd_emask ?a"] if_True if_False obind.simps rw_mask_low) (simp add: Let_def)
  have errs: "ENOENT \<noteq> 0" "EEXIST \<noteq> 0" "EEXIST \<noteq> ENOENT" by (simp_all add: ENOENT_def EEXIST_def)
  note add = epoll_kernel_ctl(1) [OF k, of fd _ ev] and mod = epoll_kernel_ctl(2) [OF k, of fd _ ev]
  have p1: "pollable fd (ev_world l1)" using p l1(1) by simp
  show ?thesis
  proof (cases "?K (ev_world l) fd")
    case None
    obtain w where a: "call_epoll_ctl env EPOLL_CTL_ADD fd ev l1 = (0, l1\<lparr>ev_world := w\<rparr>)"
      "?K w = (?K (ev_world l))(fd \<mapsto> ev)"
      using add [OF p1] None l1 by auto
    obtain w1 where m: "call_epoll_ctl env EPOLL_CTL_MOD fd ev l1 = (ENOENT, l1\<lparr>ev_world := w1\<rparr>)"
      "?K w1 = ?K (ev_world l)" "pollable fd w1"
      using mod [OF p1] None l1 by auto
    obtain w2 where a2: "call_epoll_ctl env EPOLL_CTL_ADD fd ev (l1\<lparr>ev_world := w1\<rparr>) = (0, l1\<lparr>ev_world := w2\<rparr>)"
      "?K w2 = (?K (ev_world l))(fd \<mapsto> ev)"
      using add [of "l1\<lparr>ev_world := w1\<rparr>"] m None l1 by auto
    show ?thesis
    proof (cases "oev \<noteq> 0 \<and> fd_emask ?a \<noteq> nev")
      case True
      then have "epoll_modify env fd oev nev l = Ok (l1\<lparr>ev_world := w2\<rparr>)" using m a2 errs by (simp add: start)
      then show ?thesis by (rule new) (rule a2(2))
    next
      case False
      then have "epoll_modify env fd oev nev l = Ok (l1\<lparr>ev_world := w\<rparr>)" using a by (auto simp: start)
      then show ?thesis by (rule new) (rule a(2))
    qed
  next
    case (Some old)
    have old: "old = told_event fd ?a" using ok fd Some by (simp add: epoll_ok_def)
    obtain w where m: "call_epoll_ctl env EPOLL_CTL_MOD fd ev l1 = (0, l1\<lparr>ev_world := w\<rparr>)"
      "?K w = (?K (ev_world l))(fd \<mapsto> ev)"
      using mod [OF p1] Some l1 by auto
    obtain w1 where a: "call_epoll_ctl env EPOLL_CTL_ADD fd ev l1 = (EEXIST, l1\<lparr>ev_world := w1\<rparr>)"
      "?K w1 = ?K (ev_world l)" "pollable fd w1"
      using add [OF p1] Some l1 by auto
    obtain w2 where m2: "call_epoll_ctl env EPOLL_CTL_MOD fd ev (l1\<lparr>ev_world := w1\<rparr>) = (0, l1\<lparr>ev_world := w2\<rparr>)"
      "?K w2 = (?K (ev_world l))(fd \<mapsto> ev)"
      using mod [of "l1\<lparr>ev_world := w1\<rparr>"] a Some l1 by auto
    show ?thesis
    proof (cases "fd_emask ?a = nev")
      case True
      let ?l' = "l\<lparr>anfds := (anfds l)[fd := ?a\<lparr>fd_emask := nev, fd_egen := fd_egen ?a\<rparr>], ev_world := w1\<rparr>"
      have "epoll_modify env fd oev nev l = dec_egen fd (l1\<lparr>ev_world := w1\<rparr>)"
        using True a errs by (simp add: start)
      also have "\<dots> = Ok ?l'"
        using fd by (simp add: dec_egen_def anfd_at_def put_anfd_def l1_def a1_def)
      finally have code: "epoll_modify env fd oev nev l = Ok ?l'" .
      have kept: "?K w1 = (?K (ev_world l))(fd \<mapsto> \<lparr>ep_events = epoll_bits nev, ep_data = epoll_data fd (fd_egen ?a)\<rparr>)"
        using a(2) Some old True by (auto simp: told_event_def fun_eq_iff)
      have "epoll_ok interest ?l'"
        by (rule epoll_ok_put [OF ok fd, where a = "?a\<lparr>fd_emask := nev, fd_egen := fd_egen ?a\<rparr>"])
          (simp_all add: told_event_def kept)
      then show ?thesis using code kept by blast
    next
      case neq: False
      show ?thesis
      proof (cases "oev \<noteq> 0")
        case True
        then have "epoll_modify env fd oev nev l = Ok (l1\<lparr>ev_world := w\<rparr>)" using m neq by (simp add: start)
        then show ?thesis by (rule new) (rule m(2))
      next
        case False
        then have "epoll_modify env fd oev nev l = Ok (l1\<lparr>ev_world := w2\<rparr>)"
          unfolding start using a m2 neq errs by simp
        then show ?thesis by (rule new) (rule m2(2))
      qed
    qed
  qed
qed

end
