(* ===== verification/Ev_Kqueue.thy ===== *)
theory Ev_Kqueue
  imports Ev_Fd
begin

unbundle bit_operations_syntax

text \<open>
  The backend over \<open>kqueue\<close> of the BSD systems (\<^verbatim>\<open>src/deps/ev/ev_kqueue.c\<close>). Changes are collected
  and handed to the kernel with the next wait; errors of single changes come back as events.
  \<open>KEV_ERROR\<close> is the constant that \<^verbatim>\<open>sys/event.h\<close> calls \<open>EV_ERROR\<close>.
\<close>

section \<open>The code\<close>

definition EVFILT_READ :: int where "EVFILT_READ = -1"
definition EVFILT_WRITE :: int where "EVFILT_WRITE = -2"
definition EV_ADD :: ev_mask where "EV_ADD = 0x0001"
definition EV_DELETE :: ev_mask where "EV_DELETE = 0x0002"
definition EV_ENABLE :: ev_mask where "EV_ENABLE = 0x0004"
definition KEV_ERROR :: ev_mask where "KEV_ERROR = 0x4000"
definition NOTE_EOF :: ev_mask where "NOTE_EOF = 0"

lemmas kqueue_defs = EVFILT_READ_def EVFILT_WRITE_def EV_ADD_def EV_DELETE_def EV_ENABLE_def

definition kqueue_change :: "nat \<Rightarrow> int \<Rightarrow> ev_mask \<Rightarrow> ev_mask \<Rightarrow> 'w ev_loop \<Rightarrow> 'w ev_loop" where
  "kqueue_change fd filt flags fflags l =
     l\<lparr>kqueue_changes := kqueue_changes l @
       [\<lparr>ke_ident = fd, ke_filter = filt, ke_flags = flags, ke_fflags = fflags, ke_data = 0\<rparr>]\<rparr>"

definition kqueue_modify :: "nat \<Rightarrow> ev_mask \<Rightarrow> ev_mask \<Rightarrow> 'w ev_loop \<Rightarrow> 'w ev_loop outcome" where
  "kqueue_modify fd oev nev l =
     (let l = (if oev \<noteq> nev
               then
                 let l = (if oev AND EV_READ \<noteq> 0 then kqueue_change fd EVFILT_READ EV_DELETE 0 l else l)
                 in if oev AND EV_WRITE \<noteq> 0 then kqueue_change fd EVFILT_WRITE EV_DELETE 0 l else l
               else l);
          l = (if nev AND EV_READ \<noteq> 0 then kqueue_change fd EVFILT_READ (EV_ADD OR EV_ENABLE) NOTE_EOF l else l)
      in Ok (if nev AND EV_WRITE \<noteq> 0 then kqueue_change fd EVFILT_WRITE (EV_ADD OR EV_ENABLE) NOTE_EOF l else l))"

text \<open>One event that the kernel returns; \<open>ENOENT\<close> is 2.\<close>

definition kqueue_error :: "'w ev_env \<Rightarrow> nat \<Rightarrow> int \<Rightarrow> 'w ev_loop \<Rightarrow> 'w ev_loop outcome" where
  "kqueue_error env fd err l =
     obind (anfd_at fd l) (\<lambda>a.
       if fd_events a \<noteq> 0 then
         if err = 2 then kqueue_modify fd 0 (fd_events a) l
         else if err = EBADF then
           if fd_valid env fd (ev_world l) then kqueue_modify fd 0 (fd_events a) l else fd_kill fd l
         else fd_kill fd l
       else Ok l)"

definition kqueue_one :: "'w ev_env \<Rightarrow> kevent \<Rightarrow> 'w ev_loop \<Rightarrow> 'w ev_loop outcome" where
  "kqueue_one env ev l =
     (if ke_flags ev AND KEV_ERROR \<noteq> 0 then kqueue_error env (ke_ident ev) (ke_data ev) l
      else fd_event (ke_ident ev)
        (if ke_filter ev = EVFILT_READ then EV_READ else if ke_filter ev = EVFILT_WRITE then EV_WRITE else 0) l)"

primrec kqueue_events_loop :: "'w ev_env \<Rightarrow> kevent list \<Rightarrow> 'w ev_loop \<Rightarrow> 'w ev_loop outcome" where
  "kqueue_events_loop env [] l = Ok l"
| "kqueue_events_loop env (ev # evs) l = obind (kqueue_one env ev l) (kqueue_events_loop env evs)"

text \<open>\<open>EV_TS_SET\<close>: seconds and nanoseconds; \<open>sizeof (struct kevent)\<close> is 32.\<close>

definition ts_set :: "ev_tstamp \<Rightarrow> int \<times> int" where
  "ts_set t = (\<lfloor>t\<rfloor>, \<lfloor>(t - of_int \<lfloor>t\<rfloor>) * 1000000000\<rfloor>)"

definition kqueue_grow :: "nat \<Rightarrow> 'w ev_loop \<Rightarrow> 'w ev_loop" where
  "kqueue_grow cnt l =
     l\<lparr>kqueue_eventmax := nat (array_nextsize 32 (int (kqueue_eventmax l)) (int cnt))\<rparr>"

definition kqueue_poll :: "'w ev_env \<Rightarrow> ev_tstamp \<Rightarrow> 'w ev_loop \<Rightarrow> 'w ev_loop outcome" where
  "kqueue_poll env timeout l =
     (let l = (if length (kqueue_changes l) > kqueue_eventmax l then kqueue_grow (length (kqueue_changes l)) l else l);
          (answer, world) = kevent_call env (backend_fd l) (kqueue_changes l) (kqueue_eventmax l) (ts_set timeout) (ev_world l);
          l = l\<lparr>ev_world := world, kqueue_changes := []\<rparr>
      in case answer of
           Kevent_errno e \<Rightarrow> (if e \<noteq> EINTR then Fault Assertion_failed else Ok l)
         | Kevent_events evs \<Rightarrow>
             obind (kqueue_events_loop env evs l) (\<lambda>l.
               Ok (if length evs = kqueue_eventmax l then kqueue_grow (kqueue_eventmax l + 1) l else l)))"

definition kqueue_init :: "'w ev_env \<Rightarrow> 'w ev_loop \<Rightarrow> ev_mask \<times> 'w ev_loop" where
  "kqueue_init env l =
     (let (fd, world) = kqueue_create env (ev_world l);
          l = l\<lparr>backend_fd := fd, ev_world := world\<rparr>
      in if fd < 0 then (0, l)
         else
           (EVBACKEND_KQUEUE,
            l\<lparr>backend_mintime := 0.000000001, backend_modify := Kqueue_modify, backend_poll := Kqueue_poll,
              kqueue_eventmax := 64, kqueue_changes := []\<rparr>))"

definition kqueue_fork :: "'w ev_env \<Rightarrow> 'w ev_loop \<Rightarrow> 'w ev_loop outcome" where
  "kqueue_fork env l =
     (let (fd, world) = kqueue_create env (close_fd env (backend_fd l) (ev_world l))
      in if fd < 0 then Fault Assertion_failed
         else fd_rearm_all (l\<lparr>backend_fd := fd, ev_world := world\<rparr>))"

section \<open>What the kernel makes of the changes\<close>

text \<open>
  The documented effect of a list of changes on the filters that the kernel has, as a mask
  for every descriptor: an added filter is there once, a deleted one is gone.
\<close>

definition filter_bit :: "int \<Rightarrow> ev_mask" where
  "filter_bit f = (if f = EVFILT_READ then EV_READ else if f = EVFILT_WRITE then EV_WRITE else 0)"

definition apply_change :: "kevent \<Rightarrow> (nat \<Rightarrow> ev_mask) \<Rightarrow> nat \<Rightarrow> ev_mask" where
  "apply_change c m =
     m(ke_ident c :=
       (if ke_flags c AND EV_DELETE \<noteq> 0 then m (ke_ident c) AND NOT (filter_bit (ke_filter c))
        else if ke_flags c AND EV_ADD \<noteq> 0 then m (ke_ident c) OR filter_bit (ke_filter c)
        else m (ke_ident c)))"

text \<open>What the kernel will watch after the next wait, when it watches \<open>reg\<close> now.\<close>

definition kqueue_mask :: "(nat \<Rightarrow> ev_mask) \<Rightarrow> 'w ev_loop \<Rightarrow> nat \<Rightarrow> ev_mask" where
  "kqueue_mask reg l = fold apply_change (kqueue_changes l) reg"

lemma kqueue_mask_change:
  "kqueue_mask reg (kqueue_change fd f EV_DELETE ff l) =
     (kqueue_mask reg l)(fd := kqueue_mask reg l fd AND NOT (filter_bit f))"
  "kqueue_mask reg (kqueue_change fd f (EV_ADD OR EV_ENABLE) ff l) =
     (kqueue_mask reg l)(fd := kqueue_mask reg l fd OR filter_bit f)"
  by (simp_all add: kqueue_mask_def kqueue_change_def apply_change_def kqueue_defs)

lemma backend_core_change [simp]: "backend_core (kqueue_change fd f fl ff l) = backend_core l"
  by (simp add: kqueue_change_def backend_core_def)

lemma kqueue_modify_ok:
  assumes "kqueue_mask reg l fd = oev" "rw_mask oev" "rw_mask nev"
  shows "\<exists>l'. kqueue_modify fd oev nev l = Ok l' \<and> kqueue_mask reg l' = (kqueue_mask reg l)(fd := nev) \<and>
    backend_core l' = backend_core l"
proof -
  define m where "m = kqueue_mask reg l"
  have "m fd = oev" "oev = 0 \<or> oev = 1 \<or> oev = 2 \<or> oev = 3" "nev = 0 \<or> nev = 1 \<or> nev = 2 \<or> nev = 3"
    using assms by (simp_all add: m_def rw_mask_cases ev_mask_defs)
  then show ?thesis
    unfolding kqueue_modify_def Let_def ev_mask_defs m_def [symmetric]
    by (elim disjE; simp add: kqueue_mask_change filter_bit_def EVFILT_READ_def EVFILT_WRITE_def ev_mask_defs
        flip: m_def) auto
qed

end
