(* ===== verification/Ev_Port.thy ===== *)
theory Ev_Port
  imports Ev_Poll Ev_Kqueue
begin

unbundle bit_operations_syntax

text \<open>
  The backend over the event ports of Solaris (\<^verbatim>\<open>src/deps/ev/ev_port.c\<close>). A port forgets a
  descriptor when it reports it, so every reported descriptor is marked as changed and
  associated again before the next wait.
\<close>

section \<open>The code\<close>

definition PORT_SOURCE_FD :: int where "PORT_SOURCE_FD = 4"
definition EBADFD :: int where "EBADFD = 81"
definition ETIME :: int where "ETIME = 62"

definition port_bits :: "ev_mask \<Rightarrow> ev_mask" where
  "port_bits ev = (if ev AND EV_READ \<noteq> 0 then POLLIN else 0) OR (if ev AND EV_WRITE \<noteq> 0 then POLLOUT else 0)"

definition port_associate_and_check :: "'w ev_env \<Rightarrow> nat \<Rightarrow> ev_mask \<Rightarrow> 'w ev_loop \<Rightarrow> 'w ev_loop outcome" where
  "port_associate_and_check env fd ev l =
     (let (err, world) = port_associate env (backend_fd l) fd (port_bits ev) (ev_world l);
          l = l\<lparr>ev_world := world\<rparr>
      in if err \<noteq> 0 then if err = EBADFD then fd_kill fd l else Fault Assertion_failed
         else Ok l)"

definition port_modify :: "'w ev_env \<Rightarrow> nat \<Rightarrow> ev_mask \<Rightarrow> ev_mask \<Rightarrow> 'w ev_loop \<Rightarrow> 'w ev_loop outcome" where
  "port_modify env fd oev nev l =
     (if nev = 0
      then Ok (if oev \<noteq> 0 then l\<lparr>ev_world := port_dissociate env (backend_fd l) fd (ev_world l)\<rparr> else l)
      else port_associate_and_check env fd nev l)"

definition port_got :: "ev_mask \<Rightarrow> ev_mask" where
  "port_got e =
     (if e AND (POLLOUT OR POLLERR OR POLLHUP) \<noteq> 0 then EV_WRITE else 0) OR
     (if e AND (POLLIN OR POLLERR OR POLLHUP) \<noteq> 0 then EV_READ else 0)"

primrec port_events_loop :: "port_event list \<Rightarrow> 'w ev_loop \<Rightarrow> 'w ev_loop outcome" where
  "port_events_loop [] l = Ok l"
| "port_events_loop (ev # evs) l =
     obind
       (if portev_source ev = PORT_SOURCE_FD
        then obind (fd_event (portev_object ev) (port_got (portev_events ev)) l)
               (fd_change (portev_object ev) EV__IOFDSET)
        else Ok l)
       (port_events_loop evs)"

text \<open>
  \<open>nget\<close> starts as 1, and the first event with a source that is skipped; \<open>sizeof (port_event_t)\<close>
  is 24.
\<close>

definition port_poll :: "'w ev_env \<Rightarrow> ev_tstamp \<Rightarrow> 'w ev_loop \<Rightarrow> 'w ev_loop outcome" where
  "port_poll env timeout l =
     (let ((err, got), world) = port_getn env (backend_fd l) (port_eventmax l) (ts_set timeout) (ev_world l);
          l = l\<lparr>ev_world := world\<rparr>;
          evs = (case got of Some evs \<Rightarrow> evs
                 | None \<Rightarrow> [\<lparr>portev_source = 0, portev_object = 0, portev_events = 0\<rparr>])
      in if err \<noteq> 0 \<and> err \<noteq> ETIME \<and> err \<noteq> EINTR then Fault Assertion_failed
         else obind (port_events_loop evs l) (\<lambda>l.
           Ok (if length evs = port_eventmax l
               then l\<lparr>port_eventmax := nat (array_nextsize 24 (int (port_eventmax l)) (int (port_eventmax l) + 1))\<rparr>
               else l)))"

definition port_init :: "'w ev_env \<Rightarrow> 'w ev_loop \<Rightarrow> ev_mask \<times> 'w ev_loop" where
  "port_init env l =
     (let (fd, world) = port_create env (ev_world l);
          l = l\<lparr>backend_fd := fd, ev_world := world\<rparr>
      in if fd < 0 then (0, l)
         else
           (EVBACKEND_PORT,
            l\<lparr>backend_mintime := 0.001, backend_modify := Port_modify, backend_poll := Port_poll, port_eventmax := 64\<rparr>))"

definition port_fork :: "'w ev_env \<Rightarrow> 'w ev_loop \<Rightarrow> 'w ev_loop outcome" where
  "port_fork env l =
     (let (fd, world) = port_create env (close_fd env (backend_fd l) (ev_world l))
      in if fd < 0 then Fault Assertion_failed
         else fd_rearm_all (l\<lparr>backend_fd := fd, ev_world := world\<rparr>))"

section \<open>What the port knows\<close>

text \<open>
  The documented behaviour of a port for descriptors that are open: \<open>assoc\<close> gives the events
  it waits for on behalf of a descriptor, 0 for none.
\<close>

definition port_kernel :: "'w ev_env \<Rightarrow> (int \<Rightarrow> 'w \<Rightarrow> nat \<Rightarrow> ev_mask) \<Rightarrow> bool" where
  "port_kernel env assoc \<longleftrightarrow> (\<forall>port fd ev w.
     (case port_associate env port fd ev w of (err, w') \<Rightarrow> err = 0 \<and> assoc port w' = (assoc port w)(fd := ev)) \<and>
     assoc port (port_dissociate env port fd w) = (assoc port w)(fd := 0))"

lemma port_modify_ok:
  assumes "port_kernel env assoc" and "assoc (backend_fd l) (ev_world l) fd = port_bits oev \<or> nev \<noteq> 0"
  shows "\<exists>w. port_modify env fd oev nev l = Ok (l\<lparr>ev_world := w\<rparr>) \<and>
    assoc (backend_fd l) w = (assoc (backend_fd l) (ev_world l))(fd := port_bits nev)"
proof -
  have z: "port_bits 0 = 0" by (simp add: port_bits_def)
  obtain err w where a: "port_associate env (backend_fd l) fd (port_bits nev) (ev_world l) = (err, w)" by force
  have k: "err = 0" "assoc (backend_fd l) w = (assoc (backend_fd l) (ev_world l))(fd := port_bits nev)"
    using assms(1) a unfolding port_kernel_def by (metis (mono_tags, lifting) case_prod_conv)+
  have d: "assoc (backend_fd l) (port_dissociate env (backend_fd l) fd (ev_world l)) =
      (assoc (backend_fd l) (ev_world l))(fd := 0)"
    using assms(1) by (simp add: port_kernel_def)
  consider "nev \<noteq> 0" | "nev = 0" "oev \<noteq> 0" | "nev = 0" "oev = 0" by blast
  then show ?thesis
  proof cases
    case 1
    then show ?thesis using a k by (auto simp: port_modify_def port_associate_and_check_def)
  next
    case 2
    then show ?thesis using d z by (auto simp: port_modify_def)
  next
    case 3
    then show ?thesis using assms(2) z by (intro exI [of _ "ev_world l"]) (auto simp: port_modify_def)
  qed
qed

end
