(* ===== verification/Ev_Backend.thy ===== *)
theory Ev_Backend
  imports Ev_Poll Ev_Select Ev_Epoll Ev_Kqueue Ev_Port
begin

unbundle bit_operations_syntax

text \<open>
  How the changed descriptors reach the backend (\<^verbatim>\<open>src/deps/ev/ev.c\<close>), what the loop expects
  of a backend, and that the backends over \<open>poll\<close>, \<open>select\<close> and \<open>kqueue\<close> give it.
\<close>

section \<open>Passing the changes on\<close>

definition call_backend_modify ::
  "'w ev_env \<Rightarrow> nat \<Rightarrow> ev_mask \<Rightarrow> ev_mask \<Rightarrow> 'w ev_loop \<Rightarrow> 'w ev_loop outcome" where
  "call_backend_modify env fd oev nev l =
     (case backend_modify l of
        Poll_modify \<Rightarrow> poll_modify fd oev nev l
      | Select_modify \<Rightarrow> select_modify fd oev nev l
      | Epoll_modify \<Rightarrow> epoll_modify env fd oev nev l
      | Kqueue_modify \<Rightarrow> kqueue_modify fd oev nev l
      | Port_modify \<Rightarrow> port_modify env fd oev nev l
      | User_modify k \<Rightarrow> user_modify env k fd oev nev l)"

definition fd_reify_one :: "'w ev_env \<Rightarrow> nat \<Rightarrow> 'w ev_loop \<Rightarrow> 'w ev_loop outcome" where
  "fd_reify_one env fd l =
     obind (anfd_at fd l) (\<lambda>a.
       let o_events = fd_events a;
           o_reify = fd_reify_flag a;
           nev = or_events l (fd_head a);
           l = put_anfd fd (a\<lparr>fd_reify_flag := 0, fd_events := nev\<rparr>) l;
           o_reify = (if o_events \<noteq> nev then EV__IOFDSET else o_reify)
       in if o_reify AND EV__IOFDSET \<noteq> 0 then call_backend_modify env fd o_events nev l else Ok l)"

text \<open>
  A backend that kills a descriptor appends it to the changes that are being worked off.
  With the backends of the library this happens at most once for every change, so fuel for
  twice their number is enough.
\<close>

primrec fd_reify_loop :: "'w ev_env \<Rightarrow> nat \<Rightarrow> nat \<Rightarrow> 'w ev_loop \<Rightarrow> 'w ev_loop outcome" where
  "fd_reify_loop env 0 i l = (if i < length (fdchanges l) then Fault Out_of_fuel else Ok l)"
| "fd_reify_loop env (Suc n) i l =
     (if i < length (fdchanges l)
      then obind (fd_reify_one env (fdchanges l ! i) l) (fd_reify_loop env n (i + 1))
      else Ok l)"

definition fd_reify :: "'w ev_env \<Rightarrow> 'w ev_loop \<Rightarrow> 'w ev_loop outcome" where
  "fd_reify env l =
     obind (fd_reify_loop env (2 * length (fdchanges l)) 0 l) (\<lambda>l. Ok (l\<lparr>fdchanges := []\<rparr>))"

section \<open>What the loop expects of a backend\<close>

locale event_backend =
  fixes env :: "'w ev_env"
    and b :: modify_function
    and inv :: "'w ev_loop \<Rightarrow> bool"
    and kmask :: "'w ev_loop \<Rightarrow> nat \<Rightarrow> ev_mask"
  assumes modify_refines:
    "backend_modify l = b \<Longrightarrow> inv l \<Longrightarrow> kmask l fd = oev \<Longrightarrow> rw_mask oev \<Longrightarrow> rw_mask nev \<Longrightarrow>
       \<exists>l'. call_backend_modify env fd oev nev l = Ok l' \<and> inv l' \<and>
         kmask l' = (kmask l)(fd := nev) \<and> backend_core l' = backend_core l"
    and books_irrelevant:
    "same_backend l' l \<Longrightarrow> inv l' = inv l \<and> kmask l' = kmask l"
begin

lemma reify_modify_ok:
  assumes "backend_modify l = b" "inv l" "kernel_synced kmask l" "fd < length (anfds l)"
    "fd_events (anfds l ! fd) = oev" "rw_mask oev" "rw_mask nev"
    and l1: "l1 = put_anfd fd ((anfds l ! fd)\<lparr>fd_reify_flag := 0, fd_events := nev\<rparr>) l"
  shows "\<exists>l'. (if r then call_backend_modify env fd oev nev l1 else Ok l1) = Ok l' \<and>
    (r \<or> oev = nev \<longrightarrow> inv l' \<and> kernel_synced kmask l' \<and> backend_core l' = backend_core l1)"
proof -
  have same: "inv l1" "kmask l1 = kmask l" "backend_modify l1 = b"
    using books_irrelevant [of l1 l] assms by (simp_all add: put_anfd_def same_backend_def)
  have old: "kmask l1 fd = oev" using assms same by (simp add: kernel_synced_def)
  have synced: "kernel_synced kmask l'" if "kmask l' = (kmask l)(fd := nev)" "anfds l' = anfds l1" for l'
    using assms that by (auto simp: kernel_synced_def put_anfd_def nth_list_update)
  show ?thesis
  proof (cases r)
    case True
    obtain l' where l': "call_backend_modify env fd oev nev l1 = Ok l'" "inv l'"
      "kmask l' = (kmask l)(fd := nev)" "backend_core l' = backend_core l1"
      using modify_refines [OF same(3,1) old assms(6,7)] same(2) by auto
    then show ?thesis using True synced backend_coreD(2) by auto
  next
    case False
    have "kmask l1 = (kmask l)(fd := nev)" if "oev = nev" using that old same(2) by auto
    then show ?thesis using False same synced [of l1] by auto
  qed
qed

lemma fd_reify_one_ok:
  assumes "backend_modify l = b" "inv l" "kernel_synced kmask l" "fds_ok_for (fd # chs) l"
  shows "\<exists>l'. fd_reify_one env fd l = Ok l' \<and> inv l' \<and> kernel_synced kmask l' \<and> fds_ok_for chs l' \<and>
    fdchanges l' = fdchanges l \<and> fd_core l' = fd_core l \<and> map fd_head (anfds l') = map fd_head (anfds l)"
proof -
  let ?a = "anfds l ! fd" and ?nev = "or_events l (fd_head (anfds l ! fd))"
  let ?l1 = "put_anfd fd (?a\<lparr>fd_reify_flag := 0, fd_events := ?nev\<rparr>) l"
  let ?r = "(if fd_events ?a \<noteq> ?nev then EV__IOFDSET else fd_reify_flag ?a) AND EV__IOFDSET \<noteq> 0"
  have fd: "fd < length (anfds l)" and io: "io_lists_ok l" using assms(4) by (auto simp: fds_ok_for_def)
  have rw: "rw_mask (fd_events ?a)" "rw_mask ?nev"
    using assms(4) fd rw_mask_or_events [of "fd_head ?a" l] by (auto simp: fds_ok_for_def io_lists_ok_def)
  have r: "?r \<or> fd_events ?a = ?nev" by (auto simp: EV__IOFDSET_def)
  obtain l' where l': "(if ?r then call_backend_modify env fd (fd_events ?a) ?nev ?l1 else Ok ?l1) = Ok l'"
    "inv l'" "kernel_synced kmask l'" "backend_core l' = backend_core ?l1"
    using reify_modify_ok [OF assms(1-3) fd refl rw refl, of ?r] r by blast
  have core: "fd_core l' = fd_core l" "anfds l' = (anfds l)[fd := ?a\<lparr>fd_reify_flag := 0, fd_events := ?nev\<rparr>]"
    "watchers l' = watchers l" "fdchanges l' = fdchanges l"
    using backend_coreD(1,2,4,3) [OF l'(4)] by (simp_all add: put_anfd_def fd_core_def)
  have "fd_reify_one env fd l = Ok l'"
    using fd l'(1) by (simp add: fd_reify_one_def anfd_at_def Let_def)
  moreover have heads: "map fd_head (anfds l') = map fd_head (anfds l)"
    using fd by (simp add: core(2) map_update list_update_same_conv)
  moreover have "fds_ok_for chs l'"
  proof -
    have h: "fd_head (anfds l' ! k) = fd_head (anfds l ! k)" if "k < length (anfds l)" for k
      using heads that by (metis nth_map length_map)
    have ev: "or_events l' = or_events l" by (simp add: or_events_def core(3) fun_eq_iff)
    have len: "length (anfds l') = length (anfds l)" by (simp add: core(2))
    have "io_lists_ok l'" using io by (simp add: io_lists_ok_def h len core(3))
    then show ?thesis
      using assms(4) rw(2) fd
      by (auto simp: fds_ok_for_def core(2) nth_list_update ev)
  qed
  ultimately show ?thesis using l' core(1,4) by blast
qed

lemma fd_reify_loop_ok:
  assumes "backend_modify l = b" "inv l" "kernel_synced kmask l" "fds_ok_for (drop i (fdchanges l)) l"
    and "length (fdchanges l) \<le> i + n"
  shows "\<exists>l'. fd_reify_loop env n i l = Ok l' \<and> inv l' \<and> kernel_synced kmask l' \<and> fds_ok_for [] l' \<and>
    fd_core l' = fd_core l \<and> map fd_head (anfds l') = map fd_head (anfds l)"
  using assms
proof (induction n arbitrary: i l)
  case (Suc n)
  show ?case
  proof (cases "i < length (fdchanges l)")
    case True
    then have "fds_ok_for (fdchanges l ! i # drop (i + 1) (fdchanges l)) l"
      using Suc.prems(4) by (simp add: Cons_nth_drop_Suc)
    then obtain l1 where l1: "fd_reify_one env (fdchanges l ! i) l = Ok l1" "inv l1" "kernel_synced kmask l1"
      "fds_ok_for (drop (i + 1) (fdchanges l)) l1" "fdchanges l1 = fdchanges l"
      "fd_core l1 = fd_core l" "map fd_head (anfds l1) = map fd_head (anfds l)"
      using fd_reify_one_ok [OF Suc.prems(1-3)] by blast
    have "backend_modify l1 = b" using fd_coreD(2) [OF l1(6)] Suc.prems(1) by simp
    then show ?thesis using Suc.IH [of l1 "i + 1"] l1 Suc.prems(5) True by simp
  qed (use Suc.prems in auto)
qed auto

lemma fd_reify_ok:
  assumes "backend_modify l = b" "inv l" "kernel_synced kmask l" "fds_ok l"
  shows "\<exists>l'. fd_reify env l = Ok l' \<and> inv l' \<and> kernel_synced kmask l' \<and> fds_ok l' \<and> fdchanges l' = [] \<and>
    fd_core l' = fd_core l \<and> map fd_head (anfds l') = map fd_head (anfds l) \<and>
    (\<forall>fd < length (anfds l). kmask l' fd = or_events l (fd_head (anfds l ! fd)))"
proof -
  obtain l1 where l1: "fd_reify_loop env (2 * length (fdchanges l)) 0 l = Ok l1" "inv l1" "kernel_synced kmask l1"
    "fds_ok_for [] l1" "fd_core l1 = fd_core l" "map fd_head (anfds l1) = map fd_head (anfds l)"
    using fd_reify_loop_ok [OF assms(1-3), of 0 "2 * length (fdchanges l)"] assms(4) by (auto simp: fds_ok_def)
  let ?l = "l1\<lparr>fdchanges := []\<rparr>"
  have same: "inv ?l" "kmask ?l = kmask l1" using books_irrelevant [of ?l l1] l1(2) by (simp_all add: same_backend_def)
  have len: "length (anfds l1) = length (anfds l)" using l1(6) by (metis length_map)
  have "kmask ?l fd = or_events l (fd_head (anfds l ! fd))" if "fd < length (anfds l)" for fd
    using l1(3,4,6) that len same(2) fd_coreD(1) [OF l1(5)]
    by (auto simp: kernel_synced_def fds_ok_for_def or_events_def dest: arg_cong [where f = "\<lambda>hs. hs ! fd"])
  moreover have "fds_ok_for [] ?l = fds_ok_for [] l1"
    by (simp add: fds_ok_for_def io_lists_ok_def or_events_def)
  then have "fds_ok ?l" using l1(4) by (simp add: fds_ok_def)
  moreover have "kernel_synced kmask ?l" using l1(3) same(2) by (simp add: kernel_synced_def)
  moreover have "fd_core ?l = fd_core l" using l1(5) by (simp add: fd_core_def)
  ultimately show ?thesis using l1 same by (simp add: fd_reify_def)
qed

text \<open>Starting and stopping keep the books.\<close>

lemma ev_io_start_ok:
  assumes ok: "fds_ok l" and "\<not> ev_is_active w l" and fd: "0 \<le> w_fd (watchers l w)"
    and ev: "w_events (watchers l w) AND NOT (EV__IOFDSET OR EV_READ OR EV_WRITE) = 0"
  shows "\<exists>l'. ev_io_start w l = Ok l' \<and> fds_ok l' \<and> (kernel_synced kmask l \<longrightarrow> kernel_synced kmask l') \<and>
    same_backend l' l \<and> pendings l' = pendings l \<and>
    activecnt l' = activecnt l + 1 \<and> ev_is_active w l' \<and> nat (w_fd (watchers l w)) < length (anfds l') \<and>
    w \<in> set (fd_head (anfds l' ! nat (w_fd (watchers l w)))) \<and>
    w_events (watchers l' w) = w_events (watchers l w) AND NOT EV__IOFDSET \<and>
    (\<forall>k < length (anfds l'). \<forall>x \<in> set (fd_head (anfds l' ! k)).
       x = w \<or> k < length (anfds l) \<and> x \<in> set (fd_head (anfds l ! k))) \<and>
    w_priority (watchers l' w) = w_priority (watchers (pri_adjust w l) w) \<and>
    (\<forall>x. w_pending (watchers l' x) = w_pending (watchers l x)) \<and>
    (\<forall>x. x \<noteq> w \<longrightarrow> watchers l' x = watchers l x)"
proof -
  let ?fd = "nat (w_fd (watchers l w))" and ?ev = "w_events (watchers l w)"
  define l0 where "l0 = ev_start w 1 l"
  have l0: "anfds l0 = anfds l" "fdchanges l0 = fdchanges l" "same_backend l0 l"
    "pendings l0 = pendings l" "activecnt l0 = activecnt l + 1" "w_events (watchers l0 w) = ?ev"
    "w_fd (watchers l0 w) = w_fd (watchers l w)" "w_active (watchers l0 w) = 1"
    "\<And>x. x \<noteq> w \<Longrightarrow> watchers l0 x = watchers l x"
    by (simp_all add: l0_def ev_start_def ev_ref_def pri_adjust_def Let_def upd_watcher_def same_backend_def)
  have notin: "w \<notin> set (fd_head (anfds l ! k))" if "k < length (anfds l)" for k
    using ok that assms(2) by (auto simp: fds_ok_def fds_ok_for_def io_lists_ok_def ev_is_active_def)
  have same: "watchers l0 x = watchers l x" if "k < length (anfds l)" "x \<in> set (fd_head (anfds l ! k))" for k x
    using notin [OF that(1)] that(2) l0(9) [of x] by metis
  have "or_events l0 (fd_head (anfds l ! k)) = or_events l (fd_head (anfds l ! k))" if "k < length (anfds l)" for k
    by (rule or_events_cong) (use same [OF that] in simp)
  then have ok0: "fds_ok l0"
    using ok same by (auto simp: fds_ok_def fds_ok_for_def io_lists_ok_def l0)
  define l1 where "l1 = anfds_needsize (?fd + 1) l0"
  note l1 = fds_ok_needsize [OF ok0, of "?fd + 1", folded l1_def]
  obtain n where n: "anfds l1 = anfds l @ replicate n no_anfd" using l1(6) l0(1) by auto
  have w1: "watchers l1 = watchers l0" "pendings l1 = pendings l" "activecnt l1 = activecnt l + 1"
    using fd_coreD [OF l1(4)] l0 by simp_all
  have fdl: "?fd < length (anfds l1)" using l1(2) by simp
  let ?a = "anfds l1 ! ?fd"
  let ?r = "(fd_reify_flag ?a OR (?ev AND EV__IOFDSET OR EV_ANFD_REIFY)) AND 0xFF"
  let ?l2 = "l1\<lparr>anfds := (anfds l1)[?fd := ?a\<lparr>fd_head := w # fd_head ?a, fd_reify_flag := ?r\<rparr>],
      fdchanges := (if ?fd \<in> set (fdchanges l1) then fdchanges l1 else fdchanges l1 @ [?fd])\<rparr>"
  let ?l3 = "upd_watcher w (\<lambda>x. x\<lparr>w_events := w_events x AND NOT EV__IOFDSET\<rparr>) ?l2"
  have notin1: "w \<notin> set (fd_head (anfds l1 ! k))" if "k < length (anfds l1)" for k
    using notin that by (auto simp: n nth_append no_anfd_def)
  have rw: "rw_mask (?ev AND NOT EV__IOFDSET)"
    using ev by (simp add: rw_mask_def ac_simps)
  have go: "fd_change ?fd (?ev AND EV__IOFDSET OR EV_ANFD_REIFY) (put_anfd ?fd (?a\<lparr>fd_head := w # fd_head ?a\<rparr>) l1) = Ok ?l2"
    by (rule fd_change_eq [OF fdl fds_ok_flag [OF l1(1) fdl]])
  have at: "anfd_at ?fd l1 = Ok ?a" using fdl by (simp add: anfd_at_def)
  have "ev_io_start w l = Ok ?l3"
    by (simp only: ev_io_start_def Let_def l0_def [symmetric] l1_def [symmetric] assms(2) fd ev at go
        g_assert_simps obind.simps wlist_add_def if_False simp_thms)
  moreover have "fds_ok ?l3"
  proof (rule fds_ok_touch [OF l1(1) fdl _ or_reify_nonzero])
    show "distinct (w # fd_head ?a)"
      using l1(1) fdl notin1 by (auto simp: fds_ok_def fds_ok_for_def io_lists_ok_def)
    show "w_fd (watchers ?l3 x) = int ?fd \<and> w_active (watchers ?l3 x) = 1 \<and> rw_mask (w_events (watchers ?l3 x))"
      if "x \<in> set (w # fd_head ?a)" for x
    proof (cases "x = w")
      case True
      then show ?thesis using fd rw l0(6-8) w1(1) by simp
    next
      case False
      then have "x \<in> set (fd_head ?a)" using that by simp
      then have "w_fd (watchers l1 x) = int ?fd \<and> w_active (watchers l1 x) = 1 \<and> rw_mask (w_events (watchers l1 x))"
        using l1(1) fdl unfolding fds_ok_def fds_ok_for_def io_lists_ok_def by blast
      then show ?thesis using False by simp
    qed
  qed (use notin1 in \<open>auto simp: upd_watcher_def\<close>)
  moreover have sb: "same_backend ?l3 l" using l1(5) l0(3) by (simp add: same_backend_def upd_watcher_def)
  moreover have "kernel_synced kmask ?l3" if "kernel_synced kmask l"
  proof (rule kernel_synced_keep [OF that])
    show "kmask ?l3 = kmask l" using books_irrelevant [OF sb] by simp
    show "map fd_events (anfds ?l3) = map fd_events (anfds l) @ replicate n 0"
      using fdl n by (auto simp: map_update list_update_same_conv nth_append no_anfd_def)
  qed
  moreover have "pendings ?l3 = pendings l"
    "activecnt ?l3 = activecnt l + 1" "ev_is_active w ?l3" "?fd < length (anfds ?l3)"
    "w \<in> set (fd_head (anfds ?l3 ! ?fd))" "w_events (watchers ?l3 w) = ?ev AND NOT EV__IOFDSET"
    using l0 w1 fdl by (simp_all add: upd_watcher_def ev_is_active_def)
  moreover have "w_pending (watchers ?l3 x) = w_pending (watchers l x)" for x
    using w1(1) by (simp add: l0_def ev_start_def ev_ref_def pri_adjust_def Let_def)
  moreover have "x \<noteq> w \<longrightarrow> watchers ?l3 x = watchers l x" for x using w1(1) l0(9) by simp
  moreover have "x = w \<or> k < length (anfds l) \<and> x \<in> set (fd_head (anfds l ! k))"
    if "k < length (anfds ?l3)" "x \<in> set (fd_head (anfds ?l3 ! k))" for k x
    using that fdl by (auto simp: nth_list_update n nth_append no_anfd_def split: if_splits)
  moreover have "w_priority (watchers ?l3 w) = w_priority (watchers (pri_adjust w l) w)"
    using w1(1) by (simp add: l0_def ev_start_def ev_ref_def pri_adjust_def Let_def)
  ultimately show ?thesis by blast
qed

lemma ev_io_stop_ok:
  assumes ok: "fds_ok l" and pend: "pending_ok l"
    and fd: "fd < length (anfds l)" and w: "w \<in> set (fd_head (anfds l ! fd))"
  shows "\<exists>l'. ev_io_stop w l = Ok l' \<and> fds_ok l' \<and> pending_ok l' \<and> (kernel_synced kmask l \<longrightarrow> kernel_synced kmask l') \<and>
    length (anfds l') = length (anfds l) \<and>
    (\<forall>k < length (anfds l). fd_head (anfds l' ! k) =
       (if k = fd then remove1 w (fd_head (anfds l ! k)) else fd_head (anfds l ! k))) \<and>
    watchers l' = (watchers (clear_pending w l))(w := (watchers (clear_pending w l) w)\<lparr>w_active := 0\<rparr>) \<and>
    pendings l' = pendings (clear_pending w l) \<and> activecnt l' = activecnt l - 1 \<and>
    same_backend l' l \<and> backend_modify l' = backend_modify l"
proof -
  define l0 where "l0 = clear_pending w l"
  note k0 = clear_pending_keeps [of w l, folded l0_def]
  have ok0: "fds_ok l0" by (rule fds_ok_frame [OF ok]) (simp_all add: k0)
  have fdw: "w_fd (watchers l0 w) = int fd" "w_active (watchers l0 w) = 1"
    using ok fd w by (auto simp: k0 fds_ok_def fds_ok_for_def io_lists_ok_def)
  have other: "w \<notin> set (fd_head (anfds l ! k))" if "k < length (anfds l)" "k \<noteq> fd" for k
  proof
    assume "w \<in> set (fd_head (anfds l ! k))"
    then have "w_fd (watchers l w) = int k"
      using ok that(1) unfolding fds_ok_def fds_ok_for_def io_lists_ok_def by blast
    then show False using fdw(1) that(2) by (simp add: k0)
  qed
  let ?a = "anfds l ! fd" and ?l1 = "ev_stop w l0"
  let ?ws = "remove1 w (fd_head ?a)" and ?r = "(fd_reify_flag ?a OR EV_ANFD_REIFY) AND 0xFF"
  let ?l2 = "?l1\<lparr>anfds := (anfds l)[fd := ?a\<lparr>fd_head := ?ws, fd_reify_flag := ?r\<rparr>],
      fdchanges := (if fd \<in> set (fdchanges l) then fdchanges l else fdchanges l @ [fd])\<rparr>"
  have l1: "anfds ?l1 = anfds l" "fdchanges ?l1 = fdchanges l"
    by (simp_all add: ev_stop_def ev_unref_def upd_watcher_def k0)
  have swap: "ev_stop w (put_anfd fd a l0) = put_anfd fd a ?l1" for a
    by (simp add: ev_stop_def ev_unref_def put_anfd_def upd_watcher_def)
  have "fd_change fd EV_ANFD_REIFY (put_anfd fd (?a\<lparr>fd_head := ?ws\<rparr>) ?l1) = Ok ?l2"
    using fd_change_eq [of fd ?l1 EV_ANFD_REIFY ?ws] fds_ok_flag [OF ok fd] fd by (simp add: l1)
  moreover have "ev_is_active w l0" "anfd_at fd l0 = Ok ?a"
    using fdw fd by (simp_all add: ev_is_active_def anfd_at_def k0)
  ultimately have code: "ev_io_stop w l = Ok ?l2"
    using fd by (simp add: ev_io_stop_def l0_def [symmetric] fdw(1) k0(1) wlist_del_remove1 swap)
  have "fds_ok ?l2"
  proof (rule fds_ok_touch [OF ok0, of fd ?ws ?r])
    show "?r \<noteq> 0" using or_reify_nonzero [of "fd_reify_flag ?a" 0] by simp
    show "distinct ?ws" using ok fd by (auto simp: fds_ok_def fds_ok_for_def io_lists_ok_def)
    show "w_fd (watchers ?l2 x) = int fd \<and> w_active (watchers ?l2 x) = 1 \<and> rw_mask (w_events (watchers ?l2 x))"
      if "x \<in> set ?ws" for x
      using that ok fd
      by (auto simp: fds_ok_def fds_ok_for_def io_lists_ok_def ev_stop_def ev_unref_def upd_watcher_def k0)
    show "w_fd (watchers ?l2 x) = w_fd (watchers l0 x) \<and> w_active (watchers ?l2 x) = w_active (watchers l0 x) \<and>
        w_events (watchers ?l2 x) = w_events (watchers l0 x)"
      if "k < length (anfds l0)" "k \<noteq> fd" "x \<in> set (fd_head (anfds l0 ! k))" for k x
      using other [of k] that by (auto simp: ev_stop_def ev_unref_def upd_watcher_def k0)
  qed (use fd in \<open>simp_all add: k0\<close>)
  moreover have sb: "same_backend ?l2 l"
    using k0(3) by (simp add: same_backend_def ev_stop_def ev_unref_def upd_watcher_def)
  moreover have "kernel_synced kmask ?l2" if "kernel_synced kmask l"
  proof (rule kernel_synced_keep [OF that, of _ _ 0])
    show "kmask ?l2 = kmask l" using books_irrelevant [OF sb] by simp
    show "map fd_events (anfds ?l2) = map fd_events (anfds l) @ replicate 0 0"
      using fd by (simp add: map_update list_update_same_conv)
  qed
  moreover have "pending_ok ?l2"
  proof -
    have "pending_ok (upd_watcher w (\<lambda>x. x\<lparr>w_active := 0\<rparr>) l0)"
      by (rule pending_ok_upd) (simp_all add: l0_def pending_ok_clear(1) [OF pend])
    then show ?thesis by (simp add: pending_ok_def ev_stop_def ev_unref_def upd_watcher_def)
  qed
  moreover have "watchers ?l2 = (watchers l0)(w := (watchers l0 w)\<lparr>w_active := 0\<rparr>)"
    "pendings ?l2 = pendings l0" "activecnt ?l2 = activecnt l - 1"
    "backend_modify ?l2 = backend_modify l"
    by (simp_all add: ev_stop_def ev_unref_def upd_watcher_def k0)
  ultimately show ?thesis using code fd by (auto simp: l0_def nth_list_update)
qed

lemma fd_kill_loop_ok:
  assumes "fds_ok l" "pending_ok l" "kernel_synced kmask l" "fd < length (anfds l)"
    "length (fd_head (anfds l ! fd)) \<le> n" "pending_w \<notin> set (fd_head (anfds l ! fd))"
  shows "\<exists>l'. fd_kill_loop n fd l = Ok l' \<and> fds_ok l' \<and> pending_ok l' \<and> kernel_synced kmask l' \<and>
    length (anfds l') = length (anfds l) \<and>
    (\<forall>k < length (anfds l). fd_head (anfds l' ! k) = (if k = fd then [] else fd_head (anfds l ! k))) \<and>
    (\<forall>w \<in> set (fd_head (anfds l ! fd)). \<not> ev_is_active w l' \<and> queued w (EV_ERROR OR EV_READ OR EV_WRITE) l') \<and>
    (\<forall>w ev. w \<notin> set (fd_head (anfds l ! fd)) \<longrightarrow>
       (ev_is_active w l' = ev_is_active w l) \<and> (queued w ev l \<longrightarrow> queued w ev l')) \<and>
    activecnt l' = activecnt l - int (length (fd_head (anfds l ! fd)))"
  using assms
proof (induction n arbitrary: l)
  case 0
  then show ?case by (auto simp: anfd_at_def intro!: exI [of _ l])
next
  case (Suc n)
  show ?case
  proof (cases "fd_head (anfds l ! fd)")
    case Nil
    then show ?thesis using Suc.prems by (auto simp: anfd_at_def intro!: exI [of _ l])
  next
    case (Cons w ws)
    let ?ee = "EV_ERROR OR EV_READ OR EV_WRITE"
    obtain l1 where l1: "ev_io_stop w l = Ok l1" "fds_ok l1" "pending_ok l1" "kernel_synced kmask l1"
      "length (anfds l1) = length (anfds l)"
      "\<And>k. k < length (anfds l) \<Longrightarrow> fd_head (anfds l1 ! k) =
         (if k = fd then remove1 w (fd_head (anfds l ! k)) else fd_head (anfds l ! k))"
      "watchers l1 = (watchers (clear_pending w l))(w := (watchers (clear_pending w l) w)\<lparr>w_active := 0\<rparr>)"
      "pendings l1 = pendings (clear_pending w l)" "activecnt l1 = activecnt l - 1"
      using ev_io_stop_ok [OF Suc.prems(1,2,4), of w] Suc.prems(3) Cons by auto
    define l2 where "l2 = ev_feed_event w ?ee l1"
    note k2 = ev_feed_event_keeps [of w ?ee l1, folded l2_def]
    have ws: "fd_head (anfds l1 ! fd) = ws" "w \<noteq> pending_w" "w \<notin> set ws"
      using l1(6) [OF Suc.prems(4)] Suc.prems(1,4,6) Cons
      by (auto simp: fds_ok_def fds_ok_for_def io_lists_ok_def)
    have ok2: "fds_ok l2" by (rule fds_ok_frame [OF l1(2)]) (simp_all add: k2)
    have "kmask l2 = kmask l1" using books_irrelevant [OF k2(3)] by simp
    then have sync2: "kernel_synced kmask l2" using l1(4) by (simp add: kernel_synced_def k2)
    have pend2: "pending_ok l2" unfolding l2_def by (rule pending_ok_feed [OF l1(3) ws(2)])
    have w2: "queued w ?ee l2" "\<not> ev_is_active w l2"
      using queued_feed [of l1 w ?ee] pending_ok_clear(2) [OF Suc.prems(2), of w] l1(7)
      by (simp_all add: l2_def [symmetric] ev_is_active_def k2)
    have q2: "queued x ev l2" if "queued x ev l" "x \<noteq> w" for x ev
    proof -
      have "queued x ev (clear_pending w l)" by (rule queued_clear_other [OF that(1) _ Suc.prems(2)]) (use that(2) in blast)
      then have "queued x ev l1" using that(2) by (simp add: queued_def l1(7,8))
      then show ?thesis unfolding l2_def by (rule queued_feed_other [OF _ _ l1(3)]) (use that(2) in blast)
    qed
    have a2: "ev_is_active x l2 = ev_is_active x l" if "x \<noteq> w" for x
      using that by (simp add: ev_is_active_def k2 l1(7) clear_pending_keeps)
    obtain l' where l': "fd_kill_loop n fd l2 = Ok l'" "fds_ok l'" "pending_ok l'" "kernel_synced kmask l'"
      "length (anfds l') = length (anfds l2)"
      "\<And>k. k < length (anfds l2) \<Longrightarrow> fd_head (anfds l' ! k) = (if k = fd then [] else fd_head (anfds l2 ! k))"
      "\<And>w. w \<in> set ws \<Longrightarrow> \<not> ev_is_active w l' \<and> queued w ?ee l'"
      "\<And>w ev. w \<notin> set ws \<Longrightarrow> (ev_is_active w l' = ev_is_active w l2) \<and> (queued w ev l2 \<longrightarrow> queued w ev l')"
      "activecnt l' = activecnt l2 - int (length ws)"
      using Suc.IH [OF ok2 pend2 sync2] Suc.prems(4-6) Cons ws k2(1) l1(5) by auto
    have "fd_kill_loop (Suc n) fd l = Ok l'"
      using Suc.prems(4) Cons l1(1) l'(1) by (simp add: anfd_at_def l2_def)
    moreover have "fd_head (anfds l' ! k) = (if k = fd then [] else fd_head (anfds l ! k))"
      if "k < length (anfds l)" for k
      using l'(6) [of k] l1(6) [OF that] that l1(5) by (simp add: k2)
    moreover have "\<not> ev_is_active x l' \<and> queued x ?ee l'" if "x \<in> set (fd_head (anfds l ! fd))" for x
      using that Cons l'(7) [of x] l'(8) [of x ?ee] w2 ws(3) by (cases "x = w") auto
    moreover have "(ev_is_active x l' = ev_is_active x l) \<and> (queued x ev l \<longrightarrow> queued x ev l')"
      if "x \<notin> set (fd_head (anfds l ! fd))" for x ev
      using that Cons l'(8) [of x ev] q2 [of x ev] a2 [of x] by auto
    moreover have "activecnt l' = activecnt l - int (length (fd_head (anfds l ! fd)))"
      using l'(9) l1(9) Cons by (simp add: k2)
    ultimately show ?thesis using l'(2-5) l1(5) by (simp add: k2)
  qed
qed

end

section \<open>The backends keep the promise\<close>

interpretation poll: event_backend env Poll_modify polls_ok poll_mask for env
proof
  show "\<exists>l'. call_backend_modify env fd oev nev l = Ok l' \<and> polls_ok l' \<and>
      poll_mask l' = (poll_mask l)(fd := nev) \<and> backend_core l' = backend_core l"
    if "backend_modify l = Poll_modify" "polls_ok l" "poll_mask l fd = oev" "rw_mask oev" "rw_mask nev"
    for l :: "'a ev_loop" and fd oev nev
    using poll_modify_ok [OF that(2,3,5)] that(1) by (simp add: call_backend_modify_def)
  show "polls_ok l' = polls_ok l \<and> poll_mask l' = poll_mask l" if "same_backend l' l" for l l' :: "'a ev_loop"
    using that by (simp add: same_backend_def polls_ok_def poll_mask_def fun_eq_iff)
qed

interpretation select: event_backend env Select_modify selects_ok select_mask for env
proof
  show "\<exists>l'. call_backend_modify env fd oev nev l = Ok l' \<and> selects_ok l' \<and>
      select_mask l' = (select_mask l)(fd := nev) \<and> backend_core l' = backend_core l"
    if "backend_modify l = Select_modify" "selects_ok l" "select_mask l fd = oev" "rw_mask oev" "rw_mask nev"
    for l :: "'a ev_loop" and fd oev nev
    using select_modify_ok [OF that(2,3,5)] that(1) by (simp add: call_backend_modify_def)
  show "selects_ok l' = selects_ok l \<and> select_mask l' = select_mask l" if "same_backend l' l" for l l' :: "'a ev_loop"
    using that by (simp add: same_backend_def selects_ok_def select_mask_def)
qed

text \<open>
  A loop with the \<open>kqueue\<close> backend has told the kernel what it will watch once the collected
  changes are applied to what it watches now.
\<close>

interpretation kqueue: event_backend env Kqueue_modify "\<lambda>_. True" "kqueue_mask reg" for env reg
proof
  show "\<exists>l'. call_backend_modify env fd oev nev l = Ok l' \<and> True \<and>
      kqueue_mask reg l' = (kqueue_mask reg l)(fd := nev) \<and> backend_core l' = backend_core l"
    if "backend_modify l = Kqueue_modify" "kqueue_mask reg l fd = oev" "rw_mask oev" "rw_mask nev"
    for l :: "'a ev_loop" and fd oev nev
    using kqueue_modify_ok [OF that(2-4)] that(1) by (simp add: call_backend_modify_def)
  show "True = True \<and> kqueue_mask reg l' = kqueue_mask reg l" if "same_backend l' l" for l l' :: "'a ev_loop"
    using that by (simp add: same_backend_def kqueue_mask_def)
qed

end
