(* ===== verification/Ev_Timer.thy ===== *)
theory Ev_Timer
  imports Ev_Heap Ev_Backend
begin

unbundle bit_operations_syntax

text \<open>
  Timers and periodics (\<^verbatim>\<open>src/deps/ev/ev.c\<close>): starting and stopping them on their heaps,
  making the expired ones pending, and the clocks of the loop.
\<close>

section \<open>Timers\<close>

text \<open>\<open>ANHE_at_cache\<close> for a watcher, and putting a changed heap back.\<close>

definition anhe_of :: "addr \<Rightarrow> 'w ev_loop \<Rightarrow> anhe" where
  "anhe_of w l = \<lparr>he_at = w_at (watchers l w), he_w = w\<rparr>"

definition put_timers :: "(nat \<Rightarrow> anhe) \<times> (addr \<Rightarrow> ev_watcher) \<Rightarrow> 'w ev_loop \<Rightarrow> 'w ev_loop" where
  "put_timers r l = (case r of (heap, ws) \<Rightarrow> l\<lparr>timers := heap, watchers := ws\<rparr>)"

definition ev_timer_start :: "addr \<Rightarrow> 'w ev_loop \<Rightarrow> 'w ev_loop outcome" where
  "ev_timer_start w l =
     (if ev_is_active w l then Ok l
      else
        let l = upd_watcher w (\<lambda>x. x\<lparr>w_at := w_at x + mn_now l\<rparr>) l
        in obind (g_assert (w_repeat (watchers l w) \<ge> 0)) (\<lambda>_.
           let l = l\<lparr>timercnt := timercnt l + 1\<rparr>;
               l = ev_start w (timercnt l + HEAP0 - 1) l;
               k = w_active (watchers l w)
           in Ok (put_timers (upheap ((timers l)(k := anhe_of w l)) k (watchers l)) l)))"

definition ev_timer_stop :: "addr \<Rightarrow> 'w ev_loop \<Rightarrow> 'w ev_loop outcome" where
  "ev_timer_stop w l =
     (let l = clear_pending w l
      in if \<not> ev_is_active w l then Ok l
         else
           let active = w_active (watchers l w)
           in obind (g_assert (he_w (timers l active) = w)) (\<lambda>_.
              let l = l\<lparr>timercnt := timercnt l - 1\<rparr>;
                  l = (if active < timercnt l + HEAP0
                       then put_timers (adjustheap ((timers l)(active := timers l (timercnt l + HEAP0)))
                              (timercnt l) active (watchers l)) l
                       else l);
                  l = upd_watcher w (\<lambda>x. x\<lparr>w_at := w_at x - mn_now l\<rparr>) l
              in Ok (ev_stop w l)))"

definition ev_timer_again :: "addr \<Rightarrow> 'w ev_loop \<Rightarrow> 'w ev_loop outcome" where
  "ev_timer_again w l =
     (let l = clear_pending w l; rep = w_repeat (watchers l w)
      in if ev_is_active w l
         then if rep \<noteq> 0
              then let l = upd_watcher w (\<lambda>x. x\<lparr>w_at := mn_now l + rep\<rparr>) l;
                       k = w_active (watchers l w)
                   in Ok (put_timers (adjustheap ((timers l)(k := (timers l k)\<lparr>he_at := mn_now l + rep\<rparr>))
                            (timercnt l) k (watchers l)) l)
              else ev_timer_stop w l
         else if rep \<noteq> 0 then ev_timer_start w (upd_watcher w (\<lambda>x. x\<lparr>w_at := rep\<rparr>) l)
         else Ok l)"

definition ev_timer_remaining :: "addr \<Rightarrow> 'w ev_loop \<Rightarrow> ev_tstamp" where
  "ev_timer_remaining w l = w_at (watchers l w) - (if ev_is_active w l then mn_now l else 0)"

definition timer_expired :: "'w ev_loop \<Rightarrow> bool" where
  "timer_expired l \<longleftrightarrow> timercnt l \<noteq> 0 \<and> he_at (timers l HEAP0) < mn_now l"

text \<open>One round of \<open>timers_reify\<close>: the first timer goes on or stops, and is collected.\<close>

definition timers_reify_one :: "'w ev_loop \<Rightarrow> 'w ev_loop outcome" where
  "timers_reify_one l =
     (let w = he_w (timers l HEAP0); rep = w_repeat (watchers l w)
      in obind
           (if rep \<noteq> 0
            then let t = w_at (watchers l w) + rep;
                     t = (if t < mn_now l then mn_now l else t);
                     l = upd_watcher w (\<lambda>x. x\<lparr>w_at := t\<rparr>) l
                 in obind (g_assert (rep > 0)) (\<lambda>_.
                    Ok (put_timers (downheap ((timers l)(HEAP0 := (timers l HEAP0)\<lparr>he_at := t\<rparr>))
                          (timercnt l) HEAP0 (watchers l)) l))
            else ev_timer_stop w l)
           (\<lambda>l. Ok (feed_reverse w l)))"

primrec timers_reify_loop :: "nat \<Rightarrow> 'w ev_loop \<Rightarrow> 'w ev_loop outcome" where
  "timers_reify_loop 0 l = (if timer_expired l then Fault Out_of_fuel else Ok l)"
| "timers_reify_loop (Suc n) l =
     (if timer_expired l then obind (timers_reify_one l) (timers_reify_loop n) else Ok l)"

text \<open>A round leaves one expired timer less, so their count is fuel enough.\<close>

definition timers_reify :: "'w ev_loop \<Rightarrow> 'w ev_loop outcome" where
  "timers_reify l =
     (if timer_expired l
      then obind (timers_reify_loop (timercnt l) l) (\<lambda>l. Ok (feed_reverse_done EV_TIMER l))
      else Ok l)"

primrec timers_reschedule_loop :: "nat \<Rightarrow> ev_tstamp \<Rightarrow> 'w ev_loop \<Rightarrow> 'w ev_loop" where
  "timers_reschedule_loop 0 adjust l = l"
| "timers_reschedule_loop (Suc i) adjust l =
     (let l = timers_reschedule_loop i adjust l;
          k = i + HEAP0;
          w = he_w (timers l k);
          l = upd_watcher w (\<lambda>x. x\<lparr>w_at := w_at x + adjust\<rparr>) l
      in l\<lparr>timers := (timers l)(k := anhe_of w l)\<rparr>)"

definition timers_reschedule :: "ev_tstamp \<Rightarrow> 'w ev_loop \<Rightarrow> 'w ev_loop" where
  "timers_reschedule adjust l = timers_reschedule_loop (timercnt l) adjust l"

section \<open>The floor function\<close>

text \<open>
  \<open>unsigned long\<close> has 64 bits. The test \<open>v == v - 1.\<close> recognises numbers too large to have
  a fraction as a \<open>double\<close>; among the real numbers it never holds.
\<close>

definition floor_shift :: ev_tstamp where "floor_shift = 18446744073709551616"

partial_function (option) ev_floor :: "ev_tstamp \<Rightarrow> ev_tstamp option" where
  "ev_floor v =
     (if v \<ge> floor_shift
      then if v = v - 1 then Some v
           else Option.bind (ev_floor (v * (1 / floor_shift))) (\<lambda>q.
             let f = floor_shift * q
             in Option.bind (ev_floor (v - f)) (\<lambda>r. Some (f + r)))
      else if v < 0
      then Option.bind (ev_floor (- v)) (\<lambda>p.
             let f = - p in Some (f - (if f = v then 0 else 1)))
      else Some (of_int \<lfloor>v\<rfloor>))"

section \<open>Periodics\<close>

partial_function (option) recalc_loop :: "ev_tstamp \<Rightarrow> ev_tstamp \<Rightarrow> ev_tstamp \<Rightarrow> ev_tstamp option" where
  "recalc_loop now interval t =
     (if t \<le> now
      then let next = t + interval
           in if next = t then Some now else recalc_loop now interval next
      else Some t)"

definition recalc_at :: "ev_watcher \<Rightarrow> ev_tstamp \<Rightarrow> ev_tstamp option" where
  "recalc_at x now =
     (let interval = (if w_interval x > MIN_INTERVAL then w_interval x else MIN_INTERVAL)
      in Option.bind (ev_floor ((now - w_offset x) / interval)) (\<lambda>q.
           recalc_loop now (w_interval x) (w_offset x + interval * q)))"

definition periodic_recalc :: "addr \<Rightarrow> 'w ev_loop \<Rightarrow> 'w ev_loop outcome" where
  "periodic_recalc w l =
     (case recalc_at (watchers l w) (ev_rt_now l) of
        None \<Rightarrow> Fault Out_of_fuel
      | Some t \<Rightarrow> Ok (upd_watcher w (\<lambda>x. x\<lparr>w_at := t\<rparr>) l))"

definition put_periodics :: "(nat \<Rightarrow> anhe) \<times> (addr \<Rightarrow> ev_watcher) \<Rightarrow> 'w ev_loop \<Rightarrow> 'w ev_loop" where
  "put_periodics r l = (case r of (heap, ws) \<Rightarrow> l\<lparr>periodics := heap, watchers := ws\<rparr>)"

definition ev_periodic_start :: "'w ev_env \<Rightarrow> addr \<Rightarrow> 'w ev_loop \<Rightarrow> 'w ev_loop outcome" where
  "ev_periodic_start env w l =
     (if ev_is_active w l then Ok l
      else
        obind
          (case w_reschedule_cb (watchers l w) of
             Some k \<Rightarrow> Ok (upd_watcher w (\<lambda>x. x\<lparr>w_at := reschedule env k x (ev_rt_now l)\<rparr>) l)
           | None \<Rightarrow>
               if w_interval (watchers l w) \<noteq> 0
               then obind (g_assert (w_interval (watchers l w) \<ge> 0)) (\<lambda>_. periodic_recalc w l)
               else Ok (upd_watcher w (\<lambda>x. x\<lparr>w_at := w_offset x\<rparr>) l))
          (\<lambda>l.
             let l = l\<lparr>periodiccnt := periodiccnt l + 1\<rparr>;
                 l = ev_start w (periodiccnt l + HEAP0 - 1) l;
                 k = w_active (watchers l w)
             in Ok (put_periodics (upheap ((periodics l)(k := anhe_of w l)) k (watchers l)) l)))"

definition ev_periodic_stop :: "addr \<Rightarrow> 'w ev_loop \<Rightarrow> 'w ev_loop outcome" where
  "ev_periodic_stop w l =
     (let l = clear_pending w l
      in if \<not> ev_is_active w l then Ok l
         else
           let active = w_active (watchers l w)
           in obind (g_assert (he_w (periodics l active) = w)) (\<lambda>_.
              let l = l\<lparr>periodiccnt := periodiccnt l - 1\<rparr>;
                  l = (if active < periodiccnt l + HEAP0
                       then put_periodics (adjustheap ((periodics l)(active := periodics l (periodiccnt l + HEAP0)))
                              (periodiccnt l) active (watchers l)) l
                       else l)
              in Ok (ev_stop w l)))"

definition ev_periodic_again :: "'w ev_env \<Rightarrow> addr \<Rightarrow> 'w ev_loop \<Rightarrow> 'w ev_loop outcome" where
  "ev_periodic_again env w l = obind (ev_periodic_stop w l) (ev_periodic_start env w)"

definition periodic_expired :: "'w ev_loop \<Rightarrow> bool" where
  "periodic_expired l \<longleftrightarrow> periodiccnt l \<noteq> 0 \<and> he_at (periodics l HEAP0) < ev_rt_now l"

definition reorder_periodic :: "addr \<Rightarrow> 'w ev_loop \<Rightarrow> 'w ev_loop" where
  "reorder_periodic w l =
     put_periodics (downheap ((periodics l)(HEAP0 := (periodics l HEAP0)\<lparr>he_at := w_at (watchers l w)\<rparr>))
       (periodiccnt l) HEAP0 (watchers l)) l"

definition periodics_reify_one :: "'w ev_env \<Rightarrow> 'w ev_loop \<Rightarrow> 'w ev_loop outcome" where
  "periodics_reify_one env l =
     (let w = he_w (periodics l HEAP0)
      in obind
           (case w_reschedule_cb (watchers l w) of
              Some k \<Rightarrow>
                let l = upd_watcher w (\<lambda>x. x\<lparr>w_at := reschedule env k x (ev_rt_now l)\<rparr>) l
                in obind (g_assert (w_at (watchers l w) \<ge> ev_rt_now l)) (\<lambda>_. Ok (reorder_periodic w l))
            | None \<Rightarrow>
                if w_interval (watchers l w) \<noteq> 0
                then obind (periodic_recalc w l) (\<lambda>l. Ok (reorder_periodic w l))
                else ev_periodic_stop w l)
           (\<lambda>l. Ok (feed_reverse w l)))"

primrec periodics_reify_loop :: "'w ev_env \<Rightarrow> nat \<Rightarrow> 'w ev_loop \<Rightarrow> 'w ev_loop outcome" where
  "periodics_reify_loop env 0 l = (if periodic_expired l then Fault Out_of_fuel else Ok l)"
| "periodics_reify_loop env (Suc n) l =
     (if periodic_expired l then obind (periodics_reify_one env l) (periodics_reify_loop env n) else Ok l)"

text \<open>The outer loop: after one round nothing is expired.\<close>

primrec periodics_reify_outer :: "'w ev_env \<Rightarrow> nat \<Rightarrow> 'w ev_loop \<Rightarrow> 'w ev_loop outcome" where
  "periodics_reify_outer env 0 l = (if periodic_expired l then Fault Out_of_fuel else Ok l)"
| "periodics_reify_outer env (Suc n) l =
     (if periodic_expired l
      then obind (periodics_reify_loop env (periodiccnt l) l) (\<lambda>l.
             periodics_reify_outer env n (feed_reverse_done EV_PERIODIC l))
      else Ok l)"

definition periodics_reify :: "'w ev_env \<Rightarrow> 'w ev_loop \<Rightarrow> 'w ev_loop outcome" where
  "periodics_reify env l = periodics_reify_outer env 1 l"

primrec periodics_reschedule_loop :: "'w ev_env \<Rightarrow> nat \<Rightarrow> 'w ev_loop \<Rightarrow> 'w ev_loop outcome" where
  "periodics_reschedule_loop env 0 l = Ok l"
| "periodics_reschedule_loop env (Suc i) l =
     obind (periodics_reschedule_loop env i l) (\<lambda>l.
       let k = i + HEAP0; w = he_w (periodics l k)
       in obind
            (case w_reschedule_cb (watchers l w) of
               Some f \<Rightarrow> Ok (upd_watcher w (\<lambda>x. x\<lparr>w_at := reschedule env f x (ev_rt_now l)\<rparr>) l)
             | None \<Rightarrow> if w_interval (watchers l w) \<noteq> 0 then periodic_recalc w l else Ok l)
            (\<lambda>l. Ok (l\<lparr>periodics := (periodics l)(k := anhe_of w l)\<rparr>)))"

definition periodics_reschedule :: "'w ev_env \<Rightarrow> 'w ev_loop \<Rightarrow> 'w ev_loop outcome" where
  "periodics_reschedule env l =
     obind (periodics_reschedule_loop env (periodiccnt l) l) (\<lambda>l.
       Ok (put_periodics (reheap (periodics l) (periodiccnt l) (watchers l)) l))"

section \<open>The clocks\<close>

definition read_time :: "'w ev_env \<Rightarrow> 'w ev_loop \<Rightarrow> 'w ev_loop" where
  "read_time env l = (case ev_time env (ev_world l) of (t, world) \<Rightarrow> l\<lparr>ev_rt_now := t, ev_world := world\<rparr>)"

definition read_clock :: "'w ev_env \<Rightarrow> 'w ev_loop \<Rightarrow> 'w ev_loop" where
  "read_clock env l =
     (case (if have_monotonic env then get_clock env (ev_world l) else ev_time env (ev_world l)) of
        (t, world) \<Rightarrow> l\<lparr>mn_now := t, ev_world := world\<rparr>)"

text \<open>\<open>for (i = 4; --i; )\<close>: three looks at the two clocks before a jump is believed.\<close>

primrec time_jump_loop :: "'w ev_env \<Rightarrow> ev_tstamp \<Rightarrow> nat \<Rightarrow> 'w ev_loop \<Rightarrow> 'w ev_loop outcome" where
  "time_jump_loop env odiff 0 l = periodics_reschedule env l"
| "time_jump_loop env odiff (Suc i) l =
     (let l = l\<lparr>rtmn_diff := ev_rt_now l - mn_now l\<rparr>;
          diff = odiff - rtmn_diff l
      in if (if diff < 0 then - diff else diff) < MIN_TIMEJUMP then Ok l
         else let l = read_clock env (read_time env l)
              in time_jump_loop env odiff i (l\<lparr>now_floor := mn_now l\<rparr>))"

definition time_update :: "'w ev_env \<Rightarrow> ev_tstamp \<Rightarrow> 'w ev_loop \<Rightarrow> 'w ev_loop outcome" where
  "time_update env max_block l =
     (if have_monotonic env
      then
        let odiff = rtmn_diff l; l = read_clock env l
        in if mn_now l - now_floor l < MIN_TIMEJUMP * 0.5
           then Ok (l\<lparr>ev_rt_now := rtmn_diff l + mn_now l\<rparr>)
           else time_jump_loop env odiff 3 (read_time env (l\<lparr>now_floor := mn_now l\<rparr>))
      else
        let l = read_time env l
        in obind
             (if mn_now l > ev_rt_now l \<or> ev_rt_now l > mn_now l + max_block + MIN_TIMEJUMP
              then periodics_reschedule env (timers_reschedule (ev_rt_now l - mn_now l) l)
              else Ok l)
             (\<lambda>l. Ok (l\<lparr>mn_now := ev_rt_now l\<rparr>)))"

definition ev_now_update :: "'w ev_env \<Rightarrow> 'w ev_loop \<Rightarrow> 'w ev_loop outcome" where
  "ev_now_update env l = time_update env (10 ^ 100) l"

definition ev_suspend :: "'w ev_env \<Rightarrow> 'w ev_loop \<Rightarrow> 'w ev_loop outcome" where
  "ev_suspend env l = ev_now_update env l"

definition ev_resume :: "'w ev_env \<Rightarrow> 'w ev_loop \<Rightarrow> 'w ev_loop outcome" where
  "ev_resume env l =
     (let mn_prev = mn_now l
      in obind (ev_now_update env l) (\<lambda>l.
           periodics_reschedule env (timers_reschedule (mn_now l - mn_prev) l)))"


section \<open>The floor function is the floor\<close>

lemma floor_multiple:
  assumes "(0 :: real) < c"
  shows "c * of_int \<lfloor>y / c\<rfloor> \<le> y" "y < c * of_int \<lfloor>y / c\<rfloor> + c"
  using floor_divide_lower [OF assms, of y] floor_divide_upper [OF assms, of y] by (simp_all add: algebra_simps)

lemma floor_shift_pos: "0 < floor_shift" "1 < floor_shift"
  by (simp_all add: floor_shift_def)

lemma ev_floor_nonneg:
  assumes "0 \<le> v" and "v < of_nat n"
  shows "ev_floor v = Some (of_int \<lfloor>v\<rfloor>)"
  using assms
proof (induction n arbitrary: v rule: less_induct)
  case (less n)
  show ?case
  proof (cases "v \<ge> floor_shift")
    case True
    let ?q = "v * (1 / floor_shift)"
    let ?f = "floor_shift * of_int \<lfloor>?q\<rfloor>"
    have qv: "?q < v - 1"
    proof -
      have "?q \<le> v / 2" using True by (simp add: floor_shift_def field_simps)
      moreover have "v \<ge> 4" using True by (simp add: floor_shift_def)
      ultimately show ?thesis by linarith
    qed
    have q0: "0 \<le> ?q" using less.prems(1) floor_shift_pos by simp
    have n1: "?q < of_nat (n - 1)" "n - 1 < n" using qv less.prems True floor_shift_pos by (cases n; simp)+
    have q: "ev_floor ?q = Some (of_int \<lfloor>?q\<rfloor>)" by (rule less.IH [OF n1(2) q0 n1(1)])
    have f: "?f \<le> v" "v < ?f + floor_shift"
      using floor_multiple [OF floor_shift_pos(1), of v] by simp_all
    have fi: "?f = of_int (18446744073709551616 * \<lfloor>?q\<rfloor>)" by (simp add: floor_shift_def)
    have "ev_floor (v - ?f) = Some (of_int \<lfloor>v - ?f\<rfloor>)"
      using f by (subst ev_floor.simps) auto
    moreover have "\<lfloor>v - ?f\<rfloor> = \<lfloor>v\<rfloor> - 18446744073709551616 * \<lfloor>?q\<rfloor>"
      unfolding fi by (simp only: floor_diff_of_int)
    ultimately show ?thesis using q True by (subst ev_floor.simps) (simp add: Let_def floor_shift_def)
  qed (use less.prems in \<open>subst ev_floor.simps, simp\<close>)
qed

lemma ev_floor_eq: "ev_floor v = Some (of_int \<lfloor>v\<rfloor>)"
proof (cases "0 \<le> v")
  case True
  obtain n :: nat where "v < of_nat n" using reals_Archimedean2 by blast
  then show ?thesis using ev_floor_nonneg True by blast
next
  case False
  obtain n :: nat where "- v < of_nat n" using reals_Archimedean2 by blast
  then have p: "ev_floor (- v) = Some (of_int \<lfloor>- v\<rfloor>)" using ev_floor_nonneg False by simp
  define k where "k = \<lfloor>- v\<rfloor>"
  have k: "of_int k \<le> - v" "- v < of_int k + 1" by (simp_all add: k_def)
  have "(of_int \<lfloor>v\<rfloor> :: real) = - of_int k - (if - of_int k = v then 0 else 1)"
  proof (cases "- of_int k = v")
    case True
    then have "v = of_int (- k)" by simp
    then show ?thesis by simp
  next
    case False
    then have "\<lfloor>v\<rfloor> = - k - 1" using k by (intro floor_unique) auto
    then show ?thesis using False by simp
  qed
  then show ?thesis using p [folded k_def] False floor_shift_pos by (subst ev_floor.simps) (simp add: Let_def)
qed

section \<open>The next time of a periodic\<close>

lemma recalc_loop_step:
  assumes "0 < i" and "of_nat k * i \<le> now - t + i" and "now < t + of_nat k * i"
  shows "recalc_loop now i t = Some (t + of_nat k * i)"
  using assms
proof (induction k arbitrary: t)
  case 0
  then show ?case by (subst recalc_loop.simps) simp
next
  case (Suc k)
  have "t \<le> now" using Suc.prems(1,2) by (simp add: algebra_simps) (smt (verit) mult_nonneg_nonneg of_nat_0_le_iff)
  then have "recalc_loop now i t = recalc_loop now i (t + i)"
    using Suc.prems(1) by (subst recalc_loop.simps) (simp add: Let_def)
  then show ?case using Suc.IH [of "t + i"] Suc.prems by (simp add: algebra_simps)
qed

lemma recalc_loop_next:
  assumes "0 < i"
  shows "\<exists>k::nat. recalc_loop now i t = Some (t + of_nat k * i) \<and> now < t + of_nat k * i \<and>
    (k = 0 \<or> t + of_nat k * i \<le> now + i)"
proof (cases "t \<le> now")
  case True
  define k where "k = nat (\<lfloor>(now - t) / i\<rfloor> + 1)"
  have k: "of_nat k = of_int \<lfloor>(now - t) / i\<rfloor> + (1 :: real)"
    using True assms by (simp add: k_def)
  note floor_multiple [OF assms, of "now - t"]
  then have "of_nat k * i \<le> now - t + i" "now < t + of_nat k * i" by (simp_all add: k algebra_simps)
  moreover from this have "t + of_nat k * i \<le> now + i" by simp
  ultimately show ?thesis using recalc_loop_step [OF assms] by blast
next
  case False
  then show ?thesis by (intro exI [of _ 0]) (subst recalc_loop.simps, simp)
qed

lemma recalc_at_regular:
  assumes "MIN_INTERVAL \<le> w_interval x"
  shows "recalc_at x now = Some (w_offset x + w_interval x * (of_int \<lfloor>(now - w_offset x) / w_interval x\<rfloor> + 1))"
proof -
  let ?i = "w_interval x" and ?q = "of_int \<lfloor>(now - w_offset x) / w_interval x\<rfloor> :: real"
  have i: "0 < ?i" "(if ?i > MIN_INTERVAL then ?i else MIN_INTERVAL) = ?i"
    using assms by (auto simp: MIN_INTERVAL_def)
  note floor_multiple [OF i(1), of "now - w_offset x"]
  then have "recalc_loop now ?i (w_offset x + ?i * ?q) = Some (w_offset x + ?i * ?q + of_nat 1 * ?i)"
    using i(1) by (intro recalc_loop_step) simp_all
  then show ?thesis by (simp only: recalc_at_def Let_def i(2) ev_floor_eq) (simp add: algebra_simps)
qed

lemma recalc_at_after:
  assumes "0 < w_interval x"
  shows "\<exists>t. recalc_at x now = Some t \<and> now < t"
proof -
  let ?i = "if w_interval x > MIN_INTERVAL then w_interval x else MIN_INTERVAL"
  show ?thesis
    using recalc_loop_next [OF assms, of now "w_offset x + ?i * of_int \<lfloor>(now - w_offset x) / ?i\<rfloor>"]
    by (simp only: recalc_at_def Let_def ev_floor_eq bind.bind_lunit) blast
qed

section \<open>The heap of the timers\<close>

definition timer_entries :: "'w ev_loop \<Rightarrow> anhe set" where
  "timer_entries l = heap_entries (timercnt l) (timers l)"

definition cache_ok :: "anhe set \<Rightarrow> (addr \<Rightarrow> ev_watcher) \<Rightarrow> bool" where
  "cache_ok S ws \<longleftrightarrow> (\<forall>he \<in> S. he_at he = w_at (ws (he_w he)))"

definition timers_ok :: "'w ev_loop \<Rightarrow> bool" where
  "timers_ok l \<longleftrightarrow> heap_ok (timercnt l) (timers l) (watchers l) \<and> cache_ok (timer_entries l) (watchers l)"

text \<open>What stays of the watchers when a heap changes, apart from \<open>w\<close>.\<close>

definition same_but_active :: "addr set \<Rightarrow> (addr \<Rightarrow> ev_watcher) \<Rightarrow> (addr \<Rightarrow> ev_watcher) \<Rightarrow> bool" where
  "same_but_active A ws ws' \<longleftrightarrow> (\<forall>x. x \<notin> A \<longrightarrow> (\<exists>i. ws' x = (ws x)\<lparr>w_active := i\<rparr>))"

lemma only_activeD:
  assumes "only_active A ws ws'"
  shows "w_pending (ws' x) = w_pending (ws x)" "w_priority (ws' x) = w_priority (ws x)"
    "w_cb (ws' x) = w_cb (ws x)" "w_at (ws' x) = w_at (ws x)" "w_repeat (ws' x) = w_repeat (ws x)"
    "w_interval (ws' x) = w_interval (ws x)" "w_offset (ws' x) = w_offset (ws x)"
    "w_reschedule_cb (ws' x) = w_reschedule_cb (ws x)" "abspri (ws' x) = abspri (ws x)"
    "x \<notin> A \<Longrightarrow> ws' x = ws x" "w_fd (ws' x) = w_fd (ws x)"
proof -
  obtain i where "ws' x = (ws x)\<lparr>w_active := i\<rparr>" using assms by (auto simp: only_active_def)
  then show "w_pending (ws' x) = w_pending (ws x)" "w_priority (ws' x) = w_priority (ws x)"
    "w_cb (ws' x) = w_cb (ws x)" "w_at (ws' x) = w_at (ws x)" "w_repeat (ws' x) = w_repeat (ws x)"
    "w_interval (ws' x) = w_interval (ws x)" "w_offset (ws' x) = w_offset (ws x)"
    "w_reschedule_cb (ws' x) = w_reschedule_cb (ws x)" "abspri (ws' x) = abspri (ws x)"
    "w_fd (ws' x) = w_fd (ws x)"
    by (simp_all add: abspri_def)
  show "x \<notin> A \<Longrightarrow> ws' x = ws x" using assms by (simp add: only_active_def)
qed

lemma heap_of_cache:
  assumes "heap_of n S v0 ws0 (v, ws)" and "cache_ok S ws0"
  shows "heap_ok n v ws" "heap_entries n v = S" "cache_ok S ws" "only_active (he_w ` S) ws0 ws"
proof -
  show act: "heap_ok n v ws" "heap_entries n v = S" "only_active (he_w ` S) ws0 ws"
    using assms(1) by (auto simp: heap_of_def)
  show "cache_ok S ws" using assms(2) only_activeD(4) [OF act(3)] by (simp add: cache_ok_def)
qed

lemma put_timers_ok:
  assumes "heap_of (timercnt l) S v0 (watchers l) r" and "cache_ok S (watchers l)"
  shows "timers_ok (put_timers r l)" "timer_entries (put_timers r l) = S"
    "only_active (he_w ` S) (watchers l) (watchers (put_timers r l))"
proof -
  obtain v ws where r: "r = (v, ws)" by fastforce
  show "timers_ok (put_timers r l)" "timer_entries (put_timers r l) = S"
    "only_active (he_w ` S) (watchers l) (watchers (put_timers r l))"
    using heap_of_cache [OF assms(1) [unfolded r] assms(2)]
    by (simp_all add: r put_timers_def timers_ok_def timer_entries_def)
qed

lemma put_timers_fields [simp]:
  "timercnt (put_timers r l) = timercnt l" "mn_now (put_timers r l) = mn_now l"
  "ev_rt_now (put_timers r l) = ev_rt_now l" "pendings (put_timers r l) = pendings l"
  "rfeeds (put_timers r l) = rfeeds l" "activecnt (put_timers r l) = activecnt l"
  "periodics (put_timers r l) = periodics l" "periodiccnt (put_timers r l) = periodiccnt l"
  by (simp_all add: put_timers_def split: prod.splits)

lemma timers_okD:
  assumes "timers_ok l" and "he \<in> timer_entries l"
  shows "he_at he = w_at (watchers l (he_w he))" "w_active (watchers l (he_w he)) \<in> heap_range HEAP0 (timercnt l)"
    "timers l (w_active (watchers l (he_w he))) = he" "ev_is_active (he_w he) l" "0 < timercnt l"
proof -
  obtain j where j: "j \<in> heap_range HEAP0 (timercnt l)" "he = timers l j"
    using assms(2) by (auto simp: timer_entries_def heap_entries_def)
  have "w_active (watchers l (he_w he)) = j"
    using assms(1) j by (auto simp: timers_ok_def heap_ok_def indexed_but_def)
  then show "w_active (watchers l (he_w he)) \<in> heap_range HEAP0 (timercnt l)"
    "timers l (w_active (watchers l (he_w he))) = he" "ev_is_active (he_w he) l" "0 < timercnt l"
    using j by (auto simp: ev_is_active_def heap_range_def)
  show "he_at he = w_at (watchers l (he_w he))" using assms by (auto simp: timers_ok_def cache_ok_def)
qed

lemma timer_entries_inj:
  assumes "timers_ok l" and "he \<in> timer_entries l" and "he' \<in> timer_entries l" and "he_w he = he_w he'"
  shows "he = he'"
  using timers_okD(3) [OF assms(1,2), unfolded assms(4)] timers_okD(3) [OF assms(1,3)] by (rule trans [OF sym])

lemma ev_start_at: "w_at (watchers (ev_start w k l) x) = w_at (watchers l x)"
  "w_active (watchers (ev_start w k l) x) = (if x = w then k else w_active (watchers l x))"
  "timers (ev_start w k l) = timers l" "timercnt (ev_start w k l) = timercnt l" "mn_now (ev_start w k l) = mn_now l"
  "pendings (ev_start w k l) = pendings l" "activecnt (ev_start w k l) = activecnt l + 1"
  "w_pending (watchers (ev_start w k l) x) = w_pending (watchers l x)"
  by (simp_all add: ev_start_def ev_ref_def pri_adjust_def Let_def)

lemma heap_ok_frame:
  assumes "heap_ok n v ws" and "\<And>he. he \<in> heap_entries n v \<Longrightarrow> w_active (ws' (he_w he)) = w_active (ws (he_w he))"
  shows "heap_ok n v ws'"
  using assms by (auto simp: heap_ok_def indexed_but_def heap_entries_def)

lemma cache_ok_frame:
  assumes "cache_ok S ws" and "\<And>he. he \<in> S \<Longrightarrow> w_at (ws' (he_w he)) = w_at (ws (he_w he))"
  shows "cache_ok S ws'"
  using assms by (auto simp: cache_ok_def)

lemma ev_timer_start_ok:
  assumes ok: "timers_ok l" and idle: "\<not> ev_is_active w l" and rep: "0 \<le> w_repeat (watchers l w)"
  defines "t \<equiv> w_at (watchers l w) + mn_now l"
  shows "\<exists>l'. ev_timer_start w l = Ok l' \<and> timers_ok l' \<and> ev_is_active w l' \<and>
    timer_entries l' = insert \<lparr>he_at = t, he_w = w\<rparr> (timer_entries l) \<and> mn_now l' = mn_now l \<and>
    timercnt l' = timercnt l + 1 \<and> activecnt l' = activecnt l + 1 \<and> pendings l' = pendings l \<and>
    w_at (watchers l' w) = t \<and> w_priority (watchers l' w) = w_priority (watchers (pri_adjust w l) w) \<and>
    (\<forall>x. x \<noteq> w \<longrightarrow> w_priority (watchers l' x) = w_priority (watchers l x) \<and>
         (x \<notin> he_w ` timer_entries l \<longrightarrow> watchers l' x = watchers l x)) \<and>
    (\<forall>x. w_pending (watchers l' x) = w_pending (watchers l x) \<and> w_cb (watchers l' x) = w_cb (watchers l x))"
proof -
  let ?he = "\<lparr>he_at = t, he_w = w\<rparr>" and ?k = "timercnt l + HEAP0"
  define l1 where "l1 = ev_start w (Suc (Suc (Suc (timercnt l))))
      (upd_watcher w (\<lambda>x. x\<lparr>w_at := w_at x + mn_now l\<rparr>) l\<lparr>timercnt := Suc (timercnt l)\<rparr>)"
  have l1: "timers l1 = timers l" "timercnt l1 = Suc (timercnt l)" "mn_now l1 = mn_now l" "pendings l1 = pendings l"
    "activecnt l1 = activecnt l + 1" "w_active (watchers l1 w) = ?k" "w_at (watchers l1 w) = t"
    "\<And>x. x \<noteq> w \<Longrightarrow> w_active (watchers l1 x) = w_active (watchers l x) \<and> w_at (watchers l1 x) = w_at (watchers l x)"
    by (simp_all add: l1_def ev_start_at t_def)
  have notin: "w \<notin> he_w ` timer_entries l" using timers_okD(4) [OF ok] idle by blast
  then have other: "he_w he \<noteq> w" if "he \<in> timer_entries l" for he using that by blast
  have "heap_ok (timercnt l) (timers l) (watchers l1)"
    using heap_ok_frame [of "timercnt l" "timers l" "watchers l" "watchers l1"] ok l1(8) other
    by (simp add: timers_ok_def timer_entries_def)
  from heap_insert [OF this, of ?he] notin
  have h: "heap_of (timercnt l1) (insert ?he (timer_entries l)) (timers l1) (watchers l1)
      (upheap ((timers l1)(?k := ?he)) ?k (watchers l1))"
    by (simp add: timer_entries_def l1)
  have "cache_ok (timer_entries l) (watchers l1)"
    using cache_ok_frame [of "timer_entries l" "watchers l" "watchers l1"] ok l1(8) other by (simp add: timers_ok_def)
  then have c: "cache_ok (insert ?he (timer_entries l)) (watchers l1)" by (simp add: cache_ok_def l1(7))
  have code: "ev_timer_start w l = Ok (put_timers (upheap ((timers l1)(?k := ?he)) ?k (watchers l1)) l1)"
    using idle rep by (simp add: ev_timer_start_def anhe_of_def Let_def l1_def [symmetric] l1)
  note p = put_timers_ok [OF h c]
  let ?l = "put_timers (upheap ((timers l1)(?k := ?he)) ?k (watchers l1)) l1"
  have "?he \<in> timer_entries ?l" using p(2) by simp
  then have "ev_is_active w ?l" using timers_okD(4) [OF p(1)] by fastforce
  moreover have "w_at (watchers ?l w) = t" using only_activeD(4) [OF p(3)] l1(7) by simp
  moreover have "w_priority (watchers ?l w) = w_priority (watchers (pri_adjust w l) w)"
    using only_activeD(2) [OF p(3), of w] by (simp add: l1_def ev_start_def ev_ref_def pri_adjust_def Let_def)
  moreover have "w_priority (watchers ?l x) = w_priority (watchers l x) \<and>
      (x \<notin> he_w ` timer_entries l \<longrightarrow> watchers ?l x = watchers l x)" if "x \<noteq> w" for x
    using only_activeD(2,10) [OF p(3), of x] that
    by (simp add: l1_def ev_start_def ev_ref_def pri_adjust_def Let_def)
  moreover have "w_pending (watchers ?l x) = w_pending (watchers l x) \<and> w_cb (watchers ?l x) = w_cb (watchers l x)" for x
    using only_activeD(1,3) [OF p(3), of x] by (simp add: l1_def ev_start_def ev_ref_def pri_adjust_def Let_def)
  ultimately show ?thesis using code p l1 by simp
qed

text \<open>Clearing a pending event leaves the heaps alone.\<close>

lemma clear_pending_timers:
  "timers (clear_pending w l) = timers l" "timercnt (clear_pending w l) = timercnt l"
  "periodics (clear_pending w l) = periodics l" "periodiccnt (clear_pending w l) = periodiccnt l"
  "mn_now (clear_pending w l) = mn_now l" "ev_rt_now (clear_pending w l) = ev_rt_now l"
  "rfeeds (clear_pending w l) = rfeeds l" "activecnt (clear_pending w l) = activecnt l"
  "w_at (watchers (clear_pending w l) x) = w_at (watchers l x)"
  "w_active (watchers (clear_pending w l) x) = w_active (watchers l x)"
  "w_repeat (watchers (clear_pending w l) x) = w_repeat (watchers l x)"
  "w_priority (watchers (clear_pending w l) x) = w_priority (watchers l x)"
  "x \<noteq> w \<Longrightarrow> w_pending (watchers (clear_pending w l) x) = w_pending (watchers l x)"
  by (simp_all add: clear_pending_def Let_def)

lemma clear_pending_idle: "w_pending (watchers l w) = 0 \<Longrightarrow> clear_pending w l = l"
  by (simp add: clear_pending_def Let_def)

lemma timers_ok_frame:
  assumes "timers_ok l" "timers l' = timers l" "timercnt l' = timercnt l"
    and "\<And>x. x \<in> he_w ` timer_entries l \<Longrightarrow>
      w_active (watchers l' x) = w_active (watchers l x) \<and> w_at (watchers l' x) = w_at (watchers l x)"
  shows "timers_ok l'" "timer_entries l' = timer_entries l"
proof -
  show e: "timer_entries l' = timer_entries l" by (simp add: timer_entries_def assms(2,3))
  have ok: "heap_ok (timercnt l) (timers l) (watchers l)" "cache_ok (timer_entries l) (watchers l)"
    using assms(1) by (simp_all add: timers_ok_def)
  have keep: "w_active (watchers l' (he_w he)) = w_active (watchers l (he_w he))"
    "w_at (watchers l' (he_w he)) = w_at (watchers l (he_w he))" if "he \<in> timer_entries l" for he
    using assms(4) [OF imageI [OF that]] by simp_all
  have "heap_ok (timercnt l) (timers l) (watchers l')"
    using keep(1) by (intro heap_ok_frame [OF ok(1)]) (simp add: timer_entries_def)
  moreover have "cache_ok (timer_entries l) (watchers l')"
    using keep(2) by (rule cache_ok_frame [OF ok(2)])
  ultimately show "timers_ok l'" by (simp add: timers_ok_def e assms(2,3))
qed

lemma ev_timer_stop_ok:
  assumes ok: "timers_ok l" and he: "he \<in> timer_entries l"
  defines "w \<equiv> he_w he"
  shows "\<exists>l'. ev_timer_stop w l = Ok l' \<and> timers_ok l' \<and> timer_entries l' = timer_entries l - {he} \<and>
    \<not> ev_is_active w l' \<and> w_at (watchers l' w) = he_at he - mn_now l \<and> timercnt l = Suc (timercnt l') \<and>
    pendings l' = pendings (clear_pending w l) \<and> rfeeds l' = rfeeds l \<and> mn_now l' = mn_now l \<and>
    activecnt l' = activecnt l - 1 \<and>
    (\<forall>x. w_pending (watchers l' x) = w_pending (watchers (clear_pending w l) x) \<and>
         w_priority (watchers l' x) = w_priority (watchers l x) \<and> w_repeat (watchers l' x) = w_repeat (watchers l x) \<and>
         (x \<noteq> w \<longrightarrow> w_at (watchers l' x) = w_at (watchers l x)) \<and>
         (x \<notin> he_w ` timer_entries l \<longrightarrow> watchers l' x = watchers l x))"
proof -
  define l0 where "l0 = clear_pending w l"
  note k0 = clear_pending_timers [where w = w and l = l, folded l0_def]
  have ok0: "timers_ok l0" and e0: "timer_entries l0 = timer_entries l"
    using timers_ok_frame [OF ok, of l0] by (simp_all add: k0)
  have he0: "he \<in> timer_entries l0" using he e0 by simp
  note d = timers_okD [OF ok0 he0, folded w_def]
  obtain n where n: "timercnt l0 = Suc n" using d(5) by (cases "timercnt l0") auto
  define a where "a = w_active (watchers l0 w)"
  have a: "a \<in> heap_range HEAP0 (Suc n)" "timers l0 a = he" using d n by (simp_all add: a_def)
  let ?v = "if a < n + HEAP0 then (timers l0)(a := timers l0 (n + HEAP0)) else timers l0"
  let ?r = "if a < n + HEAP0 then adjustheap ((timers l0)(a := timers l0 (n + HEAP0))) n a (watchers l0)
      else (timers l0, watchers l0)"
  let ?S = "timer_entries l0 - {he}"
  have hok: "heap_ok (Suc n) (timers l0) (watchers l0)" and cok: "cache_ok (timer_entries l0) (watchers l0)"
    using ok0 n by (simp_all add: timers_ok_def)
  have h: "heap_of n ?S ?v (watchers l0) ?r"
    using heap_remove [OF hok a(1)] by (simp add: a(2) timer_entries_def n)
  have c: "cache_ok ?S (watchers l0)" using cok by (auto simp: cache_ok_def)
  let ?l1 = "l0\<lparr>timercnt := n\<rparr>"
  define l2 where "l2 = put_timers ?r ?l1"
  have p: "timers_ok l2" "timer_entries l2 = ?S" "only_active (he_w ` ?S) (watchers l0) (watchers l2)"
    unfolding l2_def using put_timers_ok [of ?l1 ?S ?v ?r] h c by simp_all
  have f2: "timercnt l2 = n" "mn_now l2 = mn_now l" "pendings l2 = pendings l0" "rfeeds l2 = rfeeds l"
    "activecnt l2 = activecnt l"
    unfolding l2_def by (simp_all add: k0)
  define l3 where "l3 = ev_stop w (upd_watcher w (\<lambda>x. x\<lparr>w_at := w_at x - mn_now l2\<rparr>) l2)"
  have w: "w \<notin> he_w ` ?S" using timer_entries_inj [OF ok0 _ he0] by (auto simp: w_def)
  have l3: "timers l3 = timers l2" "timercnt l3 = n" "mn_now l3 = mn_now l" "pendings l3 = pendings l0"
    "rfeeds l3 = rfeeds l" "activecnt l3 = activecnt l - 1"
    "\<And>x. watchers l3 x = (if x = w then (watchers l2 w)\<lparr>w_at := w_at (watchers l2 w) - mn_now l, w_active := 0\<rparr>
       else watchers l2 x)"
    by (simp_all add: l3_def ev_stop_def ev_unref_def f2)
  have "w_active (watchers l3 x) = w_active (watchers l2 x) \<and> w_at (watchers l3 x) = w_at (watchers l2 x)"
    if "x \<in> he_w ` timer_entries l2" for x
    using that w by (auto simp: p(2) l3(7))
  note ok3 = timers_ok_frame [OF p(1) l3(1) _ this, unfolded p(2) f2(1), OF l3(2)]
  have code: "ev_timer_stop w l = Ok l3"
  proof -
    have "ev_is_active w l0" "he_w (timers l0 a) = w" using d(4) a(2) by (simp_all add: w_def)
    moreover have "put_timers (timers l0, watchers l0) ?l1 = ?l1" by (simp add: put_timers_def)
    ultimately show ?thesis
      by (simp add: ev_timer_stop_def Let_def l0_def [symmetric] a_def [symmetric] n l3_def l2_def)
  qed
  have "w_at (watchers l3 w) = he_at he - mn_now l"
    using d(1) only_activeD(4) [OF p(3)] by (simp add: l3)
  moreover have "w_pending (watchers l3 x) = w_pending (watchers l0 x) \<and>
      w_priority (watchers l3 x) = w_priority (watchers l x) \<and> w_repeat (watchers l3 x) = w_repeat (watchers l x) \<and>
      (x \<noteq> w \<longrightarrow> w_at (watchers l3 x) = w_at (watchers l x)) \<and>
      (x \<notin> he_w ` timer_entries l \<longrightarrow> watchers l3 x = watchers l x)" for x
  proof -
    have "watchers l3 x = watchers l x" if "x \<notin> he_w ` timer_entries l"
    proof -
      have "x \<noteq> w" using that he by (auto simp: w_def)
      moreover have "x \<notin> he_w ` ?S" using that e0 by auto
      ultimately show ?thesis using only_activeD(10) [OF p(3), of x] by (simp add: l3 l0_def clear_pending_def Let_def)
    qed
    then show ?thesis using only_activeD(1,2,4,5) [OF p(3)] by (simp add: l3 k0)
  qed
  moreover have "\<not> ev_is_active w l3" by (simp add: ev_is_active_def l3)
  ultimately show ?thesis using code ok3 l3(2-6) n e0 k0(2)
    by (intro exI [of _ l3]) (simp add: l0_def [symmetric])
qed

section \<open>Making timers pending\<close>

definition expired_timers :: "'w ev_loop \<Rightarrow> addr set" where
  "expired_timers l = {he_w he | he. he \<in> timer_entries l \<and> he_at he < mn_now l}"

lemma timer_root:
  assumes "timers_ok l" and "timercnt l \<noteq> 0"
  shows "timers l HEAP0 \<in> timer_entries l" "he \<in> timer_entries l \<Longrightarrow> he_at (timers l HEAP0) \<le> he_at he"
proof -
  show "timers l HEAP0 \<in> timer_entries l" using assms(2) by (simp add: timer_entries_def heap_entries_def heap_range_def)
  show "he_at (timers l HEAP0) \<le> he_at he" if "he \<in> timer_entries l"
    using that assms(1) heap_root_least by (auto simp: timer_entries_def heap_entries_def timers_ok_def heap_ok_def)
qed

lemma expired_iff: "timers_ok l \<Longrightarrow> timer_expired l \<longleftrightarrow> expired_timers l \<noteq> {}"
proof
  assume ok: "timers_ok l" and "timer_expired l"
  then show "expired_timers l \<noteq> {}" using timer_root(1) [OF ok] by (auto simp: timer_expired_def expired_timers_def)
next
  assume ok: "timers_ok l" and "expired_timers l \<noteq> {}"
  then obtain he where he: "he \<in> timer_entries l" "he_at he < mn_now l" by (auto simp: expired_timers_def)
  then have "timercnt l \<noteq> 0" using timers_okD(5) [OF ok] by blast
  then show "timer_expired l" using timer_root(2) [OF ok _ he(1)] he(2) by (simp add: timer_expired_def)
qed

end
