(* ===== verification/Ev_Expire.thy ===== *)
theory Ev_Expire
  imports Ev_Timer
begin

unbundle bit_operations_syntax

text \<open>
  What \<open>timers_reify\<close> of \<^verbatim>\<open>src/deps/ev/ev.c\<close> does to the heap of timers and to the pending
  events.
\<close>

section \<open>Expired timers\<close>

text \<open>One round: the earliest timer leaves the expired ones.\<close>

lemma timers_reify_one_ok:
  assumes ok: "timers_ok l" and ex: "timer_expired l"
  defines "he \<equiv> timers l HEAP0" and "w \<equiv> he_w (timers l HEAP0)"
  assumes pend: "w_pending (watchers l w) = 0" and rep: "0 \<le> w_repeat (watchers l w)"
  shows "\<exists>l'. timers_reify_one l = Ok l' \<and> timers_ok l' \<and> rfeeds l' = rfeeds l @ [w] \<and>
    pendings l' = pendings l \<and> mn_now l' = mn_now l \<and>
    timer_entries l' = timer_entries l - {he} \<union>
      (if w_repeat (watchers l w) = 0 then {}
       else {\<lparr>he_at = max (he_at he + w_repeat (watchers l w)) (mn_now l), he_w = w\<rparr>}) \<and>
    (\<forall>x. w_pending (watchers l' x) = w_pending (watchers l x) \<and>
         w_priority (watchers l' x) = w_priority (watchers l x) \<and> w_repeat (watchers l' x) = w_repeat (watchers l x) \<and>
         (x \<noteq> w \<longrightarrow> w_at (watchers l' x) = w_at (watchers l x)))"
proof -
  have root: "he \<in> timer_entries l" "he_at he < mn_now l" "timercnt l \<noteq> 0"
    using timer_root(1) [OF ok] ex by (auto simp: timer_expired_def he_def)
  have hw: "he_w he = w" by (simp add: he_def w_def)
  show ?thesis
  proof (cases "w_repeat (watchers l w) = 0")
    case True
    note stop = ev_timer_stop_ok [OF ok root(1), unfolded hw]
    obtain l1 where l1: "ev_timer_stop w l = Ok l1" "timers_ok l1" "timer_entries l1 = timer_entries l - {he}"
      "pendings l1 = pendings l" "rfeeds l1 = rfeeds l" "mn_now l1 = mn_now l"
      "\<And>x. w_pending (watchers l1 x) = w_pending (watchers l x) \<and>
         w_priority (watchers l1 x) = w_priority (watchers l x) \<and> w_repeat (watchers l1 x) = w_repeat (watchers l x) \<and>
         (x \<noteq> w \<longrightarrow> w_at (watchers l1 x) = w_at (watchers l x))"
      using stop clear_pending_idle [OF pend] by auto
    let ?l = "feed_reverse w l1"
    have f: "timers_ok ?l" "timer_entries ?l = timer_entries l1"
      using timers_ok_frame [OF l1(2), of ?l] by (simp_all add: feed_reverse_def)
    have "timers_reify_one l = Ok ?l" using True l1(1) by (simp add: timers_reify_one_def w_def)
    then show ?thesis using l1 f True by (intro exI [of _ ?l]) (simp add: feed_reverse_def)
  next
    case False
    let ?rep = "w_repeat (watchers l w)"
    define t where "t = max (he_at he + ?rep) (mn_now l)"
    define l1 where "l1 = upd_watcher w (\<lambda>x. x\<lparr>w_at := t\<rparr>) l"
    let ?he = "\<lparr>he_at = t, he_w = w\<rparr>" and ?S = "insert \<lparr>he_at = t, he_w = w\<rparr> (timer_entries l - {he})"
    have at: "he_at he = w_at (watchers l w)" using timers_okD(1) [OF ok root(1)] hw by simp
    have hok: "heap_ok (timercnt l) (timers l) (watchers l1)"
      using ok by (auto simp: timers_ok_def l1_def intro: heap_ok_frame)
    have h: "heap_of (timercnt l1) ?S ((timers l1)(HEAP0 := ?he)) (watchers l1)
        (downheap ((timers l1)(HEAP0 := ?he)) (timercnt l1) HEAP0 (watchers l1))"
      using heap_reorder_root [OF hok, of ?he] root(3) by (simp add: timer_entries_def l1_def he_def w_def)
    have "he_w x \<noteq> w" if "x \<in> timer_entries l - {he}" for x
      using timer_entries_inj [OF ok _ root(1), of x] that hw by auto
    then have c: "cache_ok ?S (watchers l1)" using ok by (auto simp: cache_ok_def timers_ok_def l1_def)
    note p = put_timers_ok [OF h c]
    let ?l2 = "put_timers (downheap ((timers l1)(HEAP0 := ?he)) (timercnt l1) HEAP0 (watchers l1)) l1"
    let ?l = "feed_reverse w ?l2"
    have f: "timers_ok ?l" "timer_entries ?l = ?S"
      using timers_ok_frame [OF p(1), of ?l] p(2) by (simp_all add: feed_reverse_def)
    have t: "(if w_at (watchers l w) + ?rep < mn_now l then mn_now l else w_at (watchers l w) + ?rep) = t"
      by (simp add: t_def at max_def)
    have he': "(timers l1 HEAP0)\<lparr>he_at := t\<rparr> = ?he" by (simp add: l1_def w_def)
    have code: "timers_reify_one l = Ok ?l"
      unfolding timers_reify_one_def Let_def w_def [symmetric] t l1_def [symmetric] he'
      using False rep by simp
    have "w_pending (watchers ?l x) = w_pending (watchers l x) \<and>
         w_priority (watchers ?l x) = w_priority (watchers l x) \<and> w_repeat (watchers ?l x) = w_repeat (watchers l x) \<and>
         (x \<noteq> w \<longrightarrow> w_at (watchers ?l x) = w_at (watchers l x))" for x
      using only_activeD(1,2,4,5) [OF p(3)] by (simp add: feed_reverse_def) (simp add: l1_def)
    moreover have "rfeeds ?l = rfeeds l @ [w]" "pendings ?l = pendings l" "mn_now ?l = mn_now l"
      by (simp_all add: feed_reverse_def l1_def)
    ultimately show ?thesis using code f False by (intro exI [of _ ?l]) (simp add: t_def)
  qed
qed

lemma expired_after_one:
  assumes ok: "timers_ok l" and ex: "timer_expired l"
    and e: "timer_entries l' = timer_entries l - {timers l HEAP0} \<union> T"
    and T: "\<And>he. he \<in> T \<Longrightarrow> mn_now l \<le> he_at he" and now: "mn_now l' = mn_now l"
  shows "expired_timers l' = expired_timers l - {he_w (timers l HEAP0)}" "he_w (timers l HEAP0) \<in> expired_timers l"
proof -
  have root: "timers l HEAP0 \<in> timer_entries l" "he_at (timers l HEAP0) < mn_now l"
    using timer_root(1) [OF ok] ex by (auto simp: timer_expired_def)
  show "he_w (timers l HEAP0) \<in> expired_timers l" using root by (auto simp: expired_timers_def)
  have "he_w he = he_w (timers l HEAP0) \<Longrightarrow> he = timers l HEAP0" if "he \<in> timer_entries l" for he
    using timer_entries_inj [OF ok that root(1)] by blast
  then show "expired_timers l' = expired_timers l - {he_w (timers l HEAP0)}"
    using T by (fastforce simp: expired_timers_def e now)
qed

lemma finite_expired: "finite (expired_timers l)" "card (expired_timers l) \<le> timercnt l"
proof -
  have sub: "expired_timers l \<subseteq> (\<lambda>j. he_w (timers l j)) ` heap_range HEAP0 (timercnt l)"
    by (auto simp: expired_timers_def timer_entries_def heap_entries_def)
  have fin: "finite (heap_range HEAP0 (timercnt l))" "card (heap_range HEAP0 (timercnt l)) = timercnt l"
    by (simp_all add: heap_range_def)
  show "finite (expired_timers l)" using finite_subset [OF sub] fin(1) by blast
  show "card (expired_timers l) \<le> timercnt l"
    using card_mono [OF _ sub] card_image_le [OF fin(1), of "\<lambda>j. he_w (timers l j)"] fin by simp
qed

text \<open>
  What the loop achieves: \<open>ws\<close> are the expired timers, earliest first; the other timers and
  the queues are as before.
\<close>

definition expire_result :: "'w ev_loop \<Rightarrow> addr list \<Rightarrow> 'w ev_loop \<Rightarrow> bool" where
  "expire_result l ws l' \<longleftrightarrow> timers_ok l' \<and> expired_timers l' = {} \<and> rfeeds l' = rfeeds l @ ws \<and>
    set ws = expired_timers l \<and> distinct ws \<and> sorted (map (\<lambda>w. w_at (watchers l w)) ws) \<and>
    pendings l' = pendings l \<and> mn_now l' = mn_now l \<and>
    he_w ` timer_entries l' = he_w ` timer_entries l - {w \<in> expired_timers l. w_repeat (watchers l w) = 0} \<and>
    (\<forall>x. w_pending (watchers l' x) = w_pending (watchers l x)) \<and>
    (\<forall>x. w_priority (watchers l' x) = w_priority (watchers l x))"

lemma expire_nothing:
  "timers_ok l \<Longrightarrow> expired_timers l = {} \<Longrightarrow> expire_result l [] l"
  by (simp add: expire_result_def)

lemma expire_step:
  assumes ok: "timers_ok l" and ex: "timer_expired l"
  defines "w \<equiv> he_w (timers l HEAP0)"
  assumes l1: "rfeeds l1 = rfeeds l @ [w]" "pendings l1 = pendings l" "mn_now l1 = mn_now l"
    and names: "he_w ` timer_entries l1 =
      he_w ` timer_entries l - (if w_repeat (watchers l w) = 0 then {w} else {})"
    and E: "expired_timers l1 = expired_timers l - {w}" "w \<in> expired_timers l"
    and keep: "\<And>x. w_pending (watchers l1 x) = w_pending (watchers l x)"
      "\<And>x. w_priority (watchers l1 x) = w_priority (watchers l x)"
      "\<And>x. w_repeat (watchers l1 x) = w_repeat (watchers l x)"
      "\<And>x. x \<noteq> w \<Longrightarrow> w_at (watchers l1 x) = w_at (watchers l x)"
    and r: "expire_result l1 ws l'"
  shows "expire_result l (w # ws) l'"
proof -
  have ws: "set ws = expired_timers l1" "distinct ws" "sorted (map (\<lambda>w. w_at (watchers l1 w)) ws)"
    using r by (simp_all add: expire_result_def)
  have wws: "w \<notin> set ws" using ws(1) E(1) by simp
  have root: "timers l HEAP0 \<in> timer_entries l" "\<And>x. x \<in> timer_entries l \<Longrightarrow> he_at (timers l HEAP0) \<le> he_at x"
    using timer_root [OF ok] ex by (auto simp: timer_expired_def)
  have first: "w_at (watchers l w) \<le> w_at (watchers l x)" if "x \<in> set ws" for x
  proof -
    have "x \<in> expired_timers l" using that ws(1) E(1) by simp
    then obtain hx where hx: "hx \<in> timer_entries l" "he_w hx = x" by (auto simp: expired_timers_def)
    then show ?thesis
      using root(2) [OF hx(1)] timers_okD(1) [OF ok hx(1)] timers_okD(1) [OF ok root(1)] by (simp add: w_def)
  qed
  have "map (\<lambda>w. w_at (watchers l1 w)) ws = map (\<lambda>w. w_at (watchers l w)) ws"
  proof (rule map_cong [OF refl])
    show "w_at (watchers l1 x) = w_at (watchers l x)" if "x \<in> set ws" for x
      using keep(4) [of x] wws that by metis
  qed
  then have "sorted (map (\<lambda>w. w_at (watchers l w)) ws)" using ws(3) by (simp only:)
  then have sorted: "sorted (map (\<lambda>w. w_at (watchers l w)) (w # ws))" using first by simp
  have names': "he_w ` timer_entries l' = he_w ` timer_entries l1 - {x \<in> expired_timers l1. w_repeat (watchers l x) = 0}"
    using r keep(3) by (simp add: expire_result_def)
  have names2: "he_w ` timer_entries l' = he_w ` timer_entries l - {x \<in> expired_timers l. w_repeat (watchers l x) = 0}"
    unfolding names' names E(1) using E(2) by auto
  have sets: "set (w # ws) = expired_timers l" "distinct (w # ws)" using ws E wws by auto
  show ?thesis
    using r l1 keep(1,2) sorted sets names2 unfolding expire_result_def by simp
qed

lemma timers_reify_loop_ok:
  assumes "timers_ok l" and "card (expired_timers l) \<le> n"
    and "\<And>w. w \<in> expired_timers l \<Longrightarrow> w_pending (watchers l w) = 0 \<and> 0 \<le> w_repeat (watchers l w)"
  shows "\<exists>l' ws. timers_reify_loop n l = Ok l' \<and> expire_result l ws l'"
  using assms
proof (induction n arbitrary: l)
  case 0
  then have none: "expired_timers l = {}" using finite_expired(1) by (metis card_0_eq le_zero_eq)
  then have "timers_reify_loop 0 l = Ok l" using expired_iff [OF 0(1)] by simp
  then show ?case using expire_nothing [OF 0(1) none] by blast
next
  case (Suc n)
  show ?case
  proof (cases "timer_expired l")
    case False
    then have none: "expired_timers l = {}" using expired_iff [OF Suc.prems(1)] by simp
    have "timers_reify_loop (Suc n) l = Ok l" using False by simp
    then show ?thesis using expire_nothing [OF Suc.prems(1) none] by blast
  next
    case True
    define w where "w = he_w (timers l HEAP0)"
    define T where "T = (if w_repeat (watchers l w) = 0 then {}
       else {\<lparr>he_at = max (he_at (timers l HEAP0) + w_repeat (watchers l w)) (mn_now l), he_w = w\<rparr>})"
    have root: "timers l HEAP0 \<in> timer_entries l" "he_at (timers l HEAP0) < mn_now l"
      using timer_root(1) [OF Suc.prems(1)] True by (auto simp: timer_expired_def)
    then have wE: "w \<in> expired_timers l" by (auto simp: w_def expired_timers_def)
    note fresh = Suc.prems(3) [OF wE]
    obtain l1 where l1: "timers_reify_one l = Ok l1" "timers_ok l1" "rfeeds l1 = rfeeds l @ [w]"
      "pendings l1 = pendings l" "mn_now l1 = mn_now l" "timer_entries l1 = timer_entries l - {timers l HEAP0} \<union> T"
      "\<forall>x. w_pending (watchers l1 x) = w_pending (watchers l x) \<and>
         w_priority (watchers l1 x) = w_priority (watchers l x) \<and> w_repeat (watchers l1 x) = w_repeat (watchers l x) \<and>
         (x \<noteq> w \<longrightarrow> w_at (watchers l1 x) = w_at (watchers l x))"
      using timers_reify_one_ok [OF Suc.prems(1) True, folded w_def T_def] fresh
      unfolding T_def by (elim conjE) (rule exE, assumption, blast)
    have T: "mn_now l \<le> he_at x" if "x \<in> T" for x using that by (auto simp: T_def split: if_splits)
    have E1: "expired_timers l1 = expired_timers l - {w}"
      unfolding w_def by (rule expired_after_one(1) [OF Suc.prems(1) True l1(6) _ l1(5)]) (rule T)
    have "card (expired_timers l1) \<le> n"
      using Suc.prems(2) E1 wE finite_expired(1) [of l] by (simp add: card_Diff_singleton)
    moreover have "w_pending (watchers l1 x) = 0 \<and> 0 \<le> w_repeat (watchers l1 x)" if "x \<in> expired_timers l1" for x
      using that E1 Suc.prems(3) [of x] l1(7) by simp
    ultimately obtain l' ws where l': "timers_reify_loop n l1 = Ok l'" "expire_result l1 ws l'"
      using Suc.IH [OF l1(2)] by blast
    have names: "he_w ` timer_entries l1 = he_w ` timer_entries l - (if w_repeat (watchers l w) = 0 then {w} else {})"
    proof -
      have "he_w ` (timer_entries l - {timers l HEAP0}) = he_w ` timer_entries l - {w}"
        using timer_entries_inj [OF Suc.prems(1) _ root(1)] by (auto simp: w_def)
      moreover have "w \<in> he_w ` timer_entries l" using root(1) by (auto simp: w_def)
      ultimately show ?thesis by (auto simp: l1(6) T_def image_Un)
    qed
    have "expire_result l (w # ws) l'"
      by (rule expire_step [OF Suc.prems(1) True, folded w_def, OF l1(3-5) names E1 wE _ _ _ _ l'(2)])
        (use l1(7) in simp_all)
    then show ?thesis using True l1(1) l'(1) by auto
  qed
qed

lemma feed_all_new:
  assumes "distinct ws" and "\<And>w. w \<in> set ws \<Longrightarrow> w_pending (watchers l w) = 0"
  shows "pendings (feed_all ws ev l) pri =
      pendings l pri @ map (\<lambda>w. (w, ev)) (filter (\<lambda>w. abspri (watchers l w) = pri) ws) \<and>
    (\<exists>q f. feed_all ws ev l = l\<lparr>pendings := q, watchers := \<lambda>x. (watchers l x)\<lparr>w_pending := f x\<rparr>\<rparr>)"
  using assms
proof (induction ws arbitrary: l)
  case Nil
  have "\<exists>q f. l = l\<lparr>pendings := q, watchers := \<lambda>x. (watchers l x)\<lparr>w_pending := f x\<rparr>\<rparr>"
    by (rule exI [of _ "pendings l"], rule exI [of _ "\<lambda>x. w_pending (watchers l x)"]) simp
  then show ?case by simp
next
  case (Cons w ws)
  let ?l = "ev_feed_event w ev l" and ?a = "abspri (watchers l w)"
  have w: "w_pending (watchers l w) = 0" using Cons.prems(2) by simp
  then have l: "?l = l\<lparr>pendings := (pendings l)(?a := pendings l ?a @ [(w, ev)]),
      watchers := (watchers l)(w := (watchers l w)\<lparr>w_pending := Suc (length (pendings l ?a))\<rparr>)\<rparr>"
    by (simp add: ev_feed_event_def Let_def upd_watcher_def)
  have a: "abspri (watchers ?l x) = abspri (watchers l x)" for x by (simp add: ev_feed_event_keeps)
  have "w_pending (watchers ?l x) = 0" if "x \<in> set ws" for x using that Cons.prems by (auto simp: l)
  from Cons.IH [OF _ this] Cons.prems(1) obtain q f where IH:
    "pendings (feed_all ws ev ?l) pri =
      pendings ?l pri @ map (\<lambda>w. (w, ev)) (filter (\<lambda>w. abspri (watchers l w) = pri) ws)"
    "feed_all ws ev ?l = ?l\<lparr>pendings := q, watchers := \<lambda>x. (watchers ?l x)\<lparr>w_pending := f x\<rparr>\<rparr>"
    by (auto simp: a)
  have "(\<lambda>x. (watchers ?l x)\<lparr>w_pending := f x\<rparr>) = (\<lambda>x. (watchers l x)\<lparr>w_pending := f x\<rparr>)" by (auto simp: l fun_eq_iff)
  with IH(2) have "feed_all ws ev ?l = l\<lparr>pendings := q, watchers := \<lambda>x. (watchers l x)\<lparr>w_pending := f x\<rparr>\<rparr>"
    by (simp add: l)
  then show ?case using IH(1) by (auto simp: l)
qed

lemma timers_reify_ok:
  assumes ok: "timers_ok l" and rf: "rfeeds l = []"
    and fresh: "\<And>w. w \<in> expired_timers l \<Longrightarrow> w_pending (watchers l w) = 0 \<and> 0 \<le> w_repeat (watchers l w)"
  shows "\<exists>l' ws. timers_reify l = Ok l' \<and> timers_ok l' \<and> expired_timers l' = {} \<and> rfeeds l' = [] \<and>
    set ws = expired_timers l \<and> distinct ws \<and> sorted (map (\<lambda>w. w_at (watchers l w)) ws) \<and>
    (\<forall>pri. pendings l' pri =
       pendings l pri @ map (\<lambda>w. (w, EV_TIMER)) (filter (\<lambda>w. abspri (watchers l w) = pri) (rev ws))) \<and>
    he_w ` timer_entries l' = he_w ` timer_entries l - {w \<in> expired_timers l. w_repeat (watchers l w) = 0}"
proof (cases "timer_expired l")
  case False
  then have "expired_timers l = {}" using expired_iff [OF ok] by simp
  then show ?thesis using False ok rf by (intro exI [of _ l] exI [of _ "[]"]) (simp add: timers_reify_def)
next
  case True
  obtain l1 ws where loop: "timers_reify_loop (timercnt l) l = Ok l1" and r: "expire_result l ws l1"
    using timers_reify_loop_ok [OF ok finite_expired(2) fresh] by blast
  have l1: "timers_reify_loop (timercnt l) l = Ok l1" "timers_ok l1" "expired_timers l1 = {}"
    "rfeeds l1 = ws" "set ws = expired_timers l" "distinct ws" "sorted (map (\<lambda>w. w_at (watchers l w)) ws)"
    "pendings l1 = pendings l" "mn_now l1 = mn_now l"
    "he_w ` timer_entries l1 = he_w ` timer_entries l - {w \<in> expired_timers l. w_repeat (watchers l w) = 0}"
    "\<And>x. w_pending (watchers l1 x) = w_pending (watchers l x) \<and> w_priority (watchers l1 x) = w_priority (watchers l x)"
    using loop r rf by (simp_all add: expire_result_def)
  let ?l1 = "l1\<lparr>rfeeds := []\<rparr>" and ?l2 = "feed_all (rev ws) EV_TIMER (l1\<lparr>rfeeds := []\<rparr>)"
  have new: "w_pending (watchers ?l1 w) = 0" if "w \<in> set (rev ws)" for w
    using that fresh [of w] l1(5,11) by simp
  have a: "abspri (watchers l1 x) = abspri (watchers l x)" for x using l1(11) by (simp add: abspri_def)
  have p: "pendings ?l2 pri = pendings l pri @ map (\<lambda>w. (w, EV_TIMER)) (filter (\<lambda>w. abspri (watchers l w) = pri) (rev ws))" for pri
    using feed_all_new [of "rev ws" ?l1 EV_TIMER pri] new l1(6,8) by (simp add: a)
  obtain q f where l2: "?l2 = ?l1\<lparr>pendings := q, watchers := \<lambda>x. (watchers ?l1 x)\<lparr>w_pending := f x\<rparr>\<rparr>"
    using feed_all_new [of "rev ws" ?l1 EV_TIMER 0] new l1(6) by auto
  have ok2: "timers_ok ?l2" "timer_entries ?l2 = timer_entries l1"
    using timers_ok_frame [OF l1(2), of ?l2] unfolding l2 by simp_all
  then have "expired_timers ?l2 = {}" using l1(3) by (simp add: expired_timers_def l2)
  moreover have "timers_reify l = Ok ?l2" "rfeeds ?l2 = []"
    using True l1(1,4) by (simp_all add: timers_reify_def feed_reverse_done_def l2)
  ultimately show ?thesis using l1(5-7,10) ok2 p by (intro exI [of _ ?l2] exI [of _ ws]) simp
qed

end
