(* ===== verification/Ev_Watch.thy ===== *)
theory Ev_Watch
  imports Ev_Timer
begin

unbundle bit_operations_syntax

text \<open>
  The other watchers of \<^verbatim>\<open>src/deps/ev/ev.c\<close>: idle, prepare, check, fork, cleanup and async
  watchers in arrays, the pipe that wakes the loop, signals and children.
\<close>

section \<open>Setting watchers\<close>

text \<open>\<open>ev_init\<close>, \<open>ev_io_set\<close>, \<open>ev_timer_set\<close> and \<open>ev_signal_set\<close>.\<close>

definition ev_init :: "ev_callback \<Rightarrow> ev_watcher \<Rightarrow> ev_watcher" where
  "ev_init cb x = x\<lparr>w_active := 0, w_pending := 0, w_priority := 0, w_cb := cb\<rparr>"

definition ev_io_set :: "int \<Rightarrow> ev_mask \<Rightarrow> ev_watcher \<Rightarrow> ev_watcher" where
  "ev_io_set fd events x = x\<lparr>w_fd := fd, w_events := events OR EV__IOFDSET\<rparr>"

definition ev_timer_set :: "ev_tstamp \<Rightarrow> ev_tstamp \<Rightarrow> ev_watcher \<Rightarrow> ev_watcher" where
  "ev_timer_set after repeat x = x\<lparr>w_at := after, w_repeat := repeat\<rparr>"

definition ev_signal_set :: "int \<Rightarrow> ev_watcher \<Rightarrow> ev_watcher" where
  "ev_signal_set signum x = x\<lparr>w_signum := signum\<rparr>"

section \<open>Watchers in arrays\<close>

text \<open>
  Removing the entry whose watcher has the index \<open>active\<close>: the last entry takes its place
  and its index. An index that is not in the array reads foreign memory.
\<close>

definition array_remove :: "nat \<Rightarrow> addr list \<Rightarrow> (addr list \<times> addr) outcome" where
  "array_remove active xs =
     (if active = 0 \<or> active > length xs then Fault Out_of_bounds
      else Ok (butlast (xs[active - 1 := last xs]), last xs))"

definition activate :: "addr \<Rightarrow> nat \<Rightarrow> 'w ev_loop \<Rightarrow> 'w ev_loop" where
  "activate w k l = upd_watcher w (\<lambda>x. x\<lparr>w_active := k\<rparr>) l"

definition ev_idle_start :: "addr \<Rightarrow> 'w ev_loop \<Rightarrow> 'w ev_loop outcome" where
  "ev_idle_start w l =
     (if ev_is_active w l then Ok l
      else
        let l = pri_adjust w l;
            pri = abspri (watchers l w);
            active = length (idles l pri) + 1;
            l = ev_start w active (l\<lparr>idleall := idleall l + 1\<rparr>)
        in Ok (l\<lparr>idles := (idles l)(pri := idles l pri @ [w])\<rparr>))"

definition ev_idle_stop :: "addr \<Rightarrow> 'w ev_loop \<Rightarrow> 'w ev_loop outcome" where
  "ev_idle_stop w l =
     (let l = clear_pending w l
      in if \<not> ev_is_active w l then Ok l
         else
           let active = w_active (watchers l w); pri = abspri (watchers l w)
           in obind (array_remove active (idles l pri)) (\<lambda>(xs, moved).
              let l = activate moved active (l\<lparr>idles := (idles l)(pri := xs)\<rparr>);
                  l = ev_stop w l
              in Ok (l\<lparr>idleall := idleall l - 1\<rparr>)))"

definition ev_prepare_start :: "addr \<Rightarrow> 'w ev_loop \<Rightarrow> 'w ev_loop outcome" where
  "ev_prepare_start w l =
     (if ev_is_active w l then Ok l
      else Ok ((ev_start w (length (prepares l) + 1) l)\<lparr>prepares := prepares l @ [w]\<rparr>))"

definition ev_prepare_stop :: "addr \<Rightarrow> 'w ev_loop \<Rightarrow> 'w ev_loop outcome" where
  "ev_prepare_stop w l =
     (let l = clear_pending w l
      in if \<not> ev_is_active w l then Ok l
         else
           let active = w_active (watchers l w)
           in obind (array_remove active (prepares l)) (\<lambda>(xs, moved).
              Ok (ev_stop w (activate moved active (l\<lparr>prepares := xs\<rparr>)))))"

definition ev_check_start :: "addr \<Rightarrow> 'w ev_loop \<Rightarrow> 'w ev_loop outcome" where
  "ev_check_start w l =
     (if ev_is_active w l then Ok l
      else Ok ((ev_start w (length (checks l) + 1) l)\<lparr>checks := checks l @ [w]\<rparr>))"

definition ev_check_stop :: "addr \<Rightarrow> 'w ev_loop \<Rightarrow> 'w ev_loop outcome" where
  "ev_check_stop w l =
     (let l = clear_pending w l
      in if \<not> ev_is_active w l then Ok l
         else
           let active = w_active (watchers l w)
           in obind (array_remove active (checks l)) (\<lambda>(xs, moved).
              Ok (ev_stop w (activate moved active (l\<lparr>checks := xs\<rparr>)))))"

definition ev_fork_start :: "addr \<Rightarrow> 'w ev_loop \<Rightarrow> 'w ev_loop outcome" where
  "ev_fork_start w l =
     (if ev_is_active w l then Ok l
      else Ok ((ev_start w (length (forks l) + 1) l)\<lparr>forks := forks l @ [w]\<rparr>))"

definition ev_fork_stop :: "addr \<Rightarrow> 'w ev_loop \<Rightarrow> 'w ev_loop outcome" where
  "ev_fork_stop w l =
     (let l = clear_pending w l
      in if \<not> ev_is_active w l then Ok l
         else
           let active = w_active (watchers l w)
           in obind (array_remove active (forks l)) (\<lambda>(xs, moved).
              Ok (ev_stop w (activate moved active (l\<lparr>forks := xs\<rparr>)))))"

text \<open>A cleanup watcher does not keep the loop alive.\<close>

definition ev_cleanup_start :: "addr \<Rightarrow> 'w ev_loop \<Rightarrow> 'w ev_loop outcome" where
  "ev_cleanup_start w l =
     (if ev_is_active w l then Ok l
      else Ok (ev_unref ((ev_start w (length (cleanups l) + 1) l)\<lparr>cleanups := cleanups l @ [w]\<rparr>)))"

definition ev_cleanup_stop :: "addr \<Rightarrow> 'w ev_loop \<Rightarrow> 'w ev_loop outcome" where
  "ev_cleanup_stop w l =
     (let l = clear_pending w l
      in if \<not> ev_is_active w l then Ok l
         else
           let l = ev_ref l; active = w_active (watchers l w)
           in obind (array_remove active (cleanups l)) (\<lambda>(xs, moved).
              Ok (ev_stop w (activate moved active (l\<lparr>cleanups := xs\<rparr>)))))"

section \<open>The wakeup pipe\<close>

text \<open>The pipe is an \<open>eventfd\<close>: writing adds to its counter, one read empties it.\<close>

definition evpipe_init :: "'w ev_env \<Rightarrow> 'w ev_loop \<Rightarrow> 'w ev_loop outcome" where
  "evpipe_init env l =
     (if ev_is_active pipe_w l then Ok l
      else
        let (fd, world) = new_pipe env (ev_world l);
            l = upd_watcher pipe_w (\<lambda>x. x\<lparr>w_fd := int fd, w_events := EV_READ OR EV__IOFDSET\<rparr>)
                  (l\<lparr>ev_world := world, pipe_bytes := 0\<rparr>)
        in obind (ev_io_start pipe_w l) (\<lambda>l. Ok (ev_unref l)))"

datatype wake_flag = Sig_pending | Async_pending

definition flag_set :: "wake_flag \<Rightarrow> 'w ev_loop \<Rightarrow> bool" where
  "flag_set fl l = (case fl of Sig_pending \<Rightarrow> sig_pending l | Async_pending \<Rightarrow> async_pending l)"

definition set_flag :: "wake_flag \<Rightarrow> 'w ev_loop \<Rightarrow> 'w ev_loop" where
  "set_flag fl l = (case fl of Sig_pending \<Rightarrow> l\<lparr>sig_pending := True\<rparr> | Async_pending \<Rightarrow> l\<lparr>async_pending := True\<rparr>)"

definition evpipe_write :: "wake_flag \<Rightarrow> 'w ev_loop \<Rightarrow> 'w ev_loop" where
  "evpipe_write fl l =
     (if flag_set fl l then l
      else
        let l = (set_flag fl l)\<lparr>pipe_write_skipped := True\<rparr>
        in if pipe_write_wanted l then l\<lparr>pipe_write_skipped := False, pipe_bytes := pipe_bytes l + 1\<rparr> else l)"

definition EV_NSIG :: int where "EV_NSIG = 65"

text \<open>\<open>signals\<close> has \<open>EV_NSIG - 1\<close> entries; the test of the code lets \<open>EV_NSIG\<close> itself pass.\<close>

definition ev_feed_signal_event :: "int \<Rightarrow> 'w ev_loop \<Rightarrow> 'w ev_loop outcome" where
  "ev_feed_signal_event signum l =
     (if signum \<le> 0 \<or> signum > EV_NSIG then Ok l
      else
        let i = nat (signum - 1)
        in if i \<ge> length (signals l) then Fault Out_of_bounds
           else
             let s = signals l ! i
             in if \<not> sig_loop s then Ok l
                else Ok (feed_all (sig_head s) EV_SIGNAL (l\<lparr>signals := (signals l)[i := s\<lparr>sig_flag := False\<rparr>]\<rparr>)))"

definition ev_feed_signal :: "int \<Rightarrow> 'w ev_loop \<Rightarrow> 'w ev_loop outcome" where
  "ev_feed_signal signum l =
     (if signum \<le> 0 \<or> nat (signum - 1) \<ge> length (signals l) then Fault Out_of_bounds
      else
        let i = nat (signum - 1); s = signals l ! i
        in if \<not> sig_loop s then Ok l
           else if w_active (watchers l pipe_w) = 0 then Ok l
           else Ok (evpipe_write Sig_pending (l\<lparr>signals := (signals l)[i := s\<lparr>sig_flag := True\<rparr>]\<rparr>)))"

definition ev_sighandler :: "int \<Rightarrow> 'w ev_loop \<Rightarrow> 'w ev_loop outcome" where
  "ev_sighandler signum l = ev_feed_signal signum l"

primrec pass_signals :: "nat list \<Rightarrow> 'w ev_loop \<Rightarrow> 'w ev_loop outcome" where
  "pass_signals [] l = Ok l"
| "pass_signals (i # is) l =
     (if i \<ge> length (signals l) then Fault Out_of_bounds
      else obind (if sig_flag (signals l ! i) then ev_feed_signal_event (int i + 1) l else Ok l) (pass_signals is))"

primrec pass_asyncs :: "addr list \<Rightarrow> 'w ev_loop \<Rightarrow> 'w ev_loop" where
  "pass_asyncs [] l = l"
| "pass_asyncs (w # ws) l =
     pass_asyncs ws
       (if w_sent (watchers l w) then ev_feed_event w EV_ASYNC (upd_watcher w (\<lambda>x. x\<lparr>w_sent := False\<rparr>) l) else l)"

definition pipecb :: "ev_mask \<Rightarrow> 'w ev_loop \<Rightarrow> 'w ev_loop outcome" where
  "pipecb revents l =
     (let l = (if revents AND EV_READ \<noteq> 0 then l\<lparr>pipe_bytes := 0\<rparr> else l);
          l = l\<lparr>pipe_write_skipped := False\<rparr>
      in obind
           (if sig_pending l
            then pass_signals (rev [0..<nat (EV_NSIG - 1)]) (l\<lparr>sig_pending := False\<rparr>)
            else Ok l)
           (\<lambda>l. Ok (if async_pending l
                    then pass_asyncs (rev (asyncs l)) (l\<lparr>async_pending := False\<rparr>)
                    else l)))"

definition ev_async_start :: "'w ev_env \<Rightarrow> addr \<Rightarrow> 'w ev_loop \<Rightarrow> 'w ev_loop outcome" where
  "ev_async_start env w l =
     (if ev_is_active w l then Ok l
      else
        obind (evpipe_init env (upd_watcher w (\<lambda>x. x\<lparr>w_sent := False\<rparr>) l)) (\<lambda>l.
          Ok ((ev_start w (length (asyncs l) + 1) l)\<lparr>asyncs := asyncs l @ [w]\<rparr>)))"

definition ev_async_stop :: "addr \<Rightarrow> 'w ev_loop \<Rightarrow> 'w ev_loop outcome" where
  "ev_async_stop w l =
     (let l = clear_pending w l
      in if \<not> ev_is_active w l then Ok l
         else
           let active = w_active (watchers l w)
           in obind (array_remove active (asyncs l)) (\<lambda>(xs, moved).
              Ok (ev_stop w (activate moved active (l\<lparr>asyncs := xs\<rparr>)))))"

definition ev_async_send :: "addr \<Rightarrow> 'w ev_loop \<Rightarrow> 'w ev_loop" where
  "ev_async_send w l = evpipe_write Async_pending (upd_watcher w (\<lambda>x. x\<lparr>w_sent := True\<rparr>) l)"

section \<open>Signals and children\<close>

definition put_signal :: "nat \<Rightarrow> ansig \<Rightarrow> 'w ev_loop \<Rightarrow> 'w ev_loop" where
  "put_signal i s l = l\<lparr>signals := (signals l)[i := s]\<rparr>"

text \<open>
  Signals can be received through a descriptor: \<open>sigfd\<close> is -2 until the first signal is watched
  when the loop was made with that flag, otherwise -1 or the descriptor.
\<close>

definition EINVAL :: int where "EINVAL = 22"

primrec feed_signals :: "int list \<Rightarrow> 'w ev_loop \<Rightarrow> 'w ev_loop outcome" where
  "feed_signals [] l = Ok l"
| "feed_signals (s # ss) l = obind (ev_feed_signal_event s l) (feed_signals ss)"

definition sigfdcb :: "'w ev_env \<Rightarrow> 'w ev_loop \<Rightarrow> 'w ev_loop outcome" where
  "sigfdcb env l =
     (case signalfd_read env (sigfd l) (ev_world l) of (ss, world) \<Rightarrow> feed_signals ss (l\<lparr>ev_world := world\<rparr>))"

definition sigfd_open :: "'w ev_env \<Rightarrow> 'w ev_loop \<Rightarrow> 'w ev_loop outcome" where
  "sigfd_open env l =
     (if sigfd l = -2 then
        let ((fd, err), world) = signalfd env (-1) (sigfd_set l) True (ev_world l);
            (fd, world) =
              (if fd < 0 \<and> err = EINVAL
               then case signalfd env (-1) (sigfd_set l) False world of ((fd, _), world) \<Rightarrow> (fd, world)
               else (fd, world));
            l = l\<lparr>sigfd := fd, ev_world := world\<rparr>
        in if fd \<ge> 0
           then
             let l = upd_watcher sigfd_w
                   (\<lambda>x. (ev_io_set fd EV_READ (ev_init Sigfdcb x))\<lparr>w_priority := EV_MAXPRI\<rparr>) (l\<lparr>sigfd_set := []\<rparr>)
             in obind (ev_io_start sigfd_w l) (\<lambda>l. Ok (ev_unref l))
           else Ok l
      else Ok l)"

definition sigfd_add :: "'w ev_env \<Rightarrow> int \<Rightarrow> 'w ev_loop \<Rightarrow> 'w ev_loop" where
  "sigfd_add env signum l =
     (if sigfd l \<ge> 0
      then
        let ss = List.insert signum (sigfd_set l);
            (_, world) = signalfd env (sigfd l) ss False (block_signals env ss (ev_world l))
        in l\<lparr>sigfd_set := ss, ev_world := world\<rparr>
      else l)"

definition sigfd_remove :: "'w ev_env \<Rightarrow> int \<Rightarrow> 'w ev_loop \<Rightarrow> 'w ev_loop" where
  "sigfd_remove env signum l =
     (let ss = removeAll signum (sigfd_set l);
          (_, world) = signalfd env (sigfd l) ss False (ev_world l)
      in l\<lparr>sigfd_set := ss, ev_world := unblock_signal env signum world\<rparr>)"

text \<open>The handler of a signal that is watched for the first time; no other loop has signals.\<close>

definition signal_handle :: "'w ev_env \<Rightarrow> int \<Rightarrow> 'w ev_loop \<Rightarrow> 'w ev_loop outcome" where
  "signal_handle env signum l =
     obind (evpipe_init env l) (\<lambda>l.
       let l = l\<lparr>ev_world := set_handler env signum True (ev_world l)\<rparr>
       in Ok (if origflags l AND EVFLAG_NOSIGMASK \<noteq> 0
              then l\<lparr>ev_world := unblock_signal env signum (ev_world l)\<rparr>
              else l))"

definition ev_signal_start :: "'w ev_env \<Rightarrow> addr \<Rightarrow> 'w ev_loop \<Rightarrow> 'w ev_loop outcome" where
  "ev_signal_start env w l =
     (if ev_is_active w l then Ok l
      else
        let signum = w_signum (watchers l w); i = nat (signum - 1)
        in obind (g_assert (signum > 0 \<and> signum < EV_NSIG)) (\<lambda>_.
           if i \<ge> length (signals l) then Fault Out_of_bounds
           else
             let s = (signals l ! i)\<lparr>sig_loop := True\<rparr>
             in obind (sigfd_open env (put_signal i s l)) (\<lambda>l.
                let l = ev_start w 1 (sigfd_add env signum l);
                    l = put_signal i (s\<lparr>sig_head := wlist_add (sig_head s) w\<rparr>) l
                in if sig_head s = [] \<and> sigfd l < 0 then signal_handle env signum l else Ok l)))"

definition ev_signal_stop :: "'w ev_env \<Rightarrow> addr \<Rightarrow> 'w ev_loop \<Rightarrow> 'w ev_loop outcome" where
  "ev_signal_stop env w l =
     (let l = clear_pending w l
      in if \<not> ev_is_active w l then Ok l
         else
           let signum = w_signum (watchers l w); i = nat (signum - 1)
           in if signum \<le> 0 \<or> i \<ge> length (signals l) then Fault Out_of_bounds
              else
                let s = signals l ! i;
                    head = wlist_del (sig_head s) w;
                    l = ev_stop w (put_signal i (s\<lparr>sig_head := head\<rparr>) l)
                in Ok (if head = []
                       then
                         let l = put_signal i (s\<lparr>sig_head := [], sig_loop := False\<rparr>) l
                         in if sigfd l \<ge> 0 then sigfd_remove env signum l
                            else l\<lparr>ev_world := set_handler env signum False (ev_world l)\<rparr>
                       else l))"

definition EV_PID_HASHSIZE :: int where "EV_PID_HASHSIZE = 16"

definition pid_chain :: "int \<Rightarrow> nat" where
  "pid_chain pid = nat (pid AND (EV_PID_HASHSIZE - 1))"

definition ev_child_start :: "addr \<Rightarrow> 'w ev_loop \<Rightarrow> 'w ev_loop outcome" where
  "ev_child_start w l =
     (if ev_is_active w l then Ok l
      else
        let l = ev_start w 1 l; c = pid_chain (w_pid (watchers l w))
        in Ok (l\<lparr>childs := (childs l)(c := wlist_add (childs l c) w)\<rparr>))"

definition ev_child_stop :: "addr \<Rightarrow> 'w ev_loop \<Rightarrow> 'w ev_loop outcome" where
  "ev_child_stop w l =
     (let l = clear_pending w l
      in if \<not> ev_is_active w l then Ok l
         else
           let c = pid_chain (w_pid (watchers l w))
           in Ok (ev_stop w (l\<lparr>childs := (childs l)(c := wlist_del (childs l c) w)\<rparr>)))"

text \<open>\<open>WIFSTOPPED\<close> and \<open>WIFCONTINUED\<close> of the system's headers.\<close>

definition wif_traced :: "int \<Rightarrow> bool" where
  "wif_traced status \<longleftrightarrow> status AND 0xFF = 0x7F \<or> status = 0xFFFF"

primrec reap_children :: "addr list \<Rightarrow> int \<Rightarrow> int \<Rightarrow> 'w ev_loop \<Rightarrow> 'w ev_loop" where
  "reap_children [] pid status l = l"
| "reap_children (w # ws) pid status l =
     reap_children ws pid status
       (if (w_pid (watchers l w) = pid \<or> w_pid (watchers l w) = 0) \<and>
           (\<not> wif_traced status \<or> w_flags (watchers l w) AND 1 \<noteq> 0)
        then ev_feed_event w EV_CHILD
               (upd_watcher w (\<lambda>x. x\<lparr>w_priority := EV_MAXPRI, w_rpid := pid, w_rstatus := status\<rparr>) l)
        else l)"

definition child_reap :: "int \<Rightarrow> int \<Rightarrow> int \<Rightarrow> 'w ev_loop \<Rightarrow> 'w ev_loop" where
  "child_reap chain pid status l = reap_children (childs l (pid_chain chain)) pid status l"

definition childcb :: "'w ev_env \<Rightarrow> addr \<Rightarrow> 'w ev_loop \<Rightarrow> 'w ev_loop outcome" where
  "childcb env sw l =
     (case waitpid env (ev_world l) of
        (None, world) \<Rightarrow> Ok (l\<lparr>ev_world := world\<rparr>)
      | (Some (pid, status), world) \<Rightarrow>
          Ok (child_reap 0 pid status (child_reap pid pid status (ev_feed_event sw EV_SIGNAL (l\<lparr>ev_world := world\<rparr>)))))"

end
