(* ===== verification/Ev_Event.thy ===== *)
theory Ev_Event
  imports Ev_Watch
begin

unbundle bit_operations_syntax

text \<open>
  The events of libevent that the library emulates on its own watchers (\<^verbatim>\<open>src/deps/ev/event.c\<close>,
  \<^verbatim>\<open>event.h\<close>): an event is an io or a signal watcher and a timer in one object, with one callback.
  Here are the operations on one event and what is called when its watchers are pending.
\<close>

section \<open>Events\<close>

definition EV_TIMEOUT :: ev_mask where "EV_TIMEOUT = EV_TIMER"
definition EV_PERSIST :: ev_mask where "EV_PERSIST = 0x10"
definition EVLIST_TIMEOUT :: ev_mask where "EVLIST_TIMEOUT = 0x01"
definition EVLIST_INSERTED :: ev_mask where "EVLIST_INSERTED = 0x02"
definition EVLIST_SIGNAL :: ev_mask where "EVLIST_SIGNAL = 0x04"
definition EVLIST_ACTIVE :: ev_mask where "EVLIST_ACTIVE = 0x08"
definition EVLIST_INIT :: ev_mask where "EVLIST_INIT = 0x80"

definition event_to :: "addr \<Rightarrow> addr" where "event_to e = e + 1"

definition upd_event :: "addr \<Rightarrow> (event \<Rightarrow> event) \<Rightarrow> 'w ev_loop \<Rightarrow> 'w ev_loop" where
  "upd_event e f l = l\<lparr>x_events := (x_events l)(e := f (x_events l e))\<rparr>"

text \<open>The type \<open>short\<close> of the events of an event, in the arithmetic of \<open>int\<close>.\<close>

definition ev_kinds :: "addr \<Rightarrow> 'w ev_loop \<Rightarrow> ev_mask" where
  "ev_kinds e l = scast (ev_events (x_events l e))"

text \<open>
  \<open>dLOOPev\<close>: what follows uses the loop that the event points to. Stopping an idle watcher
  does not look at the loop.
\<close>

definition on_base :: "addr \<Rightarrow> 'w ev_loop \<Rightarrow> ('w ev_loop \<Rightarrow> 'a outcome) \<Rightarrow> 'a outcome" where
  "on_base e l f = (if ev_base (x_events l e) then f l else Fault Null_deref)"

definition stop_on_base :: "addr \<Rightarrow> addr \<Rightarrow> 'w ev_loop \<Rightarrow> ('w ev_loop \<Rightarrow> 'w ev_loop outcome) \<Rightarrow> 'w ev_loop outcome" where
  "stop_on_base e w l f =
     (if w_pending (watchers l w) = 0 \<and> \<not> ev_is_active w l then Ok l else on_base e l f)"

definition ev_tv_get :: "(int \<times> int) option \<Rightarrow> ev_tstamp" where
  "ev_tv_get tv =
     (case tv of
        Some (tv_sec, tv_usec) \<Rightarrow>
          let after = of_int tv_sec + of_int tv_usec * 0.000001 in if after \<noteq> 0 then after else 0.000001
      | None \<Rightarrow> -1)"

definition event_set :: "addr \<Rightarrow> int \<Rightarrow> 16 word \<Rightarrow> nat \<Rightarrow> nat \<Rightarrow> 'w ev_loop \<Rightarrow> 'w ev_loop" where
  "event_set e fd events cb arg l =
     (let l = upd_watcher e (ev_init (if scast events AND EV_SIGNAL \<noteq> 0 then Ev_x_cb_sig else Ev_x_cb_io)) l;
          l = upd_watcher (event_to e) (ev_init Ev_x_cb_to) l
      in upd_event e
           (\<lambda>_. \<lparr>ev_base = x_cur l, ev_callback = cb, ev_arg = arg, ev_fd = fd, ev_pri = 0, ev_res = 0,
                 ev_flags = EVLIST_INIT, ev_events = events\<rparr>) l)"

definition event_del :: "'w ev_env \<Rightarrow> addr \<Rightarrow> 'w ev_loop \<Rightarrow> 'w ev_loop outcome" where
  "event_del env e l =
     obind
       (if ev_kinds e l AND EV_SIGNAL \<noteq> 0 then stop_on_base e e l (ev_signal_stop env e)
        else if ev_kinds e l AND (EV_READ OR EV_WRITE) \<noteq> 0 then stop_on_base e e l (ev_io_stop e)
        else Ok l)
       (\<lambda>l. obind
          (if ev_is_active (event_to e) l then on_base e l (ev_timer_stop (event_to e)) else Ok l)
          (\<lambda>l. Ok (upd_event e (\<lambda>v. v\<lparr>ev_flags := EVLIST_INIT\<rparr>) l)))"

text \<open>The io or signal part of \<open>event_add\<close>, and its timer.\<close>

definition event_add_fd :: "'w ev_env \<Rightarrow> addr \<Rightarrow> 'w ev_loop \<Rightarrow> 'w ev_loop outcome" where
  "event_add_fd env e l =
     (if ev_kinds e l AND EV_SIGNAL \<noteq> 0 then
        if \<not> ev_is_active e l then
          obind (on_base e (upd_watcher e (ev_signal_set (ev_fd (x_events l e))) l) (ev_signal_start env e))
            (\<lambda>l. Ok (upd_event e (\<lambda>v. v\<lparr>ev_flags := ev_flags v OR EVLIST_SIGNAL\<rparr>) l))
        else Ok l
      else if ev_kinds e l AND (EV_READ OR EV_WRITE) \<noteq> 0 then
        if \<not> ev_is_active e l then
          obind
            (on_base e (upd_watcher e (ev_io_set (ev_fd (x_events l e)) (ev_kinds e l AND (EV_READ OR EV_WRITE))) l)
               (ev_io_start e))
            (\<lambda>l. Ok (upd_event e (\<lambda>v. v\<lparr>ev_flags := ev_flags v OR EVLIST_INSERTED\<rparr>) l))
        else Ok l
      else Ok l)"

definition event_add_to :: "addr \<Rightarrow> (int \<times> int) option \<Rightarrow> 'w ev_loop \<Rightarrow> 'w ev_loop outcome" where
  "event_add_to e tv l =
     (if tv \<noteq> None then
        obind (on_base e (upd_watcher (event_to e) (\<lambda>x. x\<lparr>w_repeat := ev_tv_get tv\<rparr>) l) (ev_timer_again (event_to e)))
          (\<lambda>l. Ok (upd_event e (\<lambda>v. v\<lparr>ev_flags := ev_flags v OR EVLIST_TIMEOUT\<rparr>) l))
      else
        obind (stop_on_base e (event_to e) l (ev_timer_stop (event_to e)))
          (\<lambda>l. Ok (upd_event e (\<lambda>v. v\<lparr>ev_flags := ev_flags v AND NOT EVLIST_TIMEOUT\<rparr>) l)))"

definition event_add :: "'w ev_env \<Rightarrow> addr \<Rightarrow> (int \<times> int) option \<Rightarrow> 'w ev_loop \<Rightarrow> 'w ev_loop outcome" where
  "event_add env e tv l =
     obind (event_add_fd env e l) (\<lambda>l.
     obind (event_add_to e tv l) (\<lambda>l.
     Ok (upd_event e (\<lambda>v. v\<lparr>ev_flags := ev_flags v OR EVLIST_ACTIVE\<rparr>) l)))"

definition feed_part :: "addr \<Rightarrow> addr \<Rightarrow> ev_mask \<Rightarrow> 'w ev_loop \<Rightarrow> 'w ev_loop outcome" where
  "feed_part e w revents l = (if revents \<noteq> 0 then on_base e l (\<lambda>l. Ok (ev_feed_event w revents l)) else Ok l)"

definition event_active :: "addr \<Rightarrow> ev_mask \<Rightarrow> 'w ev_loop \<Rightarrow> 'w ev_loop outcome" where
  "event_active e res l =
     obind (feed_part e (event_to e) (res AND EV_TIMEOUT) l) (\<lambda>l.
     obind (feed_part e e (res AND EV_SIGNAL) l) (feed_part e e (res AND (EV_READ OR EV_WRITE))))"

text \<open>A watcher that is active or pending, and the answer of \<open>event_pending\<close> with the time it stores.\<close>

definition is_waiting :: "addr \<Rightarrow> 'w ev_loop \<Rightarrow> bool" where
  "is_waiting w l \<longleftrightarrow> ev_is_active w l \<or> w_pending (watchers l w) \<noteq> 0"

definition pending_kinds :: "addr \<Rightarrow> 'w ev_loop \<Rightarrow> ev_mask" where
  "pending_kinds e l =
     (if ev_kinds e l AND EV_SIGNAL \<noteq> 0 then (if is_waiting e l then EV_SIGNAL else 0)
      else if ev_kinds e l AND (EV_READ OR EV_WRITE) \<noteq> 0
      then (if is_waiting e l then ev_kinds e l AND (EV_READ OR EV_WRITE) else 0)
      else 0)"

definition tv_of :: "ev_tstamp \<Rightarrow> int \<times> int" where
  "tv_of t =
     (let sec = (if t \<ge> 0 then \<lfloor>t\<rfloor> else \<lceil>t\<rceil>); rest = (t - of_int sec) * 1000000
      in (sec, if rest \<ge> 0 then \<lfloor>rest\<rfloor> else \<lceil>rest\<rceil>))"

definition event_pending :: "addr \<Rightarrow> 16 word \<Rightarrow> bool \<Rightarrow> 'w ev_loop \<Rightarrow> (ev_mask \<times> (int \<times> int) option) outcome" where
  "event_pending e events tv l =
     (if ev_kinds e l AND EV_TIMEOUT \<noteq> 0 \<or> is_waiting (event_to e) l then
        let answer = scast events AND (pending_kinds e l OR EV_TIMEOUT)
        in if tv then on_base e l (\<lambda>l. Ok (answer, Some (tv_of (ev_rt_now l)))) else Ok (answer, None)
      else Ok (scast events AND pending_kinds e l, None))"

definition event_priority_set :: "addr \<Rightarrow> int \<Rightarrow> 'w ev_loop \<Rightarrow> 'w ev_loop" where
  "event_priority_set e pri l = upd_event e (\<lambda>v. v\<lparr>ev_pri := pri\<rparr>) l"

definition event_base_set :: "bool \<Rightarrow> addr \<Rightarrow> 'w ev_loop \<Rightarrow> 'w ev_loop" where
  "event_base_set base e l = upd_event e (\<lambda>v. v\<lparr>ev_base := base\<rparr>) l"

section \<open>The callbacks\<close>

definition ev_x_cb :: "'w ev_env \<Rightarrow> addr \<Rightarrow> ev_mask \<Rightarrow> 'w ev_loop \<Rightarrow> 'w ev_loop outcome" where
  "ev_x_cb env e revents l =
     (let revents = revents AND (EV_READ OR EV_WRITE OR EV_TIMER OR EV_SIGNAL);
          l = upd_event e (\<lambda>v. v\<lparr>ev_res := revents\<rparr>) l;
          v = x_events l e
      in user_event env (ev_callback v) (ev_fd v) (ucast revents) (ev_arg v) l)"

definition ev_x_cb_sig :: "'w ev_env \<Rightarrow> addr \<Rightarrow> ev_mask \<Rightarrow> 'w ev_loop \<Rightarrow> 'w ev_loop outcome" where
  "ev_x_cb_sig env w revents l =
     obind (if revents AND EV_ERROR \<noteq> 0 then event_del env w l else Ok l) (ev_x_cb env w revents)"

definition ev_x_cb_io :: "'w ev_env \<Rightarrow> addr \<Rightarrow> ev_mask \<Rightarrow> 'w ev_loop \<Rightarrow> 'w ev_loop outcome" where
  "ev_x_cb_io env w revents l =
     obind (if revents AND EV_ERROR \<noteq> 0 \<or> ev_kinds w l AND EV_PERSIST = 0 then event_del env w l else Ok l)
       (ev_x_cb env w revents)"

definition ev_x_cb_to :: "'w ev_env \<Rightarrow> addr \<Rightarrow> ev_mask \<Rightarrow> 'w ev_loop \<Rightarrow> 'w ev_loop outcome" where
  "ev_x_cb_to env w revents l = obind (event_del env (w - 1) l) (ev_x_cb env (w - 1) revents)"

text \<open>A one-shot watch: the object is released after the call.\<close>

definition ev_x_once_cb :: "'w ev_env \<Rightarrow> ev_mask \<Rightarrow> nat \<Rightarrow> 'w ev_loop \<Rightarrow> 'w ev_loop outcome" where
  "ev_x_once_cb env revents once l =
     (case x_onces l once of
        None \<Rightarrow> Fault Use_after_free
      | Some (fd, cb, arg) \<Rightarrow>
          obind (user_event env cb fd (ucast revents) arg l) (\<lambda>l. Ok (l\<lparr>x_onces := (x_onces l)(once := None)\<rparr>)))"

end
