(* ===== verification/Ev_Stat.thy ===== *)
theory Ev_Stat
  imports Ev_Watch
begin

unbundle bit_operations_syntax

text \<open>
  Watching the attributes of a path (\<^verbatim>\<open>src/deps/ev/ev.c\<close>): a timer polls \<open>lstat\<close>, and where the
  system has \<open>inotify\<close> the kernel gives hints, so that the timer can be slow or stand still. The timer
  of the watcher at address \<open>w\<close> is at \<open>stat_timer w\<close>. The kernel's watches are kept by their
  number in a table of \<open>EV_INOTIFY_HASHSIZE\<close> lists.
\<close>

section \<open>The version of the kernel\<close>

definition char_code :: "char \<Rightarrow> int" where
  "char_code c = of_char c"

text \<open>\<open>unsigned int c\<close>: the digits up to the next other character, which is skipped when it is a period.\<close>

fun version_part :: "32 word \<Rightarrow> string \<Rightarrow> 32 word \<times> string" where
  "version_part c [] = (c, [])"
| "version_part c (p # ps) =
     (if char_code (CHR ''0'') \<le> char_code p \<and> char_code p \<le> char_code (CHR ''9'')
      then version_part (c * 10 + word_of_int (char_code p) - word_of_int (char_code (CHR ''0''))) ps
      else (c, if p = CHR ''.'' then ps else p # ps))"

primrec version_parts :: "nat \<Rightarrow> 32 word \<Rightarrow> string \<Rightarrow> 32 word" where
  "version_parts 0 v p = v"
| "version_parts (Suc n) v p = (case version_part 0 p of (c, p) \<Rightarrow> version_parts n (push_bit 8 v OR c) p)"

definition ev_linux_version :: "'w ev_env \<Rightarrow> 'w ev_loop \<Rightarrow> 32 word" where
  "ev_linux_version env l =
     (case uname_release env (ev_world l) of None \<Rightarrow> 0 | Some r \<Rightarrow> version_parts 3 0 r)"

section \<open>Watches of the kernel\<close>

definition DEF_STAT_INTERVAL :: ev_tstamp where "DEF_STAT_INTERVAL = 5.0074891"
definition NFS_STAT_INTERVAL :: ev_tstamp where "NFS_STAT_INTERVAL = 30.1074891"
definition MIN_STAT_INTERVAL :: ev_tstamp where "MIN_STAT_INTERVAL = 0.1074891"

definition EV_INOTIFY_HASHSIZE :: int where "EV_INOTIFY_HASHSIZE = 16"

definition IN_MODIFY :: ev_mask where "IN_MODIFY = 0x00000002"
definition IN_ATTRIB :: ev_mask where "IN_ATTRIB = 0x00000004"
definition IN_MOVED_TO :: ev_mask where "IN_MOVED_TO = 0x00000080"
definition IN_CREATE :: ev_mask where "IN_CREATE = 0x00000100"
definition IN_DELETE_SELF :: ev_mask where "IN_DELETE_SELF = 0x00000400"
definition IN_MOVE_SELF :: ev_mask where "IN_MOVE_SELF = 0x00000800"
definition IN_UNMOUNT :: ev_mask where "IN_UNMOUNT = 0x00002000"
definition IN_IGNORED :: ev_mask where "IN_IGNORED = 0x00008000"
definition IN_DONT_FOLLOW :: ev_mask where "IN_DONT_FOLLOW = 0x02000000"
definition IN_MASK_ADD :: ev_mask where "IN_MASK_ADD = 0x20000000"

definition EACCES :: int where "EACCES = 13"

definition stat_timer :: "addr \<Rightarrow> addr" where "stat_timer w = w + 1"

definition wd_slot :: "int \<Rightarrow> nat" where
  "wd_slot wd = nat (wd AND (EV_INOTIFY_HASHSIZE - 1))"

definition set_repeat :: "addr \<Rightarrow> ev_tstamp \<Rightarrow> 'w ev_loop \<Rightarrow> 'w ev_loop" where
  "set_repeat w t l = upd_watcher (stat_timer w) (\<lambda>x. x\<lparr>w_repeat := t\<rparr>) l"

definition interval_or :: "ev_tstamp \<Rightarrow> addr \<Rightarrow> 'w ev_loop \<Rightarrow> ev_tstamp" where
  "interval_or dflt w l = (if w_interval (watchers l w) \<noteq> 0 then w_interval (watchers l w) else dflt)"

definition call_add_watch :: "'w ev_env \<Rightarrow> string \<Rightarrow> ev_mask \<Rightarrow> 'w ev_loop \<Rightarrow> int \<times> int \<times> 'w ev_loop" where
  "call_add_watch env path m l =
     (case inotify_add_watch env (fs_fd l) path m (ev_world l) of
        ((wd, err), world) \<Rightarrow> (wd, err, l\<lparr>ev_world := world\<rparr>))"

text \<open>File systems that only change under this kernel: devfs, ext2 and ext3, jfs, reiserfs, tmpfs, xfs.\<close>

definition local_filesystems :: "int list" where
  "local_filesystems = [0x1373, 0xEF53, 0x3153464a, 0x52654973, 0x01021994, 0x58465342]"

definition watched_interval :: "'w ev_env \<Rightarrow> addr \<Rightarrow> 'w ev_loop \<Rightarrow> ev_tstamp" where
  "watched_interval env w l =
     (if \<not> fs_2625 l then interval_or DEF_STAT_INTERVAL w l
      else case statfs_type env (w_path (watchers l w)) (ev_world l) of
             Some t \<Rightarrow> if t \<in> set local_filesystems then 0 else interval_or NFS_STAT_INTERVAL w l
           | None \<Rightarrow> interval_or NFS_STAT_INTERVAL w l)"

text \<open>
  \<open>strrchr\<close> and cutting the path there: the directory of a path, unless there is no slash or only
  a leading one.
\<close>

definition parent_dir :: "string \<Rightarrow> string option" where
  "parent_dir path =
     (let p = rev (dropWhile (\<lambda>c. c \<noteq> CHR ''/'') (rev path))
      in if p = [] \<or> length p = 1 then None else Some (butlast p))"

lemma parent_dir_shorter:
  assumes "parent_dir path = Some dir"
  shows "length dir < length path"
proof -
  let ?p = "dropWhile (\<lambda>c. c \<noteq> CHR ''/'') (rev path)"
  have "?p \<noteq> []" "dir = butlast (rev ?p)"
    using assms by (auto simp: parent_dir_def Let_def split: if_splits)
  moreover have "length ?p \<le> length path" using length_dropWhile_le [of _ "rev path"] by simp
  ultimately show ?thesis by (cases ?p) auto
qed

text \<open>Directories further and further up, until one can be watched.\<close>

function infy_parents :: "'w ev_env \<Rightarrow> string \<Rightarrow> int \<Rightarrow> int \<Rightarrow> 'w ev_loop \<Rightarrow> int \<times> 'w ev_loop" where
  "infy_parents env path wd err l =
     (case parent_dir path of
        None \<Rightarrow> (wd, l)
      | Some dir \<Rightarrow>
          let m = IN_MASK_ADD OR IN_DELETE_SELF OR IN_MOVE_SELF OR
                (if err = EACCES then IN_ATTRIB else IN_CREATE OR IN_MOVED_TO);
              (wd, err, l) = call_add_watch env dir m l
          in if wd < 0 \<and> (err = ENOENT \<or> err = EACCES) then infy_parents env dir wd err l else (wd, l))"
  by pat_completeness auto
termination
  by (relation "measure (\<lambda>(env, path, wd, err, l). length path)") (auto simp: parent_dir_shorter)

declare infy_parents.simps [simp del]

text \<open>Re-arming the timer, which does not count while it runs.\<close>

definition stat_rearm :: "addr \<Rightarrow> 'w ev_loop \<Rightarrow> 'w ev_loop outcome" where
  "stat_rearm w l =
     (let t = stat_timer w;
          l = (if ev_is_active t l then ev_ref l else l)
      in obind (ev_timer_again t l) (\<lambda>l. Ok (if ev_is_active t l then ev_unref l else l)))"

definition infy_add :: "'w ev_env \<Rightarrow> addr \<Rightarrow> 'w ev_loop \<Rightarrow> 'w ev_loop outcome" where
  "infy_add env w l =
     (let path = w_path (watchers l w);
          (wd, err, l) = call_add_watch env path
            (IN_ATTRIB OR IN_DELETE_SELF OR IN_MOVE_SELF OR IN_MODIFY OR IN_DONT_FOLLOW OR IN_MASK_ADD) l;
          (wd, l) =
            (if wd \<ge> 0 then (wd, set_repeat w (watched_interval env w l) l)
             else
               let l = set_repeat w (interval_or DEF_STAT_INTERVAL w l) l
               in if (err = ENOENT \<or> err = EACCES) \<and> length path < 4096 then infy_parents env path wd err l
                  else (wd, l));
          l = upd_watcher w (\<lambda>x. x\<lparr>w_wd := wd\<rparr>) l;
          l = (if wd \<ge> 0
               then l\<lparr>fs_hash := (fs_hash l)(wd_slot wd := wlist_add (fs_hash l (wd_slot wd)) w)\<rparr>
               else l)
      in stat_rearm w l)"

definition infy_del :: "'w ev_env \<Rightarrow> addr \<Rightarrow> 'w ev_loop \<Rightarrow> 'w ev_loop" where
  "infy_del env w l =
     (let wd = w_wd (watchers l w)
      in if wd < 0 then l
         else
           let l = upd_watcher w (\<lambda>x. x\<lparr>w_wd := -2\<rparr>) l
           in l\<lparr>fs_hash := (fs_hash l)(wd_slot wd := wlist_del (fs_hash l (wd_slot wd)) w),
                ev_world := inotify_rm_watch env (fs_fd l) wd (ev_world l)\<rparr>)"

section \<open>Looking at a path\<close>

definition ev_stat_stat :: "'w ev_env \<Rightarrow> addr \<Rightarrow> 'w ev_loop \<Rightarrow> 'w ev_loop" where
  "ev_stat_stat env w l =
     upd_watcher w
       (\<lambda>x. case lstat env (w_path x) (ev_world l) of
              None \<Rightarrow> x\<lparr>w_attr := (w_attr x)\<lparr>st_nlink := 0\<rparr>\<rparr>
            | Some a \<Rightarrow> x\<lparr>w_attr := (if st_nlink a = 0 then a\<lparr>st_nlink := 1\<rparr> else a)\<rparr>) l"

definition stat_differs :: "ev_statdata \<Rightarrow> ev_statdata \<Rightarrow> bool" where
  "stat_differs prev attr \<longleftrightarrow>
     st_dev prev \<noteq> st_dev attr \<or> st_ino prev \<noteq> st_ino attr \<or> st_mode prev \<noteq> st_mode attr \<or>
     st_nlink prev \<noteq> st_nlink attr \<or> st_uid prev \<noteq> st_uid attr \<or> st_gid prev \<noteq> st_gid attr \<or>
     st_rdev prev \<noteq> st_rdev attr \<or> st_size prev \<noteq> st_size attr \<or> st_atime prev \<noteq> st_atime attr \<or>
     st_mtime prev \<noteq> st_mtime attr \<or> st_ctime prev \<noteq> st_ctime attr"

text \<open>The callback of the timer, for the watcher that the timer belongs to.\<close>

definition stat_check :: "'w ev_env \<Rightarrow> addr \<Rightarrow> 'w ev_loop \<Rightarrow> 'w ev_loop outcome" where
  "stat_check env w l =
     (let prev = w_attr (watchers l w);
          l = ev_stat_stat env w l
      in if stat_differs prev (w_attr (watchers l w))
         then
           let l = upd_watcher w (\<lambda>x. x\<lparr>w_prev := prev\<rparr>) l
           in obind
                (if fs_fd l \<ge> 0
                 then obind (infy_add env w (infy_del env w l)) (\<lambda>l. Ok (ev_stat_stat env w l))
                 else Ok l)
                (\<lambda>l. Ok (ev_feed_event w EV_STAT l))
         else Ok l)"

definition stat_timer_cb :: "'w ev_env \<Rightarrow> addr \<Rightarrow> 'w ev_loop \<Rightarrow> 'w ev_loop outcome" where
  "stat_timer_cb env t l = stat_check env (t - 1) l"

section \<open>Events of the kernel\<close>

text \<open>
  The watchers of one list. The successor is read before a watcher is worked on, which can
  only take that watcher out and put it in at the front of a list, so the walk meets the list as it was.
\<close>

primrec infy_list :: "'w ev_env \<Rightarrow> nat \<Rightarrow> int \<Rightarrow> ev_mask \<Rightarrow> addr list \<Rightarrow> 'w ev_loop \<Rightarrow> 'w ev_loop outcome" where
  "infy_list env slot wd m [] l = Ok l"
| "infy_list env slot wd m (w # ws) l =
     obind
       (if w_wd (watchers l w) = wd \<or> wd = -1
        then
          obind
            (if m AND (IN_IGNORED OR IN_UNMOUNT OR IN_DELETE_SELF) \<noteq> 0
             then infy_add env w (upd_watcher w (\<lambda>x. x\<lparr>w_wd := -1\<rparr>)
                    (l\<lparr>fs_hash := (fs_hash l)(slot := wlist_del (fs_hash l slot) w)\<rparr>))
             else Ok l)
            (stat_check env w)
        else Ok l)
       (infy_list env slot wd m ws)"

primrec infy_slots :: "'w ev_env \<Rightarrow> nat list \<Rightarrow> int \<Rightarrow> ev_mask \<Rightarrow> 'w ev_loop \<Rightarrow> 'w ev_loop outcome" where
  "infy_slots env [] wd m l = Ok l"
| "infy_slots env (s # ss) wd m l = obind (infy_list env s wd m (fs_hash l s) l) (infy_slots env ss wd m)"

definition infy_wd :: "'w ev_env \<Rightarrow> int \<Rightarrow> int \<Rightarrow> ev_mask \<Rightarrow> 'w ev_loop \<Rightarrow> 'w ev_loop outcome" where
  "infy_wd env slot wd m l =
     (if slot < 0 then infy_slots env [0..<nat EV_INOTIFY_HASHSIZE] wd m l
      else infy_slots env [wd_slot slot] wd m l)"

primrec infy_events :: "'w ev_env \<Rightarrow> inotify_event list \<Rightarrow> 'w ev_loop \<Rightarrow> 'w ev_loop outcome" where
  "infy_events env [] l = Ok l"
| "infy_events env (ev # evs) l = obind (infy_wd env (in_wd ev) (in_wd ev) (in_mask ev) l) (infy_events env evs)"

definition infy_cb :: "'w ev_env \<Rightarrow> 'w ev_loop \<Rightarrow> 'w ev_loop outcome" where
  "infy_cb env l =
     (case inotify_read env (fs_fd l) (ev_world l) of (evs, world) \<Rightarrow> infy_events env evs (l\<lparr>ev_world := world\<rparr>))"

section \<open>The descriptor of the kernel's watches\<close>

definition ev_check_2625 :: "'w ev_env \<Rightarrow> 'w ev_loop \<Rightarrow> 'w ev_loop" where
  "ev_check_2625 env l = (if ev_linux_version env l < 0x020619 then l else l\<lparr>fs_2625 := True\<rparr>)"

definition infy_newfd :: "'w ev_env \<Rightarrow> 'w \<Rightarrow> int \<times> 'w" where
  "infy_newfd env world =
     (case inotify_init env True world of
        (fd, world) \<Rightarrow> if fd \<ge> 0 then (fd, world) else inotify_init env False world)"

text \<open>Watching that descriptor does not keep the loop alive.\<close>

definition infy_watch :: "int \<Rightarrow> 'w ev_loop \<Rightarrow> 'w ev_loop outcome" where
  "infy_watch fd l = obind (ev_io_start fs_w (upd_watcher fs_w (ev_io_set fd EV_READ) l)) (\<lambda>l. Ok (ev_unref l))"

definition infy_init :: "'w ev_env \<Rightarrow> 'w ev_loop \<Rightarrow> 'w ev_loop outcome" where
  "infy_init env l =
     (if fs_fd l \<noteq> -2 then Ok l
      else
        let l = ev_check_2625 env (l\<lparr>fs_fd := -1\<rparr>);
            (fd, world) = infy_newfd env (ev_world l);
            l = l\<lparr>fs_fd := fd, ev_world := world\<rparr>
        in if fd \<ge> 0
           then
             obind (ev_io_start fs_w (upd_watcher fs_w
               (\<lambda>x. (ev_io_set fd EV_READ (ev_init Infy_cb x))\<lparr>w_priority := EV_MAXPRI\<rparr>) l)) (\<lambda>l. Ok (ev_unref l))
           else Ok l)"

text \<open>After a fork: a new descriptor, and every watcher is added again or goes back to polling.\<close>

primrec infy_fork_list :: "'w ev_env \<Rightarrow> addr list \<Rightarrow> 'w ev_loop \<Rightarrow> 'w ev_loop outcome" where
  "infy_fork_list env [] l = Ok l"
| "infy_fork_list env (w # ws) l =
     (let l = upd_watcher w (\<lambda>x. x\<lparr>w_wd := -1\<rparr>) l
      in obind
           (if fs_fd l \<ge> 0 then infy_add env w l
            else stat_rearm w (set_repeat w (interval_or DEF_STAT_INTERVAL w l) l))
           (infy_fork_list env ws))"

primrec infy_fork_slots :: "'w ev_env \<Rightarrow> nat list \<Rightarrow> 'w ev_loop \<Rightarrow> 'w ev_loop outcome" where
  "infy_fork_slots env [] l = Ok l"
| "infy_fork_slots env (s # ss) l =
     obind (infy_fork_list env (fs_hash l s) (l\<lparr>fs_hash := (fs_hash l)(s := [])\<rparr>)) (infy_fork_slots env ss)"

definition infy_fork :: "'w ev_env \<Rightarrow> 'w ev_loop \<Rightarrow> 'w ev_loop outcome" where
  "infy_fork env l =
     (if fs_fd l < 0 then Ok l
      else
        obind (ev_io_stop fs_w (ev_ref l)) (\<lambda>l.
          let (fd, world) = infy_newfd env (close_fd env (fs_fd l) (ev_world l));
              l = l\<lparr>fs_fd := fd, ev_world := world\<rparr>
          in obind (if fd \<ge> 0 then infy_watch fd l else Ok l)
               (infy_fork_slots env [0..<nat EV_INOTIFY_HASHSIZE])))"

section \<open>Starting and stopping\<close>

definition ev_stat_set :: "string \<Rightarrow> ev_tstamp \<Rightarrow> ev_watcher \<Rightarrow> ev_watcher" where
  "ev_stat_set path interval x = x\<lparr>w_path := path, w_interval := interval, w_wd := -2\<rparr>"

definition stat_set_timer :: "addr \<Rightarrow> 'w ev_loop \<Rightarrow> 'w ev_loop" where
  "stat_set_timer w l =
     upd_watcher (stat_timer w)
       (\<lambda>x. (ev_timer_set 0 (interval_or DEF_STAT_INTERVAL w l) (ev_init Stat_timer_cb x))
          \<lparr>w_priority := w_priority (watchers l w)\<rparr>) l"

definition ev_stat_start :: "'w ev_env \<Rightarrow> addr \<Rightarrow> 'w ev_loop \<Rightarrow> 'w ev_loop outcome" where
  "ev_stat_start env w l =
     (if ev_is_active w l then Ok l
      else
        let l = ev_stat_stat env w l;
            l = (if w_interval (watchers l w) < MIN_STAT_INTERVAL \<and> w_interval (watchers l w) \<noteq> 0
                 then upd_watcher w (\<lambda>x. x\<lparr>w_interval := MIN_STAT_INTERVAL\<rparr>) l else l);
            l = stat_set_timer w l
        in obind (infy_init env l) (\<lambda>l.
           obind
             (if fs_fd l \<ge> 0 then infy_add env w l
              else obind (ev_timer_again (stat_timer w) l) (\<lambda>l. Ok (ev_unref l)))
             (\<lambda>l. Ok (ev_start w 1 l))))"

definition ev_stat_stop :: "'w ev_env \<Rightarrow> addr \<Rightarrow> 'w ev_loop \<Rightarrow> 'w ev_loop outcome" where
  "ev_stat_stop env w l =
     (let l = clear_pending w l
      in if \<not> ev_is_active w l then Ok l
         else
           let l = infy_del env w l
           in obind
                (if ev_is_active (stat_timer w) l then ev_timer_stop (stat_timer w) (ev_ref l) else Ok l)
                (\<lambda>l. Ok (ev_stop w l)))"

end
