(* ===== verification/Ev_Loop.thy ===== *)
theory Ev_Loop
  imports Ev_Event Ev_Stat
begin

unbundle bit_operations_syntax

text \<open>
  The loop itself (\<^verbatim>\<open>src/deps/ev/ev.c\<close>): making and forking one, one-shot watches, calling
  the pending watchers, \<open>ev_run\<close> and the self-check.
\<close>

section \<open>A new loop\<close>

definition zero_stat :: ev_statdata where
  "zero_stat = \<lparr>st_dev = 0, st_ino = 0, st_mode = 0, st_nlink = 0, st_uid = 0, st_gid = 0, st_rdev = 0, st_size = 0,
     st_atime = 0, st_mtime = 0, st_ctime = 0, st_blocks = 0\<rparr>"

definition zero_watcher :: ev_watcher where
  "zero_watcher = \<lparr>w_active = 0, w_pending = 0, w_priority = 0, w_cb = Pendingcb, w_at = 0, w_fd = 0,
     w_events = 0, w_repeat = 0, w_offset = 0, w_interval = 0, w_reschedule_cb = None, w_sent = False,
     w_signum = 0, w_pid = 0, w_flags = 0, w_rpid = 0, w_rstatus = 0, w_path = [], w_prev = zero_stat,
     w_attr = zero_stat, w_wd = 0\<rparr>"

definition no_signal :: ansig where
  "no_signal = \<lparr>sig_flag = False, sig_loop = False, sig_head = []\<rparr>"

definition zero_event :: event where
  "zero_event = \<lparr>ev_base = False, ev_callback = 0, ev_arg = 0, ev_fd = 0, ev_pri = 0, ev_res = 0, ev_flags = 0,
     ev_events = 0\<rparr>"

text \<open>\<open>ev_loop_new\<close> clears the structure; the watchers of the user are where they are.\<close>

definition zero_loop :: "(addr \<Rightarrow> ev_watcher) \<Rightarrow> 'w \<Rightarrow> 'w ev_loop" where
  "zero_loop ws world = \<lparr>ev_rt_now = 0, now_floor = 0, mn_now = 0, rtmn_diff = 0, io_blocktime = 0,
     timeout_blocktime = 0, backend = 0, activecnt = 0, loop_done = 0, backend_fd = 0, backend_mintime = 0, backend_modify = Poll_modify,
     backend_poll = Poll_poll, anfds = [], pendings = (\<lambda>_. []), rfeeds = [], pipe_write_wanted = False,
     pipe_write_skipped = False, pipe_bytes = 0, postfork = False, vec_ri = [], vec_wi = [],
     polls = [], pollidxs = [],
     epoll_eventmax = 0, epoll_eperms = [], kqueue_changes = [], kqueue_eventmax = 0, port_eventmax = 0, fdchanges = [],
     timers = (\<lambda>_. \<lparr>he_at = 0, he_w = 0\<rparr>), timercnt = 0, periodics = (\<lambda>_. \<lparr>he_at = 0, he_w = 0\<rparr>),
     periodiccnt = 0, idles = (\<lambda>_. []), idleall = 0, prepares = [], checks = [], forks = [], cleanups = [],
     async_pending = False, asyncs = [], sig_pending = False,
     signals = replicate (nat (EV_NSIG - 1)) no_signal, childs = (\<lambda>_. []), fs_fd = 0, fs_2625 = False, fs_hash = (\<lambda>_. []),
     sigfd = 0, sigfd_set = [], onces = (\<lambda>_. None), x_cur = False,
     x_events = (\<lambda>_. zero_event), x_onces = (\<lambda>_. None), curpid = 0, origflags = 0,
     loop_count = 0, loop_depth = 0, userdata = 0, watchers = ws, ev_world = world\<rparr>"

text \<open>
  The backends that are compiled in, those that work well on systems other than NetBSD, FreeBSD and Apple's,
  and those whose descriptor another loop can watch.
\<close>

definition ev_supported_backends :: "'w ev_env \<Rightarrow> ev_mask" where
  "ev_supported_backends env =
     (if use_port env then EVBACKEND_PORT else 0) OR (if use_kqueue env then EVBACKEND_KQUEUE else 0) OR
     (if use_epoll env then EVBACKEND_EPOLL else 0) OR EVBACKEND_POLL OR EVBACKEND_SELECT"

definition ev_recommended_backends :: "'w ev_env \<Rightarrow> ev_mask" where
  "ev_recommended_backends env = ev_supported_backends env AND NOT EVBACKEND_KQUEUE"

definition ev_embeddable_backends :: "'w ev_env \<Rightarrow> 'w ev_loop \<Rightarrow> ev_mask" where
  "ev_embeddable_backends env l =
     (let flags = EVBACKEND_EPOLL OR EVBACKEND_KQUEUE OR EVBACKEND_PORT
      in if ev_linux_version env l < 0x020620 then flags AND NOT EVBACKEND_EPOLL else flags)"

definition ev_backend :: "'w ev_loop \<Rightarrow> ev_mask" where
  "ev_backend l = backend l"

definition ev_now :: "'w ev_loop \<Rightarrow> ev_tstamp" where
  "ev_now l = ev_rt_now l"

definition ev_iteration :: "'w ev_loop \<Rightarrow> 32 word" where
  "ev_iteration l = loop_count l"

definition ev_depth :: "'w ev_loop \<Rightarrow> 32 word" where
  "ev_depth l = loop_depth l"

definition ev_set_io_collect_interval :: "ev_tstamp \<Rightarrow> 'w ev_loop \<Rightarrow> 'w ev_loop" where
  "ev_set_io_collect_interval interval l = l\<lparr>io_blocktime := interval\<rparr>"

definition ev_set_timeout_collect_interval :: "ev_tstamp \<Rightarrow> 'w ev_loop \<Rightarrow> 'w ev_loop" where
  "ev_set_timeout_collect_interval interval l = l\<lparr>timeout_blocktime := interval\<rparr>"

definition ev_set_userdata :: "nat \<Rightarrow> 'w ev_loop \<Rightarrow> 'w ev_loop" where
  "ev_set_userdata data l = l\<lparr>userdata := data\<rparr>"

definition ev_userdata :: "'w ev_loop \<Rightarrow> nat" where
  "ev_userdata l = userdata l"

text \<open>
  Choosing a backend: the first of port, kqueue, epoll, poll and select that is compiled in, that the flags ask for and that
  initialises; with no backend in the flags, the recommended ones.
\<close>

definition try_backend :: "bool \<Rightarrow> ('w ev_loop \<Rightarrow> ev_mask \<times> 'w ev_loop) \<Rightarrow> 'w ev_loop \<Rightarrow> 'w ev_loop" where
  "try_backend wanted init l =
     (if wanted \<and> backend l = 0 then case init l of (b, l) \<Rightarrow> l\<lparr>backend := b\<rparr> else l)"

definition start_backend :: "'w ev_env \<Rightarrow> ev_mask \<Rightarrow> 'w ev_loop \<Rightarrow> 'w ev_loop" where
  "start_backend env flags l =
     (let flags = (if flags AND EVBACKEND_MASK = 0 then flags OR ev_recommended_backends env else flags);
          l = try_backend (use_port env \<and> flags AND EVBACKEND_PORT \<noteq> 0) (port_init env) l;
          l = try_backend (use_kqueue env \<and> flags AND EVBACKEND_KQUEUE \<noteq> 0) (kqueue_init env) l;
          l = try_backend (use_epoll env \<and> flags AND EVBACKEND_EPOLL \<noteq> 0) (epoll_init env) l;
          l = try_backend (flags AND EVBACKEND_POLL \<noteq> 0) poll_init l
      in try_backend (flags AND EVBACKEND_SELECT \<noteq> 0) select_init l)"

definition loop_init :: "'w ev_env \<Rightarrow> ev_mask \<Rightarrow> 'w ev_loop \<Rightarrow> 'w ev_loop" where
  "loop_init env flags l =
     (if backend l \<noteq> 0 then l
      else
        let l = l\<lparr>origflags := flags\<rparr>;
            l = (if flags AND EVFLAG_FORKCHECK \<noteq> 0 then l\<lparr>curpid := ev_getpid env (ev_world l)\<rparr> else l);
            flags = (if flags AND EVFLAG_NOENV = 0
                     then case libev_flags env (ev_world l) of Some f \<Rightarrow> f | None \<Rightarrow> flags
                     else flags);
            l = read_clock env (read_time env l);
            l = l\<lparr>now_floor := mn_now l, rtmn_diff := ev_rt_now l - mn_now l, io_blocktime := 0,
                  timeout_blocktime := 0, backend := 0, backend_fd := -1, sig_pending := False, async_pending := False,
                  pipe_write_skipped := False, pipe_write_wanted := False,
                  fs_fd := (if flags AND EVFLAG_NOINOTIFY \<noteq> 0 then -1 else -2),
                  sigfd := (if flags AND EVFLAG_SIGNALFD \<noteq> 0 then -2 else -1)\<rparr>;
            l = start_backend env flags l;
            l = upd_watcher pending_w (ev_init Pendingcb) l
        in upd_watcher pipe_w (\<lambda>x. (ev_init Pipecb x)\<lparr>w_priority := EV_MAXPRI\<rparr>) l)"

text \<open>NULL is \<open>None\<close>.\<close>

definition ev_loop_new :: "'w ev_env \<Rightarrow> ev_mask \<Rightarrow> (addr \<Rightarrow> ev_watcher) \<Rightarrow> 'w \<Rightarrow> 'w ev_loop option" where
  "ev_loop_new env flags ws world =
     (let l = loop_init env flags (zero_loop ws world) in if ev_backend l \<noteq> 0 then Some l else None)"

definition loop_fork :: "'w ev_env \<Rightarrow> 'w ev_loop \<Rightarrow> 'w ev_loop outcome" where
  "loop_fork env l =
     obind
       (if backend l = EVBACKEND_PORT then port_fork env l
        else if backend l = EVBACKEND_KQUEUE then kqueue_fork env l
        else if backend l = EVBACKEND_EPOLL then epoll_fork env l
        else Ok l) (\<lambda>l.
     obind (infy_fork env l) (\<lambda>l.
     obind
       (if ev_is_active pipe_w l
        then obind (ev_io_stop pipe_w (ev_ref l)) (\<lambda>l.
             obind (evpipe_init env (l\<lparr>ev_world := close_fd env (w_fd (watchers l pipe_w)) (ev_world l)\<rparr>)) (\<lambda>l.
             pipecb EV_READ l))
        else Ok l)
       (\<lambda>l. Ok (l\<lparr>postfork := False\<rparr>))))"

definition ev_loop_fork :: "'w ev_loop \<Rightarrow> 'w ev_loop" where
  "ev_loop_fork l = l\<lparr>postfork := True\<rparr>"

text \<open>\<open>dl\<close> is the default loop when there is one already.\<close>

definition ev_default_loop ::
  "'w ev_env \<Rightarrow> ev_mask \<Rightarrow> int \<Rightarrow> (addr \<Rightarrow> ev_watcher) \<Rightarrow> 'w \<Rightarrow> 'w ev_loop option \<Rightarrow> 'w ev_loop option outcome" where
  "ev_default_loop env flags sigchld ws world dl =
     (case dl of
        Some l \<Rightarrow> Ok (Some l)
      | None \<Rightarrow>
          let l = loop_init env flags (zero_loop ws world)
          in if ev_backend l \<noteq> 0
             then
               let l = upd_watcher childev (\<lambda>x. (ev_init Childcb x)\<lparr>w_signum := sigchld, w_priority := EV_MAXPRI\<rparr>) l
               in obind (ev_signal_start env childev l) (\<lambda>l. Ok (Some (ev_unref l)))
             else Ok None)"

section \<open>One-shot watches\<close>

text \<open>
  \<open>struct ev_once\<close> starts with its io watcher; its timer is the next address. The user's
  callback and its argument are in \<open>onces\<close>.
\<close>

definition ev_break :: "int \<Rightarrow> 'w ev_loop \<Rightarrow> 'w ev_loop" where
  "ev_break how l = l\<lparr>loop_done := how\<rparr>"

text \<open>The callback of \<open>event_base_loopexit\<close>, and any callback of a one-shot watch.\<close>

definition ev_x_loopexit_cb :: "'w ev_loop \<Rightarrow> 'w ev_loop" where
  "ev_x_loopexit_cb l = ev_break EVBREAK_ONE l"

definition call_once :: "'w ev_env \<Rightarrow> once_callback \<Rightarrow> ev_mask \<Rightarrow> nat \<Rightarrow> 'w ev_loop \<Rightarrow> 'w ev_loop outcome" where
  "call_once env cb revents arg l =
     (case cb of
        Ev_x_loopexit_cb \<Rightarrow> Ok (ev_x_loopexit_cb l)
      | Ev_x_once_cb \<Rightarrow> ev_x_once_cb env revents arg l
      | User_once k \<Rightarrow> user_once env k revents arg l)"

definition once_to :: "addr \<Rightarrow> addr" where "once_to w = w + 1"

definition once_cb :: "'w ev_env \<Rightarrow> addr \<Rightarrow> ev_mask \<Rightarrow> 'w ev_loop \<Rightarrow> 'w ev_loop outcome" where
  "once_cb env once revents l =
     (case onces l once of
        None \<Rightarrow> Fault Use_after_free
      | Some (cb, arg) \<Rightarrow>
          obind (ev_io_stop once l) (\<lambda>l.
          obind (ev_timer_stop (once_to once) l) (\<lambda>l.
          call_once env cb revents arg (l\<lparr>onces := (onces l)(once := None)\<rparr>))))"

definition once_cb_io :: "'w ev_env \<Rightarrow> addr \<Rightarrow> ev_mask \<Rightarrow> 'w ev_loop \<Rightarrow> 'w ev_loop outcome" where
  "once_cb_io env w revents l =
     (case ev_clear_pending (once_to w) l of (e, l) \<Rightarrow> once_cb env w (revents OR e) l)"

definition once_cb_to :: "'w ev_env \<Rightarrow> addr \<Rightarrow> ev_mask \<Rightarrow> 'w ev_loop \<Rightarrow> 'w ev_loop outcome" where
  "once_cb_to env w revents l =
     (case ev_clear_pending (w - 1) l of (e, l) \<Rightarrow> once_cb env (w - 1) (revents OR e) l)"

definition ev_once ::
  "'w ev_env \<Rightarrow> int \<Rightarrow> ev_mask \<Rightarrow> ev_tstamp \<Rightarrow> once_callback \<Rightarrow> nat \<Rightarrow> 'w ev_loop \<Rightarrow> 'w ev_loop outcome" where
  "ev_once env fd events timeout cb arg l =
     (case alloc_once env (ev_world l) of
        (None, world) \<Rightarrow>
          call_once env cb (EV_ERROR OR EV_READ OR EV_WRITE OR EV_TIMER) arg (l\<lparr>ev_world := world\<rparr>)
      | (Some once, world) \<Rightarrow>
          let l = l\<lparr>ev_world := world, onces := (onces l)(once \<mapsto> (cb, arg))\<rparr>;
              l = upd_watcher once (ev_init Once_cb_io) l
          in obind (if fd \<ge> 0 then ev_io_start once (upd_watcher once (ev_io_set fd events) l) else Ok l) (\<lambda>l.
             let l = upd_watcher (once_to once) (ev_init Once_cb_to) l
             in if timeout \<ge> 0
                then ev_timer_start (once_to once) (upd_watcher (once_to once) (ev_timer_set timeout 0) l)
                else Ok l))"

section \<open>Calling the pending watchers\<close>

definition ev_invoke :: "'w ev_env \<Rightarrow> addr \<Rightarrow> ev_mask \<Rightarrow> 'w ev_loop \<Rightarrow> 'w ev_loop outcome" where
  "ev_invoke env w revents l =
     (case w_cb (watchers l w) of
        Pendingcb \<Rightarrow> Ok l
      | Pipecb \<Rightarrow> pipecb revents l
      | Childcb \<Rightarrow> childcb env w l
      | Once_cb_io \<Rightarrow> once_cb_io env w revents l
      | Once_cb_to \<Rightarrow> once_cb_to env w revents l
      | Stat_timer_cb \<Rightarrow> stat_timer_cb env w l
      | Infy_cb \<Rightarrow> infy_cb env l
      | Sigfdcb \<Rightarrow> sigfdcb env l
      | Ev_x_cb_sig \<Rightarrow> ev_x_cb_sig env w revents l
      | Ev_x_cb_io \<Rightarrow> ev_x_cb_io env w revents l
      | Ev_x_cb_to \<Rightarrow> ev_x_cb_to env w revents l
      | Embed_io_cb \<Rightarrow> embed_cb env Embed_io_cb w l
      | Embed_prepare_cb \<Rightarrow> embed_cb env Embed_prepare_cb w l
      | Embed_fork_cb \<Rightarrow> embed_cb env Embed_fork_cb w l
      | Null_cb \<Rightarrow> Fault Null_deref
      | User_cb k \<Rightarrow> user_cb env k w revents l)"

definition pop_pending :: "nat \<Rightarrow> 'w ev_loop \<Rightarrow> 'w ev_loop" where
  "pop_pending pri l =
     upd_watcher (fst (last (pendings l pri))) (\<lambda>x. x\<lparr>w_pending := 0\<rparr>)
       (l\<lparr>pendings := (pendings l)(pri := butlast (pendings l pri))\<rparr>)"

text \<open>
  \<open>while (pendingcnt [pri])\<close>: a callback may feed events again, so the loop may run for
  ever; the fuel bounds the number of calls.
\<close>

primrec invoke_level :: "'w ev_env \<Rightarrow> nat \<Rightarrow> nat \<Rightarrow> 'w ev_loop \<Rightarrow> 'w ev_loop outcome" where
  "invoke_level env 0 pri l = (if pendings l pri = [] then Ok l else Fault Out_of_fuel)"
| "invoke_level env (Suc n) pri l =
     (if pendings l pri = [] then Ok l
      else
        let p = last (pendings l pri)
        in obind (ev_invoke env (fst p) (snd p) (pop_pending pri l)) (invoke_level env n pri))"

primrec invoke_levels :: "'w ev_env \<Rightarrow> nat \<Rightarrow> nat \<Rightarrow> 'w ev_loop \<Rightarrow> 'w ev_loop outcome" where
  "invoke_levels env n 0 l = Ok l"
| "invoke_levels env n (Suc pri) l = obind (invoke_level env n pri l) (invoke_levels env n pri)"

definition ev_invoke_pending :: "'w ev_env \<Rightarrow> nat \<Rightarrow> 'w ev_loop \<Rightarrow> 'w ev_loop outcome" where
  "ev_invoke_pending env fuel l = invoke_levels env fuel NUMPRI l"

primrec idle_level :: "nat \<Rightarrow> 'w ev_loop \<Rightarrow> 'w ev_loop" where
  "idle_level 0 l = l"
| "idle_level (Suc pri) l =
     (if pendings l pri \<noteq> [] then l
      else if idles l pri \<noteq> [] then queue_events (idles l pri) EV_IDLE l
      else idle_level pri l)"

definition idle_reify :: "'w ev_loop \<Rightarrow> 'w ev_loop" where
  "idle_reify l = (if idleall l \<noteq> 0 then idle_level NUMPRI l else l)"

section \<open>Running\<close>

definition call_backend_poll :: "'w ev_env \<Rightarrow> ev_tstamp \<Rightarrow> 'w ev_loop \<Rightarrow> 'w ev_loop outcome" where
  "call_backend_poll env timeout l =
     (case backend_poll l of
        Poll_poll \<Rightarrow> poll_poll env timeout l
      | Select_poll \<Rightarrow> select_poll env timeout l
      | Epoll_poll \<Rightarrow> epoll_poll env timeout l
      | Kqueue_poll \<Rightarrow> kqueue_poll env timeout l
      | Port_poll \<Rightarrow> port_poll env timeout l
      | User_poll k \<Rightarrow> user_poll env k timeout l)"

text \<open>The fork check and the fork and prepare watchers at the start of a round.\<close>

definition run_prepare :: "'w ev_env \<Rightarrow> nat \<Rightarrow> 'w ev_loop \<Rightarrow> 'w ev_loop outcome" where
  "run_prepare env fuel l =
     (let pid = ev_getpid env (ev_world l);
          l = (if curpid l \<noteq> 0 \<and> pid \<noteq> curpid l then l\<lparr>curpid := pid, postfork := True\<rparr> else l)
      in obind
           (if postfork l \<and> forks l \<noteq> [] then ev_invoke_pending env fuel (queue_events (forks l) EV_FORK l) else Ok l)
           (\<lambda>l. if prepares l \<noteq> [] then ev_invoke_pending env fuel (queue_events (prepares l) EV_PREPARE l) else Ok l))"

definition run_nowait :: "ev_mask \<Rightarrow> 'w ev_loop \<Rightarrow> bool" where
  "run_nowait flags l \<longleftrightarrow>
     flags AND EVRUN_NOWAIT \<noteq> 0 \<or> idleall l \<noteq> 0 \<or> activecnt l = 0 \<or> pipe_write_skipped l"

text \<open>How long the backend may block, before the io collect interval.\<close>

definition block_time :: "'w ev_loop \<Rightarrow> ev_tstamp" where
  "block_time l =
     (let waittime = MAX_BLOCKTIME;
          waittime =
            (if timercnt l \<noteq> 0
             then let to = he_at (timers l HEAP0) - mn_now l in if waittime > to then to else waittime
             else waittime);
          waittime =
            (if periodiccnt l \<noteq> 0
             then let to = he_at (periodics l HEAP0) - ev_rt_now l in if waittime > to then to else waittime
             else waittime);
          waittime = (if waittime < timeout_blocktime l then timeout_blocktime l else waittime)
      in if waittime < backend_mintime l then backend_mintime l else waittime)"

definition sleep_time :: "ev_tstamp \<Rightarrow> ev_tstamp \<Rightarrow> 'w ev_loop \<Rightarrow> ev_tstamp" where
  "sleep_time prev_mn_now waittime l =
     (if io_blocktime l \<noteq> 0
      then let s = io_blocktime l - (mn_now l - prev_mn_now)
           in if s > waittime - backend_mintime l then waittime - backend_mintime l else s
      else 0)"

text \<open>Blocking: the pipe is watched, the backend is asked, the clocks are read.\<close>

definition run_poll :: "'w ev_env \<Rightarrow> ev_mask \<Rightarrow> 'w ev_loop \<Rightarrow> 'w ev_loop outcome" where
  "run_poll env flags l =
     (let prev_mn_now = mn_now l
      in obind (time_update env (10 ^ 100) l) (\<lambda>l.
         let l = l\<lparr>pipe_write_wanted := True\<rparr>;
             nowait = run_nowait flags l;
             waittime = (if nowait then 0 else block_time l);
             sleeptime = (if nowait then 0 else sleep_time prev_mn_now waittime l);
             l = (if sleeptime > 0 then l\<lparr>ev_world := ev_sleep env sleeptime (ev_world l)\<rparr> else l);
             waittime = (if sleeptime > 0 then waittime - sleeptime else waittime);
             l = l\<lparr>loop_count := loop_count l + 1, loop_done := EVBREAK_RECURSE\<rparr>
         in obind (call_backend_poll env waittime l) (\<lambda>l.
            let l = l\<lparr>loop_done := EVBREAK_CANCEL, pipe_write_wanted := False\<rparr>
            in obind
                 (if pipe_write_skipped l
                  then obind (g_assert (ev_is_active pipe_w l)) (\<lambda>_. Ok (ev_feed_event pipe_w EV_CUSTOM l))
                  else Ok l)
                 (time_update env (waittime + sleeptime)))))"

definition run_reify :: "'w ev_env \<Rightarrow> 'w ev_loop \<Rightarrow> 'w ev_loop outcome" where
  "run_reify env l =
     obind (timers_reify l) (\<lambda>l.
     obind (periodics_reify env l) (\<lambda>l.
       let l = idle_reify l
       in Ok (if checks l \<noteq> [] then queue_events (checks l) EV_CHECK l else l)))"

text \<open>One round; the answer tells whether it came to its end or broke off after \<open>prepare\<close>.\<close>

definition run_round :: "'w ev_env \<Rightarrow> nat \<Rightarrow> ev_mask \<Rightarrow> 'w ev_loop \<Rightarrow> (bool \<times> 'w ev_loop) outcome" where
  "run_round env fuel flags l =
     obind (run_prepare env fuel l) (\<lambda>l.
       if loop_done l \<noteq> 0 then Ok (False, l)
       else
         obind (if postfork l then loop_fork env l else Ok l) (\<lambda>l.
         obind (fd_reify env l) (\<lambda>l.
         obind (run_poll env flags l) (\<lambda>l.
         obind (run_reify env l) (\<lambda>l.
         obind (ev_invoke_pending env fuel l) (\<lambda>l. Ok (True, l)))))))"

definition run_again :: "ev_mask \<Rightarrow> 'w ev_loop \<Rightarrow> bool" where
  "run_again flags l \<longleftrightarrow>
     activecnt l \<noteq> 0 \<and> loop_done l = 0 \<and> flags AND (EVRUN_ONCE OR EVRUN_NOWAIT) = 0"

text \<open>The loop may run for ever: the fuel bounds its rounds.\<close>

primrec run_rounds :: "'w ev_env \<Rightarrow> nat \<Rightarrow> nat \<Rightarrow> ev_mask \<Rightarrow> 'w ev_loop \<Rightarrow> 'w ev_loop outcome" where
  "run_rounds env fuel 0 flags l = Fault Out_of_fuel"
| "run_rounds env fuel (Suc n) flags l =
     obind (run_round env fuel flags l) (\<lambda>(whole, l).
       if whole \<and> run_again flags l then run_rounds env fuel n flags l else Ok l)"

definition ev_run :: "'w ev_env \<Rightarrow> nat \<Rightarrow> nat \<Rightarrow> ev_mask \<Rightarrow> 'w ev_loop \<Rightarrow> 'w ev_loop outcome" where
  "ev_run env fuel rounds flags l =
     (let l = l\<lparr>loop_depth := loop_depth l + 1\<rparr>
      in obind (g_assert (loop_done l \<noteq> EVBREAK_RECURSE)) (\<lambda>_.
         obind (ev_invoke_pending env fuel (l\<lparr>loop_done := EVBREAK_CANCEL\<rparr>)) (\<lambda>l.
         obind (run_rounds env fuel rounds flags l) (\<lambda>l.
           let l = (if loop_done l = EVBREAK_ONE then l\<lparr>loop_done := EVBREAK_CANCEL\<rparr> else l)
           in Ok (l\<lparr>loop_depth := loop_depth l - 1\<rparr>)))))"

section \<open>The end of a loop\<close>

text \<open>\<open>ev_loop_destroy\<close>: cleanup watchers run, the descriptors of the loop are closed, everything is released.\<close>

definition close_if :: "'w ev_env \<Rightarrow> bool \<Rightarrow> int \<Rightarrow> 'w ev_loop \<Rightarrow> 'w ev_loop" where
  "close_if env b fd l = (if b then l\<lparr>ev_world := close_fd env fd (ev_world l)\<rparr> else l)"

definition close_all :: "'w ev_env \<Rightarrow> 'w ev_loop \<Rightarrow> 'w ev_loop" where
  "close_all env l =
     (let l = close_if env (ev_is_active pipe_w l) (w_fd (watchers l pipe_w)) l;
          l = close_if env (ev_is_active sigfd_w l) (sigfd l) l;
          l = close_if env (fs_fd l \<ge> 0) (fs_fd l) l
      in close_if env (backend_fd l \<ge> 0) (backend_fd l) l)"

definition ev_loop_destroy :: "'w ev_env \<Rightarrow> nat \<Rightarrow> 'w ev_loop \<Rightarrow> 'w ev_loop outcome" where
  "ev_loop_destroy env fuel l =
     obind
       (if cleanups l \<noteq> [] then ev_invoke_pending env fuel (queue_events (cleanups l) EV_CLEANUP l) else Ok l)
       (\<lambda>l. obind
          (if ev_is_active childev l then ev_signal_stop env childev (ev_ref l) else Ok l)
          (\<lambda>l. Ok ((close_all env l)\<lparr>pollidxs := [], polls := [], vec_ri := [], vec_wi := [], epoll_eperms := [], kqueue_changes := [], pendings := (\<lambda>_. []), idles := (\<lambda>_. []), anfds := [],
                rfeeds := [], fdchanges := [], timercnt := 0, periodiccnt := 0, forks := [], cleanups := [],
                prepares := [], checks := [], asyncs := [], backend := 0\<rparr>)))"

section \<open>The self-check\<close>

definition verify_watcher :: "addr \<Rightarrow> 'w ev_loop \<Rightarrow> unit outcome" where
  "verify_watcher w l =
     (let x = watchers l w
      in obind (g_assert (w_priority x - EV_MINPRI \<ge> 0 \<and> w_priority x - EV_MINPRI < int NUMPRI)) (\<lambda>_.
         if w_pending x \<noteq> 0
         then if w_pending x > length (pendings l (abspri x)) then Fault Out_of_bounds
              else g_assert (fst (pendings l (abspri x) ! (w_pending x - 1)) = w)
         else Ok ()))"

primrec verify_heap :: "(nat \<Rightarrow> anhe) \<Rightarrow> nat list \<Rightarrow> 'w ev_loop \<Rightarrow> unit outcome" where
  "verify_heap heap [] l = Ok ()"
| "verify_heap heap (i # is) l =
     obind (g_assert (w_active (watchers l (he_w (heap i))) = i)) (\<lambda>_.
     obind (g_assert (i = HEAP0 \<or> he_at (heap (HPARENT i)) \<le> he_at (heap i))) (\<lambda>_.
     obind (g_assert (he_at (heap i) = w_at (watchers l (he_w (heap i))))) (\<lambda>_.
     obind (verify_watcher (he_w (heap i)) l) (\<lambda>_. verify_heap heap is l))))"

primrec array_verify :: "nat list \<Rightarrow> addr list \<Rightarrow> 'w ev_loop \<Rightarrow> unit outcome" where
  "array_verify [] ws l = Ok ()"
| "array_verify (i # is) ws l =
     obind (g_assert (w_active (watchers l (ws ! i)) = i + 1)) (\<lambda>_.
     obind (verify_watcher (ws ! i) l) (\<lambda>_. array_verify is ws l))"

definition verify_array :: "addr list \<Rightarrow> 'w ev_loop \<Rightarrow> unit outcome" where
  "verify_array ws l = array_verify (rev [0..<length ws]) ws l"

primrec verify_ios :: "nat \<Rightarrow> addr list \<Rightarrow> 'w ev_loop \<Rightarrow> unit outcome" where
  "verify_ios fd [] l = Ok ()"
| "verify_ios fd (w # ws) l =
     obind (verify_watcher w l) (\<lambda>_.
     obind (g_assert (w_active (watchers l w) = 1)) (\<lambda>_.
     obind (g_assert (w_fd (watchers l w) = int fd)) (\<lambda>_. verify_ios fd ws l)))"

primrec verify_fds :: "nat list \<Rightarrow> 'w ev_loop \<Rightarrow> unit outcome" where
  "verify_fds [] l = Ok ()"
| "verify_fds (fd # fds) l =
     obind (verify_ios fd (fd_head (anfds l ! fd)) l) (\<lambda>_. verify_fds fds l)"

primrec verify_idles :: "nat \<Rightarrow> 'w ev_loop \<Rightarrow> unit outcome" where
  "verify_idles 0 l = Ok ()"
| "verify_idles (Suc pri) l =
     obind (g_assert (idleall l \<ge> 0)) (\<lambda>_.
     obind (verify_array (idles l pri) l) (\<lambda>_. verify_idles pri l))"

definition ev_verify :: "'w ev_loop \<Rightarrow> unit outcome" where
  "ev_verify l =
     obind (g_assert (activecnt l \<ge> -1)) (\<lambda>_.
     obind (verify_fds [0..<length (anfds l)] l) (\<lambda>_.
     obind (verify_heap (timers l) [HEAP0..<timercnt l + HEAP0] l) (\<lambda>_.
     obind (verify_heap (periodics l) [HEAP0..<periodiccnt l + HEAP0] l) (\<lambda>_.
     obind (verify_idles NUMPRI l) (\<lambda>_.
     obind (verify_array (forks l) l) (\<lambda>_.
     obind (verify_array (cleanups l) l) (\<lambda>_.
     obind (verify_array (asyncs l) l) (\<lambda>_.
     obind (verify_array (prepares l) l) (\<lambda>_. verify_array (checks l) l)))))))))"

end
