(* ===== verification/Ev_Verify.thy ===== *)
theory Ev_Verify
  imports Ev_Loop "HOL-Library.Multiset"
begin

unbundle bit_operations_syntax

text \<open>
  The invariant that \<open>ev_verify\<close> checks: every container of the loop holds watchers of its
  own type, at the places their \<open>active\<close> names. Starting and stopping keep it; for the
  arrays of watchers this is shown once, for anything that adds and removes the way they do.
\<close>

section \<open>A well-typed loop\<close>

text \<open>The type of the object at an address never changes.\<close>

datatype watcher_type = Io_watcher | Timer_watcher | Periodic_watcher | Idle_watcher | Prepare_watcher
  | Check_watcher | Fork_watcher | Cleanup_watcher | Async_watcher | Signal_watcher | Child_watcher | Stat_watcher | Embed_watcher

definition good_pri :: "ev_watcher \<Rightarrow> bool" where
  "good_pri x \<longleftrightarrow> EV_MINPRI \<le> w_priority x \<and> w_priority x \<le> EV_MAXPRI"

definition array_typed :: "(addr \<Rightarrow> watcher_type) \<Rightarrow> watcher_type \<Rightarrow> addr list \<Rightarrow> (addr \<Rightarrow> ev_watcher) \<Rightarrow> bool" where
  "array_typed K k xs ws \<longleftrightarrow>
     (\<forall>i < length xs. K (xs ! i) = k \<and> w_active (ws (xs ! i)) = i + 1 \<and> good_pri (ws (xs ! i)))"

definition heap_typed ::
  "(addr \<Rightarrow> watcher_type) \<Rightarrow> watcher_type \<Rightarrow> nat \<Rightarrow> (nat \<Rightarrow> anhe) \<Rightarrow> (addr \<Rightarrow> ev_watcher) \<Rightarrow> bool" where
  "heap_typed K k n v ws \<longleftrightarrow> heap_ok n v ws \<and> cache_ok (heap_entries n v) ws \<and>
     (\<forall>he \<in> heap_entries n v. K (he_w he) = k \<and> good_pri (ws (he_w he)))"

definition io_typed :: "(addr \<Rightarrow> watcher_type) \<Rightarrow> anfd list \<Rightarrow> (addr \<Rightarrow> ev_watcher) \<Rightarrow> bool" where
  "io_typed K as ws \<longleftrightarrow> (\<forall>fd < length as. \<forall>w \<in> set (fd_head (as ! fd)).
     K w = Io_watcher \<and> w_active (ws w) = 1 \<and> w_fd (ws w) = int fd \<and> good_pri (ws w))"

definition loop_typed :: "(addr \<Rightarrow> watcher_type) \<Rightarrow> 'w ev_loop \<Rightarrow> bool" where
  "loop_typed K l \<longleftrightarrow>
     pending_ok l \<and> io_typed K (anfds l) (watchers l) \<and>
     heap_typed K Timer_watcher (timercnt l) (timers l) (watchers l) \<and>
     heap_typed K Periodic_watcher (periodiccnt l) (periodics l) (watchers l) \<and>
     (\<forall>pri < NUMPRI. array_typed K Idle_watcher (idles l pri) (watchers l)) \<and>
     array_typed K Prepare_watcher (prepares l) (watchers l) \<and>
     array_typed K Check_watcher (checks l) (watchers l) \<and>
     array_typed K Fork_watcher (forks l) (watchers l) \<and>
     array_typed K Cleanup_watcher (cleanups l) (watchers l) \<and>
     array_typed K Async_watcher (asyncs l) (watchers l)"

section \<open>The self-check accepts it\<close>

lemma verify_watcher_ok:
  assumes "pending_ok l" and "good_pri (watchers l w)"
  shows "verify_watcher w l = Ok ()"
proof -
  note d = refs_okD(1,2) [OF assms(1) [unfolded pending_ok_def], of w]
  show ?thesis
    using assms(2) d by (auto simp: verify_watcher_def good_pri_def Let_def EV_MINPRI_def EV_MAXPRI_def)
qed

lemma verify_heap_ok:
  assumes "pending_ok l" and "heap_typed K k n v (watchers l)"
    and "set is \<subseteq> heap_range HEAP0 n"
  shows "verify_heap v is l = Ok ()"
  using assms(3)
proof (induction "is")
  case (Cons i "is")
  then have i: "i \<in> heap_range HEAP0 n" "v i \<in> heap_entries n v" by (auto simp: heap_entries_def)
  have "w_active (watchers l (he_w (v i))) = i" "i = HEAP0 \<or> he_at (v (HPARENT i)) \<le> he_at (v i)"
    using assms(2) i by (auto simp: heap_typed_def heap_ok_def indexed_but_def heap_ordered_def)
  moreover have "he_at (v i) = w_at (watchers l (he_w (v i)))" "good_pri (watchers l (he_w (v i)))"
    using assms(2) i(2) by (auto simp: heap_typed_def cache_ok_def)
  ultimately show ?case using Cons verify_watcher_ok [OF assms(1), of "he_w (v i)"] by simp
qed simp

lemma verify_array_ok:
  assumes "pending_ok l" and "array_typed K k xs (watchers l)"
  shows "verify_array xs l = Ok ()"
proof -
  have "set is \<subseteq> {..<length xs} \<Longrightarrow> array_verify is xs l = Ok ()" for "is"
    using assms(2) verify_watcher_ok [OF assms(1)] by (induction "is") (auto simp: array_typed_def)
  from this [of "rev [0..<length xs]"] show ?thesis by (simp add: verify_array_def lessThan_atLeast0)
qed

lemma verify_fds_ok:
  assumes "pending_ok l" and "io_typed K (anfds l) (watchers l)"
    and "set fds \<subseteq> {..<length (anfds l)}"
  shows "verify_fds fds l = Ok ()"
  using assms(3)
proof (induction fds)
  case (Cons fd fds)
  have "(\<forall>w \<in> set ws. w_active (watchers l w) = 1 \<and> w_fd (watchers l w) = int fd \<and> good_pri (watchers l w)) \<Longrightarrow>
      verify_ios fd ws l = Ok ()" for ws
    using verify_watcher_ok [OF assms(1)] by (induction ws) auto
  moreover have "\<forall>w \<in> set (fd_head (anfds l ! fd)).
      w_active (watchers l w) = 1 \<and> w_fd (watchers l w) = int fd \<and> good_pri (watchers l w)"
    using assms(2) Cons.prems by (auto simp: io_typed_def)
  ultimately show ?case using Cons by simp
qed simp

lemma verify_idles_ok:
  assumes "pending_ok l" and "\<forall>pri < n. array_typed K Idle_watcher (idles l pri) (watchers l)" and "0 \<le> idleall l"
  shows "verify_idles n l = Ok ()"
  using assms(2)
proof (induction n)
  case (Suc n)
  have "array_typed K Idle_watcher (idles l n) (watchers l)" using Suc.prems by blast
  then show ?case using Suc assms(3) verify_array_ok [OF assms(1), of K Idle_watcher] by simp
qed simp

lemma ev_verify_typed:
  assumes "loop_typed K l" and "0 \<le> idleall l" and "-1 \<le> activecnt l"
  shows "ev_verify l = Ok ()"
proof -
  have p: "pending_ok l" using assms(1) by (simp add: loop_typed_def)
  have r: "set [HEAP0..<n + HEAP0] \<subseteq> heap_range HEAP0 n" for n by (auto simp: heap_range_def)
  have "heap_typed K Timer_watcher (timercnt l) (timers l) (watchers l)"
    "heap_typed K Periodic_watcher (periodiccnt l) (periodics l) (watchers l)"
    using assms(1) by (simp_all add: loop_typed_def)
  note h = this [THEN verify_heap_ok [OF p _ r]]
  have f: "verify_fds [0..<length (anfds l)] l = Ok ()"
    using verify_fds_ok [OF p, of K "[0..<length (anfds l)]"] assms(1) by (simp add: loop_typed_def lessThan_atLeast0)
  have i: "verify_idles NUMPRI l = Ok ()"
    using verify_idles_ok [OF p _ assms(2), of NUMPRI K] assms(1) by (auto simp: loop_typed_def)
  have a: "verify_array (forks l) l = Ok ()" "verify_array (cleanups l) l = Ok ()" "verify_array (asyncs l) l = Ok ()"
    "verify_array (prepares l) l = Ok ()" "verify_array (checks l) l = Ok ()"
    using assms(1) verify_array_ok [OF p, of K] by (auto simp: loop_typed_def)
  show ?thesis unfolding ev_verify_def h f i a using assms(3) by simp
qed

section \<open>What does not touch a container keeps its type\<close>

definition agree_on :: "addr set \<Rightarrow> (addr \<Rightarrow> ev_watcher) \<Rightarrow> (addr \<Rightarrow> ev_watcher) \<Rightarrow> bool" where
  "agree_on A ws ws' \<longleftrightarrow> (\<forall>x \<in> A. w_active (ws' x) = w_active (ws x) \<and> w_priority (ws' x) = w_priority (ws x) \<and>
     w_at (ws' x) = w_at (ws x) \<and> w_fd (ws' x) = w_fd (ws x) \<and> w_events (ws' x) = w_events (ws x))"

lemma array_typed_agree:
  assumes "array_typed K k xs ws" and "agree_on {x. K x = k} ws ws'"
  shows "array_typed K k xs ws'"
  using assms by (auto simp: array_typed_def agree_on_def good_pri_def)

lemma heap_typed_agree:
  assumes "heap_typed K k n v ws" and "agree_on {x. K x = k} ws ws'"
  shows "heap_typed K k n v ws'"
proof -
  have same: "w_active (ws' (he_w he)) = w_active (ws (he_w he))" "w_at (ws' (he_w he)) = w_at (ws (he_w he))"
    "good_pri (ws' (he_w he)) = good_pri (ws (he_w he))" if "he \<in> heap_entries n v" for he
    using assms that by (auto simp: heap_typed_def agree_on_def good_pri_def)
  have "heap_ok n v ws'" using assms(1) same(1) by (auto simp: heap_typed_def intro: heap_ok_frame)
  moreover have "cache_ok (heap_entries n v) ws'" using assms(1) same(2) by (auto simp: heap_typed_def intro: cache_ok_frame)
  ultimately show ?thesis using assms(1) same(3) by (auto simp: heap_typed_def)
qed

lemma io_typed_agree:
  assumes "io_typed K as ws" and "agree_on {x. K x = Io_watcher} ws ws'"
  shows "io_typed K as ws'"
  using assms by (auto simp: io_typed_def agree_on_def good_pri_def)


lemmas typed_agree = array_typed_agree heap_typed_agree io_typed_agree

text \<open>The part of the invariant that one type of watcher has, and the loop outside its containers.\<close>

definition loop_part :: "(addr \<Rightarrow> watcher_type) \<Rightarrow> watcher_type \<Rightarrow> 'w ev_loop \<Rightarrow> bool" where
  "loop_part K k l \<longleftrightarrow>
     (case k of
        Io_watcher \<Rightarrow> io_typed K (anfds l) (watchers l)
      | Timer_watcher \<Rightarrow> heap_typed K k (timercnt l) (timers l) (watchers l)
      | Periodic_watcher \<Rightarrow> heap_typed K k (periodiccnt l) (periodics l) (watchers l)
      | Idle_watcher \<Rightarrow> \<forall>pri < NUMPRI. array_typed K k (idles l pri) (watchers l)
      | Prepare_watcher \<Rightarrow> array_typed K k (prepares l) (watchers l)
      | Check_watcher \<Rightarrow> array_typed K k (checks l) (watchers l)
      | Fork_watcher \<Rightarrow> array_typed K k (forks l) (watchers l)
      | Cleanup_watcher \<Rightarrow> array_typed K k (cleanups l) (watchers l)
      | Async_watcher \<Rightarrow> array_typed K k (asyncs l) (watchers l)
      | _ \<Rightarrow> True)"

definition same_but :: "watcher_type \<Rightarrow> 'w ev_loop \<Rightarrow> 'w ev_loop \<Rightarrow> bool" where
  "same_but k l' l \<longleftrightarrow>
     (k \<noteq> Io_watcher \<longrightarrow> anfds l' = anfds l \<and> fdchanges l' = fdchanges l) \<and>
     (k \<noteq> Timer_watcher \<longrightarrow> timers l' = timers l \<and> timercnt l' = timercnt l) \<and>
     (k \<noteq> Periodic_watcher \<longrightarrow> periodics l' = periodics l \<and> periodiccnt l' = periodiccnt l) \<and>
     (k \<noteq> Idle_watcher \<longrightarrow> idles l' = idles l) \<and> (k \<noteq> Prepare_watcher \<longrightarrow> prepares l' = prepares l) \<and>
     (k \<noteq> Check_watcher \<longrightarrow> checks l' = checks l) \<and> (k \<noteq> Fork_watcher \<longrightarrow> forks l' = forks l) \<and>
     (k \<noteq> Cleanup_watcher \<longrightarrow> cleanups l' = cleanups l) \<and> (k \<noteq> Async_watcher \<longrightarrow> asyncs l' = asyncs l) \<and>
     mn_now l' = mn_now l \<and> x_events l' = x_events l"

lemma loop_typed_iff: "loop_typed K l \<longleftrightarrow> pending_ok l \<and> (\<forall>k. loop_part K k l)"
proof -
  have "(\<forall>k. loop_part K k l) \<longleftrightarrow> (\<forall>k \<in> {Io_watcher, Timer_watcher, Periodic_watcher, Idle_watcher, Prepare_watcher,
      Check_watcher, Fork_watcher, Cleanup_watcher, Async_watcher}. loop_part K k l)"
  proof (intro iffI allI)
    fix k
    assume *: "\<forall>k \<in> {Io_watcher, Timer_watcher, Periodic_watcher, Idle_watcher, Prepare_watcher,
      Check_watcher, Fork_watcher, Cleanup_watcher, Async_watcher}. loop_part K k l"
    show "loop_part K k l" by (cases k) (use * in simp_all, simp_all add: loop_part_def)
  qed blast
  then show ?thesis by (simp add: loop_typed_def loop_part_def)
qed

lemma loop_part_agree:
  assumes "loop_part K k l" "same_but k' l' l" "k \<noteq> k'" "agree_on {x. K x \<noteq> k'} (watchers l) (watchers l')"
  shows "loop_part K k l'"
proof -
  have agree: "agree_on {x. K x = k} (watchers l) (watchers l')" using assms(3,4) by (auto simp: agree_on_def)
  show ?thesis
    using assms(1-3) array_typed_agree [OF _ agree] heap_typed_agree [OF _ agree] io_typed_agree agree
    by (cases k) (simp_all add: loop_part_def same_but_def)
qed

text \<open>A loop in order; a change that concerns watchers of one type keeps the rest of it in order.\<close>

definition loop_ok :: "(addr \<Rightarrow> watcher_type) \<Rightarrow> 'w ev_loop \<Rightarrow> bool" where
  "loop_ok K l \<longleftrightarrow> loop_typed K l \<and> fds_ok l"

lemma loop_okD:
  assumes "loop_ok K l"
  shows "loop_typed K l" "fds_ok l" "pending_ok l" "loop_part K k l" "io_typed K (anfds l) (watchers l)"
    "timers_ok l" "he \<in> timer_entries l \<Longrightarrow> K (he_w he) = Timer_watcher"
    "he \<in> timer_entries l \<Longrightarrow> good_pri (watchers l (he_w he))"
proof -
  show t: "loop_typed K l" and "fds_ok l" using assms by (simp_all add: loop_ok_def)
  show "pending_ok l" "loop_part K k l" using t by (simp_all add: loop_typed_iff)
  show "io_typed K (anfds l) (watchers l)" "timers_ok l" "he \<in> timer_entries l \<Longrightarrow> K (he_w he) = Timer_watcher"
    "he \<in> timer_entries l \<Longrightarrow> good_pri (watchers l (he_w he))"
    using t by (auto simp: loop_typed_def heap_typed_def timers_ok_def timer_entries_def)
qed

lemma fds_ok_agree:
  assumes "fds_ok l" "io_typed K (anfds l) (watchers l)" "anfds l' = anfds l" "fdchanges l' = fdchanges l"
    and "agree_on {x. K x = Io_watcher} (watchers l) (watchers l')"
  shows "fds_ok l'"
proof -
  have w: "w_active (watchers l' x) = w_active (watchers l x)" "w_fd (watchers l' x) = w_fd (watchers l x)"
    "w_events (watchers l' x) = w_events (watchers l x)" if "fd < length (anfds l)" "x \<in> set (fd_head (anfds l ! fd))" for fd x
    using assms(2,5) that by (auto simp: io_typed_def agree_on_def)
  have "or_events l' (fd_head (anfds l ! fd)) = or_events l (fd_head (anfds l ! fd))" if "fd < length (anfds l)" for fd
    using w(3) [OF that] by (rule or_events_cong)
  moreover have "io_lists_ok l'" using assms(1,3) w by (auto simp: fds_ok_def fds_ok_for_def io_lists_ok_def)
  ultimately show ?thesis using assms(1,3,4) by (auto simp: fds_ok_def fds_ok_for_def)
qed

lemma loop_ok_change:
  assumes ok: "loop_ok K l" and same: "same_but k l' l" and "pending_ok l'"
    and agree: "agree_on {x. K x \<noteq> k} (watchers l) (watchers l')" and part: "loop_part K k l'"
    and fds: "k = Io_watcher \<Longrightarrow> fds_ok l'"
  shows "loop_ok K l'"
proof -
  have "loop_part K k' l'" for k'
    using loop_part_agree [OF loop_okD(4) [OF ok] same _ agree] part by (cases "k' = k") auto
  moreover have "fds_ok l'" if "k \<noteq> Io_watcher"
  proof -
    have "agree_on {x. K x = Io_watcher} (watchers l) (watchers l')" using agree that by (auto simp: agree_on_def)
    moreover have "anfds l' = anfds l" "fdchanges l' = fdchanges l" using same that by (simp_all add: same_but_def)
    ultimately show ?thesis using fds_ok_agree [OF loop_okD(2,5) [OF ok]] by blast
  qed
  ultimately show ?thesis using assms(3) fds by (auto simp: loop_ok_def loop_typed_iff)
qed

text \<open>Two loops that are equal when something is erased from both.\<close>

lemma same_but_erased:
  assumes "erased' = erased" and "same_but k erased l" and "same_but k erased' l'"
  shows "same_but k l' l"
  using assms by (auto simp: same_but_def)

lemma agree_onI:
  "(\<And>x. x \<in> A \<Longrightarrow> ws' x = ws x) \<Longrightarrow> agree_on A ws ws'"
  by (simp add: agree_on_def)

section \<open>Adding to and removing from an array\<close>

lemma array_typed_append:
  assumes "array_typed K k xs ws" and "\<forall>x \<in> set xs. ws' x = ws x"
    and "K w = k" "w_active (ws' w) = length xs + 1" "good_pri (ws' w)"
  shows "array_typed K k (xs @ [w]) ws'"
  using assms by (auto simp: array_typed_def nth_append all_set_conv_all_nth less_Suc_eq)

lemma array_typed_remove:
  assumes typed: "array_typed K k xs ws" and w: "w \<in> set xs"
    and new: "\<forall>x. x \<noteq> w \<longrightarrow> w_active (ws' x) = (if x = last xs then w_active (ws w) else w_active (ws x)) \<and>
      w_priority (ws' x) = w_priority (ws x)"
  shows "array_remove (w_active (ws w)) xs = Ok (butlast (xs[w_active (ws w) - 1 := last xs]), last xs)"
    and "array_typed K k (butlast (xs[w_active (ws w) - 1 := last xs])) ws'"
proof -
  obtain i where i: "i < length xs" "xs ! i = w" using w by (auto simp: in_set_conv_nth)
  have act: "w_active (ws (xs ! j)) = j + 1" if "j < length xs" for j using typed that by (simp add: array_typed_def)
  have a: "w_active (ws w) = i + 1" using act i by auto
  show "array_remove (w_active (ws w)) xs = Ok (butlast (xs[w_active (ws w) - 1 := last xs]), last xs)"
    using i a by (simp add: array_remove_def)
  let ?ys = "butlast (xs[i := last xs])" and ?n = "length xs - 1"
  have "xs \<noteq> []" using i(1) by auto
  then have last: "last xs = xs ! ?n" by (simp add: last_conv_nth)
  have inj: "xs ! j = xs ! j' \<longleftrightarrow> j = j'" if "j < length xs" "j' < length xs" for j j'
    using act [OF that(1)] act [OF that(2)] by (metis add_right_cancel)
  have "K (?ys ! j) = k \<and> w_active (ws' (?ys ! j)) = j + 1 \<and> good_pri (ws' (?ys ! j))" if "j < ?n" for j
  proof -
    define x where "x = (if j = i then xs ! ?n else xs ! j)"
    have ys: "?ys ! j = x" using that i(1) by (simp add: nth_butlast nth_list_update last x_def)
    have len: "j < length xs" "?n < length xs" using that by auto
    have "x \<noteq> w" using that i inj [OF len(2) i(1)] inj [OF len(1) i(1)] by (auto simp: x_def)
    then have ws': "w_active (ws' x) = (if x = xs ! ?n then i + 1 else w_active (ws x))" "w_priority (ws' x) = w_priority (ws x)"
      using new a last by auto
    have "K x = k" "good_pri (ws x)" using typed len by (auto simp: array_typed_def x_def)
    moreover have "w_active (ws' x) = j + 1"
      using ws'(1) that act [OF len(1)] inj [OF len] by (auto simp: x_def)
    ultimately show ?thesis using ws'(2) by (simp add: ys good_pri_def)
  qed
  then show "array_typed K k (butlast (xs[w_active (ws w) - 1 := last xs])) ws'"
    by (simp add: array_typed_def a)
qed

text \<open>
  The interface of the four kinds of watchers that live in a plain array: \<open>rest\<close> is the part
  of the loop outside the array, the watchers, the pending events and the reference count.
\<close>

locale watcher_array =
  fixes arr :: "'w ev_loop \<Rightarrow> addr list"
    and start stop :: "addr \<Rightarrow> 'w ev_loop \<Rightarrow> 'w ev_loop outcome"
    and rest :: "'w ev_loop \<Rightarrow> 'w ev_loop"
  assumes start_law: "\<not> ev_is_active w l \<Longrightarrow>
      \<exists>l'. start w l = Ok l' \<and> arr l' = arr l @ [w] \<and> rest l' = rest l \<and> pendings l' = pendings l \<and>
        watchers l' = watchers (ev_start w (length (arr l) + 1) l)"
    and stop_law: "ev_is_active w l \<Longrightarrow> array_remove (w_active (watchers l w)) (arr l) = Ok (xs, moved) \<Longrightarrow>
      \<exists>l'. stop w l = Ok l' \<and> arr l' = xs \<and> rest l' = rest l \<and> pendings l' = pendings (clear_pending w l) \<and>
        watchers l' = watchers (ev_stop w (activate moved (w_active (watchers l w)) (clear_pending w l)))"
begin

lemma start_typed:
  assumes "array_typed K k (arr l) (watchers l)" "pending_ok l" "\<not> ev_is_active w l" "K w = k"
    "w_pending (watchers l w) = 0"
  shows "\<exists>l'. start w l = Ok l' \<and> array_typed K k (arr l') (watchers l') \<and> pending_ok l' \<and>
    arr l' = arr l @ [w] \<and> rest l' = rest l \<and> agree_on {x. K x \<noteq> k} (watchers l) (watchers l')"
proof -
  obtain l' where l': "start w l = Ok l'" "arr l' = arr l @ [w]" "rest l' = rest l" "pendings l' = pendings l"
    "watchers l' = watchers (ev_start w (length (arr l) + 1) l)"
    using start_law [OF assms(3)] by blast
  let ?pri = "w_priority (watchers (pri_adjust w l) w)"
  have ws: "watchers l' = (watchers l)(w := (watchers l w)\<lparr>w_priority := ?pri, w_active := length (arr l) + 1\<rparr>)"
    by (simp add: l'(5) ev_start_def ev_ref_def pri_adjust_def Let_def)
  have good: "EV_MINPRI \<le> ?pri" "?pri \<le> EV_MAXPRI" by (simp_all add: pri_adjust_def Let_def EV_MINPRI_def EV_MAXPRI_def)
  have "w \<notin> set (arr l)" using assms(1,3) by (auto simp: array_typed_def in_set_conv_nth ev_is_active_def)
  then have "array_typed K k (arr l @ [w]) (watchers l')"
    using assms(1,4) good by (intro array_typed_append) (auto simp: ws good_pri_def)
  moreover have "pending_ok l'"
  proof -
    have "pending_ok (upd_watcher w (\<lambda>x. x\<lparr>w_priority := ?pri, w_active := length (arr l) + 1\<rparr>) l)"
      using assms(2,5) by (intro pending_ok_upd) simp_all
    then show ?thesis by (simp add: pending_ok_def l'(4) ws)
  qed
  ultimately show ?thesis using l'(1-3) assms(4) by (intro exI [of _ l']) (auto simp: agree_on_def ws)
qed

lemma stop_typed:
  assumes "array_typed K k (arr l) (watchers l)" "pending_ok l" "w \<in> set (arr l)"
  shows "\<exists>l'. stop w l = Ok l' \<and> array_typed K k (arr l') (watchers l') \<and> pending_ok l' \<and>
    mset (arr l') + {#w#} = mset (arr l) \<and> \<not> ev_is_active w l' \<and> rest l' = rest l \<and>
    agree_on {x. K x \<noteq> k} (watchers l) (watchers l')"
proof -
  let ?a = "w_active (watchers l w)" and ?moved = "last (arr l)"
  let ?xs = "butlast ((arr l)[w_active (watchers l w) - 1 := last (arr l)])"
  obtain i where i: "i < length (arr l)" "arr l ! i = w" using assms(3) by (auto simp: in_set_conv_nth)
  have a: "?a = i + 1" and Kw: "K w = k" using assms(1) i by (auto simp: array_typed_def)
  have ne: "arr l \<noteq> []" using i(1) by auto
  then have Km: "K ?moved = k" using assms(1) by (simp add: array_typed_def last_conv_nth)
  have act: "ev_is_active w l" using a by (simp add: ev_is_active_def)
  have "array_remove ?a (arr l) = Ok (?xs, ?moved)" using a i(1) by (simp add: array_remove_def)
  from stop_law [OF act this] obtain l' where l': "stop w l = Ok l'" "arr l' = ?xs" "rest l' = rest l"
    "pendings l' = pendings (clear_pending w l)"
    "watchers l' = watchers (ev_stop w (activate ?moved ?a (clear_pending w l)))" by blast
  have ws: "watchers l' = (watchers (activate ?moved ?a (clear_pending w l)))
      (w := (watchers (activate ?moved ?a (clear_pending w l)) w)\<lparr>w_active := 0\<rparr>)"
    by (simp add: l'(5) ev_stop_def ev_unref_def)
  have other: "w_active (watchers l' x) = (if x = ?moved then ?a else w_active (watchers l x)) \<and>
      w_priority (watchers l' x) = w_priority (watchers l x)" if "x \<noteq> w" for x
    using that by (simp add: ws activate_def clear_pending_keeps clear_pending_timers)
  have "array_typed K k ?xs (watchers l')"
    using array_typed_remove(2) [OF assms(1,3), of "watchers l'"] other by blast
  moreover have "pending_ok l'"
  proof -
    have "pending_ok (upd_watcher w (\<lambda>x. x\<lparr>w_active := 0\<rparr>) (activate ?moved ?a (clear_pending w l)))"
      unfolding activate_def by (intro pending_ok_upd pending_ok_clear assms(2)) simp_all
    then show ?thesis by (simp add: pending_ok_def l'(4) ws activate_def)
  qed
  moreover have "mset ?xs + {#w#} = mset (arr l)"
  proof -
    have "mset ((arr l)[i := last (arr l)]) = mset ?xs + {#last (arr l)#}"
    proof -
      have ne2: "(arr l)[i := last (arr l)] \<noteq> []" and la: "last ((arr l)[i := last (arr l)]) = last (arr l)"
        using ne by (auto simp: last_list_update)
      have "?a - 1 = i" using a by simp
      then have "?xs @ [last (arr l)] = (arr l)[i := last (arr l)]"
        using append_butlast_last_id [OF ne2] la by metis
      then have "mset ((arr l)[i := last (arr l)]) = mset (?xs @ [last (arr l)])" by (simp only:)
      then show ?thesis by simp
    qed
    moreover have "mset ((arr l)[i := last (arr l)]) = mset (arr l) - {#w#} + {#last (arr l)#}"
      using i by (simp add: mset_update)
    ultimately have "mset ?xs = mset (arr l) - {#w#}" by simp
    then show ?thesis using assms(3) by simp
  qed
  moreover have "\<not> ev_is_active w l'" by (simp add: ev_is_active_def ws)
  moreover have "agree_on {x. K x \<noteq> k} (watchers l) (watchers l')"
    using Kw Km by (auto simp: agree_on_def ws activate_def clear_pending_keeps clear_pending_timers)
  ultimately show ?thesis using l'(1-3) by auto
qed

end

text \<open>An array of watchers of one type is the part of the invariant that belongs to the type.\<close>

locale typed_array = watcher_array arr start stop rest
  for arr :: "'w ev_loop \<Rightarrow> addr list"
    and start stop :: "addr \<Rightarrow> 'w ev_loop \<Rightarrow> 'w ev_loop outcome"
    and rest :: "'w ev_loop \<Rightarrow> 'w ev_loop" +
  fixes kind :: watcher_type
  assumes kind_part: "loop_part K kind l = array_typed K kind (arr l) (watchers l)"
    and kind_io: "kind \<noteq> Io_watcher"
    and rest_same: "rest l' = rest l \<Longrightarrow> same_but kind l' l"
begin

lemma start_ok:
  assumes "loop_ok K l" "K w = kind" "\<not> ev_is_active w l" "w_pending (watchers l w) = 0"
  shows "\<exists>l'. start w l = Ok l' \<and> loop_ok K l' \<and> arr l' = arr l @ [w] \<and> rest l' = rest l"
proof -
  have a: "array_typed K kind (arr l) (watchers l)" using loop_okD(4) [OF assms(1)] kind_part by blast
  show ?thesis
    using start_typed [OF a loop_okD(3) [OF assms(1)] assms(3,2,4)] loop_ok_change [OF assms(1) rest_same] kind_part kind_io
    by metis
qed

lemma stop_ok:
  assumes "loop_ok K l" "w \<in> set (arr l)"
  shows "\<exists>l'. stop w l = Ok l' \<and> loop_ok K l' \<and> \<not> ev_is_active w l' \<and> mset (arr l') + {#w#} = mset (arr l) \<and> rest l' = rest l"
proof -
  have a: "array_typed K kind (arr l) (watchers l)" using loop_okD(4) [OF assms(1)] kind_part by blast
  show ?thesis
    using stop_typed [OF a loop_okD(3) [OF assms(1)] assms(2)] loop_ok_change [OF assms(1) rest_same] kind_part kind_io
    by metis
qed

end

interpretation prepare_array: typed_array prepares ev_prepare_start ev_prepare_stop
  "\<lambda>l. l\<lparr>prepares := [], watchers := (\<lambda>_. zero_watcher), pendings := (\<lambda>_. []), activecnt := 0\<rparr>" Prepare_watcher
proof unfold_locales
  fix l l' :: "'a ev_loop"
  assume rest: "l'\<lparr>prepares := [], watchers := (\<lambda>_. zero_watcher), pendings := (\<lambda>_. []), activecnt := 0\<rparr> =
      l\<lparr>prepares := [], watchers := (\<lambda>_. zero_watcher), pendings := (\<lambda>_. []), activecnt := 0\<rparr>"
  show "same_but Prepare_watcher l' l" by (rule same_but_erased [OF rest]) (simp_all add: same_but_def)
qed (auto simp: ev_prepare_start_def ev_prepare_stop_def ev_start_def ev_stop_def ev_ref_def ev_unref_def pri_adjust_def
      activate_def clear_pending_def Let_def upd_watcher_def ev_is_active_def loop_part_def)

interpretation check_array: typed_array checks ev_check_start ev_check_stop
  "\<lambda>l. l\<lparr>checks := [], watchers := (\<lambda>_. zero_watcher), pendings := (\<lambda>_. []), activecnt := 0\<rparr>" Check_watcher
proof unfold_locales
  fix l l' :: "'a ev_loop"
  assume rest: "l'\<lparr>checks := [], watchers := (\<lambda>_. zero_watcher), pendings := (\<lambda>_. []), activecnt := 0\<rparr> =
      l\<lparr>checks := [], watchers := (\<lambda>_. zero_watcher), pendings := (\<lambda>_. []), activecnt := 0\<rparr>"
  show "same_but Check_watcher l' l" by (rule same_but_erased [OF rest]) (simp_all add: same_but_def)
qed (auto simp: ev_check_start_def ev_check_stop_def ev_start_def ev_stop_def ev_ref_def ev_unref_def pri_adjust_def
      activate_def clear_pending_def Let_def upd_watcher_def ev_is_active_def loop_part_def)

interpretation fork_array: typed_array forks ev_fork_start ev_fork_stop
  "\<lambda>l. l\<lparr>forks := [], watchers := (\<lambda>_. zero_watcher), pendings := (\<lambda>_. []), activecnt := 0\<rparr>" Fork_watcher
proof unfold_locales
  fix l l' :: "'a ev_loop"
  assume rest: "l'\<lparr>forks := [], watchers := (\<lambda>_. zero_watcher), pendings := (\<lambda>_. []), activecnt := 0\<rparr> =
      l\<lparr>forks := [], watchers := (\<lambda>_. zero_watcher), pendings := (\<lambda>_. []), activecnt := 0\<rparr>"
  show "same_but Fork_watcher l' l" by (rule same_but_erased [OF rest]) (simp_all add: same_but_def)
qed (auto simp: ev_fork_start_def ev_fork_stop_def ev_start_def ev_stop_def ev_ref_def ev_unref_def pri_adjust_def
      activate_def clear_pending_def Let_def upd_watcher_def ev_is_active_def loop_part_def)

interpretation cleanup_array: typed_array cleanups ev_cleanup_start ev_cleanup_stop
  "\<lambda>l. l\<lparr>cleanups := [], watchers := (\<lambda>_. zero_watcher), pendings := (\<lambda>_. []), activecnt := 0\<rparr>" Cleanup_watcher
proof unfold_locales
  fix l l' :: "'a ev_loop"
  assume rest: "l'\<lparr>cleanups := [], watchers := (\<lambda>_. zero_watcher), pendings := (\<lambda>_. []), activecnt := 0\<rparr> =
      l\<lparr>cleanups := [], watchers := (\<lambda>_. zero_watcher), pendings := (\<lambda>_. []), activecnt := 0\<rparr>"
  show "same_but Cleanup_watcher l' l" by (rule same_but_erased [OF rest]) (simp_all add: same_but_def)
qed (auto simp: ev_cleanup_start_def ev_cleanup_stop_def ev_start_def ev_stop_def ev_ref_def ev_unref_def pri_adjust_def
      activate_def clear_pending_def Let_def upd_watcher_def ev_is_active_def loop_part_def)


section \<open>Timers and io watchers keep the types\<close>

lemma timer_start_same: "ev_timer_start w l = Ok l' \<Longrightarrow> same_but Timer_watcher l' l"
  by (auto simp: ev_timer_start_def Let_def same_but_def put_timers_def ev_start_def ev_ref_def pri_adjust_def
      upd_watcher_def g_assert_def split: if_splits prod.splits)

lemma timer_stop_same: "ev_timer_stop w l = Ok l' \<Longrightarrow> same_but Timer_watcher l' l"
  by (auto simp: ev_timer_stop_def Let_def same_but_def put_timers_def ev_stop_def ev_unref_def clear_pending_def
      upd_watcher_def g_assert_def split: if_splits prod.splits)

lemma clear_pending_same: "same_but k (clear_pending w l) l"
  by (simp add: same_but_def clear_pending_def Let_def upd_watcher_def)

lemma pending_ok_cong:
  assumes "pending_ok l" "pendings l' = pendings l"
    and "\<And>x. w_pending (watchers l' x) = w_pending (watchers l x)"
    and "\<And>x. w_pending (watchers l x) \<noteq> 0 \<Longrightarrow> w_priority (watchers l' x) = w_priority (watchers l x)"
  shows "pending_ok l'"
proof -
  have "abspri (watchers l' x) = abspri (watchers l x)" if "w_pending (watchers l x) \<noteq> 0" for x
    using assms(4) [OF that] by (simp add: abspri_def)
  then show ?thesis
    using assms(1) unfolding pending_ok_def refs_ok_def assms(2,3) by fastforce
qed

lemma timer_start_loop_ok:
  assumes ok: "loop_ok K l" and "K w = Timer_watcher" "\<not> ev_is_active w l" "0 \<le> w_repeat (watchers l w)"
    and idle: "w_pending (watchers l w) = 0"
  shows "\<exists>l'. ev_timer_start w l = Ok l' \<and> loop_ok K l' \<and> ev_is_active w l' \<and>
    timer_entries l' = insert \<lparr>he_at = w_at (watchers l w) + mn_now l, he_w = w\<rparr> (timer_entries l) \<and>
    (\<forall>x. x \<noteq> w \<and> K x \<noteq> Timer_watcher \<longrightarrow> watchers l' x = watchers l x) \<and> pendings l' = pendings l \<and>
    (\<forall>x. w_pending (watchers l' x) = w_pending (watchers l x) \<and> w_cb (watchers l' x) = w_cb (watchers l x))"
proof -
  note d = loop_okD [OF ok]
  obtain l' where l': "ev_timer_start w l = Ok l'" "timers_ok l'" "ev_is_active w l'"
    "timer_entries l' = insert \<lparr>he_at = w_at (watchers l w) + mn_now l, he_w = w\<rparr> (timer_entries l)"
    "pendings l' = pendings l" "w_priority (watchers l' w) = w_priority (watchers (pri_adjust w l) w)"
    "\<And>x. x \<noteq> w \<Longrightarrow> w_priority (watchers l' x) = w_priority (watchers l x) \<and>
         (x \<notin> he_w ` timer_entries l \<longrightarrow> watchers l' x = watchers l x)"
    "\<And>x. w_pending (watchers l' x) = w_pending (watchers l x)" "\<And>x. w_cb (watchers l' x) = w_cb (watchers l x)"
    using ev_timer_start_ok [OF d(6) assms(3,4)] by blast
  have "w_priority (watchers l' x) = w_priority (watchers l x)" if "w_pending (watchers l x) \<noteq> 0" for x
    using l'(7) [of x] idle that by metis
  then have p: "pending_ok l'" by (rule pending_ok_cong [OF d(3) l'(5,8)])
  have other: "watchers l' x = watchers l x" if "K x \<noteq> Timer_watcher" for x
  proof -
    have "x \<noteq> w" "x \<notin> he_w ` timer_entries l" using that assms(2) d(7) by auto
    then show ?thesis using l'(7) by blast
  qed
  then have agree: "agree_on {x. K x \<noteq> Timer_watcher} (watchers l) (watchers l')" by (intro agree_onI) simp
  have "good_pri (watchers l' x)" if "x \<in> insert w (he_w ` timer_entries l)" for x
  proof (cases "x = w")
    case True
    then show ?thesis using l'(6) by (simp add: good_pri_def pri_adjust_def Let_def EV_MINPRI_def EV_MAXPRI_def)
  next
    case False
    then show ?thesis using that d(8) l'(7) [OF False] by (auto simp: good_pri_def)
  qed
  then have "loop_part K Timer_watcher l'"
    using l'(2,4) assms(2) d(7) by (simp add: loop_part_def heap_typed_def timers_ok_def timer_entries_def)
  then have "loop_ok K l'" using loop_ok_change [OF ok timer_start_same [OF l'(1)] p agree] by simp
  then show ?thesis using l'(1,3,4,5,8,9) other by blast
qed

lemma timer_stop_loop_ok:
  assumes ok: "loop_ok K l" and w: "w \<in> he_w ` timer_entries l"
  shows "\<exists>l'. ev_timer_stop w l = Ok l' \<and> loop_ok K l' \<and> \<not> ev_is_active w l' \<and>
    he_w ` timer_entries l' = he_w ` timer_entries l - {w} \<and>
    (\<forall>x. K x \<noteq> Timer_watcher \<longrightarrow> watchers l' x = watchers l x) \<and> pendings l' = pendings (clear_pending w l) \<and>
    w_pending (watchers l' w) = 0"
proof -
  note d = loop_okD [OF ok]
  obtain he where he: "he \<in> timer_entries l" "he_w he = w" using w by blast
  obtain l' where l': "ev_timer_stop w l = Ok l'" "timers_ok l'" "timer_entries l' = timer_entries l - {he}"
    "\<not> ev_is_active w l'" "pendings l' = pendings (clear_pending w l)"
    "\<And>x. w_pending (watchers l' x) = w_pending (watchers (clear_pending w l) x)"
    "\<And>x. w_priority (watchers l' x) = w_priority (watchers l x)"
    "\<And>x. x \<notin> he_w ` timer_entries l \<Longrightarrow> watchers l' x = watchers l x"
    using ev_timer_stop_ok [OF d(6) he(1)] unfolding he(2) by blast
  have "pending_ok (clear_pending w l)" by (rule pending_ok_clear [OF d(3)])
  then have p: "pending_ok l'" by (rule pending_ok_cong [OF _ l'(5,6)]) (simp add: l'(7) clear_pending_timers)
  have other: "watchers l' x = watchers l x" if "K x \<noteq> Timer_watcher" for x
  proof -
    have "x \<notin> he_w ` timer_entries l" using that d(7) by auto
    then show ?thesis using l'(8) by blast
  qed
  then have agree: "agree_on {x. K x \<noteq> Timer_watcher} (watchers l) (watchers l')" by (intro agree_onI) simp
  have part: "loop_part K Timer_watcher l'"
    using l'(2,3,7) d(7,8) by (simp add: loop_part_def heap_typed_def timers_ok_def timer_entries_def good_pri_def)
  have "loop_ok K l'" using loop_ok_change [OF ok timer_stop_same [OF l'(1)] p agree part] by simp
  moreover have "he_w ` timer_entries l' = he_w ` timer_entries l - {w}"
  proof -
    have "x = he" if "x \<in> timer_entries l" "he_w x = w" for x
      using timer_entries_inj [OF d(6) that(1) he(1)] that(2) he(2) by simp
    then show ?thesis unfolding l'(3) using he(2) by blast
  qed
  moreover have "w_pending (watchers l' w) = 0" using l'(6) [of w] pending_ok_clear(2) [OF d(3), of w] by simp
  ultimately show ?thesis using l'(1,4,5) other by blast
qed

end
