(* ===== verification/Ev_Run.thy ===== *)
theory Ev_Run
  imports Ev_Expire Ev_Verify
begin

unbundle bit_operations_syntax

text \<open>
  What a round of the loop does: the order in which pending watchers are called, wakeups
  from other threads, how long the backend may block, and a loop with nothing to do.
\<close>

section \<open>The order of the calls\<close>

text \<open>
  A callback that only records that it was called, in a world of the caller's choice; the
  dummy watcher that stands for a cleared event records nothing.
\<close>

definition recording :: "'w ev_env \<Rightarrow> (addr \<Rightarrow> ev_mask \<Rightarrow> 'w \<Rightarrow> 'w) \<Rightarrow> bool" where
  "recording env rec \<longleftrightarrow> (\<forall>k w ev l. user_cb env k w ev l = Ok (l\<lparr>ev_world := rec w ev (ev_world l)\<rparr>))"

text \<open>Every queued watcher is one of the user's, or the dummy.\<close>

definition user_queued :: "'w ev_loop \<Rightarrow> bool" where
  "user_queued l \<longleftrightarrow> w_cb (watchers l pending_w) = Pendingcb \<and>
     (\<forall>pri. \<forall>p \<in> set (pendings l pri). fst p \<noteq> pending_w \<longrightarrow> (\<exists>k. w_cb (watchers l (fst p)) = User_cb k))"

definition record_calls :: "(addr \<Rightarrow> ev_mask \<Rightarrow> 'w \<Rightarrow> 'w) \<Rightarrow> (addr \<times> ev_mask) list \<Rightarrow> 'w \<Rightarrow> 'w" where
  "record_calls rec ps = fold (\<lambda>(w, ev). rec w ev) (filter (\<lambda>p. fst p \<noteq> pending_w) ps)"

lemma record_calls_simps [simp]:
  "record_calls rec [] world = world"
  "record_calls rec (p # ps) world =
     record_calls rec ps (if fst p = pending_w then world else rec (fst p) (snd p) world)"
  "record_calls rec (ps @ qs) world = record_calls rec qs (record_calls rec ps world)"
  by (auto simp: record_calls_def split: prod.splits)

lemma ev_invoke_recorded:
  assumes "recording env rec" and "w_cb (watchers l pending_w) = Pendingcb"
    and "w \<noteq> pending_w \<longrightarrow> (\<exists>k. w_cb (watchers l w) = User_cb k)"
  shows "ev_invoke env w ev l = Ok (l\<lparr>ev_world := (if w = pending_w then ev_world l else rec w ev (ev_world l))\<rparr>)"
  using assms by (cases "w = pending_w") (auto simp: ev_invoke_def recording_def)

lemma invoke_level_recorded:
  assumes "recording env rec" and "user_queued l" and "length (pendings l pri) \<le> n"
  shows "\<exists>ws. invoke_level env n pri l =
      Ok (l\<lparr>pendings := (pendings l)(pri := []), watchers := ws,
            ev_world := record_calls rec (rev (pendings l pri)) (ev_world l)\<rparr>) \<and>
      (\<forall>w. w_cb (ws w) = w_cb (watchers l w))"
  using assms(2,3)
proof (induction n arbitrary: l)
  case 0
  then have "pendings l pri = []" by simp
  then show ?case using 0 by (intro exI [of _ "watchers l"]) (simp add: fun_upd_idem)
next
  case (Suc n)
  show ?case
  proof (cases "pendings l pri = []")
    case True
    then show ?thesis using Suc.prems(1) by (intro exI [of _ "watchers l"]) (simp add: fun_upd_idem)
  next
    case False
    let ?p = "last (pendings l pri)" and ?q = "butlast (pendings l pri)"
    define l1 where "l1 = pop_pending pri l"
    have cbs: "w_cb (watchers l1 w) = w_cb (watchers l w)" for w by (simp add: l1_def pop_pending_def)
    have "?p \<in> set (pendings l pri)" using False by simp
    then have uw: "w_cb (watchers l1 pending_w) = Pendingcb"
      "fst ?p \<noteq> pending_w \<longrightarrow> (\<exists>k. w_cb (watchers l1 (fst ?p)) = User_cb k)"
      using Suc.prems(1) unfolding user_queued_def cbs by blast+
    define l2 where "l2 = l1\<lparr>ev_world := (if fst ?p = pending_w then ev_world l else rec (fst ?p) (snd ?p) (ev_world l))\<rparr>"
    have "ev_invoke env (fst ?p) (snd ?p) l1 = Ok l2"
      using ev_invoke_recorded [OF assms(1) uw, of "snd ?p"] by (simp add: l2_def l1_def pop_pending_def)
    then have step: "invoke_level env (Suc n) pri l = invoke_level env n pri l2"
      using False by (simp add: l1_def)
    have q: "pendings l2 = (pendings l)(pri := ?q)" "ev_world l2 = (if fst ?p = pending_w then ev_world l else rec (fst ?p) (snd ?p) (ev_world l))"
      "watchers l2 = watchers l1"
      by (simp_all add: l2_def l1_def pop_pending_def)
    have uq: "user_queued l2"
      using Suc.prems(1) cbs by (auto simp: user_queued_def q dest!: in_set_butlastD split: if_splits)
    have "length (pendings l2 pri) \<le> n" using Suc.prems(2) by (simp add: q)
    from Suc.IH [OF uq this] obtain ws where ws: "invoke_level env n pri l2 =
        Ok (l2\<lparr>pendings := (pendings l2)(pri := []), watchers := ws,
              ev_world := record_calls rec (rev (pendings l2 pri)) (ev_world l2)\<rparr>)" "\<And>w. w_cb (ws w) = w_cb (watchers l2 w)" by blast
    have rv: "rev (pendings l pri) = ?p # rev ?q"
      using append_butlast_last_id [OF False] by (metis rev.simps(2) rev_append rev_rev_ident append_Cons append_Nil rev_swap)
    have "record_calls rec (rev (pendings l2 pri)) (ev_world l2) = record_calls rec (?p # rev ?q) (ev_world l)"
      by (simp add: q)
    then have "record_calls rec (rev (pendings l2 pri)) (ev_world l2) = record_calls rec (rev (pendings l pri)) (ev_world l)"
      by (simp only: rv)
    then have "invoke_level env (Suc n) pri l =
        Ok (l\<lparr>pendings := (pendings l)(pri := []), watchers := ws,
              ev_world := record_calls rec (rev (pendings l pri)) (ev_world l)\<rparr>)"
      unfolding step ws(1) by (simp add: l2_def l1_def pop_pending_def upd_watcher_def)
    moreover have "w_cb (ws w) = w_cb (watchers l w)" for w using ws(2) cbs by (simp add: l2_def)
    ultimately show ?thesis by blast
  qed
qed

text \<open>The calls in their order: the priorities downwards, in each the last event first.\<close>

primrec call_order :: "nat \<Rightarrow> (nat \<Rightarrow> (addr \<times> ev_mask) list) \<Rightarrow> (addr \<times> ev_mask) list" where
  "call_order 0 q = []"
| "call_order (Suc pri) q = rev (q pri) @ call_order pri q"

lemma call_order_upd: "call_order n (q(m := [])) = call_order n q" if "n \<le> m"
  using that by (induction n) auto

lemma invoke_levels_recorded:
  assumes "recording env rec" and "user_queued l" and "\<And>pri. pri < m \<Longrightarrow> length (pendings l pri) \<le> n"
  shows "\<exists>ws. invoke_levels env n m l =
      Ok (l\<lparr>pendings := (\<lambda>pri. if pri < m then [] else pendings l pri), watchers := ws,
            ev_world := record_calls rec (call_order m (pendings l)) (ev_world l)\<rparr>)"
  using assms(2,3)
proof (induction m arbitrary: l)
  case 0
  show ?case by (intro exI [of _ "watchers l"]) simp
next
  case (Suc m)
  from invoke_level_recorded [OF assms(1) Suc.prems(1), of m n] Suc.prems(2) [of m]
  obtain ws where ws: "invoke_level env n m l =
      Ok (l\<lparr>pendings := (pendings l)(m := []), watchers := ws,
            ev_world := record_calls rec (rev (pendings l m)) (ev_world l)\<rparr>)" "\<And>w. w_cb (ws w) = w_cb (watchers l w)" by auto
  let ?l = "l\<lparr>pendings := (pendings l)(m := []), watchers := ws,
            ev_world := record_calls rec (rev (pendings l m)) (ev_world l)\<rparr>"
  have uw: "user_queued ?l" using ws(2) Suc.prems(1) by (auto simp: user_queued_def)
  have len: "length (pendings ?l pri) \<le> n" if "pri < m" for pri using Suc.prems(2) [of pri] that by simp
  from Suc.IH [OF uw len] obtain ws' where ws': "invoke_levels env n m ?l =
      Ok (?l\<lparr>pendings := (\<lambda>pri. if pri < m then [] else pendings ?l pri), watchers := ws',
            ev_world := record_calls rec (call_order m (pendings ?l)) (ev_world ?l)\<rparr>)"
    by blast
  have pq: "(\<lambda>pri. if pri < m then [] else pendings ?l pri) = (\<lambda>pri. if pri < Suc m then [] else pendings l pri)"
    by (auto simp: fun_eq_iff less_Suc_eq)
  have "invoke_levels env n (Suc m) l = invoke_levels env n m ?l" using ws(1) by simp
  then have "invoke_levels env n (Suc m) l =
      Ok (l\<lparr>pendings := (\<lambda>pri. if pri < Suc m then [] else pendings l pri), watchers := ws',
            ev_world := record_calls rec (call_order (Suc m) (pendings l)) (ev_world l)\<rparr>)"
    unfolding ws' pq by (simp add: call_order_upd)
  then show ?case by blast
qed

section \<open>Wakeups from other threads\<close>

text \<open>A flag that is set has left a byte in the pipe, or a note that one was left out.\<close>

definition wake_ok :: "'w ev_loop \<Rightarrow> bool" where
  "wake_ok l \<longleftrightarrow> async_pending l \<or> sig_pending l \<longrightarrow> pipe_bytes l > 0 \<or> pipe_write_skipped l"

lemma evpipe_write_wakes:
  assumes "wake_ok l"
  shows "wake_ok (evpipe_write fl l)" "flag_set fl (evpipe_write fl l)" "watchers (evpipe_write fl l) = watchers l"
  using assms by (auto simp: evpipe_write_def wake_ok_def flag_set_def set_flag_def Let_def split: wake_flag.splits)

lemma pass_asyncs_delivers:
  assumes "pending_ok l" "pending_w \<notin> set ws"
  shows "pending_ok (pass_asyncs ws l) \<and> async_pending (pass_asyncs ws l) = async_pending l \<and>
    (\<forall>w. (w \<in> set ws \<and> w_sent (watchers l w) \<or> queued_with w EV_ASYNC l) \<longrightarrow> queued_with w EV_ASYNC (pass_asyncs ws l)) \<and>
    (\<forall>w. w_sent (watchers (pass_asyncs ws l) w) = (w \<notin> set ws \<and> w_sent (watchers l w)))"
  using assms
proof (induction ws arbitrary: l)
  case (Cons w ws)
  define l1 where "l1 = upd_watcher w (\<lambda>x. x\<lparr>w_sent := False\<rparr>) l"
  define l2 where "l2 = (if w_sent (watchers l w) then ev_feed_event w EV_ASYNC l1 else l)"
  have ok1: "pending_ok l1" unfolding l1_def by (rule pending_ok_upd [OF Cons.prems(1)]) simp_all
  have w: "w \<noteq> pending_w" using Cons.prems(2) by auto
  have ok2: "pending_ok l2" using ok1 pending_ok_feed [OF ok1 w] Cons.prems(1) by (simp add: l2_def)
  have s2: "w_sent (watchers l2 x) = (x \<noteq> w \<and> w_sent (watchers l x))" for x
    by (auto simp: l2_def l1_def ev_feed_event_def Let_def)
  have keep: "queued_with x EV_ASYNC l2" if "queued_with x EV_ASYNC l" for x
  proof (cases "x = w")
    case True
    then show ?thesis using that queued_with_feed [OF ok1 w, of EV_ASYNC] by (auto simp: l2_def)
  next
    case False
    have "queued_with x EV_ASYNC l1" unfolding l1_def by (subst queued_with_upd) (use that in simp_all)
    then show ?thesis using that queued_with_feed_other [OF _ _ ok1] False by (auto simp: l2_def)
  qed
  have new: "queued_with w EV_ASYNC l2" if "w_sent (watchers l w)"
    using that queued_with_feed [OF ok1 w] by (simp add: l2_def)
  have a2: "async_pending l2 = async_pending l"
    by (simp add: l2_def l1_def ev_feed_event_def Let_def upd_watcher_def)
  have step: "pass_asyncs (w # ws) l = pass_asyncs ws l2" by (simp add: l2_def l1_def)
  have ws: "pending_w \<notin> set ws" using Cons.prems(2) by simp
  have "w_sent (watchers l2 x)" if "x \<noteq> w" "w_sent (watchers l x)" for x using that s2 by blast
  then show ?case unfolding step using Cons.IH [OF ok2 ws] keep new s2 a2 by (metis list.set_intros set_ConsD)
qed simp

section \<open>How long the backend blocks\<close>

lemma block_time_bounds:
  "backend_mintime l \<le> block_time l"
  "block_time l \<le> max MAX_BLOCKTIME (max (timeout_blocktime l) (backend_mintime l))"
  "timercnt l \<noteq> 0 \<Longrightarrow>
     block_time l \<le> max (he_at (timers l HEAP0) - mn_now l) (max (timeout_blocktime l) (backend_mintime l))"
  "periodiccnt l \<noteq> 0 \<Longrightarrow>
     block_time l \<le> max (he_at (periodics l HEAP0) - ev_rt_now l) (max (timeout_blocktime l) (backend_mintime l))"
  by (auto simp: block_time_def Let_def)

section \<open>A loop with nothing to do\<close>

definition nothing_to_do :: "'w ev_loop \<Rightarrow> bool" where
  "nothing_to_do l \<longleftrightarrow> activecnt l = 0 \<and> (\<forall>pri. pendings l pri = []) \<and> fdchanges l = [] \<and> timercnt l = 0 \<and>
     periodiccnt l = 0 \<and> idleall l = 0 \<and> forks l = [] \<and> prepares l = [] \<and> checks l = [] \<and> \<not> postfork l \<and>
     curpid l = 0 \<and> \<not> pipe_write_skipped l \<and> backend_poll l = Poll_poll"

lemma periodics_reschedule_none:
  assumes "periodiccnt l = 0"
  shows "periodics_reschedule env l = Ok l"
  using assms by (simp add: periodics_reschedule_def put_periodics_def reheap_def)

text \<open>Reading clocks and asking the kernel changes only the times and the world.\<close>

definition same_but_clock :: "'w ev_loop \<Rightarrow> 'w ev_loop \<Rightarrow> bool" where
  "same_but_clock l l' \<longleftrightarrow> l' = l\<lparr>ev_rt_now := ev_rt_now l', mn_now := mn_now l', now_floor := now_floor l',
     rtmn_diff := rtmn_diff l', ev_world := ev_world l'\<rparr>"

lemma same_but_clock_trans:
  assumes "same_but_clock l l'" "same_but_clock l' l''"
  shows "same_but_clock l l''"
proof -
  have "l'' = l'\<lparr>ev_rt_now := ev_rt_now l'', mn_now := mn_now l'', now_floor := now_floor l'',
     rtmn_diff := rtmn_diff l'', ev_world := ev_world l''\<rparr>" using assms(2) by (simp only: same_but_clock_def)
  also have "\<dots> = l\<lparr>ev_rt_now := ev_rt_now l'', mn_now := mn_now l'', now_floor := now_floor l'',
     rtmn_diff := rtmn_diff l'', ev_world := ev_world l''\<rparr>"
    by (subst assms(1) [unfolded same_but_clock_def]) simp
  finally show ?thesis by (simp only: same_but_clock_def)
qed

lemma same_but_clockD:
  assumes "same_but_clock l l'"
  shows "nothing_to_do l' = nothing_to_do l" "loop_count l' = loop_count l" "watchers l' = watchers l"
    "timercnt l' = timercnt l" "periodiccnt l' = periodiccnt l" "loop_done l' = loop_done l" "polls l' = polls l"
    "pipe_write_skipped l' = pipe_write_skipped l" "backend_poll l' = backend_poll l"
    "loop_depth l' = loop_depth l"
  by (subst assms [unfolded same_but_clock_def], simp add: nothing_to_do_def)+

lemma same_but_clock_reads: "same_but_clock l (read_time env l)" "same_but_clock l (read_clock env l)"
  by (simp_all add: same_but_clock_def read_time_def read_clock_def split: prod.splits)

lemma same_but_clock_upds:
  "same_but_clock l (l\<lparr>ev_rt_now := a\<rparr>)" "same_but_clock l (l\<lparr>mn_now := a\<rparr>)" "same_but_clock l (l\<lparr>now_floor := a\<rparr>)"
  "same_but_clock l (l\<lparr>rtmn_diff := a\<rparr>)" "same_but_clock l l" "same_but_clock l (l\<lparr>ev_world := x\<rparr>)"
  by (simp_all add: same_but_clock_def)

lemma time_jump_loop_none:
  assumes "periodiccnt l = 0"
  shows "\<exists>l'. time_jump_loop env odiff n l = Ok l' \<and> same_but_clock l l'"
  using assms
proof (induction n arbitrary: l)
  case 0
  then show ?case using same_but_clock_upds(5) by (simp add: periodics_reschedule_none)
next
  case (Suc n)
  define l1 where "l1 = l\<lparr>rtmn_diff := ev_rt_now l - mn_now l\<rparr>"
  define l2 where "l2 = read_clock env (read_time env l1)"
  define l3 where "l3 = l2\<lparr>now_floor := mn_now l2\<rparr>"
  have s1: "same_but_clock l l1" by (simp add: l1_def same_but_clock_upds)
  have "same_but_clock l1 l3" unfolding l3_def l2_def
    by (rule same_but_clock_trans [OF same_but_clock_trans [OF same_but_clock_reads(1) same_but_clock_reads(2)]
          same_but_clock_upds(3)])
  then have s3: "same_but_clock l l3" using same_but_clock_trans [OF s1] by blast
  have "periodiccnt l3 = 0" using same_but_clockD(5) [OF s3] Suc.prems by simp
  then obtain l' where l': "time_jump_loop env odiff n l3 = Ok l'" "same_but_clock l3 l'" using Suc.IH by blast
  have "time_jump_loop env odiff (Suc n) l = (if \<bar>odiff - rtmn_diff l1\<bar> < MIN_TIMEJUMP then Ok l1 else time_jump_loop env odiff n l3)"
    by (simp add: Let_def l1_def [symmetric] l2_def [symmetric] l3_def [symmetric] abs_if)
  then show ?case using l' s1 same_but_clock_trans [OF s3 l'(2)] by (cases "\<bar>odiff - rtmn_diff l1\<bar> < MIN_TIMEJUMP") auto
qed

lemma time_update_none:
  assumes "timercnt l = 0" "periodiccnt l = 0"
  shows "\<exists>l'. time_update env b l = Ok l' \<and> same_but_clock l l'"
proof (cases "have_monotonic env")
  case True
  define l1 where "l1 = read_clock env l"
  have s1: "same_but_clock l l1" by (simp add: l1_def same_but_clock_reads)
  define l2 where "l2 = read_time env (l1\<lparr>now_floor := mn_now l1\<rparr>)"
  have s2: "same_but_clock l l2" unfolding l2_def
    by (rule same_but_clock_trans [OF same_but_clock_trans [OF s1 same_but_clock_upds(3)] same_but_clock_reads(1)])
  have "periodiccnt l2 = 0" using same_but_clockD(5) [OF s2] assms by simp
  then obtain l' where l': "time_jump_loop env (rtmn_diff l) 3 l2 = Ok l'" "same_but_clock l2 l'"
    using time_jump_loop_none by blast
  have "same_but_clock l (l1\<lparr>ev_rt_now := rtmn_diff l1 + mn_now l1\<rparr>)"
    by (rule same_but_clock_trans [OF s1]) (rule same_but_clock_upds)
  then show ?thesis
    using True l' same_but_clock_trans [OF s2 l'(2)]
    by (simp add: time_update_def Let_def l1_def [symmetric] l2_def [symmetric])
next
  case False
  define l1 where "l1 = read_time env l"
  have s1: "same_but_clock l l1" by (simp add: l1_def same_but_clock_reads)
  have c1: "timercnt l1 = 0" "periodiccnt l1 = 0" using same_but_clockD(4,5) [OF s1] assms by simp_all
  have "same_but_clock l (l1\<lparr>mn_now := ev_rt_now l1\<rparr>)"
    by (rule same_but_clock_trans [OF s1]) (rule same_but_clock_upds)
  then show ?thesis
    using False c1 by (simp add: time_update_def Let_def l1_def [symmetric] timers_reschedule_def periodics_reschedule_none)
qed

lemma invoke_nothing:
  assumes "\<forall>pri. pendings l pri = []"
  shows "ev_invoke_pending env fuel l = Ok l"
proof -
  have "invoke_level env n pri l = Ok l" for n pri using assms by (cases n) simp_all
  then have "invoke_levels env n m l = Ok l" for n m by (induction m) simp_all
  then show ?thesis by (simp add: ev_invoke_pending_def)
qed

lemma idle_run_poll:
  assumes idle: "nothing_to_do l"
    and kernel: "\<And>ps t world. \<exists>revents world'. poll_call env ps t world = (Poll_revents 0 revents, world')"
  shows "\<exists>l'. run_poll env flags l = Ok l' \<and> nothing_to_do l' \<and> loop_done l' = 0 \<and>
    loop_count l' = loop_count l + 1 \<and> watchers l' = watchers l \<and> loop_depth l' = loop_depth l"
proof -
  have cnt: "timercnt l = 0" "periodiccnt l = 0" using idle by (simp_all add: nothing_to_do_def)
  obtain l1 where l1: "time_update env (10 ^ 100) l = Ok l1" "same_but_clock l l1" using time_update_none [OF cnt] by blast
  note d1 = same_but_clockD [OF l1(2)]
  define l3 where "l3 = l1\<lparr>pipe_write_wanted := True, loop_count := loop_count l1 + 1, loop_done := EVBREAK_RECURSE\<rparr>"
  obtain revents world where poll: "poll_call env (polls l3) \<lfloor>0 * 1000\<rfloor> (ev_world l3) = (Poll_revents 0 revents, world)"
    using kernel by blast
  define l4 where "l4 = l3\<lparr>ev_world := world, loop_done := EVBREAK_CANCEL, pipe_write_wanted := False\<rparr>"
  have f: "nothing_to_do l1" using d1(1) idle by simp
  have nw: "run_nowait flags (l1\<lparr>pipe_write_wanted := True\<rparr>)" using f by (simp add: run_nowait_def nothing_to_do_def)
  have bp: "call_backend_poll env 0 l3 = Ok (l3\<lparr>ev_world := world\<rparr>)"
    using poll f by (simp add: call_backend_poll_def poll_poll_def nothing_to_do_def l3_def)
  have f4: "nothing_to_do l4" "loop_done l4 = 0" "loop_count l4 = loop_count l + 1" "watchers l4 = watchers l"
    "loop_depth l4 = loop_depth l"
    using f d1 by (simp_all add: l4_def l3_def nothing_to_do_def EVBREAK_CANCEL_def)
  have cnt4: "timercnt l4 = 0" "periodiccnt l4 = 0" using f4(1) by (simp_all add: nothing_to_do_def)
  obtain l5 where l5: "time_update env 0 l4 = Ok l5" "same_but_clock l4 l5" using time_update_none [OF cnt4] by blast
  note d5 = same_but_clockD [OF l5(2)]
  have skipped: "\<not> pipe_write_skipped l4" using f4(1) by (simp add: nothing_to_do_def)
  have "run_poll env flags l = Ok l5"
    using l1(1) l5(1) bp nw skipped
    by (simp add: run_poll_def Let_def l3_def [symmetric] l4_def [symmetric])
      (simp add: l4_def l3_def)
  then show ?thesis using d5 f4 by auto
qed

lemma idle_run_round:
  assumes idle: "nothing_to_do l" and cancel: "loop_done l = 0"
    and kernel: "\<And>ps t world. \<exists>revents world'. poll_call env ps t world = (Poll_revents 0 revents, world')"
  shows "\<exists>l'. run_round env fuel flags l = Ok (True, l') \<and> nothing_to_do l' \<and> loop_done l' = 0 \<and>
    loop_count l' = loop_count l + 1 \<and> watchers l' = watchers l \<and> loop_depth l' = loop_depth l"
proof -
  have prep: "run_prepare env fuel l = Ok l" using idle by (simp add: run_prepare_def nothing_to_do_def)
  have "fdchanges l = []" using idle by (simp add: nothing_to_do_def)
  then have reify: "fd_reify env l = Ok l" by (simp add: fd_reify_def)
  obtain l1 where l1: "run_poll env flags l = Ok l1" "nothing_to_do l1" "loop_done l1 = 0"
    "loop_count l1 = loop_count l + 1" "watchers l1 = watchers l" "loop_depth l1 = loop_depth l"
    using idle_run_poll [OF idle kernel] by blast
  have "run_reify env l1 = Ok l1"
    using l1(2) by (simp add: run_reify_def timers_reify_def timer_expired_def periodics_reify_def
        periodic_expired_def idle_reify_def nothing_to_do_def)
  moreover have "ev_invoke_pending env fuel l1 = Ok l1" using l1(2) by (intro invoke_nothing) (simp add: nothing_to_do_def)
  ultimately have "run_round env fuel flags l = Ok (True, l1)"
    using idle cancel prep reify l1(1) by (simp add: run_round_def nothing_to_do_def)
  then show ?thesis using l1 by blast
qed

end
