(* ===== verification/Ev_Typed.thy ===== *)
theory Ev_Typed
  imports Ev_Verify
begin

unbundle bit_operations_syntax

text \<open>
  Starting and stopping io watchers keeps the loop in order, like that of timers and of the
  watchers in arrays.
\<close>

lemma same_but_trans: "same_but k l'' l' \<Longrightarrow> same_but k l' l \<Longrightarrow> same_but k l'' l"
  by (auto simp: same_but_def)

lemma io_same:
  "same_but Io_watcher (put_anfd fd a l) l" "same_but Io_watcher (anfds_needsize n l) l"
  "same_but k (ev_start w n l) l" "same_but k (ev_stop w l) l" "same_but k (upd_watcher w f l) l"
  by (simp_all add: same_but_def put_anfd_def anfds_needsize_def ev_start_def ev_stop_def ev_ref_def ev_unref_def
      pri_adjust_def upd_watcher_def Let_def)

lemma fd_change_same: "fd_change fd fl l = Ok l' \<Longrightarrow> same_but Io_watcher l' l"
  by (auto simp: fd_change_def same_but_def put_anfd_def Let_def obind_eq_Ok)

lemma io_start_same:
  assumes "ev_io_start w l = Ok l'" and "\<not> ev_is_active w l"
  shows "same_but Io_watcher l' l"
proof -
  let ?l = "anfds_needsize (nat (w_fd (watchers l w)) + 1) (ev_start w 1 l)"
  obtain a l1 where l1: "l' = upd_watcher w (\<lambda>x. x\<lparr>w_events := w_events x AND NOT EV__IOFDSET\<rparr>) l1"
    "fd_change (nat (w_fd (watchers l w))) (w_events (watchers l w) AND EV__IOFDSET OR EV_ANFD_REIFY)
       (put_anfd (nat (w_fd (watchers l w))) a ?l) = Ok l1"
    using assms by (auto simp: ev_io_start_def Let_def obind_eq_Ok)
  show ?thesis
    unfolding l1(1) by (rule same_but_trans [OF io_same(5) same_but_trans [OF fd_change_same [OF l1(2)]
      same_but_trans [OF io_same(1) same_but_trans [OF io_same(2) io_same(3)]]]])
qed

lemma io_stop_same:
  assumes "ev_io_stop w l = Ok l'" and "ev_is_active w l"
  shows "same_but Io_watcher l' l"
proof -
  let ?l = "clear_pending w l"
  obtain a where "fd_change (nat (w_fd (watchers ?l w))) EV_ANFD_REIFY
      (ev_stop w (put_anfd (nat (w_fd (watchers ?l w))) a ?l)) = Ok l'"
    using assms by (auto simp: ev_io_stop_def Let_def obind_eq_Ok ev_is_active_def clear_pending_keeps)
  from fd_change_same [OF this] show ?thesis
    by (rule same_but_trans [OF _ same_but_trans [OF io_same(4) same_but_trans [OF io_same(1) clear_pending_same]]])
qed

lemma io_start_loop_ok:
  assumes ok: "loop_ok K l" and K: "K w = Io_watcher" and idle: "\<not> ev_is_active w l" and fd: "0 \<le> w_fd (watchers l w)"
    and ev: "w_events (watchers l w) AND NOT (EV__IOFDSET OR EV_READ OR EV_WRITE) = 0" and p: "w_pending (watchers l w) = 0"
  shows "\<exists>l'. ev_io_start w l = Ok l' \<and> loop_ok K l' \<and> ev_is_active w l' \<and>
    nat (w_fd (watchers l w)) < length (anfds l') \<and> w \<in> set (fd_head (anfds l' ! nat (w_fd (watchers l w)))) \<and>
    (\<forall>x. x \<noteq> w \<longrightarrow> watchers l' x = watchers l x) \<and> pendings l' = pendings l \<and> w_pending (watchers l' w) = 0"
proof -
  note d = loop_okD [OF ok]
  obtain l' where l': "ev_io_start w l = Ok l'" "fds_ok l'" "pendings l' = pendings l" "ev_is_active w l'"
    "nat (w_fd (watchers l w)) < length (anfds l')" "w \<in> set (fd_head (anfds l' ! nat (w_fd (watchers l w))))"
    "\<And>k x. k < length (anfds l') \<Longrightarrow> x \<in> set (fd_head (anfds l' ! k)) \<Longrightarrow>
       x = w \<or> k < length (anfds l) \<and> x \<in> set (fd_head (anfds l ! k))"
    "w_priority (watchers l' w) = w_priority (watchers (pri_adjust w l) w)"
    "\<And>x. w_pending (watchers l' x) = w_pending (watchers l x)" "\<And>x. x \<noteq> w \<Longrightarrow> watchers l' x = watchers l x"
    using poll.ev_io_start_ok [OF d(2) idle fd ev] by blast
  have "w_priority (watchers l' x) = w_priority (watchers l x)" if "w_pending (watchers l x) \<noteq> 0" for x
    using l'(10) [of x] p that by metis
  then have pok: "pending_ok l'" by (rule pending_ok_cong [OF d(3) l'(3,9)])
  have agree: "agree_on {x. K x \<noteq> Io_watcher} (watchers l) (watchers l')"
    using l'(10) K by (intro agree_onI) (metis mem_Collect_eq)
  have good: "good_pri (watchers l' w)"
    using l'(8) by (simp add: good_pri_def pri_adjust_def Let_def EV_MINPRI_def EV_MAXPRI_def)
  have "K x = Io_watcher \<and> good_pri (watchers l' x)" if "k < length (anfds l')" "x \<in> set (fd_head (anfds l' ! k))" for k x
    using l'(7) [OF that] l'(10) [of x] d(5) good K by (cases "x = w") (auto simp: io_typed_def)
  then have "loop_part K Io_watcher l'"
    using l'(2) unfolding loop_part_def io_typed_def fds_ok_def fds_ok_for_def io_lists_ok_def by simp
  then have "loop_ok K l'" using loop_ok_change [OF ok io_start_same [OF l'(1) idle] pok agree] l'(2) by simp
  then show ?thesis using l'(1,3-6,9,10) p by auto
qed

text \<open>An active io watcher is in the list of its descriptor.\<close>

definition linked :: "addr \<Rightarrow> 'w ev_loop \<Rightarrow> bool" where
  "linked w l \<longleftrightarrow> (\<exists>fd < length (anfds l). w \<in> set (fd_head (anfds l ! fd)))"

lemma io_stop_loop_ok:
  assumes ok: "loop_ok K l" and w: "linked w l"
  shows "\<exists>l'. ev_io_stop w l = Ok l' \<and> loop_ok K l' \<and> \<not> ev_is_active w l' \<and> \<not> linked w l' \<and>
    (\<forall>x. x \<noteq> w \<longrightarrow> watchers l' x = watchers l x) \<and> pendings l' = pendings (clear_pending w l) \<and> w_pending (watchers l' w) = 0"
proof -
  note d = loop_okD [OF ok]
  obtain fd where fd: "fd < length (anfds l)" "w \<in> set (fd_head (anfds l ! fd))" using w by (auto simp: linked_def)
  obtain l' where l': "ev_io_stop w l = Ok l'" "fds_ok l'" "pending_ok l'" "length (anfds l') = length (anfds l)"
    "\<And>k. k < length (anfds l) \<Longrightarrow> fd_head (anfds l' ! k) =
       (if k = fd then remove1 w (fd_head (anfds l ! k)) else fd_head (anfds l ! k))"
    "watchers l' = (watchers (clear_pending w l))(w := (watchers (clear_pending w l) w)\<lparr>w_active := 0\<rparr>)"
    "pendings l' = pendings (clear_pending w l)"
    using poll.ev_io_stop_ok [OF d(2,3) fd] by blast
  have K: "K w = Io_watcher" using d(5) fd by (auto simp: io_typed_def)
  have other: "watchers l' x = watchers l x" if "x \<noteq> w" for x using that by (simp add: l'(6) clear_pending_def Let_def)
  have agree: "agree_on {x. K x \<noteq> Io_watcher} (watchers l) (watchers l')"
    using other K by (intro agree_onI) (metis mem_Collect_eq)
  have idle: "\<not> ev_is_active w l'" "w_pending (watchers l' w) = 0"
    using pending_ok_clear(2) [OF d(3), of w] by (simp_all add: ev_is_active_def l'(6))
  have active: "w_active (watchers l' x) = 1" if "k < length (anfds l')" "x \<in> set (fd_head (anfds l' ! k))" for k x
    using l'(2) that unfolding fds_ok_def fds_ok_for_def io_lists_ok_def by blast
  have gone: "\<not> linked w l'" using active idle(1) by (auto simp: linked_def ev_is_active_def)
  have "K x = Io_watcher \<and> good_pri (watchers l' x)" if "k < length (anfds l')" "x \<in> set (fd_head (anfds l' ! k))" for k x
  proof -
    have "x \<noteq> w" using gone that by (auto simp: linked_def)
    moreover have "x \<in> set (fd_head (anfds l ! k))" "k < length (anfds l)"
      using that l'(4,5) set_remove1_subset [of w "fd_head (anfds l ! fd)"] by (auto split: if_splits)
    ultimately show ?thesis using d(5) other by (auto simp: io_typed_def)
  qed
  then have "loop_part K Io_watcher l'"
    using l'(2) unfolding loop_part_def io_typed_def fds_ok_def fds_ok_for_def io_lists_ok_def by simp
  moreover have "ev_is_active w l"
    using d(2) fd unfolding fds_ok_def fds_ok_for_def io_lists_ok_def ev_is_active_def by fastforce
  ultimately have "loop_ok K l'" using loop_ok_change [OF ok io_stop_same [OF l'(1)] l'(3) agree] l'(2) by simp
  then show ?thesis using l'(1,7) idle gone other by auto
qed

end
