(* ===== verification/Ev_Count.thy ===== *)
theory Ev_Count
  imports Ev_Typed
begin

unbundle bit_operations_syntax

text \<open>
  The reference count of a loop: every start and stop counts, so the count is that of the watchers
  that are started. And what the backends do that stop watchers themselves while changes are passed on.
\<close>

section \<open>What the count exceeds\<close>

definition io_count :: "'w ev_loop \<Rightarrow> nat" where
  "io_count l = sum_list (map (\<lambda>a. length (fd_head a)) (anfds l))"

text \<open>Cleanup watchers are not counted.\<close>

definition started :: "'w ev_loop \<Rightarrow> nat" where
  "started l = io_count l + timercnt l + length (prepares l) + length (checks l) + length (forks l)"

definition counted :: "'w ev_loop \<Rightarrow> int \<times> int" where
  "counted l = (activecnt l - int (started l), idleall l)"

lemma count_same:
  "counted (upd_watcher w f l) = counted l" "counted (clear_pending w l) = counted l"
  "counted (ev_feed_event w e l) = counted l" "counted (pop_pending pri l) = counted l"
  "counted (put_timers r l) = counted l" "counted (activate w k l) = counted l"
  "counted (pri_adjust w l) = counted l"
  by (simp_all add: counted_def started_def io_count_def upd_watcher_def clear_pending_def ev_feed_event_def
      pop_pending_def put_timers_def activate_def pri_adjust_def Let_def split: prod.split)

lemma count_start_stop:
  "counted (ev_start w k l) = (fst (counted l) + 1, snd (counted l))"
  "counted (ev_stop w l) = (fst (counted l) - 1, snd (counted l))"
  "counted (ev_ref l) = (fst (counted l) + 1, snd (counted l))"
  "counted (ev_unref l) = (fst (counted l) - 1, snd (counted l))"
  by (simp_all add: counted_def started_def io_count_def ev_start_def ev_stop_def ev_ref_def ev_unref_def pri_adjust_def
      upd_watcher_def Let_def)

lemma count_put_anfd:
  assumes "fd < length (anfds l)"
  shows "counted (put_anfd fd a l) =
    (fst (counted l) + int (length (fd_head (anfds l ! fd))) - int (length (fd_head a)), snd (counted l))"
proof -
  have "length (fd_head (anfds l ! fd)) \<le> sum_list (map (\<lambda>a. length (fd_head a)) (anfds l))"
    using assms by (intro member_le_sum_list) auto
  then show ?thesis
    using assms by (simp add: counted_def started_def io_count_def put_anfd_def map_update sum_list_update)
qed

lemma count_needsize: "counted (anfds_needsize n l) = counted l"
  by (simp add: counted_def started_def io_count_def anfds_needsize_def no_anfd_def sum_list_replicate)

lemma count_fd_change: "fd_change fd flags l = Ok l' \<Longrightarrow> counted l' = counted l"
proof -
  assume c: "fd_change fd flags l = Ok l'"
  then have fd: "fd < length (anfds l)" by (auto simp: fd_change_def anfd_at_def split: if_splits)
  let ?l = "put_anfd fd ((anfds l ! fd)\<lparr>fd_reify_flag := (fd_reify_flag (anfds l ! fd) OR flags) AND 0xFF\<rparr>) l"
  have "counted l' = counted ?l"
    using c fd by (auto simp: fd_change_def anfd_at_def Let_def counted_def started_def io_count_def split: if_splits)
  then show ?thesis using fd by (simp add: count_put_anfd)
qed

section \<open>Starting and stopping count\<close>

lemma count_io_start:
  assumes "ev_io_start w l = Ok l'" "\<not> ev_is_active w l"
  shows "counted l' = counted l"
proof -
  let ?fd = "nat (w_fd (watchers l w))" and ?l = "anfds_needsize (nat (w_fd (watchers l w)) + 1) (ev_start w 1 l)"
  obtain a l1 where l1: "l' = upd_watcher w (\<lambda>x. x\<lparr>w_events := w_events x AND NOT EV__IOFDSET\<rparr>) l1" "anfd_at ?fd ?l = Ok a"
    "fd_change ?fd (w_events (watchers l w) AND EV__IOFDSET OR EV_ANFD_REIFY)
       (put_anfd ?fd (a\<lparr>fd_head := wlist_add (fd_head a) w\<rparr>) ?l) = Ok l1"
    using assms by (auto simp: ev_io_start_def Let_def obind_eq_Ok)
  have a: "?fd < length (anfds ?l)" "a = anfds ?l ! ?fd" using l1(2) by (auto simp: anfd_at_def split: if_splits)
  show ?thesis
    unfolding l1(1) count_same(1) count_fd_change [OF l1(3)]
    using a(1) by (simp add: count_put_anfd a(2) wlist_add_def count_needsize count_start_stop)
qed

lemma linked_at:
  assumes "loop_ok K l" "linked w l"
  shows "\<exists>fd. fd < length (anfds l) \<and> w \<in> set (fd_head (anfds l ! fd)) \<and> w_fd (watchers l w) = int fd \<and> ev_is_active w l"
  using assms(2) loop_okD(5) [OF assms(1)] by (auto simp: linked_def io_typed_def ev_is_active_def)

lemma count_io_stop:
  assumes "ev_io_stop w l = Ok l'" "loop_ok K l" "linked w l"
  shows "counted l' = counted l"
proof -
  obtain fd where fd: "fd < length (anfds l)" "w \<in> set (fd_head (anfds l ! fd))" "w_fd (watchers l w) = int fd"
    "ev_is_active w l" using linked_at [OF assms(2,3)] by blast
  let ?l = "clear_pending w l" and ?a = "anfds l ! fd"
  have k: "anfds ?l = anfds l" "w_fd (watchers ?l w) = int fd" "ev_is_active w ?l"
    using fd by (simp_all add: clear_pending_keeps ev_is_active_def)
  have c: "fd_change fd EV_ANFD_REIFY (ev_stop w (put_anfd fd (?a\<lparr>fd_head := wlist_del (fd_head ?a) w\<rparr>) ?l)) = Ok l'"
    using assms(1) fd(1) by (auto simp: ev_io_stop_def Let_def obind_eq_Ok k anfd_at_def)
  have "0 < length (fd_head ?a)" using fd(2) by (cases "fd_head ?a") auto
  then have "int (length (wlist_del (fd_head ?a) w)) = int (length (fd_head ?a)) - 1"
    using fd(2) by (simp add: wlist_del_remove1 length_remove1 of_nat_diff Suc_le_eq)
  then show ?thesis
    unfolding count_fd_change [OF c] using fd(1) by (simp add: count_start_stop count_put_anfd k count_same)
qed

lemma count_timer_start:
  assumes "ev_timer_start w l = Ok l'" "\<not> ev_is_active w l"
  shows "counted l' = counted l"
  using assms
  by (auto simp: ev_timer_start_def Let_def obind_eq_Ok count_same count_start_stop)
    (simp add: counted_def started_def io_count_def upd_watcher_def)

lemma count_timer_stop:
  assumes "ev_timer_stop w l = Ok l'" "loop_ok K l" "w \<in> he_w ` timer_entries l"
  shows "counted l' = counted l"
proof -
  let ?l = "clear_pending w l"
  let ?d = "?l\<lparr>timercnt := timercnt ?l - 1\<rparr>"
  have act: "ev_is_active w l"
    using timers_okD(4) [OF loop_okD(6) [OF assms(2)]] assms(3) by blast
  then have "ev_is_active w ?l" by (simp add: ev_is_active_def clear_pending_keeps)
  then have "counted l' = (fst (counted ?d) - 1, snd (counted ?d))"
    using assms(1) by (auto simp: ev_timer_stop_def Let_def obind_eq_Ok count_same count_start_stop)
  moreover have "timercnt ?l > 0"
    using assms(3) by (auto simp: timer_entries_def heap_entries_def heap_range_def clear_pending_def Let_def)
  then have "counted ?d = (fst (counted ?l) + 1, snd (counted ?l))"
    by (simp add: counted_def started_def io_count_def)
  ultimately show ?thesis by (simp add: count_same)
qed

lemma array_remove_length: "array_remove k xs = Ok (ys, m) \<Longrightarrow> Suc (length ys) = length xs"
  by (auto simp: array_remove_def split: if_splits)

lemma count_array_start:
  assumes "\<not> ev_is_active w l"
  shows "ev_prepare_start w l = Ok l' \<Longrightarrow> counted l' = counted l"
    "ev_check_start w l = Ok l' \<Longrightarrow> counted l' = counted l"
    "ev_fork_start w l = Ok l' \<Longrightarrow> counted l' = counted l"
    "ev_cleanup_start w l = Ok l' \<Longrightarrow> counted l' = counted l"
  using assms
  by (auto simp: ev_prepare_start_def ev_check_start_def ev_fork_start_def ev_cleanup_start_def counted_def started_def
      io_count_def ev_start_def ev_ref_def ev_unref_def pri_adjust_def upd_watcher_def Let_def)

lemma count_array_stop:
  assumes "ev_is_active w l"
  shows "ev_prepare_stop w l = Ok l' \<Longrightarrow> counted l' = counted l"
    "ev_check_stop w l = Ok l' \<Longrightarrow> counted l' = counted l"
    "ev_fork_stop w l = Ok l' \<Longrightarrow> counted l' = counted l"
    "ev_cleanup_stop w l = Ok l' \<Longrightarrow> counted l' = counted l"
proof -
  have act: "ev_is_active w (clear_pending w l)" using assms by (simp add: ev_is_active_def clear_pending_keeps)
  have arrays: "prepares (clear_pending w l) = prepares l" "checks (clear_pending w l) = checks l"
    "forks (clear_pending w l) = forks l" "cleanups (clear_pending w l) = cleanups l" "timercnt (clear_pending w l) = timercnt l"
    "anfds (clear_pending w l) = anfds l" "activecnt (clear_pending w l) = activecnt l" "idleall (clear_pending w l) = idleall l"
    by (simp_all add: clear_pending_def Let_def upd_watcher_def)
  note defs = act obind_eq_Ok counted_def started_def io_count_def ev_stop_def ev_ref_def ev_unref_def activate_def upd_watcher_def Let_def arrays
  show "ev_prepare_stop w l = Ok l' \<Longrightarrow> counted l' = counted l"
    by (auto simp: ev_prepare_stop_def defs dest!: array_remove_length)
  show "ev_check_stop w l = Ok l' \<Longrightarrow> counted l' = counted l"
    by (auto simp: ev_check_stop_def defs dest!: array_remove_length)
  show "ev_fork_stop w l = Ok l' \<Longrightarrow> counted l' = counted l"
    by (auto simp: ev_fork_stop_def defs dest!: array_remove_length)
  show "ev_cleanup_stop w l = Ok l' \<Longrightarrow> counted l' = counted l"
    by (auto simp: ev_cleanup_stop_def defs)
qed

section \<open>Queueing keeps a loop in order\<close>

lemma loop_ok_queue:
  assumes ok: "loop_ok K l" and "pending_ok l'" and same: "\<And>k. same_but k l' l"
    and "\<And>x. w_active (watchers l' x) = w_active (watchers l x) \<and> w_priority (watchers l' x) = w_priority (watchers l x) \<and>
      w_at (watchers l' x) = w_at (watchers l x) \<and> w_fd (watchers l' x) = w_fd (watchers l x) \<and>
      w_events (watchers l' x) = w_events (watchers l x)"
  shows "loop_ok K l'"
proof -
  have agree: "agree_on A (watchers l) (watchers l')" for A using assms(4) by (simp add: agree_on_def)
  have "loop_part K Signal_watcher l'" by (simp add: loop_part_def)
  then show ?thesis using loop_ok_change [OF ok same assms(2) agree, of Signal_watcher] by simp
qed

lemma feed_loop_ok:
  assumes "loop_ok K l" "w \<noteq> pending_w"
  shows "loop_ok K (ev_feed_event w revents l)"
  by (rule loop_ok_queue [OF assms(1) pending_ok_feed [OF loop_okD(3) [OF assms(1)] assms(2)]])
    (auto simp: same_but_def ev_feed_event_def Let_def upd_watcher_def)

section \<open>Backends that stop watchers\<close>

text \<open>Books that a backend may change without anybody noticing.\<close>

definition fd_view :: "anfd \<Rightarrow> addr list \<times> ev_mask \<times> ev_mask" where
  "fd_view a = (fd_head a, fd_events a, fd_reify_flag a)"

definition quiet_change :: "'w ev_loop \<Rightarrow> 'w ev_loop \<Rightarrow> bool" where
  "quiet_change l' l \<longleftrightarrow> map fd_view (anfds l') = map fd_view (anfds l) \<and> watchers l' = watchers l \<and>
     pendings l' = pendings l \<and> fdchanges l' = fdchanges l \<and> same_but Io_watcher l' l \<and> counted l' = counted l \<and>
     backend_modify l' = backend_modify l"

lemma quiet_loop_ok:
  assumes ok: "loop_ok K l" and q: "quiet_change l' l"
  shows "loop_ok K l'"
proof -
  note d = loop_okD [OF ok]
  have len: "length (anfds l') = length (anfds l)" using q by (metis quiet_change_def length_map)
  have view: "fd_view (anfds l' ! fd) = fd_view (anfds l ! fd)" if "fd < length (anfds l)" for fd
    using q that len by (metis quiet_change_def nth_map)
  have same: "fd_head (anfds l' ! fd) = fd_head (anfds l ! fd)" "fd_events (anfds l' ! fd) = fd_events (anfds l ! fd)"
    "fd_reify_flag (anfds l' ! fd) = fd_reify_flag (anfds l ! fd)" if "fd < length (anfds l)" for fd
    using view [OF that] by (simp_all add: fd_view_def)
  have core: "watchers l' = watchers l" "pendings l' = pendings l" "fdchanges l' = fdchanges l" "same_but Io_watcher l' l"
    using q by (simp_all add: quiet_change_def)
  have "loop_part K Io_watcher l'" using d(5) by (simp add: loop_part_def io_typed_def same len core(1))
  moreover have "pending_ok l'" using d(3) by (simp add: pending_ok_def core)
  moreover have "agree_on {x. K x \<noteq> Io_watcher} (watchers l) (watchers l')" by (simp add: agree_on_def core(1))
  moreover have "fds_ok l'"
    using d(2) by (simp add: fds_ok_def fds_ok_for_def io_lists_ok_def same len core or_events_def)
  ultimately show ?thesis using loop_ok_change [OF ok core(4)] by blast
qed

text \<open>A part of a backend's work: it keeps the loop in order and its counts.\<close>

definition backend_step :: "(addr \<Rightarrow> watcher_type) \<Rightarrow> 'w ev_loop \<Rightarrow> 'w ev_loop \<Rightarrow> bool" where
  "backend_step K l' l \<longleftrightarrow> loop_ok K l' \<and> counted l' = counted l \<and> backend_modify l' = backend_modify l"

lemma backend_step_trans: "backend_step K l'' l' \<Longrightarrow> backend_step K l' l \<Longrightarrow> backend_step K l'' l"
  by (simp add: backend_step_def)

lemma quiet_step: "loop_ok K l \<Longrightarrow> quiet_change l' l \<Longrightarrow> backend_step K l' l"
  using quiet_loop_ok by (auto simp: backend_step_def quiet_change_def)

lemma quiet_changes:
  "quiet_change (l\<lparr>ev_world := w\<rparr>) l" "quiet_change (l\<lparr>epoll_eperms := es, ev_world := w\<rparr>) l"
  "fd < length (anfds l) \<Longrightarrow> fd_view a = fd_view (anfds l ! fd) \<Longrightarrow> quiet_change (put_anfd fd a l) l"
  by (auto simp: quiet_change_def same_but_def counted_def started_def io_count_def put_anfd_def map_update
      list_update_same_conv sum_list_update fd_view_def intro!: arg_cong [where f = sum_list])

lemma kill_loop_step:
  assumes "fd_kill_loop n fd l = Ok l'" and "loop_ok K l" and "K pending_w \<noteq> Io_watcher"
  shows "backend_step K l' l"
  using assms(1,2)
proof (induction n arbitrary: l)
  case 0
  then show ?case by (auto simp: obind_eq_Ok backend_step_def split: if_splits)
next
  case (Suc n)
  obtain a where a: "anfd_at fd l = Ok a" using Suc.prems(1) by (auto simp: obind_eq_Ok)
  then have fd: "fd < length (anfds l)" "a = anfds l ! fd" by (auto simp: anfd_at_def split: if_splits)
  show ?case
  proof (cases "fd_head a")
    case Nil
    then show ?thesis using Suc.prems a by (auto simp: backend_step_def)
  next
    case (Cons w ws)
    obtain l1 where l1: "ev_io_stop w l = Ok l1"
      "fd_kill_loop n fd (ev_feed_event w (EV_ERROR OR EV_READ OR EV_WRITE) l1) = Ok l'"
      using Suc.prems(1) a Cons by (auto simp: obind_eq_Ok)
    have w: "linked w l" "w \<noteq> pending_w"
      using fd Cons loop_okD(5) [OF Suc.prems(2)] assms(3) by (auto simp: linked_def io_typed_def)
    have ok1: "loop_ok K l1" using io_stop_loop_ok [OF Suc.prems(2) w(1)] l1(1) by auto
    have "backend_modify l1 = backend_modify l"
      using l1(1) linked_at [OF Suc.prems(2) w(1)]
      by (auto simp: ev_io_stop_def Let_def obind_eq_Ok fd_change_def anfd_at_def put_anfd_def ev_stop_def ev_unref_def
          upd_watcher_def clear_pending_keeps split: if_splits)
    then have "backend_step K l1 l" using ok1 count_io_stop [OF l1(1) Suc.prems(2) w(1)] by (simp add: backend_step_def)
    moreover have "backend_step K (ev_feed_event w (EV_ERROR OR EV_READ OR EV_WRITE) l1) l1"
      using feed_loop_ok [OF ok1 w(2)] by (simp add: backend_step_def count_same ev_feed_event_keeps)
    ultimately show ?thesis
      using Suc.IH [OF l1(2)] by (meson backend_step_def backend_step_trans)
  qed
qed

lemma kill_step: "fd_kill fd l = Ok l' \<Longrightarrow> loop_ok K l \<Longrightarrow> K pending_w \<noteq> Io_watcher \<Longrightarrow> backend_step K l' l"
  by (auto simp: fd_kill_def obind_eq_Ok dest: kill_loop_step)

section \<open>Backends that can kill a descriptor\<close>

lemma dec_egen_step: "dec_egen fd l = Ok l' \<Longrightarrow> loop_ok K l \<Longrightarrow> backend_step K l' l"
  by (rule quiet_step) (auto simp: dec_egen_def obind_eq_Ok anfd_at_def fd_view_def intro!: quiet_changes split: if_splits)

lemma kill_and_dec_step:
  "kill_and_dec fd l = Ok l' \<Longrightarrow> loop_ok K l \<Longrightarrow> K pending_w \<noteq> Io_watcher \<Longrightarrow> backend_step K l' l"
  by (auto simp: kill_and_dec_def obind_eq_Ok dest!: kill_step [where K = K])
    (meson backend_step_def backend_step_trans dec_egen_step)

lemma epoll_eperm_step:
  assumes "epoll_eperm fd oldmask l = Ok l'" "loop_ok K l"
  shows "backend_step K l' l"
proof -
  have fd: "fd < length (anfds l)" using assms(1) by (auto simp: epoll_eperm_def obind_eq_Ok anfd_at_def split: if_splits)
  let ?l = "put_anfd fd ((anfds l ! fd)\<lparr>fd_emask := EV_EMASK_EPERM\<rparr>) l"
  have 1: "backend_step K ?l l" by (rule quiet_step [OF assms(2) quiet_changes(3) [OF fd]]) (simp add: fd_view_def)
  then have 2: "backend_step K (?l\<lparr>epoll_eperms := es\<rparr>) ?l" for es
    using quiet_changes(2) [where l = ?l and es = es and w = "ev_world ?l"] by (intro quiet_step) (simp_all add: backend_step_def)
  show ?thesis
    using assms(1) fd 1 backend_step_trans [OF 2 1]
    by (auto simp: epoll_eperm_def anfd_at_def Let_def split: if_splits)
qed

lemma epoll_ctl_step:
  "call_epoll_ctl env op fd ev l = (r, l') \<Longrightarrow> loop_ok K l \<Longrightarrow> backend_step K l' l"
  by (auto simp: call_epoll_ctl_def split: prod.splits intro!: quiet_step quiet_changes)

lemma epoll_modify_step:
  assumes "epoll_modify env fd oev nev l = Ok l'" "loop_ok K l" "K pending_w \<noteq> Io_watcher"
  shows "backend_step K l' l"
proof (cases "nev = 0")
  case True
  then show ?thesis using assms by (auto simp: epoll_modify_def backend_step_def)
next
  case False
  obtain a where a: "anfd_at fd l = Ok a" using assms(1) False by (auto simp: epoll_modify_def obind_eq_Ok)
  then have fd: "fd < length (anfds l)" "a = anfds l ! fd" by (auto simp: anfd_at_def split: if_splits)
  let ?op = "if oev \<noteq> 0 \<and> fd_emask a \<noteq> nev then EPOLL_CTL_MOD else EPOLL_CTL_ADD"
  let ?ev = "\<lparr>ep_events = epoll_bits nev, ep_data = epoll_data fd (fd_egen a + 1)\<rparr>"
  let ?l1 = "put_anfd fd (a\<lparr>fd_emask := nev AND 0xFF, fd_egen := fd_egen a + 1\<rparr>) l"
  have 1: "backend_step K ?l1 l"
    by (rule quiet_step [OF assms(2) quiet_changes(3) [OF fd(1)]]) (simp add: fd_view_def fd(2))
  obtain r2 l2 where c2: "call_epoll_ctl env ?op fd ?ev ?l1 = (r2, l2)" by force
  have 2: "backend_step K l2 l"
    using 1 by (intro backend_step_trans [OF epoll_ctl_step [OF c2] 1]) (simp add: backend_step_def)
  then have ok2: "loop_ok K l2" by (simp add: backend_step_def)
  have next_call: "backend_step K l3 l" "loop_ok K l3" if "call_epoll_ctl env op fd ?ev l2 = (r3, l3)" for op r3 l3
    using backend_step_trans [OF epoll_ctl_step [OF that ok2] 2] by (simp_all add: backend_step_def)
  have fails: "backend_step K l'' l" if "kill_and_dec fd k = Ok l'' \<or> dec_egen fd k = Ok l'' \<or> epoll_eperm fd m k = Ok l''"
      "backend_step K k l" for k l'' m
    using that kill_and_dec_step [of fd k l'' K] dec_egen_step [of fd k l'' K] epoll_eperm_step [of fd m k l'' K] assms(3)
      backend_step_trans by (auto simp: backend_step_def)
  obtain r3 l3 where c3: "call_epoll_ctl env EPOLL_CTL_ADD fd ?ev l2 = (r3, l3)" by force
  obtain r4 l4 where c4: "call_epoll_ctl env EPOLL_CTL_MOD fd ?ev l2 = (r4, l4)" by force
  have "(if r2 = 0 then Ok l2
         else if r2 = ENOENT then if r3 = 0 then Ok l3 else kill_and_dec fd l3
         else if r2 = EEXIST then if fd_emask a = nev then dec_egen fd l2
           else if r4 = 0 then Ok l4 else kill_and_dec fd l4
         else if r2 = EPERM then epoll_eperm fd (fd_emask a) l2
         else kill_and_dec fd l2) = Ok l'"
    using assms(1) False a c2 c3 c4 by (simp add: epoll_modify_def Let_def cong: if_cong)
  then show ?thesis
    using 2 next_call(1) [OF c3] next_call(1) [OF c4] fails [of l2 l'] fails [of l3 l'] fails [of l4 l']
    by (auto split: if_splits)
qed

lemma port_modify_step:
  assumes "port_modify env fd oev nev l = Ok l'" "loop_ok K l" "K pending_w \<noteq> Io_watcher"
  shows "backend_step K l' l"
proof -
  have world: "backend_step K (l\<lparr>ev_world := w\<rparr>) l" for w by (rule quiet_step [OF assms(2) quiet_changes(1)])
  have self: "backend_step K l l" using assms(2) by (simp add: backend_step_def)
  have "backend_step K l' l" if "fd_kill fd (l\<lparr>ev_world := w\<rparr>) = Ok l'" for w
    using world [of w] kill_step [OF that, of K] assms(3) by (intro backend_step_trans [OF _ world [of w]]) (auto simp: backend_step_def)
  then show ?thesis
    using assms(1) world self by (auto simp: port_modify_def port_associate_and_check_def Let_def split: if_splits prod.splits)
qed

text \<open>
  The loop over the changes drops none of them before the end: the ones worked off are a prefix that the
  functions of the backend only extend behind it.
\<close>

definition behind :: "nat list \<Rightarrow> 'w ev_loop \<Rightarrow> 'w ev_loop" where
  "behind p l = l\<lparr>fdchanges := p @ fdchanges l\<rparr>"

definition behind_all :: "nat list \<Rightarrow> 'w ev_loop outcome \<Rightarrow> 'w ev_loop outcome" where
  "behind_all p r = obind r (\<lambda>l. Ok (behind p l))"

lemma behind_fields [simp]:
  "anfds (behind p l) = anfds l" "watchers (behind p l) = watchers l" "pendings (behind p l) = pendings l"
  "ev_world (behind p l) = ev_world l" "backend_fd (behind p l) = backend_fd l" "backend_modify (behind p l) = backend_modify l"
  "fdchanges (behind p l) = p @ fdchanges l" "epoll_eperms (behind p l) = epoll_eperms l" "activecnt (behind p l) = activecnt l"
  "anfd_at fd (behind p l) = anfd_at fd l" "ev_is_active w (behind p l) = ev_is_active w l"
  by (simp_all add: behind_def anfd_at_def ev_is_active_def)

lemma behind_commutes:
  "put_anfd fd a (behind p l) = behind p (put_anfd fd a l)"
  "upd_watcher w f (behind p l) = behind p (upd_watcher w f l)"
  "clear_pending w (behind p l) = behind p (clear_pending w l)"
  "ev_feed_event w e (behind p l) = behind p (ev_feed_event w e l)"
  "ev_stop w (behind p l) = behind p (ev_stop w l)"
  "(behind p l)\<lparr>ev_world := world\<rparr> = behind p (l\<lparr>ev_world := world\<rparr>)"
  "(behind p l)\<lparr>epoll_eperms := es\<rparr> = behind p (l\<lparr>epoll_eperms := es\<rparr>)"
  by (simp_all add: behind_def put_anfd_def upd_watcher_def clear_pending_def ev_feed_event_def ev_stop_def ev_unref_def Let_def)

lemma behind_fd_change: "fd_change fd fl (behind p l) = behind_all p (fd_change fd fl l)"
  by (cases "anfd_at fd l")
    (simp_all add: fd_change_def behind_all_def behind_commutes Let_def, simp add: behind_def put_anfd_def)

lemma behind_io_stop: "ev_io_stop w (behind p l) = behind_all p (ev_io_stop w l)"
proof -
  let ?l = "clear_pending w l"
  show ?thesis
    by (cases "ev_is_active w ?l"; cases "anfd_at (nat (w_fd (watchers ?l w))) ?l";
        cases "w_fd (watchers ?l w) \<ge> 0 \<and> w_fd (watchers ?l w) < int (length (anfds ?l))")
      (simp_all add: ev_io_stop_def behind_commutes behind_fd_change Let_def, simp_all add: behind_all_def g_assert_def)
qed

lemma behind_kill: "fd_kill fd (behind p l) = behind_all p (fd_kill fd l)"
proof -
  have "fd_kill_loop n fd (behind p l) = behind_all p (fd_kill_loop n fd l)" for n
  proof (induction n arbitrary: l)
    case 0
    show ?case by (cases "anfd_at fd l") (simp_all add: behind_all_def)
  next
    case (Suc n)
    show ?case
    proof (cases "anfd_at fd l")
      case (Ok a)
      show ?thesis
      proof (cases "fd_head a")
        case Nil
        then show ?thesis using Ok by (simp add: behind_all_def)
      next
        case (Cons w ws)
        then show ?thesis
          using Ok by (cases "ev_io_stop w l") (simp_all add: behind_io_stop, simp_all add: behind_all_def behind_commutes Suc.IH)
      qed
    qed (simp add: behind_all_def)
  qed
  then show ?thesis by (cases "anfd_at fd l") (simp_all add: fd_kill_def, simp add: behind_all_def)
qed

lemma behind_ctl:
  "call_epoll_ctl env op fd ev (behind p l) = (case call_epoll_ctl env op fd ev l of (r, l) \<Rightarrow> (r, behind p l))"
  by (simp add: call_epoll_ctl_def behind_commutes split: prod.split)

lemma behind_kill_and_dec:
  "dec_egen fd (behind p l) = behind_all p (dec_egen fd l)"
  "kill_and_dec fd (behind p l) = behind_all p (kill_and_dec fd l)"
proof -
  show dec: "dec_egen fd (behind p l) = behind_all p (dec_egen fd l)" for l
    by (cases "anfd_at fd l") (simp_all add: dec_egen_def behind_all_def behind_commutes)
  show "kill_and_dec fd (behind p l) = behind_all p (kill_and_dec fd l)"
    by (cases "fd_kill fd l") (simp_all add: kill_and_dec_def behind_kill, simp_all add: behind_all_def dec)
qed

lemma behind_eperm: "epoll_eperm fd m (behind p l) = behind_all p (epoll_eperm fd m l)"
  by (cases "anfd_at fd l") (simp_all add: epoll_eperm_def behind_all_def behind_commutes Let_def)

lemma behind_epoll_modify: "epoll_modify env fd oev nev (behind p l) = behind_all p (epoll_modify env fd oev nev l)"
proof (cases "nev = 0 \<or> (\<exists>f. anfd_at fd l = Fault f)")
  case True
  then show ?thesis by (auto simp: epoll_modify_def behind_all_def)
next
  case False
  then obtain a where a: "anfd_at fd l = Ok a" by (cases "anfd_at fd l") auto
  let ?op = "if oev \<noteq> 0 \<and> fd_emask a \<noteq> nev then EPOLL_CTL_MOD else EPOLL_CTL_ADD"
  let ?ev = "\<lparr>ep_events = epoll_bits nev, ep_data = epoll_data fd (fd_egen a + 1)\<rparr>"
  let ?l1 = "put_anfd fd (a\<lparr>fd_emask := nev AND 0xFF, fd_egen := fd_egen a + 1\<rparr>) l"
  obtain r2 l2 where c2: "call_epoll_ctl env ?op fd ?ev ?l1 = (r2, l2)" by force
  obtain r3 l3 where c3: "call_epoll_ctl env EPOLL_CTL_ADD fd ?ev l2 = (r3, l3)" by force
  obtain r4 l4 where c4: "call_epoll_ctl env EPOLL_CTL_MOD fd ?ev l2 = (r4, l4)" by force
  show ?thesis
    using False a c2 c3 c4
    by (simp add: epoll_modify_def Let_def behind_commutes behind_ctl behind_kill_and_dec behind_eperm cong: if_cong)
      (auto simp: behind_all_def)
qed

lemma behind_port_modify: "port_modify env fd oev nev (behind p l) = behind_all p (port_modify env fd oev nev l)"
  by (auto simp: port_modify_def port_associate_and_check_def Let_def behind_commutes behind_kill split: prod.split)
    (auto simp: behind_all_def)

lemma modify_step:
  assumes "call_backend_modify env fd oev nev l = Ok l'" "loop_ok K l" "K pending_w \<noteq> Io_watcher"
    and "backend_modify l \<in> {Epoll_modify, Port_modify}"
  shows "backend_step K l' l"
  using assms epoll_modify_step port_modify_step by (auto simp: call_backend_modify_def)

lemma behind_modify:
  assumes "backend_modify l \<in> {Epoll_modify, Port_modify}"
  shows "call_backend_modify env fd oev nev (behind p l) = behind_all p (call_backend_modify env fd oev nev l)"
  using assms behind_epoll_modify behind_port_modify by (auto simp: call_backend_modify_def)

lemma behind_reify_one:
  assumes "backend_modify l \<in> {Epoll_modify, Port_modify}"
  shows "fd_reify_one env fd (behind p l) = behind_all p (fd_reify_one env fd l)"
proof (cases "anfd_at fd l")
  case (Ok a)
  have "or_events (behind p l) = or_events l" by (simp add: or_events_def fun_eq_iff)
  moreover have "backend_modify (put_anfd fd b l) \<in> {Epoll_modify, Port_modify}" for b using assms by (simp add: put_anfd_def)
  ultimately show ?thesis
    by (simp add: fd_reify_one_def Ok Let_def behind_commutes behind_modify, simp add: behind_all_def)
qed (simp add: fd_reify_one_def behind_all_def)

lemma reify_one_step:
  assumes ok: "loop_ok K (behind [fd] l)" and "fd_reify_one env fd l = Ok l'" and "K pending_w \<noteq> Io_watcher"
    and b: "backend_modify l \<in> {Epoll_modify, Port_modify}"
  shows "backend_step K l' l"
proof -
  let ?a = "anfds l ! fd" and ?nev = "or_events l (fd_head (anfds l ! fd))"
  let ?l = "put_anfd fd (?a\<lparr>fd_reify_flag := 0, fd_events := ?nev\<rparr>) l"
  note d = loop_okD [OF ok]
  have fd: "fd < length (anfds l)" "fd \<notin> set (fdchanges l)"
    using d(2) by (auto simp: fds_ok_def fds_ok_for_def behind_def)
  have heads: "fd_head (anfds ?l ! k) = fd_head (anfds l ! k)" "length (anfds ?l) = length (anfds l)" for k
    using fd(1) by (cases "k = fd"; simp add: put_anfd_def)+
  have same: "same_but Io_watcher ?l (behind [fd] l)" "watchers ?l = watchers (behind [fd] l)" "pendings ?l = pendings (behind [fd] l)"
    by (simp_all add: same_but_def put_anfd_def behind_def)
  have "loop_part K Io_watcher ?l"
    using d(5) by (simp add: loop_part_def io_typed_def heads) (simp add: put_anfd_def)
  moreover have "pending_ok ?l" using d(3) by (simp add: pending_ok_def same)
  moreover have "agree_on {x. K x \<noteq> Io_watcher} (watchers (behind [fd] l)) (watchers ?l)" by (simp add: agree_on_def same)
  moreover have "fds_ok ?l"
  proof -
    have ev: "or_events (l\<lparr>anfds := as\<rparr>) = or_events l" "or_events (behind [fd] l) = or_events l" for as
      by (simp_all add: or_events_def fun_eq_iff)
    have io: "io_lists_ok l" using d(2) by (simp add: fds_ok_def fds_ok_for_def io_lists_ok_def)
    then have "rw_mask ?nev" using fd rw_mask_or_events [of "fd_head ?a" l] by (auto simp: io_lists_ok_def)
    moreover have "io_lists_ok ?l" using io by (simp add: io_lists_ok_def heads) (simp add: put_anfd_def)
    moreover have "fdchanges ?l = fdchanges l" by (simp add: put_anfd_def)
    ultimately show ?thesis
      using d(2) fd by (auto simp: fds_ok_def fds_ok_for_def ev put_anfd_def nth_list_update)
  qed
  ultimately have ok1: "loop_ok K ?l" using loop_ok_change [OF ok same(1)] by blast
  have "counted ?l = counted l" using fd by (simp add: count_put_anfd)
  then have 1: "backend_step K ?l l" using ok1 by (simp add: backend_step_def put_anfd_def)
  have "backend_modify ?l \<in> {Epoll_modify, Port_modify}" using b by (simp add: put_anfd_def)
  then have "backend_step K l' ?l" if "call_backend_modify env fd (fd_events ?a) ?nev ?l = Ok l'"
    using modify_step [OF that ok1 assms(3)] by blast
  then show ?thesis
    using assms(2) fd 1 backend_step_trans [OF _ 1]
    by (auto simp: fd_reify_one_def anfd_at_def Let_def split: if_splits)
qed

lemma reify_loop_step:
  assumes "fd_reify_loop env n (length p) (behind p l) = Ok l'" and "loop_ok K l" and "K pending_w \<noteq> Io_watcher"
    and "backend_modify l \<in> {Epoll_modify, Port_modify}"
  shows "\<exists>p' l''. l' = behind p' l'' \<and> fdchanges l'' = [] \<and> backend_step K l'' l"
  using assms(1,2,4)
proof (induction n arbitrary: p l)
  case 0
  then have "fdchanges l = []" "l' = behind p l" by (auto split: if_splits)
  then show ?case using 0 by (auto simp: backend_step_def)
next
  case (Suc n)
  show ?case
  proof (cases "fdchanges l")
    case Nil
    then have "l' = behind p l" using Suc.prems(1) by simp
    then show ?thesis using Nil Suc.prems by (auto simp: backend_step_def)
  next
    case (Cons fd chs)
    let ?l = "l\<lparr>fdchanges := chs\<rparr>"
    have l: "behind [fd] ?l = l" "behind p l = behind (p @ [fd]) ?l" using Cons by (simp_all add: behind_def)
    have b: "backend_modify ?l \<in> {Epoll_modify, Port_modify}" using Suc.prems(3) by simp
    obtain l1 where l1: "fd_reify_one env fd ?l = Ok l1"
      "fd_reify_loop env n (length (p @ [fd])) (behind (p @ [fd]) l1) = Ok l'"
      using Suc.prems(1) Cons behind_reify_one [OF b, of env fd "p @ [fd]"]
      by (auto simp: l(2) nth_append behind_all_def obind_eq_Ok)
    have step: "backend_step K l1 ?l"
      using reify_one_step [where l = ?l and fd = fd and K = K, OF _ l1(1) assms(3) b] Suc.prems(2) l(1) by simp
    then have "loop_ok K l1" "backend_modify l1 \<in> {Epoll_modify, Port_modify}"
      using Suc.prems(3) by (simp_all add: backend_step_def)
    from Suc.IH [OF l1(2) this] obtain p' l'' where "l' = behind p' l''" "fdchanges l'' = []" "backend_step K l'' l1" by blast
    moreover have "counted ?l = counted l" by (simp add: counted_def started_def io_count_def)
    ultimately show ?thesis using step by (auto simp: backend_step_def)
  qed
qed

lemma reify_kills_ok:
  assumes "fd_reify env l = Ok l'" and "loop_ok K l" and "K pending_w \<noteq> Io_watcher"
    and "backend_modify l \<in> {Epoll_modify, Port_modify}"
  shows "backend_step K l' l"
proof -
  have "behind [] l = l" by (simp add: behind_def)
  then obtain l1 where l1: "fd_reify_loop env (2 * length (fdchanges l)) (length ([] :: nat list)) (behind [] l) = Ok l1"
    "l' = l1\<lparr>fdchanges := []\<rparr>"
    using assms(1) by (auto simp: fd_reify_def obind_eq_Ok)
  from reify_loop_step [OF l1(1) assms(2-4)] obtain p' l'' where
    "l1 = behind p' l''" "fdchanges l'' = []" "backend_step K l'' l" by blast
  moreover from this have "l' = l''" using l1(2) by (simp add: behind_def)
  ultimately show ?thesis by simp
qed

end
