(* ===== verification/Ev_Reach.thy ===== *)
theory Ev_Reach
  imports Ev_Count
begin

unbundle bit_operations_syntax

text \<open>
  What a program can do to a loop between the calls of its callbacks, as a step relation, and
  the invariant that every reachable loop satisfies.
\<close>

section \<open>The backend's view\<close>

definition backend_ok :: "'w ev_loop \<Rightarrow> bool" where
  "backend_ok l \<longleftrightarrow>
     (backend_modify l = Poll_modify \<longrightarrow> polls_ok l \<and> kernel_synced poll_mask l) \<and>
     (backend_modify l = Select_modify \<longrightarrow> selects_ok l \<and> kernel_synced select_mask l) \<and>
     (backend_modify l = Kqueue_modify \<longrightarrow> (\<exists>reg. kernel_synced (kqueue_mask reg) l))"

definition same_kernel :: "'w ev_loop \<Rightarrow> 'w ev_loop \<Rightarrow> bool" where
  "same_kernel l' l \<longleftrightarrow> same_backend l' l \<and> backend_modify l' = backend_modify l \<and>
     (\<exists>n. map fd_events (anfds l') = map fd_events (anfds l) @ replicate n 0)"

lemma same_kernelI:
  "same_backend l' l \<Longrightarrow> backend_modify l' = backend_modify l \<Longrightarrow> anfds l' = anfds l \<Longrightarrow> same_kernel l' l"
  by (auto simp: same_kernel_def intro: exI [of _ 0])

lemma same_kernel_trans:
  assumes "same_kernel l'' l'" "same_kernel l' l"
  shows "same_kernel l'' l"
proof -
  obtain m n where "map fd_events (anfds l'') = map fd_events (anfds l') @ replicate m 0"
    "map fd_events (anfds l') = map fd_events (anfds l) @ replicate n 0"
    using assms by (auto simp: same_kernel_def)
  then have "map fd_events (anfds l'') = map fd_events (anfds l) @ replicate (n + m) 0" by (simp add: replicate_add)
  then show ?thesis using assms by (auto simp: same_kernel_def intro: same_backend_trans)
qed

lemma backend_ok_same:
  assumes "backend_ok l" "same_kernel l' l"
  shows "backend_ok l'"
proof -
  obtain n where n: "map fd_events (anfds l') = map fd_events (anfds l) @ replicate n 0" "same_backend l' l"
    "backend_modify l' = backend_modify l"
    using assms(2) by (auto simp: same_kernel_def)
  note irr = poll.books_irrelevant [OF n(2)] select.books_irrelevant [OF n(2)] kqueue.books_irrelevant [OF n(2)]
  have "kernel_synced poll_mask l'" if "kernel_synced poll_mask l"
    by (rule kernel_synced_keep [OF that _ n(1)]) (use irr(1) in simp)
  moreover have "kernel_synced select_mask l'" if "kernel_synced select_mask l"
    by (rule kernel_synced_keep [OF that _ n(1)]) (use irr(2) in simp)
  moreover have "kernel_synced (kqueue_mask reg) l'" if "kernel_synced (kqueue_mask reg) l" for reg
    by (rule kernel_synced_keep [OF that _ n(1)]) (use irr(3) in simp)
  ultimately show ?thesis using assms(1) irr(1,2) n(3) unfolding backend_ok_def by metis
qed

lemma kernel_same:
  "same_kernel (ev_start w k l) l" "same_kernel (ev_stop w l) l" "same_kernel (upd_watcher w f l) l"
  "same_kernel (clear_pending w l) l" "same_kernel (put_timers r l) l" "same_kernel (ev_feed_event w e l) l"
  by (auto intro!: same_kernelI simp: same_backend_def ev_start_def ev_stop_def ev_ref_def ev_unref_def pri_adjust_def
      upd_watcher_def clear_pending_def put_timers_def ev_feed_event_def Let_def split: prod.splits)

lemma needsize_same_kernel: "same_kernel (anfds_needsize n l) l"
proof -
  obtain m where "anfds (anfds_needsize n l) = anfds l @ replicate m no_anfd"
    by (cases "n > length (anfds l)") (auto simp: anfds_needsize_def intro: that [of 0])
  then have "map fd_events (anfds (anfds_needsize n l)) = map fd_events (anfds l) @ replicate m 0"
    by (simp add: no_anfd_def)
  then show ?thesis by (auto simp: same_kernel_def same_backend_def anfds_needsize_def)
qed

lemma put_anfd_same_kernel: "fd < length (anfds l) \<Longrightarrow> fd_events a = fd_events (anfds l ! fd) \<Longrightarrow> same_kernel (put_anfd fd a l) l"
  by (auto simp: same_kernel_def same_backend_def put_anfd_def map_update list_update_same_conv intro: exI [of _ 0])

lemma fd_change_same_kernel: "fd_change fd fl l = Ok l' \<Longrightarrow> same_kernel l' l"
  by (auto simp: fd_change_def Let_def obind_eq_Ok anfd_at_def same_kernel_def same_backend_def put_anfd_def map_update
      list_update_same_conv intro: exI [of _ 0] split: if_splits)

lemma io_start_same_kernel:
  assumes "ev_io_start w l = Ok l'" and "\<not> ev_is_active w l"
  shows "same_kernel l' l"
proof -
  let ?fd = "nat (w_fd (watchers l w))"
  let ?l = "anfds_needsize (?fd + 1) (ev_start w 1 l)"
  obtain a l1 where l1: "l' = upd_watcher w (\<lambda>x. x\<lparr>w_events := w_events x AND NOT EV__IOFDSET\<rparr>) l1" "anfd_at ?fd ?l = Ok a"
    "fd_change ?fd (w_events (watchers l w) AND EV__IOFDSET OR EV_ANFD_REIFY)
       (put_anfd ?fd (a\<lparr>fd_head := wlist_add (fd_head a) w\<rparr>) ?l) = Ok l1"
    using assms by (auto simp: ev_io_start_def Let_def obind_eq_Ok)
  have "same_kernel (put_anfd ?fd (a\<lparr>fd_head := wlist_add (fd_head a) w\<rparr>) ?l) ?l"
    using l1(2) by (intro put_anfd_same_kernel) (auto simp: anfd_at_def split: if_splits)
  from same_kernel_trans [OF this same_kernel_trans [OF needsize_same_kernel kernel_same(1)]]
  show ?thesis
    unfolding l1(1) by (rule same_kernel_trans [OF kernel_same(3) same_kernel_trans [OF fd_change_same_kernel [OF l1(3)]]])
qed

lemma io_stop_same_kernel:
  assumes "ev_io_stop w l = Ok l'" and "ev_is_active w l"
  shows "same_kernel l' l"
proof -
  let ?l = "clear_pending w l"
  let ?fd = "nat (w_fd (watchers ?l w))"
  obtain a where a: "anfd_at ?fd ?l = Ok a"
    "fd_change ?fd EV_ANFD_REIFY (ev_stop w (put_anfd ?fd (a\<lparr>fd_head := wlist_del (fd_head a) w\<rparr>) ?l)) = Ok l'"
    using assms by (auto simp: ev_io_stop_def Let_def obind_eq_Ok ev_is_active_def clear_pending_keeps)
  have "same_kernel (put_anfd ?fd (a\<lparr>fd_head := wlist_del (fd_head a) w\<rparr>) ?l) ?l"
    using a(1) by (intro put_anfd_same_kernel) (auto simp: anfd_at_def split: if_splits)
  then show ?thesis
    by (rule same_kernel_trans [OF fd_change_same_kernel [OF a(2)] same_kernel_trans [OF kernel_same(2)
      same_kernel_trans [OF _ kernel_same(4)]]])
qed

lemma timer_same_kernel:
  "ev_timer_start w l = Ok l' \<Longrightarrow> same_kernel l' l" "ev_timer_stop w l = Ok l' \<Longrightarrow> same_kernel l' l"
  by (auto intro!: same_kernelI simp: same_backend_def ev_timer_start_def ev_timer_stop_def Let_def put_timers_def ev_start_def ev_stop_def
      ev_ref_def ev_unref_def pri_adjust_def clear_pending_def upd_watcher_def obind_eq_Ok split: if_splits prod.splits)

lemma same_kernel_erased:
  assumes "erased' = erased" and "same_kernel erased l" and "same_kernel l' erased'"
  shows "same_kernel l' l"
  using same_kernel_trans [OF assms(3)] assms(1,2) by simp

lemma erased_same_kernel:
  "l'\<lparr>prepares := [], watchers := v, pendings := q, activecnt := n\<rparr> = l\<lparr>prepares := [], watchers := v, pendings := q, activecnt := n\<rparr>
     \<Longrightarrow> same_kernel l' l"
  "l'\<lparr>checks := [], watchers := v, pendings := q, activecnt := n\<rparr> = l\<lparr>checks := [], watchers := v, pendings := q, activecnt := n\<rparr>
     \<Longrightarrow> same_kernel l' l"
  "l'\<lparr>forks := [], watchers := v, pendings := q, activecnt := n\<rparr> = l\<lparr>forks := [], watchers := v, pendings := q, activecnt := n\<rparr>
     \<Longrightarrow> same_kernel l' l"
  "l'\<lparr>cleanups := [], watchers := v, pendings := q, activecnt := n\<rparr> = l\<lparr>cleanups := [], watchers := v, pendings := q, activecnt := n\<rparr>
     \<Longrightarrow> same_kernel l' l"
  by (erule same_kernel_erased; simp add: same_kernelI same_backend_def)+

section \<open>Steps\<close>

text \<open>
  Between two calls of callbacks a program sets up watchers that are not started, starts them,
  stops them and feeds events; the loop takes a pending watcher off its queue and passes changes on
  to the backend. Nothing is assumed of the order.
\<close>

inductive loop_step :: "'w ev_env \<Rightarrow> (addr \<Rightarrow> watcher_type) \<Rightarrow> 'w ev_loop \<Rightarrow> 'w ev_loop \<Rightarrow> bool" for env K where
  set_up: "\<lbrakk>\<not> ev_is_active w l; w_pending (watchers l w) = 0; \<forall>x. w_active (f x) = w_active x \<and> w_pending (f x) = w_pending x\<rbrakk>
     \<Longrightarrow> loop_step env K l (upd_watcher w f l)"
| io_start: "\<lbrakk>K w = Io_watcher; \<not> ev_is_active w l; w_pending (watchers l w) = 0; 0 \<le> w_fd (watchers l w);
      w_events (watchers l w) AND NOT (EV__IOFDSET OR EV_READ OR EV_WRITE) = 0; ev_io_start w l = Ok l'\<rbrakk>
     \<Longrightarrow> loop_step env K l l'"
| io_stop: "\<lbrakk>linked w l; ev_io_stop w l = Ok l'\<rbrakk> \<Longrightarrow> loop_step env K l l'"
| timer_start: "\<lbrakk>K w = Timer_watcher; \<not> ev_is_active w l; w_pending (watchers l w) = 0; 0 \<le> w_repeat (watchers l w);
      ev_timer_start w l = Ok l'\<rbrakk> \<Longrightarrow> loop_step env K l l'"
| timer_stop: "\<lbrakk>w \<in> he_w ` timer_entries l; ev_timer_stop w l = Ok l'\<rbrakk> \<Longrightarrow> loop_step env K l l'"
| prepare_start: "\<lbrakk>K w = Prepare_watcher; \<not> ev_is_active w l; w_pending (watchers l w) = 0; ev_prepare_start w l = Ok l'\<rbrakk>
     \<Longrightarrow> loop_step env K l l'"
| prepare_stop: "\<lbrakk>w \<in> set (prepares l); ev_prepare_stop w l = Ok l'\<rbrakk> \<Longrightarrow> loop_step env K l l'"
| check_start: "\<lbrakk>K w = Check_watcher; \<not> ev_is_active w l; w_pending (watchers l w) = 0; ev_check_start w l = Ok l'\<rbrakk>
     \<Longrightarrow> loop_step env K l l'"
| check_stop: "\<lbrakk>w \<in> set (checks l); ev_check_stop w l = Ok l'\<rbrakk> \<Longrightarrow> loop_step env K l l'"
| fork_start: "\<lbrakk>K w = Fork_watcher; \<not> ev_is_active w l; w_pending (watchers l w) = 0; ev_fork_start w l = Ok l'\<rbrakk>
     \<Longrightarrow> loop_step env K l l'"
| fork_stop: "\<lbrakk>w \<in> set (forks l); ev_fork_stop w l = Ok l'\<rbrakk> \<Longrightarrow> loop_step env K l l'"
| cleanup_start: "\<lbrakk>K w = Cleanup_watcher; \<not> ev_is_active w l; w_pending (watchers l w) = 0; ev_cleanup_start w l = Ok l'\<rbrakk>
     \<Longrightarrow> loop_step env K l l'"
| cleanup_stop: "\<lbrakk>w \<in> set (cleanups l); ev_cleanup_stop w l = Ok l'\<rbrakk> \<Longrightarrow> loop_step env K l l'"
| feed: "w \<noteq> pending_w \<Longrightarrow> loop_step env K l (ev_feed_event w revents l)"
| pop: "pendings l pri \<noteq> [] \<Longrightarrow> loop_step env K l (pop_pending pri l)"
| reify: "\<lbrakk>\<forall>k. backend_modify l \<noteq> User_modify k; fd_reify env l = Ok l'\<rbrakk> \<Longrightarrow> loop_step env K l l'"

lemma loop_ok_set_up:
  assumes ok: "loop_ok K l" and idle: "\<not> ev_is_active w l" "w_pending (watchers l w) = 0"
    and f: "\<And>x. w_active (f x) = w_active x" "\<And>x. w_pending (f x) = w_pending x"
  shows "loop_ok K (upd_watcher w f l)"
proof -
  let ?ws = "watchers (upd_watcher w f l)"
  have other: "?ws x = watchers l x" if "w_active (watchers l x) \<noteq> 0" for x
    using that idle(1) by (auto simp: ev_is_active_def)
  have arr: "array_typed K k xs (watchers l) \<Longrightarrow> array_typed K k xs ?ws" for k xs
    using other unfolding array_typed_def by simp
  have heap: "heap_typed K k n v ?ws" if h: "heap_typed K k n v (watchers l)" for k n v
  proof -
    have "?ws (he_w he) = watchers l (he_w he)" if "he \<in> heap_entries n v" for he
      using h that by (intro other) (auto simp: heap_typed_def heap_ok_def indexed_but_def heap_entries_def heap_range_def)
    then show ?thesis
      using h heap_ok_frame [of n v "watchers l" ?ws] cache_ok_frame [of "heap_entries n v" "watchers l" ?ws]
      by (simp add: heap_typed_def del: upd_watcher_fields)
  qed
  have io: "io_typed K as (watchers l) \<Longrightarrow> io_typed K as ?ws" for as
    using other unfolding io_typed_def by simp
  have "loop_part K k (upd_watcher w f l)" for k
    using loop_okD(4) [OF ok, of k] arr heap io by (cases k) (auto simp: loop_part_def upd_watcher_def)
  moreover have "pending_ok (upd_watcher w f l)"
    using pending_ok_upd [OF loop_okD(3) [OF ok], of f w] f(2) idle(2) by blast
  moreover have "fds_ok (upd_watcher w f l)"
  proof -
    have same: "?ws x = watchers l x" if "fd < length (anfds l)" "x \<in> set (fd_head (anfds l ! fd))" for fd x
      using loop_okD(5) [OF ok] that by (intro other) (auto simp: io_typed_def)
    then have "or_events (upd_watcher w f l) (fd_head (anfds l ! fd)) = or_events l (fd_head (anfds l ! fd))"
      if "fd < length (anfds l)" for fd using that by (intro or_events_cong) (simp del: upd_watcher_fields)
    then show ?thesis
      using loop_okD(2) [OF ok] same
      by (simp add: fds_ok_def fds_ok_for_def io_lists_ok_def upd_watcher_def)
  qed
  ultimately show ?thesis by (simp add: loop_ok_def loop_typed_iff)
qed

lemma pop_loop_ok:
  assumes "loop_ok K l" "pendings l pri \<noteq> []"
  shows "loop_ok K (pop_pending pri l)"
proof (rule loop_ok_queue [OF assms(1)])
  let ?p = "\<lambda>w. w_pending (watchers l w)" and ?a = "\<lambda>w. abspri (watchers l w)" and ?q = "\<lambda>pri. map fst (pendings l pri)"
  have "refs_ok (?p(last (?q pri) := 0)) ?a (?q(pri := butlast (?q pri)))"
    using loop_okD(3) [OF assms(1)] assms(2) by (intro refs_ok_pop) (simp_all add: pending_ok_def)
  moreover have "(\<lambda>w. w_pending (watchers (pop_pending pri l) w)) = ?p(last (?q pri) := 0)"
    "(\<lambda>w. abspri (watchers (pop_pending pri l) w)) = ?a"
    "(\<lambda>x. map fst (pendings (pop_pending pri l) x)) = ?q(pri := butlast (?q pri))"
    using assms(2) by (auto simp: pop_pending_def fun_eq_iff last_map map_butlast abspri_def)
  ultimately show "pending_ok (pop_pending pri l)" unfolding pending_ok_def by simp
qed (auto simp: same_but_def pop_pending_def upd_watcher_def)

lemma reify_loop_ok:
  assumes "loop_ok K l" "fds_ok l'" "fd_core l' = fd_core l" "map fd_head (anfds l') = map fd_head (anfds l)"
  shows "loop_ok K l'"
proof -
  have same: "same_but Io_watcher l' l"
    by (rule same_but_erased [OF assms(3)]) (simp_all add: same_but_def fd_core_def)
  note core = fd_coreD(1,3) [OF assms(3)]
  have len: "length (anfds l') = length (anfds l)" using assms(4) by (metis length_map)
  have "fd_head (anfds l' ! fd) = fd_head (anfds l ! fd)" if "fd < length (anfds l)" for fd
    using arg_cong [OF assms(4), of "\<lambda>hs. hs ! fd"] that len by simp
  then have "loop_part K Io_watcher l'"
    using loop_okD(5) [OF assms(1)] len by (simp add: loop_part_def io_typed_def core(1))
  moreover have "pending_ok l'" using loop_okD(3) [OF assms(1)] by (simp add: pending_ok_def core)
  moreover have "agree_on {x. K x \<noteq> Io_watcher} (watchers l) (watchers l')" by (simp add: agree_on_def core(1))
  ultimately show ?thesis using loop_ok_change [OF assms(1) same] assms(2) by blast
qed

lemma loop_step_ok:
  assumes "loop_step env K l l'" "loop_ok K l" "backend_ok l" "K pending_w \<noteq> Io_watcher"
  shows "loop_ok K l' \<and> backend_ok l'"
  using assms(1-3)
proof (induction rule: loop_step.induct)
  case (set_up w l f)
  then show ?case using loop_ok_set_up [of K l w f] backend_ok_same [OF _ kernel_same(3)] by blast
next
  case (io_start w l l')
  then show ?case
    using io_start_loop_ok [of K l w] backend_ok_same [OF _ io_start_same_kernel [of w l l']] by auto
next
  case (io_stop w l l')
  have "ev_is_active w l"
    using io_stop(1) loop_okD(5) [OF io_stop(3)] by (auto simp: linked_def io_typed_def ev_is_active_def)
  then show ?case
    using io_stop io_stop_loop_ok [of K l w] backend_ok_same [OF _ io_stop_same_kernel [of w l l']] by auto
next
  case (timer_start w l l')
  then show ?case
    using timer_start_loop_ok [of K l w] backend_ok_same [OF _ timer_same_kernel(1) [of w l l']] by auto
next
  case (timer_stop w l l')
  then show ?case
    using timer_stop_loop_ok [of K l w] backend_ok_same [OF _ timer_same_kernel(2) [of w l l']] by auto
next
  case (prepare_start w l l')
  then show ?case
    using prepare_array.start_ok [of K l w] backend_ok_same [OF _ erased_same_kernel(1), where l = l and l' = l'] by fastforce
next
  case (prepare_stop w l l')
  then show ?case
    using prepare_array.stop_ok [of K l w] backend_ok_same [OF _ erased_same_kernel(1), where l = l and l' = l'] by fastforce
next
  case (check_start w l l')
  then show ?case
    using check_array.start_ok [of K l w] backend_ok_same [OF _ erased_same_kernel(2), where l = l and l' = l'] by fastforce
next
  case (check_stop w l l')
  then show ?case
    using check_array.stop_ok [of K l w] backend_ok_same [OF _ erased_same_kernel(2), where l = l and l' = l'] by fastforce
next
  case (fork_start w l l')
  then show ?case
    using fork_array.start_ok [of K l w] backend_ok_same [OF _ erased_same_kernel(3), where l = l and l' = l'] by fastforce
next
  case (fork_stop w l l')
  then show ?case
    using fork_array.stop_ok [of K l w] backend_ok_same [OF _ erased_same_kernel(3), where l = l and l' = l'] by fastforce
next
  case (cleanup_start w l l')
  then show ?case
    using cleanup_array.start_ok [of K l w] backend_ok_same [OF _ erased_same_kernel(4), where l = l and l' = l'] by fastforce
next
  case (cleanup_stop w l l')
  then show ?case
    using cleanup_array.stop_ok [of K l w] backend_ok_same [OF _ erased_same_kernel(4), where l = l and l' = l'] by fastforce
next
  case (feed w l revents)
  then show ?case using feed_loop_ok backend_ok_same [OF _ kernel_same(6)] by blast
next
  case (pop l pri)
  have "same_kernel (pop_pending pri l) l"
    by (rule same_kernelI) (simp_all add: pop_pending_def same_backend_def upd_watcher_def)
  then show ?case using pop pop_loop_ok backend_ok_same by blast
next
  case (reify l l')
  note d = loop_okD(2) [OF reify(3)]
  have kills: ?case if "backend_modify l \<in> {Epoll_modify, Port_modify}"
    using reify_kills_ok [OF reify(2,3) assms(4) that] that by (auto simp: backend_step_def backend_ok_def)
  have calm: ?case if "\<exists>l1. fd_reify env l = Ok l1 \<and> fds_ok l1 \<and> fd_core l1 = fd_core l \<and>
      map fd_head (anfds l1) = map fd_head (anfds l) \<and> backend_ok l1"
    using that reify_loop_ok [OF reify(3)] reify(2) by auto
  show ?case
  proof (cases "backend_modify l")
    case Poll_modify
    then have b: "polls_ok l" "kernel_synced poll_mask l" using reify(4) by (simp_all add: backend_ok_def)
    obtain l1 where "fd_reify env l = Ok l1" "fds_ok l1" "fd_core l1 = fd_core l" "map fd_head (anfds l1) = map fd_head (anfds l)"
      "polls_ok l1" "kernel_synced poll_mask l1"
      using poll.fd_reify_ok [OF Poll_modify b d, of env] by blast
    moreover from this have "backend_ok l1" using fd_coreD(2) [of l1 l] Poll_modify by (auto simp: backend_ok_def)
    ultimately show ?thesis by (intro calm) blast
  next
    case Select_modify
    then have b: "selects_ok l" "kernel_synced select_mask l" using reify(4) by (simp_all add: backend_ok_def)
    obtain l1 where "fd_reify env l = Ok l1" "fds_ok l1" "fd_core l1 = fd_core l" "map fd_head (anfds l1) = map fd_head (anfds l)"
      "selects_ok l1" "kernel_synced select_mask l1"
      using select.fd_reify_ok [OF Select_modify b d, of env] by blast
    moreover from this have "backend_ok l1" using fd_coreD(2) [of l1 l] Select_modify by (auto simp: backend_ok_def)
    ultimately show ?thesis by (intro calm) blast
  next
    case Kqueue_modify
    then obtain reg where b: "kernel_synced (kqueue_mask reg) l" using reify(4) by (auto simp: backend_ok_def)
    obtain l1 where "fd_reify env l = Ok l1" "fds_ok l1" "fd_core l1 = fd_core l" "map fd_head (anfds l1) = map fd_head (anfds l)"
      "True" "kernel_synced (kqueue_mask reg) l1"
      using kqueue.fd_reify_ok [OF Kqueue_modify TrueI b d, of env] by blast
    moreover from this have "backend_ok l1" using fd_coreD(2) [of l1 l] Kqueue_modify by (auto simp: backend_ok_def)
    ultimately show ?thesis by (intro calm) blast
  qed (use kills reify(1) in simp_all)
qed

text \<open>The count of references and the number of idle watchers change with the watchers that are started.\<close>

lemma calm_counted:
  assumes "fd_core l' = fd_core l" "map fd_head (anfds l') = map fd_head (anfds l)"
  shows "counted l' = counted l"
proof -
  have n: "io_count k = sum_list (map length (map fd_head (anfds k)))" for k :: "'b ev_loop"
    by (simp add: io_count_def comp_def)
  have "prepares (fd_core l') = prepares (fd_core l)" "checks (fd_core l') = checks (fd_core l)"
    "forks (fd_core l') = forks (fd_core l)" "idleall (fd_core l') = idleall (fd_core l)"
    using assms(1) by simp_all
  then show ?thesis
    using fd_coreD(5,8) [OF assms(1)] by (simp add: counted_def started_def n assms(2)) (simp add: fd_core_def)
qed

lemma array_member_active:
  assumes "loop_ok K l"
  shows "w \<in> set (prepares l) \<or> w \<in> set (checks l) \<or> w \<in> set (forks l) \<or> w \<in> set (cleanups l) \<Longrightarrow> ev_is_active w l"
proof -
  have "array_typed K k xs (watchers l) \<Longrightarrow> w \<in> set xs \<Longrightarrow> ev_is_active w l" for k xs
    by (auto simp: array_typed_def in_set_conv_nth ev_is_active_def)
  then show "w \<in> set (prepares l) \<or> w \<in> set (checks l) \<or> w \<in> set (forks l) \<or> w \<in> set (cleanups l) \<Longrightarrow> ev_is_active w l"
    using loop_okD(1) [OF assms] unfolding loop_typed_def by blast
qed

lemma loop_step_counted:
  assumes "loop_step env K l l'" "loop_ok K l" "backend_ok l" "K pending_w \<noteq> Io_watcher"
  shows "counted l' = counted l"
  using assms(1-3)
proof (induction rule: loop_step.induct)
  case (io_stop w l l')
  then show ?case using count_io_stop by blast
next
  case (timer_stop w l l')
  then show ?case using count_timer_stop by blast
next
  case (reify l l')
  note d = loop_okD(2) [OF reify(3)]
  show ?case
  proof (cases "backend_modify l")
    case Poll_modify
    then show ?thesis
      using poll.fd_reify_ok [OF Poll_modify _ _ d, of env] reify(2,4) calm_counted by (auto simp: backend_ok_def)
  next
    case Select_modify
    then show ?thesis
      using select.fd_reify_ok [OF Select_modify _ _ d, of env] reify(2,4) calm_counted by (auto simp: backend_ok_def)
  next
    case Kqueue_modify
    then obtain reg where "kernel_synced (kqueue_mask reg) l" using reify(4) by (auto simp: backend_ok_def)
    from kqueue.fd_reify_ok [OF Kqueue_modify TrueI this d, of env] reify(2) calm_counted show ?thesis by auto
  qed (use reify_kills_ok [OF reify(2,3) assms(4)] reify(1) in \<open>auto simp: backend_step_def\<close>)
qed (auto simp: count_same dest: count_io_start count_timer_start count_array_start count_array_stop
    array_member_active)

section \<open>Setting up and starting again\<close>

lemma timer_active: "loop_ok K l \<Longrightarrow> w \<in> he_w ` timer_entries l \<Longrightarrow> ev_is_active w l \<and> K w = Timer_watcher"
  using timers_okD(4) [OF loop_okD(6)] loop_okD(7) [of K l] by blast

lemma timer_again_idle:
  assumes ok: "loop_ok K l" and "K w = Timer_watcher" "\<not> ev_is_active w l" "w_pending (watchers l w) = 0"
    and rep: "0 < w_repeat (watchers l w)"
  shows "\<exists>l'. ev_timer_again w l = Ok l' \<and> loop_ok K l' \<and> w \<in> he_w ` timer_entries l' \<and> same_but Timer_watcher l' l \<and>
    \<lparr>he_at = mn_now l + w_repeat (watchers l w), he_w = w\<rparr> \<in> timer_entries l' \<and>
    (\<forall>x. x \<noteq> w \<and> K x \<noteq> Timer_watcher \<longrightarrow> watchers l' x = watchers l x)"
proof -
  let ?l = "upd_watcher w (\<lambda>x. x\<lparr>w_at := w_repeat (watchers l w)\<rparr>) l"
  have ok1: "loop_ok K ?l" by (rule loop_ok_set_up [OF ok assms(3,4)]) simp_all
  have "\<not> ev_is_active w ?l" "0 \<le> w_repeat (watchers ?l w)" "w_pending (watchers ?l w) = 0"
    using assms(3,4) rep by (simp_all add: ev_is_active_def)
  from timer_start_loop_ok [OF ok1 assms(2) this] obtain l' where l': "ev_timer_start w ?l = Ok l'" "loop_ok K l'"
    "timer_entries l' = insert \<lparr>he_at = w_at (watchers ?l w) + mn_now ?l, he_w = w\<rparr> (timer_entries ?l)"
    "\<And>x. x \<noteq> w \<Longrightarrow> K x \<noteq> Timer_watcher \<Longrightarrow> watchers l' x = watchers ?l x" by blast
  have "clear_pending w l = l" by (rule clear_pending_idle [OF assms(4)])
  then have "ev_timer_again w l = Ok l'"
    using assms(3) rep l'(1) by (simp add: ev_timer_again_def Let_def)
  moreover have "same_but Timer_watcher l' l"
    by (rule same_but_trans [OF timer_start_same [OF l'(1)] io_same(5)])
  moreover have "w \<in> he_w ` timer_entries l'" "\<lparr>he_at = mn_now l + w_repeat (watchers l w), he_w = w\<rparr> \<in> timer_entries l'"
    by (simp_all add: l'(3) add.commute)
  ultimately show ?thesis using l'(2,4) by auto
qed

lemma loop_ok_init:
  assumes "loop_ok K l" "\<not> is_waiting w l"
  shows "loop_ok K (upd_watcher w (ev_init cb) l)"
proof -
  have "ev_init cb (watchers l w) = (watchers l w)\<lparr>w_priority := 0, w_cb := cb\<rparr>"
    using assms(2) by (simp add: ev_init_def is_waiting_def ev_is_active_def)
  then have "upd_watcher w (ev_init cb) l = upd_watcher w (\<lambda>x. x\<lparr>w_priority := 0, w_cb := cb\<rparr>) l"
    by (simp add: upd_watcher_def)
  moreover have "\<not> ev_is_active w l" "w_pending (watchers l w) = 0" using assms(2) by (simp_all add: is_waiting_def)
  ultimately show ?thesis using loop_ok_set_up [OF assms(1)] by simp
qed

end
