(* ===== verification/Ev_Props.thy ===== *)
theory Ev_Props
  imports Ev_Run Ev_Reach
begin

unbundle bit_operations_syntax

text \<open>
  The properties of the event loop, each with a concrete loop to which it applies.
\<close>

section \<open>Sample loops\<close>

text \<open>Clocks that stand still and a kernel that never reports anything.\<close>

definition quiet_env :: "'w ev_env" where
  "quiet_env = \<lparr>ev_time = (\<lambda>w. (0, w)), get_clock = (\<lambda>w. (0, w)), have_monotonic = True, ev_sleep = (\<lambda>_ w. w),
     poll_call = (\<lambda>ps t w. (Poll_revents 0 [], w)), select_call = (\<lambda>r w t x. (Select_sets r w, x)), epoll_create = (\<lambda>_ w. (5, w)),
     epoll_ctl = (\<lambda>_ _ _ _ w. (0, w)), epoll_wait = (\<lambda>_ _ _ w. (Epoll_events [], w)),
     kqueue_create = (\<lambda>w. (5, w)), kevent_call = (\<lambda>_ _ _ _ w. (Kevent_events [], w)), port_create = (\<lambda>w. (5, w)),
     port_associate = (\<lambda>_ _ _ w. (0, w)), port_dissociate = (\<lambda>_ _ w. w), port_getn = (\<lambda>_ _ _ w. ((0, Some []), w)),
     use_port = True, use_kqueue = True, use_epoll = True, close_fd = (\<lambda>_ w. w), uname_release = (\<lambda>_. None),
     lstat = (\<lambda>_ _. None), statfs_type = (\<lambda>_ _. None), inotify_init = (\<lambda>_ w. (6, w)),
     inotify_add_watch = (\<lambda>_ _ _ w. ((1, 0), w)), inotify_rm_watch = (\<lambda>_ _ w. w), inotify_read = (\<lambda>_ w. ([], w)),
     signalfd = (\<lambda>_ _ _ w. ((8, 0), w)), signalfd_read = (\<lambda>_ w. ([], w)), block_signals = (\<lambda>_ w. w),
     libev_flags = (\<lambda>_. None), new_pipe = (\<lambda>w. (3, w)), waitpid = (\<lambda>w. (None, w)),
     set_handler = (\<lambda>_ _ w. w), unblock_signal = (\<lambda>_ w. w), alloc_once = (\<lambda>w. (None, w)), alloc_x_once = (\<lambda>w. (None, w)),
     ev_getpid = (\<lambda>_. 1), fd_valid = (\<lambda>_ _. True),
     reschedule = (\<lambda>_ _ t. t), user_cb = (\<lambda>_ _ _ l. Ok l), user_once = (\<lambda>_ _ _ l. Ok l), user_event = (\<lambda>_ _ _ _ l. Ok l),
     user_modify = (\<lambda>_ _ _ _ l. Ok l), user_poll = (\<lambda>_ _ l. Ok l), embed_cb = (\<lambda>_ _ l. Ok l)\<rparr>"

definition sample_env :: "unit ev_env" where
  "sample_env = quiet_env"

definition user_watcher :: ev_watcher where
  "user_watcher = zero_watcher\<lparr>w_cb := User_cb 0\<rparr>"

text \<open>Watcher 7 waits for input on descriptor 0, which the kernel has not heard of.\<close>

definition io_loop :: "unit ev_loop" where
  "io_loop = (zero_loop ((\<lambda>_. user_watcher)(7 := user_watcher\<lparr>w_active := 1, w_fd := 0, w_events := EV_READ\<rparr>)) ())
     \<lparr>activecnt := 1, anfds := [\<lparr>fd_head = [7], fd_events = 0, fd_reify_flag = EV_ANFD_REIFY, fd_emask = 0, fd_egen = 0\<rparr>], fdchanges := [0]\<rparr>"

text \<open>Timer 7 is due at 1 and repeats, timer 8 at 3 and does not; it is 5.\<close>

definition timer_loop :: "unit ev_loop" where
  "timer_loop = (zero_loop ((\<lambda>_. user_watcher)
       (7 := user_watcher\<lparr>w_active := 3, w_at := 1, w_repeat := 10\<rparr>, 8 := user_watcher\<lparr>w_active := 4, w_at := 3\<rparr>)) ())
     \<lparr>activecnt := 2, timercnt := 2, mn_now := 5,
      timers := (\<lambda>k. if k = 3 then \<lparr>he_at = 1, he_w = 7\<rparr> else \<lparr>he_at = 3, he_w = 8\<rparr>)\<rparr>"

lemma loop_samples:
  "io_lists_ok io_loop" "fds_ok io_loop" "polls_ok io_loop" "kernel_synced poll_mask io_loop"
  "backend_modify io_loop = Poll_modify" "pending_ok io_loop"
  by (auto simp: io_lists_ok_def fds_ok_def fds_ok_for_def polls_ok_def kernel_synced_def poll_mask_def io_loop_def
      zero_loop_def user_watcher_def zero_watcher_def ev_mask_defs rw_mask_def pending_ok_def refs_ok_def)

lemma heap_range_2: "heap_range 3 2 = {3, 4}"
  by (auto simp: heap_range_def)

lemma timer_loop_fields:
  "timers timer_loop = (\<lambda>k. if k = 3 then \<lparr>he_at = 1, he_w = 7\<rparr> else \<lparr>he_at = 3, he_w = 8\<rparr>)"
  "timercnt timer_loop = 2" "mn_now timer_loop = 5" "pendings timer_loop = (\<lambda>_. [])" "rfeeds timer_loop = []"
  "watchers timer_loop = (\<lambda>_. user_watcher)
     (7 := user_watcher\<lparr>w_active := 3, w_at := 1, w_repeat := 10\<rparr>, 8 := user_watcher\<lparr>w_active := 4, w_at := 3\<rparr>)"
  by (simp_all add: timer_loop_def zero_loop_def)

lemma user_watcher_fields:
  "w_pending user_watcher = 0" "w_repeat user_watcher = 0" "w_priority user_watcher = 0" "w_at user_watcher = 0"
  "w_active user_watcher = 0" "w_cb user_watcher = User_cb 0"
  by (simp_all add: user_watcher_def zero_watcher_def)

lemma timer_samples:
  "timers_ok timer_loop" "timer_entries timer_loop = {\<lparr>he_at = 1, he_w = 7\<rparr>, \<lparr>he_at = 3, he_w = 8\<rparr>}"
  "expired_timers timer_loop = {7, 8}" "pending_ok timer_loop"
proof -
  show e: "timer_entries timer_loop = {\<lparr>he_at = 1, he_w = 7\<rparr>, \<lparr>he_at = 3, he_w = 8\<rparr>}"
    by (auto simp: timer_entries_def heap_entries_def timer_loop_fields heap_range_2)
  show "timers_ok timer_loop"
    by (auto simp: timers_ok_def e cache_ok_def heap_ok_def heap_ordered_def indexed_but_def timer_loop_fields
        heap_range_2 HPARENT_def inj_on_def)
  have "expired_timers timer_loop = he_w ` {he \<in> timer_entries timer_loop. he_at he < 5}"
    by (auto simp: expired_timers_def timer_loop_fields)
  moreover have "{he \<in> timer_entries timer_loop. he_at he < 5} = timer_entries timer_loop" by (auto simp: e)
  ultimately show "expired_timers timer_loop = {7, 8}" by (simp add: e)
  show "pending_ok timer_loop"
    by (auto simp: pending_ok_def refs_ok_def timer_loop_fields user_watcher_fields)
qed

section \<open>Descriptors and the kernel\<close>

text \<open>
  C5. Once the changed descriptors have been passed on, the kernel watches for every
  descriptor exactly the union of what its active watchers ask for, nothing is left to pass on,
  and the books of descriptors and of the poll entries are in order.
\<close>

theorem fd_reify_syncs_kernel:
  assumes "backend_modify l = Poll_modify" and "polls_ok l" and "kernel_synced poll_mask l" and "fds_ok l"
  shows "\<exists>l'. fd_reify env l = Ok l' \<and> polls_ok l' \<and> kernel_synced poll_mask l' \<and> fds_ok l' \<and> fdchanges l' = [] \<and>
    map fd_head (anfds l') = map fd_head (anfds l) \<and> watchers l' = watchers l \<and>
    (\<forall>fd. poll_mask l' fd = (if fd < length (anfds l) then or_events l (fd_head (anfds l ! fd)) else 0))"
proof -
  obtain l' where l': "fd_reify env l = Ok l'" "polls_ok l'" "kernel_synced poll_mask l'" "fds_ok l'" "fdchanges l' = []"
    "fd_core l' = fd_core l" "map fd_head (anfds l') = map fd_head (anfds l)"
    "\<And>fd. fd < length (anfds l) \<Longrightarrow> poll_mask l' fd = or_events l (fd_head (anfds l ! fd))"
    using poll.fd_reify_ok [OF assms] by blast
  have "length (anfds l') = length (anfds l)" using l'(7) by (metis length_map)
  then have "poll_mask l' fd = 0" if "\<not> fd < length (anfds l)" for fd using l'(3) that by (simp add: kernel_synced_def)
  then show ?thesis using l' fd_coreD(1) [OF l'(6)] by auto
qed

theorem fd_reify_syncs_kernel_witness:
  "\<exists>l'. fd_reify sample_env io_loop = Ok l' \<and> poll_mask l' 0 = EV_READ \<and> poll_mask l' 1 = 0"
proof -
  have "or_events io_loop (fd_head (anfds io_loop ! 0)) = EV_READ"
    by (simp add: or_events_def io_loop_def zero_loop_def ev_mask_defs)
  moreover have "length (anfds io_loop) = 1" by (simp add: io_loop_def)
  ultimately show ?thesis
    using fd_reify_syncs_kernel [OF loop_samples(5,3,4,2), of sample_env] by force
qed

text \<open>
  The poll backend keeps an array of entries and an index into it, with removal by
  moving the last entry; seen as a map from descriptors to masks, changing a descriptor is
  updating the map, whatever entries move, and no assertion of it fails.
\<close>

theorem poll_modify_sets_mask:
  assumes "polls_ok l" and "poll_mask l fd = oev" and "rw_mask nev"
  shows "\<exists>l'. poll_modify fd oev nev l = Ok l' \<and> polls_ok l' \<and> poll_mask l' = (poll_mask l)(fd := nev) \<and>
    anfds l' = anfds l \<and> watchers l' = watchers l"
  using poll_modify_ok [OF assms] backend_coreD(2,4) by blast

theorem poll_modify_sets_mask_witness:
  "\<exists>l'. poll_modify 4 0 EV_WRITE io_loop = Ok l' \<and> poll_mask l' 4 = EV_WRITE \<and> poll_mask l' 3 = 0"
proof -
  have z: "poll_mask io_loop k = 0" for k by (simp add: poll_mask_def io_loop_def zero_loop_def)
  have "rw_mask EV_WRITE" by (simp add: rw_mask_cases)
  from poll_modify_sets_mask [OF loop_samples(3) z this, of 4] show ?thesis using z by auto
qed

text \<open>
  Starting a watcher of a descriptor adds it to the list of its descriptor and notes
  the change, stopping takes it out again; both leave the kernel's view for later and keep the
  books: changed descriptors are those marked, lists hold active watchers of their descriptor,
  and unchanged descriptors are recorded with the union of what is asked of them.
\<close>

theorem io_start_then_stop:
  assumes "fds_ok l" and "pending_ok l" and "kernel_synced poll_mask l" and "\<not> ev_is_active w l"
    and "w_fd (watchers l w) = int fd" and "w_events (watchers l w) AND NOT (EV__IOFDSET OR EV_READ OR EV_WRITE) = 0"
    and "w_pending (watchers l w) = 0"
  shows "\<exists>l1 l2. ev_io_start w l = Ok l1 \<and> fds_ok l1 \<and> kernel_synced poll_mask l1 \<and> ev_is_active w l1 \<and>
    w \<in> set (fd_head (anfds l1 ! fd)) \<and> activecnt l1 = activecnt l + 1 \<and>
    ev_io_stop w l1 = Ok l2 \<and> fds_ok l2 \<and> kernel_synced poll_mask l2 \<and> \<not> ev_is_active w l2 \<and>
    w \<notin> set (fd_head (anfds l2 ! fd)) \<and> activecnt l2 = activecnt l"
proof -
  obtain l1 where l1: "ev_io_start w l = Ok l1" "fds_ok l1" "kernel_synced poll_mask l1" "pendings l1 = pendings l"
    "activecnt l1 = activecnt l + 1" "ev_is_active w l1" "fd < length (anfds l1)" "w \<in> set (fd_head (anfds l1 ! fd))"
    "\<And>x. w_pending (watchers l1 x) = w_pending (watchers l x)" "\<And>x. x \<noteq> w \<Longrightarrow> watchers l1 x = watchers l x"
    using poll.ev_io_start_ok [OF assms(1,4) _ assms(6)] assms(3,5) by auto
  have pri: "w_priority (watchers l1 x) = w_priority (watchers l x)" if "w_pending (watchers l x) \<noteq> 0" for x
    using l1(10) [of x] assms(7) that by metis
  have p1: "pending_ok l1" by (rule pending_ok_cong [OF assms(2) l1(4,9) pri])
  obtain l2 where l2: "ev_io_stop w l1 = Ok l2" "fds_ok l2" "kernel_synced poll_mask l2"
    "\<And>k. k < length (anfds l1) \<Longrightarrow> fd_head (anfds l2 ! k) =
       (if k = fd then remove1 w (fd_head (anfds l1 ! k)) else fd_head (anfds l1 ! k))"
    "watchers l2 = (watchers (clear_pending w l1))(w := (watchers (clear_pending w l1) w)\<lparr>w_active := 0\<rparr>)"
    "activecnt l2 = activecnt l1 - 1"
    using poll.ev_io_stop_ok [OF l1(2) p1 l1(7,8)] l1(3) by blast
  have "distinct (fd_head (anfds l1 ! fd))" using l1(2,7) by (simp add: fds_ok_def fds_ok_for_def io_lists_ok_def)
  then have "w \<notin> set (fd_head (anfds l2 ! fd))" using l2(4) [OF l1(7)] by simp
  moreover have "\<not> ev_is_active w l2" by (simp add: ev_is_active_def l2(5))
  ultimately show ?thesis using l1 l2 by auto
qed

theorem io_start_then_stop_witness:
  "\<exists>l1 l2. ev_io_start 9 (upd_watcher 9 (ev_io_set 2 EV_WRITE) io_loop) = Ok l1 \<and>
    ev_is_active 9 l1 \<and> ev_io_stop 9 l1 = Ok l2 \<and> \<not> ev_is_active 9 l2"
proof -
  let ?l = "upd_watcher 9 (ev_io_set 2 EV_WRITE) io_loop"
  have w9: "watchers io_loop 9 = user_watcher" by (simp add: io_loop_def zero_loop_def)
  have w: "watchers ?l = (watchers io_loop)(9 := user_watcher\<lparr>w_fd := 2, w_events := EV_WRITE OR EV__IOFDSET\<rparr>)"
    by (simp add: ev_io_set_def w9)
  have "fds_ok ?l"
    by (auto simp: io_lists_ok_def fds_ok_def fds_ok_for_def w) (auto simp: io_loop_def zero_loop_def user_watcher_def
      zero_watcher_def ev_mask_defs rw_mask_def)
  moreover have "pending_ok ?l" using pending_ok_upd [OF loop_samples(6), of "ev_io_set 2 EV_WRITE" 9] by (simp add: ev_io_set_def)
  moreover have "poll_mask ?l = poll_mask io_loop" by (simp add: poll_mask_def upd_watcher_def fun_eq_iff)
  then have "kernel_synced poll_mask ?l" using loop_samples(4) by (simp add: kernel_synced_def)
  moreover have "\<not> ev_is_active 9 ?l" "w_fd (watchers ?l 9) = int 2" "w_pending (watchers ?l 9) = 0"
    "w_events (watchers ?l 9) AND NOT (EV__IOFDSET OR EV_READ OR EV_WRITE) = 0"
    by (simp_all add: ev_is_active_def ev_io_set_def w9 user_watcher_fields ev_mask_defs)
  ultimately show ?thesis using io_start_then_stop [of ?l 9 2] by blast
qed

text \<open>
  C33. Killing a descriptor that the kernel has called invalid ends (the loop over its list
  runs out), stops all its watchers and queues for each exactly one event with the error bit;
  other watchers keep their activity and their events.
\<close>

theorem fd_kill_stops_watchers:
  assumes "fds_ok l" and "pending_ok l" and "kernel_synced poll_mask l" and "fd < length (anfds l)"
    and "pending_w \<notin> set (fd_head (anfds l ! fd))"
  shows "\<exists>l'. fd_kill fd l = Ok l' \<and> fds_ok l' \<and> pending_ok l' \<and> fd_head (anfds l' ! fd) = [] \<and>
    (\<forall>w \<in> set (fd_head (anfds l ! fd)). \<not> ev_is_active w l' \<and> queued w (EV_ERROR OR EV_READ OR EV_WRITE) l') \<and>
    (\<forall>w ev. w \<notin> set (fd_head (anfds l ! fd)) \<longrightarrow>
       ev_is_active w l' = ev_is_active w l \<and> (queued w ev l \<longrightarrow> queued w ev l')) \<and>
    activecnt l' = activecnt l - int (length (fd_head (anfds l ! fd)))"
proof -
  have "fd_kill fd l = fd_kill_loop (length (fd_head (anfds l ! fd))) fd l"
    using assms(4) by (simp add: fd_kill_def anfd_at_def)
  then show ?thesis using poll.fd_kill_loop_ok [OF assms(1-4) order_refl assms(5)] assms(4) by auto
qed

theorem fd_kill_stops_watchers_witness:
  "\<exists>l'. fd_kill 0 io_loop = Ok l' \<and> \<not> ev_is_active 7 l' \<and> queued 7 (EV_ERROR OR EV_READ OR EV_WRITE) l' \<and> activecnt l' = 0"
proof -
  have f: "anfds io_loop ! 0 = \<lparr>fd_head = [7], fd_events = 0, fd_reify_flag = EV_ANFD_REIFY, fd_emask = 0, fd_egen = 0\<rparr>" "0 < length (anfds io_loop)"
    "activecnt io_loop = 1"
    by (simp_all add: io_loop_def)
  then show ?thesis
    using fd_kill_stops_watchers [OF loop_samples(2,6,4) f(2)] by (auto simp: pending_w_def)
qed


section \<open>Timers\<close>

text \<open>
  C17. Every expired timer is made pending exactly once, in the order that calls the
  earliest first (the queues are worked off from their end); timers that do not repeat stop,
  repeating ones go on at a time that is not in the past, so that no timer is expired
  afterwards. The loop ends after at most as many rounds as there are timers.
\<close>

theorem timers_reify_in_order:
  assumes "timers_ok l" and "rfeeds l = []"
    and "\<forall>w \<in> expired_timers l. w_pending (watchers l w) = 0 \<and> 0 \<le> w_repeat (watchers l w)"
  shows "\<exists>l' ws. timers_reify l = Ok l' \<and> timers_ok l' \<and> expired_timers l' = {} \<and> rfeeds l' = [] \<and>
    set ws = expired_timers l \<and> distinct ws \<and> sorted (map (\<lambda>w. w_at (watchers l w)) ws) \<and>
    (\<forall>pri. pendings l' pri =
       pendings l pri @ map (\<lambda>w. (w, EV_TIMER)) (filter (\<lambda>w. abspri (watchers l w) = pri) (rev ws))) \<and>
    he_w ` timer_entries l' = he_w ` timer_entries l - {w \<in> expired_timers l. w_repeat (watchers l w) = 0}"
  using timers_reify_ok [OF assms(1,2)] assms(3) by blast

theorem timers_reify_in_order_witness:
  "\<exists>l'. timers_reify timer_loop = Ok l' \<and> pendings l' 2 = [(8, EV_TIMER), (7, EV_TIMER)] \<and> he_w ` timer_entries l' = {7}"
proof -
  have "\<forall>w \<in> expired_timers timer_loop. w_pending (watchers timer_loop w) = 0 \<and> 0 \<le> w_repeat (watchers timer_loop w)"
    by (simp add: timer_samples(3) timer_loop_fields user_watcher_fields)
  from timers_reify_in_order [OF timer_samples(1) timer_loop_fields(5) this]
  obtain l' ws where l': "timers_reify timer_loop = Ok l'" "set ws = expired_timers timer_loop" "distinct ws"
    "sorted (map (\<lambda>w. w_at (watchers timer_loop w)) ws)"
    "pendings l' 2 = pendings timer_loop 2 @ map (\<lambda>w. (w, EV_TIMER)) (filter (\<lambda>w. abspri (watchers timer_loop w) = 2) (rev ws))"
    "he_w ` timer_entries l' = he_w ` timer_entries timer_loop -
       {w \<in> expired_timers timer_loop. w_repeat (watchers timer_loop w) = 0}" by blast
  have "length ws = 2" using l'(2) distinct_card [OF l'(3)] by (simp add: timer_samples(3))
  then obtain a b where ab: "ws = [a, b]" by (auto simp: numeral_2_eq_2 length_Suc_conv)
  have ws: "ws = [7, 8]"
    using l'(2-4) by (auto simp: ab timer_samples(3) timer_loop_fields doubleton_eq_iff)
  have "{w \<in> expired_timers timer_loop. w_repeat (watchers timer_loop w) = 0} = {8}"
    by (auto simp: timer_samples(3) timer_loop_fields user_watcher_fields)
  then have "he_w ` timer_entries l' = {7}" using l'(6) by (auto simp: timer_samples(2))
  moreover have "pendings l' 2 = [(8, EV_TIMER), (7, EV_TIMER)]"
    using l'(5) by (simp add: ws timer_loop_fields abspri_def user_watcher_fields EV_MINPRI_def)
  ultimately show ?thesis using l'(1) by blast
qed

text \<open>
  The replacement for \<open>floor\<close>, which splits large numbers and turns negative ones
  around, ends for every number and gives its floor.
\<close>

theorem ev_floor_is_floor: "ev_floor v = Some (of_int \<lfloor>v\<rfloor>)"
  by (rule ev_floor_eq)

text \<open>
  The next time of a periodic watcher is its offset plus a multiple of its interval,
  the first one after the present; an interval shorter than the least one still ends the
  search with a time in the future.
\<close>

theorem periodic_recalc_next:
  assumes "0 < w_interval (watchers l w)"
  shows "\<exists>t. periodic_recalc w l = Ok (upd_watcher w (\<lambda>x. x\<lparr>w_at := t\<rparr>) l) \<and> ev_rt_now l < t \<and>
    (MIN_INTERVAL \<le> w_interval (watchers l w) \<longrightarrow>
       t = w_offset (watchers l w) + w_interval (watchers l w) *
         (of_int \<lfloor>(ev_rt_now l - w_offset (watchers l w)) / w_interval (watchers l w)\<rfloor> + 1) \<and>
       t \<le> ev_rt_now l + w_interval (watchers l w))"
proof -
  let ?x = "watchers l w"
  obtain t where t: "recalc_at ?x (ev_rt_now l) = Some t" "ev_rt_now l < t" using recalc_at_after [OF assms] by blast
  have regular: "t = w_offset ?x + w_interval ?x * (of_int \<lfloor>(ev_rt_now l - w_offset ?x) / w_interval ?x\<rfloor> + 1) \<and>
      t \<le> ev_rt_now l + w_interval ?x" if "MIN_INTERVAL \<le> w_interval ?x"
    using recalc_at_regular [OF that, of "ev_rt_now l"] t(1) floor_multiple(1) [OF assms, of "ev_rt_now l - w_offset ?x"]
    by (simp add: algebra_simps)
  show ?thesis using t regular by (intro exI [of _ t]) (auto simp: periodic_recalc_def)
qed

theorem periodic_recalc_next_witness:
  "\<exists>t. periodic_recalc 5 (upd_watcher 5 (\<lambda>x. x\<lparr>w_interval := 60, w_offset := 10\<rparr>) (timer_loop\<lparr>ev_rt_now := 130\<rparr>)) =
     Ok (upd_watcher 5 (\<lambda>x. x\<lparr>w_at := t\<rparr>)
       (upd_watcher 5 (\<lambda>x. x\<lparr>w_interval := 60, w_offset := 10\<rparr>) (timer_loop\<lparr>ev_rt_now := 130\<rparr>))) \<and> t = 190"
proof -
  let ?l = "upd_watcher 5 (\<lambda>x. x\<lparr>w_interval := 60, w_offset := 10\<rparr>) (timer_loop\<lparr>ev_rt_now := 130\<rparr>)"
  have "0 < w_interval (watchers ?l 5)" by simp
  then show ?thesis using periodic_recalc_next [of ?l 5] by (auto simp: MIN_INTERVAL_def)
qed

section \<open>The invariant of the loop\<close>

text \<open>
  A loop whose containers hold watchers of their own type, at the index their
  \<open>active\<close> names, with priorities in range, cached times in order and pending watchers where
  their \<open>pending\<close> says, passes the self-check \<open>ev_verify\<close>: none of its assertions fails.
\<close>

theorem typed_loop_verifies:
  assumes "loop_typed K l" and "0 \<le> idleall l" and "-1 \<le> activecnt l"
  shows "ev_verify l = Ok ()"
  using assms by (rule ev_verify_typed)

definition sample_types :: "addr \<Rightarrow> watcher_type" where
  "sample_types w = (if w = 6 then Prepare_watcher else Timer_watcher)"

lemma timer_loop_typed: "loop_typed sample_types timer_loop"
proof -
  have h: "heap_typed sample_types Timer_watcher (timercnt timer_loop) (timers timer_loop) (watchers timer_loop)"
    using timer_samples(1,2) by (auto simp: heap_typed_def timers_ok_def timer_entries_def sample_types_def
        timer_loop_fields good_pri_def EV_MINPRI_def EV_MAXPRI_def user_watcher_fields)
  have p: "heap_typed sample_types Periodic_watcher 0 v ws" for v ws
    by (simp add: heap_typed_def heap_ok_def heap_ordered_def indexed_but_def heap_entries_def heap_range_def cache_ok_def)
  show ?thesis
    using h p timer_samples(4) by (simp add: loop_typed_def)
      (simp add: timer_loop_def zero_loop_def io_typed_def array_typed_def)
qed

theorem typed_loop_verifies_witness: "ev_verify timer_loop = Ok ()"
  using typed_loop_verifies [OF timer_loop_typed] by (simp add: timer_loop_def zero_loop_def)

text \<open>
  C22. On a loop in order, starting an idle watcher and stopping an active one succeed for io
  watchers, timers and the watchers kept in arrays, and leave the loop in order: no internal
  assertion fails, nothing outside an array is read, no other watcher loses its place.
\<close>

theorem start_stop_typed:
  assumes "loop_ok K l" and "\<not> ev_is_active w l" and "w_pending (watchers l w) = 0"
  shows "(K w = Io_watcher \<and> 0 \<le> w_fd (watchers l w) \<and>
        w_events (watchers l w) AND NOT (EV__IOFDSET OR EV_READ OR EV_WRITE) = 0 \<longrightarrow>
       (\<exists>l'. ev_io_start w l = Ok l' \<and> loop_ok K l' \<and> linked w l')) \<and>
    (\<forall>u. linked u l \<longrightarrow> (\<exists>l'. ev_io_stop u l = Ok l' \<and> loop_ok K l' \<and> \<not> linked u l' \<and> \<not> ev_is_active u l')) \<and>
    (K w = Timer_watcher \<and> 0 \<le> w_repeat (watchers l w) \<longrightarrow>
       (\<exists>l'. ev_timer_start w l = Ok l' \<and> loop_ok K l' \<and> ev_is_active w l')) \<and>
    (\<forall>u \<in> he_w ` timer_entries l. \<exists>l'. ev_timer_stop u l = Ok l' \<and> loop_ok K l' \<and> \<not> ev_is_active u l' \<and>
       he_w ` timer_entries l' = he_w ` timer_entries l - {u}) \<and>
    (K w = Prepare_watcher \<longrightarrow> (\<exists>l'. ev_prepare_start w l = Ok l' \<and> loop_ok K l' \<and> prepares l' = prepares l @ [w])) \<and>
    (\<forall>u \<in> set (prepares l). \<exists>l'. ev_prepare_stop u l = Ok l' \<and> loop_ok K l' \<and> \<not> ev_is_active u l' \<and>
       mset (prepares l') + {#u#} = mset (prepares l)) \<and>
    (K w = Check_watcher \<longrightarrow> (\<exists>l'. ev_check_start w l = Ok l' \<and> loop_ok K l' \<and> checks l' = checks l @ [w])) \<and>
    (\<forall>u \<in> set (checks l). \<exists>l'. ev_check_stop u l = Ok l' \<and> loop_ok K l' \<and> \<not> ev_is_active u l') \<and>
    (K w = Fork_watcher \<longrightarrow> (\<exists>l'. ev_fork_start w l = Ok l' \<and> loop_ok K l' \<and> forks l' = forks l @ [w])) \<and>
    (\<forall>u \<in> set (forks l). \<exists>l'. ev_fork_stop u l = Ok l' \<and> loop_ok K l' \<and> \<not> ev_is_active u l') \<and>
    (K w = Cleanup_watcher \<longrightarrow> (\<exists>l'. ev_cleanup_start w l = Ok l' \<and> loop_ok K l' \<and> cleanups l' = cleanups l @ [w])) \<and>
    (\<forall>u \<in> set (cleanups l). \<exists>l'. ev_cleanup_stop u l = Ok l' \<and> loop_ok K l' \<and> \<not> ev_is_active u l')"
proof -
  have io: "K w = Io_watcher \<Longrightarrow> 0 \<le> w_fd (watchers l w) \<Longrightarrow>
      w_events (watchers l w) AND NOT (EV__IOFDSET OR EV_READ OR EV_WRITE) = 0 \<Longrightarrow>
      \<exists>l'. ev_io_start w l = Ok l' \<and> loop_ok K l' \<and> linked w l'"
    using io_start_loop_ok [OF assms(1) _ assms(2) _ _ assms(3)] unfolding linked_def by blast
  show ?thesis
    by (intro conjI, use io in blast, use io_stop_loop_ok [OF assms(1)] in blast,
      use timer_start_loop_ok [OF assms(1) _ assms(2) _ assms(3)] in blast,
      use timer_stop_loop_ok [OF assms(1)] in blast,
      use prepare_array.start_ok [OF assms(1) _ assms(2,3)] in blast, use prepare_array.stop_ok [OF assms(1)] in blast,
      use check_array.start_ok [OF assms(1) _ assms(2,3)] in blast, use check_array.stop_ok [OF assms(1)] in blast,
      use fork_array.start_ok [OF assms(1) _ assms(2,3)] in blast, use fork_array.stop_ok [OF assms(1)] in blast,
      use cleanup_array.start_ok [OF assms(1) _ assms(2,3)] in blast, use cleanup_array.stop_ok [OF assms(1)] in blast)
qed

theorem start_stop_typed_witness:
  "(\<exists>l'. ev_prepare_start 6 timer_loop = Ok l' \<and> loop_ok sample_types l' \<and> prepares l' = [6]) \<and>
   (\<exists>l'. ev_timer_stop 8 timer_loop = Ok l' \<and> loop_ok sample_types l' \<and> \<not> ev_is_active 8 l')"
proof -
  have "\<not> ev_is_active 6 timer_loop" "w_pending (watchers timer_loop 6) = 0"
    by (simp_all add: ev_is_active_def timer_loop_fields user_watcher_fields)
  moreover have "loop_ok sample_types timer_loop"
    using timer_loop_typed by (simp add: loop_ok_def fds_ok_def fds_ok_for_def io_lists_ok_def)
      (simp add: timer_loop_def zero_loop_def)
  ultimately have st: "(\<exists>l'. ev_prepare_start 6 timer_loop = Ok l' \<and> loop_ok sample_types l' \<and> prepares l' = prepares timer_loop @ [6])"
    "\<forall>u \<in> he_w ` timer_entries timer_loop. \<exists>l'. ev_timer_stop u timer_loop = Ok l' \<and> loop_ok sample_types l' \<and> \<not> ev_is_active u l'"
    using start_stop_typed [of sample_types timer_loop 6] by (auto simp: sample_types_def)
  moreover have "prepares timer_loop = []" by (simp add: timer_loop_def zero_loop_def)
  ultimately show ?thesis by (simp add: timer_samples(2))
qed

section \<open>Pending events\<close>

text \<open>A new loop with the poll backend has nothing waiting and keeps the watchers of the program.\<close>

lemma start_poll:
  assumes "backend l = 0"
  shows "start_backend env EVBACKEND_POLL l = (snd (poll_init l))\<lparr>backend := EVBACKEND_POLL\<rparr>"
proof -
  have masks: "EVBACKEND_POLL AND EVBACKEND_MASK \<noteq> 0" "EVBACKEND_POLL AND EVBACKEND_PORT = 0" "EVBACKEND_POLL AND EVBACKEND_KQUEUE = 0"
    "EVBACKEND_POLL AND EVBACKEND_EPOLL = 0" "EVBACKEND_POLL AND EVBACKEND_POLL \<noteq> 0" "EVBACKEND_POLL AND EVBACKEND_SELECT = 0"
    by (simp_all add: ev_flag_defs)
  show ?thesis
    unfolding start_backend_def Let_def try_backend_def using masks assms by (simp add: poll_init_def)
qed

lemma new_poll_loop:
  assumes "\<And>w. libev_flags env w = None" "\<And>w. snd (ev_time env w) = w" "\<And>w. snd (get_clock env w) = w"
  shows "\<exists>l. ev_loop_new env EVBACKEND_POLL ws world = Some l \<and> pendings l = (\<lambda>_. []) \<and> ev_world l = world \<and>
    w_cb (watchers l pending_w) = Pendingcb \<and> (\<forall>w. w \<noteq> pending_w \<and> w \<noteq> pipe_w \<longrightarrow> watchers l w = ws w)"
proof -
  have masks: "EVBACKEND_POLL AND EVFLAG_FORKCHECK = 0" "EVBACKEND_POLL \<noteq> 0"
    by (simp_all add: ev_flag_defs)
  define z where "z = (zero_loop ws world)\<lparr>origflags := EVBACKEND_POLL\<rparr>"
  define z1 where "z1 = read_clock env (read_time env z)"
  have z1: "watchers z1 = ws" "pendings z1 = (\<lambda>_. [])" "ev_world z1 = world"
    using assms(2) [of "ev_world z"] assms(3) [of "snd (ev_time env (ev_world z))"]
    by (auto simp: z1_def z_def zero_loop_def read_clock_def read_time_def split: prod.splits)
  define z2 where "z2 = z1\<lparr>now_floor := mn_now z1, rtmn_diff := ev_rt_now z1 - mn_now z1, io_blocktime := 0,
                  timeout_blocktime := 0, backend := 0, backend_fd := -1, sig_pending := False, async_pending := False,
                  pipe_write_skipped := False, pipe_write_wanted := False,
                  fs_fd := (if EVBACKEND_POLL AND EVFLAG_NOINOTIFY \<noteq> 0 then -1 else -2),
                  sigfd := (if EVBACKEND_POLL AND EVFLAG_SIGNALFD \<noteq> 0 then -2 else -1)\<rparr>"
  define z3 where "z3 = (snd (poll_init z2))\<lparr>backend := EVBACKEND_POLL\<rparr>"
  have z3: "watchers z3 = ws" "pendings z3 = (\<lambda>_. [])" "ev_world z3 = world" "backend z3 = EVBACKEND_POLL"
    by (simp_all add: z3_def poll_init_def z2_def z1)
  let ?l = "upd_watcher pipe_w (\<lambda>x. (ev_init Pipecb x)\<lparr>w_priority := EV_MAXPRI\<rparr>) (upd_watcher pending_w (ev_init Pendingcb) z3)"
  have start: "start_backend env EVBACKEND_POLL z2 = z3" unfolding z3_def by (rule start_poll) (simp add: z2_def)
  have "backend (zero_loop ws world) = 0" by (simp add: zero_loop_def)
  then have l: "loop_init env EVBACKEND_POLL (zero_loop ws world) = ?l"
    unfolding loop_init_def Let_def using masks(1) assms(1)
    by (simp add: z_def [symmetric] z1_def [symmetric] z2_def [symmetric] start)
  show ?thesis
    unfolding ev_loop_new_def Let_def l using z3 masks(2)
    by (auto simp: ev_backend_def upd_watcher_def ev_init_def pending_w_def pipe_w_def)
qed

text \<open>
  C23. When the callbacks of the watchers that have events waiting do nothing to the loop (they may record anything
  in the world outside), working off the queues calls every such watcher exactly once, in descending
  priority and within a priority the last event first, skips the events that were cleared, and
  leaves all queues empty; fuel for the longest queue is enough.
\<close>

theorem pending_called_in_order:
  assumes "recording env rec" and "user_queued l"
    and "\<forall>pri < NUMPRI. length (pendings l pri) \<le> fuel"
  shows "\<exists>l'. ev_invoke_pending env fuel l = Ok l' \<and> (\<forall>pri < NUMPRI. pendings l' pri = []) \<and> ev_pending_count l' = 0 \<and>
    ev_world l' = record_calls rec (rev (pendings l 4) @ rev (pendings l 3) @ rev (pendings l 2) @
      rev (pendings l 1) @ rev (pendings l 0)) (ev_world l)"
proof -
  obtain ws where "invoke_levels env fuel NUMPRI l =
      Ok (l\<lparr>pendings := (\<lambda>pri. if pri < NUMPRI then [] else pendings l pri), watchers := ws,
            ev_world := record_calls rec (call_order NUMPRI (pendings l)) (ev_world l)\<rparr>)"
    using invoke_levels_recorded [OF assms(1,2), of NUMPRI fuel] assms(3) by blast
  then show ?thesis
    by (simp add: ev_invoke_pending_def ev_pending_count_def numeral_eq_Suc)
qed

text \<open>A new loop with three events waiting and one that was cleared; watcher 9 has the highest priority.\<close>

definition recording_env :: "addr list ev_env" where
  "recording_env = quiet_env\<lparr>user_cb := (\<lambda>_ w _ l. Ok (l\<lparr>ev_world := ev_world l @ [w]\<rparr>))\<rparr>"

definition busy_loop :: "addr list ev_loop" where
  "busy_loop = ev_feed_event 9 EV_READ (clear_pending 7 (ev_feed_event 6 EV_READ (ev_feed_event 7 EV_TIMER (ev_feed_event 5 EV_READ
     (the (ev_loop_new recording_env EVBACKEND_POLL ((\<lambda>_. user_watcher)(9 := user_watcher\<lparr>w_priority := 2\<rparr>)) []))))))"

theorem pending_called_in_order_witness:
  "\<exists>l'. ev_invoke_pending recording_env 3 busy_loop = Ok l' \<and> ev_world l' = [9, 6, 5]"
proof -
  let ?rec = "\<lambda>w _ world. world @ [w]"
  have r: "recording recording_env ?rec" by (simp add: recording_def recording_env_def)
  obtain l where l: "ev_loop_new recording_env EVBACKEND_POLL ((\<lambda>_. user_watcher)(9 := user_watcher\<lparr>w_priority := 2\<rparr>)) [] = Some l"
    "pendings l = (\<lambda>_. [])" "ev_world l = []" "w_cb (watchers l pending_w) = Pendingcb"
    "\<And>w. w > 1 \<Longrightarrow> watchers l w = (if w = 9 then user_watcher\<lparr>w_priority := 2\<rparr> else user_watcher)"
    using new_poll_loop [of recording_env "(\<lambda>_. user_watcher)(9 := user_watcher\<lparr>w_priority := 2\<rparr>)" "[]"]
    by (auto simp: recording_env_def quiet_env_def pending_w_def pipe_w_def)
  have w: "watchers l 5 = user_watcher" "watchers l 6 = user_watcher" "watchers l 7 = user_watcher"
    "watchers l 9 = user_watcher\<lparr>w_priority := 2\<rparr>" by (simp_all add: l(5))
  have p: "pendings busy_loop = (\<lambda>pri. if pri = 2 then [(5, EV_READ), (pending_w, EV_TIMER), (6, EV_READ)]
        else if pri = 4 then [(9, EV_READ)] else [])" "ev_world busy_loop = []"
    by (auto simp: busy_loop_def l(1-3) ev_feed_event_def clear_pending_def upd_watcher_def Let_def w user_watcher_fields abspri_def
        EV_MINPRI_def fun_eq_iff)
  have feed: "w_cb (watchers (ev_feed_event u e k) x) = w_cb (watchers k x)" and clear: "w_cb (watchers (clear_pending u k) x) = w_cb (watchers k x)"
    for u e x and k :: "addr list ev_loop"
    by (simp_all add: ev_feed_event_def clear_pending_def upd_watcher_def Let_def)
  have cb: "w_cb (watchers busy_loop x) = w_cb (watchers l x)" for x
    by (simp add: busy_loop_def l(1) feed clear)
  have "w_cb user_watcher = User_cb 0" by (simp add: user_watcher_def)
  then have u: "user_queued busy_loop"
    unfolding user_queued_def p cb using l(4) by (simp add: w pending_w_def)
  have "\<forall>pri < NUMPRI. length (pendings busy_loop pri) \<le> 3" by (simp add: p)
  from pending_called_in_order [OF r u this] show ?thesis by (auto simp: p pending_w_def)
qed

section \<open>Wakeups, blocking and returning\<close>










text \<open>
  C37. The time the backend may block is never longer than a minute or until the first
  timer is due, except where the least time of the backend or the collect interval the user has
  set says so, and never shorter than the backend's least time.
\<close>

theorem block_time_bounded:
  assumes "timers_ok l" and "he \<in> timer_entries l"
  shows "backend_mintime l \<le> block_time l \<and>
    block_time l \<le> max MAX_BLOCKTIME (max (timeout_blocktime l) (backend_mintime l)) \<and>
    block_time l \<le> max (he_at he - mn_now l) (max (timeout_blocktime l) (backend_mintime l))"
proof -
  have "timercnt l \<noteq> 0" using timers_okD(5) [OF assms] by simp
  then show ?thesis using block_time_bounds(1,2) block_time_bounds(3) timer_root(2) [OF assms(1) _ assms(2)] by fastforce
qed

theorem block_time_bounded_witness: "block_time (timer_loop\<lparr>mn_now := 0\<rparr>) \<le> 1"
proof -
  let ?l = "timer_loop\<lparr>mn_now := 0\<rparr>"
  have "timers_ok ?l" "timer_entries ?l = timer_entries timer_loop"
    using timer_samples(1) by (simp_all add: timers_ok_def timer_entries_def)
  then show ?thesis
    using block_time_bounded [of ?l "\<lparr>he_at = 1, he_w = 7\<rparr>"] timer_samples(2)
    by (auto simp: timer_loop_def zero_loop_def)
qed

text \<open>
  A loop without active watchers and pending events returns after one round, for every
  combination of flags, when the kernel has nothing to report, with its watchers untouched.
\<close>

theorem idle_run_returns:
  assumes "nothing_to_do l" and "loop_done l \<noteq> EVBREAK_RECURSE"
    and "\<forall>ps t world. \<exists>revents world'. poll_call env ps t world = (Poll_revents 0 revents, world')"
  shows "\<exists>l'. ev_run env fuel (Suc rounds) flags l = Ok l' \<and> loop_count l' = loop_count l + 1 \<and>
    loop_depth l' = loop_depth l \<and> loop_done l' = EVBREAK_CANCEL \<and> watchers l' = watchers l \<and> nothing_to_do l'"
proof -
  let ?l = "l\<lparr>loop_depth := loop_depth l + 1, loop_done := EVBREAK_CANCEL\<rparr>"
  have idle: "nothing_to_do ?l" using assms(1) by (simp add: nothing_to_do_def)
  have "\<exists>revents world'. poll_call env ps t world = (Poll_revents 0 revents, world')" for ps t world
    using assms(3) by blast
  from idle_run_round [OF idle _ this, of fuel flags]
  obtain l1 where l1: "run_round env fuel flags ?l = Ok (True, l1)" "nothing_to_do l1" "loop_done l1 = 0"
    "loop_count l1 = loop_count l + 1" "watchers l1 = watchers l" "loop_depth l1 = loop_depth l + 1"
    by (auto simp: EVBREAK_CANCEL_def)
  have inv: "ev_invoke_pending env fuel ?l = Ok ?l" using idle by (intro invoke_nothing) (simp add: nothing_to_do_def)
  have "\<not> run_again flags l1" using l1(2) by (simp add: run_again_def nothing_to_do_def)
  then have rounds: "run_rounds env fuel (Suc rounds) flags ?l = Ok l1" using l1(1) by simp
  have "ev_run env fuel (Suc rounds) flags l = Ok (l1\<lparr>loop_depth := loop_depth l1 - 1\<rparr>)"
    using assms(2) inv rounds l1(3) by (simp add: ev_run_def Let_def EVBREAK_ONE_def del: run_rounds.simps)
  then show ?thesis using l1 by (simp add: nothing_to_do_def EVBREAK_CANCEL_def)
qed

theorem idle_run_returns_witness:
  "\<exists>l'. ev_run sample_env 0 1 0 (zero_loop (\<lambda>_. user_watcher) ()) = Ok l' \<and> loop_count l' = 1"
proof -
  let ?l = "zero_loop (\<lambda>_. user_watcher) ()"
  have "nothing_to_do ?l" "loop_done ?l \<noteq> EVBREAK_RECURSE" "loop_count ?l = 0"
    by (simp_all add: nothing_to_do_def zero_loop_def EVBREAK_RECURSE_def)
  moreover have "\<forall>ps t world. \<exists>revents world'. poll_call sample_env ps t world = (Poll_revents 0 revents, world')"
    by (simp add: sample_env_def quiet_env_def)
  ultimately show ?thesis using idle_run_returns [of ?l sample_env 0 0 0] by auto
qed

text \<open>
  The size an array grows to holds the wanted number of elements and is larger than
  before, also when it is rounded to the allocator's pages.
\<close>

theorem array_nextsize_grows:
  assumes "0 < elem" and "0 \<le> cur"
  shows "cnt \<le> array_nextsize elem cur cnt \<and> cur < array_nextsize elem cur cnt"
  using array_nextsize_ge [OF assms] .

theorem array_nextsize_grows_witness: "1000 \<le> array_nextsize 16 4 1000 \<and> 4 < array_nextsize 16 4 1000"
  using array_nextsize_grows [of 16 4 1000] by simp

text \<open>
  The signal number one past the last, which the range test lets through, reads past
  the end of the signal table; every other number is safe, and inside the range exactly the
  watchers of the signal are queued.
\<close>

theorem signal_number_past_table:
  assumes "length (signals l) = nat (EV_NSIG - 1)"
  shows "(ev_feed_signal_event signum l = Fault Out_of_bounds) = (signum = EV_NSIG) \<and>
    (0 < signum \<and> signum < EV_NSIG \<and> sig_loop (signals l ! nat (signum - 1)) \<longrightarrow>
      (\<exists>l0. ev_feed_signal_event signum l = Ok (feed_all (sig_head (signals l ! nat (signum - 1))) EV_SIGNAL l0) \<and>
        pendings l0 = pendings l \<and> watchers l0 = watchers l))"
proof -
  have n: "nat (signum - 1) \<ge> length (signals l) \<longleftrightarrow> signum \<ge> EV_NSIG" if "0 < signum"
    using that assms by (auto simp: EV_NSIG_def)
  show ?thesis
  proof (cases "signum \<le> 0 \<or> signum > EV_NSIG")
    case True
    then show ?thesis by (auto simp: ev_feed_signal_event_def EV_NSIG_def)
  next
    case False
    then show ?thesis using n by (auto simp: ev_feed_signal_event_def Let_def)
  qed
qed

theorem signal_number_past_table_witness:
  "ev_feed_signal_event 65 (zero_loop (\<lambda>_. user_watcher) ()) = Fault Out_of_bounds"
  using signal_number_past_table [of "zero_loop (\<lambda>_. user_watcher) ()" 65] by (simp add: zero_loop_def EV_NSIG_def)

end
