(* ===== verification/Ev_Ready.thy ===== *)
theory Ev_Ready
  imports Ev_Backend
begin

unbundle bit_operations_syntax

text \<open>
  What becomes of the descriptors that the kernel reports as ready: both the walk over the
  entries of \<open>poll\<close> and the one over the sets of \<open>select\<close> amount to a list of descriptors
  with events, and every watcher that waits for one of them is queued.
\<close>

section \<open>A list of ready descriptors\<close>

primrec fd_events_all :: "(nat \<times> ev_mask) list \<Rightarrow> 'w ev_loop \<Rightarrow> 'w ev_loop outcome" where
  "fd_events_all [] l = Ok l"
| "fd_events_all (p # ps) l = obind (fd_event (fst p) (snd p) l) (fd_events_all ps)"

lemma fd_events_all_append:
  fixes l :: "'w ev_loop"
  shows "fd_events_all (ps @ qs) l = obind (fd_events_all ps l) (fd_events_all qs)"
proof (induction ps arbitrary: l)
  case (Cons p ps)
  have "fd_events_all (ps @ qs) = (\<lambda>l :: 'w ev_loop. obind (fd_events_all ps l) (fd_events_all qs))"
    by (simp add: fun_eq_iff Cons)
  then show ?case by (simp add: obind_assoc)
qed simp

text \<open>A watcher that waits for some of the events of its descriptor.\<close>

definition ready :: "(nat \<times> ev_mask) list \<Rightarrow> 'w ev_loop \<Rightarrow> addr \<Rightarrow> bool" where
  "ready ps l x \<longleftrightarrow> (\<exists>(fd, e) \<in> set ps. x \<in> set (fd_head (anfds l ! fd)) \<and> w_events (watchers l x) AND e \<noteq> 0)"

lemma feed_ios_ok:
  assumes "pending_ok l" "pending_w \<notin> set ws"
  shows "pending_ok (feed_ios ws e l) \<and> anfds (feed_ios ws e l) = anfds l \<and>
    (\<forall>x. w_events (watchers (feed_ios ws e l) x) = w_events (watchers l x)) \<and>
    (\<forall>x \<in> set ws. w_events (watchers l x) AND e \<noteq> 0 \<longrightarrow> queued_with x (w_events (watchers l x) AND e) (feed_ios ws e l)) \<and>
    (\<forall>x ev. queued_with x ev l \<longrightarrow> queued_with x ev (feed_ios ws e l)) \<and>
    (\<forall>x. w_pending (watchers l x) = 0 \<and> (x \<notin> set ws \<or> w_events (watchers l x) AND e = 0) \<longrightarrow>
       w_pending (watchers (feed_ios ws e l) x) = 0)"
  using assms
proof (induction ws arbitrary: l)
  case (Cons w ws)
  define ev where "ev = w_events (watchers l w) AND e"
  define l1 where "l1 = (if ev \<noteq> 0 then ev_feed_event w ev l else l)"
  have w: "w \<noteq> pending_w" "pending_w \<notin> set ws" using Cons.prems(2) by auto
  have ok1: "pending_ok l1" using Cons.prems(1) pending_ok_feed [OF Cons.prems(1) w(1)] by (simp add: l1_def)
  have same: "anfds l1 = anfds l" "w_events (watchers l1 x) = w_events (watchers l x)" for x
    by (simp_all add: l1_def ev_feed_event_keeps)
  have keep: "queued_with x ev' l1" if "queued_with x ev' l" for x ev'
    using that queued_with_keep [OF that Cons.prems(1) w(1)] by (simp add: l1_def)
  have new: "queued_with w ev l1" if "ev \<noteq> 0"
    using that queued_with_feed [OF Cons.prems(1) w(1)] by (simp add: l1_def)
  have idle: "w_pending (watchers l1 x) = 0" if "w_pending (watchers l x) = 0" "x \<noteq> w \<or> ev = 0" for x
    using that by (auto simp: l1_def ev_feed_event_def Let_def)
  have step: "feed_ios (w # ws) e l = feed_ios ws e l1" by (simp add: l1_def ev_def Let_def)
  note IH = Cons.IH [OF ok1 w(2)]
  show ?case
    unfolding step
  proof (intro conjI allI ballI impI)
    fix x assume "x \<in> set (w # ws)" "w_events (watchers l x) AND e \<noteq> 0"
    then show "queued_with x (w_events (watchers l x) AND e) (feed_ios ws e l1)"
      using IH new same(2) [of x] by (cases "x \<in> set ws") (auto simp: ev_def)
  next
    fix x
    assume "w_pending (watchers l x) = 0 \<and> (x \<notin> set (w # ws) \<or> w_events (watchers l x) AND e = 0)"
    then show "w_pending (watchers (feed_ios ws e l1) x) = 0"
      using IH idle [of x] same(2) [of x] unfolding ev_def by (cases "x = w") auto
  qed (use IH same keep in auto)
qed simp

lemma fd_events_all_ok:
  assumes "pending_ok l"
    and "\<forall>(fd, e) \<in> set ps. fd < length (anfds l) \<and> fd_reify_flag (anfds l ! fd) = 0 \<and>
      pending_w \<notin> set (fd_head (anfds l ! fd))"
  shows "\<exists>l'. fd_events_all ps l = Ok l' \<and> pending_ok l' \<and> anfds l' = anfds l \<and>
    (\<forall>x. w_events (watchers l' x) = w_events (watchers l x)) \<and>
    (\<forall>fd e x. (fd, e) \<in> set ps \<and> x \<in> set (fd_head (anfds l ! fd)) \<and> w_events (watchers l x) AND e \<noteq> 0 \<longrightarrow>
       queued_with x (w_events (watchers l x) AND e) l') \<and>
    (\<forall>x ev. queued_with x ev l \<longrightarrow> queued_with x ev l') \<and>
    (\<forall>x. w_pending (watchers l x) = 0 \<and> \<not> ready ps l x \<longrightarrow> w_pending (watchers l' x) = 0)"
  using assms
proof (induction ps arbitrary: l)
  case (Cons p ps)
  obtain fd e where p: "p = (fd, e)" by force
  have fd: "fd < length (anfds l)" "fd_reify_flag (anfds l ! fd) = 0" "pending_w \<notin> set (fd_head (anfds l ! fd))"
    using Cons.prems(2) p by auto
  define l1 where "l1 = feed_ios (fd_head (anfds l ! fd)) e l"
  note f = feed_ios_ok [OF Cons.prems(1) fd(3), of e, folded l1_def]
  have same: "anfds l1 = anfds l" "\<And>x. w_events (watchers l1 x) = w_events (watchers l x)" using f by auto
  have step: "fd_events_all (p # ps) l = fd_events_all ps l1"
    using fd p by (simp add: fd_event_def fd_event_nocheck_def anfd_at_def l1_def)
  have "pending_ok l1" using f by blast
  moreover have "\<forall>(fd, e) \<in> set ps. fd < length (anfds l1) \<and> fd_reify_flag (anfds l1 ! fd) = 0 \<and>
      pending_w \<notin> set (fd_head (anfds l1 ! fd))"
    using Cons.prems(2) same(1) by simp
  ultimately obtain l' where l': "fd_events_all ps l1 = Ok l'" "pending_ok l'" "anfds l' = anfds l1"
    "\<forall>x. w_events (watchers l' x) = w_events (watchers l1 x)"
    "\<forall>fd e x. (fd, e) \<in> set ps \<and> x \<in> set (fd_head (anfds l1 ! fd)) \<and> w_events (watchers l1 x) AND e \<noteq> 0 \<longrightarrow>
       queued_with x (w_events (watchers l1 x) AND e) l'"
    "\<forall>x ev. queued_with x ev l1 \<longrightarrow> queued_with x ev l'"
    "\<forall>x. w_pending (watchers l1 x) = 0 \<and> \<not> ready ps l1 x \<longrightarrow> w_pending (watchers l' x) = 0"
    using Cons.IH by blast
  have rdy: "ready (p # ps) l x = (x \<in> set (fd_head (anfds l ! fd)) \<and> w_events (watchers l x) AND e \<noteq> 0 \<or> ready ps l1 x)" for x
    by (simp add: ready_def p same)
  show ?case
    unfolding step
  proof (intro exI [of _ l'] conjI allI impI)
    fix fd' e' x
    assume *: "(fd', e') \<in> set (p # ps) \<and> x \<in> set (fd_head (anfds l ! fd')) \<and> w_events (watchers l x) AND e' \<noteq> 0"
    show "queued_with x (w_events (watchers l x) AND e') l'"
    proof (cases "(fd', e') \<in> set ps")
      case True
      then have "x \<in> set (fd_head (anfds l1 ! fd'))" "w_events (watchers l1 x) AND e' \<noteq> 0"
        using * same by simp_all
      then have "queued_with x (w_events (watchers l1 x) AND e') l'" using l'(5) True by blast
      then show ?thesis using same(2) by simp
    next
      case False
      then have "queued_with x (w_events (watchers l x) AND e') l1" using * f p by auto
      then show ?thesis using l'(6) by blast
    qed
  next
    fix x assume "w_pending (watchers l x) = 0 \<and> \<not> ready (p # ps) l x"
    then show "w_pending (watchers l' x) = 0" using l'(7) f rdy [of x] by auto
  qed (use l' f same in auto)
qed simp

section \<open>The sets of select\<close>

definition bit_events :: "fd_mask list \<Rightarrow> fd_mask list \<Rightarrow> nat list \<Rightarrow> (nat \<times> ev_mask) list" where
  "bit_events r w fds = filter (\<lambda>p. snd p \<noteq> 0) (map (\<lambda>fd. (fd, bits_mask r w fd)) fds)"

lemma bit_events_append: "bit_events r w (fds @ fds') = bit_events r w fds @ bit_events r w fds'"
  by (simp add: bit_events_def)

lemma and_bit: "((x :: fd_mask) AND 2 ^ i = 0) = (\<not> bit x i)"
  by (rule and_exp_eq_0_iff_not_bit)

lemma bits_mask_at:
  assumes "word < length r" "word < length w" "i < NFDBITS"
  shows "bits_mask r w (word * NFDBITS + i) =
    (if bit (r ! word) i then EV_READ else 0) OR (if bit (w ! word) i then EV_WRITE else 0)"
  using assms by (simp add: bits_mask_def Let_def NFDBITS_def)

lemma select_bits_eq:
  fixes l :: "'w ev_loop"
  assumes "word < length r" "word < length w" "i \<le> NFDBITS"
  shows "select_bits i word (r ! word) (w ! word) l =
    fd_events_all (bit_events r w (map (\<lambda>b. word * NFDBITS + b) (rev [0..<i]))) l"
  using assms(3)
proof (induction i arbitrary: l)
  case (Suc i)
  have i: "i < 64" using Suc.prems by (simp add: NFDBITS_def)
  have m: "(if r ! word AND push_bit i 1 \<noteq> 0 then EV_READ else 0) OR
      (if w ! word AND push_bit i 1 \<noteq> 0 then EV_WRITE else 0) = bits_mask r w (word * NFDBITS + i)"
    using assms(1,2) Suc.prems i by (simp add: bits_mask_at and_bit)
  have "select_bits (Suc i) word (r ! word) (w ! word) l =
    obind (if bits_mask r w (word * NFDBITS + i) \<noteq> 0 then fd_event (word * NFDBITS + i) (bits_mask r w (word * NFDBITS + i)) l else Ok l)
      (select_bits i word (r ! word) (w ! word))"
    by (simp only: select_bits.simps Let_def m)
  moreover have "select_bits i word (r ! word) (w ! word) =
      (fd_events_all (bit_events r w (map (\<lambda>b. word * NFDBITS + b) (rev [0..<i]))) :: 'w ev_loop \<Rightarrow> 'w ev_loop outcome)"
    using Suc by (simp add: fun_eq_iff)
  ultimately show ?case by (simp add: bit_events_def)
qed (simp add: bit_events_def)

lemma select_words_eq:
  fixes l :: "'w ev_loop"
  assumes "n \<le> length r" "n \<le> length w"
  shows "select_words n r w l = fd_events_all (bit_events r w (rev [0..<n * NFDBITS])) l"
  using assms
proof (induction n arbitrary: l)
  case (Suc n)
  let ?fds = "map (\<lambda>b. n * NFDBITS + b) (rev [0..<NFDBITS])"
  have split: "rev [0..<Suc n * NFDBITS] = ?fds @ rev [0..<n * NFDBITS]"
  proof -
    have "[0..<Suc n * NFDBITS] = [0..<n * NFDBITS] @ [n * NFDBITS..<n * NFDBITS + NFDBITS]"
      using upt_add_eq_append [of 0 "n * NFDBITS" NFDBITS] by (simp add: add.commute)
    also have "[n * NFDBITS..<n * NFDBITS + NFDBITS] = map (\<lambda>b. n * NFDBITS + b) [0..<NFDBITS]"
      by (simp add: map_add_upt add.commute)
    finally show ?thesis by (simp add: rev_map)
  qed
  have bits: "select_bits NFDBITS n (r ! n) (w ! n) l = fd_events_all (bit_events r w ?fds) l"
    using Suc.prems by (intro select_bits_eq) auto
  have none: "bit_events r w ?fds = []" if "r ! n = 0" "w ! n = 0"
  proof -
    have "bits_mask r w (n * NFDBITS + b) = 0" if "b < NFDBITS" for b
      using bits_mask_at [of n r w b] Suc.prems \<open>r ! n = 0\<close> \<open>w ! n = 0\<close> that by simp
    then show ?thesis by (auto simp: bit_events_def filter_empty_conv)
  qed
  have "(if r ! n \<noteq> 0 \<or> w ! n \<noteq> 0 then select_bits NFDBITS n (r ! n) (w ! n) l else Ok l) =
      fd_events_all (bit_events r w ?fds) l"
    using bits none by auto
  moreover have "select_words n r w =
      (fd_events_all (bit_events r w (rev [0..<n * NFDBITS])) :: 'w ev_loop \<Rightarrow> 'w ev_loop outcome)"
    using Suc by (simp add: fun_eq_iff)
  ultimately show ?case
    unfolding split bit_events_append fd_events_all_append select_words.simps by simp
qed (simp add: bit_events_def)

section \<open>The entries of poll\<close>

definition poll_got :: "ev_mask \<Rightarrow> ev_mask" where
  "poll_got revents = (if revents AND (POLLOUT OR POLLERR OR POLLHUP) \<noteq> 0 then EV_WRITE else 0) OR
     (if revents AND (POLLIN OR POLLERR OR POLLHUP) \<noteq> 0 then EV_READ else 0)"

lemma poll_events_eq:
  fixes l :: "'w ev_loop"
  assumes "res = length (filter (\<lambda>(p, e). e \<noteq> 0) ps)" and "\<And>p e. (p, e) \<in> set ps \<Longrightarrow> e AND POLLNVAL = 0"
  shows "poll_events_loop res ps l =
    fd_events_all (map (\<lambda>(p, e). (poll_fd p, poll_got e)) (filter (\<lambda>(p, e). e \<noteq> 0) ps)) l"
  using assms
proof (induction ps arbitrary: l res)
  case (Cons q ps)
  obtain p e where q: "q = (p, e)" by force
  have nv: "e AND POLLNVAL = 0" "\<And>p e. (p, e) \<in> set ps \<Longrightarrow> e AND POLLNVAL = 0" using Cons.prems(2) q by auto
  show ?case
  proof (cases "e = 0")
    case True
    then have skip: "filter (\<lambda>(p, e). e \<noteq> 0) (q # ps) = filter (\<lambda>(p, e). e \<noteq> 0) ps" by (simp add: q)
    then have IH: "poll_events_loop res ps l =
        fd_events_all (map (\<lambda>(p, e). (poll_fd p, poll_got e)) (filter (\<lambda>(p, e). e \<noteq> 0) ps)) l"
      using Cons.IH [of res l] Cons.prems(1) nv(2) by simp
    have "poll_events_loop res (q # ps) l = poll_events_loop res ps l"
      using True q by (cases res; cases ps) simp_all
    then show ?thesis unfolding skip using IH by simp
  next
    case False
    define n where "n = length (filter (\<lambda>(p, e). e \<noteq> 0) ps)"
    have res: "res = Suc n" using Cons.prems(1) False by (simp add: q n_def)
    have "poll_events_loop n ps =
        (fd_events_all (map (\<lambda>(p, e). (poll_fd p, poll_got e)) (filter (\<lambda>(p, e). e \<noteq> 0) ps)) ::
          'w ev_loop \<Rightarrow> 'w ev_loop outcome)"
      using Cons.IH [of n] nv(2) by (simp add: n_def fun_eq_iff)
    then show ?thesis using False nv(1) by (simp add: res q poll_entry_def poll_got_def)
  qed
qed simp

end
