(* ===== verification/Ev_Kernel.thy ===== *)
theory Ev_Kernel
  imports Ev_Props Ev_Ready
begin

unbundle bit_operations_syntax

text \<open>
  The properties of the loop's dealings with the kernel: what the backends tell it, what they
  make of its answers, and how the epoll backend can forget a descriptor.
\<close>

section \<open>The backends agree\<close>

text \<open>
  C9. Whichever of the two portable backends a loop uses, after the changed descriptors
  have been passed on the kernel is asked for the same events of the same descriptors.
\<close>

theorem poll_and_select_agree:
  assumes "fds_ok l" and "fds_ok l'" and "backend_modify l = Poll_modify" and "backend_modify l' = Select_modify"
    and "polls_ok l" and "selects_ok l'" and "kernel_synced poll_mask l" and "kernel_synced select_mask l'"
    and "map fd_head (anfds l') = map fd_head (anfds l)" and "watchers l' = watchers l"
  shows "\<exists>p s. fd_reify env l = Ok p \<and> fd_reify env l' = Ok s \<and> select_mask s = poll_mask p \<and>
    (\<forall>fd. poll_mask p fd = (if fd < length (anfds l) then or_events l (fd_head (anfds l ! fd)) else 0))"
proof -
  obtain p where p: "fd_reify env l = Ok p" "kernel_synced poll_mask p" "map fd_head (anfds p) = map fd_head (anfds l)"
    "\<And>fd. fd < length (anfds l) \<Longrightarrow> poll_mask p fd = or_events l (fd_head (anfds l ! fd))"
    using poll.fd_reify_ok [OF assms(3,5,7,1)] by blast
  obtain s where s: "fd_reify env l' = Ok s" "kernel_synced select_mask s" "map fd_head (anfds s) = map fd_head (anfds l')"
    "\<And>fd. fd < length (anfds l') \<Longrightarrow> select_mask s fd = or_events l' (fd_head (anfds l' ! fd))"
    using select.fd_reify_ok [OF assms(4,6,8,2)] by blast
  have len: "length (anfds p) = length (anfds l)" "length (anfds s) = length (anfds l)" "length (anfds l') = length (anfds l)"
    using arg_cong [OF p(3), of length] arg_cong [OF s(3), of length] arg_cong [OF assms(9), of length] by simp_all
  have heads: "fd_head (anfds l' ! fd) = fd_head (anfds l ! fd)" if "fd < length (anfds l)" for fd
    using arg_cong [OF assms(9), of "\<lambda>hs. hs ! fd"] that len by simp
  have masks: "poll_mask p fd = (if fd < length (anfds l) then or_events l (fd_head (anfds l ! fd)) else 0)"
    "select_mask s fd = (if fd < length (anfds l) then or_events l (fd_head (anfds l ! fd)) else 0)" for fd
    using p(2,4) s(2,4) len heads [of fd] assms(10) by (auto simp: kernel_synced_def or_events_def)
  then show ?thesis using p(1) s(1) by (auto simp: fun_eq_iff)
qed

definition select_io_loop :: "unit ev_loop" where
  "select_io_loop = io_loop\<lparr>backend_modify := Select_modify, backend_poll := Select_poll\<rparr>"

theorem poll_and_select_agree_witness:
  "\<exists>p s. fd_reify sample_env io_loop = Ok p \<and> fd_reify sample_env select_io_loop = Ok s \<and> select_mask s 0 = EV_READ"
proof -
  have s: "fds_ok select_io_loop" "backend_modify select_io_loop = Select_modify"
    "selects_ok select_io_loop" "map fd_head (anfds select_io_loop) = map fd_head (anfds io_loop)"
    "watchers select_io_loop = watchers io_loop"
    using loop_samples(2)
    by (simp_all add: select_io_loop_def fds_ok_def fds_ok_for_def io_lists_ok_def or_events_def selects_ok_def io_loop_def
        zero_loop_def)
  have k: "kernel_synced select_mask select_io_loop"
    by (auto simp: kernel_synced_def select_mask_def bits_mask_def select_io_loop_def io_loop_def zero_loop_def Let_def)
  have "or_events io_loop (fd_head (anfds io_loop ! 0)) = EV_READ" "length (anfds io_loop) = 1"
    by (simp_all add: or_events_def io_loop_def zero_loop_def ev_mask_defs)
  then show ?thesis
    using poll_and_select_agree [OF loop_samples(2) s(1) loop_samples(5) s(2) loop_samples(3) s(3) loop_samples(4) k
        s(4,5), of sample_env] by force
qed

section \<open>Ready descriptors\<close>

text \<open>
  C16. What \<open>select\<close> reports is delivered: every watcher of a reported descriptor that waits
  for one of the reported events has it queued, whatever words and bits of the sets it came in,
  and a watcher that waits for none of them has nothing queued.
\<close>

theorem select_poll_queues_ready:
  assumes "pending_ok l" and "fds_ok l" and "fdchanges l = []" and "selects_ok l" and "kernel_synced select_mask l"
    and "pending_w \<notin> (\<Union>a \<in> set (anfds l). set (fd_head a))"
    and "select_call env (vec_ri l) (vec_wi l) (tv_set t) (ev_world l) = (Select_sets r w, world)"
    and "length r = length (vec_ri l)" and "length w = length (vec_wi l)"
    and "\<forall>fd. bits_mask r w fd AND NOT (bits_mask (vec_ri l) (vec_wi l) fd) = 0"
  shows "\<exists>l'. select_poll env t l = Ok l' \<and> pending_ok l' \<and> anfds l' = anfds l \<and>
    (\<forall>fd < length (anfds l). \<forall>x \<in> set (fd_head (anfds l ! fd)).
       (let got = w_events (watchers l x) AND bits_mask r w fd in
          if got \<noteq> 0 then queued_with x got l' else w_pending (watchers l x) = 0 \<longrightarrow> w_pending (watchers l' x) = 0))"
proof -
  define ps where "ps = bit_events r w (rev [0..<length (vec_ri l) * NFDBITS])"
  let ?l = "l\<lparr>ev_world := world\<rparr>"
  have ps: "(fd, e) \<in> set ps \<longleftrightarrow> e = bits_mask r w fd \<and> e \<noteq> 0" for fd e
  proof -
    have "fd < length (vec_ri l) * NFDBITS" if "bits_mask r w fd \<noteq> 0"
    proof (rule ccontr)
      assume "\<not> ?thesis"
      then have "length (vec_ri l) \<le> fd div NFDBITS" by (simp add: NFDBITS_def less_eq_div_iff_mult_less_eq)
      then show False using that assms(4,8,9) by (simp add: bits_mask_def Let_def selects_ok_def)
    qed
    then show ?thesis by (auto simp: ps_def bit_events_def)
  qed
  have len: "length (vec_ri l) \<le> length r" "length (vec_ri l) \<le> length w"
    using assms(4,8,9) by (simp_all add: selects_ok_def)
  have code: "select_poll env t l = fd_events_all ps ?l"
    using select_words_eq [OF len, of ?l] assms(7) by (simp add: select_poll_def ps_def)
  have known: "fd < length (anfds l)" if "bits_mask r w fd \<noteq> 0" for fd
  proof (rule ccontr)
    assume "\<not> ?thesis"
    then have "bits_mask (vec_ri l) (vec_wi l) fd = 0" using assms(5) by (simp add: kernel_synced_def select_mask_def)
    then show False using assms(10) [rule_format, of fd] that by simp
  qed
  have pre: "\<forall>(fd, e) \<in> set ps. fd < length (anfds ?l) \<and> fd_reify_flag (anfds ?l ! fd) = 0 \<and>
      pending_w \<notin> set (fd_head (anfds ?l ! fd))"
    using known ps assms(2,3,6) by (auto simp: fds_ok_def fds_ok_for_def)
  have pok: "pending_ok ?l" using assms(1) by (simp add: pending_ok_def)
  obtain l' where l': "fd_events_all ps ?l = Ok l'" "pending_ok l'" "anfds l' = anfds l"
    "\<forall>fd e x. (fd, e) \<in> set ps \<and> x \<in> set (fd_head (anfds ?l ! fd)) \<and> w_events (watchers ?l x) AND e \<noteq> 0 \<longrightarrow>
       queued_with x (w_events (watchers ?l x) AND e) l'"
    "\<forall>x. w_pending (watchers ?l x) = 0 \<and> \<not> ready ps ?l x \<longrightarrow> w_pending (watchers l' x) = 0"
    using fd_events_all_ok [OF pok pre] by auto
  have here: "fd' = fd" if "fd < length (anfds l)" "fd' < length (anfds l)" "x \<in> set (fd_head (anfds l ! fd))"
      "x \<in> set (fd_head (anfds l ! fd'))" for fd fd' x
  proof -
    have "w_fd (watchers l x) = int fd" "w_fd (watchers l x) = int fd'"
      using that assms(2) unfolding fds_ok_def fds_ok_for_def io_lists_ok_def by blast+
    then show ?thesis by simp
  qed
  have idle: "\<not> ready ps ?l x" if "fd < length (anfds l)" "x \<in> set (fd_head (anfds l ! fd))"
      "w_events (watchers l x) AND bits_mask r w fd = 0" for fd x
  proof
    assume "ready ps ?l x"
    then obtain fd' where fd': "bits_mask r w fd' \<noteq> 0" "x \<in> set (fd_head (anfds l ! fd'))"
      "w_events (watchers l x) AND bits_mask r w fd' \<noteq> 0" using ps by (auto simp: ready_def)
    have "fd' = fd" by (rule here [OF that(1) known [OF fd'(1)] that(2) fd'(2)])
    then show False using fd'(3) that(3) by simp
  qed
  show ?thesis
  proof (intro exI [of _ l'] conjI allI ballI impI)
    fix fd x assume "fd < length (anfds l)" "x \<in> set (fd_head (anfds l ! fd))"
    then show "let got = w_events (watchers l x) AND bits_mask r w fd in
        if got \<noteq> 0 then queued_with x got l' else w_pending (watchers l x) = 0 \<longrightarrow> w_pending (watchers l' x) = 0"
      using l'(4) [rule_format, of fd "bits_mask r w fd" x] l'(5) idle [of fd x] ps
      by (cases "bits_mask r w fd = 0") (auto simp: Let_def)
  qed (use l' code in simp_all)
qed

definition ready_loop :: "unit ev_loop" where
  "ready_loop = io_loop\<lparr>fdchanges := [], vec_ri := [1], vec_wi := [0], polls := [\<lparr>poll_fd = 0, poll_events = POLLIN\<rparr>],
     pollidxs := [0],
     anfds := [\<lparr>fd_head = [7], fd_events = EV_READ, fd_reify_flag = 0, fd_emask = 0, fd_egen = 0\<rparr>]\<rparr>"

lemma ready_loop_fields:
  "fdchanges ready_loop = []" "vec_ri ready_loop = [1]" "vec_wi ready_loop = [0]"
  "polls ready_loop = [\<lparr>poll_fd = 0, poll_events = POLLIN\<rparr>]" "pollidxs ready_loop = [0]"
  "anfds ready_loop = [\<lparr>fd_head = [7], fd_events = EV_READ, fd_reify_flag = 0, fd_emask = 0, fd_egen = 0\<rparr>]"
  "watchers ready_loop = (\<lambda>_. user_watcher)(7 := user_watcher\<lparr>w_active := 1, w_fd := 0, w_events := EV_READ\<rparr>)"
  "pendings ready_loop = (\<lambda>_. [])" "ev_world ready_loop = ()"
  by (simp_all add: ready_loop_def io_loop_def zero_loop_def)

lemma ready_loop_ok:
  "pending_ok ready_loop" "fds_ok ready_loop" "selects_ok ready_loop" "kernel_synced select_mask ready_loop"
  "polls_ok ready_loop"
  by (auto simp: pending_ok_def refs_ok_def fds_ok_def fds_ok_for_def io_lists_ok_def or_events_def selects_ok_def polls_ok_def
      kernel_synced_def select_mask_def bits_mask_def ready_loop_fields user_watcher_fields ev_mask_defs rw_mask_def
      NFDBITS_def Let_def bit_simps)

theorem select_poll_queues_ready_witness:
  "\<exists>l'. select_poll sample_env 0 ready_loop = Ok l' \<and> queued_with 7 EV_READ l'"
proof -
  have c: "select_call sample_env (vec_ri ready_loop) (vec_wi ready_loop) (tv_set 0) (ev_world ready_loop) =
      (Select_sets (vec_ri ready_loop) (vec_wi ready_loop), ())" by (simp add: sample_env_def quiet_env_def)
  have m: "\<forall>fd. bits_mask (vec_ri ready_loop) (vec_wi ready_loop) fd AND
      NOT (bits_mask (vec_ri ready_loop) (vec_wi ready_loop) fd) = 0" by simp
  have p: "pending_w \<notin> (\<Union>a \<in> set (anfds ready_loop). set (fd_head a))"
    by (simp add: ready_loop_fields pending_w_def)
  have b: "bits_mask [1] [0] 0 = EV_READ" by (simp add: bits_mask_def NFDBITS_def)
  show ?thesis
    using select_poll_queues_ready [OF ready_loop_ok(1,2) ready_loop_fields(1) ready_loop_ok(3,4) p c refl refl m]
    by (auto simp: ready_loop_fields b Let_def ev_mask_defs)
qed

text \<open>
  What \<open>poll\<close> reports is delivered in the same way; an error or a hangup counts as both
  kinds of readiness, so that nobody waits for a descriptor that will never be ready.
\<close>

theorem poll_poll_queues_ready:
  assumes "pending_ok l" and "fds_ok l" and "fdchanges l = []"
    and "pending_w \<notin> (\<Union>a \<in> set (anfds l). set (fd_head a))"
    and "\<forall>p \<in> set (polls l). poll_fd p < length (anfds l)"
    and "poll_call env (polls l) \<lfloor>t * 1000\<rfloor> (ev_world l) = (Poll_revents (length (filter (\<lambda>e. e \<noteq> 0) revents)) revents, world)"
    and "length revents = length (polls l)" and "\<forall>e \<in> set revents. e AND POLLNVAL = 0"
  shows "\<exists>l'. poll_poll env t l = Ok l' \<and> pending_ok l' \<and> anfds l' = anfds l \<and>
    (\<forall>i < length revents. \<forall>x \<in> set (fd_head (anfds l ! poll_fd (polls l ! i))).
       revents ! i AND (POLLERR OR POLLHUP) \<noteq> 0 \<and> w_events (watchers l x) \<noteq> 0 \<or>
         revents ! i AND POLLIN \<noteq> 0 \<and> w_events (watchers l x) AND EV_READ \<noteq> 0 \<or>
         revents ! i AND POLLOUT \<noteq> 0 \<and> w_events (watchers l x) AND EV_WRITE \<noteq> 0 \<longrightarrow>
       queued_with x (w_events (watchers l x) AND poll_got (revents ! i)) l' \<and> w_pending (watchers l' x) \<noteq> 0)"
proof -
  define q where "q = filter (\<lambda>(p, e). e \<noteq> 0) (zip (polls l) revents)"
  define ps where "ps = map (\<lambda>(p, e). (poll_fd p, poll_got e)) q"
  let ?l = "l\<lparr>ev_world := world\<rparr>"
  have count: "length (filter (\<lambda>e. e \<noteq> 0) revents) = length q"
    unfolding q_def using assms(7) by (induction rule: list_induct2) auto
  have nv: "e AND POLLNVAL = 0" if "(p, e) \<in> set (zip (polls l) revents)" for p e
    using that assms(8) by (auto dest: set_zip_rightD)
  have code: "poll_poll env t l = fd_events_all ps ?l"
    using poll_events_eq [OF count [unfolded q_def] nv, where l = ?l] assms(6)
    by (simp add: poll_poll_def ps_def q_def)
  have "fd < length (anfds l)" if "(fd, e) \<in> set ps" for fd e
    using that assms(5) by (auto simp: ps_def q_def dest: set_zip_leftD)
  then have pre: "\<forall>(fd, e) \<in> set ps. fd < length (anfds ?l) \<and> fd_reify_flag (anfds ?l ! fd) = 0 \<and>
      pending_w \<notin> set (fd_head (anfds ?l ! fd))"
    using assms(2-4) by (auto simp: fds_ok_def fds_ok_for_def)
  have pok: "pending_ok ?l" using assms(1) by (simp add: pending_ok_def)
  obtain l' where l': "fd_events_all ps ?l = Ok l'" "pending_ok l'" "anfds l' = anfds l"
    "\<And>fd e x. (fd, e) \<in> set ps \<Longrightarrow> x \<in> set (fd_head (anfds l ! fd)) \<Longrightarrow> w_events (watchers l x) AND e \<noteq> 0 \<Longrightarrow>
       queued_with x (w_events (watchers l x) AND e) l'"
    using fd_events_all_ok [OF pok pre] by auto
  have in_ps: "(poll_fd (polls l ! i), poll_got (revents ! i)) \<in> set ps" if "i < length revents" "revents ! i \<noteq> 0" for i
  proof -
    have "(polls l ! i, revents ! i) \<in> set q" using that assms(7) by (auto simp: q_def set_zip)
    then show ?thesis unfolding ps_def by force
  qed
  have hit: "queued_with x (w_events (watchers l x) AND poll_got (revents ! i)) l' \<and> w_pending (watchers l' x) \<noteq> 0"
    if i: "i < length revents" and x: "x \<in> set (fd_head (anfds l ! poll_fd (polls l ! i)))"
      and ev: "w_events (watchers l x) AND poll_got (revents ! i) \<noteq> 0" for i x
  proof -
    have "revents ! i \<noteq> 0" using ev by (auto simp: poll_got_def)
    then have "queued_with x (w_events (watchers l x) AND poll_got (revents ! i)) l'" using l'(4) [OF in_ps [OF i] x ev] by blast
    then show ?thesis by (auto simp: queued_with_def queued_def)
  qed
  have got: "ev AND poll_got e \<noteq> 0"
    if "e AND (POLLERR OR POLLHUP) \<noteq> 0 \<and> rw_mask ev \<and> ev \<noteq> 0 \<or> e AND POLLIN \<noteq> 0 \<and> ev AND EV_READ \<noteq> 0 \<or>
      e AND POLLOUT \<noteq> 0 \<and> ev AND EV_WRITE \<noteq> 0" for ev e
    using that by (auto simp: poll_got_def bit.conj_disj_distrib or_eq_0_iff rw_mask_cases)
  have rw: "rw_mask (w_events (watchers l x))" if "i < length revents" "x \<in> set (fd_head (anfds l ! poll_fd (polls l ! i)))" for i x
    using that assms(2,5,7) unfolding fds_ok_def fds_ok_for_def io_lists_ok_def by (metis nth_mem)
  show ?thesis
  proof (intro exI [of _ l'] conjI allI ballI impI)
    fix i x
    assume i: "i < length revents" and x: "x \<in> set (fd_head (anfds l ! poll_fd (polls l ! i)))"
      and "revents ! i AND (POLLERR OR POLLHUP) \<noteq> 0 \<and> w_events (watchers l x) \<noteq> 0 \<or>
         revents ! i AND POLLIN \<noteq> 0 \<and> w_events (watchers l x) AND EV_READ \<noteq> 0 \<or>
         revents ! i AND POLLOUT \<noteq> 0 \<and> w_events (watchers l x) AND EV_WRITE \<noteq> 0"
    then have "w_events (watchers l x) AND poll_got (revents ! i) \<noteq> 0" using got rw [OF i x] by blast
    then show "queued_with x (w_events (watchers l x) AND poll_got (revents ! i)) l'" "w_pending (watchers l' x) \<noteq> 0"
      using hit [OF i x] by simp_all
  qed (use l' code in simp_all)
qed

definition polled_env :: "unit ev_env" where
  "polled_env = sample_env\<lparr>poll_call := (\<lambda>ps t w. (Poll_revents 1 [POLLHUP], w))\<rparr>"

theorem poll_poll_queues_ready_witness:
  "\<exists>l'. poll_poll polled_env 0 ready_loop = Ok l' \<and> queued_with 7 EV_READ l'"
proof -
  have c: "poll_call polled_env (polls ready_loop) \<lfloor>0 * 1000\<rfloor> (ev_world ready_loop) =
      (Poll_revents (length (filter (\<lambda>e. e \<noteq> 0) [POLLHUP])) [POLLHUP], ())" by (simp add: polled_env_def POLLHUP_def)
  have p: "pending_w \<notin> (\<Union>a \<in> set (anfds ready_loop). set (fd_head a))"
    by (simp add: ready_loop_fields pending_w_def)
  have b: "\<forall>p \<in> set (polls ready_loop). poll_fd p < length (anfds ready_loop)"
    "length [POLLHUP] = length (polls ready_loop)" "\<forall>e \<in> set [POLLHUP]. e AND POLLNVAL = 0"
    by (simp_all add: ready_loop_fields POLLHUP_def POLLNVAL_def)
  have g: "EV_READ AND poll_got POLLHUP = EV_READ"
    by (simp add: poll_got_def POLLHUP_def POLLERR_def POLLOUT_def POLLIN_def ev_mask_defs)
  show ?thesis
    using poll_poll_queues_ready [OF ready_loop_ok(1,2) ready_loop_fields(1) p b(1) c b(2,3)]
    by (auto simp: ready_loop_fields g) (auto simp: POLLHUP_def POLLERR_def ev_mask_defs)
qed

section \<open>The kernel's list of the epoll backend\<close>

text \<open>
  C8. Whatever the kernel has forgotten of its list, changing the events of a descriptor
  makes it watch for exactly these, with data that name the descriptor and its current
  generation, so that the events it reports are not taken for stale ones; the recoveries from
  the errors for missing and for existing entries lose nothing.
\<close>

theorem epoll_modify_registers:
  assumes "epoll_kernel env interest pollable" and "epoll_ok interest l" and "pollable fd (ev_world l)"
    and "fd < length (anfds l)" and "fd < 2 ^ 32" and "rw_mask nev" and "nev \<noteq> 0"
  shows "\<exists>l' ev. epoll_modify env fd oev nev l = Ok l' \<and> epoll_ok interest l' \<and> epoll_eperms l' = epoll_eperms l \<and>
    interest (backend_fd l) (ev_world l') = (interest (backend_fd l) (ev_world l))(fd \<mapsto> ev) \<and>
    ep_events ev = epoll_bits nev \<and> data_fd (ep_data ev) = fd \<and> data_egen (ep_data ev) = fd_egen (anfds l' ! fd)"
proof -
  obtain l' egen w where l': "epoll_modify env fd oev nev l = Ok l'" "epoll_ok interest l'"
    "l' = l\<lparr>anfds := (anfds l)[fd := (anfds l ! fd)\<lparr>fd_emask := nev, fd_egen := egen\<rparr>], ev_world := w\<rparr>"
    "interest (backend_fd l) w =
      (interest (backend_fd l) (ev_world l))(fd \<mapsto> \<lparr>ep_events = epoll_bits nev, ep_data = epoll_data fd egen\<rparr>)"
    using epoll_modify_ok [OF assms(1,2,4,3,6,7)] by blast
  have "fd_egen (anfds l' ! fd) = egen" "ev_world l' = w" "epoll_eperms l' = epoll_eperms l"
    using assms(4) by (simp_all add: l'(3))
  then show ?thesis
    using l'(1,2,4) epoll_data_parts [OF assms(5), of egen]
    by (intro exI [of _ l'] exI [of _ "\<lparr>ep_events = epoll_bits nev, ep_data = epoll_data fd egen\<rparr>"]) simp
qed

text \<open>A kernel that keeps its lists in the world.\<close>

type_synonym epoll_lists = "int \<Rightarrow> nat \<Rightarrow> epoll_event option"

definition list_ctl :: "int \<Rightarrow> epoll_op \<Rightarrow> nat \<Rightarrow> epoll_event \<Rightarrow> epoll_lists \<Rightarrow> int \<times> epoll_lists" where
  "list_ctl efd op fd ev w =
     (case op of
        EPOLL_CTL_ADD \<Rightarrow> (if w efd fd = None then (0, w(efd := (w efd)(fd \<mapsto> ev))) else (EEXIST, w))
      | EPOLL_CTL_MOD \<Rightarrow> (if w efd fd \<noteq> None then (0, w(efd := (w efd)(fd \<mapsto> ev))) else (ENOENT, w))
      | EPOLL_CTL_DEL \<Rightarrow> (if w efd fd \<noteq> None then (0, w(efd := (w efd)(fd := None))) else (ENOENT, w)))"

definition epoll_env :: "epoll_lists ev_env" where
  "epoll_env = quiet_env\<lparr>epoll_ctl := list_ctl\<rparr>"

lemma epoll_env_kernel: "epoll_kernel epoll_env (\<lambda>efd w. w efd) (\<lambda>_ _. True)"
  by (simp add: epoll_kernel_def epoll_env_def list_ctl_def)

text \<open>The kernel has lost the entry of descriptor 0, which the loop believes it watches for input.\<close>

definition epoll_loop :: "epoll_lists ev_loop" where
  "epoll_loop = (zero_loop (\<lambda>_. user_watcher) (\<lambda>_ _. None))\<lparr>backend_modify := Epoll_modify, backend_poll := Epoll_poll, backend_fd := 5,
     anfds := [\<lparr>fd_head = [7], fd_events = EV_WRITE, fd_reify_flag = 0, fd_emask = EV_READ, fd_egen = 0\<rparr>]\<rparr>"

theorem epoll_modify_registers_witness:
  "\<exists>l' ev. epoll_modify epoll_env 0 EV_READ EV_WRITE epoll_loop = Ok l' \<and> ev_world l' 5 0 = Some ev \<and> ep_events ev = EPOLLOUT"
proof -
  have ok: "epoll_ok (\<lambda>efd w. w efd) epoll_loop" by (simp add: epoll_ok_def epoll_loop_def zero_loop_def)
  have "0 < length (anfds epoll_loop)" "(0 :: nat) < 2 ^ 32" "rw_mask EV_WRITE" "EV_WRITE \<noteq> 0"
    by (simp_all add: epoll_loop_def rw_mask_cases ev_mask_defs)
  from epoll_modify_registers [OF epoll_env_kernel ok TrueI this, of EV_READ]
  obtain l' ev where l': "epoll_modify epoll_env 0 EV_READ EV_WRITE epoll_loop = Ok l'"
    "ev_world l' (backend_fd epoll_loop) = (ev_world epoll_loop (backend_fd epoll_loop))(0 \<mapsto> ev)" "ep_events ev = epoll_bits EV_WRITE"
    by blast
  have "epoll_bits EV_WRITE = EPOLLOUT" by (simp add: epoll_bits_def ev_mask_defs)
  moreover have "backend_fd epoll_loop = 5" by (simp add: epoll_loop_def)
  ultimately show ?thesis using l' by auto
qed

text \<open>
  A descriptor that epoll refuses although it is always ready (a regular file) is reported while it is in a
  list of its own. When nobody watches it any more it leaves the list but stays marked as being in it, so
  when it is watched again it is not put back; only where the mark has been cleared, as
  \<open>fd_rearm_all\<close> does, it is.
\<close>

theorem epoll_eperm_not_relisted:
  assumes "epoll_eperms l = [fd]" and "fd < length (anfds l)" and "fd_emask (anfds l ! fd) = EV_EMASK_EPERM"
    and "fd_events (anfds l ! fd) AND (EV_READ OR EV_WRITE) = 0"
    and "\<forall>efd op ev w. fst (epoll_ctl env efd op fd ev w) = EPERM" and "nev \<noteq> 0"
  shows "\<exists>l1 l2 l3. eperms_loop (length (epoll_eperms l)) l = Ok l1 \<and> epoll_eperms l1 = [] \<and>
    epoll_modify env fd 0 nev l1 = Ok l2 \<and> epoll_eperms l2 = [] \<and> fd_emask (anfds l2 ! fd) = EV_EMASK_EPERM \<and>
    epoll_modify env fd 0 nev (put_anfd fd ((anfds l1 ! fd)\<lparr>fd_emask := 0\<rparr>) l1) = Ok l3 \<and> epoll_eperms l3 = [fd]"
proof -
  let ?l1 = "l\<lparr>epoll_eperms := []\<rparr>"
  have first: "eperms_loop (length (epoll_eperms l)) l = Ok ?l1"
    using assms(1-4) by (simp add: anfd_at_def)
  define ev where "ev = \<lparr>ep_events = epoll_bits nev, ep_data = epoll_data fd (fd_egen (anfds l ! fd) + 1)\<rparr>"
  obtain w where w: "epoll_ctl env (backend_fd l) EPOLL_CTL_ADD fd ev (ev_world l) = (EPERM, w)"
    using assms(5) by (metis prod.collapse)
  note code = epoll_modify_def anfd_at_def Let_def call_epoll_ctl_def ev_def [symmetric] put_anfd_def epoll_eperm_def
    EPERM_def ENOENT_def EEXIST_def EV_EMASK_EPERM_def
  have "\<exists>l2. epoll_modify env fd 0 nev ?l1 = Ok l2 \<and> epoll_eperms l2 = [] \<and> fd_emask (anfds l2 ! fd) = EV_EMASK_EPERM"
    using assms(2,3,6) w by (simp add: code)
  moreover have "\<exists>l3. epoll_modify env fd 0 nev (put_anfd fd ((anfds ?l1 ! fd)\<lparr>fd_emask := 0\<rparr>) ?l1) = Ok l3 \<and> epoll_eperms l3 = [fd]"
    using assms(2,6) w by (simp add: code)
  ultimately show ?thesis using first by auto
qed

definition refusing_env :: "epoll_lists ev_env" where
  "refusing_env = epoll_env\<lparr>epoll_ctl := (\<lambda>_ _ _ _ w. (EPERM, w))\<rparr>"

definition file_loop :: "epoll_lists ev_loop" where
  "file_loop = epoll_loop\<lparr>epoll_eperms := [0],
     anfds := [\<lparr>fd_head = [], fd_events = 0, fd_reify_flag = 0, fd_emask = EV_EMASK_EPERM, fd_egen = 0\<rparr>]\<rparr>"

theorem epoll_eperm_not_relisted_witness:
  "\<exists>l1 l2. eperms_loop 1 file_loop = Ok l1 \<and> epoll_modify refusing_env 0 0 EV_READ l1 = Ok l2 \<and> epoll_eperms l2 = []"
proof -
  have "epoll_eperms file_loop = [0]" "0 < length (anfds file_loop)" "fd_emask (anfds file_loop ! 0) = EV_EMASK_EPERM"
    "fd_events (anfds file_loop ! 0) AND (EV_READ OR EV_WRITE) = 0"
    "\<forall>efd op ev w. fst (epoll_ctl refusing_env efd op 0 ev w) = EPERM" "EV_READ \<noteq> 0"
    by (simp_all add: file_loop_def refusing_env_def ev_mask_defs)
  from epoll_eperm_not_relisted [OF this] show ?thesis by (auto simp: file_loop_def)
qed

section \<open>A new loop\<close>

definition blank_loop :: "'w ev_loop \<Rightarrow> bool" where
  "blank_loop l \<longleftrightarrow> anfds l = [] \<and> fdchanges l = [] \<and> pendings l = (\<lambda>_. []) \<and> rfeeds l = [] \<and> timercnt l = 0 \<and>
     periodiccnt l = 0 \<and> idles l = (\<lambda>_. []) \<and> prepares l = [] \<and> checks l = [] \<and> forks l = [] \<and> cleanups l = [] \<and>
     asyncs l = [] \<and> polls l = [] \<and> pollidxs l = [] \<and> vec_ri l = [] \<and> vec_wi l = [] \<and> epoll_eperms l = [] \<and> kqueue_changes l = [] \<and>
     activecnt l = 0 \<and> idleall l = 0 \<and> (\<forall>w. w_pending (watchers l w) = 0)"

lemma blank_loop_ok:
  assumes "blank_loop l"
  shows "loop_typed K l" "fds_ok l" "timers_ok l" "polls_ok l" "selects_ok l" "kernel_synced poll_mask l"
    "kernel_synced select_mask l" "epoll_ok interest l" "kernel_synced (kqueue_mask (\<lambda>_. 0)) l"
  using assms
  by (simp_all add: blank_loop_def loop_typed_def pending_ok_def refs_ok_def io_typed_def heap_typed_def heap_ok_def
      heap_ordered_def indexed_but_def heap_entries_def heap_range_def cache_ok_def array_typed_def fds_ok_def fds_ok_for_def
      io_lists_ok_def timers_ok_def timer_entries_def polls_ok_def selects_ok_def kernel_synced_def poll_mask_def
      select_mask_def bits_mask_def epoll_ok_def kqueue_mask_def inj_on_def)

text \<open>The functions of the backend that a loop says it has.\<close>

definition backend_matches :: "'w ev_loop \<Rightarrow> bool" where
  "backend_matches l \<longleftrightarrow>
     backend l = EVBACKEND_PORT \<and> backend_modify l = Port_modify \<and> backend_poll l = Port_poll \<and> 0 \<le> backend_fd l \<or>
     backend l = EVBACKEND_KQUEUE \<and> backend_modify l = Kqueue_modify \<and> backend_poll l = Kqueue_poll \<and> 0 \<le> backend_fd l \<or>
     backend l = EVBACKEND_EPOLL \<and> backend_modify l = Epoll_modify \<and> backend_poll l = Epoll_poll \<and> 0 \<le> backend_fd l \<or>
     backend l = EVBACKEND_POLL \<and> backend_modify l = Poll_modify \<and> backend_poll l = Poll_poll \<or>
     backend l = EVBACKEND_SELECT \<and> backend_modify l = Select_modify \<and> backend_poll l = Select_poll"

lemma try_backend_blank:
  assumes "blank_loop l \<and> (backend l \<noteq> 0 \<longrightarrow> backend_matches l)"
    and "\<And>b l'. init l = (b, l') \<Longrightarrow> blank_loop l \<Longrightarrow> blank_loop l' \<and> (b \<noteq> 0 \<longrightarrow> backend_matches (l'\<lparr>backend := b\<rparr>))"
  shows "blank_loop (try_backend wanted init l) \<and>
    (backend (try_backend wanted init l) \<noteq> 0 \<longrightarrow> backend_matches (try_backend wanted init l))"
proof -
  obtain b l' where i: "init l = (b, l')" by force
  have "blank_loop (l'\<lparr>backend := b\<rparr>) = blank_loop l'" by (simp add: blank_loop_def)
  then show ?thesis using assms(1) assms(2) [OF i] by (simp add: try_backend_def i)
qed

lemma backend_inits_blank:
  assumes "blank_loop l"
  shows "port_init env l = (b, l') \<Longrightarrow> blank_loop l' \<and> (b \<noteq> 0 \<longrightarrow> backend_matches (l'\<lparr>backend := b\<rparr>))"
    "kqueue_init env l = (b, l') \<Longrightarrow> blank_loop l' \<and> (b \<noteq> 0 \<longrightarrow> backend_matches (l'\<lparr>backend := b\<rparr>))"
    "epoll_init env l = (b, l') \<Longrightarrow> blank_loop l' \<and> (b \<noteq> 0 \<longrightarrow> backend_matches (l'\<lparr>backend := b\<rparr>))"
    "poll_init l = (b, l') \<Longrightarrow> blank_loop l' \<and> (b \<noteq> 0 \<longrightarrow> backend_matches (l'\<lparr>backend := b\<rparr>))"
    "select_init l = (b, l') \<Longrightarrow> blank_loop l' \<and> (b \<noteq> 0 \<longrightarrow> backend_matches (l'\<lparr>backend := b\<rparr>))"
proof -
  show "blank_loop l' \<and> (b \<noteq> 0 \<longrightarrow> backend_matches (l'\<lparr>backend := b\<rparr>))" if "port_init env l = (b, l')"
  proof -
    obtain fd world where c: "port_create env (ev_world l) = (fd, world)" by force
    let ?l = "l\<lparr>backend_fd := fd, ev_world := world\<rparr>"
    have "(b, l') = (if fd < 0 then (0, ?l) else (EVBACKEND_PORT,
        ?l\<lparr>backend_mintime := 0.001, backend_modify := Port_modify, backend_poll := Port_poll, port_eventmax := 64\<rparr>))"
      using that by (simp only: port_init_def c Let_def prod.case)
    then show ?thesis using assms by (cases "fd < 0") (simp_all add: blank_loop_def backend_matches_def)
  qed
  show "blank_loop l' \<and> (b \<noteq> 0 \<longrightarrow> backend_matches (l'\<lparr>backend := b\<rparr>))" if "kqueue_init env l = (b, l')"
  proof -
    obtain fd world where c: "kqueue_create env (ev_world l) = (fd, world)" by force
    let ?l = "l\<lparr>backend_fd := fd, ev_world := world\<rparr>"
    have "(b, l') = (if fd < 0 then (0, ?l) else (EVBACKEND_KQUEUE,
        ?l\<lparr>backend_mintime := 0.000000001, backend_modify := Kqueue_modify, backend_poll := Kqueue_poll,
          kqueue_eventmax := 64, kqueue_changes := []\<rparr>))"
      using that by (simp only: kqueue_init_def c Let_def prod.case)
    then show ?thesis using assms by (cases "fd < 0") (simp_all add: blank_loop_def backend_matches_def)
  qed
  show "blank_loop l' \<and> (b \<noteq> 0 \<longrightarrow> backend_matches (l'\<lparr>backend := b\<rparr>))" if "epoll_init env l = (b, l')"
  proof -
    obtain fd1 world1 where c: "epoll_create env True (ev_world l) = (fd1, world1)" by force
    obtain fd world where d: "(if fd1 < 0 then epoll_create env False world1 else (fd1, world1)) = (fd, world)" by force
    let ?l = "l\<lparr>backend_fd := fd, ev_world := world\<rparr>"
    have "(b, l') = (if fd < 0 then (0, ?l) else (EVBACKEND_EPOLL,
        ?l\<lparr>backend_mintime := 0.001, backend_modify := Epoll_modify, backend_poll := Epoll_poll, epoll_eventmax := 64\<rparr>))"
      using that by (simp only: epoll_init_def c d Let_def prod.case)
    then show ?thesis using assms by (cases "fd < 0") (simp_all add: blank_loop_def backend_matches_def)
  qed
  show "blank_loop l' \<and> (b \<noteq> 0 \<longrightarrow> backend_matches (l'\<lparr>backend := b\<rparr>))" if "poll_init l = (b, l')"
  proof -
    have "b = EVBACKEND_POLL" "l' = l\<lparr>backend_mintime := 0.001, backend_modify := Poll_modify, backend_poll := Poll_poll,
        pollidxs := [], polls := []\<rparr>"
      using that by (simp_all only: poll_init_def prod.inject)
    then show ?thesis using assms by (simp add: blank_loop_def backend_matches_def)
  qed
  show "blank_loop l' \<and> (b \<noteq> 0 \<longrightarrow> backend_matches (l'\<lparr>backend := b\<rparr>))" if "select_init l = (b, l')"
  proof -
    have "b = EVBACKEND_SELECT" "l' = l\<lparr>backend_mintime := 0.000001, backend_modify := Select_modify,
        backend_poll := Select_poll, vec_ri := [], vec_wi := []\<rparr>"
      using that by (simp_all only: select_init_def prod.inject)
    then show ?thesis using assms by (simp add: blank_loop_def backend_matches_def)
  qed
qed

lemma start_backend_blank:
  assumes "blank_loop l" "backend l = 0"
  shows "blank_loop (start_backend env flags l) \<and>
    (backend (start_backend env flags l) \<noteq> 0 \<longrightarrow> backend_matches (start_backend env flags l))"
proof -
  define fl where "fl = (if flags AND EVBACKEND_MASK = 0 then flags OR ev_recommended_backends env else flags)"
  have "blank_loop l \<and> (backend l \<noteq> 0 \<longrightarrow> backend_matches l)" using assms by simp
  note 1 = try_backend_blank [OF this backend_inits_blank(1), where init = "port_init env" and wanted = "use_port env \<and> fl AND EVBACKEND_PORT \<noteq> 0"]
  note 2 = try_backend_blank [OF 1 backend_inits_blank(2), where init = "kqueue_init env" and wanted = "use_kqueue env \<and> fl AND EVBACKEND_KQUEUE \<noteq> 0"]
  note 3 = try_backend_blank [OF 2 backend_inits_blank(3), where init = "epoll_init env" and wanted = "use_epoll env \<and> fl AND EVBACKEND_EPOLL \<noteq> 0"]
  note 4 = try_backend_blank [OF 3 backend_inits_blank(4), where init = "poll_init" and wanted = "fl AND EVBACKEND_POLL \<noteq> 0"]
  note 5 = try_backend_blank [OF 4 backend_inits_blank(5), where init = "select_init" and wanted = "fl AND EVBACKEND_SELECT \<noteq> 0"]
  show ?thesis unfolding start_backend_def Let_def fl_def [symmetric] by (rule 5)
qed

lemma new_loop_blank:
  assumes "\<forall>w. w_pending (ws w) = 0" and "ev_loop_new env flags ws world = Some l"
  shows "blank_loop l \<and> backend_matches l"
proof -
  have l: "l = loop_init env flags (zero_loop ws world)" "backend l \<noteq> 0"
    using assms(2) by (auto simp: ev_loop_new_def Let_def ev_backend_def split: if_splits)
  have z: "blank_loop (zero_loop ws world)" "backend (zero_loop ws world) = 0"
    using assms(1) by (simp_all add: blank_loop_def zero_loop_def)
  define z1 where "z1 = (let l = (zero_loop ws world)\<lparr>origflags := flags\<rparr>
    in if flags AND EVFLAG_FORKCHECK \<noteq> 0 then l\<lparr>curpid := ev_getpid env (ev_world l)\<rparr> else l)"
  define fl where "fl = (if flags AND EVFLAG_NOENV = 0
    then case libev_flags env (ev_world z1) of Some f \<Rightarrow> f | None \<Rightarrow> flags else flags)"
  define z2 where "z2 = read_clock env (read_time env z1)"
  define l1 where "l1 = z2\<lparr>now_floor := mn_now z2, rtmn_diff := ev_rt_now z2 - mn_now z2, io_blocktime := 0,
    timeout_blocktime := 0, backend := 0, backend_fd := -1, sig_pending := False, async_pending := False,
    pipe_write_skipped := False, pipe_write_wanted := False,
    fs_fd := (if fl AND EVFLAG_NOINOTIFY \<noteq> 0 then -1 else -2),
    sigfd := (if fl AND EVFLAG_SIGNALFD \<noteq> 0 then -2 else -1)\<rparr>"
  have "blank_loop z1" using z(1) by (simp add: z1_def Let_def blank_loop_def)
  then have "blank_loop z2"
    by (simp add: z2_def read_clock_def read_time_def blank_loop_def split: prod.split)
  then have l1: "blank_loop l1" "backend l1 = 0" by (simp_all add: l1_def blank_loop_def)
  have code: "l = upd_watcher pipe_w (\<lambda>x. (ev_init Pipecb x)\<lparr>w_priority := EV_MAXPRI\<rparr>)
      (upd_watcher pending_w (ev_init Pendingcb) (start_backend env fl l1))"
    unfolding l(1) loop_init_def fl_def l1_def z2_def z1_def using z(2) by (simp add: Let_def)
  have b: "blank_loop (start_backend env fl l1)" "backend_matches (start_backend env fl l1)"
    using start_backend_blank [OF l1, of env fl] l(2) code by (simp_all add: upd_watcher_def)
  then show ?thesis by (simp add: code blank_loop_def backend_matches_def upd_watcher_def ev_init_def)
qed

text \<open>
  C7. A new loop is in order: its containers are typed, its books of descriptors and timers and of the
  poll, select and epoll backends are consistent with a kernel that watches nothing, it passes the
  self-check, and whatever flags it was made with, its functions are those of the backend that it names.
\<close>

theorem new_loop_ready:
  assumes "\<forall>w. w_pending (ws w) = 0" and "ev_loop_new env flags ws world = Some l"
  shows "loop_typed K l \<and> ev_verify l = Ok () \<and> fds_ok l \<and> timers_ok l \<and> polls_ok l \<and> selects_ok l \<and>
    kernel_synced poll_mask l \<and> kernel_synced select_mask l \<and> epoll_ok interest l \<and> backend_matches l"
proof -
  have "blank_loop l" "backend_matches l" using new_loop_blank [OF assms] by blast+
  moreover have "ev_verify l = Ok ()"
    using ev_verify_typed [OF blank_loop_ok(1) [OF \<open>blank_loop l\<close>]] \<open>blank_loop l\<close> by (simp add: blank_loop_def)
  ultimately show ?thesis using blank_loop_ok [of l] by blast
qed

theorem new_loop_ready_witness:
  "\<exists>l. ev_loop_new sample_env EVBACKEND_SELECT (\<lambda>_. user_watcher) () = Some l \<and> selects_ok l \<and> backend l = EVBACKEND_SELECT"
proof -
  define l where "l = loop_init sample_env EVBACKEND_SELECT (zero_loop (\<lambda>_. user_watcher) ())"
  have b: "backend l = EVBACKEND_SELECT"
    by (simp add: l_def loop_init_def zero_loop_def start_backend_def try_backend_def select_init_def read_clock_def read_time_def
        sample_env_def quiet_env_def upd_watcher_def ev_flag_defs Let_def)
  then have new: "ev_loop_new sample_env EVBACKEND_SELECT (\<lambda>_. user_watcher) () = Some l"
    unfolding ev_loop_new_def Let_def l_def [symmetric] ev_backend_def b by (simp add: ev_flag_defs)
  have "\<forall>w. w_pending ((\<lambda>_. user_watcher) w) = 0" by (simp add: user_watcher_fields)
  from new_loop_ready [OF this new] show ?thesis using new b by blast
qed

text \<open>
  C6. In every state that a program can reach from a new loop by setting up, starting and
  stopping io, timer, prepare, check, fork and cleanup watchers, feeding events, taking pending
  watchers off their queues and passing changes to any backend of the library, in any order and whatever
  the kernel answers, the containers hold watchers of their own type in their places, the books
  of descriptors are consistent, as are those of the backend for poll, select and kqueue, the reference
  count is the number of started watchers other than cleanup watchers, and the self-check finds nothing.
\<close>

theorem reachable_loop_verifies:
  assumes "\<forall>w. w_pending (ws w) = 0" and "K pending_w \<noteq> Io_watcher"
    and "ev_loop_new env flags ws world = Some l0" and "(loop_step env K)\<^sup>*\<^sup>* l0 l"
  shows "loop_ok K l \<and> backend_ok l \<and> activecnt l = int (started l) \<and> ev_verify l = Ok ()"
proof -
  have l0: "blank_loop l0" using new_loop_blank [OF assms(1,3)] by blast
  then have none: "counted l0 = (0, 0)" by (simp add: blank_loop_def counted_def started_def io_count_def)
  have "loop_ok K l0 \<and> backend_ok l0" using blank_loop_ok [OF l0] by (auto simp: loop_ok_def backend_ok_def)
  with assms(4) have "loop_ok K l \<and> backend_ok l \<and> counted l = (0, 0)"
  proof (induction rule: rtranclp_induct)
    case base
    then show ?case using none by blast
  next
    case (step l l')
    then show ?case using loop_step_ok [OF step(2)] loop_step_counted [OF step(2)] assms(2) by auto
  qed
  then show ?thesis using ev_verify_typed [of K l] by (auto simp: loop_ok_def counted_def)
qed

theorem reachable_loop_verifies_witness:
  "\<exists>l. ev_loop_new sample_env EVBACKEND_SELECT (\<lambda>_. user_watcher) () = Some l \<and>
    loop_ok sample_types (ev_feed_event 7 EV_READ l) \<and> ev_verify (ev_feed_event 7 EV_READ l) = Ok ()"
proof -
  obtain l where l: "ev_loop_new sample_env EVBACKEND_SELECT (\<lambda>_. user_watcher) () = Some l"
    by (simp add: ev_loop_new_def ev_backend_def loop_init_def zero_loop_def start_backend_def try_backend_def select_init_def read_clock_def
        read_time_def sample_env_def quiet_env_def upd_watcher_def ev_flag_defs Let_def)
  have "\<forall>w. w_pending ((\<lambda>_. user_watcher) w) = 0" by (simp add: user_watcher_fields)
  moreover have "loop_step sample_env sample_types l (ev_feed_event 7 EV_READ l)"
    by (rule loop_step.feed) (simp add: pending_w_def)
  moreover have "sample_types pending_w \<noteq> Io_watcher" by (simp add: sample_types_def pending_w_def)
  ultimately show ?thesis using reachable_loop_verifies [OF _ _ l] l by blast
qed

end
