(* ===== verification/Ev_Compat.thy ===== *)
theory Ev_Compat
  imports Ev_Kernel
begin

unbundle bit_operations_syntax

text \<open>
  The emulation of libevent (\<^verbatim>\<open>src/deps/ev/event.c\<close>): its base, which is the loop, and what a
  program gets from its events. \<open>ev_x_cur\<close>, the current base, is an argument: the loop, or nothing
  while \<open>event_init\<close> has not been called. Several bases that share the memory of the events are not
  modelled.
\<close>

section \<open>The base\<close>

definition EVFLAG_AUTO :: ev_mask where "EVFLAG_AUTO = 0"

definition event_get_version :: string where "event_get_version = ''4.11''"
definition event_get_method :: string where "event_get_method = ''libev''"

text \<open>The first base is the default loop (\<open>dl\<close>, which may exist already), a later one a new loop.\<close>

definition event_init ::
  "'w ev_env \<Rightarrow> int \<Rightarrow> (addr \<Rightarrow> ev_watcher) \<Rightarrow> (addr \<Rightarrow> event) \<Rightarrow> 'w \<Rightarrow> 'w ev_loop option \<Rightarrow> 'w ev_loop option \<Rightarrow>
     'w ev_loop option outcome" where
  "event_init env sigchld ws evs world dl cur =
     (case cur of
        Some l \<Rightarrow>
          Ok (map_option (\<lambda>l'. l'\<lparr>x_cur := True, x_events := x_events l\<rparr>)
            (ev_loop_new env EVFLAG_AUTO (watchers l) (ev_world l)))
      | None \<Rightarrow>
          let memory = (case dl of Some l \<Rightarrow> x_events l | None \<Rightarrow> evs)
          in obind (ev_default_loop env EVFLAG_AUTO sigchld ws world dl) (\<lambda>r.
             Ok (map_option (\<lambda>l. l\<lparr>x_cur := True, x_events := memory\<rparr>) r)))"

definition event_base_free :: "'w ev_env \<Rightarrow> nat \<Rightarrow> bool \<Rightarrow> 'w ev_loop \<Rightarrow> 'w ev_loop outcome" where
  "event_base_free env fuel is_default l = (if \<not> is_default then ev_loop_destroy env fuel l else Ok l)"

definition event_base_loop :: "'w ev_env \<Rightarrow> nat \<Rightarrow> nat \<Rightarrow> ev_mask \<Rightarrow> 'w ev_loop \<Rightarrow> (int \<times> 'w ev_loop) outcome" where
  "event_base_loop env fuel rounds flags l = obind (ev_run env fuel rounds flags l) (\<lambda>l. Ok (0, l))"

definition event_base_dispatch :: "'w ev_env \<Rightarrow> nat \<Rightarrow> nat \<Rightarrow> 'w ev_loop \<Rightarrow> (int \<times> 'w ev_loop) outcome" where
  "event_base_dispatch env fuel rounds l = event_base_loop env fuel rounds 0 l"

definition event_base_loopexit :: "'w ev_env \<Rightarrow> (int \<times> int) option \<Rightarrow> 'w ev_loop \<Rightarrow> (int \<times> 'w ev_loop) outcome" where
  "event_base_loopexit env tv l =
     (let after = ev_tv_get tv
      in obind (ev_once env (-1) 0 (if after \<ge> 0 then after else 0) Ev_x_loopexit_cb 0 l) (\<lambda>l. Ok (0, l)))"

definition event_base_once ::
  "'w ev_env \<Rightarrow> int \<Rightarrow> 16 word \<Rightarrow> nat \<Rightarrow> nat \<Rightarrow> (int \<times> int) option \<Rightarrow> 'w ev_loop \<Rightarrow> (int \<times> 'w ev_loop) outcome" where
  "event_base_once env fd events cb arg tv l =
     (case alloc_x_once env (ev_world l) of
        (None, world) \<Rightarrow> Ok (-1, l\<lparr>ev_world := world\<rparr>)
      | (Some once, world) \<Rightarrow>
          let l = l\<lparr>ev_world := world, x_onces := (x_onces l)(once \<mapsto> (fd, cb, arg))\<rparr>
          in obind (ev_once env fd (scast events AND (EV_READ OR EV_WRITE)) (ev_tv_get tv) Ev_x_once_cb once l)
               (\<lambda>l. Ok (0, l)))"

definition event_base_priority_init :: "int \<Rightarrow> 'w ev_loop \<Rightarrow> int" where
  "event_base_priority_init npri l = 0"

text \<open>The same on the current base; the priorities of a base that is not there are set all the same.\<close>

definition on_cur :: "'w ev_loop option \<Rightarrow> ('w ev_loop \<Rightarrow> 'a outcome) \<Rightarrow> 'a outcome" where
  "on_cur cur f = (case cur of Some l \<Rightarrow> f l | None \<Rightarrow> Fault Null_deref)"

definition event_loop :: "'w ev_env \<Rightarrow> nat \<Rightarrow> nat \<Rightarrow> ev_mask \<Rightarrow> 'w ev_loop option \<Rightarrow> (int \<times> 'w ev_loop) outcome" where
  "event_loop env fuel rounds flags cur = on_cur cur (event_base_loop env fuel rounds flags)"

definition event_dispatch :: "'w ev_env \<Rightarrow> nat \<Rightarrow> nat \<Rightarrow> 'w ev_loop option \<Rightarrow> (int \<times> 'w ev_loop) outcome" where
  "event_dispatch env fuel rounds cur = on_cur cur (event_base_dispatch env fuel rounds)"

definition event_loopexit :: "'w ev_env \<Rightarrow> (int \<times> int) option \<Rightarrow> 'w ev_loop option \<Rightarrow> (int \<times> 'w ev_loop) outcome" where
  "event_loopexit env tv cur = on_cur cur (event_base_loopexit env tv)"

definition event_once ::
  "'w ev_env \<Rightarrow> int \<Rightarrow> 16 word \<Rightarrow> nat \<Rightarrow> nat \<Rightarrow> (int \<times> int) option \<Rightarrow> 'w ev_loop option \<Rightarrow> (int \<times> 'w ev_loop) outcome" where
  "event_once env fd events cb arg tv cur = on_cur cur (event_base_once env fd events cb arg tv)"

definition event_priority_init :: "int \<Rightarrow> int" where
  "event_priority_init npri = 0"

section \<open>What keeps a loop in order\<close>

lemma loop_ok_event [simp]: "loop_ok K (upd_event e f l) = loop_ok K l"
  by (simp add: upd_event_def loop_ok_def loop_typed_def pending_ok_def fds_ok_def fds_ok_for_def io_lists_ok_def or_events_def)

lemma upd_event_fields [simp]:
  "watchers (upd_event e f l) = watchers l" "anfds (upd_event e f l) = anfds l" "pendings (upd_event e f l) = pendings l"
  "timers (upd_event e f l) = timers l" "timercnt (upd_event e f l) = timercnt l" "mn_now (upd_event e f l) = mn_now l"
  "ev_is_active w (upd_event e f l) = ev_is_active w l" "linked w (upd_event e f l) = linked w l"
  "timer_entries (upd_event e f l) = timer_entries l" "x_events (upd_event e f l) = (x_events l)(e := f (x_events l e))"
  by (simp_all add: upd_event_def ev_is_active_def linked_def timer_entries_def)

lemma same_butD:
  assumes "same_but k l' l"
  shows "x_events l' = x_events l" "mn_now l' = mn_now l" "k \<noteq> Io_watcher \<Longrightarrow> linked w l' = linked w l"
    "k \<noteq> Timer_watcher \<Longrightarrow> timer_entries l' = timer_entries l" "ev_kinds e l' = ev_kinds e l"
  using assms by (simp_all add: same_but_def linked_def timer_entries_def ev_kinds_def)

lemma linked_active: "loop_ok K l \<Longrightarrow> linked w l \<Longrightarrow> ev_is_active w l \<and> K w = Io_watcher"
  using loop_okD(5) [of K l] by (auto simp: linked_def io_typed_def ev_is_active_def)

text \<open>Deleting an event stops what is active of it.\<close>

lemma event_del_ok:
  assumes ok: "loop_ok K l" and base: "ev_base (x_events l e)"
    and kinds: "ev_kinds e l AND EV_SIGNAL = 0" "ev_kinds e l AND (EV_READ OR EV_WRITE) \<noteq> 0"
    and fd: "linked e l" and to: "ev_is_active (event_to e) l \<longrightarrow> event_to e \<in> he_w ` timer_entries l"
    and K: "K (event_to e) \<noteq> Io_watcher"
  shows "\<exists>l'. event_del env e l = Ok l' \<and> loop_ok K l' \<and> \<not> linked e l' \<and> \<not> ev_is_active e l' \<and> \<not> ev_is_active (event_to e) l' \<and>
    x_events l' = (x_events l)(e := (x_events l e)\<lparr>ev_flags := EVLIST_INIT\<rparr>) \<and> w_pending (watchers l' e) = 0"
proof -
  have e: "ev_is_active e l" "K e = Io_watcher" using linked_active [OF ok fd] by simp_all
  have ne: "event_to e \<noteq> e" by (simp add: event_to_def)
  obtain l1 where l1: "ev_io_stop e l = Ok l1" "loop_ok K l1" "\<not> ev_is_active e l1" "\<not> linked e l1"
    "\<And>x. x \<noteq> e \<Longrightarrow> watchers l1 x = watchers l x" "w_pending (watchers l1 e) = 0"
    using io_stop_loop_ok [OF ok fd] by blast
  note s1 = same_butD [OF io_stop_same [OF l1(1) e(1)]]
  have to1: "ev_is_active (event_to e) l1 = ev_is_active (event_to e) l" using l1(5) [OF ne] by (simp add: ev_is_active_def)
  have first: "stop_on_base e e l (ev_io_stop e) = Ok l1"
    using e(1) base l1(1) by (simp add: stop_on_base_def on_base_def)
  show ?thesis
  proof (cases "ev_is_active (event_to e) l")
    case True
    then have "event_to e \<in> he_w ` timer_entries l1" using to s1(4) by simp
    from timer_stop_loop_ok [OF l1(2) this] obtain l2 where l2: "ev_timer_stop (event_to e) l1 = Ok l2" "loop_ok K l2"
      "\<not> ev_is_active (event_to e) l2" "\<And>x. K x \<noteq> Timer_watcher \<Longrightarrow> watchers l2 x = watchers l1 x" by blast
    note s2 = same_butD [OF timer_stop_same [OF l2(1)]]
    have "watchers l2 e = watchers l1 e" using l2(4) [of e] e(2) by simp
    moreover have "event_del env e l = Ok (upd_event e (\<lambda>v. v\<lparr>ev_flags := EVLIST_INIT\<rparr>) l2)"
      using kinds base first True to1 l2(1) s1(1) by (simp add: event_del_def on_base_def)
    moreover have "\<not> linked e l2" using l1(4) s2(3) by simp
    ultimately show ?thesis
      using l2(2,3) l1(3,6) s1(1) s2(1) by (simp add: ev_is_active_def)
  next
    case False
    then show ?thesis
      using kinds first to1 l1 s1(1) by (simp add: event_del_def)
  qed
qed

lemma io_set_mask: "((m AND (EV_READ OR EV_WRITE)) OR EV__IOFDSET) AND NOT (EV__IOFDSET OR EV_READ OR EV_WRITE) = 0"
  by (rule bit_word_eqI) (auto simp: bit_simps)

lemma ev_tv_get_some: "ev_tv_get (Some tv) \<noteq> 0"
  by (simp add: ev_tv_get_def Let_def split: prod.split)

lemma event_add_ok:
  assumes ok: "loop_ok K l" and K: "K e = Io_watcher" "K (event_to e) = Timer_watcher" and base: "ev_base (x_events l e)"
    and kinds: "ev_kinds e l AND EV_SIGNAL = 0" "ev_kinds e l AND (EV_READ OR EV_WRITE) \<noteq> 0" and fd: "0 \<le> ev_fd (x_events l e)"
    and idle: "\<not> is_waiting e l" "\<not> is_waiting (event_to e) l" and tv: "tv = None \<or> 0 < ev_tv_get tv"
  shows "\<exists>l' f. event_add env e tv l = Ok l' \<and> loop_ok K l' \<and> linked e l' \<and>
    ev_is_active (event_to e) l' = (tv \<noteq> None) \<and>
    (tv \<noteq> None \<longrightarrow> \<lparr>he_at = mn_now l + ev_tv_get tv, he_w = event_to e\<rparr> \<in> timer_entries l') \<and>
    x_events l' = (x_events l)(e := (x_events l e)\<lparr>ev_flags := f OR EVLIST_ACTIVE\<rparr>)"
proof -
  have ne: "event_to e \<noteq> e" by (simp add: event_to_def)
  let ?m = "ev_kinds e l AND (EV_READ OR EV_WRITE)"
  let ?u = "upd_watcher e (ev_io_set (ev_fd (x_events l e)) ?m) l"
  have idle': "\<not> ev_is_active e l" "w_pending (watchers l e) = 0" "\<not> ev_is_active (event_to e) l"
    "w_pending (watchers l (event_to e)) = 0"
    using idle by (simp_all add: is_waiting_def)
  have ok1: "loop_ok K ?u" by (rule loop_ok_set_up [OF ok idle'(1,2)]) (simp_all add: ev_io_set_def)
  have "\<not> ev_is_active e ?u" "0 \<le> w_fd (watchers ?u e)" "w_pending (watchers ?u e) = 0"
    "w_events (watchers ?u e) AND NOT (EV__IOFDSET OR EV_READ OR EV_WRITE) = 0"
    using idle' fd io_set_mask [of "ev_kinds e l"] by (simp_all add: ev_is_active_def ev_io_set_def)
  note pre = this
  obtain l1 where l1: "ev_io_start e ?u = Ok l1" "loop_ok K l1" "linked e l1"
    "\<And>x. x \<noteq> e \<Longrightarrow> watchers l1 x = watchers ?u x"
    using io_start_loop_ok [OF ok1 K(1) pre(1,2,4,3)] unfolding linked_def by blast
  note s1 = same_butD [OF same_but_trans [OF io_start_same [OF l1(1) pre(1)] io_same(5)]]
  define f1 where "f1 = ev_flags (x_events l e) OR EVLIST_INSERTED"
  define l2 where "l2 = upd_event e (\<lambda>v. v\<lparr>ev_flags := ev_flags v OR EVLIST_INSERTED\<rparr>) l1"
  have first: "event_add_fd env e l = Ok l2"
    using kinds base idle'(1) l1(1) by (simp add: event_add_fd_def on_base_def upd_watcher_def l2_def)
  have x2: "x_events l2 = (x_events l)(e := (x_events l e)\<lparr>ev_flags := f1\<rparr>)"
    using s1(1) by (simp add: l2_def f1_def)
  have to2: "watchers l2 (event_to e) = watchers l (event_to e)" "mn_now l2 = mn_now l"
    using l1(4) [OF ne] ne s1(2) by (simp_all add: l2_def)
  have ok2: "loop_ok K l2" "linked e l2" using l1(2,3) by (simp_all add: l2_def)
  show ?thesis
  proof (cases tv)
    case None
    have "event_add_to e tv l2 = Ok (upd_event e (\<lambda>v. v\<lparr>ev_flags := ev_flags v AND NOT EVLIST_TIMEOUT\<rparr>) l2)"
      using None idle'(3,4) to2(1) by (simp add: event_add_to_def stop_on_base_def ev_is_active_def)
    then show ?thesis
      using first ok2 x2 to2 None idle'(3) by (simp add: event_add_def ev_is_active_def) blast
  next
    case (Some t)
    let ?v = "upd_watcher (event_to e) (\<lambda>x. x\<lparr>w_repeat := ev_tv_get tv\<rparr>) l2"
    have ok3: "loop_ok K ?v"
      using idle'(3,4) to2(1) by (intro loop_ok_set_up [OF ok2(1)]) (simp_all add: ev_is_active_def)
    have "\<not> ev_is_active (event_to e) ?v" "w_pending (watchers ?v (event_to e)) = 0"
      "0 < w_repeat (watchers ?v (event_to e))"
      using idle'(3,4) to2(1) tv Some by (simp_all add: ev_is_active_def)
    from timer_again_idle [OF ok3 K(2) this] obtain l3 where l3: "ev_timer_again (event_to e) ?v = Ok l3" "loop_ok K l3"
      "event_to e \<in> he_w ` timer_entries l3" "same_but Timer_watcher l3 ?v"
      "\<lparr>he_at = mn_now l + ev_tv_get tv, he_w = event_to e\<rparr> \<in> timer_entries l3"
      using to2(2) by auto
    note s3 = same_butD [OF same_but_trans [OF l3(4) io_same(5)]]
    have "event_add_to e tv l2 = Ok (upd_event e (\<lambda>v. v\<lparr>ev_flags := ev_flags v OR EVLIST_TIMEOUT\<rparr>) l3)"
      using Some l3(1) x2 base by (simp add: event_add_to_def on_base_def upd_watcher_def)
    moreover have "ev_is_active (event_to e) l3" using timer_active [OF l3(2,3)] by simp
    moreover have "linked e l3" using ok2(2) s3(3) by simp
    ultimately show ?thesis
      using first l3(2,5) x2 s3(1) Some by (simp add: event_add_def) blast
  qed
qed

text \<open>One-shot watches: a fresh pair of watchers is initialised and its timer started.\<close>

lemma loop_ok_onces [simp]: "loop_ok K (l\<lparr>ev_world := world, onces := v\<rparr>) = loop_ok K l"
  by (simp add: loop_ok_def loop_typed_def pending_ok_def fds_ok_def fds_ok_for_def io_lists_ok_def or_events_def)

lemma timer_onces:
  "ev_timer_start w l = Ok l' \<Longrightarrow> onces l' = onces l" "ev_timer_stop w l = Ok l' \<Longrightarrow> onces l' = onces l"
  by (auto simp: ev_timer_start_def ev_timer_stop_def Let_def put_timers_def ev_start_def ev_stop_def ev_ref_def ev_unref_def
      pri_adjust_def clear_pending_def upd_watcher_def obind_eq_Ok split: if_splits prod.splits)

lemma and_single: "(x :: ev_mask) AND 2 ^ i \<noteq> 0 \<Longrightarrow> x AND 2 ^ i = 2 ^ i"
  by (rule bit_eqI) (auto simp: bit_and_iff bit_exp_iff and_exp_eq_0_iff_not_bit)

section \<open>Samples\<close>

text \<open>Event 20, with its io watcher there and its timer at 21, waits for input on descriptor 0.\<close>

definition event_types :: "addr \<Rightarrow> watcher_type" where
  "event_types w = (if w = 20 then Io_watcher else Timer_watcher)"

definition calling_env :: "(nat \<times> int \<times> 16 word \<times> nat) list ev_env" where
  "calling_env = quiet_env\<lparr>user_event := (\<lambda>cb fd ev arg l. Ok (l\<lparr>ev_world := ev_world l @ [(cb, fd, ev, arg)]\<rparr>)),
     alloc_once := (\<lambda>w. (Some 50, w)), alloc_x_once := (\<lambda>w. (Some 60, w))\<rparr>"

definition event_loop_sample :: "(nat \<times> int \<times> 16 word \<times> nat) list ev_loop" where
  "event_loop_sample = event_set 20 0 1 4 5 ((zero_loop (\<lambda>_. zero_watcher) [])\<lparr>x_cur := True\<rparr>)"

lemma event_sample_fields:
  "x_events event_loop_sample 20 = \<lparr>ev_base = True, ev_callback = 4, ev_arg = 5, ev_fd = 0, ev_pri = 0, ev_res = 0,
     ev_flags = EVLIST_INIT, ev_events = 1\<rparr>"
  "watchers event_loop_sample 20 = zero_watcher\<lparr>w_cb := Ev_x_cb_io\<rparr>"
  "watchers event_loop_sample 21 = zero_watcher\<lparr>w_cb := Ev_x_cb_to\<rparr>"
  "ev_kinds 20 event_loop_sample = EV_READ" "mn_now event_loop_sample = 0"
  by (simp_all add: event_loop_sample_def event_set_def zero_loop_def upd_watcher_def upd_event_def ev_init_def event_to_def
      zero_watcher_def ev_kinds_def EV_SIGNAL_def EV_READ_def)

lemma event_sample_ok: "loop_ok event_types event_loop_sample"
proof -
  have "blank_loop event_loop_sample"
    by (simp add: blank_loop_def event_loop_sample_def event_set_def zero_loop_def upd_watcher_def upd_event_def ev_init_def
        zero_watcher_def)
  then show ?thesis by (simp add: loop_ok_def blank_loop_ok)
qed

lemma event_sample_idle: "\<not> is_waiting 20 event_loop_sample" "\<not> is_waiting 21 event_loop_sample"
  by (simp_all add: is_waiting_def ev_is_active_def event_sample_fields zero_watcher_def)

section \<open>Properties\<close>

text \<open>
  C28. Adding an event for a descriptor, with or without a timeout, starts its io watcher and
  exactly then its timer, which is due after the timeout; deleting it stops both and gives back the
  flags of a new event. Neither breaks the loop or touches another event.
\<close>

theorem event_add_then_del:
  assumes "loop_ok K l" and "K e = Io_watcher" and "K (event_to e) = Timer_watcher" and "ev_base (x_events l e)"
    and "ev_kinds e l AND EV_SIGNAL = 0" and "ev_kinds e l AND (EV_READ OR EV_WRITE) \<noteq> 0" and "0 \<le> ev_fd (x_events l e)"
    and "\<not> is_waiting e l" and "\<not> is_waiting (event_to e) l" and "tv = None \<or> 0 < ev_tv_get tv"
  shows "\<exists>l1 l2. event_add env e tv l = Ok l1 \<and> loop_ok K l1 \<and> linked e l1 \<and> ev_is_active (event_to e) l1 = (tv \<noteq> None) \<and>
    (tv \<noteq> None \<longrightarrow> \<lparr>he_at = mn_now l + ev_tv_get tv, he_w = event_to e\<rparr> \<in> timer_entries l1) \<and>
    event_del env e l1 = Ok l2 \<and> loop_ok K l2 \<and> \<not> is_waiting e l2 \<and> \<not> ev_is_active (event_to e) l2 \<and>
    x_events l2 = (x_events l)(e := (x_events l e)\<lparr>ev_flags := EVLIST_INIT\<rparr>)"
proof -
  obtain l1 f where l1: "event_add env e tv l = Ok l1" "loop_ok K l1" "linked e l1" "ev_is_active (event_to e) l1 = (tv \<noteq> None)"
    "tv \<noteq> None \<longrightarrow> \<lparr>he_at = mn_now l + ev_tv_get tv, he_w = event_to e\<rparr> \<in> timer_entries l1"
    "x_events l1 = (x_events l)(e := (x_events l e)\<lparr>ev_flags := f OR EVLIST_ACTIVE\<rparr>)"
    using event_add_ok [OF assms] by blast
  have kinds: "ev_kinds e l1 = ev_kinds e l" by (simp add: ev_kinds_def l1(6))
  have "ev_base (x_events l1 e)" using assms(4) by (simp add: l1(6))
  moreover have "event_to e \<in> he_w ` timer_entries l1" if "ev_is_active (event_to e) l1" using l1(4,5) that by force
  ultimately obtain l2 where "event_del env e l1 = Ok l2" "loop_ok K l2" "\<not> ev_is_active e l2" "\<not> ev_is_active (event_to e) l2"
    "x_events l2 = (x_events l1)(e := (x_events l1 e)\<lparr>ev_flags := EVLIST_INIT\<rparr>)" "w_pending (watchers l2 e) = 0"
    using event_del_ok [OF l1(2) _ _ _ l1(3), of env] assms(3,5,6) kinds by auto
  then show ?thesis using l1 by (intro exI [of _ l1] exI [of _ l2]) (simp add: is_waiting_def)
qed

theorem event_add_then_del_witness:
  "\<exists>l1 l2. event_add calling_env 20 (Some (2, 500000)) event_loop_sample = Ok l1 \<and> linked 20 l1 \<and>
    \<lparr>he_at = 2.5, he_w = 21\<rparr> \<in> timer_entries l1 \<and> event_del calling_env 20 l1 = Ok l2 \<and> \<not> is_waiting 20 l2"
proof -
  have t: "ev_tv_get (Some (2, 500000)) = 2.5" by (simp add: ev_tv_get_def)
  have "Some (2, 500000) = None \<or> 0 < ev_tv_get (Some (2, 500000))" by (simp add: t)
  moreover have "event_types 20 = Io_watcher" "event_types (event_to 20) = Timer_watcher" "ev_base (x_events event_loop_sample 20)"
    "ev_kinds 20 event_loop_sample AND EV_SIGNAL = 0" "ev_kinds 20 event_loop_sample AND (EV_READ OR EV_WRITE) \<noteq> 0"
    "0 \<le> ev_fd (x_events event_loop_sample 20)"
    by (simp_all add: event_types_def event_to_def event_sample_fields ev_mask_defs)
  moreover have to: "event_to 20 = 21" by (simp add: event_to_def)
  ultimately show ?thesis
    using event_add_then_del [OF event_sample_ok, of 20 "Some (2, 500000)" calling_env] event_sample_idle
    by (auto simp: t event_sample_fields)
qed

text \<open>
  C29. When the descriptor of an added event is ready, the callback is called once with the
  descriptor, the events and the argument; unless the event is persistent it has been deleted
  before, timeout included, so that the callback may add it again.
\<close>

theorem event_called_when_ready:
  assumes "loop_ok K l" and "linked e l" and "w_cb (watchers l e) = Ev_x_cb_io" and "ev_base (x_events l e)"
    and "K (event_to e) = Timer_watcher" and "ev_is_active (event_to e) l \<longrightarrow> event_to e \<in> he_w ` timer_entries l"
    and "ev_kinds e l AND EV_SIGNAL = 0" and "ev_kinds e l AND (EV_READ OR EV_WRITE) \<noteq> 0" and "revents AND EV_ERROR = 0"
  shows "\<exists>l'. ev_invoke env e revents l =
      user_event env (ev_callback (x_events l e)) (ev_fd (x_events l e))
        (ucast (revents AND (EV_READ OR EV_WRITE OR EV_TIMER OR EV_SIGNAL))) (ev_arg (x_events l e)) l' \<and> loop_ok K l' \<and>
    (if ev_kinds e l AND EV_PERSIST = 0
     then \<not> is_waiting e l' \<and> \<not> ev_is_active (event_to e) l' \<and> ev_flags (x_events l' e) = EVLIST_INIT
     else linked e l' \<and> watchers l' = watchers l)"
proof (cases "ev_kinds e l AND EV_PERSIST = 0")
  case True
  have k: "K (event_to e) \<noteq> Io_watcher" using assms(5) by simp
  obtain l1 where l1: "event_del env e l = Ok l1" "loop_ok K l1" "\<not> ev_is_active e l1" "\<not> ev_is_active (event_to e) l1"
    "x_events l1 = (x_events l)(e := (x_events l e)\<lparr>ev_flags := EVLIST_INIT\<rparr>)" "w_pending (watchers l1 e) = 0"
    using event_del_ok [OF assms(1,4,7,8,2,6) k, of env] by blast
  show ?thesis
    using True l1 assms(3,9)
    by (intro exI [of _ "upd_event e (\<lambda>v. v\<lparr>ev_res := revents AND (EV_READ OR EV_WRITE OR EV_TIMER OR EV_SIGNAL)\<rparr>) l1"])
      (simp add: ev_invoke_def ev_x_cb_io_def ev_x_cb_def Let_def is_waiting_def)
next
  case False
  then show ?thesis
    using assms
    by (intro exI [of _ "upd_event e (\<lambda>v. v\<lparr>ev_res := revents AND (EV_READ OR EV_WRITE OR EV_TIMER OR EV_SIGNAL)\<rparr>) l"])
      (simp add: ev_invoke_def ev_x_cb_io_def ev_x_cb_def Let_def)
qed

definition added_event_sample :: "(nat \<times> int \<times> 16 word \<times> nat) list ev_loop" where
  "added_event_sample = event_loop_sample\<lparr>activecnt := 1,
     watchers := (watchers event_loop_sample)(20 := zero_watcher\<lparr>w_cb := Ev_x_cb_io, w_active := 1, w_events := EV_READ\<rparr>),
     anfds := [\<lparr>fd_head = [20], fd_events = EV_READ, fd_reify_flag = 0, fd_emask = 0, fd_egen = 0\<rparr>]\<rparr>"

lemma added_sample_ok: "loop_ok event_types added_event_sample"
proof -
  note d = added_event_sample_def event_loop_sample_def event_set_def zero_loop_def upd_watcher_def upd_event_def ev_init_def
  have w: "w_pending (watchers added_event_sample w) = 0" for w by (simp add: d event_to_def zero_watcher_def)
  have "pending_ok added_event_sample"
    using w by (simp add: pending_ok_def refs_ok_def) (simp add: d)
  moreover have "fds_ok added_event_sample"
    by (simp add: fds_ok_def fds_ok_for_def io_lists_ok_def or_events_def) (simp add: d zero_watcher_def ev_mask_defs rw_mask_def)
  moreover have "loop_part event_types k added_event_sample" for k
  proof -
    have e: "timercnt added_event_sample = 0" "periodiccnt added_event_sample = 0" "idles added_event_sample = (\<lambda>_. [])"
      "prepares added_event_sample = []" "checks added_event_sample = []" "forks added_event_sample = []"
      "cleanups added_event_sample = []" "asyncs added_event_sample = []" by (simp_all add: d)
    have "io_typed event_types (anfds added_event_sample) (watchers added_event_sample)"
      by (simp add: io_typed_def event_types_def) (simp add: d zero_watcher_def good_pri_def EV_MINPRI_def EV_MAXPRI_def)
    then show ?thesis
      by (cases k) (simp_all add: loop_part_def e heap_typed_def heap_ok_def heap_ordered_def indexed_but_def heap_entries_def
        heap_range_def cache_ok_def array_typed_def inj_on_def)
  qed
  ultimately show ?thesis by (simp add: loop_ok_def loop_typed_iff)
qed

theorem event_called_when_ready_witness:
  "\<exists>l'. ev_invoke calling_env 20 EV_READ added_event_sample = Ok l' \<and> last (ev_world l') = (4, 0, 1, 5)"
proof -
  have x: "x_events added_event_sample = x_events event_loop_sample" by (simp add: added_event_sample_def)
  have "linked 20 added_event_sample" "w_cb (watchers added_event_sample 20) = Ev_x_cb_io"
    "\<not> ev_is_active (event_to 20) added_event_sample"
    using event_sample_idle(2) by (simp_all add: linked_def added_event_sample_def is_waiting_def ev_is_active_def event_to_def)
  moreover have "event_types (event_to 20) = Timer_watcher" by (simp add: event_types_def event_to_def)
  moreover have "ev_base (x_events added_event_sample 20)" "ev_kinds 20 added_event_sample = EV_READ"
    using event_sample_fields(1,4) by (simp_all add: x ev_kinds_def)
  moreover have "EV_READ AND EV_SIGNAL = 0" "EV_READ AND (EV_READ OR EV_WRITE) \<noteq> 0" "EV_READ AND EV_ERROR = 0"
    by (simp_all add: ev_mask_defs)
  ultimately obtain l1 where l1: "ev_invoke calling_env 20 EV_READ added_event_sample = user_event calling_env 4 0
      (ucast (EV_READ AND (EV_READ OR EV_WRITE OR EV_TIMER OR EV_SIGNAL))) 5 l1"
    using event_called_when_ready [OF added_sample_ok, of 20 EV_READ calling_env] event_sample_fields(1) by (auto simp: x)
  have "(ucast (EV_READ AND (EV_READ OR EV_WRITE OR EV_TIMER OR EV_SIGNAL)) :: 16 word) = 1" by (simp add: ev_mask_defs)
  then show ?thesis using l1 by (simp add: calling_env_def)
qed

text \<open>
  A timeout that a program activates by hand survives the deletion of its event:
  \<open>event_del\<close> stops the timer only when it is active, so the queued timeout stays and the callback
  of the deleted event is called.
\<close>

theorem event_del_keeps_activated_timeout:
  assumes "ev_base (x_events l e)" and "\<not> is_waiting e l" and "\<not> is_waiting (event_to e) l"
    and "w_cb (watchers l (event_to e)) = Ev_x_cb_to"
  shows "\<exists>l1 l2. event_active e EV_TIMEOUT l = Ok l1 \<and> event_del env e l1 = Ok l2 \<and>
    queued (event_to e) EV_TIMEOUT l2 \<and> ev_flags (x_events l2 e) = EVLIST_INIT \<and> w_cb (watchers l2 (event_to e)) = Ev_x_cb_to"
proof -
  let ?l1 = "ev_feed_event (event_to e) EV_TIMEOUT l"
  have ne: "event_to e \<noteq> e" by (simp add: event_to_def)
  have "event_active e EV_TIMEOUT l = Ok ?l1"
    using assms(1) by (simp add: event_active_def feed_part_def on_base_def EV_TIMEOUT_def ev_mask_defs)
  moreover have idle: "w_pending (watchers ?l1 e) = 0" "\<not> ev_is_active e ?l1" "\<not> ev_is_active (event_to e) ?l1"
    using assms(2,3) ne by (simp_all add: is_waiting_def ev_is_active_def ev_feed_event_def Let_def)
  then have "event_del env e ?l1 = Ok (upd_event e (\<lambda>v. v\<lparr>ev_flags := EVLIST_INIT\<rparr>) ?l1)"
    by (simp add: event_del_def stop_on_base_def)
  moreover have "queued (event_to e) EV_TIMEOUT ?l1"
    using queued_feed [of l "event_to e" EV_TIMEOUT] assms(3) by (simp add: is_waiting_def)
  then have "queued (event_to e) EV_TIMEOUT (upd_event e (\<lambda>v. v\<lparr>ev_flags := EVLIST_INIT\<rparr>) ?l1)"
    by (simp add: queued_def)
  moreover have "w_cb (watchers ?l1 (event_to e)) = Ev_x_cb_to" using assms(4) by (simp add: ev_feed_event_def Let_def)
  ultimately show ?thesis
    by (intro exI [of _ ?l1] exI [of _ "upd_event e (\<lambda>v. v\<lparr>ev_flags := EVLIST_INIT\<rparr>) ?l1"]) simp
qed

theorem event_del_keeps_activated_timeout_witness:
  "\<exists>l1 l2. event_active 20 EV_TIMEOUT event_loop_sample = Ok l1 \<and> event_del calling_env 20 l1 = Ok l2 \<and> queued 21 EV_TIMEOUT l2"
proof -
  have "event_to 20 = 21" by (simp add: event_to_def)
  then show ?thesis
    using event_del_keeps_activated_timeout [of event_loop_sample 20 calling_env] event_sample_idle
    by (auto simp: event_sample_fields)
qed

text \<open>
  An event that was set for a timeout but never added is reported as pending, and the
  time that is stored for it is the present, whatever timeout it has.
\<close>

theorem event_pending_misreports:
  assumes "x_cur l" and "scast events AND EV_TIMEOUT \<noteq> (0 :: ev_mask)"
    and "scast events AND (EV_READ OR EV_WRITE OR EV_SIGNAL) = (0 :: ev_mask)"
  shows "event_pending e events True (event_set e fd events cb arg l) = Ok (EV_TIMEOUT, Some (tv_of (ev_rt_now l)))"
proof -
  let ?l = "event_set e fd events cb arg l" and ?e = "scast events :: ev_mask"
  have f: "ev_kinds e ?l = ?e" "ev_base (x_events ?l e)" "ev_rt_now ?l = ev_rt_now l"
    using assms(1) by (simp_all add: event_set_def ev_kinds_def upd_watcher_def) (simp_all add: upd_event_def)
  have bits: "?e AND EV_READ = 0" "?e AND EV_WRITE = 0" "?e AND EV_SIGNAL = 0"
    using assms(3) by (simp_all add: bit.conj_disj_distrib or_eq_0_iff)
  then have none: "pending_kinds e ?l = 0" by (simp add: pending_kinds_def f(1) bit.conj_disj_distrib)
  have t: "EV_TIMEOUT = 2 ^ 8" by (simp add: EV_TIMEOUT_def EV_TIMER_def)
  have "?e AND EV_TIMEOUT = EV_TIMEOUT" unfolding t by (rule and_single) (use assms(2) in \<open>unfold t\<close>)
  then show ?thesis using assms(2) f none by (simp add: event_pending_def on_base_def Let_def)
qed

theorem event_pending_misreports_witness:
  "event_pending 30 0x100 True (event_set 30 (-1) 0x100 4 5 event_loop_sample) = Ok (EV_TIMEOUT, Some (0, 0))"
proof -
  have "scast (0x100 :: 16 word) AND EV_TIMEOUT \<noteq> (0 :: ev_mask)"
    "scast (0x100 :: 16 word) AND (EV_READ OR EV_WRITE OR EV_SIGNAL) = (0 :: ev_mask)" "x_cur event_loop_sample"
    by (simp_all add: EV_TIMEOUT_def ev_mask_defs) (simp add: event_loop_sample_def event_set_def upd_event_def upd_watcher_def)
  from event_pending_misreports [OF this(3,1,2), of 30 "-1" 4 5]
  show ?thesis by (simp add: tv_of_def event_loop_sample_def event_set_def upd_event_def upd_watcher_def zero_loop_def)
qed

text \<open>
  Asking a base to leave its loop starts a timer for the given time, or for now; when it
  is called the loop is told to end, the timer is stopped and the one-shot watch is released.
\<close>

theorem event_loopexit_breaks:
  assumes "loop_ok K l" and "K once = Io_watcher" and "K (once_to once) = Timer_watcher" and "\<not> is_waiting once l"
    and "\<not> is_waiting (once_to once) l" and "alloc_once env (ev_world l) = (Some once, world)"
  shows "\<exists>l1 l2. event_base_loopexit env tv l = Ok (0, l1) \<and> loop_ok K l1 \<and>
    \<lparr>he_at = mn_now l + max 0 (ev_tv_get tv), he_w = once_to once\<rparr> \<in> timer_entries l1 \<and>
    ev_invoke env (once_to once) EV_TIMER l1 = Ok l2 \<and> loop_done l2 = EVBREAK_ONE \<and> loop_ok K l2 \<and>
    he_w ` timer_entries l2 = he_w ` timer_entries l1 - {once_to once} \<and> onces l2 once = None"
proof -
  let ?to = "once_to once" and ?t = "max 0 (ev_tv_get tv)"
  have ne: "?to \<noteq> once" by (simp add: once_to_def)
  define l0 where "l0 = l\<lparr>ev_world := world, onces := (onces l)(once \<mapsto> (Ev_x_loopexit_cb, 0))\<rparr>"
  define la where "la = upd_watcher ?to (ev_init Once_cb_to) (upd_watcher once (ev_init Once_cb_io) l0)"
  define lb where "lb = upd_watcher ?to (ev_timer_set ?t 0) la"
  have idle0: "\<not> is_waiting once l0" "\<not> is_waiting ?to (upd_watcher once (ev_init Once_cb_io) l0)"
    using assms(4,5) ne by (simp_all add: l0_def is_waiting_def ev_is_active_def)
  have "loop_ok K la"
    unfolding la_def using assms(1) by (intro loop_ok_init idle0) (simp add: l0_def)
  moreover have a: "\<not> ev_is_active ?to la" "w_pending (watchers la ?to) = 0"
    using idle0(2) by (simp_all add: la_def is_waiting_def ev_is_active_def ev_init_def)
  ultimately have okb: "loop_ok K lb" unfolding lb_def by (intro loop_ok_set_up) (simp_all add: ev_timer_set_def)
  have b: "\<not> ev_is_active ?to lb" "0 \<le> w_repeat (watchers lb ?to)" "w_pending (watchers lb ?to) = 0"
    "w_at (watchers lb ?to) = ?t" "mn_now lb = mn_now l" "onces lb = onces l0" "w_cb (watchers lb ?to) = Once_cb_to"
    "w_active (watchers lb once) = 0" "w_pending (watchers lb once) = 0"
    using a ne by (simp_all add: lb_def la_def ev_is_active_def ev_timer_set_def ev_init_def l0_def) (simp_all add: upd_watcher_def)
  obtain l1 where l1: "ev_timer_start ?to lb = Ok l1" "loop_ok K l1"
    "timer_entries l1 = insert \<lparr>he_at = ?t + mn_now l, he_w = ?to\<rparr> (timer_entries lb)"
    "\<And>x. x \<noteq> ?to \<Longrightarrow> K x \<noteq> Timer_watcher \<Longrightarrow> watchers l1 x = watchers lb x"
    "\<And>x. w_pending (watchers l1 x) = w_pending (watchers lb x) \<and> w_cb (watchers l1 x) = w_cb (watchers lb x)"
    using timer_start_loop_ok [OF okb assms(3) b(1,2,3)] unfolding b(4,5) by blast
  have "(if ev_tv_get tv \<ge> 0 then ev_tv_get tv else 0) = ?t" by simp
  then have code: "event_base_loopexit env tv l = Ok (0, l1)"
    using assms(6) l1(1)
    by (simp add: event_base_loopexit_def ev_once_def Let_def l0_def [symmetric] la_def [symmetric] lb_def [symmetric])
  have w1: "watchers l1 once = watchers lb once" using l1(4) [of once] ne assms(2) by simp
  have "?to \<in> he_w ` timer_entries l1" using l1(3) by simp
  from timer_stop_loop_ok [OF l1(2) this] obtain l2 where l2: "ev_timer_stop ?to l1 = Ok l2" "loop_ok K l2"
    "he_w ` timer_entries l2 = he_w ` timer_entries l1 - {?to}" by blast
  have o: "onces l1 once = Some (Ev_x_loopexit_cb, 0)" "onces l2 = onces l1"
    using timer_onces(1) [OF l1(1)] timer_onces(2) [OF l2(1)] b(6) by (simp_all add: l0_def)
  let ?l2 = "ev_break EVBREAK_ONE (l2\<lparr>onces := (onces l2)(once := None)\<rparr>)"
  have "ev_io_stop once l1 = Ok l1"
    using w1 b(8,9) by (simp add: ev_io_stop_def Let_def clear_pending_idle ev_is_active_def)
  moreover have "ev_clear_pending once l1 = (0, l1)" using w1 b(9) by (simp add: ev_clear_pending_def Let_def)
  moreover have "w_cb (watchers l1 ?to) = Once_cb_to" using l1(5) b(7) by simp
  ultimately have "ev_invoke env ?to EV_TIMER l1 = Ok ?l2"
    using o l2(1)
    by (simp add: ev_invoke_def once_cb_to_def once_cb_def once_to_def call_once_def ev_x_loopexit_cb_def)
  moreover have "loop_ok K ?l2"
    using l2(2)
    by (simp add: ev_break_def loop_ok_def loop_typed_def pending_ok_def fds_ok_def fds_ok_for_def io_lists_ok_def or_events_def)
  moreover have "timer_entries ?l2 = timer_entries l2" by (simp add: ev_break_def timer_entries_def)
  ultimately show ?thesis
    using code l1(2,3) l2(3) by (intro exI [of _ l1] exI [of _ ?l2]) (simp add: ev_break_def add.commute)
qed

theorem event_loopexit_breaks_witness:
  "\<exists>l1 l2. event_base_loopexit calling_env (Some (3, 0)) event_loop_sample = Ok (0, l1) \<and>
    \<lparr>he_at = 3, he_w = 51\<rparr> \<in> timer_entries l1 \<and> ev_invoke calling_env 51 EV_TIMER l1 = Ok l2 \<and> loop_done l2 = EVBREAK_ONE"
proof -
  define K where "K w = (if w = 50 then Io_watcher else Timer_watcher)" for w :: addr
  have "blank_loop event_loop_sample"
    by (simp add: blank_loop_def event_loop_sample_def event_set_def zero_loop_def upd_watcher_def upd_event_def ev_init_def
        zero_watcher_def)
  then have ok: "loop_ok K event_loop_sample" by (simp add: loop_ok_def blank_loop_ok)
  have to: "once_to 50 = 51" by (simp add: once_to_def)
  have "K 50 = Io_watcher" "K (once_to 50) = Timer_watcher" by (simp_all add: K_def once_to_def)
  moreover have "\<not> is_waiting 50 event_loop_sample" "\<not> is_waiting (once_to 50) event_loop_sample"
    by (simp_all add: to is_waiting_def ev_is_active_def event_loop_sample_def event_set_def zero_loop_def upd_watcher_def upd_event_def
        event_to_def zero_watcher_def)
  moreover have "alloc_once calling_env (ev_world event_loop_sample) = (Some 50, ev_world event_loop_sample)"
    by (simp add: calling_env_def)
  moreover have "ev_tv_get (Some (3, 0)) = 3" by (simp add: ev_tv_get_def)
  ultimately show ?thesis
    using event_loopexit_breaks [OF ok, of 50 calling_env "ev_world event_loop_sample" "Some (3, 0)"]
    by (auto simp: to event_sample_fields)
qed

text \<open>
  A signal event stays added when it is called, whether it was set to be persistent or not:
  its callback looks for errors only.
\<close>

lemma signal_event_stays_added:
  assumes "ev_base (x_events l e)" "w_cb (watchers l e) = Ev_x_cb_sig" "revents AND EV_ERROR = 0"
  shows "ev_invoke env e revents l =
    user_event env (ev_callback (x_events l e)) (ev_fd (x_events l e))
      (ucast (revents AND (EV_READ OR EV_WRITE OR EV_TIMER OR EV_SIGNAL))) (ev_arg (x_events l e))
      (upd_event e (\<lambda>v. v\<lparr>ev_res := revents AND (EV_READ OR EV_WRITE OR EV_TIMER OR EV_SIGNAL)\<rparr>) l)"
  using assms by (simp add: ev_invoke_def ev_x_cb_sig_def ev_x_cb_def Let_def)

end
