(* ===== verification/Ev_Ports.thy ===== *)
theory Ev_Ports
  imports Ev_Props Ev_Ready
begin

unbundle bit_operations_syntax

text \<open>
  The backends of the other Unix systems keep the kernel informed: the changes that the
  \<open>kqueue\<close> backend collects, and the descriptors that a Solaris port has forgotten by reporting them.
\<close>

lemma feed_ios_keeps:
  "anfds (feed_ios ws e l) = anfds l" "fdchanges (feed_ios ws e l) = fdchanges l"
  "backend_modify (feed_ios ws e l) = backend_modify l" "backend_fd (feed_ios ws e l) = backend_fd l"
  "ev_world (feed_ios ws e l) = ev_world l"
  "w_fd (watchers (feed_ios ws e l) x) = w_fd (watchers l x)"
  "w_active (watchers (feed_ios ws e l) x) = w_active (watchers l x)"
  "w_events (watchers (feed_ios ws e l) x) = w_events (watchers l x)"
  by (induction ws arbitrary: l)
    (simp_all add: Let_def ev_feed_event_keeps, simp_all add: ev_feed_event_def Let_def upd_watcher_def)

section \<open>Collected changes\<close>

text \<open>
  The documented behaviour of \<open>kevent\<close> for descriptors that are open: \<open>filters\<close> gives the filters a
  queue has, as a mask for every descriptor. A call makes all the changes it is handed before it waits, also when a signal
  ends the wait, and reports nothing but filters that the queue has.
\<close>

definition kqueue_kernel :: "'w ev_env \<Rightarrow> (int \<Rightarrow> 'w \<Rightarrow> nat \<Rightarrow> ev_mask) \<Rightarrow> bool" where
  "kqueue_kernel env filters \<longleftrightarrow> (\<forall>q chs n t w. case kevent_call env q chs n t w of (answer, w') \<Rightarrow>
     filters q w' = fold apply_change chs (filters q w) \<and>
     (case answer of
        Kevent_errno e \<Rightarrow> e = EINTR
      | Kevent_events evs \<Rightarrow> \<forall>ev \<in> set evs. ke_flags ev AND KEV_ERROR = 0 \<and> filters q w' (ke_ident ev) \<noteq> 0))"

text \<open>What reporting a descriptor leaves alone.\<close>

lemma kqueue_events_keep:
  assumes "\<forall>ev \<in> set evs. ke_flags ev AND KEV_ERROR = 0 \<and> ke_ident ev < length (anfds l)"
  shows "\<exists>l'. kqueue_events_loop env evs l = Ok l' \<and> anfds l' = anfds l \<and> ev_world l' = ev_world l \<and>
    kqueue_changes l' = kqueue_changes l \<and> backend_fd l' = backend_fd l"
  using assms
proof (induction evs arbitrary: l)
  case Nil
  then show ?case by simp
next
  case (Cons ev evs)
  have k: "kqueue_changes (feed_ios ws e l) = kqueue_changes l" for ws e and l :: "'a ev_loop"
    by (induction ws arbitrary: l) (simp_all add: Let_def ev_feed_event_def upd_watcher_def)
  obtain l1 where "kqueue_one env ev l = Ok l1" "anfds l1 = anfds l" "ev_world l1 = ev_world l"
    "kqueue_changes l1 = kqueue_changes l" "backend_fd l1 = backend_fd l"
    using Cons.prems
    by (cases "fd_reify_flag (anfds l ! ke_ident ev) = 0")
      (auto simp: kqueue_one_def fd_event_def fd_event_nocheck_def anfd_at_def feed_ios_keeps k)
  then show ?case using Cons.IH [of l1] Cons.prems by auto
qed

text \<open>
  C10. When the filters of the kernel, with the changes that are still to be handed over, agree with
  the books, then passing the changed descriptors on and waiting once leaves the kernel with exactly the
  filters that the active watchers ask for, whatever the wait reports: it hands over all collected changes,
  in order, and starts a new list.
\<close>

theorem kqueue_changes_watch:
  assumes "kqueue_kernel env filters" and "backend_modify l = Kqueue_modify" and "fds_ok l"
    and "kernel_synced (kqueue_mask (filters (backend_fd l) (ev_world l))) l"
  shows "\<exists>l1 l2. fd_reify env l = Ok l1 \<and> fdchanges l1 = [] \<and> kqueue_poll env t l1 = Ok l2 \<and>
    kqueue_changes l2 = [] \<and> backend_fd l2 = backend_fd l \<and>
    (\<forall>fd. filters (backend_fd l2) (ev_world l2) fd =
      (if fd < length (anfds l) then or_events l (fd_head (anfds l ! fd)) else 0))"
proof -
  let ?reg = "filters (backend_fd l) (ev_world l)"
  obtain l1 where l1: "fd_reify env l = Ok l1" "kernel_synced (kqueue_mask ?reg) l1" "fdchanges l1 = []"
    "map fd_head (anfds l1) = map fd_head (anfds l)" "fd_core l1 = fd_core l"
    "\<And>fd. fd < length (anfds l) \<Longrightarrow> kqueue_mask ?reg l1 fd = or_events l (fd_head (anfds l ! fd))"
    using kqueue.fd_reify_ok [OF assms(2) TrueI assms(4,3), of env] by blast
  have len: "length (anfds l1) = length (anfds l)" using l1(4) by (metis length_map)
  have same: "backend_fd l1 = backend_fd l" "ev_world l1 = ev_world l"
    using arg_cong [OF l1(5), of backend_fd] fd_coreD(12) [OF l1(5)] by (simp_all add: fd_core_def)
  have m: "kqueue_mask ?reg l1 fd = (if fd < length (anfds l) then or_events l (fd_head (anfds l ! fd)) else 0)" for fd
    using l1(2,6) len by (simp add: kernel_synced_def)
  define l0 where "l0 = (if length (kqueue_changes l1) > kqueue_eventmax l1 then kqueue_grow (length (kqueue_changes l1)) l1 else l1)"
  have l0: "backend_fd l0 = backend_fd l" "ev_world l0 = ev_world l" "kqueue_changes l0 = kqueue_changes l1" "anfds l0 = anfds l1"
    by (simp_all add: l0_def kqueue_grow_def same)
  obtain answer w where w: "kevent_call env (backend_fd l0) (kqueue_changes l0) (kqueue_eventmax l0) (ts_set t) (ev_world l0) = (answer, w)"
    by force
  have law: "filters (backend_fd l) w = kqueue_mask ?reg l1" "case answer of Kevent_errno e \<Rightarrow> e = EINTR
      | Kevent_events evs \<Rightarrow> \<forall>ev \<in> set evs. ke_flags ev AND KEV_ERROR = 0 \<and> filters (backend_fd l) w (ke_ident ev) \<noteq> 0"
    using assms(1) [unfolded kqueue_kernel_def, THEN spec [where x = "backend_fd l0"], THEN spec [where x = "kqueue_changes l0"],
        THEN spec [where x = "kqueue_eventmax l0"], THEN spec [where x = "ts_set t"], THEN spec [where x = "ev_world l0"],
        unfolded w prod.case, unfolded l0] unfolding kqueue_mask_def by blast+
  let ?l2 = "l0\<lparr>ev_world := w, kqueue_changes := []\<rparr>"
  have known: "fd < length (anfds ?l2)" if "filters (backend_fd l) w fd \<noteq> 0" for fd
    using that m [of fd] len by (simp add: law(1) l0 split: if_splits)
  have code: "kqueue_poll env t l1 = (case answer of
      Kevent_errno e \<Rightarrow> if e \<noteq> EINTR then Fault Assertion_failed else Ok ?l2
    | Kevent_events evs \<Rightarrow> obind (kqueue_events_loop env evs ?l2) (\<lambda>l.
        Ok (if length evs = kqueue_eventmax l then kqueue_grow (kqueue_eventmax l + 1) l else l)))"
    unfolding kqueue_poll_def Let_def l0_def [symmetric] w prod.case ..
  have "\<exists>l2. kqueue_poll env t l1 = Ok l2 \<and> kqueue_changes l2 = [] \<and> backend_fd l2 = backend_fd l \<and> ev_world l2 = w"
  proof (cases answer)
    case (Kevent_errno e)
    then show ?thesis using law(2) by (simp add: code l0)
  next
    case (Kevent_events evs)
    then obtain l2 where "kqueue_events_loop env evs ?l2 = Ok l2" "ev_world l2 = w" "kqueue_changes l2 = []"
      "backend_fd l2 = backend_fd l"
      using kqueue_events_keep [of evs ?l2 env] law(2) known l0(1) by auto
    then show ?thesis
      using Kevent_events by (simp add: code kqueue_grow_def)
  qed
  then obtain l2 where "kqueue_poll env t l1 = Ok l2" "kqueue_changes l2 = []" "backend_fd l2 = backend_fd l" "ev_world l2 = w"
    by blast
  then show ?thesis using l1(1,3) m law(1) by auto
qed

text \<open>A kernel that makes the changes and reports descriptor 0 when it has a filter there.\<close>

definition filter_env :: "(int \<Rightarrow> nat \<Rightarrow> ev_mask) ev_env" where
  "filter_env = quiet_env\<lparr>kevent_call := (\<lambda>q chs n t w.
     let m = fold apply_change chs (w q)
     in (Kevent_events (if m 0 = 0 then []
         else [\<lparr>ke_ident = 0, ke_filter = EVFILT_READ, ke_flags = 0, ke_fflags = 0, ke_data = 0\<rparr>]), w(q := m)))\<rparr>"

definition filter_loop :: "(int \<Rightarrow> nat \<Rightarrow> ev_mask) ev_loop" where
  "filter_loop = (zero_loop ((\<lambda>_. user_watcher)(7 := user_watcher\<lparr>w_active := 1, w_fd := 0, w_events := EV_READ\<rparr>)) (\<lambda>_ _. 0))
     \<lparr>backend_modify := Kqueue_modify, backend_poll := Kqueue_poll, backend_fd := 5, activecnt := 1, fdchanges := [0],
      anfds := [\<lparr>fd_head = [7], fd_events = 0, fd_reify_flag = EV_ANFD_REIFY, fd_emask = 0, fd_egen = 0\<rparr>]\<rparr>"

theorem kqueue_changes_watch_witness:
  "\<exists>l1 l2. fd_reify filter_env filter_loop = Ok l1 \<and> kqueue_poll filter_env 1 l1 = Ok l2 \<and> ev_world l2 5 0 = EV_READ \<and>
    kqueue_changes l2 = []"
proof -
  have laws: "kqueue_kernel filter_env (\<lambda>q w. w q)"
    by (simp add: kqueue_kernel_def filter_env_def Let_def)
  have f: "backend_modify filter_loop = Kqueue_modify" "backend_fd filter_loop = 5" "ev_world filter_loop = (\<lambda>_ _. 0)"
    "length (anfds filter_loop) = 1" "fd_head (anfds filter_loop ! 0) = [7]"
    "watchers filter_loop 7 = user_watcher\<lparr>w_active := 1, w_fd := 0, w_events := EV_READ\<rparr>"
    "fd_reify_flag (anfds filter_loop ! 0) = EV_ANFD_REIFY" "fdchanges filter_loop = [0]" "kqueue_changes filter_loop = []"
    "fd_events (anfds filter_loop ! 0) = 0"
    by (simp_all add: filter_loop_def zero_loop_def)
  have "fds_ok filter_loop"
    by (simp add: fds_ok_def fds_ok_for_def io_lists_ok_def f rw_mask_def ev_mask_defs EV_ANFD_REIFY_def)
  moreover have "kernel_synced (kqueue_mask (ev_world filter_loop (backend_fd filter_loop))) filter_loop"
    by (simp add: kernel_synced_def kqueue_mask_def f)
  moreover have "or_events filter_loop [7] = EV_READ" by (simp add: or_events_def f(6) ev_mask_defs)
  ultimately show ?thesis using kqueue_changes_watch [OF laws f(1), of 1] f(2,4,5) by force
qed

section \<open>Reported and forgotten\<close>

text \<open>
  A port that reports a descriptor does not know it any longer: the law of \<open>port_getn\<close>. In the loop
  such descriptors are marked until they are associated again.
\<close>

definition port_reports :: "'w ev_env \<Rightarrow> (int \<Rightarrow> 'w \<Rightarrow> nat \<Rightarrow> ev_mask) \<Rightarrow> bool" where
  "port_reports env assoc \<longleftrightarrow> (\<forall>port n t w. case port_getn env port n t w of ((err, got), w') \<Rightarrow>
     (case got of
        None \<Rightarrow> (err = 0 \<or> err = ETIME \<or> err = EINTR) \<and> assoc port w' = assoc port w
      | Some evs \<Rightarrow> err = 0 \<and> (\<forall>ev \<in> set evs. portev_source ev = PORT_SOURCE_FD \<and> assoc port w (portev_object ev) \<noteq> 0) \<and>
          assoc port w' = (\<lambda>fd. if fd \<in> portev_object ` set evs then 0 else assoc port w fd)))"

definition port_synced :: "(int \<Rightarrow> 'w \<Rightarrow> nat \<Rightarrow> ev_mask) \<Rightarrow> nat set \<Rightarrow> 'w ev_loop \<Rightarrow> bool" where
  "port_synced assoc lost l \<longleftrightarrow>
     (\<forall>fd. if fd < length (anfds l)
           then assoc (backend_fd l) (ev_world l) fd = (if fd \<in> lost then 0 else port_bits (fd_events (anfds l ! fd)))
           else assoc (backend_fd l) (ev_world l) fd = 0) \<and>
     (\<forall>fd \<in> lost. fd < length (anfds l) \<and> fd_reify_flag (anfds l ! fd) AND EV__IOFDSET \<noteq> 0)"

lemma iofdset_marked: "(((r :: ev_mask) OR EV__IOFDSET) AND 0xFF) AND EV__IOFDSET \<noteq> 0"
  "r AND EV__IOFDSET \<noteq> 0 \<Longrightarrow> ((r OR f) AND 0xFF) AND EV__IOFDSET \<noteq> 0"
proof -
  have b: "x AND EV__IOFDSET \<noteq> 0 \<longleftrightarrow> bit x 7" for x :: ev_mask
    using and_exp_eq_0_iff_not_bit [of x 7] by (simp add: EV__IOFDSET_def)
  show "(((r :: ev_mask) OR EV__IOFDSET) AND 0xFF) AND EV__IOFDSET \<noteq> 0"
    unfolding b by (simp add: EV__IOFDSET_def bit_simps)
  show "((r OR f) AND 0xFF) AND EV__IOFDSET \<noteq> 0" if "r AND EV__IOFDSET \<noteq> 0"
    using that unfolding b by (simp add: bit_simps)
qed

text \<open>One reported descriptor: its watchers are fed, and it is marked.\<close>

lemma port_report_ok:
  assumes ok: "fds_ok l" and fd: "fd < length (anfds l)"
  shows "\<exists>l'. obind (fd_event fd e l) (fd_change fd EV__IOFDSET) = Ok l' \<and> fds_ok l' \<and> fd \<in> set (fdchanges l') \<and>
    set (fdchanges l) \<subseteq> set (fdchanges l') \<and> length (anfds l') = length (anfds l) \<and>
    map fd_events (anfds l') = map fd_events (anfds l) \<and> map fd_head (anfds l') = map fd_head (anfds l) \<and>
    fd_reify_flag (anfds l' ! fd) AND EV__IOFDSET \<noteq> 0 \<and>
    (\<forall>k < length (anfds l). fd_reify_flag (anfds l ! k) AND EV__IOFDSET \<noteq> 0 \<longrightarrow> fd_reify_flag (anfds l' ! k) AND EV__IOFDSET \<noteq> 0) \<and>
    backend_modify l' = backend_modify l \<and> backend_fd l' = backend_fd l \<and> ev_world l' = ev_world l \<and>
    or_events l' = or_events l"
proof -
  define l0 where "l0 = (if fd_reify_flag (anfds l ! fd) = 0 then feed_ios (fd_head (anfds l ! fd)) e l else l)"
  have l0: "anfds l0 = anfds l" "fdchanges l0 = fdchanges l" "backend_modify l0 = backend_modify l" "backend_fd l0 = backend_fd l"
    "ev_world l0 = ev_world l" "\<And>x. w_fd (watchers l0 x) = w_fd (watchers l x)"
    "\<And>x. w_active (watchers l0 x) = w_active (watchers l x)" "\<And>x. w_events (watchers l0 x) = w_events (watchers l x)"
    by (simp_all add: l0_def feed_ios_keeps)
  have ok0: "fds_ok l0" by (rule fds_ok_frame [OF ok l0(1,2,6,7,8)])
  let ?a = "anfds l ! fd"
  let ?r = "(fd_reify_flag ?a OR EV__IOFDSET) AND 0xFF"
  let ?l = "l0\<lparr>anfds := (anfds l)[fd := ?a\<lparr>fd_reify_flag := ?r\<rparr>],
    fdchanges := (if fd \<in> set (fdchanges l) then fdchanges l else fdchanges l @ [fd])\<rparr>"
  have same: "put_anfd fd (?a\<lparr>fd_head := fd_head ?a\<rparr>) l0 = l0" by (simp add: put_anfd_def flip: l0(1))
  have "fd_event fd e l = Ok l0" using fd by (simp add: fd_event_def fd_event_nocheck_def anfd_at_def l0_def)
  moreover have "fd_change fd EV__IOFDSET l0 = Ok ?l"
    using fd_change_eq [of fd l0 EV__IOFDSET "fd_head ?a"] fds_ok_flag [OF ok0] fd same by (simp add: l0(1,2))
  ultimately have code: "obind (fd_event fd e l) (fd_change fd EV__IOFDSET) = Ok ?l" by simp
  have nz: "?r \<noteq> 0" using iofdset_marked(1) [of "fd_reify_flag ?a"] by (metis and_zero_eq bit.conj_zero_left)
  have "fds_ok ?l"
  proof (rule fds_ok_touch [OF ok0, of fd "fd_head ?a" ?r])
    show "distinct (fd_head ?a)" using ok fd by (simp add: fds_ok_def fds_ok_for_def io_lists_ok_def)
    show "w_fd (watchers ?l w) = int fd \<and> w_active (watchers ?l w) = 1 \<and> rw_mask (w_events (watchers ?l w))"
      if "w \<in> set (fd_head ?a)" for w
      using ok fd that by (simp add: fds_ok_def fds_ok_for_def io_lists_ok_def l0)
  qed (use fd nz in \<open>simp_all add: l0\<close>)
  moreover have "or_events ?l = or_events l" by (simp add: or_events_def fun_eq_iff l0)
  moreover have "fd_reify_flag (anfds ?l ! k) AND EV__IOFDSET \<noteq> 0"
    if "k < length (anfds l)" "k = fd \<or> fd_reify_flag (anfds l ! k) AND EV__IOFDSET \<noteq> 0" for k
    using that iofdset_marked(1) [of "fd_reify_flag ?a"] by (cases "k = fd") simp_all
  ultimately show ?thesis
    using code fd iofdset_marked(1) [of "fd_reify_flag ?a"]
    by (intro exI [of _ ?l]) (auto simp: l0 map_update list_update_same_conv)
qed

lemma port_events_loop_ok:
  assumes "fds_ok l" and "\<forall>ev \<in> set evs. portev_source ev = PORT_SOURCE_FD \<and> portev_object ev < length (anfds l)"
  shows "\<exists>l'. port_events_loop evs l = Ok l' \<and> fds_ok l' \<and> length (anfds l') = length (anfds l) \<and>
    portev_object ` set evs \<subseteq> set (fdchanges l') \<and>
    map fd_events (anfds l') = map fd_events (anfds l) \<and> map fd_head (anfds l') = map fd_head (anfds l) \<and>
    (\<forall>k < length (anfds l). k \<in> portev_object ` set evs \<or> fd_reify_flag (anfds l ! k) AND EV__IOFDSET \<noteq> 0 \<longrightarrow>
      fd_reify_flag (anfds l' ! k) AND EV__IOFDSET \<noteq> 0) \<and>
    set (fdchanges l) \<subseteq> set (fdchanges l') \<and>
    backend_modify l' = backend_modify l \<and> backend_fd l' = backend_fd l \<and> ev_world l' = ev_world l \<and> or_events l' = or_events l"
  using assms
proof (induction evs arbitrary: l)
  case (Cons ev evs)
  let ?fd = "portev_object ev"
  have fd: "?fd < length (anfds l)" and src: "portev_source ev = PORT_SOURCE_FD" using Cons.prems(2) by auto
  obtain l1 where l1: "obind (fd_event ?fd (port_got (portev_events ev)) l) (fd_change ?fd EV__IOFDSET) = Ok l1"
    "fds_ok l1" "?fd \<in> set (fdchanges l1)" "set (fdchanges l) \<subseteq> set (fdchanges l1)" "length (anfds l1) = length (anfds l)"
    "map fd_events (anfds l1) = map fd_events (anfds l)" "map fd_head (anfds l1) = map fd_head (anfds l)"
    "fd_reify_flag (anfds l1 ! ?fd) AND EV__IOFDSET \<noteq> 0"
    "\<And>k. k < length (anfds l) \<Longrightarrow> fd_reify_flag (anfds l ! k) AND EV__IOFDSET \<noteq> 0 \<Longrightarrow> fd_reify_flag (anfds l1 ! k) AND EV__IOFDSET \<noteq> 0"
    "backend_modify l1 = backend_modify l" "backend_fd l1 = backend_fd l" "ev_world l1 = ev_world l" "or_events l1 = or_events l"
    using port_report_ok [OF Cons.prems(1) fd] by metis
  have "\<forall>ev \<in> set evs. portev_source ev = PORT_SOURCE_FD \<and> portev_object ev < length (anfds l1)"
    using Cons.prems(2) l1(5) by simp
  from Cons.IH [OF l1(2) this] obtain l' where l': "port_events_loop evs l1 = Ok l'" "fds_ok l'"
    "length (anfds l') = length (anfds l1)" "portev_object ` set evs \<subseteq> set (fdchanges l')"
    "map fd_events (anfds l') = map fd_events (anfds l1)" "map fd_head (anfds l') = map fd_head (anfds l1)"
    "\<And>k. k < length (anfds l1) \<Longrightarrow> k \<in> portev_object ` set evs \<or> fd_reify_flag (anfds l1 ! k) AND EV__IOFDSET \<noteq> 0 \<Longrightarrow>
      fd_reify_flag (anfds l' ! k) AND EV__IOFDSET \<noteq> 0" "set (fdchanges l1) \<subseteq> set (fdchanges l')"
    "backend_modify l' = backend_modify l1" "backend_fd l' = backend_fd l1" "ev_world l' = ev_world l1" "or_events l' = or_events l1"
    by blast
  have "port_events_loop (ev # evs) l = Ok l'" using src l1(1) l'(1) by simp
  moreover have "fd_reify_flag (anfds l' ! k) AND EV__IOFDSET \<noteq> 0"
    if "k < length (anfds l)" "k \<in> portev_object ` set (ev # evs) \<or> fd_reify_flag (anfds l ! k) AND EV__IOFDSET \<noteq> 0" for k
    using that l'(7) [of k] l1(5,8,9) by auto
  moreover have "portev_object ` set (ev # evs) \<subseteq> set (fdchanges l')" using l1(3) l'(4,8) by auto
  ultimately show ?case using l' l1 by (intro exI [of _ l']) auto
qed simp

text \<open>Passing a changed descriptor on makes the port wait for what its watchers ask for.\<close>

lemma port_reify_one:
  assumes k: "port_kernel env assoc" and m: "backend_modify l = Port_modify" and fd: "fd < length (anfds l)"
    and sync: "port_synced assoc lost l"
  shows "\<exists>w. fd_reify_one env fd l = Ok ((put_anfd fd
      ((anfds l ! fd)\<lparr>fd_reify_flag := 0, fd_events := or_events l (fd_head (anfds l ! fd))\<rparr>) l)\<lparr>ev_world := w\<rparr>) \<and>
    assoc (backend_fd l) w = (assoc (backend_fd l) (ev_world l))(fd := port_bits (or_events l (fd_head (anfds l ! fd))))"
proof -
  let ?a = "anfds l ! fd" and ?nev = "or_events l (fd_head (anfds l ! fd))"
  let ?l = "put_anfd fd (?a\<lparr>fd_reify_flag := 0, fd_events := ?nev\<rparr>) l"
  let ?r = "(if fd_events ?a \<noteq> ?nev then EV__IOFDSET else fd_reify_flag ?a) AND EV__IOFDSET \<noteq> 0"
  have same: "ev_world ?l = ev_world l" "backend_fd ?l = backend_fd l" "backend_modify ?l = Port_modify"
    by (simp_all add: put_anfd_def m)
  have code: "fd_reify_one env fd l = (if ?r then port_modify env fd (fd_events ?a) ?nev ?l else Ok ?l)"
    using fd same(3) by (simp add: fd_reify_one_def anfd_at_def Let_def call_backend_modify_def)
  have a: "assoc (backend_fd l) (ev_world l) fd = (if fd \<in> lost then 0 else port_bits (fd_events ?a))"
    using sync fd by (simp add: port_synced_def)
  have lost: "fd \<in> lost \<Longrightarrow> fd_reify_flag ?a AND EV__IOFDSET \<noteq> 0" using sync by (auto simp: port_synced_def)
  have z: "port_bits 0 = 0" by (simp add: port_bits_def)
  have dis: "assoc p (port_dissociate env p fd w) = (assoc p w)(fd := 0)" for p w
    using k by (simp add: port_kernel_def)
  show ?thesis
  proof (cases ?r)
    case True
    have "\<exists>w. port_modify env fd (fd_events ?a) ?nev ?l = Ok (?l\<lparr>ev_world := w\<rparr>) \<and>
        assoc (backend_fd ?l) w = (assoc (backend_fd ?l) (ev_world ?l))(fd := port_bits ?nev)"
    proof (cases "?nev = 0 \<and> fd_events ?a \<noteq> 0")
      case True
      then show ?thesis by (auto simp: port_modify_def dis z intro: exI [of _ "port_dissociate env (backend_fd ?l) fd (ev_world ?l)"])
    next
      case False
      then have "assoc (backend_fd ?l) (ev_world ?l) fd = port_bits (fd_events ?a) \<or> ?nev \<noteq> 0"
        using a same z by auto
      then show ?thesis by (rule port_modify_ok [OF k])
    qed
    then show ?thesis using True code same by auto
  next
    case False
    then have nev: "fd_events ?a = ?nev" by (cases "fd_events ?a = ?nev") (simp_all add: EV__IOFDSET_def)
    then have "fd \<notin> lost" using False lost by auto
    then have "assoc (backend_fd l) (ev_world l) = (assoc (backend_fd l) (ev_world l))(fd := port_bits ?nev)"
      using a nev by (simp add: fun_upd_idem)
    moreover have "?l = ?l\<lparr>ev_world := ev_world l\<rparr>" using same(1) by simp
    ultimately show ?thesis using False code by metis
  qed
qed

definition port_pending :: "(int \<Rightarrow> 'w \<Rightarrow> nat \<Rightarrow> ev_mask) \<Rightarrow> nat list \<Rightarrow> 'w ev_loop \<Rightarrow> bool" where
  "port_pending assoc chs l \<longleftrightarrow> backend_modify l = Port_modify \<and> (\<forall>fd \<in> set chs. fd < length (anfds l)) \<and>
     (\<exists>lost \<subseteq> set chs. port_synced assoc lost l) \<and>
     (\<forall>fd < length (anfds l). fd \<notin> set chs \<longrightarrow> fd_events (anfds l ! fd) = or_events l (fd_head (anfds l ! fd)))"

lemma port_reify_step:
  assumes k: "port_kernel env assoc" and P: "port_pending assoc (fd # chs) l"
  shows "\<exists>l'. fd_reify_one env fd l = Ok l' \<and> port_pending assoc chs l' \<and> fdchanges l' = fdchanges l \<and>
    backend_fd l' = backend_fd l \<and> map fd_head (anfds l') = map fd_head (anfds l) \<and> or_events l' = or_events l"
proof -
  let ?a = "anfds l ! fd" and ?nev = "or_events l (fd_head (anfds l ! fd))"
  have m: "backend_modify l = Port_modify" and fd: "fd < length (anfds l)" using P by (auto simp: port_pending_def)
  obtain lost where lost: "lost \<subseteq> set (fd # chs)" "port_synced assoc lost l" using P by (auto simp: port_pending_def)
  let ?l = "\<lambda>w. (put_anfd fd (?a\<lparr>fd_reify_flag := 0, fd_events := ?nev\<rparr>) l)\<lparr>ev_world := w\<rparr>"
  obtain w where w: "fd_reify_one env fd l = Ok (?l w)"
    "assoc (backend_fd l) w = (assoc (backend_fd l) (ev_world l))(fd := port_bits ?nev)"
    using port_reify_one [OF k m fd lost(2)] by blast
  have ev: "or_events (?l w) = or_events l" by (simp add: or_events_def put_anfd_def fun_eq_iff)
  have "port_synced assoc (lost - {fd}) (?l w)"
    using lost(2) fd by (auto simp: port_synced_def put_anfd_def w(2) nth_list_update)
  moreover have "lost - {fd} \<subseteq> set chs" using lost(1) by auto
  moreover have "fd_events (anfds (?l w) ! k) = or_events (?l w) (fd_head (anfds (?l w) ! k))"
    if "k < length (anfds (?l w))" "k \<notin> set chs" for k
    unfolding ev using that P fd by (cases "k = fd") (simp_all add: port_pending_def put_anfd_def)
  ultimately have "port_pending assoc chs (?l w)"
    using P m unfolding port_pending_def by (auto simp: put_anfd_def)
  moreover have "map fd_head (anfds (?l w)) = map fd_head (anfds l)"
    using fd by (simp add: put_anfd_def map_update list_update_same_conv)
  ultimately show ?thesis using w(1) ev by (intro exI [of _ "?l w"]) (simp add: put_anfd_def)
qed

lemma port_reify_loop:
  assumes "port_kernel env assoc" and "port_pending assoc (drop i (fdchanges l)) l" and "length (fdchanges l) \<le> i + n"
  shows "\<exists>l'. fd_reify_loop env n i l = Ok l' \<and> port_pending assoc [] l' \<and> backend_fd l' = backend_fd l \<and>
    map fd_head (anfds l') = map fd_head (anfds l) \<and> or_events l' = or_events l"
  using assms(2,3)
proof (induction n arbitrary: i l)
  case (Suc n)
  show ?case
  proof (cases "i < length (fdchanges l)")
    case True
    then have "port_pending assoc (fdchanges l ! i # drop (i + 1) (fdchanges l)) l"
      using Suc.prems(1) by (simp add: Cons_nth_drop_Suc)
    from port_reify_step [OF assms(1) this] obtain l1 where l1: "fd_reify_one env (fdchanges l ! i) l = Ok l1"
      "port_pending assoc (drop (i + 1) (fdchanges l1)) l1" "fdchanges l1 = fdchanges l" "backend_fd l1 = backend_fd l"
      "map fd_head (anfds l1) = map fd_head (anfds l)" "or_events l1 = or_events l"
      by auto
    then show ?thesis using Suc.IH [OF l1(2)] Suc.prems(2) True by simp
  qed (use Suc.prems in auto)
qed auto

lemma port_poll_ok:
  assumes "port_reports env assoc" and "backend_modify l = Port_modify" and "fds_ok l"
    and "fdchanges l = []" and "port_synced assoc {} l"
  shows "\<exists>l'. port_poll env t l = Ok l' \<and> port_pending assoc (fdchanges l') l' \<and> backend_fd l' = backend_fd l \<and>
    map fd_head (anfds l') = map fd_head (anfds l) \<and> or_events l' = or_events l \<and>
    (\<forall>fd. assoc (backend_fd l) (ev_world l') fd \<noteq> assoc (backend_fd l) (ev_world l) fd \<longrightarrow> fd \<in> set (fdchanges l'))"
proof -
  let ?A = "assoc (backend_fd l)"
  obtain err got w where g: "port_getn env (backend_fd l) (port_eventmax l) (ts_set t) (ev_world l) = ((err, got), w)"
    by (metis prod.collapse)
  define evs where "evs = (case got of Some evs \<Rightarrow> evs | None \<Rightarrow> [\<lparr>portev_source = 0, portev_object = 0, portev_events = 0\<rparr>])"
  define R where "R = (case got of Some evs \<Rightarrow> portev_object ` set evs | None \<Rightarrow> {})"
  have law: "err = 0 \<or> err = ETIME \<or> err = EINTR" "?A w = (\<lambda>fd. if fd \<in> R then 0 else ?A (ev_world l) fd)"
    "\<And>ev. got \<noteq> None \<Longrightarrow> ev \<in> set evs \<Longrightarrow> portev_source ev = PORT_SOURCE_FD \<and> ?A (ev_world l) (portev_object ev) \<noteq> 0"
    using assms(1) [unfolded port_reports_def, rule_format, where port = "backend_fd l" and n = "port_eventmax l" and t = "ts_set t" and w = "ev_world l"]
    by (auto simp: g evs_def R_def split: option.splits)
  let ?l0 = "l\<lparr>ev_world := w\<rparr>"
  have ok0: "fds_ok ?l0" using assms(3) by (simp add: fds_ok_def fds_ok_for_def io_lists_ok_def or_events_def)
  have ev0: "or_events ?l0 = or_events l" by (simp add: or_events_def fun_eq_iff)
  have known: "fd < length (anfds l)" if "?A (ev_world l) fd \<noteq> 0" for fd
    using assms(5) that by (auto simp: port_synced_def split: if_splits)
  have R: "fd < length (anfds l)" if "fd \<in> R" for fd
    using that law(3) known by (cases got) (auto simp: R_def evs_def)
  obtain l1 where l1: "port_events_loop evs ?l0 = Ok l1" "fds_ok l1" "length (anfds l1) = length (anfds l)"
    "R \<subseteq> set (fdchanges l1)" "map fd_events (anfds l1) = map fd_events (anfds l)" "map fd_head (anfds l1) = map fd_head (anfds l)"
    "\<And>k. k \<in> R \<Longrightarrow> fd_reify_flag (anfds l1 ! k) AND EV__IOFDSET \<noteq> 0"
    "backend_modify l1 = Port_modify" "backend_fd l1 = backend_fd l" "ev_world l1 = w" "or_events l1 = or_events l"
  proof (cases got)
    case None
    have "port_events_loop evs ?l0 = Ok ?l0" by (simp add: evs_def None PORT_SOURCE_FD_def)
    then show ?thesis using that [of ?l0] ok0 ev0 assms(2) None by (simp add: R_def)
  next
    case (Some es)
    then have "\<forall>ev \<in> set evs. portev_source ev = PORT_SOURCE_FD \<and> portev_object ev < length (anfds ?l0)"
      using law(3) known by auto
    from port_events_loop_ok [OF ok0 this] obtain l1 where l1: "port_events_loop evs ?l0 = Ok l1" "fds_ok l1"
      "length (anfds l1) = length (anfds ?l0)" "portev_object ` set evs \<subseteq> set (fdchanges l1)"
      "map fd_events (anfds l1) = map fd_events (anfds ?l0)" "map fd_head (anfds l1) = map fd_head (anfds ?l0)"
      "\<forall>k < length (anfds ?l0). k \<in> portev_object ` set evs \<or> fd_reify_flag (anfds ?l0 ! k) AND EV__IOFDSET \<noteq> 0 \<longrightarrow>
        fd_reify_flag (anfds l1 ! k) AND EV__IOFDSET \<noteq> 0" "set (fdchanges ?l0) \<subseteq> set (fdchanges l1)"
      "backend_modify l1 = backend_modify ?l0" "backend_fd l1 = backend_fd ?l0" "ev_world l1 = ev_world ?l0"
      "or_events l1 = or_events ?l0"
      by (elim exE conjE) (rule that)
    have "R = portev_object ` set evs" by (simp add: R_def evs_def Some)
    moreover have "fd_reify_flag (anfds l1 ! k) AND EV__IOFDSET \<noteq> 0" if "k \<in> R" for k
      using l1(7) that R [OF that] calculation by simp
    moreover have "backend_modify l1 = Port_modify" using l1(9) assms(2) by simp
    moreover have "or_events l1 = or_events l" using l1(12) ev0 by simp
    moreover have "length (anfds l1) = length (anfds l)" "map fd_events (anfds l1) = map fd_events (anfds l)"
      "map fd_head (anfds l1) = map fd_head (anfds l)" "backend_fd l1 = backend_fd l" "ev_world l1 = w"
      using l1(3,5,6,10,11) by simp_all
    moreover have "R \<subseteq> set (fdchanges l1)" using l1(4) calculation(1) by blast
    ultimately show ?thesis using that [of l1] l1(1,2) by blast
  qed
  define l2 where "l2 = (if length evs = port_eventmax l1
    then l1\<lparr>port_eventmax := nat (array_nextsize 24 (int (port_eventmax l1)) (int (port_eventmax l1) + 1))\<rparr> else l1)"
  have l2: "anfds l2 = anfds l1" "fdchanges l2 = fdchanges l1" "backend_modify l2 = Port_modify" "backend_fd l2 = backend_fd l"
    "ev_world l2 = w" "watchers l2 = watchers l1"
    using l1 by (simp_all add: l2_def)
  have ev2: "or_events l2 = or_events l" using l1(11) l2(6) by (simp add: or_events_def fun_eq_iff)
  have "fds_ok l2" using l1(2) l2 by (simp add: fds_ok_def fds_ok_for_def io_lists_ok_def or_events_def)
  have poll: "port_poll env t l = Ok l2"
    using law(1) l1(1) by (simp add: port_poll_def g Let_def evs_def [symmetric] l2_def)
  have events: "fd_events (anfds l2 ! fd) = fd_events (anfds l ! fd)" "fd_head (anfds l2 ! fd) = fd_head (anfds l ! fd)"
    if "fd < length (anfds l)" for fd
    using that l1(3,5,6) l2(1) by (metis nth_map)+
  have "port_synced assoc R l2"
    using assms(5) law(2) R l1(3,7) events(1) by (auto simp: port_synced_def l2)
  moreover have "fd < length (anfds l2)" if "fd \<in> set (fdchanges l2)" for fd
    using \<open>fds_ok l2\<close> that by (auto simp: fds_ok_def fds_ok_for_def)
  moreover have "fd_events (anfds l2 ! fd) = or_events l2 (fd_head (anfds l2 ! fd))"
    if "fd < length (anfds l2)" "fd \<notin> set (fdchanges l2)" for fd
    using \<open>fds_ok l2\<close> that by (auto simp: fds_ok_def fds_ok_for_def)
  ultimately have "port_pending assoc (fdchanges l2) l2"
    unfolding port_pending_def using l1(4) l2(2,3) by auto
  moreover have "fd \<in> set (fdchanges l2)" if "?A (ev_world l2) fd \<noteq> ?A (ev_world l) fd" for fd
    using that law(2) l1(4) l2(2,5) by (auto split: if_splits)
  ultimately show ?thesis using poll l2(1,4) l1(3,6) ev2 by (intro exI [of _ l2]) (metis length_map)
qed

lemma port_reify_ok:
  assumes "port_kernel env assoc" and "port_pending assoc (fdchanges l) l"
  shows "\<exists>l'. fd_reify env l = Ok l' \<and> fdchanges l' = [] \<and> (\<forall>fd. assoc (backend_fd l) (ev_world l') fd =
    (if fd < length (anfds l) then port_bits (or_events l (fd_head (anfds l ! fd))) else 0))"
proof -
  have "port_pending assoc (drop 0 (fdchanges l)) l" using assms(2) by simp
  from port_reify_loop [OF assms(1) this, of "2 * length (fdchanges l)"] obtain l' where
    l': "fd_reify_loop env (2 * length (fdchanges l)) 0 l = Ok l'" "port_pending assoc [] l'" "backend_fd l' = backend_fd l"
    "map fd_head (anfds l') = map fd_head (anfds l)" "or_events l' = or_events l"
    by auto
  have len: "length (anfds l') = length (anfds l)" using l'(4) by (metis length_map)
  have heads: "fd_head (anfds l' ! fd) = fd_head (anfds l ! fd)" if "fd < length (anfds l)" for fd
    using that len l'(4) by (metis nth_map)
  have sync: "port_synced assoc {} l'" using l'(2) by (simp add: port_pending_def)
  have "assoc (backend_fd l) (ev_world l') fd =
      (if fd < length (anfds l) then port_bits (or_events l (fd_head (anfds l ! fd))) else 0)" for fd
    using spec [OF conjunct1 [OF sync [unfolded port_synced_def]], of fd] l'(2,3,5) len heads
    by (simp add: port_pending_def split: if_splits)
  then show ?thesis using l'(1) by (simp add: fd_reify_def)
qed

text \<open>
  C11. A port forgets every descriptor that it reports. A loop that has told its port
  everything polls it without a fault, every descriptor that the port has then forgotten is noted
  as changed, and passing the changes on makes the port wait again for exactly what the active
  watchers of every descriptor ask for, whatever it reported and whether or not their events changed.
\<close>

theorem port_poll_rearms:
  assumes "port_kernel env assoc" and "port_reports env assoc" and "backend_modify l = Port_modify" and "fds_ok l"
    and "fdchanges l = []" and "port_synced assoc {} l"
  shows "\<exists>l1 l2. port_poll env t l = Ok l1 \<and>
    (\<forall>fd. assoc (backend_fd l) (ev_world l1) fd \<noteq> assoc (backend_fd l) (ev_world l) fd \<longrightarrow> fd \<in> set (fdchanges l1)) \<and>
    fd_reify env l1 = Ok l2 \<and> fdchanges l2 = [] \<and>
    (\<forall>fd. assoc (backend_fd l) (ev_world l2) fd =
      (if fd < length (anfds l) then port_bits (or_events l (fd_head (anfds l ! fd))) else 0))"
proof -
  obtain l1 where l1: "port_poll env t l = Ok l1" "port_pending assoc (fdchanges l1) l1" "backend_fd l1 = backend_fd l"
    "map fd_head (anfds l1) = map fd_head (anfds l)" "or_events l1 = or_events l"
    "\<forall>fd. assoc (backend_fd l) (ev_world l1) fd \<noteq> assoc (backend_fd l) (ev_world l) fd \<longrightarrow> fd \<in> set (fdchanges l1)"
    using port_poll_ok [OF assms(2-6)] by blast
  obtain l2 where l2: "fd_reify env l1 = Ok l2" "fdchanges l2 = []" "\<forall>fd. assoc (backend_fd l1) (ev_world l2) fd =
      (if fd < length (anfds l1) then port_bits (or_events l1 (fd_head (anfds l1 ! fd))) else 0)"
    using port_reify_ok [OF assms(1) l1(2)] by blast
  have len: "length (anfds l1) = length (anfds l)" using l1(4) by (metis length_map)
  have "fd_head (anfds l1 ! fd) = fd_head (anfds l ! fd)" if "fd < length (anfds l)" for fd
    using that len l1(4) by (metis nth_map)
  then have "\<forall>fd. assoc (backend_fd l) (ev_world l2) fd =
      (if fd < length (anfds l) then port_bits (or_events l (fd_head (anfds l ! fd))) else 0)"
    using l2(3) l1(3,5) len by simp
  then show ?thesis using l1(1,6) l2(1,2) by blast
qed

text \<open>A kernel whose ports keep their associations in the world and report all of them.\<close>

type_synonym port_lists = "int \<Rightarrow> nat \<Rightarrow> ev_mask"

definition port_env :: "nat \<Rightarrow> port_lists ev_env" where
  "port_env n = quiet_env\<lparr>port_associate := (\<lambda>port fd ev w. (0, w(port := (w port)(fd := ev)))),
     port_dissociate := (\<lambda>port fd w. w(port := (w port)(fd := 0))),
     port_getn := (\<lambda>port _ _ w.
       let fds = filter (\<lambda>fd. w port fd \<noteq> 0) [0..<n]
       in ((0, Some (map (\<lambda>fd. \<lparr>portev_source = PORT_SOURCE_FD, portev_object = fd, portev_events = w port fd\<rparr>) fds)),
           w(port := (\<lambda>fd. if fd \<in> set fds then 0 else w port fd))))\<rparr>"

definition port_loop :: "port_lists ev_loop" where
  "port_loop = (zero_loop ((\<lambda>_. user_watcher)(7 := user_watcher\<lparr>w_active := 1, w_fd := 0, w_events := EV_READ\<rparr>))
       (\<lambda>port fd. if fd = 0 then POLLIN else 0))
     \<lparr>backend_modify := Port_modify, backend_poll := Port_poll, backend_fd := 5, activecnt := 1, port_eventmax := 64,
      anfds := [\<lparr>fd_head = [7], fd_events = EV_READ, fd_reify_flag = 0, fd_emask = 0, fd_egen = 0\<rparr>]\<rparr>"

theorem port_poll_rearms_witness:
  "\<exists>l1 l2. port_poll (port_env 9) 1 port_loop = Ok l1 \<and> fd_reify (port_env 9) l1 = Ok l2 \<and> ev_world l2 5 0 = POLLIN"
proof -
  have laws: "port_kernel (port_env 9) (\<lambda>port w. w port)" "port_reports (port_env 9) (\<lambda>port w. w port)"
    by (simp_all add: port_kernel_def port_reports_def port_env_def Let_def fun_eq_iff image_image)
  have f: "length (anfds port_loop) = 1" "fd_head (anfds port_loop ! 0) = [7]" "fd_events (anfds port_loop ! 0) = EV_READ"
    "watchers port_loop 7 = user_watcher\<lparr>w_active := 1, w_fd := 0, w_events := EV_READ\<rparr>"
    "fd_reify_flag (anfds port_loop ! 0) = 0" "backend_fd port_loop = 5" "backend_modify port_loop = Port_modify"
    "fdchanges port_loop = []" "ev_world port_loop 5 = (\<lambda>fd. if fd = 0 then POLLIN else 0)"
    by (simp_all add: port_loop_def zero_loop_def)
  have or7: "or_events port_loop [7] = EV_READ" by (simp add: or_events_def f(4) ev_mask_defs)
  have "port_bits EV_READ = POLLIN" by (simp add: port_bits_def ev_mask_defs)
  then have "fds_ok port_loop" "port_synced (\<lambda>port w. w port) {} port_loop"
    by (auto simp: fds_ok_def fds_ok_for_def io_lists_ok_def port_synced_def f or7 rw_mask_cases)
  from port_poll_rearms [OF laws f(7) this(1) f(8) this(2), of 1] obtain l1 l2 where
    l: "port_poll (port_env 9) 1 port_loop = Ok l1" "fd_reify (port_env 9) l1 = Ok l2"
    "\<forall>fd. ev_world l2 5 fd = (if fd < 1 then port_bits (or_events port_loop (fd_head (anfds port_loop ! fd))) else 0)"
    unfolding f by blast
  have "ev_world l2 5 0 = POLLIN" using l(3) f(2) or7 \<open>port_bits EV_READ = POLLIN\<close> by simp
  then show ?thesis using l(1,2) by blast
qed

end
