(* ===== verification/Ev_Attr.thy ===== *)
theory Ev_Attr
  imports Ev_Props
begin

unbundle bit_operations_syntax

text \<open>
  Properties of the watchers of path attributes: the accounting of references of a watcher that
  owns a timer and a watch of the kernel, and what it reports.
\<close>

section \<open>Frames\<close>

text \<open>What the timers leave alone.\<close>

definition stat_part :: "'w ev_loop \<Rightarrow> int \<times> bool \<times> (nat \<Rightarrow> addr list) \<times> 'w" where
  "stat_part l = (fs_fd l, fs_2625 l, fs_hash l, ev_world l)"

lemma timer_start_frame:
  assumes "ev_timer_start t l = Ok l'" and "\<not> ev_is_active t l"
  shows "stat_part l' = stat_part l \<and> activecnt l' = activecnt l + 1 \<and> ev_world l' = ev_world l"
  using assms
  by (auto simp: ev_timer_start_def Let_def put_timers_def ev_start_def ev_ref_def pri_adjust_def upd_watcher_def stat_part_def
      obind_eq_Ok split: prod.splits)

lemma set_active_repeat: "w_repeat (set_active a k ws x) = w_repeat (ws x)"
  by (simp add: set_active_def)

lemma upheap_repeat: "w_repeat (snd (upheap_loop he heap ws k) x) = w_repeat (ws x)"
proof (induction he heap ws k rule: upheap_loop.induct)
  case (1 he heap ws k)
  show ?case
  proof (cases "HPARENT k = k \<or> he_at (heap (HPARENT k)) \<le> he_at he")
    case True
    then show ?thesis by (subst upheap_loop.simps) (auto simp: Let_def set_active_def)
  next
    case False
    then have code: "upheap_loop he heap ws k =
        upheap_loop he (heap(k := heap (HPARENT k))) (set_active (he_w (heap (HPARENT k))) k ws) (HPARENT k)"
      by (subst upheap_loop.simps) (auto simp: Let_def)
    show ?thesis unfolding code 1 [OF refl False] by (rule set_active_repeat)
  qed
qed

lemma put_timers_repeat: "w_repeat (watchers (put_timers r l) x) = w_repeat (snd r x)"
  by (simp add: put_timers_def split: prod.split)

lemma timer_start_repeat: "ev_timer_start t l = Ok l' \<Longrightarrow> w_repeat (watchers l' x) = w_repeat (watchers l x)"
  by (auto simp: ev_timer_start_def Let_def upheap_def put_timers_repeat upheap_repeat ev_start_def ev_ref_def pri_adjust_def
      obind_eq_Ok upd_watcher_def split: if_splits)

lemma timer_stop_frame:
  assumes "ev_timer_stop t l = Ok l'" and "ev_is_active t l"
  shows "stat_part l' = stat_part l \<and> activecnt l' = activecnt l - 1"
  using assms
  by (auto simp: ev_timer_stop_def Let_def put_timers_def ev_stop_def ev_unref_def clear_pending_def upd_watcher_def stat_part_def
      obind_eq_Ok ev_is_active_def split: if_splits prod.splits)

lemma stat_part_upds [simp]:
  "stat_part (upd_watcher w f l) = stat_part l" "stat_part (ev_ref l) = stat_part l" "stat_part (ev_unref l) = stat_part l"
  "stat_part (ev_start w n l) = stat_part l" "stat_part (ev_stop w l) = stat_part l" "stat_part (clear_pending w l) = stat_part l"
  by (simp_all add: stat_part_def upd_watcher_def ev_ref_def ev_unref_def ev_start_def ev_stop_def pri_adjust_def clear_pending_def
      Let_def)

lemma loop_ok_activecnt: "loop_ok K (l\<lparr>activecnt := n\<rparr>) = loop_ok K l"
  by (simp add: loop_ok_def loop_typed_def pending_ok_def fds_ok_def fds_ok_for_def io_lists_ok_def or_events_def)

lemma loop_ok_refs [simp]: "loop_ok K (ev_ref l) = loop_ok K l" "loop_ok K (ev_unref l) = loop_ok K l"
  by (simp_all add: ev_ref_def ev_unref_def loop_ok_activecnt)

lemma loop_ok_world [simp]:
  "loop_ok K (l\<lparr>ev_world := w\<rparr>) = loop_ok K l" "loop_ok K (l\<lparr>fs_hash := h\<rparr>) = loop_ok K l"
  by (simp_all add: loop_ok_def loop_typed_def pending_ok_def fds_ok_def fds_ok_for_def io_lists_ok_def or_events_def)

lemma ref_fields [simp]:
  "watchers (ev_ref l) = watchers l" "watchers (ev_unref l) = watchers l" "pendings (ev_unref l) = pendings l"
  "activecnt (ev_ref l) = activecnt l + 1" "activecnt (ev_unref l) = activecnt l - 1" "pendings (ev_ref l) = pendings l"
  "timer_entries (ev_ref l) = timer_entries l" "timer_entries (ev_unref l) = timer_entries l"
  "fs_hash (ev_ref l) = fs_hash l"
  by (simp_all add: ev_ref_def ev_unref_def timer_entries_def)

section \<open>A timer that does not count\<close>

text \<open>
  Re-arming a timer that does not run: it runs afterwards unless its interval is 0, and either way
  the count of active watchers is as before.
\<close>

lemma stat_rearm_idle:
  assumes ok: "loop_ok K l" and K: "K (stat_timer w) = Timer_watcher" and idle: "\<not> is_waiting (stat_timer w) l"
    and rep: "0 \<le> w_repeat (watchers l (stat_timer w))"
  shows "\<exists>l'. stat_rearm w l = Ok l' \<and> loop_ok K l' \<and> stat_part l' = stat_part l \<and> activecnt l' = activecnt l \<and>
    ev_is_active (stat_timer w) l' = (w_repeat (watchers l (stat_timer w)) \<noteq> 0) \<and>
    he_w ` timer_entries l' = (if w_repeat (watchers l (stat_timer w)) = 0 then {} else {stat_timer w}) \<union> he_w ` timer_entries l \<and>
    w_pending (watchers l' (stat_timer w)) = 0 \<and> pendings l' = pendings l \<and>
    (\<forall>x. K x \<noteq> Timer_watcher \<longrightarrow> watchers l' x = watchers l x) \<and>
    w_repeat (watchers l' (stat_timer w)) = w_repeat (watchers l (stat_timer w))"
proof -
  let ?t = "stat_timer w"
  have i: "\<not> ev_is_active ?t l" "w_pending (watchers l ?t) = 0" using idle by (simp_all add: is_waiting_def)
  have clear: "clear_pending ?t l = l" by (rule clear_pending_idle [OF i(2)])
  show ?thesis
  proof (cases "w_repeat (watchers l ?t) = 0")
    case True
    then have "stat_rearm w l = Ok l" using i clear by (simp add: stat_rearm_def Let_def ev_timer_again_def)
    then show ?thesis using ok i True by auto
  next
    case False
    let ?l = "upd_watcher ?t (\<lambda>x. x\<lparr>w_at := w_repeat (watchers l ?t)\<rparr>) l"
    have ok1: "loop_ok K ?l" by (rule loop_ok_set_up [OF ok i]) simp_all
    have "\<not> ev_is_active ?t ?l" "0 \<le> w_repeat (watchers ?l ?t)" "w_pending (watchers ?l ?t) = 0"
      using i rep by (simp_all add: ev_is_active_def)
    note s = this timer_start_loop_ok [OF ok1 K this]
    obtain l' where l': "ev_timer_start ?t ?l = Ok l'" "loop_ok K l'" "ev_is_active ?t l'"
      "timer_entries l' = insert \<lparr>he_at = w_at (watchers ?l ?t) + mn_now ?l, he_w = ?t\<rparr> (timer_entries ?l)"
      "\<forall>x. x \<noteq> ?t \<and> K x \<noteq> Timer_watcher \<longrightarrow> watchers l' x = watchers ?l x" "pendings l' = pendings ?l"
      "\<forall>x. w_pending (watchers l' x) = w_pending (watchers ?l x)"
      using s(4) by blast
    note f = timer_start_frame [OF l'(1) s(1)] timer_start_repeat [OF l'(1), of ?t]
    have "ev_timer_again ?t l = Ok l'" using i(1) False clear l'(1) by (simp add: ev_timer_again_def Let_def)
    then have "stat_rearm w l = Ok (ev_unref l')" using i(1) l'(3) by (simp add: stat_rearm_def Let_def)
    moreover have "timer_entries ?l = timer_entries l" by (simp add: timer_entries_def)
    moreover have "watchers l' x = watchers l x" if "K x \<noteq> Timer_watcher" for x
      using l'(5) that K by (cases "x = stat_timer w") auto
    ultimately show ?thesis
      using l'(2-4,6,7) f i(2) False by (intro exI [of _ "ev_unref l'"]) (simp add: ev_is_active_def)
  qed
qed

text \<open>Looking for a directory to watch only makes system calls.\<close>

lemma infy_parents_world: "\<exists>wd' w'. infy_parents env path wd err l = (wd', l\<lparr>ev_world := w'\<rparr>)"
proof (induction env path wd err l rule: infy_parents.induct)
  case (1 env path wd err l)
  show ?case
  proof (cases "parent_dir path")
    case None
    then show ?thesis by (subst infy_parents.simps) (auto intro: exI [of _ "ev_world l"])
  next
    case (Some dir)
    define m where "m = IN_MASK_ADD OR IN_DELETE_SELF OR IN_MOVE_SELF OR
      (if err = EACCES then IN_ATTRIB else IN_CREATE OR IN_MOVED_TO)"
    obtain wd1 err1 w1 where "inotify_add_watch env (fs_fd l) dir m (ev_world l) = ((wd1, err1), w1)"
      by (metis prod.collapse)
    then have a: "call_add_watch env dir m l = (wd1, err1, l\<lparr>ev_world := w1\<rparr>)"
      by (simp add: call_add_watch_def)
    have code: "infy_parents env path wd err l =
      (if wd1 < 0 \<and> (err1 = ENOENT \<or> err1 = EACCES) then infy_parents env dir wd1 err1 (l\<lparr>ev_world := w1\<rparr>)
       else (wd1, l\<lparr>ev_world := w1\<rparr>))"
      by (subst infy_parents.simps) (simp add: Some a m_def [symmetric] Let_def)
    show ?thesis
    proof (cases "wd1 < 0 \<and> (err1 = ENOENT \<or> err1 = EACCES)")
      case True
      then obtain wd' w' where "infy_parents env dir wd1 err1 (l\<lparr>ev_world := w1\<rparr>) = (wd', l\<lparr>ev_world := w1\<rparr>\<lparr>ev_world := w'\<rparr>)"
        using 1 [OF Some refl a [unfolded m_def, symmetric] refl] by blast
      then show ?thesis unfolding code using True by auto
    next
      case False
      then have "infy_parents env path wd err l = (wd1, l\<lparr>ev_world := w1\<rparr>)" unfolding code by (rule if_not_P)
      then show ?thesis by blast
    qed
  qed
qed


section \<open>Starting to watch a path\<close>

lemma loop_ok_stat_upd:
  assumes ok: "loop_ok K l" and K: "K w = Stat_watcher" and f: "\<And>x. w_pending (f x) = w_pending x"
    and pri: "(\<forall>x. w_priority (f x) = w_priority x) \<or> w_pending (watchers l w) = 0"
  shows "loop_ok K (upd_watcher w f l)"
proof (rule loop_ok_change [where k = Stat_watcher, OF ok])
  show "same_but Stat_watcher (upd_watcher w f l) l" by (simp add: same_but_def upd_watcher_def)
  show "pending_ok (upd_watcher w f l)" by (rule pending_ok_upd [OF loop_okD(3) [OF ok] f pri])
  show "agree_on {x. K x \<noteq> Stat_watcher} (watchers l) (watchers (upd_watcher w f l))"
    using K by (intro agree_onI) auto
qed (simp_all add: loop_part_def)

definition hash_add :: "addr \<Rightarrow> int \<Rightarrow> (nat \<Rightarrow> addr list) \<Rightarrow> nat \<Rightarrow> addr list" where
  "hash_add w wd h = (if wd \<ge> 0 then h(wd_slot wd := w # h (wd_slot wd)) else h)"

text \<open>All that \<open>infy_add\<close> does before it re-arms the timer.\<close>

lemma infy_add_prepares:
  assumes "0 \<le> w_interval (watchers l w)"
  shows "\<exists>wd rep world. infy_add env w l = stat_rearm w
    (upd_watcher w (\<lambda>x. x\<lparr>w_wd := wd\<rparr>) (set_repeat w rep l)\<lparr>ev_world := world, fs_hash := hash_add w wd (fs_hash l)\<rparr>) \<and> 0 \<le> rep"
proof -
  define m where "m = IN_ATTRIB OR IN_DELETE_SELF OR IN_MOVE_SELF OR IN_MODIFY OR IN_DONT_FOLLOW OR IN_MASK_ADD"
  obtain wd err w1 where "inotify_add_watch env (fs_fd l) (w_path (watchers l w)) m (ev_world l) = ((wd, err), w1)"
    by (metis prod.collapse)
  then have a: "call_add_watch env (w_path (watchers l w)) m l = (wd, err, l\<lparr>ev_world := w1\<rparr>)"
    by (simp add: call_add_watch_def)
  have pos: "0 \<le> interval_or DEF_STAT_INTERVAL w l1" "0 \<le> interval_or NFS_STAT_INTERVAL w l1"
    if "watchers l1 w = watchers l w" for l1
    using assms that by (simp_all add: interval_or_def DEF_STAT_INTERVAL_def NFS_STAT_INTERVAL_def)
  define l1 where "l1 = l\<lparr>ev_world := w1\<rparr>"
  define rep where "rep = (if wd \<ge> 0 then watched_interval env w l1 else interval_or DEF_STAT_INTERVAL w l1)"
  have rep: "0 \<le> rep"
    using pos [of l1] by (auto simp: rep_def watched_interval_def l1_def split: option.split)
  define l2 where "l2 = set_repeat w rep l1"
  have hash: "fs_hash l2 = fs_hash l" "ev_world l2 = w1" by (simp_all add: l2_def l1_def set_repeat_def upd_watcher_def)
  let ?go = "(err = ENOENT \<or> err = EACCES) \<and> length (w_path (watchers l w)) < 4096"
  obtain wd' w' where p: "(if wd \<ge> 0 then (wd, set_repeat w (watched_interval env w l1) l1)
      else let l = set_repeat w (interval_or DEF_STAT_INTERVAL w l1) l1
           in if ?go then infy_parents env (w_path (watchers l1 w)) wd err l else (wd, l)) = (wd', l2\<lparr>ev_world := w'\<rparr>)"
  proof (cases "wd < 0 \<and> ?go")
    case True
    obtain wd' w' where "infy_parents env (w_path (watchers l1 w)) wd err l2 = (wd', l2\<lparr>ev_world := w'\<rparr>)"
      using infy_parents_world [of env "w_path (watchers l1 w)" wd err l2] by blast
    then show ?thesis using True that by (simp add: l2_def rep_def)
  next
    case False
    then show ?thesis by (intro that [of wd "ev_world l2"]) (auto simp: l2_def rep_def)
  qed
  have w1: "watchers l1 w = watchers l w" by (simp add: l1_def)
  define l3 where "l3 = upd_watcher w (\<lambda>x. x\<lparr>w_wd := wd'\<rparr>) (l2\<lparr>ev_world := w'\<rparr>)"
  have h3: "fs_hash l3 = fs_hash l" using hash(1) by (simp add: l3_def upd_watcher_def)
  then have same: "l3\<lparr>fs_hash := fs_hash l\<rparr> = l3" by (cases l3) simp
  have "infy_add env w l = stat_rearm w (if wd' \<ge> 0
      then l3\<lparr>fs_hash := (fs_hash l3)(wd_slot wd' := wlist_add (fs_hash l3 (wd_slot wd')) w)\<rparr> else l3)"
    using p [unfolded w1] by (simp add: infy_add_def m_def [symmetric] a l1_def [symmetric] Let_def l3_def)
  then have code: "infy_add env w l = stat_rearm w (l3\<lparr>fs_hash := hash_add w wd' (fs_hash l)\<rparr>)"
    by (cases "wd' \<ge> 0") (simp_all only: hash_add_def wlist_add_def h3 same if_True if_False)
  have "upd_watcher w (\<lambda>x. x\<lparr>w_wd := wd'\<rparr>) (l2\<lparr>ev_world := w'\<rparr>)\<lparr>fs_hash := hash_add w wd' (fs_hash l)\<rparr> =
      upd_watcher w (\<lambda>x. x\<lparr>w_wd := wd'\<rparr>) (set_repeat w rep l)\<lparr>ev_world := w', fs_hash := hash_add w wd' (fs_hash l)\<rparr>"
    by (simp add: l2_def l1_def set_repeat_def upd_watcher_def)
  then show ?thesis using rep code unfolding l3_def by metis
qed


definition timer_waits :: "addr \<Rightarrow> 'w ev_loop \<Rightarrow> 'w ev_loop \<Rightarrow> bool" where
  "timer_waits t l l' \<longleftrightarrow> ev_is_active t l' = (w_repeat (watchers l' t) \<noteq> 0) \<and> w_pending (watchers l' t) = 0 \<and>
     he_w ` timer_entries l' = (if w_repeat (watchers l' t) = 0 then {} else {t}) \<union> he_w ` timer_entries l"

lemma infy_add_ok:
  assumes ok: "loop_ok K l" and K: "K w = Stat_watcher" "K (stat_timer w) = Timer_watcher"
    and idle: "\<not> is_waiting (stat_timer w) l" and int: "0 \<le> w_interval (watchers l w)"
  shows "\<exists>wd l'. infy_add env w l = Ok l' \<and> loop_ok K l' \<and> fs_fd l' = fs_fd l \<and> fs_hash l' = hash_add w wd (fs_hash l) \<and>
    activecnt l' = activecnt l \<and> timer_waits (stat_timer w) l l' \<and> watchers l' w = (watchers l w)\<lparr>w_wd := wd\<rparr> \<and>
    pendings l' = pendings l"
proof -
  let ?t = "stat_timer w"
  have ne: "w \<noteq> ?t" by (simp add: stat_timer_def)
  obtain wd rep world where code: "infy_add env w l = stat_rearm w
      (upd_watcher w (\<lambda>x. x\<lparr>w_wd := wd\<rparr>) (set_repeat w rep l)\<lparr>ev_world := world, fs_hash := hash_add w wd (fs_hash l)\<rparr>)"
    and rep: "0 \<le> rep"
    using infy_add_prepares [OF int] by blast
  define l1 where "l1 = upd_watcher w (\<lambda>x. x\<lparr>w_wd := wd\<rparr>) (set_repeat w rep l)\<lparr>ev_world := world, fs_hash := hash_add w wd (fs_hash l)\<rparr>"
  have "loop_ok K (set_repeat w rep l)" unfolding set_repeat_def
    using idle by (intro loop_ok_set_up [OF ok]) (simp_all add: is_waiting_def)
  then have ok1: "loop_ok K l1" by (simp add: l1_def loop_ok_stat_upd K(1) del: upd_watcher_fields)
  have l1: "w_repeat (watchers l1 ?t) = rep" "\<not> is_waiting ?t l1" "watchers l1 w = (watchers l w)\<lparr>w_wd := wd\<rparr>"
    "activecnt l1 = activecnt l" "pendings l1 = pendings l" "timer_entries l1 = timer_entries l" "fs_fd l1 = fs_fd l"
    "fs_hash l1 = hash_add w wd (fs_hash l)"
    using ne idle by (simp_all add: l1_def set_repeat_def is_waiting_def ev_is_active_def timer_entries_def) (simp_all add: upd_watcher_def)
  obtain l' where l': "stat_rearm w l1 = Ok l'" "loop_ok K l'" "stat_part l' = stat_part l1" "activecnt l' = activecnt l1"
    "ev_is_active ?t l' = (rep \<noteq> 0)" "he_w ` timer_entries l' = (if rep = 0 then {} else {?t}) \<union> he_w ` timer_entries l1"
    "w_pending (watchers l' ?t) = 0" "pendings l' = pendings l1" "\<forall>x. K x \<noteq> Timer_watcher \<longrightarrow> watchers l' x = watchers l1 x"
    "w_repeat (watchers l' ?t) = rep"
    using stat_rearm_idle [OF ok1 K(2) l1(2)] rep unfolding l1(1) by blast
  have "infy_add env w l = Ok l'" using code l'(1) by (simp add: l1_def)
  moreover have "timer_waits ?t l l'" using l' l1(6) by (simp add: timer_waits_def)
  moreover have "watchers l' w = (watchers l w)\<lparr>w_wd := wd\<rparr>" using l'(9) K(1) l1(3) by simp
  ultimately show ?thesis using l'(2-4,8) l1(4,5,7,8) by (auto simp: stat_part_def)
qed


text \<open>The first use of the kernel's watches takes a descriptor for them, which does not count either.\<close>

lemma fd_change_frame:
  assumes "fd_change fd fl l = Ok l'"
  shows "stat_part l' = stat_part l \<and> activecnt l' = activecnt l \<and> timer_entries l' = timer_entries l"
proof -
  obtain a where "anfd_at fd l = Ok a" using assms by (auto simp: fd_change_def obind_eq_Ok)
  then show ?thesis using assms
    by (cases "fd_reify_flag a = 0") (auto simp: fd_change_def Let_def put_anfd_def stat_part_def timer_entries_def)
qed

lemma io_start_frame:
  assumes "ev_io_start x l = Ok l'" and "\<not> ev_is_active x l"
  shows "stat_part l' = stat_part l \<and> activecnt l' = activecnt l + 1 \<and> timer_entries l' = timer_entries l"
proof -
  let ?l = "anfds_needsize (nat (w_fd (watchers l x)) + 1) (ev_start x 1 l)"
  obtain a l1 where l1: "l' = upd_watcher x (\<lambda>x. x\<lparr>w_events := w_events x AND NOT EV__IOFDSET\<rparr>) l1"
    "fd_change (nat (w_fd (watchers l x))) (w_events (watchers l x) AND EV__IOFDSET OR EV_ANFD_REIFY)
      (put_anfd (nat (w_fd (watchers l x))) (a\<lparr>fd_head := wlist_add (fd_head a) x\<rparr>) ?l) = Ok l1"
    using assms by (auto simp: ev_io_start_def Let_def obind_eq_Ok)
  have "stat_part (put_anfd n b ?l) = stat_part l \<and> activecnt (put_anfd n b ?l) = activecnt l + 1 \<and>
      timer_entries (put_anfd n b ?l) = timer_entries l" for n b
    by (simp add: put_anfd_def anfds_needsize_def ev_start_def ev_ref_def pri_adjust_def Let_def upd_watcher_def stat_part_def
        timer_entries_def)
  moreover have "activecnt l' = activecnt l1" "timer_entries l' = timer_entries l1" "stat_part l' = stat_part l1"
    by (simp_all add: l1(1) timer_entries_def)
  ultimately show ?thesis using fd_change_frame [OF l1(2)] by simp
qed

lemma infy_init_ok:
  assumes ok: "loop_ok K l" and fs: "fs_fd l = -2 \<Longrightarrow> K fs_w = Io_watcher \<and> \<not> is_waiting fs_w l"
  shows "\<exists>l'. infy_init env l = Ok l' \<and> loop_ok K l' \<and> activecnt l' = activecnt l \<and> fs_hash l' = fs_hash l \<and>
    timer_entries l' = timer_entries l \<and> pendings l' = pendings l \<and>
    (\<forall>x. K x \<noteq> Io_watcher \<longrightarrow> watchers l' x = watchers l x)"
proof (cases "fs_fd l = -2")
  case True
  note fs = fs [OF True]
  obtain fd w1 where fd: "infy_newfd env (ev_world (ev_check_2625 env (l\<lparr>fs_fd := -1\<rparr>))) = (fd, w1)" by fastforce
  define l1 where "l1 = ev_check_2625 env (l\<lparr>fs_fd := -1\<rparr>)\<lparr>fs_fd := fd, ev_world := w1\<rparr>"
  have l1: "watchers l1 = watchers l" "activecnt l1 = activecnt l" "fs_hash l1 = fs_hash l" "pendings l1 = pendings l"
    "timer_entries l1 = timer_entries l" "fs_fd l1 = fd" and ok1: "loop_ok K l1"
    using ok by (simp_all add: l1_def ev_check_2625_def timer_entries_def loop_ok_def loop_typed_def pending_ok_def fds_ok_def
        fds_ok_for_def io_lists_ok_def or_events_def)
  define l2 where "l2 = upd_watcher fs_w (\<lambda>x. (ev_io_set fd EV_READ (ev_init Infy_cb x))\<lparr>w_priority := EV_MAXPRI\<rparr>) l1"
  have code: "infy_init env l = (if fd \<ge> 0 then obind (ev_io_start fs_w l2) (\<lambda>l. Ok (ev_unref l)) else Ok l1)"
    using True by (simp add: infy_init_def Let_def fd l1_def l2_def)
  show ?thesis
  proof (cases "fd \<ge> 0")
    case False
    then show ?thesis using code l1 ok1 by simp
  next
    case fd: True
    define l0 where "l0 = upd_watcher fs_w (ev_init Infy_cb) l1"
    have idle1: "\<not> is_waiting fs_w l1" using fs l1(1) by (simp add: is_waiting_def ev_is_active_def)
    have ok0: "loop_ok K l0" unfolding l0_def by (rule loop_ok_init [OF ok1 idle1])
    have "l2 = upd_watcher fs_w (\<lambda>x. (ev_io_set fd EV_READ x)\<lparr>w_priority := EV_MAXPRI\<rparr>) l0"
      by (simp add: l2_def l0_def upd_watcher_def)
    moreover have "\<not> ev_is_active fs_w l0" "w_pending (watchers l0 fs_w) = 0"
      by (simp_all add: l0_def ev_init_def ev_is_active_def)
    ultimately have ok2: "loop_ok K l2" using loop_ok_set_up [OF ok0] by (simp add: ev_io_set_def)
    have "\<not> ev_is_active fs_w l2" "0 \<le> w_fd (watchers l2 fs_w)" "w_pending (watchers l2 fs_w) = 0"
      "w_events (watchers l2 fs_w) AND NOT (EV__IOFDSET OR EV_READ OR EV_WRITE) = 0"
      using fd by (simp_all add: l2_def ev_init_def ev_io_set_def ev_is_active_def EV_READ_def EV_WRITE_def EV__IOFDSET_def)
    note pre = this
    obtain l' where l': "ev_io_start fs_w l2 = Ok l'" "loop_ok K l'" "\<forall>x. x \<noteq> fs_w \<longrightarrow> watchers l' x = watchers l2 x"
      "pendings l' = pendings l2"
      using io_start_loop_ok [OF ok2 conjunct1 [OF fs] pre(1,2,4,3)] by blast
    note f = io_start_frame [OF l'(1) pre(1)]
    have l2: "activecnt l2 = activecnt l" "fs_hash l2 = fs_hash l" "timer_entries l2 = timer_entries l" "pendings l2 = pendings l"
      using l1 by (simp_all add: l2_def timer_entries_def) (simp_all add: upd_watcher_def)
    have "watchers l' x = watchers l x" if "K x \<noteq> Io_watcher" for x
      using l'(3) that fs l1(1) by (cases "x = fs_w") (auto simp: l2_def)
    then show ?thesis using code fd l' f l2
      by (intro exI [of _ "ev_unref l'"]) (auto simp: stat_part_def ev_unref_def timer_entries_def loop_ok_activecnt)
  qed
qed (use ok in \<open>simp add: infy_init_def\<close>)

lemma stat_arm_ok:
  assumes ok: "loop_ok K l" and K: "K w = Stat_watcher" "K (stat_timer w) = Timer_watcher"
    and idle: "\<not> is_waiting (stat_timer w) l" and int: "0 \<le> w_interval (watchers l w)"
    and rep: "0 < w_repeat (watchers l (stat_timer w))" and wd: "w_wd (watchers l w) < 0"
  shows "\<exists>wd l'. (if fs_fd l \<ge> 0 then infy_add env w l
      else obind (ev_timer_again (stat_timer w) l) (\<lambda>l. Ok (ev_unref l))) = Ok l' \<and> loop_ok K l' \<and>
    fs_hash l' = hash_add w wd (fs_hash l) \<and> activecnt l' = activecnt l \<and> timer_waits (stat_timer w) l l' \<and>
    watchers l' w = (watchers l w)\<lparr>w_wd := wd\<rparr> \<and> pendings l' = pendings l"
proof (cases "fs_fd l \<ge> 0")
  case True
  then show ?thesis using infy_add_ok [OF ok K idle int, of env] by auto
next
  case False
  let ?t = "stat_timer w"
  obtain l' where l': "stat_rearm w l = Ok l'" "loop_ok K l'" "stat_part l' = stat_part l" "activecnt l' = activecnt l"
    "ev_is_active ?t l' = (w_repeat (watchers l ?t) \<noteq> 0)"
    "he_w ` timer_entries l' = (if w_repeat (watchers l ?t) = 0 then {} else {?t}) \<union> he_w ` timer_entries l"
    "w_pending (watchers l' ?t) = 0" "pendings l' = pendings l" "\<forall>x. K x \<noteq> Timer_watcher \<longrightarrow> watchers l' x = watchers l x"
    "w_repeat (watchers l' ?t) = w_repeat (watchers l ?t)"
    using stat_rearm_idle [OF ok K(2) idle] rep by auto
  have "\<not> ev_is_active ?t l" using idle by (simp add: is_waiting_def)
  then obtain l1 where l1: "ev_timer_again ?t l = Ok l1" "l' = (if ev_is_active ?t l1 then ev_unref l1 else l1)"
    using l'(1) by (auto simp: stat_rearm_def Let_def obind_eq_Ok)
  have "ev_is_active ?t l1" using l'(5) l1(2) rep by (auto simp: ev_is_active_def split: if_splits)
  then have "obind (ev_timer_again ?t l) (\<lambda>l. Ok (ev_unref l)) = Ok l'" using l1 by simp
  moreover have "timer_waits ?t l l'" using l' by (simp add: timer_waits_def)
  moreover have "watchers l' w = watchers l w" using l'(9) K(1) by simp
  ultimately show ?thesis using False l'(2-4,8) wd
    by (intro exI [of _ "w_wd (watchers l w)"] exI [of _ l']) (simp add: hash_add_def stat_part_def)
qed

lemma infy_del_ok:
  assumes ok: "loop_ok K l" and K: "K w = Stat_watcher"
  shows "loop_ok K (infy_del env w l)"
  using loop_ok_stat_upd [OF ok K, of "\<lambda>x. x\<lparr>w_wd := -2\<rparr>"] ok
  by (simp add: infy_del_def Let_def)

lemma infy_del_undoes_add:
  assumes "fs_hash l = hash_add w (w_wd (watchers l w)) h"
  shows "fs_hash (infy_del env w l) = h"
  using assms by (auto simp: infy_del_def Let_def hash_add_def wlist_del_remove1 upd_watcher_def)


lemma stat_ev_start:
  assumes ok: "loop_ok K l" and K: "K w = Stat_watcher" and p: "w_pending (watchers l w) = 0"
  shows "loop_ok K (ev_start w n l)" "w_active (watchers (ev_start w n l) w) = n"
    "w_pending (watchers (ev_start w n l) w) = 0" "w_wd (watchers (ev_start w n l) w) = w_wd (watchers l w)"
    "timer_entries (ev_start w n l) = timer_entries l"
    "activecnt (ev_start w n l) = activecnt l + 1 \<and> fs_hash (ev_start w n l) = fs_hash l \<and> pendings (ev_start w n l) = pendings l"
    "x \<noteq> w \<Longrightarrow> watchers (ev_start w n l) x = watchers l x"
proof -
  have "loop_ok K (pri_adjust w l)" unfolding pri_adjust_def Let_def
    by (rule loop_ok_stat_upd [OF ok K]) (simp_all add: p)
  then show "loop_ok K (ev_start w n l)" unfolding ev_start_def
    by (simp add: loop_ok_stat_upd K)
qed (simp_all add: p ev_start_def pri_adjust_def Let_def timer_entries_def, simp_all add: ev_ref_def upd_watcher_def)

lemma stat_start_ok:
  assumes ok: "loop_ok K l" and K: "K w = Stat_watcher" "K (stat_timer w) = Timer_watcher"
    and idle: "\<not> is_waiting w l" "\<not> is_waiting (stat_timer w) l" and wd: "w_wd (watchers l w) < 0"
    and fs: "fs_fd l = -2 \<Longrightarrow> K fs_w = Io_watcher \<and> \<not> is_waiting fs_w l"
  shows "\<exists>l'. ev_stat_start env w l = Ok l' \<and> loop_ok K l' \<and> w_active (watchers l' w) = 1 \<and> w_pending (watchers l' w) = 0 \<and>
    activecnt l' = activecnt l + 1 \<and> fs_hash l' = hash_add w (w_wd (watchers l' w)) (fs_hash l) \<and>
    timer_waits (stat_timer w) l l' \<and> pendings l' = pendings l"
proof -
  let ?t = "stat_timer w"
  have ne: "w \<noteq> ?t" by (simp add: stat_timer_def)
  have i: "w_active (watchers l w) = 0" "w_pending (watchers l w) = 0" "w_active (watchers l ?t) = 0" "w_pending (watchers l ?t) = 0"
    using idle by (simp_all add: is_waiting_def ev_is_active_def)
  define l1 where "l1 = ev_stat_stat env w l"
  define l2 where "l2 = (if w_interval (watchers l1 w) < MIN_STAT_INTERVAL \<and> w_interval (watchers l1 w) \<noteq> 0
    then upd_watcher w (\<lambda>x. x\<lparr>w_interval := MIN_STAT_INTERVAL\<rparr>) l1 else l1)"
  define l3 where "l3 = stat_set_timer w l2"
  have w1: "watchers l1 = (watchers l)(w := watchers l1 w)" "w_active (watchers l1 w) = 0" "w_pending (watchers l1 w) = 0"
    "w_wd (watchers l1 w) = w_wd (watchers l w)"
    using i by (auto simp: l1_def ev_stat_stat_def split: option.split)
  have f1: "fs_fd l1 = fs_fd l" "fs_hash l1 = fs_hash l" "activecnt l1 = activecnt l" "timer_entries l1 = timer_entries l"
    "pendings l1 = pendings l"
    by (simp_all add: l1_def ev_stat_stat_def timer_entries_def) (simp_all add: upd_watcher_def)
  have ok1: "loop_ok K l1" unfolding l1_def ev_stat_stat_def
    by (rule loop_ok_stat_upd [OF ok K(1)]) (use i in \<open>auto split: option.split\<close>)
  have w2: "w_active (watchers l2 w) = 0" "w_pending (watchers l2 w) = 0" "0 \<le> w_interval (watchers l2 w)"
    "w_wd (watchers l2 w) = w_wd (watchers l w)" "\<And>x. x \<noteq> w \<Longrightarrow> watchers l2 x = watchers l x"
    using w1 by (auto simp: l2_def MIN_STAT_INTERVAL_def) (metis fun_upd_apply)+
  have f2: "fs_fd l2 = fs_fd l" "fs_hash l2 = fs_hash l" "activecnt l2 = activecnt l" "timer_entries l2 = timer_entries l"
    "pendings l2 = pendings l"
    using f1 by (simp_all add: l2_def timer_entries_def) (simp_all add: upd_watcher_def)
  have ok2: "loop_ok K l2"
    unfolding l2_def using ok1 loop_ok_stat_upd [OF ok1 K(1), of "\<lambda>x. x\<lparr>w_interval := MIN_STAT_INTERVAL\<rparr>"] by simp
  have "\<not> is_waiting ?t l2" using w2(5) [of ?t] ne idle(2) by (simp add: is_waiting_def ev_is_active_def)
  note init = loop_ok_init [OF ok2 this, of Stat_timer_cb]
  have l3: "l3 = upd_watcher ?t (\<lambda>x. (ev_timer_set 0 (interval_or DEF_STAT_INTERVAL w l2) x)
      \<lparr>w_priority := w_priority (watchers l2 w)\<rparr>) (upd_watcher ?t (ev_init Stat_timer_cb) l2)"
    by (simp add: l3_def stat_set_timer_def upd_watcher_def)
  have ok3: "loop_ok K l3" unfolding l3
    by (rule loop_ok_set_up [OF init]) (simp_all add: ev_init_def ev_is_active_def ev_timer_set_def)
  have w3: "watchers l3 w = watchers l2 w" "\<not> is_waiting ?t l3" "0 < w_repeat (watchers l3 ?t)"
    "\<And>x. x \<noteq> ?t \<Longrightarrow> watchers l3 x = watchers l2 x"
    using ne w2(3) by (simp_all add: l3 ev_init_def ev_is_active_def ev_timer_set_def is_waiting_def interval_or_def DEF_STAT_INTERVAL_def)
  have f3: "fs_fd l3 = fs_fd l" "fs_hash l3 = fs_hash l" "activecnt l3 = activecnt l" "timer_entries l3 = timer_entries l"
    "pendings l3 = pendings l"
    using f2 by (simp_all add: l3 timer_entries_def) (simp_all add: upd_watcher_def)
  have "K fs_w = Io_watcher \<and> \<not> is_waiting fs_w l3" if "fs_fd l3 = -2"
  proof -
    have "K fs_w = Io_watcher" "\<not> is_waiting fs_w l" using fs that f3(1) by simp_all
    moreover from this K have "fs_w \<noteq> w" "fs_w \<noteq> ?t" by auto
    ultimately show ?thesis using w3(4) [of fs_w] w2(5) [of fs_w] by (simp add: is_waiting_def ev_is_active_def)
  qed
  then obtain l4 where l4: "infy_init env l3 = Ok l4" "loop_ok K l4" "activecnt l4 = activecnt l3" "fs_hash l4 = fs_hash l3"
    "timer_entries l4 = timer_entries l3" "pendings l4 = pendings l3"
    "\<forall>x. K x \<noteq> Io_watcher \<longrightarrow> watchers l4 x = watchers l3 x"
    using infy_init_ok [OF ok3, of env] by blast
  have w4: "watchers l4 w = watchers l2 w" "watchers l4 ?t = watchers l3 ?t" using l4(7) K w3(1) by simp_all
  have pre: "\<not> is_waiting ?t l4" "0 \<le> w_interval (watchers l4 w)" "0 < w_repeat (watchers l4 ?t)" "w_wd (watchers l4 w) < 0"
    using w3(2,3) w2(3,4) wd w4 by (simp_all add: is_waiting_def ev_is_active_def)
  obtain wd5 l5 where l5: "(if fs_fd l4 \<ge> 0 then infy_add env w l4
      else obind (ev_timer_again ?t l4) (\<lambda>l. Ok (ev_unref l))) = Ok l5" "loop_ok K l5"
    "fs_hash l5 = hash_add w wd5 (fs_hash l4)" "activecnt l5 = activecnt l4" "timer_waits ?t l4 l5"
    "watchers l5 w = (watchers l4 w)\<lparr>w_wd := wd5\<rparr>" "pendings l5 = pendings l4"
    using stat_arm_ok [OF l4(2) K pre, of env] by blast
  have w5: "w_pending (watchers l5 w) = 0" "w_wd (watchers l5 w) = wd5" using l5(6) w4(1) w2(2) by simp_all
  have "ev_stat_start env w l = Ok (ev_start w 1 l5)"
    using i(1) l4(1) l5(1) by (simp add: ev_stat_start_def Let_def ev_is_active_def l1_def [symmetric] l2_def [symmetric] l3_def [symmetric])
  moreover have "loop_ok K (ev_start w 1 l5)" by (rule stat_ev_start(1) [OF l5(2) K(1) w5(1)])
  moreover note stat_ev_start(2-6) [OF l5(2) K(1) w5(1), where n = 1]
  moreover have "timer_waits ?t l (ev_start w 1 l5)"
    using l5(5) l4(5) f3(4) stat_ev_start(5) [OF l5(2) K(1) w5(1), where n = 1]
      stat_ev_start(7) [OF l5(2) K(1) w5(1), where n = 1 and x = ?t] ne by (simp add: timer_waits_def ev_is_active_def)
  ultimately show ?thesis using l5(3,4,7) w5(2) l4(3,4,6) f3(2,3,5)
    by (intro exI [of _ "ev_start w 1 l5"]) (simp add: stat_part_def)
qed

lemma stat_stop_ok:
  assumes ok: "loop_ok K l" and K: "K w = Stat_watcher" "K (stat_timer w) = Timer_watcher"
    and act: "w_active (watchers l w) = 1" "w_pending (watchers l w) = 0"
    and h: "fs_hash l = hash_add w (w_wd (watchers l w)) h"
    and t: "timer_waits (stat_timer w) l0 l" "stat_timer w \<notin> he_w ` timer_entries l0"
  shows "\<exists>l'. ev_stat_stop env w l = Ok l' \<and> loop_ok K l' \<and> \<not> is_waiting w l' \<and> \<not> is_waiting (stat_timer w) l' \<and>
    activecnt l' = activecnt l - 1 \<and> fs_hash l' = h \<and> he_w ` timer_entries l' = he_w ` timer_entries l0"
proof -
  let ?t = "stat_timer w" and ?l = "infy_del env w l"
  have ne: "w \<noteq> ?t" by (simp add: stat_timer_def)
  have ok1: "loop_ok K ?l" by (rule infy_del_ok [OF ok K(1)])
  have h1: "fs_hash ?l = h" by (rule infy_del_undoes_add [OF h])
  have f: "watchers ?l ?t = watchers l ?t" "w_active (watchers ?l w) = 1" "w_pending (watchers ?l w) = 0"
    "activecnt ?l = activecnt l" "timer_entries ?l = timer_entries l"
    using act ne by (simp_all add: infy_del_def Let_def timer_entries_def)
  obtain l2 where l2: "(if ev_is_active ?t ?l then ev_timer_stop ?t (ev_ref ?l) else Ok ?l) = Ok l2" "loop_ok K l2"
    "\<not> is_waiting ?t l2" "he_w ` timer_entries l2 = he_w ` timer_entries l0" "activecnt l2 = activecnt l" "fs_hash l2 = h"
    "watchers l2 w = watchers ?l w"
  proof (cases "ev_is_active ?t ?l")
    case False
    then show ?thesis using that [of ?l] ok1 t f h1 by (auto simp: timer_waits_def is_waiting_def ev_is_active_def)
  next
    case True
    have "?t \<in> he_w ` timer_entries (ev_ref ?l)" using True t(1) f by (auto simp: timer_waits_def ev_is_active_def)
    then obtain l' where l': "ev_timer_stop ?t (ev_ref ?l) = Ok l'" "loop_ok K l'" "\<not> ev_is_active ?t l'"
      "he_w ` timer_entries l' = he_w ` timer_entries (ev_ref ?l) - {?t}"
      "\<forall>x. K x \<noteq> Timer_watcher \<longrightarrow> watchers l' x = watchers (ev_ref ?l) x" "w_pending (watchers l' ?t) = 0"
      using timer_stop_loop_ok [of K "ev_ref ?l" ?t] ok1 by auto
    have "ev_is_active ?t (ev_ref ?l)" using True by (simp add: ev_is_active_def)
    note s = timer_stop_frame [OF l'(1) this]
    show ?thesis
      using that [of l'] l' s True t f h1 K(1) by (auto simp: timer_waits_def is_waiting_def ev_is_active_def stat_part_def)
  qed
  have "clear_pending w l = l" by (rule clear_pending_idle [OF act(2)])
  then have "ev_stat_stop env w l = Ok (ev_stop w l2)"
    using act(1) l2(1) by (simp add: ev_stat_stop_def Let_def ev_is_active_def)
  moreover have "loop_ok K (ev_stop w l2)"
    using loop_ok_stat_upd [of K "ev_unref l2" w "\<lambda>x. x\<lparr>w_active := 0\<rparr>"] l2(2) K(1) by (simp add: ev_stop_def)
  ultimately show ?thesis using l2(3-7) f(2,3) ne
    by (intro exI [of _ "ev_stop w l2"])
      (auto simp: ev_stop_def is_waiting_def ev_is_active_def timer_entries_def ev_unref_def, simp add: upd_watcher_def)
qed


section \<open>Properties\<close>

text \<open>
  C15. Starting to watch a path counts one reference and no more, whatever the timer of the
  watcher and the kernel's watches do: the timer and the descriptor of those watches are started but
  not counted, and the timer stands still just when the kernel's hints make it needless. Stopping
  again takes back everything: the references, the timer, and the entry in the table of the kernel's watches.
\<close>

theorem stat_start_then_stop:
  assumes "loop_ok K l" and "K w = Stat_watcher" and "K (stat_timer w) = Timer_watcher"
    and "\<not> is_waiting w l" and "\<not> is_waiting (stat_timer w) l" and "w_wd (watchers l w) = -2"
    and "fs_fd l = -2 \<Longrightarrow> K fs_w = Io_watcher \<and> \<not> is_waiting fs_w l"
  shows "\<exists>l1 l2. ev_stat_start env w l = Ok l1 \<and> loop_ok K l1 \<and> ev_is_active w l1 \<and> activecnt l1 = activecnt l + 1 \<and>
    ev_is_active (stat_timer w) l1 = (w_repeat (watchers l1 (stat_timer w)) \<noteq> 0) \<and>
    ev_stat_stop env w l1 = Ok l2 \<and> loop_ok K l2 \<and> \<not> is_waiting w l2 \<and> \<not> is_waiting (stat_timer w) l2 \<and>
    activecnt l2 = activecnt l \<and> fs_hash l2 = fs_hash l \<and> he_w ` timer_entries l2 = he_w ` timer_entries l"
proof -
  have wd: "w_wd (watchers l w) < 0" using assms(6) by simp
  obtain l1 where l1: "ev_stat_start env w l = Ok l1" "loop_ok K l1" "w_active (watchers l1 w) = 1" "w_pending (watchers l1 w) = 0"
    "activecnt l1 = activecnt l + 1" "fs_hash l1 = hash_add w (w_wd (watchers l1 w)) (fs_hash l)" "timer_waits (stat_timer w) l l1"
    using stat_start_ok [OF assms(1-5) wd assms(7), of env] by blast
  have "stat_timer w \<notin> he_w ` timer_entries l" using timer_active [OF assms(1)] assms(5) by (auto simp: is_waiting_def)
  note stop = stat_stop_ok [OF l1(2) assms(2,3) l1(3,4,6,7) this, of env]
  have "ev_is_active (stat_timer w) l1 = (w_repeat (watchers l1 (stat_timer w)) \<noteq> 0)" using l1(7) by (simp add: timer_waits_def)
  then show ?thesis using l1(1-3,5) stop by (auto simp: ev_is_active_def)
qed


text \<open>Address 7 is the watcher, 8 its timer; nothing runs yet.\<close>

definition stat_loop :: "unit ev_loop" where
  "stat_loop = (zero_loop ((\<lambda>_. user_watcher)(7 := ev_stat_set ''/etc/passwd'' 0 user_watcher)) ())\<lparr>fs_fd := -2\<rparr>"

definition stat_types :: "addr \<Rightarrow> watcher_type" where
  "stat_types = (\<lambda>_. Timer_watcher)(fs_w := Io_watcher, 7 := Stat_watcher)"

theorem stat_start_then_stop_witness:
  "\<exists>l1 l2. ev_stat_start sample_env 7 stat_loop = Ok l1 \<and> activecnt l1 = 1 \<and> ev_stat_stop sample_env 7 l1 = Ok l2 \<and>
    activecnt l2 = 0 \<and> loop_ok stat_types l2"
proof -
  have ok: "loop_ok stat_types stat_loop"
    by (simp add: loop_ok_def loop_typed_def pending_ok_def refs_ok_def fds_ok_def fds_ok_for_def io_lists_ok_def io_typed_def
        heap_typed_def heap_ok_def cache_ok_def array_typed_def heap_entries_def heap_range_def
        heap_ordered_def indexed_but_def stat_loop_def zero_loop_def user_watcher_def zero_watcher_def ev_stat_set_def)
  have K: "stat_types 7 = Stat_watcher" "stat_types (stat_timer 7) = Timer_watcher" "stat_types fs_w = Io_watcher"
    by (simp_all add: stat_types_def stat_timer_def fs_w_def)
  have idle: "\<not> is_waiting x stat_loop" for x
    by (simp add: is_waiting_def ev_is_active_def stat_loop_def zero_loop_def user_watcher_def zero_watcher_def ev_stat_set_def)
  have wd: "w_wd (watchers stat_loop 7) = -2" "activecnt stat_loop = 0"
    by (simp_all add: stat_loop_def zero_loop_def ev_stat_set_def)
  show ?thesis
    using stat_start_then_stop [OF ok K(1,2) idle idle wd(1) conjI [OF K(3) idle], of sample_env] wd(2) by auto
qed

section \<open>The version of the kernel\<close>

definition digits :: "string \<Rightarrow> bool" where
  "digits ds \<longleftrightarrow> (\<forall>d \<in> set ds. char_code (CHR ''0'') \<le> char_code d \<and> char_code d \<le> char_code (CHR ''9''))"

definition decimal :: "string \<Rightarrow> 32 word" where
  "decimal ds = foldl (\<lambda>v d. v * 10 + word_of_int (char_code d) - word_of_int (char_code (CHR ''0''))) 0 ds"

lemma version_part_digits:
  assumes "digits ds" and "r = [] \<or> \<not> digits [hd r]"
  shows "version_part c (ds @ r) =
    (foldl (\<lambda>v d. v * 10 + word_of_int (char_code d) - word_of_int (char_code (CHR ''0''))) c ds,
     if r \<noteq> [] \<and> hd r = CHR ''.'' then tl r else r)"
  using assms
proof (induction ds arbitrary: c)
  case Nil
  then show ?case by (cases r) (auto simp: digits_def)
next
  case (Cons d ds)
  then show ?case by (simp add: digits_def)
qed

lemma dot_no_digit: "\<not> digits [CHR ''.'']"
  by (simp add: digits_def char_code_def)

lemma push8_or:
  fixes v w :: "32 word"
  assumes "unat v < 65536" "w < 256"
  shows "unat (push_bit 8 v OR w) = unat v * 256 + unat w"
proof -
  have "unat w < 256" using assms(2) by (simp add: word_less_nat_alt)
  then have "take_bit 8 (unat w) = unat w" by (simp add: take_bit_nat_eq_self)
  then have "unat (take_bit 8 w) = unat w" by (simp add: unsigned_take_bit_eq)
  then have t: "take_bit 8 w = w" by (simp only: word_unat_eq_iff)
  have nw: "\<not> bit w n" if "n \<ge> 8" for n
    using that bit_take_bit_iff [of 8 w n] unfolding t by simp
  have "push_bit 8 v OR w = push_bit 8 v + w"
    by (rule disjunctive_add [symmetric]) (use nw in \<open>auto simp: bit_simps\<close>)
  moreover have "push_bit 8 v = v * 256" by (simp add: push_bit_eq_mult)
  moreover have "unat (v * 256 + w) = unat v * 256 + unat w"
    using assms \<open>unat w < 256\<close> by (simp add: unat_word_ariths)
  ultimately show ?thesis by simp
qed
text \<open>
  The release \<open>a.b.c\<close> of the kernel, whatever follows the third number, is read as one
  number with a byte for each part, so that comparing it with \<open>0x020619\<close> compares with 2.6.25.
\<close>

theorem linux_version_reads:
  assumes "uname_release env (ev_world l) = Some (a @ ''.'' @ b @ ''.'' @ c @ rest)"
    and "digits a" and "digits b" and "digits c" and "rest = [] \<or> \<not> digits [hd rest]"
    and "decimal a < 256" and "decimal b < 256" and "decimal c < 256"
  shows "unat (ev_linux_version env l) = unat (decimal a) * 65536 + unat (decimal b) * 256 + unat (decimal c)"
proof -
  have "version_part 0 (a @ ''.'' @ b @ ''.'' @ c @ rest) = (decimal a, b @ ''.'' @ c @ rest)"
    using version_part_digits [OF assms(2), of "''.'' @ b @ ''.'' @ c @ rest" 0] dot_no_digit by (simp add: decimal_def)
  moreover have "version_part 0 (b @ ''.'' @ c @ rest) = (decimal b, c @ rest)"
    using version_part_digits [OF assms(3), of "''.'' @ c @ rest" 0] dot_no_digit by (simp add: decimal_def)
  moreover obtain r where "version_part 0 (c @ rest) = (decimal c, r)"
    using version_part_digits [OF assms(4,5), of 0] by (simp add: decimal_def)
  ultimately have "ev_linux_version env l = push_bit 8 (push_bit 8 (decimal a) OR decimal b) OR decimal c"
    using assms(1) by (simp add: ev_linux_version_def numeral_3_eq_3)
  moreover have "unat (push_bit 8 (decimal a) OR decimal b) = unat (decimal a) * 256 + unat (decimal b)"
    using assms(6,7) by (intro push8_or) (simp_all add: word_less_nat_alt)
  moreover have "unat (decimal a) * 256 + unat (decimal b) < 65536"
    using assms(6,7) by (simp add: word_less_nat_alt)
  ultimately show ?thesis using push8_or [OF _ assms(8), of "push_bit 8 (decimal a) OR decimal b"] by simp
qed

theorem linux_version_reads_witness:
  "unat (ev_linux_version (sample_env\<lparr>uname_release := \<lambda>_. Some ''4.19.152-generic''\<rparr>) stat_loop) = 4 * 65536 + 19 * 256 + 152"
proof -
  let ?env = "sample_env\<lparr>uname_release := \<lambda>_. Some ''4.19.152-generic''\<rparr>"
  have d: "decimal ''4'' = 4" "decimal ''19'' = 19" "decimal ''152'' = 152" by (simp_all add: decimal_def char_code_def)
  moreover have "digits ''4''" "digits ''19''" "digits ''152''" "\<not> digits [hd ''-generic'']"
    by (simp_all add: digits_def char_code_def)
  ultimately have "unat (ev_linux_version ?env stat_loop) = unat (4 :: 32 word) * 65536 + unat (19 :: 32 word) * 256 + unat (152 :: 32 word)"
    using linux_version_reads [of ?env stat_loop "''4''" "''19''" "''152''" "''-generic''"] by (simp only: d) simp
  then show ?thesis by simp
qed

end
