(* ===== verification/Ev_Embed.thy ===== *)
theory Ev_Embed
  imports Ev_Attr
begin

unbundle bit_operations_syntax

text \<open>
  Embedding one loop in another (\<^verbatim>\<open>src/deps/ev/ev.c\<close>): the outer loop watches the descriptor of
  the other loop's backend and runs the other loop when there is something to do. The world of the outer
  loop is the other loop, so what the callbacks do to it is in the state. The io, prepare and
  fork watchers inside the watcher at address \<open>w\<close> are at the next addresses.
\<close>

definition embed_io :: "addr \<Rightarrow> addr" where "embed_io w = w + 1"
definition embed_prepare :: "addr \<Rightarrow> addr" where "embed_prepare w = w + 2"
definition embed_fork :: "addr \<Rightarrow> addr" where "embed_fork w = w + 3"

lemmas embed_addr_defs = embed_io_def embed_prepare_def embed_fork_def

section \<open>Callbacks\<close>

text \<open>\<open>EV_P = w->other\<close>: what follows works on the other loop.\<close>

definition in_other :: "('w ev_loop \<Rightarrow> 'w ev_loop outcome) \<Rightarrow> 'w ev_loop ev_loop \<Rightarrow> 'w ev_loop ev_loop outcome" where
  "in_other f l = obind (f (ev_world l)) (\<lambda>other. Ok (l\<lparr>ev_world := other\<rparr>))"

definition ev_embed_sweep :: "'w ev_env \<Rightarrow> nat \<Rightarrow> nat \<Rightarrow> 'w ev_loop ev_loop \<Rightarrow> 'w ev_loop ev_loop outcome" where
  "ev_embed_sweep env fuel rounds l = in_other (ev_run env fuel rounds EVRUN_NOWAIT) l"

definition embed_io_cb :: "'w ev_env \<Rightarrow> nat \<Rightarrow> nat \<Rightarrow> addr \<Rightarrow> 'w ev_loop ev_loop \<Rightarrow> 'w ev_loop ev_loop outcome" where
  "embed_io_cb env fuel rounds io l =
     (let w = io - 1
      in if w_cb (watchers l w) \<noteq> Null_cb then Ok (ev_feed_event w EV_EMBED l)
         else in_other (ev_run env fuel rounds EVRUN_NOWAIT) l)"

text \<open>\<open>while (fdchangecnt)\<close>: the callbacks of the other loop may change descriptors again, for ever.\<close>

primrec embed_reify_loop :: "'w ev_env \<Rightarrow> nat \<Rightarrow> nat \<Rightarrow> nat \<Rightarrow> 'w ev_loop \<Rightarrow> 'w ev_loop outcome" where
  "embed_reify_loop env fuel rounds 0 l = (if fdchanges l = [] then Ok l else Fault Out_of_fuel)"
| "embed_reify_loop env fuel rounds (Suc n) l =
     (if fdchanges l = [] then Ok l
      else obind (fd_reify env l) (\<lambda>l.
           obind (ev_run env fuel rounds EVRUN_NOWAIT l) (embed_reify_loop env fuel rounds n)))"

definition embed_prepare_cb :: "'w ev_env \<Rightarrow> nat \<Rightarrow> nat \<Rightarrow> 'w ev_loop ev_loop \<Rightarrow> 'w ev_loop ev_loop outcome" where
  "embed_prepare_cb env fuel rounds l = in_other (embed_reify_loop env fuel rounds rounds) l"

section \<open>Starting and stopping\<close>

definition embed_watch :: "addr \<Rightarrow> 'w ev_loop ev_loop \<Rightarrow> 'w ev_loop ev_loop" where
  "embed_watch w l =
     upd_watcher (embed_io w)
       (\<lambda>x. (ev_io_set (backend_fd (ev_world l)) EV_READ (ev_init Embed_io_cb x))\<lparr>w_priority := w_priority (watchers l w)\<rparr>) l"

definition ev_embed_start :: "'w ev_env \<Rightarrow> addr \<Rightarrow> 'w ev_loop ev_loop \<Rightarrow> 'w ev_loop ev_loop outcome" where
  "ev_embed_start env w l =
     (if ev_is_active w l then Ok l
      else
        obind (g_assert (backend (ev_world l) AND ev_embeddable_backends env (ev_world l) \<noteq> 0)) (\<lambda>_.
        obind (ev_io_start (embed_io w) (embed_watch w l)) (\<lambda>l.
        obind (ev_prepare_start (embed_prepare w)
                 (upd_watcher (embed_prepare w) (\<lambda>x. (ev_init Embed_prepare_cb x)\<lparr>w_priority := EV_MINPRI\<rparr>) l)) (\<lambda>l.
        obind (ev_fork_start (embed_fork w) (upd_watcher (embed_fork w) (ev_init Embed_fork_cb) l)) (\<lambda>l.
        Ok (ev_start w 1 l))))))"

definition ev_embed_stop :: "addr \<Rightarrow> 'w ev_loop ev_loop \<Rightarrow> 'w ev_loop ev_loop outcome" where
  "ev_embed_stop w l =
     (let l = clear_pending w l
      in if \<not> ev_is_active w l then Ok l
         else
           obind (ev_io_stop (embed_io w) l) (\<lambda>l.
           obind (ev_prepare_stop (embed_prepare w) l) (\<lambda>l.
           obind (ev_fork_stop (embed_fork w) l) (\<lambda>l. Ok (ev_stop w l)))))"

definition embed_fork_cb :: "'w ev_env \<Rightarrow> nat \<Rightarrow> nat \<Rightarrow> addr \<Rightarrow> 'w ev_loop ev_loop \<Rightarrow> 'w ev_loop ev_loop outcome" where
  "embed_fork_cb env fuel rounds fork_w l =
     (let w = fork_w - 3
      in obind (ev_embed_stop w l) (\<lambda>l.
         obind (in_other (\<lambda>other. ev_run env fuel rounds EVRUN_NOWAIT (ev_loop_fork other)) l)
           (ev_embed_start env w)))"

text \<open>The callbacks of the outer loop, which reach the other one.\<close>

definition embedding_cb ::
  "'w ev_env \<Rightarrow> nat \<Rightarrow> nat \<Rightarrow> ev_callback \<Rightarrow> addr \<Rightarrow> 'w ev_loop ev_loop \<Rightarrow> 'w ev_loop ev_loop outcome" where
  "embedding_cb env fuel rounds cb w l =
     (case cb of
        Embed_io_cb \<Rightarrow> embed_io_cb env fuel rounds w l
      | Embed_prepare_cb \<Rightarrow> embed_prepare_cb env fuel rounds l
      | Embed_fork_cb \<Rightarrow> embed_fork_cb env fuel rounds w l
      | _ \<Rightarrow> Fault Null_deref)"

definition embedding_env ::
  "'w ev_env \<Rightarrow> nat \<Rightarrow> nat \<Rightarrow> 'w ev_loop ev_env \<Rightarrow> 'w ev_loop ev_env" where
  "embedding_env env fuel rounds outer = outer\<lparr>embed_cb := embedding_cb env fuel rounds\<rparr>"

end
