(* ===== verification/Ev_Embedded.thy ===== *)
theory Ev_Embedded
  imports Ev_Embed
begin

unbundle bit_operations_syntax

text \<open>
  Properties of embedded loops: what starting one counts and watches, that stopping takes everything back, and
  that the other loop's descriptor is watched again after a fork.
\<close>

section \<open>Watchers in arrays\<close>

text \<open>What the interface of the arrays says of the other watchers.\<close>

context watcher_array
begin

lemma start_others:
  assumes "\<not> ev_is_active w l" "start w l = Ok l'"
  shows "pendings l' = pendings l" "x \<noteq> w \<Longrightarrow> watchers l' x = watchers l x"
    "ev_is_active w l'" "w_pending (watchers l' w) = w_pending (watchers l w)" "w_cb (watchers l' w) = w_cb (watchers l w)"
  using start_law [OF assms(1)] assms(2)
  by (auto simp: ev_start_def ev_ref_def pri_adjust_def Let_def ev_is_active_def)

lemma stop_others:
  assumes typed: "array_typed K k (arr l) (watchers l)" and w: "w \<in> set (arr l)" and stop: "stop w l = Ok l'" and p: "pending_ok l"
  shows "pendings l' = pendings (clear_pending w l)" "K x \<noteq> k \<Longrightarrow> watchers l' x = watchers l x"
    "w_pending (watchers l' w) = 0"
proof -
  obtain i where i: "i < length (arr l)" "arr l ! i = w" using w by (auto simp: in_set_conv_nth)
  have ne: "arr l \<noteq> []" using i by auto
  have a: "w_active (watchers l w) = i + 1" "K w = k" and m: "K (last (arr l)) = k"
    using typed i ne by (auto simp: array_typed_def last_conv_nth)
  have "array_remove (w_active (watchers l w)) (arr l) =
      Ok (butlast ((arr l)[w_active (watchers l w) - 1 := last (arr l)]), last (arr l))"
    using a i by (simp add: array_remove_def)
  from stop_law [OF _ this] a stop have ws: "pendings l' = pendings (clear_pending w l)"
    "watchers l' = watchers (ev_stop w (activate (last (arr l)) (w_active (watchers l w)) (clear_pending w l)))"
    by (auto simp: ev_is_active_def)
  show "pendings l' = pendings (clear_pending w l)" by (rule ws)
  show "K x \<noteq> k \<Longrightarrow> watchers l' x = watchers l x"
    using a m by (auto simp: ws(2) ev_stop_def ev_unref_def activate_def clear_pending_def Let_def)
  show "w_pending (watchers l' w) = 0"
    using pending_ok_clear(2) [OF p, of w] by (auto simp: ws(2) ev_stop_def ev_unref_def activate_def)
qed

end

context typed_array
begin

lemma start_one:
  assumes "loop_ok K l" "K w = kind" "\<not> is_waiting w l"
  shows "\<exists>l'. start w l = Ok l' \<and> loop_ok K l' \<and> arr l' = arr l @ [w] \<and> pendings l' = pendings l \<and> w_pending (watchers l' w) = 0 \<and>
    ev_is_active w l' \<and> w_cb (watchers l' w) = w_cb (watchers l w) \<and> (\<forall>x. x \<noteq> w \<longrightarrow> watchers l' x = watchers l x)"
proof -
  have i: "\<not> ev_is_active w l" "w_pending (watchers l w) = 0" using assms(3) by (simp_all add: is_waiting_def)
  obtain l' where l': "start w l = Ok l'" "loop_ok K l'" "arr l' = arr l @ [w]" using start_ok [OF assms(1,2) i] by blast
  then show ?thesis using start_others [OF i(1) l'(1)] i(2) by simp
qed

lemma stop_one:
  assumes "loop_ok K l" "w \<in> set (arr l)"
  shows "\<exists>l'. stop w l = Ok l' \<and> loop_ok K l' \<and> mset (arr l') + {#w#} = mset (arr l) \<and> pendings l' = pendings (clear_pending w l) \<and>
    \<not> is_waiting w l' \<and> (\<forall>x. K x \<noteq> kind \<longrightarrow> watchers l' x = watchers l x)"
proof -
  have a: "array_typed K kind (arr l) (watchers l)" using loop_okD(4) [OF assms(1)] kind_part by blast
  obtain l' where l': "stop w l = Ok l'" "loop_ok K l'" "\<not> ev_is_active w l'" "mset (arr l') + {#w#} = mset (arr l)"
    using stop_ok [OF assms] by blast
  then show ?thesis using stop_others [OF a assms(2) l'(1) loop_okD(3) [OF assms(1)]] by (simp add: is_waiting_def)
qed

lemma member_active:
  assumes "loop_ok K l" "w \<in> set (arr l)"
  shows "ev_is_active w l" "K w = kind"
  using loop_okD(4) [OF assms(1), of kind] assms(2) kind_part by (auto simp: array_typed_def in_set_conv_nth ev_is_active_def)

end

lemma ev_stop_fields:
  "activecnt (ev_stop w l) = activecnt l - 1" "ev_world (ev_stop w l) = ev_world l"
  "prepares (ev_stop w l) = prepares l" "forks (ev_stop w l) = forks l"
  by (simp_all add: ev_stop_def ev_unref_def upd_watcher_def)

lemma set_world_fields [simp]:
  "watchers (l\<lparr>ev_world := x\<rparr>) = watchers l" "activecnt (l\<lparr>ev_world := x\<rparr>) = activecnt l" "ev_world (l\<lparr>ev_world := x\<rparr>) = x"
  by simp_all

lemma clear_pending_fields:
  "prepares (clear_pending w l) = prepares l" "forks (clear_pending w l) = forks l" "ev_world (clear_pending w l) = ev_world l"
  by (simp_all add: clear_pending_def Let_def upd_watcher_def)

lemma array_frames:
  "ev_prepare_start w l = Ok l' \<Longrightarrow> \<not> ev_is_active w l \<Longrightarrow> activecnt l' = activecnt l + 1 \<and> ev_world l' = ev_world l \<and>
     anfds l' = anfds l \<and> forks l' = forks l"
  "ev_fork_start w l = Ok l' \<Longrightarrow> \<not> ev_is_active w l \<Longrightarrow> activecnt l' = activecnt l + 1 \<and> ev_world l' = ev_world l \<and>
     anfds l' = anfds l \<and> prepares l' = prepares l"
  "ev_prepare_stop w l = Ok l' \<Longrightarrow> ev_is_active w l \<Longrightarrow> activecnt l' = activecnt l - 1 \<and> ev_world l' = ev_world l \<and>
     anfds l' = anfds l \<and> forks l' = forks l"
  "ev_fork_stop w l = Ok l' \<Longrightarrow> ev_is_active w l \<Longrightarrow> activecnt l' = activecnt l - 1 \<and> ev_world l' = ev_world l \<and>
     anfds l' = anfds l \<and> prepares l' = prepares l"
  by (auto simp: ev_prepare_start_def ev_fork_start_def ev_start_def ev_ref_def pri_adjust_def Let_def upd_watcher_def)
    (auto simp: ev_prepare_stop_def ev_fork_stop_def ev_stop_def ev_unref_def activate_def upd_watcher_def
      clear_pending_keeps clear_pending_fields ev_is_active_def obind_eq_Ok Let_def)

lemma io_stop_frame:
  assumes "ev_io_stop x l = Ok l'" and "ev_is_active x l"
  shows "ev_world l' = ev_world l \<and> activecnt l' = activecnt l - 1"
proof -
  let ?l = "clear_pending x l"
  obtain a where a: "fd_change (nat (w_fd (watchers ?l x))) EV_ANFD_REIFY (ev_stop x (put_anfd (nat (w_fd (watchers ?l x))) a ?l)) = Ok l'"
    using assms by (auto simp: ev_io_stop_def Let_def obind_eq_Ok ev_is_active_def clear_pending_keeps)
  have "ev_world ?l = ev_world l" "activecnt ?l = activecnt l" by (simp_all add: clear_pending_def Let_def upd_watcher_def)
  then show ?thesis using fd_change_frame [OF a] by (simp add: stat_part_def put_anfd_def ev_stop_def ev_unref_def)
qed


section \<open>Starting and stopping\<close>

text \<open>The types of the watchers that an embedding watcher consists of, and an embedding watcher that runs.\<close>

definition embed_typed :: "(addr \<Rightarrow> watcher_type) \<Rightarrow> addr \<Rightarrow> bool" where
  "embed_typed K w \<longleftrightarrow> K w = Embed_watcher \<and> K (embed_io w) = Io_watcher \<and> K (embed_prepare w) = Prepare_watcher \<and>
     K (embed_fork w) = Fork_watcher"

definition embed_parts :: "addr \<Rightarrow> addr set" where
  "embed_parts w = {w, embed_io w, embed_prepare w, embed_fork w}"

definition embedding :: "addr \<Rightarrow> 'w ev_loop ev_loop \<Rightarrow> bool" where
  "embedding w l \<longleftrightarrow>
     w_active (watchers l w) = 1 \<and> linked (embed_io w) l \<and> w_cb (watchers l (embed_io w)) = Embed_io_cb \<and>
     w_fd (watchers l (embed_io w)) = backend_fd (ev_world l) \<and> w_events (watchers l (embed_io w)) = EV_READ \<and>
     embed_prepare w \<in> set (prepares l) \<and> w_cb (watchers l (embed_prepare w)) = Embed_prepare_cb \<and>
     embed_fork w \<in> set (forks l) \<and> w_cb (watchers l (embed_fork w)) = Embed_fork_cb"

lemma loop_ok_embed_upd:
  assumes ok: "loop_ok K l" and K: "K w = Embed_watcher" and f: "\<And>x. w_pending (f x) = w_pending x"
    and pri: "(\<forall>x. w_priority (f x) = w_priority x) \<or> w_pending (watchers l w) = 0"
  shows "loop_ok K (upd_watcher w f l)"
proof (rule loop_ok_change [where k = Embed_watcher, OF ok])
  show "same_but Embed_watcher (upd_watcher w f l) l" by (simp add: same_but_def upd_watcher_def)
  show "pending_ok (upd_watcher w f l)" by (rule pending_ok_upd [OF loop_okD(3) [OF ok] f pri])
  show "agree_on {x. K x \<noteq> Embed_watcher} (watchers l) (watchers (upd_watcher w f l))"
    using K by (intro agree_onI) auto
qed (simp_all add: loop_part_def)

text \<open>Setting up an idle watcher.\<close>

lemma loop_ok_init_upd:
  assumes "loop_ok K l" "\<not> is_waiting w l"
    and "\<And>x. w_active (f x) = w_active x" "\<And>x. w_pending (f x) = w_pending x"
  shows "loop_ok K (upd_watcher w (\<lambda>x. f (ev_init cb x)) l)" "\<not> is_waiting w (upd_watcher w (\<lambda>x. f (ev_init cb x)) l)"
proof -
  let ?l = "upd_watcher w (ev_init cb) l"
  have eq: "upd_watcher w (\<lambda>x. f (ev_init cb x)) l = upd_watcher w f ?l" by (simp add: upd_watcher_def)
  have "\<not> ev_is_active w ?l" "w_pending (watchers ?l w) = 0" by (simp_all add: ev_is_active_def ev_init_def)
  then show "loop_ok K (upd_watcher w (\<lambda>x. f (ev_init cb x)) l)" "\<not> is_waiting w (upd_watcher w (\<lambda>x. f (ev_init cb x)) l)"
    using loop_ok_set_up [OF loop_ok_init [OF assms(1,2), of cb] _ _ assms(3,4)] assms(3,4)
    unfolding eq by (simp_all add: is_waiting_def ev_is_active_def)
qed

lemma same_ioD:
  "same_but Io_watcher l' l \<Longrightarrow> prepares l' = prepares l \<and> forks l' = forks l"
  by (simp add: same_but_def)

lemma fd_change_watchers: "fd_change fd fl l = Ok l' \<Longrightarrow> watchers l' = watchers l"
  by (auto simp: fd_change_def Let_def put_anfd_def obind_eq_Ok)

lemma io_start_own:
  assumes "ev_io_start w l = Ok l'" and "\<not> ev_is_active w l"
  shows "w_fd (watchers l' w) = w_fd (watchers l w)" "w_cb (watchers l' w) = w_cb (watchers l w)"
    "w_events (watchers l' w) = w_events (watchers l w) AND NOT EV__IOFDSET"
proof -
  let ?l = "anfds_needsize (nat (w_fd (watchers l w)) + 1) (ev_start w 1 l)"
  obtain a l1 where l1: "l' = upd_watcher w (\<lambda>x. x\<lparr>w_events := w_events x AND NOT EV__IOFDSET\<rparr>) l1"
    "fd_change (nat (w_fd (watchers l w))) (w_events (watchers l w) AND EV__IOFDSET OR EV_ANFD_REIFY)
      (put_anfd (nat (w_fd (watchers l w))) a ?l) = Ok l1"
    using assms by (auto simp: ev_io_start_def Let_def obind_eq_Ok)
  have w1: "watchers l1 = watchers (ev_start w 1 l)"
    unfolding fd_change_watchers [OF l1(2)] by (simp add: put_anfd_def anfds_needsize_def)
  show "w_fd (watchers l' w) = w_fd (watchers l w)" "w_cb (watchers l' w) = w_cb (watchers l w)"
    "w_events (watchers l' w) = w_events (watchers l w) AND NOT EV__IOFDSET"
    by (simp_all add: l1(1) w1 ev_start_def ev_ref_def pri_adjust_def Let_def)
qed

text \<open>The first step of \<open>ev_embed_start\<close>: the io watcher.\<close>

lemma embed_watch_ok:
  assumes ok: "loop_ok K l" and K: "K (embed_io w) = Io_watcher" and idle: "\<not> is_waiting (embed_io w) l"
    and fd: "0 \<le> backend_fd (ev_world l)"
  shows "\<exists>l'. ev_io_start (embed_io w) (embed_watch w l) = Ok l' \<and> loop_ok K l' \<and> linked (embed_io w) l' \<and>
    w_fd (watchers l' (embed_io w)) = backend_fd (ev_world l) \<and> w_events (watchers l' (embed_io w)) = EV_READ \<and>
    w_cb (watchers l' (embed_io w)) = Embed_io_cb \<and> w_pending (watchers l' (embed_io w)) = 0 \<and>
    (\<forall>x. x \<noteq> embed_io w \<longrightarrow> watchers l' x = watchers l x) \<and> pendings l' = pendings l \<and> activecnt l' = activecnt l + 1 \<and>
    ev_world l' = ev_world l \<and> prepares l' = prepares l \<and> forks l' = forks l"
proof -
  let ?w = "embed_io w" and ?l = "embed_watch w l"
  let ?f = "\<lambda>x. (ev_io_set (backend_fd (ev_world l)) EV_READ x)\<lparr>w_priority := w_priority (watchers l w)\<rparr>"
  have ok1: "loop_ok K ?l" "\<not> is_waiting ?w ?l"
    unfolding embed_watch_def by (rule loop_ok_init_upd [OF ok idle]; simp add: ev_io_set_def)+
  have pre: "\<not> ev_is_active ?w ?l" "w_pending (watchers ?l ?w) = 0" using ok1(2) by (simp_all add: is_waiting_def)
  have ev: "w_fd (watchers ?l ?w) = backend_fd (ev_world l)" "w_events (watchers ?l ?w) = EV_READ OR EV__IOFDSET"
    "w_cb (watchers ?l ?w) = Embed_io_cb"
    by (simp_all add: embed_watch_def ev_io_set_def ev_init_def)
  have "0 \<le> w_fd (watchers ?l ?w)" "w_events (watchers ?l ?w) AND NOT (EV__IOFDSET OR EV_READ OR EV_WRITE) = 0"
    using fd by (simp_all add: ev) (simp add: EV_READ_def EV_WRITE_def EV__IOFDSET_def)
  from io_start_loop_ok [OF ok1(1) K pre(1) this pre(2)] obtain l' where l': "ev_io_start ?w ?l = Ok l'" "loop_ok K l'"
    "linked ?w l'" "\<forall>x. x \<noteq> ?w \<longrightarrow> watchers l' x = watchers ?l x" "pendings l' = pendings ?l" "w_pending (watchers l' ?w) = 0"
    unfolding linked_def by blast
  note same = same_ioD [OF io_start_same [OF l'(1) pre(1)]] and frame = io_start_frame [OF l'(1) pre(1)]
  have own: "w_fd (watchers l' ?w) = backend_fd (ev_world l)" "w_events (watchers l' ?w) = EV_READ" "w_cb (watchers l' ?w) = Embed_io_cb"
    using io_start_own [OF l'(1) pre(1)] ev by (simp_all) (simp add: EV_READ_def EV__IOFDSET_def)
  have "watchers ?l x = watchers l x" if "x \<noteq> ?w" for x using that by (simp add: embed_watch_def)
  moreover have "prepares ?l = prepares l" "forks ?l = forks l" by (simp_all add: embed_watch_def upd_watcher_def)
  ultimately show ?thesis using l' same frame own
    by (intro exI [of _ l']) (simp add: stat_part_def embed_watch_def)
qed

lemma embed_addr_distinct:
  "w \<noteq> embed_io w" "w \<noteq> embed_prepare w" "w \<noteq> embed_fork w" "embed_io w \<noteq> embed_prepare w" "embed_io w \<noteq> embed_fork w"
  "embed_prepare w \<noteq> embed_fork w"
  by (simp_all add: embed_addr_defs)

lemma embed_ev_start:
  assumes ok: "loop_ok K l" and K: "K w = Embed_watcher" and p: "w_pending (watchers l w) = 0"
  shows "loop_ok K (ev_start w n l)" "x \<noteq> w \<Longrightarrow> watchers (ev_start w n l) x = watchers l x"
    "w_active (watchers (ev_start w n l) w) = n" "activecnt (ev_start w n l) = activecnt l + 1"
    "anfds (ev_start w n l) = anfds l" "prepares (ev_start w n l) = prepares l" "forks (ev_start w n l) = forks l"
    "ev_world (ev_start w n l) = ev_world l" "pendings (ev_start w n l) = pendings l"
    "w_pending (watchers (ev_start w n l) w) = 0"
proof -
  have "loop_ok K (pri_adjust w l)" unfolding pri_adjust_def Let_def
    by (rule loop_ok_embed_upd [OF ok K]) (simp_all add: p)
  then show "loop_ok K (ev_start w n l)" unfolding ev_start_def
    by (simp add: loop_ok_embed_upd K)
qed (simp_all add: p ev_start_def pri_adjust_def Let_def ev_ref_def, simp_all add: upd_watcher_def)

lemma embed_start_ok:
  assumes ok: "loop_ok K l" and K: "embed_typed K w" and idle: "\<forall>x \<in> embed_parts w. \<not> is_waiting x l"
    and fd: "0 \<le> backend_fd (ev_world l)" and emb: "backend (ev_world l) AND ev_embeddable_backends env (ev_world l) \<noteq> 0"
  shows "\<exists>l'. ev_embed_start env w l = Ok l' \<and> loop_ok K l' \<and> embedding w l' \<and> (\<forall>x \<in> embed_parts w. w_pending (watchers l' x) = 0) \<and>
    activecnt l' = activecnt l + 4 \<and> ev_world l' = ev_world l \<and> pendings l' = pendings l \<and>
    prepares l' = prepares l @ [embed_prepare w] \<and> forks l' = forks l @ [embed_fork w] \<and>
    (\<forall>x. x \<notin> embed_parts w \<longrightarrow> watchers l' x = watchers l x)"
proof -
  let ?i = "embed_io w" and ?p = "embed_prepare w" and ?f = "embed_fork w"
  note ne = embed_addr_distinct [of w] and K = K [unfolded embed_typed_def]
  have idle: "\<not> is_waiting w l" "\<not> is_waiting ?i l" "\<not> is_waiting ?p l" "\<not> is_waiting ?f l"
    using idle by (simp_all add: embed_parts_def)
  obtain l1 where l1: "ev_io_start ?i (embed_watch w l) = Ok l1" "loop_ok K l1" "linked ?i l1"
    "w_fd (watchers l1 ?i) = backend_fd (ev_world l)" "w_events (watchers l1 ?i) = EV_READ" "w_cb (watchers l1 ?i) = Embed_io_cb"
    "w_pending (watchers l1 ?i) = 0" "\<And>x. x \<noteq> ?i \<Longrightarrow> watchers l1 x = watchers l x" "pendings l1 = pendings l"
    "activecnt l1 = activecnt l + 1" "ev_world l1 = ev_world l" "prepares l1 = prepares l" "forks l1 = forks l"
    using embed_watch_ok [OF ok _ idle(2) fd] K by blast
  define m1 where "m1 = upd_watcher ?p (\<lambda>x. (ev_init Embed_prepare_cb x)\<lparr>w_priority := EV_MINPRI\<rparr>) l1"
  have p1: "\<not> is_waiting ?p l1" using idle(3) l1(8) [of ?p] ne by (simp add: is_waiting_def ev_is_active_def)
  have m1: "loop_ok K m1" "\<not> is_waiting ?p m1"
    unfolding m1_def by (rule loop_ok_init_upd [OF l1(2) p1]; simp)+
  have m1': "w_cb (watchers m1 ?p) = Embed_prepare_cb" "\<And>x. x \<noteq> ?p \<Longrightarrow> watchers m1 x = watchers l1 x" "pendings m1 = pendings l"
    "activecnt m1 = activecnt l + 1" "ev_world m1 = ev_world l" "prepares m1 = prepares l" "forks m1 = forks l" "anfds m1 = anfds l1"
    using l1(9-13) by (simp_all add: m1_def ev_init_def) (simp_all add: upd_watcher_def)
  have "\<not> ev_is_active ?p m1" using m1(2) by (simp add: is_waiting_def)
  moreover obtain l2 where l2: "ev_prepare_start ?p m1 = Ok l2" "loop_ok K l2" "prepares l2 = prepares m1 @ [?p]"
    "pendings l2 = pendings m1" "w_pending (watchers l2 ?p) = 0" "w_cb (watchers l2 ?p) = w_cb (watchers m1 ?p)"
    "\<And>x. x \<noteq> ?p \<Longrightarrow> watchers l2 x = watchers m1 x"
    using prepare_array.start_one [OF m1(1) _ m1(2)] K by blast
  ultimately have l2': "activecnt l2 = activecnt l + 2" "ev_world l2 = ev_world l" "anfds l2 = anfds l1" "forks l2 = forks l"
    using array_frames(1) [OF l2(1)] m1' by simp_all
  define m2 where "m2 = upd_watcher ?f (ev_init Embed_fork_cb) l2"
  have f2: "\<not> is_waiting ?f l2"
    using idle(4) l1(8) [of ?f] m1'(2) [of ?f] l2(7) [of ?f] ne by (simp add: is_waiting_def ev_is_active_def)
  have m2: "loop_ok K m2" "\<not> is_waiting ?f m2"
    using loop_ok_init_upd [OF l2(2) f2, of "\<lambda>x. x" Embed_fork_cb] by (simp_all add: m2_def)
  have m2': "w_cb (watchers m2 ?f) = Embed_fork_cb" "\<And>x. x \<noteq> ?f \<Longrightarrow> watchers m2 x = watchers l2 x" "pendings m2 = pendings l"
    "activecnt m2 = activecnt l + 2" "ev_world m2 = ev_world l" "prepares m2 = prepares l @ [?p]" "forks m2 = forks l" "anfds m2 = anfds l1"
    using l2(3,4) l2' m1'(3,6) by (simp_all add: m2_def ev_init_def) (simp_all add: upd_watcher_def)
  have "\<not> ev_is_active ?f m2" using m2(2) by (simp add: is_waiting_def)
  moreover obtain l3 where l3: "ev_fork_start ?f m2 = Ok l3" "loop_ok K l3" "forks l3 = forks m2 @ [?f]"
    "pendings l3 = pendings m2" "w_pending (watchers l3 ?f) = 0" "w_cb (watchers l3 ?f) = w_cb (watchers m2 ?f)"
    "\<And>x. x \<noteq> ?f \<Longrightarrow> watchers l3 x = watchers m2 x"
    using fork_array.start_one [OF m2(1) _ m2(2)] K by blast
  ultimately have l3': "activecnt l3 = activecnt l + 3" "ev_world l3 = ev_world l" "anfds l3 = anfds l1" "prepares l3 = prepares l @ [?p]"
    using array_frames(2) [OF l3(1)] m2' by simp_all
  have ws: "watchers l3 w = watchers l w" "watchers l3 ?i = watchers l1 ?i" "watchers l3 ?p = watchers l2 ?p"
    "\<And>x. x \<notin> embed_parts w \<Longrightarrow> watchers l3 x = watchers l x"
    using ne l1(8) m1'(2) l2(7) m2'(2) l3(7) by (simp_all add: embed_parts_def)
  have w: "w_pending (watchers l3 w) = 0" using idle(1) by (simp add: ws is_waiting_def)
  note s = embed_ev_start [OF l3(2) _ w, where n = 1]
  have code: "ev_embed_start env w l = Ok (ev_start w 1 l3)"
    using idle(1) emb l1(1) l2(1) l3(1) by (simp add: ev_embed_start_def is_waiting_def m1_def [symmetric] m2_def [symmetric] g_assert_def)
  have "linked ?i (ev_start w 1 l3)" using K l1(3) l3'(3) s(5) by (simp add: linked_def)
  then have "embedding w (ev_start w 1 l3)"
    using s K ne ws(2,3) l1(4-6) l3'(4) l3(3,6) l2(6) m1'(1) m2'(1) l3'(2) by (simp add: embedding_def)
  moreover have "\<forall>x \<in> embed_parts w. w_pending (watchers (ev_start w 1 l3) x) = 0"
    using s K ne ws(2,3) l1(7) l2(5) l3(5) by (simp add: embed_parts_def)
  ultimately show ?thesis
    using code s K l3' l3(3,4) m2'(3,7) ws(4) by (intro exI [of _ "ev_start w 1 l3"]) (simp add: embed_parts_def)
qed

lemma embed_stop_ok:
  assumes ok: "loop_ok K l" and K: "embed_typed K w" and act: "ev_is_active w l" "linked (embed_io w) l"
    "embed_prepare w \<in> set (prepares l)" "embed_fork w \<in> set (forks l)"
  shows "\<exists>l'. ev_embed_stop w l = Ok l' \<and> loop_ok K l' \<and> (\<forall>x \<in> embed_parts w. \<not> is_waiting x l') \<and>
    activecnt l' = activecnt l - 4 \<and> ev_world l' = ev_world l \<and>
    mset (prepares l') + {#embed_prepare w#} = mset (prepares l) \<and> mset (forks l') + {#embed_fork w#} = mset (forks l)"
proof -
  let ?i = "embed_io w" and ?p = "embed_prepare w" and ?f = "embed_fork w" and ?l = "clear_pending w l"
  note ne = embed_addr_distinct [of w] and K = K [unfolded embed_typed_def]
  have ok0: "loop_ok K ?l"
    by (rule loop_ok_queue [OF ok pending_ok_clear(1) [OF loop_okD(3) [OF ok]] clear_pending_same])
      (simp add: clear_pending_def Let_def)
  have l0: "w_pending (watchers ?l w) = 0" "ev_is_active w ?l" "linked ?i ?l"
    using pending_ok_clear(2) [OF loop_okD(3) [OF ok]] act(1,2)
    by (simp_all add: ev_is_active_def clear_pending_keeps linked_def)
  obtain l1 where l1: "ev_io_stop ?i ?l = Ok l1" "loop_ok K l1" "\<not> ev_is_active ?i l1" "w_pending (watchers l1 ?i) = 0"
    "\<And>x. x \<noteq> ?i \<Longrightarrow> watchers l1 x = watchers ?l x"
    using io_stop_loop_ok [OF ok0 l0(3)] by blast
  have "ev_is_active ?i ?l"
    using loop_okD(2) [OF ok0] l0(3) unfolding linked_def fds_ok_def fds_ok_for_def io_lists_ok_def ev_is_active_def by fastforce
  note f1 = io_stop_frame [OF l1(1) this] same_ioD [OF io_stop_same [OF l1(1) this]]
  have p1: "?p \<in> set (prepares l1)" "?f \<in> set (forks l1)" using f1 act(3,4) by (simp_all add: clear_pending_fields)
  obtain l2 where l2: "ev_prepare_stop ?p l1 = Ok l2" "loop_ok K l2" "mset (prepares l2) + {#?p#} = mset (prepares l1)"
    "\<not> is_waiting ?p l2" "\<And>x. K x \<noteq> Prepare_watcher \<Longrightarrow> watchers l2 x = watchers l1 x"
    using prepare_array.stop_one [OF l1(2) p1(1)] by blast
  note f2 = array_frames(3) [OF l2(1) prepare_array.member_active(1) [OF l1(2) p1(1)]]
  have p2: "?f \<in> set (forks l2)" using f2 p1(2) by simp
  obtain l3 where l3: "ev_fork_stop ?f l2 = Ok l3" "loop_ok K l3" "mset (forks l3) + {#?f#} = mset (forks l2)"
    "\<not> is_waiting ?f l3" "\<And>x. K x \<noteq> Fork_watcher \<Longrightarrow> watchers l3 x = watchers l2 x"
    using fork_array.stop_one [OF l2(2) p2] by blast
  note f3 = array_frames(4) [OF l3(1) fork_array.member_active(1) [OF l2(2) p2]]
  have ws: "watchers l3 w = watchers ?l w" "watchers l3 ?i = watchers l1 ?i" "watchers l3 ?p = watchers l2 ?p"
    using ne K l1(5) l2(5) l3(5) by simp_all
  have idle: "\<not> is_waiting x l3" if "x \<in> {?i, ?p, ?f}" for x
    using that l1(3,4) l2(4) l3(4) ws(2,3) by (auto simp: is_waiting_def ev_is_active_def)
  have code: "ev_embed_stop w l = Ok (ev_stop w l3)"
    using l0(2) l1(1) l2(1) l3(1) by (simp add: ev_embed_stop_def Let_def)
  have "loop_ok K (ev_stop w l3)"
    unfolding ev_stop_def by (rule loop_ok_embed_upd) (use l3(2) K in simp_all)
  moreover have "\<forall>x \<in> embed_parts w. \<not> is_waiting x (ev_stop w l3)"
    using idle l0(1) ws(1) ne by (auto simp: embed_parts_def is_waiting_def ev_is_active_def ev_stop_def)
  ultimately show ?thesis
    using ev_stop_fields [of w l3] code f1 f2 f3 l2(3) l3(3) by (intro exI [of _ "ev_stop w l3"]) (simp add: clear_pending_fields clear_pending_keeps)
qed

section \<open>Properties\<close>

text \<open>
  C38. Starting an embedding watcher makes the outer loop watch the descriptor of the other loop's backend
  for input and counts four references, for the watcher and the three inside it; the other loop
  is not touched. Stopping again leaves the outer loop as it was: nothing of the watcher runs or is
  pending, and its counts and its prepare and fork watchers are as before.
\<close>

theorem embed_start_then_stop:
  assumes "loop_ok K l" and "embed_typed K w" and "\<forall>x \<in> embed_parts w. \<not> is_waiting x l"
    and "0 \<le> backend_fd (ev_world l)" and "backend (ev_world l) AND ev_embeddable_backends env (ev_world l) \<noteq> 0"
  shows "\<exists>l1 l2. ev_embed_start env w l = Ok l1 \<and> loop_ok K l1 \<and> embedding w l1 \<and> activecnt l1 = activecnt l + 4 \<and>
    ev_world l1 = ev_world l \<and> ev_embed_stop w l1 = Ok l2 \<and> loop_ok K l2 \<and> (\<forall>x \<in> embed_parts w. \<not> is_waiting x l2) \<and>
    activecnt l2 = activecnt l \<and> ev_world l2 = ev_world l \<and> mset (prepares l2) = mset (prepares l) \<and>
    mset (forks l2) = mset (forks l)"
proof -
  obtain l1 where l1: "ev_embed_start env w l = Ok l1" "loop_ok K l1" "embedding w l1" "activecnt l1 = activecnt l + 4"
    "ev_world l1 = ev_world l" "prepares l1 = prepares l @ [embed_prepare w]" "forks l1 = forks l @ [embed_fork w]"
    using embed_start_ok [OF assms] by blast
  have "ev_is_active w l1" "linked (embed_io w) l1" "embed_prepare w \<in> set (prepares l1)" "embed_fork w \<in> set (forks l1)"
    using l1(3) by (simp_all add: embedding_def ev_is_active_def)
  from embed_stop_ok [OF l1(2) assms(2) this] l1 show ?thesis by auto
qed

text \<open>Address 20 is the embedding watcher; the other loop uses \<open>kqueue\<close> through descriptor 4.\<close>

definition inner_loop :: "unit ev_loop" where
  "inner_loop = (zero_loop (\<lambda>_. user_watcher) ())\<lparr>backend := EVBACKEND_KQUEUE, backend_fd := 4, backend_modify := Kqueue_modify,
     backend_poll := Kqueue_poll, kqueue_eventmax := 64, fs_fd := -1\<rparr>"

definition outer_loop :: "unit ev_loop ev_loop" where
  "outer_loop = zero_loop (\<lambda>_. user_watcher) inner_loop"

definition outer_types :: "addr \<Rightarrow> watcher_type" where
  "outer_types = (\<lambda>_. Embed_watcher)(21 := Io_watcher, 22 := Prepare_watcher, 23 := Fork_watcher)"

lemma outer_samples:
  "loop_ok outer_types outer_loop" "embed_typed outer_types 20" "\<not> is_waiting x outer_loop"
  "ev_world outer_loop = inner_loop" "activecnt outer_loop = 0" "backend_fd inner_loop = 4"
  "backend inner_loop AND ev_embeddable_backends sample_env inner_loop \<noteq> 0"
proof -
  show "loop_ok outer_types outer_loop"
    by (simp add: loop_ok_def loop_typed_def pending_ok_def refs_ok_def fds_ok_def fds_ok_for_def io_lists_ok_def io_typed_def
        heap_typed_def heap_ok_def cache_ok_def array_typed_def heap_entries_def heap_range_def
        heap_ordered_def indexed_but_def outer_loop_def zero_loop_def user_watcher_def zero_watcher_def)
  show "embed_typed outer_types 20"
    by (simp add: embed_typed_def outer_types_def embed_addr_defs)
  show "\<not> is_waiting x outer_loop"
    by (simp add: is_waiting_def ev_is_active_def outer_loop_def zero_loop_def user_watcher_def zero_watcher_def)
  show "backend inner_loop AND ev_embeddable_backends sample_env inner_loop \<noteq> 0"
    by (simp add: inner_loop_def ev_embeddable_backends_def ev_linux_version_def sample_env_def quiet_env_def ev_flag_defs)
qed (simp_all add: outer_loop_def inner_loop_def zero_loop_def)

theorem embed_start_then_stop_witness:
  "\<exists>l1 l2. ev_embed_start sample_env 20 outer_loop = Ok l1 \<and> activecnt l1 = 4 \<and> embedding 20 l1 \<and>
    ev_embed_stop 20 l1 = Ok l2 \<and> activecnt l2 = 0 \<and> loop_ok outer_types l2"
  using embed_start_then_stop [of outer_types outer_loop 20 sample_env] outer_samples by auto

text \<open>
  A fork leaves the descriptor of the other loop's backend useless. When the outer loop calls the fork watcher
  inside an embedding watcher, the other loop is told of the fork and run once, so that it gets a new
  descriptor; afterwards the outer loop watches that one, has the same number of references as before, and
  is in order.
\<close>

theorem embed_fork_rewatches:
  assumes "loop_ok K l" and "embed_typed K w" and "embedding w l"
    and "ev_run env fuel rounds EVRUN_NOWAIT (ev_loop_fork (ev_world l)) = Ok other"
    and "0 \<le> backend_fd other" and "backend other AND ev_embeddable_backends env other \<noteq> 0"
  shows "\<exists>l'. ev_invoke (embedding_env env fuel rounds outer) (embed_fork w) EV_FORK l = Ok l' \<and> loop_ok K l' \<and> embedding w l' \<and>
    w_fd (watchers l' (embed_io w)) = backend_fd other \<and> ev_world l' = other \<and> activecnt l' = activecnt l"
proof -
  have "ev_is_active w l" "linked (embed_io w) l" "embed_prepare w \<in> set (prepares l)" "embed_fork w \<in> set (forks l)"
    using assms(3) by (simp_all add: embedding_def ev_is_active_def)
  from embed_stop_ok [OF assms(1,2) this] obtain l1 where l1: "ev_embed_stop w l = Ok l1" "loop_ok K l1"
    "\<forall>x \<in> embed_parts w. \<not> is_waiting x l1" "activecnt l1 = activecnt l - 4" "ev_world l1 = ev_world l" by blast
  let ?l = "l1\<lparr>ev_world := other\<rparr>"
  have pre: "loop_ok K ?l" "\<forall>x \<in> embed_parts w. \<not> is_waiting x ?l" using l1(2,3) by (simp_all add: is_waiting_def ev_is_active_def)
  obtain l2 where l2: "ev_embed_start env w ?l = Ok l2" "loop_ok K l2" "embedding w l2" "activecnt l2 = activecnt ?l + 4"
    "ev_world l2 = ev_world ?l"
    using embed_start_ok [OF pre(1) assms(2) pre(2), of env] assms(5,6) by auto
  have "w_cb (watchers l (embed_fork w)) = Embed_fork_cb" using assms(3) by (simp add: embedding_def)
  then have "ev_invoke (embedding_env env fuel rounds outer) (embed_fork w) EV_FORK l = Ok l2"
    using l1(1,5) l2(1) assms(4)
    by (simp add: ev_invoke_def embedding_env_def embedding_cb_def embed_fork_cb_def in_other_def embed_fork_def)
  then show ?thesis using l1(4) l2(2-5) by (simp add: embedding_def)
qed

lemma quiet_fields:
  "kqueue_create sample_env w = (5, w)" "kevent_call sample_env k cs n t w = (Kevent_events [], w)" "ev_getpid sample_env w = 1"
  "close_fd sample_env fd w = w" "have_monotonic sample_env" "get_clock sample_env w = (0, w)"
  by (simp_all add: sample_env_def quiet_env_def)

lemma inner_fields:
  "pendings inner_loop = (\<lambda>_. [])" "curpid inner_loop = 0" "forks inner_loop = []" "prepares inner_loop = []" "checks inner_loop = []"
  "loop_done inner_loop = 0" "backend inner_loop = EVBACKEND_KQUEUE" "anfds inner_loop = []" "fdchanges inner_loop = []"
  "fs_fd inner_loop = -1" "mn_now inner_loop = 0" "now_floor inner_loop = 0" "backend_poll inner_loop = Kqueue_poll"
  "kqueue_changes inner_loop = []" "kqueue_eventmax inner_loop = 64" "\<not> pipe_write_skipped inner_loop" "timercnt inner_loop = 0"
  "periodiccnt inner_loop = 0" "idleall inner_loop = 0" "w_active (watchers inner_loop w) = 0"
  by (simp_all add: inner_loop_def zero_loop_def user_watcher_def zero_watcher_def)

lemma inner_run:
  "\<exists>other. ev_run sample_env 0 1 EVRUN_NOWAIT (ev_loop_fork inner_loop) = Ok other \<and> backend_fd other = 5 \<and>
    backend other = EVBACKEND_KQUEUE"
proof -
  let ?l = "inner_loop\<lparr>postfork := True, loop_depth := loop_depth inner_loop + 1, loop_done := 0\<rparr>"
  have prep: "run_prepare sample_env 0 ?l = Ok ?l" by (simp add: run_prepare_def inner_fields)
  let ?f = "?l\<lparr>kqueue_changes := [], backend_fd := 5, postfork := False\<rparr>"
  have fork: "loop_fork sample_env ?l = Ok ?f"
    by (simp add: loop_fork_def kqueue_fork_def fd_rearm_all_def infy_fork_def Let_def inner_fields quiet_fields ev_flag_defs ev_is_active_def)
  have reify: "fd_reify sample_env ?f = Ok ?f" by (simp add: fd_reify_def inner_fields)
  obtain p where poll: "run_poll sample_env EVRUN_NOWAIT ?f = Ok p" "pendings p = (\<lambda>_. [])" "backend_fd p = 5"
    "backend p = EVBACKEND_KQUEUE" "loop_done p = 0" "timercnt p = 0" "periodiccnt p = 0" "idleall p = 0" "checks p = []"
    by (simp add: run_poll_def time_update_def read_clock_def call_backend_poll_def kqueue_poll_def Let_def inner_fields quiet_fields
        run_nowait_def EVRUN_NOWAIT_def MIN_TIMEJUMP_def EVBREAK_CANCEL_def)
  have "ev_invoke_pending sample_env 0 x = Ok x" if "pendings x = (\<lambda>_. [])" for x by (rule invoke_nothing) (simp add: that)
  moreover have "run_reify sample_env p = Ok p"
    using poll by (simp add: run_reify_def timers_reify_def timer_expired_def periodics_reify_def periodic_expired_def idle_reify_def)
  ultimately have "run_rounds sample_env 0 1 EVRUN_NOWAIT ?l = Ok p"
    using prep fork reify poll by (simp add: run_round_def run_again_def EVRUN_NOWAIT_def EVRUN_ONCE_def inner_fields)
  moreover have "ev_invoke_pending sample_env 0 ?l = Ok ?l" by (rule invoke_nothing) (simp add: inner_fields)
  moreover have "ev_loop_fork inner_loop\<lparr>loop_depth := loop_depth inner_loop + 1, loop_done := EVBREAK_CANCEL\<rparr> = ?l"
    by (simp add: ev_loop_fork_def EVBREAK_CANCEL_def)
  ultimately show ?thesis
    using poll by (simp add: ev_run_def Let_def ev_loop_fork_def inner_fields EVBREAK_RECURSE_def EVBREAK_ONE_def EVBREAK_CANCEL_def g_assert_def del: run_rounds.simps)
qed

theorem embed_fork_rewatches_witness:
  "\<exists>l l'. ev_embed_start sample_env 20 outer_loop = Ok l \<and> w_fd (watchers l 21) = 4 \<and>
    ev_invoke (embedding_env sample_env 0 1 quiet_env) 23 EV_FORK l = Ok l' \<and> w_fd (watchers l' 21) = 5 \<and> activecnt l' = 4"
proof -
  obtain l where l: "ev_embed_start sample_env 20 outer_loop = Ok l" "loop_ok outer_types l" "embedding 20 l" "activecnt l = 4"
    "ev_world l = inner_loop"
    using embed_start_ok [of outer_types outer_loop 20 sample_env] outer_samples by auto
  obtain other where o: "ev_run sample_env 0 1 EVRUN_NOWAIT (ev_loop_fork inner_loop) = Ok other" "backend_fd other = 5"
    "backend other = EVBACKEND_KQUEUE"
    using inner_run by blast
  have "backend other AND ev_embeddable_backends sample_env other \<noteq> 0"
    by (simp add: o(3) ev_embeddable_backends_def ev_linux_version_def sample_env_def quiet_env_def ev_flag_defs)
  then show ?thesis
    using embed_fork_rewatches [OF l(2) outer_samples(2) l(3), of sample_env 0 1 other quiet_env] l o
    by (auto simp: embed_addr_defs embedding_def outer_samples)
qed

end
