(* ===== verification/Ev_Walk.thy ===== *)
theory Ev_Walk
  imports Ev_Embedded
begin

unbundle bit_operations_syntax

text \<open>
  Walking over the watchers of a loop (\<open>ev_walk\<close> of \<^verbatim>\<open>src/deps/ev/ev.c\<close>, which is not compiled by default). The callback
  is given the type and the address of a watcher and, by the comment in \<^verbatim>\<open>src/deps/ev/ev.h\<close>, may stop that watcher
  and do nothing else with the loop. Every watcher the callback can take out of a list has had its successor read
  before, so a walk over a list meets the list as it was; the arrays are indexed as they are at each step.
\<close>

type_synonym 'w walk_callback = "ev_mask \<Rightarrow> addr \<Rightarrow> 'w ev_loop \<Rightarrow> 'w ev_loop outcome"

definition EV_IO :: ev_mask where "EV_IO = EV_READ"

definition walk_if :: "ev_mask \<Rightarrow> ev_mask \<Rightarrow> ('w ev_loop \<Rightarrow> 'w ev_loop outcome) \<Rightarrow> 'w ev_loop \<Rightarrow> 'w ev_loop outcome" where
  "walk_if types type f l = (if types AND type \<noteq> 0 then f l else Ok l)"

primrec walk_list :: "(addr \<Rightarrow> 'w ev_loop \<Rightarrow> 'w ev_loop outcome) \<Rightarrow> addr list \<Rightarrow> 'w ev_loop \<Rightarrow> 'w ev_loop outcome" where
  "walk_list f [] l = Ok l"
| "walk_list f (w # ws) l = obind (f w l) (walk_list f ws)"

primrec walk_down ::
  "('w ev_loop \<Rightarrow> addr list) \<Rightarrow> (addr \<Rightarrow> 'w ev_loop \<Rightarrow> 'w ev_loop outcome) \<Rightarrow> nat \<Rightarrow> 'w ev_loop \<Rightarrow> 'w ev_loop outcome" where
  "walk_down arr f 0 l = Ok l"
| "walk_down arr f (Suc i) l =
     (if i \<ge> length (arr l) then Fault Out_of_bounds else obind (f (arr l ! i) l) (walk_down arr f i))"

definition walk_array ::
  "('w ev_loop \<Rightarrow> addr list) \<Rightarrow> (addr \<Rightarrow> 'w ev_loop \<Rightarrow> 'w ev_loop outcome) \<Rightarrow> 'w ev_loop \<Rightarrow> 'w ev_loop outcome" where
  "walk_array arr f l = walk_down arr f (length (arr l)) l"

primrec walk_heap ::
  "('w ev_loop \<Rightarrow> nat \<Rightarrow> anhe) \<Rightarrow> (addr \<Rightarrow> 'w ev_loop \<Rightarrow> 'w ev_loop outcome) \<Rightarrow> nat \<Rightarrow> 'w ev_loop \<Rightarrow> 'w ev_loop outcome" where
  "walk_heap heap f 0 l = Ok l"
| "walk_heap heap f (Suc i) l = obind (f (he_w (heap l (i + HEAP0))) l) (walk_heap heap f i)"

text \<open>Watchers that belong to an embedding or a stat watcher stand for that one; some of the library's own are left out.\<close>

definition walk_io :: "ev_mask \<Rightarrow> 'w walk_callback \<Rightarrow> addr \<Rightarrow> 'w ev_loop \<Rightarrow> 'w ev_loop outcome" where
  "walk_io types cb w l =
     (if w_cb (watchers l w) = Embed_io_cb then (if types AND EV_EMBED \<noteq> 0 then cb EV_EMBED (w - 1) l else Ok l)
      else if w_cb (watchers l w) = Infy_cb then Ok l
      else if w \<noteq> pipe_w then (if types AND EV_IO \<noteq> 0 then cb EV_IO w l else Ok l)
      else Ok l)"

primrec walk_fds :: "ev_mask \<Rightarrow> 'w walk_callback \<Rightarrow> nat list \<Rightarrow> 'w ev_loop \<Rightarrow> 'w ev_loop outcome" where
  "walk_fds types cb [] l = Ok l"
| "walk_fds types cb (fd # fds) l =
     obind (anfd_at fd l) (\<lambda>a. obind (walk_list (walk_io types cb) (fd_head a) l) (walk_fds types cb fds))"

definition walk_timer :: "ev_mask \<Rightarrow> 'w walk_callback \<Rightarrow> addr \<Rightarrow> 'w ev_loop \<Rightarrow> 'w ev_loop outcome" where
  "walk_timer types cb w l =
     (if w_cb (watchers l w) = Stat_timer_cb then (if types AND EV_STAT \<noteq> 0 then cb EV_STAT (w - 1) l else Ok l)
      else if types AND EV_TIMER \<noteq> 0 then cb EV_TIMER w l
      else Ok l)"

primrec walk_idles :: "'w walk_callback \<Rightarrow> nat \<Rightarrow> 'w ev_loop \<Rightarrow> 'w ev_loop outcome" where
  "walk_idles cb 0 l = Ok l"
| "walk_idles cb (Suc pri) l = obind (walk_array (\<lambda>l. idles l pri) (cb EV_IDLE) l) (walk_idles cb pri)"

definition walk_unless :: "ev_callback \<Rightarrow> (addr \<Rightarrow> 'w ev_loop \<Rightarrow> 'w ev_loop outcome) \<Rightarrow> addr \<Rightarrow> 'w ev_loop \<Rightarrow> 'w ev_loop outcome" where
  "walk_unless internal f w l = (if w_cb (watchers l w) \<noteq> internal then f w l else Ok l)"

primrec walk_signals :: "'w walk_callback \<Rightarrow> nat list \<Rightarrow> 'w ev_loop \<Rightarrow> 'w ev_loop outcome" where
  "walk_signals cb [] l = Ok l"
| "walk_signals cb (i # is) l =
     (if i \<ge> length (signals l) then Fault Out_of_bounds
      else obind (walk_list (cb EV_SIGNAL) (sig_head (signals l ! i)) l) (walk_signals cb is))"

primrec walk_childs :: "'w walk_callback \<Rightarrow> nat \<Rightarrow> 'w ev_loop \<Rightarrow> 'w ev_loop outcome" where
  "walk_childs cb 0 l = Ok l"
| "walk_childs cb (Suc i) l = obind (walk_list (cb EV_CHILD) (childs l i) l) (walk_childs cb i)"

definition ev_walk :: "ev_mask \<Rightarrow> 'w walk_callback \<Rightarrow> 'w ev_loop \<Rightarrow> 'w ev_loop outcome" where
  "ev_walk types cb l =
     obind (walk_if types (EV_IO OR EV_EMBED) (\<lambda>l. walk_fds types cb [0..<length (anfds l)] l) l) (\<lambda>l.
     obind (walk_if types (EV_TIMER OR EV_STAT) (\<lambda>l. walk_heap timers (walk_timer types cb) (timercnt l) l) l) (\<lambda>l.
     obind (walk_if types EV_PERIODIC (\<lambda>l. walk_heap periodics (cb EV_PERIODIC) (periodiccnt l) l) l) (\<lambda>l.
     obind (walk_if types EV_IDLE (walk_idles cb NUMPRI) l) (\<lambda>l.
     obind (walk_if types EV_FORK (walk_array forks (walk_unless Embed_fork_cb (cb EV_FORK))) l) (\<lambda>l.
     obind (walk_if types EV_ASYNC (walk_array asyncs (cb EV_ASYNC)) l) (\<lambda>l.
     obind (walk_if types EV_PREPARE (walk_array prepares (walk_unless Embed_prepare_cb (cb EV_PREPARE))) l) (\<lambda>l.
     obind (walk_if types EV_CHECK (walk_array checks (cb EV_CHECK)) l) (\<lambda>l.
     obind (walk_if types EV_SIGNAL (walk_signals cb [0..<nat (EV_NSIG - 1)]) l) (\<lambda>l.
     walk_if types EV_CHILD (walk_childs cb (nat EV_PID_HASHSIZE)) l)))))))))"

section \<open>Stopping everything\<close>

text \<open>The callback that stops what it is given.\<close>

definition stop_by_type :: "'w walk_callback" where
  "stop_by_type type w l =
     (if type = EV_IO then ev_io_stop w l
      else if type = EV_TIMER then ev_timer_stop w l
      else if type = EV_PREPARE then ev_prepare_stop w l
      else if type = EV_CHECK then ev_check_stop w l
      else if type = EV_FORK then ev_fork_stop w l
      else Ok l)"

context typed_array
begin

text \<open>Going down an array, the element that is stopped is always the last one.\<close>

lemma walk_down_stops:
  assumes "loop_ok K l" "\<And>w l. P l \<Longrightarrow> w \<in> set (arr l) \<Longrightarrow> f w l = stop w l" "P l"
    and "\<And>w l l'. P l \<Longrightarrow> stop w l = Ok l' \<Longrightarrow> P l'"
  shows "\<exists>l'. walk_down arr f (length (arr l)) l = Ok l' \<and> loop_ok K l' \<and> arr l' = [] \<and> P l' \<and> rest l' = rest l"
  using assms(1,3)
proof (induction "length (arr l)" arbitrary: l)
  case 0
  then show ?case by auto
next
  case (Suc n)
  let ?w = "arr l ! n"
  have w: "?w \<in> set (arr l)" using Suc.hyps(2) by (metis lessI nth_mem)
  obtain l' where l': "stop ?w l = Ok l'" "loop_ok K l'" "mset (arr l') + {#?w#} = mset (arr l)" "rest l' = rest l"
    using stop_ok [OF Suc.prems(1) w] by blast
  have "length (arr l') = n"
    using arg_cong [OF l'(3), of size] Suc.hyps(2) by simp
  moreover have "P l'" using assms(4) [OF Suc.prems(2) l'(1)] .
  ultimately obtain l'' where "walk_down arr f n l' = Ok l''" "loop_ok K l''" "arr l'' = []" "P l''" "rest l'' = rest l'"
    using Suc.hyps(1) [of l'] l'(2) by auto
  moreover have "f ?w l = Ok l'" using assms(2) [OF Suc.prems(2) w] l'(1) by simp
  ultimately show ?case
    using l'(4) by (simp add: Suc.hyps(2) [symmetric])
qed

end


text \<open>Watchers that all belong to the user.\<close>

definition plain :: "'w ev_loop \<Rightarrow> bool" where
  "plain l \<longleftrightarrow> (\<forall>x. w_cb (watchers l x) \<notin> {Embed_io_cb, Embed_prepare_cb, Embed_fork_cb, Infy_cb, Stat_timer_cb})"

lemma plain_cong: "(\<And>x. w_cb (watchers l' x) = w_cb (watchers l x)) \<Longrightarrow> plain l' = plain l"
  by (simp add: plain_def)

lemma clear_pending_cb: "w_cb (watchers (clear_pending w l) x) = w_cb (watchers l x)"
  by (simp add: clear_pending_def Let_def)

lemma array_stop_cb:
  "ev_prepare_stop w l = Ok l' \<Longrightarrow> w_cb (watchers l' x) = w_cb (watchers l x)"
  "ev_check_stop w l = Ok l' \<Longrightarrow> w_cb (watchers l' x) = w_cb (watchers l x)"
  "ev_fork_stop w l = Ok l' \<Longrightarrow> w_cb (watchers l' x) = w_cb (watchers l x)"
  by (auto simp: ev_prepare_stop_def ev_check_stop_def ev_fork_stop_def ev_stop_def ev_unref_def activate_def obind_eq_Ok Let_def
      clear_pending_cb split: if_splits)

lemma walk_fd_stops:
  assumes "loop_ok K l" "plain l" "fd < length (anfds l)" "pipe_w \<notin> set (fd_head (anfds l ! fd))" "types AND EV_IO \<noteq> 0"
  shows "\<exists>l'. walk_list (walk_io types stop_by_type) (fd_head (anfds l ! fd)) l = Ok l' \<and> loop_ok K l' \<and> plain l' \<and>
    length (anfds l') = length (anfds l) \<and> fd_head (anfds l' ! fd) = [] \<and>
    (\<forall>k < length (anfds l). k \<noteq> fd \<longrightarrow> fd_head (anfds l' ! k) = fd_head (anfds l ! k))"
  using assms(1-4)
proof (induction "fd_head (anfds l ! fd)" arbitrary: l)
  case Nil
  from Nil(1) [symmetric] Nil(2-) show ?case by auto
next
  case (Cons w ws)
  have w: "w \<in> set (fd_head (anfds l ! fd))" using Cons.hyps(2) [symmetric] by simp
  note d = loop_okD [OF Cons.prems(1)]
  obtain l' where l': "ev_io_stop w l = Ok l'" "length (anfds l') = length (anfds l)"
    "\<And>k. k < length (anfds l) \<Longrightarrow> fd_head (anfds l' ! k) =
       (if k = fd then remove1 w (fd_head (anfds l ! k)) else fd_head (anfds l ! k))"
    "watchers l' = (watchers (clear_pending w l))(w := (watchers (clear_pending w l) w)\<lparr>w_active := 0\<rparr>)"
    using poll.ev_io_stop_ok [OF d(2,3) Cons.prems(3) w] by blast
  have "linked w l" using Cons.prems(3) w by (auto simp: linked_def)
  then have ok: "loop_ok K l'" using io_stop_loop_ok [OF Cons.prems(1)] l'(1) by force
  have plain: "plain l'" using Cons.prems(2) by (subst plain_cong [of _ l]) (simp_all add: l'(4) clear_pending_cb)
  have hd: "fd_head (anfds l' ! fd) = ws" using l'(3) [OF Cons.prems(3)] Cons.hyps(2) [symmetric] by simp
  have "w \<noteq> pipe_w" using w Cons.prems(4) by blast
  then have step: "walk_io types stop_by_type w l = Ok l'"
    using Cons.prems(2) assms(5) l'(1) by (simp add: walk_io_def plain_def stop_by_type_def)
  have "pipe_w \<notin> set ws" using Cons.prems(4) by (simp add: Cons.hyps(2) [symmetric])
  from Cons.hyps(1) [of l'] this obtain l'' where "walk_list (walk_io types stop_by_type) ws l' = Ok l''" "loop_ok K l''" "plain l''"
    "length (anfds l'') = length (anfds l')" "fd_head (anfds l'' ! fd) = []"
    "\<forall>k < length (anfds l'). k \<noteq> fd \<longrightarrow> fd_head (anfds l'' ! k) = fd_head (anfds l' ! k)"
    using hd ok plain Cons.prems(3) l'(2) by auto
  then show ?case using step l'(2,3) by (simp add: Cons.hyps(2) [symmetric])
qed

lemma walk_fds_stops:
  assumes "loop_ok K l" "plain l" "set fds \<subseteq> {..<length (anfds l)}" "distinct fds"
    "\<forall>fd < length (anfds l). pipe_w \<notin> set (fd_head (anfds l ! fd))" "types AND EV_IO \<noteq> 0"
  shows "\<exists>l'. walk_fds types stop_by_type fds l = Ok l' \<and> loop_ok K l' \<and> plain l' \<and> length (anfds l') = length (anfds l) \<and>
    (\<forall>fd \<in> set fds. fd_head (anfds l' ! fd) = []) \<and>
    (\<forall>k < length (anfds l). k \<notin> set fds \<longrightarrow> fd_head (anfds l' ! k) = fd_head (anfds l ! k))"
  using assms(1-5)
proof (induction fds arbitrary: l)
  case (Cons fd fds)
  have fd: "fd < length (anfds l)" using Cons.prems(3) by simp
  obtain l1 where l1: "walk_list (walk_io types stop_by_type) (fd_head (anfds l ! fd)) l = Ok l1" "loop_ok K l1" "plain l1"
    "length (anfds l1) = length (anfds l)" "fd_head (anfds l1 ! fd) = []"
    "\<forall>k < length (anfds l). k \<noteq> fd \<longrightarrow> fd_head (anfds l1 ! k) = fd_head (anfds l ! k)"
    using walk_fd_stops [OF Cons.prems(1,2) fd _ assms(6)] Cons.prems(5) fd by blast
  have "pipe_w \<notin> set (fd_head (anfds l1 ! k))" if "k < length (anfds l1)" for k
    using that l1(4-6) Cons.prems(5) by (cases "k = fd") auto
  from Cons.IH [OF l1(2,3) _ _ ] this obtain l2 where "walk_fds types stop_by_type fds l1 = Ok l2" "loop_ok K l2" "plain l2"
    "length (anfds l2) = length (anfds l1)" "\<forall>fd \<in> set fds. fd_head (anfds l2 ! fd) = []"
    "\<forall>k < length (anfds l1). k \<notin> set fds \<longrightarrow> fd_head (anfds l2 ! k) = fd_head (anfds l1 ! k)"
    using Cons.prems(3,4) l1(4) by auto
  then show ?case using l1 fd Cons.prems(4) by (simp add: anfd_at_def)
qed simp

lemma timer_stop_last:
  assumes ok: "loop_ok K l" and n: "timercnt l = Suc n" and w: "w = he_w (timers l (n + HEAP0))"
  shows "\<exists>l'. ev_timer_stop w l = Ok l' \<and> loop_ok K l' \<and> timercnt l' = n \<and> anfds l' = anfds l \<and>
    (\<forall>x. w_cb (watchers l' x) = w_cb (watchers l x))"
proof -
  have t: "n + HEAP0 \<in> heap_range HEAP0 (timercnt l)" by (simp add: heap_range_def n)
  then have he: "timers l (n + HEAP0) \<in> timer_entries l" by (auto simp: timer_entries_def heap_entries_def)
  have act: "w_active (watchers l w) = n + HEAP0"
    using loop_okD(6) [OF ok] t unfolding w by (simp add: timers_ok_def heap_ok_def indexed_but_def)
  obtain l' where l': "ev_timer_stop w l = Ok l'" "timercnt l = Suc (timercnt l')"
    using ev_timer_stop_ok [OF loop_okD(6) [OF ok] he] unfolding w by blast
  have "loop_ok K l'" using timer_stop_loop_ok [OF ok, of w] he l'(1) w by auto
  moreover have "w_cb (watchers l' x) = w_cb (watchers l x)" for x
    using l'(1) n act by (auto simp: ev_timer_stop_def Let_def obind_eq_Ok ev_stop_def ev_unref_def clear_pending_cb clear_pending_keeps
        clear_pending_timers ev_is_active_def split: if_splits)
  moreover have "anfds l' = anfds l" using timer_stop_same [OF l'(1)] by (simp add: same_but_def)
  ultimately show ?thesis using l' n by simp
qed

lemma walk_timers_stops:
  assumes "loop_ok K l" "plain l" "types AND EV_TIMER \<noteq> 0"
  shows "\<exists>l'. walk_heap timers (walk_timer types stop_by_type) (timercnt l) l = Ok l' \<and> loop_ok K l' \<and> plain l' \<and>
    timercnt l' = 0 \<and> anfds l' = anfds l"
  using assms(1,2)
proof (induction "timercnt l" arbitrary: l)
  case 0
  then show ?case by auto
next
  case (Suc n)
  obtain l' where l': "ev_timer_stop (he_w (timers l (n + HEAP0))) l = Ok l'" "loop_ok K l'" "timercnt l' = n" "anfds l' = anfds l"
    "\<forall>x. w_cb (watchers l' x) = w_cb (watchers l x)"
    using timer_stop_last [OF Suc.prems(1) Suc.hyps(2) [symmetric] refl] by blast
  have plain: "plain l'" using Suc.prems(2) l'(5) by (simp add: plain_cong [of l' l])
  have "walk_timer types stop_by_type (he_w (timers l (n + HEAP0))) l = Ok l'"
    using Suc.prems(2) assms(3) l'(1) by (simp add: walk_timer_def plain_def stop_by_type_def EV_TIMER_def EV_IO_def EV_READ_def)
  then show ?case using Suc.hyps(1) [OF _ l'(2) plain] l'(3,4) by (simp add: Suc.hyps(2) [symmetric])
qed

lemma walk_array_stops:
  assumes "loop_ok K l" "plain l"
  shows "\<exists>l'. walk_array forks (walk_unless Embed_fork_cb (stop_by_type EV_FORK)) l = Ok l' \<and> loop_ok K l' \<and> plain l' \<and> forks l' = [] \<and>
      same_but Fork_watcher l' l"
    "\<exists>l'. walk_array prepares (walk_unless Embed_prepare_cb (stop_by_type EV_PREPARE)) l = Ok l' \<and> loop_ok K l' \<and> plain l' \<and> prepares l' = [] \<and>
      same_but Prepare_watcher l' l"
    "\<exists>l'. walk_array checks (stop_by_type EV_CHECK) l = Ok l' \<and> loop_ok K l' \<and> plain l' \<and> checks l' = [] \<and> same_but Check_watcher l' l"
proof -
  have f: "walk_unless Embed_fork_cb (stop_by_type EV_FORK) w l = ev_fork_stop w l"
    "walk_unless Embed_prepare_cb (stop_by_type EV_PREPARE) w l = ev_prepare_stop w l"
    "stop_by_type EV_CHECK w l = ev_check_stop w l" if "plain l" for w and l :: "'a ev_loop"
    using that by (simp_all add: walk_unless_def plain_def stop_by_type_def EV_IO_def ev_mask_defs)
  have p: "plain l \<Longrightarrow> ev_fork_stop w l = Ok l' \<Longrightarrow> plain l'" "plain l \<Longrightarrow> ev_prepare_stop w l = Ok l' \<Longrightarrow> plain l'"
    "plain l \<Longrightarrow> ev_check_stop w l = Ok l' \<Longrightarrow> plain l'" for w and l l' :: "'a ev_loop"
    by (simp_all add: plain_def array_stop_cb)
  have "\<exists>l'. walk_down forks (walk_unless Embed_fork_cb (stop_by_type EV_FORK)) (length (forks l)) l = Ok l' \<and> loop_ok K l' \<and> forks l' = [] \<and> plain l' \<and>
      l'\<lparr>forks := [], watchers := (\<lambda>_. zero_watcher), pendings := (\<lambda>_. []), activecnt := 0\<rparr> =
      l\<lparr>forks := [], watchers := (\<lambda>_. zero_watcher), pendings := (\<lambda>_. []), activecnt := 0\<rparr>"
    by (rule fork_array.walk_down_stops [where P = plain, OF assms(1) _ assms(2)]) (use f p in blast)+
  then show "\<exists>l'. walk_array forks (walk_unless Embed_fork_cb (stop_by_type EV_FORK)) l = Ok l' \<and> loop_ok K l' \<and> plain l' \<and> forks l' = [] \<and>
      same_but Fork_watcher l' l"
    unfolding walk_array_def using fork_array.rest_same by blast
  have "\<exists>l'. walk_down prepares (walk_unless Embed_prepare_cb (stop_by_type EV_PREPARE)) (length (prepares l)) l = Ok l' \<and> loop_ok K l' \<and> prepares l' = [] \<and> plain l' \<and>
      l'\<lparr>prepares := [], watchers := (\<lambda>_. zero_watcher), pendings := (\<lambda>_. []), activecnt := 0\<rparr> =
      l\<lparr>prepares := [], watchers := (\<lambda>_. zero_watcher), pendings := (\<lambda>_. []), activecnt := 0\<rparr>"
    by (rule prepare_array.walk_down_stops [where P = plain, OF assms(1) _ assms(2)]) (use f p in blast)+
  then show "\<exists>l'. walk_array prepares (walk_unless Embed_prepare_cb (stop_by_type EV_PREPARE)) l = Ok l' \<and> loop_ok K l' \<and> plain l' \<and> prepares l' = [] \<and>
      same_but Prepare_watcher l' l"
    unfolding walk_array_def using prepare_array.rest_same by blast
  have "\<exists>l'. walk_down checks (stop_by_type EV_CHECK) (length (checks l)) l = Ok l' \<and> loop_ok K l' \<and> checks l' = [] \<and> plain l' \<and>
      l'\<lparr>checks := [], watchers := (\<lambda>_. zero_watcher), pendings := (\<lambda>_. []), activecnt := 0\<rparr> =
      l\<lparr>checks := [], watchers := (\<lambda>_. zero_watcher), pendings := (\<lambda>_. []), activecnt := 0\<rparr>"
    by (rule check_array.walk_down_stops [where P = plain, OF assms(1) _ assms(2)]) (use f p in blast)+
  then show "\<exists>l'. walk_array checks (stop_by_type EV_CHECK) l = Ok l' \<and> loop_ok K l' \<and> plain l' \<and> checks l' = [] \<and>
      same_but Check_watcher l' l"
    unfolding walk_array_def using check_array.rest_same by blast
qed

section \<open>Properties\<close>

text \<open>
  Walking over the io watchers, timers, prepare, check and fork watchers with a callback that stops what it is given, the use that the
  comment allows, ends with none of them left and the loop in order: no assertion fails and nothing
  outside an array is read although the arrays and the heap shrink under the walk.
\<close>

theorem walk_stops_all:
  assumes "loop_ok K l" and "plain l" and "\<not> linked pipe_w l"
  shows "\<exists>l'. ev_walk (EV_IO OR EV_TIMER OR EV_PREPARE OR EV_CHECK OR EV_FORK) stop_by_type l = Ok l' \<and> loop_ok K l' \<and>
    (\<forall>w. \<not> linked w l') \<and> timercnt l' = 0 \<and> prepares l' = [] \<and> checks l' = [] \<and> forks l' = []"
proof -
  let ?t = "EV_IO OR EV_TIMER OR EV_PREPARE OR EV_CHECK OR EV_FORK"
  have t: "?t AND EV_IO \<noteq> 0" "?t AND EV_TIMER \<noteq> 0" "?t AND (EV_IO OR EV_EMBED) \<noteq> 0" "?t AND (EV_TIMER OR EV_STAT) \<noteq> 0"
    "?t AND EV_FORK \<noteq> 0" "?t AND EV_PREPARE \<noteq> 0" "?t AND EV_CHECK \<noteq> 0"
    "?t AND EV_PERIODIC = 0" "?t AND EV_IDLE = 0" "?t AND EV_ASYNC = 0" "?t AND EV_SIGNAL = 0" "?t AND EV_CHILD = 0"
    by (simp_all add: EV_IO_def ev_mask_defs)
  have fds: "set [0..<length (anfds l)] \<subseteq> {..<length (anfds l)}" "\<forall>fd < length (anfds l). pipe_w \<notin> set (fd_head (anfds l ! fd))"
    using assms(3) by (auto simp: linked_def)
  obtain l1 where l1: "walk_fds ?t stop_by_type [0..<length (anfds l)] l = Ok l1" "loop_ok K l1" "plain l1"
    "length (anfds l1) = length (anfds l)" "\<forall>fd \<in> set [0..<length (anfds l)]. fd_head (anfds l1 ! fd) = []"
    using walk_fds_stops [OF assms(1,2) fds(1) distinct_upt fds(2) t(1)] by blast
  obtain l2 where l2: "walk_heap timers (walk_timer ?t stop_by_type) (timercnt l1) l1 = Ok l2" "loop_ok K l2" "plain l2"
    "timercnt l2 = 0" "anfds l2 = anfds l1"
    using walk_timers_stops [OF l1(2,3) t(2)] by blast
  obtain l3 where l3: "walk_array forks (walk_unless Embed_fork_cb (stop_by_type EV_FORK)) l2 = Ok l3" "loop_ok K l3" "plain l3"
    "forks l3 = []" "same_but Fork_watcher l3 l2"
    using walk_array_stops(1) [OF l2(2,3)] by blast
  obtain l4 where l4: "walk_array prepares (walk_unless Embed_prepare_cb (stop_by_type EV_PREPARE)) l3 = Ok l4" "loop_ok K l4" "plain l4"
    "prepares l4 = []" "same_but Prepare_watcher l4 l3"
    using walk_array_stops(2) [OF l3(2,3)] by blast
  obtain l5 where l5: "walk_array checks (stop_by_type EV_CHECK) l4 = Ok l5" "loop_ok K l5" "checks l5 = []" "same_but Check_watcher l5 l4"
    using walk_array_stops(3) [OF l4(2,3)] by blast
  have same: "anfds l5 = anfds l1" "timercnt l5 = 0" "prepares l5 = []" "forks l5 = []"
    using l2(4,5) l3(4,5) l4(4,5) l5(4) by (simp_all add: same_but_def)
  have "ev_walk ?t stop_by_type l = Ok l5"
    unfolding ev_walk_def walk_if_def using t l1(1) l2(1) l3(1) l4(1) l5(1) by simp
  moreover have "\<not> linked w l5" for w using l1(4,5) same(1) by (simp add: linked_def)
  ultimately show ?thesis using l5(2,3) same by blast
qed

theorem walk_stops_all_witness:
  "\<exists>l'. ev_walk (EV_IO OR EV_TIMER OR EV_PREPARE OR EV_CHECK OR EV_FORK) stop_by_type timer_loop = Ok l' \<and> timercnt l' = 0"
proof -
  have "loop_ok sample_types timer_loop"
    using timer_loop_typed by (simp add: loop_ok_def fds_ok_def fds_ok_for_def io_lists_ok_def)
      (simp add: timer_loop_def zero_loop_def)
  moreover have "plain timer_loop" by (simp add: plain_def timer_loop_fields user_watcher_fields)
  moreover have "\<not> linked pipe_w timer_loop" by (simp add: linked_def timer_loop_def zero_loop_def)
  ultimately show ?thesis using walk_stops_all by blast
qed

text \<open>
  Ten timers in a heap: the one at address 112 is the last, under the timer at 105; the ones at 108 to
  111 are under the timer at 104, which is due later than the last one.
\<close>

definition walk_due :: "nat \<Rightarrow> ev_tstamp" where
  "walk_due k = (if k = 3 then 1 else if k = 4 then 10 else if k = 5 then 2 else if k = 12 then 3 else 20)"

definition walk_loop :: "addr list ev_loop" where
  "walk_loop = (zero_loop (\<lambda>x. if 103 \<le> x \<and> x \<le> 112 then user_watcher\<lparr>w_active := x - 100, w_at := walk_due (x - 100)\<rparr>
       else user_watcher) [])
     \<lparr>activecnt := 10, timercnt := 10, timers := (\<lambda>k. \<lparr>he_at = walk_due k, he_w = 100 + k\<rparr>)\<rparr>"

text \<open>A callback that notes the watchers and stops one of them.\<close>

definition note_and_stop :: "addr \<Rightarrow> addr list walk_callback" where
  "note_and_stop u type w l =
     (let l = l\<lparr>ev_world := ev_world l @ [w]\<rparr> in if w = u then ev_timer_stop w l else Ok l)"

lemma walk_loop_fields:
  "timers walk_loop = (\<lambda>k. \<lparr>he_at = walk_due k, he_w = 100 + k\<rparr>)" "timercnt walk_loop = 10" "ev_world walk_loop = []"
  "watchers walk_loop = (\<lambda>x. if 103 \<le> x \<and> x \<le> 112 then user_watcher\<lparr>w_active := x - 100, w_at := walk_due (x - 100)\<rparr> else user_watcher)"
  "pendings walk_loop = (\<lambda>_. [])"
  by (simp_all add: walk_loop_def zero_loop_def)

lemma walk_range: "k \<in> heap_range 3 10 \<longleftrightarrow> 3 \<le> k \<and> k \<le> 12"
  by (auto simp: heap_range_def)

lemma walk_parent: "3 < k \<Longrightarrow> k \<le> 12 \<Longrightarrow> walk_due (HPARENT k) \<le> walk_due k"
proof -
  assume k: "3 < k" "k \<le> 12"
  then have "k \<in> {4, 5, 6, 7, 8, 9, 10, 11, 12}" by auto
  then show ?thesis by (elim insertE emptyE) (simp_all add: HPARENT_def walk_due_def)
qed

lemma walk_loop_typed: "loop_ok (\<lambda>_. Timer_watcher) walk_loop"
proof -
  have heap: "heap_ok 10 (timers walk_loop) (watchers walk_loop)"
    unfolding heap_ok_def indexed_but_def heap_ordered_def
    by (auto simp: walk_range walk_loop_fields walk_parent inj_on_def)
  have "cache_ok (heap_entries 10 (timers walk_loop)) (watchers walk_loop)"
    by (auto simp: cache_ok_def heap_entries_def walk_range walk_loop_fields)
  moreover have "good_pri (watchers walk_loop x)" for x
    by (simp add: good_pri_def walk_loop_fields user_watcher_fields EV_MINPRI_def EV_MAXPRI_def)
  ultimately show ?thesis using heap
    by (simp add: loop_ok_def loop_typed_def heap_typed_def pending_ok_def refs_ok_def walk_loop_fields user_watcher_fields fds_ok_def
        fds_ok_for_def io_lists_ok_def io_typed_def array_typed_def)
      (simp add: walk_loop_def zero_loop_def heap_ok_def indexed_but_def heap_ordered_def heap_range_def cache_ok_def heap_entries_def)
qed

lemma walk_up:
  "upheap_loop \<lparr>he_at = 3, he_w = 112\<rparr> ((timers walk_loop)(8 := x)) ws 8 =
     ((timers walk_loop)(8 := \<lparr>he_at = 10, he_w = 104\<rparr>, 4 := \<lparr>he_at = 3, he_w = 112\<rparr>), set_active 112 4 (set_active 104 8 ws))"
  by (subst upheap_loop.simps, simp add: HPARENT_def walk_loop_fields walk_due_def,
      subst upheap_loop.simps, simp add: HPARENT_def walk_loop_fields walk_due_def fun_upd_twist)

lemma walk_heap_numeral:
  "walk_heap heap f (numeral k) l = obind (f (he_w (heap l (pred_numeral k + HEAP0))) l) (walk_heap heap f (pred_numeral k))"
  by (simp add: numeral_eq_Suc)

lemma walk_stop_108:
  assumes "timers l = timers walk_loop" "timercnt l = 10" "watchers l = watchers walk_loop"
  shows "\<exists>l'. ev_timer_stop 108 l = Ok l' \<and> timercnt l' = 9 \<and> ev_world l' = ev_world l \<and>
    timers l' = (timers walk_loop)(8 := \<lparr>he_at = 10, he_w = 104\<rparr>, 4 := \<lparr>he_at = 3, he_w = 112\<rparr>) \<and>
    w_active (watchers l' 104) = 8 \<and> (\<forall>x. w_cb (watchers l' x) = User_cb 0)"
proof -
  have w: "w_active (watchers l 108) = 8" "w_pending (watchers l 108) = 0" "clear_pending 108 l = l"
    by (simp_all add: assms(3) walk_loop_fields user_watcher_fields clear_pending_def)
  have t: "timers l 8 = \<lparr>he_at = 20, he_w = 108\<rparr>" "timers l 12 = \<lparr>he_at = 3, he_w = 112\<rparr>" "timers l 4 = \<lparr>he_at = 10, he_w = 104\<rparr>"
    by (simp_all add: assms(1) walk_loop_fields walk_due_def)
  have "adjustheap ((timers l)(8 := timers l 12)) 9 8 (watchers l) =
      ((timers walk_loop)(8 := \<lparr>he_at = 10, he_w = 104\<rparr>, 4 := \<lparr>he_at = 3, he_w = 112\<rparr>),
       set_active 112 4 (set_active 104 8 (watchers l)))"
    using walk_up [of "\<lparr>he_at = 3, he_w = 112\<rparr>" "watchers l"] t
    by (simp add: adjustheap_def HPARENT_def upheap_def assms(1))
  moreover have "w_cb (watchers l x) = User_cb 0" for x by (simp add: assms(3) walk_loop_fields user_watcher_fields)
  ultimately show ?thesis
    using w t assms(2)
    by (simp add: ev_timer_stop_def Let_def ev_is_active_def g_assert_def put_timers_def ev_stop_def ev_unref_def set_active_def upd_watcher_def)
qed

text \<open>
  The comment promises the callback for every watcher, whether or not it stops the ones it is given. With timers that is not so:
  stopping a timer in the middle of the heap moves the last one into its place, and that can sink the timer above it to a place that
  the walk has passed. Then one timer is met twice, and another that still runs is never met.
\<close>

theorem walk_misses_timer:
  "loop_ok (\<lambda>_. Timer_watcher) walk_loop \<and> 104 \<in> he_w ` timer_entries walk_loop \<and>
   (\<exists>l'. ev_walk EV_TIMER (note_and_stop 108) walk_loop = Ok l' \<and>
      ev_world l' = [112, 111, 110, 109, 108, 107, 106, 105, 112, 103] \<and> ev_is_active 104 l')"
proof (intro conjI)
  show "loop_ok (\<lambda>_. Timer_watcher) walk_loop" by (rule walk_loop_typed)
  have "timers walk_loop 4 \<in> timer_entries walk_loop"
    by (auto simp: timer_entries_def heap_entries_def walk_range walk_loop_fields)
  moreover have "he_w (timers walk_loop 4) = 104" by (simp add: walk_loop_fields)
  ultimately show "104 \<in> he_w ` timer_entries walk_loop" by (metis image_eqI)
  have note_other: "walk_timer EV_TIMER (note_and_stop 108) w l = Ok (l\<lparr>ev_world := ev_world l @ [w]\<rparr>)"
    if "w \<noteq> 108" "w_cb (watchers l w) = User_cb 0" for w and l :: "addr list ev_loop"
    using that by (simp add: walk_timer_def note_and_stop_def Let_def EV_TIMER_def)
  let ?f = "walk_timer EV_TIMER (note_and_stop 108)" and ?l = "walk_loop\<lparr>ev_world := [112, 111, 110, 109]\<rparr>"
  have cb: "w_cb (watchers walk_loop w) = User_cb 0" for w by (simp add: walk_loop_fields user_watcher_fields)
  have up: "walk_heap timers ?f 10 walk_loop = walk_heap timers ?f 6 ?l"
    by (simp add: walk_heap_numeral note_other cb walk_loop_fields(1-3))
  obtain l1 where stop: "ev_timer_stop 108 (walk_loop\<lparr>ev_world := [112, 111, 110, 109, 108]\<rparr>) = Ok l1"
    and l1: "ev_world l1 = [112, 111, 110, 109, 108]"
    "timers l1 = (timers walk_loop)(8 := \<lparr>he_at = 10, he_w = 104\<rparr>, 4 := \<lparr>he_at = 3, he_w = 112\<rparr>)"
    "w_active (watchers l1 104) = 8" "\<And>w. w_cb (watchers l1 w) = User_cb 0"
    using walk_stop_108 [of "walk_loop\<lparr>ev_world := [112, 111, 110, 109, 108]\<rparr>"] by (simp add: walk_loop_fields(1-3)) blast
  have "?f 108 ?l = Ok l1" using stop cb by (simp add: walk_timer_def note_and_stop_def Let_def EV_TIMER_def)
  then have down: "walk_heap timers ?f 6 ?l = walk_heap timers ?f 5 l1"
    by (simp add: walk_heap_numeral walk_loop_fields(1-3))
  have rest: "walk_heap timers ?f 5 l1 = Ok (l1\<lparr>ev_world := [112, 111, 110, 109, 108, 107, 106, 105, 112, 103]\<rparr>)"
    by (simp add: walk_heap_numeral note_other l1 walk_loop_fields(1-3))
  have "ev_walk EV_TIMER (note_and_stop 108) walk_loop =
      Ok (l1\<lparr>ev_world := [112, 111, 110, 109, 108, 107, 106, 105, 112, 103]\<rparr>)"
    using up down rest by (simp add: ev_walk_def walk_if_def EV_IO_def ev_mask_defs walk_loop_fields(1-3))
  then show "\<exists>l'. ev_walk EV_TIMER (note_and_stop 108) walk_loop = Ok l' \<and>
      ev_world l' = [112, 111, 110, 109, 108, 107, 106, 105, 112, 103] \<and> ev_is_active 104 l'"
    using l1(3) by (simp add: ev_is_active_def)
qed

end
