(* ===== verification/Ecb.thy ===== *)
theory Ecb
  imports "HOL-Library.Word" "HOL-Library.Signed_Division"
begin

unbundle bit_operations_syntax

text \<open>
  The compiler helpers that libev carries (\<^verbatim>\<open>ecb.h\<close>, pasted into \<^verbatim>\<open>src/deps/ev/ev.c\<close>), in the form for
  compilers without built-in functions: counting and finding bits, reversing bits and bytes, rotating,
  and division that rounds down or up. \<open>None\<close> stands for behaviour that C leaves undefined.
\<close>

section \<open>The code\<close>

text \<open>
  A word of at least the width of \<open>int\<close> is shifted by less than its width. Shorter ones become
  \<open>int\<close>, which a shift to the left must not leave.
\<close>

definition c_shr :: "'a::len word \<Rightarrow> 32 word \<Rightarrow> 'a word option" where
  "c_shr x n = (if unat n < LENGTH('a) then Some (drop_bit (unat n) x) else None)"

definition c_shl :: "'a::len word \<Rightarrow> 32 word \<Rightarrow> 'a word option" where
  "c_shl x n = (if unat n < LENGTH('a) then Some (push_bit (unat n) x) else None)"

definition int_shl :: "32 word \<Rightarrow> 32 word \<Rightarrow> 32 word option" where
  "int_shl x n = (if unat n < 32 \<and> unat x * 2 ^ unat n < 2 ^ 31 then Some (push_bit (unat n) x) else None)"

text \<open>The first step of \<open>ecb_ctz32\<close> leaves one bit, which the others look for.\<close>

definition ctz_single :: "32 word \<Rightarrow> int" where
  "ctz_single x =
     (let r = 0;
          r = (if x AND 0xaaaaaaaa \<noteq> 0 then r + 1 else r);
          r = (if x AND 0xcccccccc \<noteq> 0 then r + 2 else r);
          r = (if x AND 0xf0f0f0f0 \<noteq> 0 then r + 4 else r);
          r = (if x AND 0xff00ff00 \<noteq> 0 then r + 8 else r)
      in if x AND 0xffff0000 \<noteq> 0 then r + 16 else r)"

definition ecb_ctz32 :: "32 word \<Rightarrow> int" where
  "ecb_ctz32 x = ctz_single (x AND (NOT x + 1))"

definition ecb_ctz64 :: "64 word \<Rightarrow> int" where
  "ecb_ctz64 x =
     (let shift = (if x AND 0xffffffff \<noteq> 0 then 0 else 32)
      in ecb_ctz32 (ucast (drop_bit (nat shift) x)) + shift)"

definition ecb_popcount32 :: "32 word \<Rightarrow> int" where
  "ecb_popcount32 x =
     (let x = x - (drop_bit 1 x AND 0x55555555);
          x = (drop_bit 2 x AND 0x33333333) + (x AND 0x33333333);
          x = (drop_bit 4 x + x) AND 0x0f0f0f0f;
          x = x * 0x01010101
      in uint (drop_bit 24 x))"

definition ecb_ld32 :: "32 word \<Rightarrow> int" where
  "ecb_ld32 x =
     (let r = 0;
          (x, r) = (if drop_bit 16 x \<noteq> 0 then (drop_bit 16 x, r + 16) else (x, r));
          (x, r) = (if drop_bit 8 x \<noteq> 0 then (drop_bit 8 x, r + 8) else (x, r));
          (x, r) = (if drop_bit 4 x \<noteq> 0 then (drop_bit 4 x, r + 4) else (x, r));
          (x, r) = (if drop_bit 2 x \<noteq> 0 then (drop_bit 2 x, r + 2) else (x, r))
      in if drop_bit 1 x \<noteq> 0 then r + 1 else r)"

definition ecb_ld64 :: "64 word \<Rightarrow> int" where
  "ecb_ld64 x =
     (let r = 0;
          (x, r) = (if drop_bit 32 x \<noteq> 0 then (drop_bit 32 x, r + 32) else (x, r))
      in r + ecb_ld32 (ucast x))"

definition ecb_bitrev8 :: "8 word \<Rightarrow> 8 word" where
  "ecb_bitrev8 x =
     (let y = ucast x :: 32 word
      in ucast (drop_bit 16 (((y * 0x0802 AND 0x22110) OR (y * 0x8020 AND 0x88440)) * 0x10101)))"

definition ecb_bitrev16 :: "16 word \<Rightarrow> 16 word" where
  "ecb_bitrev16 x =
     (let x = (drop_bit 1 x AND 0x5555) OR push_bit 1 (x AND 0x5555);
          x = (drop_bit 2 x AND 0x3333) OR push_bit 2 (x AND 0x3333);
          x = (drop_bit 4 x AND 0x0f0f) OR push_bit 4 (x AND 0x0f0f)
      in drop_bit 8 x OR push_bit 8 x)"

definition ecb_bitrev32 :: "32 word \<Rightarrow> 32 word" where
  "ecb_bitrev32 x =
     (let x = (drop_bit 1 x AND 0x55555555) OR push_bit 1 (x AND 0x55555555);
          x = (drop_bit 2 x AND 0x33333333) OR push_bit 2 (x AND 0x33333333);
          x = (drop_bit 4 x AND 0x0f0f0f0f) OR push_bit 4 (x AND 0x0f0f0f0f);
          x = (drop_bit 8 x AND 0x00ff00ff) OR push_bit 8 (x AND 0x00ff00ff)
      in drop_bit 16 x OR push_bit 16 x)"

definition ecb_popcount64 :: "64 word \<Rightarrow> int" where
  "ecb_popcount64 x = ecb_popcount32 (ucast x) + ecb_popcount32 (ucast (drop_bit 32 x))"

definition or_both :: "'a::len word option \<Rightarrow> 'a word option \<Rightarrow> 'a word option" where
  "or_both a b = (case a of None \<Rightarrow> None | Some x \<Rightarrow> (case b of None \<Rightarrow> None | Some y \<Rightarrow> Some (x OR y)))"

definition ecb_rotl8 :: "8 word \<Rightarrow> 32 word \<Rightarrow> 8 word option" where
  "ecb_rotl8 x count = map_option ucast (or_both (c_shr (ucast x) (8 - count)) (int_shl (ucast x) count))"

definition ecb_rotr8 :: "8 word \<Rightarrow> 32 word \<Rightarrow> 8 word option" where
  "ecb_rotr8 x count = map_option ucast (or_both (int_shl (ucast x) (8 - count)) (c_shr (ucast x) count))"

definition ecb_rotl16 :: "16 word \<Rightarrow> 32 word \<Rightarrow> 16 word option" where
  "ecb_rotl16 x count = map_option ucast (or_both (c_shr (ucast x) (16 - count)) (int_shl (ucast x) count))"

definition ecb_rotr16 :: "16 word \<Rightarrow> 32 word \<Rightarrow> 16 word option" where
  "ecb_rotr16 x count = map_option ucast (or_both (int_shl (ucast x) (16 - count)) (c_shr (ucast x) count))"

definition ecb_rotl32 :: "32 word \<Rightarrow> 32 word \<Rightarrow> 32 word option" where
  "ecb_rotl32 x count = or_both (c_shr x (32 - count)) (c_shl x count)"

definition ecb_rotr32 :: "32 word \<Rightarrow> 32 word \<Rightarrow> 32 word option" where
  "ecb_rotr32 x count = or_both (c_shl x (32 - count)) (c_shr x count)"

definition ecb_rotl64 :: "64 word \<Rightarrow> 32 word \<Rightarrow> 64 word option" where
  "ecb_rotl64 x count = or_both (c_shr x (64 - count)) (c_shl x count)"

definition ecb_rotr64 :: "64 word \<Rightarrow> 32 word \<Rightarrow> 64 word option" where
  "ecb_rotr64 x count = or_both (c_shl x (64 - count)) (c_shr x count)"

definition ecb_bswap16 :: "16 word \<Rightarrow> 16 word option" where
  "ecb_bswap16 x = ecb_rotl16 x 8"

text \<open>Two halves; the shift by half the width is defined.\<close>

definition ecb_bswap32 :: "32 word \<Rightarrow> 32 word option" where
  "ecb_bswap32 x =
     or_both (map_option (\<lambda>h. push_bit 16 (ucast h)) (ecb_bswap16 (ucast x)))
       (map_option ucast (ecb_bswap16 (ucast (drop_bit 16 x))))"

definition ecb_bswap64 :: "64 word \<Rightarrow> 64 word option" where
  "ecb_bswap64 x =
     or_both (map_option (\<lambda>h. push_bit 32 (ucast h)) (ecb_bswap32 (ucast x)))
       (map_option ucast (ecb_bswap32 (ucast (drop_bit 32 x))))"

text \<open>
  The macros of division, for \<open>int\<close>: every intermediate value must be one. C divides towards
  zero.
\<close>

definition c_int :: "int \<Rightarrow> int option" where
  "c_int v = (if - (2 ^ 31) \<le> v \<and> v < 2 ^ 31 then Some v else None)"

definition c_div :: "int \<Rightarrow> int \<Rightarrow> int option" where
  "c_div a b = (if b = 0 then None else c_int (a sdiv b))"

definition c_mod :: "int \<Rightarrow> int \<Rightarrow> int option" where
  "c_mod a b = (if b = 0 then None else map_option (\<lambda>_. a smod b) (c_int (a sdiv b)))"

definition ecb_mod_gcc :: "int \<Rightarrow> int \<Rightarrow> int option" where
  "ecb_mod_gcc m n =
     Option.bind (c_mod m n) (\<lambda>r. c_int (r + (if r < 0 then n else 0)))"

definition ecb_mod :: "int \<Rightarrow> int \<Rightarrow> int option" where
  "ecb_mod m n =
     (if m < 0
      then Option.bind (c_int (- 1 - m)) (\<lambda>k.
           Option.bind (c_mod k n) (\<lambda>r.
           Option.bind (c_int (n - 1)) (\<lambda>s. c_int (s - r))))
      else c_mod m n)"

definition ecb_div_rd :: "int \<Rightarrow> int \<Rightarrow> int option" where
  "ecb_div_rd val d =
     (if val < 0
      then Option.bind (c_int (- val)) (\<lambda>k.
           Option.bind (c_int (k + d)) (\<lambda>k.
           Option.bind (c_int (k - 1)) (\<lambda>k.
           Option.bind (c_div k d) (\<lambda>q. c_int (- q)))))
      else c_div val d)"

definition ecb_div_ru :: "int \<Rightarrow> int \<Rightarrow> int option" where
  "ecb_div_ru val d =
     (if val < 0
      then Option.bind (c_int (- val)) (\<lambda>k. Option.bind (c_div k d) (\<lambda>q. c_int (- q)))
      else Option.bind (c_int (val + d)) (\<lambda>k. Option.bind (c_int (k - 1)) (\<lambda>k. c_div k d)))"

text \<open>The first byte in memory of a number; a machine stores its bytes from either end.\<close>

definition ecb_byteorder_helper :: "bool \<Rightarrow> 8 word" where
  "ecb_byteorder_helper big =
     (let u = 0x11223344 :: 32 word in if big then ucast (drop_bit 24 u) else ucast u)"

definition ecb_big_endian :: "bool \<Rightarrow> bool" where
  "ecb_big_endian big \<longleftrightarrow> ecb_byteorder_helper big = 0x11"

definition ecb_little_endian :: "bool \<Rightarrow> bool" where
  "ecb_little_endian big \<longleftrightarrow> ecb_byteorder_helper big = 0x44"

section \<open>Reversing bits and bytes\<close>

definition rev_stage :: "nat \<Rightarrow> 'a::len word \<Rightarrow> 'a word \<Rightarrow> 'a word" where
  "rev_stage k m x = (drop_bit k x AND m) OR push_bit k (x AND m)"

lemma bit_rev_stage: "n < LENGTH('a) \<Longrightarrow>
  bit (rev_stage k m x) n = (bit m n \<and> bit x (n + k) \<or> k \<le> n \<and> bit m (n - k) \<and> bit x (n - k))" for x :: "'a::len word"
  by (auto simp: rev_stage_def bit_simps add.commute)

lemma no_bit: "LENGTH('a) \<le> n \<Longrightarrow> \<not> bit x n" for x :: "'a::len word"
  using bit_imp_le_length [of x n] by auto

lemmas bit_stages = bit_or_iff bit_drop_bit_eq bit_push_bit_iff bit_rev_stage no_bit

text \<open>The numbers of the bits of a word, so that a statement about each can be evaluated.\<close>

lemma upto_16: "[0..<16] = [0, 1, 2, 3, 4, 5, 6, 7, 8, 9, 10, 11, 12, 13, 14, 15]" by code_simp
lemma upto_32: "[0..<32] = [0, 1, 2, 3, 4, 5, 6, 7, 8, 9, 10, 11, 12, 13, 14, 15, 16, 17, 18, 19, 20, 21, 22, 23, 24, 25, 26, 27, 28, 29, 30, 31]" by code_simp

lemma word_eq_upto:
  fixes x y :: "'a::len word"
  assumes "list_all (\<lambda>n. bit x n = bit y n) [0..<LENGTH('a)]"
  shows "x = y"
  using assms by (intro bit_word_eqI) (simp add: list_all_iff)

lemma ecb_bitrev16_ok: "ecb_bitrev16 x = word_reverse x"
proof (rule word_eq_upto)
  have code: "ecb_bitrev16 x = drop_bit 8 y OR push_bit 8 y" if "y = rev_stage 4 0x0f0f (rev_stage 2 0x3333 (rev_stage 1 0x5555 x))" for y
    by (simp only: ecb_bitrev16_def Let_def rev_stage_def that)
  show "list_all (\<lambda>n. bit (ecb_bitrev16 x) n = bit (word_reverse x) n) [0..<LENGTH(16)]"
    unfolding code [OF refl] len_num1 len_bit0 len_bit1
    by (simp add: upto_16 bit_stages bit_word_reverse_iff numeral_2_eq_2 [symmetric])
qed

lemma ecb_bitrev32_ok: "ecb_bitrev32 x = word_reverse x"
proof (rule word_eq_upto)
  have code: "ecb_bitrev32 x = drop_bit 16 y OR push_bit 16 y"
    if "y = rev_stage 8 0x00ff00ff (rev_stage 4 0x0f0f0f0f (rev_stage 2 0x33333333 (rev_stage 1 0x55555555 x)))" for y
    by (simp only: ecb_bitrev32_def Let_def rev_stage_def that)
  show "list_all (\<lambda>n. bit (ecb_bitrev32 x) n = bit (word_reverse x) n) [0..<LENGTH(32)]"
    unfolding code [OF refl] len_num1 len_bit0 len_bit1
    by (simp add: upto_32 bit_stages bit_word_reverse_iff numeral_2_eq_2 [symmetric])
qed

lemma ecb_bitrev8_ok: "ecb_bitrev8 x = word_reverse x"
proof -
  have "list_all (\<lambda>n. ecb_bitrev8 (word_of_nat n) = word_reverse (word_of_nat n)) [0..<256]" by code_simp
  moreover have "unat x \<in> set [0..<256]" using unsigned_less [of x, where ?'a = nat] by simp
  ultimately have "ecb_bitrev8 (word_of_nat (unat x)) = word_reverse (word_of_nat (unat x))"
    unfolding list_all_iff by blast
  then show ?thesis by simp
qed

section \<open>Rotating\<close>

lemma rotl_bits:
  fixes x :: "'a::len word"
  assumes "c < LENGTH('a)"
  shows "drop_bit (LENGTH('a) - c) x OR push_bit c x = word_rotl c x"
    "push_bit (LENGTH('a) - c) x OR drop_bit c x = word_rotr c x"
proof -
  show "drop_bit (LENGTH('a) - c) x OR push_bit c x = word_rotl c x"
  proof (rule bit_word_eqI)
    fix n
    assume "n < LENGTH('a)"
    then show "bit (drop_bit (LENGTH('a) - c) x OR push_bit c x) n = bit (word_rotl c x) n"
      using assms no_bit [of "LENGTH('a) - c + n" x]
      by (cases "n < c") (auto simp: bit_simps bit_word_rotl_iff mod_if add.commute)
  qed
  show "push_bit (LENGTH('a) - c) x OR drop_bit c x = word_rotr c x"
  proof (rule bit_word_eqI)
    fix n
    assume "n < LENGTH('a)"
    then show "bit (push_bit (LENGTH('a) - c) x OR drop_bit c x) n = bit (word_rotr c x) n"
      using assms no_bit [of "c + n" x]
      by (cases "n + c < LENGTH('a)") (auto simp: bit_simps bit_word_rotr_iff mod_if add.commute)
  qed
qed

lemma count_minus: "unat count \<le> unat w \<Longrightarrow> unat (w - count) = unat w - unat count" for w count :: "32 word"
  by (simp add: unat_sub word_le_nat_alt)

lemma ecb_rot_wide:
  assumes "unat count < 32" "0 < unat count" and "unat count' < 64" "0 < unat count'"
  shows "ecb_rotl32 x count = Some (word_rotl (unat count) x)" "ecb_rotr32 x count = Some (word_rotr (unat count) x)"
    "ecb_rotl64 y count' = Some (word_rotl (unat count') y)" "ecb_rotr64 y count' = Some (word_rotr (unat count') y)"
proof -
  have u: "unat (32 - count) = 32 - unat count" "unat (64 - count') = 64 - unat count'"
    using count_minus [of count 32] count_minus [of count' 64] assms by simp_all
  show "ecb_rotl32 x count = Some (word_rotl (unat count) x)" "ecb_rotr32 x count = Some (word_rotr (unat count) x)"
    using rotl_bits [of "unat count" x] assms
    by (simp_all add: ecb_rotl32_def ecb_rotr32_def c_shr_def c_shl_def or_both_def u)
  show "ecb_rotl64 y count' = Some (word_rotl (unat count') y)" "ecb_rotr64 y count' = Some (word_rotr (unat count') y)"
    using rotl_bits [of "unat count'" y] assms
    by (simp_all add: ecb_rotl64_def ecb_rotr64_def c_shr_def c_shl_def or_both_def u)
qed

lemma ecb_rot_by_0:
  "ecb_rotl32 x 0 = None" "ecb_rotr32 x 0 = None" "ecb_rotl64 y 0 = None" "ecb_rotr64 y 0 = None"
  by (simp_all add: ecb_rotl32_def ecb_rotr32_def ecb_rotl64_def ecb_rotr64_def c_shr_def c_shl_def or_both_def
      split: option.split)

text \<open>A short word shifted within \<open>int\<close>.\<close>

lemma int_shl_ok:
  fixes x :: "'a::len word"
  assumes "LENGTH('a) + unat n \<le> 31"
  shows "int_shl (ucast x) n = Some (push_bit (unat n) (ucast x))"
proof -
  have "unat x * 2 ^ unat n < 2 ^ LENGTH('a) * 2 ^ unat n" using unsigned_less [of x, where ?'a = nat] by simp
  also have "\<dots> \<le> 2 ^ 31" using power_increasing [OF assms, of "2 :: nat"] by (simp add: power_add)
  finally have "unat x * 2 ^ unat n < 2 ^ 31" .
  moreover have "unat (ucast x :: 32 word) = unat x"
  proof -
    have "unat x < 2 ^ LENGTH('a)" by (rule unsigned_less)
    also have "\<dots> \<le> 2 ^ 32" using assms by (intro power_increasing) auto
    finally show ?thesis by (simp add: unsigned_ucast_eq take_bit_nat_eq_self)
  qed
  ultimately show ?thesis using assms by (simp add: int_shl_def)
qed

lemma narrow_rot:
  fixes x :: "'a::len word"
  assumes "LENGTH('a) \<le> 32" and "c < LENGTH('a)"
  shows "ucast (drop_bit (LENGTH('a) - c) (ucast x :: 32 word) OR push_bit c (ucast x)) = word_rotl c x"
    "ucast (push_bit (LENGTH('a) - c) (ucast x :: 32 word) OR drop_bit c (ucast x)) = word_rotr c x"
proof -
  have "ucast (drop_bit (LENGTH('a) - c) (ucast x :: 32 word) OR push_bit c (ucast x)) =
      drop_bit (LENGTH('a) - c) x OR push_bit c x"
    using assms by (intro bit_word_eqI) (auto simp: bit_simps no_bit)
  then show "ucast (drop_bit (LENGTH('a) - c) (ucast x :: 32 word) OR push_bit c (ucast x)) = word_rotl c x"
    using rotl_bits(1) [OF assms(2)] by simp
  have "ucast (push_bit (LENGTH('a) - c) (ucast x :: 32 word) OR drop_bit c (ucast x)) =
      push_bit (LENGTH('a) - c) x OR drop_bit c x"
    using assms by (intro bit_word_eqI) (auto simp: bit_simps no_bit)
  then show "ucast (push_bit (LENGTH('a) - c) (ucast x :: 32 word) OR drop_bit c (ucast x)) = word_rotr c x"
    using rotl_bits(2) [OF assms(2)] by simp
qed

lemma ecb_rot_narrow:
  assumes "unat count < 8" and "unat count' < 16" "0 < unat count'"
  shows "ecb_rotl8 x count = Some (word_rotl (unat count) x)" "ecb_rotr8 x count = Some (word_rotr (unat count) x)"
    "ecb_rotl16 y count' = Some (word_rotl (unat count') y)" "ecb_rotr16 y count' = Some (word_rotr (unat count') y)"
proof -
  have u: "unat (8 - count) = 8 - unat count" "unat (16 - count') = 16 - unat count'"
    using count_minus [of count 8] count_minus [of count' 16] assms by simp_all
  show "ecb_rotl8 x count = Some (word_rotl (unat count) x)" "ecb_rotr8 x count = Some (word_rotr (unat count) x)"
    using narrow_rot [of "unat count" x] assms
    by (simp_all add: ecb_rotl8_def ecb_rotr8_def c_shr_def int_shl_ok or_both_def u)
  show "ecb_rotl16 y count' = Some (word_rotl (unat count') y)" "ecb_rotr16 y count' = Some (word_rotr (unat count') y)"
    using narrow_rot [of "unat count'" y] assms
    by (simp_all add: ecb_rotl16_def ecb_rotr16_def c_shr_def int_shl_ok or_both_def u)
qed

section \<open>Bytes\<close>

definition bytes_reversed :: "'a::len word \<Rightarrow> 'a word \<Rightarrow> bool" where
  "bytes_reversed x y \<longleftrightarrow>
     (\<forall>n < LENGTH('a). bit y n = bit x (8 * (LENGTH('a) div 8 - 1 - n div 8) + n mod 8))"

lemma ecb_bswap16_code: "ecb_bswap16 x = Some (word_rotl 8 x)"
  using ecb_rot_narrow(3) [of 0 8 x] by (simp add: ecb_bswap16_def)

lemma ecb_bswap32_code: "ecb_bswap32 x =
    Some (push_bit 16 (ucast (word_rotl 8 (ucast x :: 16 word))) OR ucast (word_rotl 8 (ucast (drop_bit 16 x) :: 16 word)))"
  by (simp add: ecb_bswap32_def ecb_bswap16_code or_both_def)

lemma bytes_reversed_ok:
  "\<exists>z. ecb_bswap16 x = Some z \<and> bytes_reversed x z" "\<exists>z. ecb_bswap32 y = Some z \<and> bytes_reversed y z"
proof -
  have "list_all (\<lambda>n. bit (word_rotl 8 x) n = bit x (8 * (2 - 1 - n div 8) + n mod 8)) [0..<16]"
    by (simp add: upto_16 bit_word_rotl_iff numeral_2_eq_2 [symmetric])
  then have "bytes_reversed x (word_rotl 8 x)" by (simp add: bytes_reversed_def list_all_iff)
  then show "\<exists>z. ecb_bswap16 x = Some z \<and> bytes_reversed x z" by (simp add: ecb_bswap16_code)
  let ?z = "push_bit 16 (ucast (word_rotl 8 (ucast y :: 16 word))) OR ucast (word_rotl 8 (ucast (drop_bit 16 y) :: 16 word)) :: 32 word"
  have "list_all (\<lambda>n. bit ?z n = bit y (8 * (4 - 1 - n div 8) + n mod 8)) [0..<32]"
    by (simp add: upto_32 bit_word_rotl_iff bit_simps numeral_2_eq_2 [symmetric])
  then have "bytes_reversed y ?z" by (simp add: bytes_reversed_def list_all_iff)
  then show "\<exists>z. ecb_bswap32 y = Some z \<and> bytes_reversed y z" by (simp add: ecb_bswap32_code)
qed

lemma byte_lt: "8 * (3 - n div 8) + n mod 8 < (32 :: nat)"
proof -
  have "8 * (3 - n div 8) \<le> 24" "n mod 8 < 8" by simp_all
  then show ?thesis by linarith
qed

lemma bytes_reversed_64: "\<exists>z. ecb_bswap64 x = Some z \<and> bytes_reversed x z"
proof -
  obtain a b where a: "ecb_bswap32 (ucast x) = Some a" "bytes_reversed (ucast x :: 32 word) a"
    and b: "ecb_bswap32 (ucast (drop_bit 32 x)) = Some b" "bytes_reversed (ucast (drop_bit 32 x) :: 32 word) b"
    using bytes_reversed_ok(2) by metis
  let ?z = "push_bit 32 (ucast a) OR ucast b :: 64 word"
  have "bit ?z n = bit x (8 * (8 - 1 - n div 8) + n mod 8)" if n: "n < 64" for n
  proof (cases "n < 32")
    case True
    then have "bit ?z n = bit b n" by (simp add: bit_simps)
    also have "\<dots> = bit (ucast (drop_bit 32 x) :: 32 word) (8 * (3 - n div 8) + n mod 8)"
      using b(2) True by (simp add: bytes_reversed_def)
    also have "\<dots> = bit x (32 + (8 * (3 - n div 8) + n mod 8))" using byte_lt [of n] by (simp add: bit_simps)
    also have "32 + (8 * (3 - n div 8) + n mod 8) = 8 * (8 - 1 - n div 8) + n mod 8" using True by simp
    finally show ?thesis .
  next
    case False
    then obtain m where m: "n = m + 32" "m < 32" using n by (metis add.commute le_Suc_ex less_add_same_cancel1 not_less nat_add_left_cancel_less numeral_Bit0)
    then have "bit ?z n = bit a m" by (simp add: bit_simps no_bit)
    also have "\<dots> = bit (ucast x :: 32 word) (8 * (3 - m div 8) + m mod 8)" using a(2) m by (simp add: bytes_reversed_def)
    also have "\<dots> = bit x (8 * (3 - m div 8) + m mod 8)" using byte_lt [of m] by (simp add: bit_simps)
    also have "8 * (3 - m div 8) + m mod 8 = 8 * (8 - 1 - n div 8) + n mod 8"
    proof -
      have "(m + 4 * 8) div 8 = m div 8 + 4" by simp
      moreover have "(m + 4 * 8) mod 8 = m mod 8" by (rule mod_mult_self1)
      ultimately show ?thesis using m by simp
    qed
    finally show ?thesis .
  qed
  then have "bytes_reversed x ?z" by (simp add: bytes_reversed_def)
  moreover have "ecb_bswap64 x = Some ?z" using a(1) b(1) by (simp add: ecb_bswap64_def or_both_def)
  ultimately show ?thesis by blast
qed

section \<open>Dividing\<close>

lemma c_int_ok: "- (2 ^ 31) \<le> v \<Longrightarrow> v < 2 ^ 31 \<Longrightarrow> c_int v = Some v"
  by (simp add: c_int_def)

lemma c_div_pos:
  assumes "0 \<le> a" "a < 2 ^ 31" "0 < b"
  shows "c_div a b = Some (a div b)" "c_mod a b = Some (a mod b)"
proof -
  have "a div b \<le> a" using zdiv_mono2 [of a 1 b] assms by simp
  then have "0 \<le> a div b" "a div b < 2 ^ 31" using assms by (simp_all add: pos_imp_zdiv_nonneg_iff)
  then show "c_div a b = Some (a div b)" "c_mod a b = Some (a mod b)"
    using assms by (simp_all add: c_div_def c_mod_def c_int_def signed_divide_int_def signed_modulo_int_def sgn_if)
qed

lemma ecb_mod_ok:
  assumes "- (2 ^ 31) \<le> m" "m < 2 ^ 31" "0 < n" "n < 2 ^ 31"
  shows "ecb_mod m n = Some (m mod n)" "ecb_mod_gcc m n = Some (m mod n)"
proof -
  show "ecb_mod m n = Some (m mod n)"
  proof (cases "m < 0")
    case True
    let ?k = "- 1 - m"
    have r: "0 \<le> ?k mod n" "?k mod n < n" using assms(3) by simp_all
    have "m = n * (- 1 - ?k div n) + (n - 1 - ?k mod n)" using mult_div_mod_eq [of n ?k] by (simp add: algebra_simps)
    then have "m mod n = n - 1 - ?k mod n" using r by (intro int_mod_pos_eq) auto
    moreover have "c_mod ?k n = Some (?k mod n)" using c_div_pos(2) [of ?k n] assms True by simp
    ultimately show ?thesis using True assms r by (simp add: ecb_mod_def c_int_ok)
  qed (use c_div_pos(2) [of m n] assms in \<open>simp add: ecb_mod_def\<close>)
  show "ecb_mod_gcc m n = Some (m mod n)"
  proof (cases "m < 0")
    case True
    let ?k = "- m"
    define q r where "q = ?k div n" and "r = ?k mod n"
    have k: "- m = n * q + r" using mult_div_mod_eq [of n ?k] by (simp add: q_def r_def)
    have r: "0 \<le> r" "r < n" using assms(3) by (simp_all add: r_def)
    have "m mod n = (if r = 0 then 0 else n - r)"
    proof (cases "r = 0")
      case True
      then have "m = n * (- q)" using k by simp
      then show ?thesis using True by simp
    next
      case False
      then have "m = n * (- q - 1) + (n - r)" using k by (simp add: algebra_simps)
      then show ?thesis using False r by (intro int_mod_pos_eq) auto
    qed
    moreover have "m smod n = - r" unfolding r_def using True assms by (simp add: signed_modulo_int_def sgn_if)
    moreover have "c_int (m sdiv n) = Some (m sdiv n)"
    proof -
      have "m sdiv n = - (?k div n)" using True assms by (simp add: signed_divide_int_def sgn_if)
      moreover have "0 \<le> ?k div n" "?k div n \<le> ?k" using zdiv_mono2 [of ?k 1 n] True assms by (simp_all add: pos_imp_zdiv_nonneg_iff)
      ultimately show ?thesis using assms True by (intro c_int_ok) auto
    qed
    ultimately show ?thesis using r assms by (auto simp: ecb_mod_gcc_def c_mod_def c_int_ok)
  next
    case False
    define r where "r = m mod n"
    have "0 \<le> r" "r < n" using assms(3) by (simp_all add: r_def)
    moreover have "c_mod m n = Some r" using c_div_pos(2) [of m n] assms False by (simp add: r_def)
    ultimately show ?thesis using assms by (simp add: ecb_mod_gcc_def c_int_ok flip: r_def)
  qed
qed

lemma ecb_div_ok:
  assumes "0 < d" "\<bar>v\<bar> + d < 2 ^ 31"
  shows "ecb_div_rd v d = Some (v div d)" "ecb_div_ru v d = Some (- (- v div d))"
proof -
  have up: "(k + d - 1) div d = - (- k div d)" for k :: int
  proof -
    define q r where "q = - k div d" and "r = - k mod d"
    have "- k = d * q + r" "0 \<le> r" "r < d"
      using mult_div_mod_eq [of d "- k"] assms(1) by (simp_all add: q_def r_def)
    then have "(k + d - 1) div d = - q" by (intro int_div_pos_eq [of _ _ _ "d - 1 - r"]) (auto simp: algebra_simps)
    then show ?thesis by (simp add: q_def)
  qed
  have small: "0 \<le> k div d" "k div d \<le> k" if "0 \<le> k" for k
    using zdiv_mono2 [of k 1 d] that assms(1) by (simp_all add: pos_imp_zdiv_nonneg_iff)
  show "ecb_div_rd v d = Some (v div d)"
  proof (cases "v < 0")
    case True
    then have "c_div (- v + d - 1) d = Some (- (v div d))"
      using c_div_pos(1) [of "- v + d - 1" d] up [of "- v"] assms by simp
    moreover have "- (v div d) \<le> - v + d - 1" "0 \<le> - (v div d)" using small [of "- v + d - 1"] up [of "- v"] True assms by simp_all
    ultimately show ?thesis using True assms by (simp add: ecb_div_rd_def c_int_ok)
  qed (use c_div_pos(1) [of v d] assms in \<open>simp add: ecb_div_rd_def\<close>)
  show "ecb_div_ru v d = Some (- (- v div d))"
  proof (cases "v < 0")
    case True
    then have "c_div (- v) d = Some (- v div d)" using c_div_pos(1) [of "- v" d] assms by simp
    then show ?thesis using True assms small [of "- v"] by (simp add: ecb_div_ru_def c_int_ok)
  next
    case False
    then show ?thesis using c_div_pos(1) [of "v + d - 1" d] up [of v] assms by (simp add: ecb_div_ru_def c_int_ok)
  qed
qed

text \<open>The negation of the least number is not defined.\<close>

lemma ecb_div_least: "ecb_div_rd (- (2 ^ 31)) d = None" "ecb_div_ru (- (2 ^ 31)) d = None"
  by (simp_all add: ecb_div_rd_def ecb_div_ru_def c_int_def)


section \<open>Properties\<close>

text \<open>
  C13. \<open>ecb_bitrev8\<close>, \<open>ecb_bitrev16\<close> and \<open>ecb_bitrev32\<close> reverse the bits of a word, by a multiplication or by
  exchanging larger and larger neighbouring fields; \<open>ecb_bswap16\<close>, \<open>ecb_bswap32\<close> and \<open>ecb_bswap64\<close> reverse its bytes, and
  every shift in them is defined.
\<close>

theorem ecb_reverses:
  "ecb_bitrev8 a = word_reverse a \<and> ecb_bitrev16 b = word_reverse b \<and> ecb_bitrev32 c = word_reverse c \<and>
    (\<exists>z. ecb_bswap16 b = Some z \<and> bytes_reversed b z) \<and> (\<exists>z. ecb_bswap32 c = Some z \<and> bytes_reversed c z) \<and>
    (\<exists>z. ecb_bswap64 d = Some z \<and> bytes_reversed d z)"
  using ecb_bitrev8_ok ecb_bitrev16_ok ecb_bitrev32_ok bytes_reversed_ok bytes_reversed_64 by blast

end
