(* ===== verification/Ecb_Bits.thy ===== *)
theory Ecb_Bits
  imports Ecb
begin

unbundle bit_operations_syntax

text \<open>
  Counting and finding the bits of a word: the population count adds up neighbouring fields in parallel,
  so a word is read as a list of digits of a power of two, on which masking and shifting are the
  choice of every second digit; the search for the highest bit halves the range at every step.
\<close>

section \<open>Numbers as lists of digits\<close>

definition val :: "nat \<Rightarrow> int list \<Rightarrow> int" where
  "val k cs = foldr (\<lambda>c a. c + 2 ^ k * a) cs 0"

lemma val_simps [simp]: "val k [] = 0" "val k (c # cs) = c + 2 ^ k * val k cs"
  by (simp_all add: val_def)

fun evens :: "'a list \<Rightarrow> 'a list" where
  "evens (a # b # cs) = a # evens cs" | "evens cs = cs"

fun odds :: "'a list \<Rightarrow> 'a list" where
  "odds (a # b # cs) = b # odds cs" | "odds cs = []"

fun halves :: "int list \<Rightarrow> int list" where
  "halves (a # b # cs) = (a + b) # halves cs" | "halves cs = cs"

definition digits_upto :: "int \<Rightarrow> int list \<Rightarrow> bool" where
  "digits_upto m cs \<longleftrightarrow> (\<forall>c \<in> set cs. 0 \<le> c \<and> c \<le> m)"

lemma digits_upto_simps [simp]:
  "digits_upto m []" "digits_upto m (c # cs) \<longleftrightarrow> 0 \<le> c \<and> c \<le> m \<and> digits_upto m cs"
  by (auto simp: digits_upto_def)

lemma and_concat:
  assumes "0 \<le> c" "c < 2 ^ j" "0 \<le> m" "m < 2 ^ j"
  shows "(c + 2 ^ j * a) AND (m + 2 ^ j * b) = (c AND m) + 2 ^ j * (a AND b :: int)"
proof -
  have eq: "v + 2 ^ j * w = concat_bit j v w" if "0 \<le> v" "v < 2 ^ j" for v w :: int
    using that by (simp add: concat_bit_eq take_bit_int_eq_self push_bit_eq_mult mult.commute)
  have "concat_bit j c a AND concat_bit j m b = concat_bit j (c AND m) (a AND b)"
    by (rule bit_eqI) (auto simp: bit_concat_bit_iff bit_and_iff)
  moreover have "0 \<le> c AND m" "c AND m < 2 ^ j"
    using assms and_nonnegative_int_iff[of c m] AND_upper2'' [of m "2^j" c] by (auto intro: le_less_trans [OF AND_upper1])
  ultimately show ?thesis using assms by (simp add: eq)
qed

lemma pairs_induct [consumes 1, case_names Nil pair]:
  assumes "even (length cs)" and "P []" and "\<And>a b cs. even (length cs) \<Longrightarrow> P cs \<Longrightarrow> P (a # b # cs)"
  shows "P cs"
  using assms(1)
proof (induction cs rule: evens.induct)
  case (1 a b cs)
  then show ?case using assms(3) by simp
qed (use assms(2) in auto)

lemma val_pair: "val k (a # b # cs) = (a + 2 ^ k * b) + 2 ^ (2 * k) * val k cs"
proof -
  have "(2 :: int) ^ (2 * k) = 2 ^ k * 2 ^ k" by (simp add: mult_2 power_add)
  then show ?thesis by (simp add: algebra_simps)
qed

lemma val_mask_evens:
  assumes "even (length cs)" and "digits_upto (2 ^ k - 1) cs"
  shows "val k cs AND val (2 * k) (replicate (length cs div 2) (2 ^ k - 1)) = val (2 * k) (evens cs)"
  using assms
proof (induction cs rule: pairs_induct)
  case (pair a b cs)
  have ab: "0 \<le> a" "a < 2 ^ k" "0 \<le> b" "b < 2 ^ k" using pair(3) by auto
  have "a + 2 ^ k * b < 2 ^ (2 * k)"
  proof -
    have "a + 2 ^ k * b < 2 ^ k + 2 ^ k * b" using ab by simp
    also have "\<dots> = 2 ^ k * (b + 1)" by (simp add: algebra_simps)
    also have "\<dots> \<le> 2 ^ k * 2 ^ k" using ab by (intro mult_left_mono) auto
    finally show ?thesis by (simp add: mult_2 power_add)
  qed
  moreover have "(2 :: int) ^ k - 1 < 2 ^ (2 * k)"
    by (rule less_le_trans [of _ "2 ^ k"]) (auto intro: power_increasing)
  ultimately have "(a + 2 ^ k * b + 2 ^ (2 * k) * val k cs) AND (2 ^ k - 1 + 2 ^ (2 * k) * val (2 * k) (replicate (length cs div 2) (2 ^ k - 1))) =
      ((a + 2 ^ k * b) AND (2 ^ k - 1)) + 2 ^ (2 * k) * (val k cs AND val (2 * k) (replicate (length cs div 2) (2 ^ k - 1)))"
    using ab by (intro and_concat) auto
  moreover have "(a + 2 ^ k * b) AND (2 ^ k - 1) = a"
    using ab by (simp add: mask_eq_exp_minus_1 [symmetric] take_bit_eq_mask [symmetric] take_bit_eq_mod)
  moreover have "length (a # b # cs) div 2 = Suc (length cs div 2)" by simp
  ultimately show ?case using pair(2,3) unfolding val_pair by simp
qed simp

lemma drop_val:
  assumes "0 \<le> c" "c < 2 ^ k"
  shows "drop_bit k (val k (c # cs)) = val k cs"
  using assms by (simp add: drop_bit_eq_div)

lemma val_pairs: "even (length cs) \<Longrightarrow> val k cs = val (2 * k) (evens cs) + 2 ^ k * val (2 * k) (odds cs)"
proof (induction cs rule: pairs_induct)
  case (pair a b cs)
  then show ?case unfolding val_pair by (simp add: algebra_simps)
qed simp

lemma val_halves: "even (length cs) \<Longrightarrow> val k (evens cs) + val k (odds cs) = val k (halves cs)"
proof (induction cs rule: pairs_induct)
  case (pair a b cs)
  then show ?case by (simp add: algebra_simps flip: pair(2))
qed simp

lemma val_odds_drop:
  assumes "even (length cs)" and "digits_upto (2 ^ k - 1) cs"
  shows "drop_bit k (val k cs) AND val (2 * k) (replicate (length cs div 2) (2 ^ k - 1)) = val (2 * k) (odds cs)"
proof (cases cs)
  case Nil
  then show ?thesis by simp
next
  case (Cons c ds)
  have snoc: "val k (ds @ [0]) = val k ds" by (induction ds) auto
  have e: "val (2 * k) (evens (ds @ [0])) = val (2 * k) (odds (c # ds))" if "even (length (c # ds))" for c ds
    using that
  proof (induction "c # ds" arbitrary: c ds rule: pairs_induct)
    case (pair a b cs)
    then show ?case by (cases cs) auto
  qed
  have "drop_bit k (val k cs) = val k (ds @ [0])"
    using assms(2) unfolding Cons snoc by (intro drop_val) auto
  moreover have "val k (ds @ [0]) AND val (2 * k) (replicate (length cs div 2) (2 ^ k - 1)) = val (2 * k) (evens (ds @ [0]))"
    using val_mask_evens [of "ds @ [0]" k] assms by (simp add: Cons digits_upto_def)
  ultimately show ?thesis using e assms(1) Cons by simp
qed

lemma halves_keeps:
  assumes "even (length cs)"
  shows "length (halves cs) = length cs div 2" "sum_list (halves cs) = sum_list cs"
    "digits_upto m cs \<Longrightarrow> digits_upto (2 * m) (halves cs)"
  using assms by (induction cs rule: pairs_induct) auto



lemma val_bound:
  assumes "digits_upto (2 ^ k - 1) cs"
  shows "0 \<le> val k cs" "val k cs < 2 ^ (k * length cs)"
proof -
  have "0 \<le> val k cs \<and> val k cs < 2 ^ (k * length cs)"
    using assms
  proof (induction cs)
    case (Cons c cs)
    then have c: "0 \<le> c" "c < 2 ^ k" and v: "0 \<le> val k cs" "val k cs < 2 ^ (k * length cs)" by simp_all
    have "c + 2 ^ k * val k cs < 2 ^ k + 2 ^ k * val k cs" using c by simp
    also have "\<dots> = 2 ^ k * (val k cs + 1)" by (simp add: algebra_simps)
    also have "\<dots> \<le> 2 ^ k * 2 ^ (k * length cs)" using v by (intro mult_left_mono) auto
    finally show ?case using c v by (simp add: power_add)
  qed simp
  then show "0 \<le> val k cs" "val k cs < 2 ^ (k * length cs)" by simp_all
qed

lemma digits_upto_mono: "digits_upto m cs \<Longrightarrow> m \<le> m' \<Longrightarrow> digits_upto m' cs"
  by (auto simp: digits_upto_def)

section \<open>Counting bits\<close>

definition bits_of :: "32 word \<Rightarrow> int list" where
  "bits_of x = map (\<lambda>n. of_bool (bit x n)) [0..<32]"

lemma uint_bits: "uint x = val 1 (bits_of x)" for x :: "32 word"
proof -
  have "val 1 (map of_bool bs) = horner_sum of_bool 2 bs" for bs by (induction bs) simp_all
  then have "val 1 (bits_of x) = horner_sum of_bool 2 (map (bit x) [0..<32])"
    by (metis (no_types, lifting) bits_of_def comp_def map_eq_conv map_map)
  also have "map (bit x) [0..<32] = map (bit (uint x)) [0..<32]" by (simp add: bit_uint_iff)
  also have "horner_sum of_bool 2 (map (bit (uint x)) [0..<32]) = take_bit 32 (uint x)"
    by (rule horner_sum_bit_eq_take_bit)
  also have "\<dots> = uint x" using uint_bounded [of x] by (simp add: take_bit_int_eq_self)
  finally show ?thesis by simp
qed

lemma uint_drop_bit: "uint (drop_bit k x) = drop_bit k (uint x)" for x :: "32 word"
proof -
  have "take_bit 32 (uint x) = uint x" using uint_bounded [of x] by (simp add: take_bit_int_eq_self)
  then show ?thesis by (simp add: unsigned_drop_bit_eq)
qed

lemma uint_lanes:
  fixes x :: "32 word"
  assumes "uint x = val k cs" "digits_upto (2 ^ k - 1) cs" "even (length cs)" 
    and "uint m = val (2 * k) (replicate (length cs div 2) (2 ^ k - 1))"
  shows "uint (x AND m) = val (2 * k) (evens cs)" "uint (drop_bit k x AND m) = val (2 * k) (odds cs)"
  using val_mask_evens [OF assms(3,2)] val_odds_drop [OF assms(3,2)]
  by (simp_all add: unsigned_and_eq uint_drop_bit assms(1,4))

lemma last_step:
  assumes "digits_upto 8 [e0, e1, e2, e3]" and "uint x = val 8 [e0, e1, e2, e3]"
  shows "uint (drop_bit 24 (x * 0x01010101 :: 32 word)) = e0 + e1 + e2 + e3"
proof -
  define L where "L = e0 + 2 ^ 8 * (e0 + e1) + 2 ^ 16 * (e0 + e1 + e2)"
  define S where "S = e0 + e1 + e2 + e3"
  define H where "H = e1 + e2 + e3 + 2 ^ 8 * (e2 + e3) + 2 ^ 16 * e3"
  have b: "0 \<le> L" "L < 2 ^ 24" "0 \<le> S" "S < 2 ^ 8" using assms(1) by (simp_all add: L_def S_def)
  have "uint x * 0x01010101 = (L + 2 ^ 24 * S) + 2 ^ 32 * H"
    unfolding assms(2) by (simp add: L_def S_def H_def algebra_simps)
  moreover have "0 \<le> L + 2 ^ 24 * S" "L + 2 ^ 24 * S < 2 ^ 32" using b by simp_all
  ultimately have "uint (x * 0x01010101) = L + 2 ^ 24 * S" by (simp add: uint_word_ariths)
  then have "drop_bit 24 (uint (x * 0x01010101)) = S" using b by (simp add: drop_bit_eq_div)
  then show ?thesis by (simp only: uint_drop_bit S_def)
qed

lemma popcount_sum: "ecb_popcount32 x = sum_list (bits_of x)"
proof -
  define b where "b = bits_of x"
  define c where "c = halves b"
  define d where "d = halves c"
  define e where "e = halves d"
  have b: "length b = 32" "digits_upto 1 b" by (auto simp: b_def bits_of_def digits_upto_def)
  have c: "length c = 16" "digits_upto 2 c" "sum_list c = sum_list b"
    using halves_keeps(1,2) [of b] halves_keeps(3) [of b 1] b by (simp_all add: c_def)
  have d: "length d = 8" "digits_upto 4 d" "sum_list d = sum_list b"
    using halves_keeps(1,2) [of c] halves_keeps(3) [of c 2] c by (simp_all add: d_def)
  have e: "length e = 4" "digits_upto 8 e" "sum_list e = sum_list b"
    using halves_keeps(1,2) [of d] halves_keeps(3) [of d 4] d by (simp_all add: e_def)
  define x1 where "x1 = x - (drop_bit 1 x AND 0x55555555)"
  define x2 where "x2 = (drop_bit 2 x1 AND 0x33333333) + (x1 AND 0x33333333)"
  define x3 where "x3 = (drop_bit 4 x2 + x2) AND 0x0f0f0f0f"
  have m: "uint (0x55555555 :: 32 word) = val 2 (replicate 16 1)" "uint (0x33333333 :: 32 word) = val 4 (replicate 8 3)"
    "uint (0x0f0f0f0f :: 32 word) = val 8 (replicate 4 15)"
    by code_simp+
  have x: "uint x = val 1 b" by (simp add: b_def uint_bits)
  have "uint (drop_bit 1 x AND 0x55555555) = val 2 (odds b)"
    using uint_lanes(2) [of x 1 b "0x55555555"] x b m(1) by simp
  moreover have "val 1 b - val 2 (odds b) = val 2 c"
    using val_pairs [of b 1] val_halves [of b 2] b(1) by (simp add: c_def)
  moreover have "0 \<le> val 2 c" "val 2 c < 2 ^ 32"
    using val_bound [of 2 c] digits_upto_mono [OF c(2), of 3] c(1) by simp_all
  ultimately have x1: "uint x1 = val 2 c" using x by (simp add: x1_def uint_word_ariths)
  have c3: "digits_upto 3 c" using digits_upto_mono [OF c(2), of 3] by simp
  have "uint (drop_bit 2 x1 AND 0x33333333) = val 4 (odds c)" "uint (x1 AND 0x33333333) = val 4 (evens c)"
    using uint_lanes [of x1 2 c "0x33333333"] x1 c(1) c3 m(2) by simp_all
  moreover have "val 4 (odds c) + val 4 (evens c) = val 4 d" using val_halves [of c 4] c(1) by (simp add: d_def)
  moreover have d15: "digits_upto 15 d" using digits_upto_mono [OF d(2), of 15] by simp
  moreover have "0 \<le> val 4 d" "val 4 d < 2 ^ 32" using val_bound [of 4 d] d15 d(1) by simp_all
  ultimately have x2: "uint x2 = val 4 d" by (simp add: x2_def uint_word_ariths)
  obtain d0 d1 d2 d3 d4 d5 d6 d7 where dd: "d = [d0, d1, d2, d3, d4, d5, d6, d7]"
    using d(1) by (auto simp: length_Suc_conv numeral_eq_Suc)
  let ?s = "[d0 + d1, d1 + d2, d2 + d3, d3 + d4, d4 + d5, d5 + d6, d6 + d7, d7]"
  have s: "digits_upto 15 ?s" using d(2) dd by simp
  have "uint (drop_bit 4 x2) = val 4 [d1, d2, d3, d4, d5, d6, d7]"
    using drop_val [of d0 4 "[d1, d2, d3, d4, d5, d6, d7]"] d15 unfolding uint_drop_bit x2 dd by simp
  moreover have "val 4 [d1, d2, d3, d4, d5, d6, d7] + val 4 d = val 4 ?s" by (simp add: dd algebra_simps)
  ultimately have "uint (drop_bit 4 x2 + x2) = val 4 ?s"
    using val_bound [of 4 ?s] s x2 by (simp add: uint_word_ariths)
  then have "uint x3 = val 8 (evens ?s)"
    using uint_lanes(1) [of "drop_bit 4 x2 + x2" 4 ?s "0x0f0f0f0f"] s m(3) by (simp add: x3_def)
  then have "uint (drop_bit 24 (x3 * 0x01010101)) = sum_list e"
    using last_step [of "d0 + d1" "d2 + d3" "d4 + d5" "d6 + d7" x3] e(2) by (simp add: e_def dd)
  moreover have "ecb_popcount32 x = uint (drop_bit 24 (x3 * 0x01010101))"
    unfolding ecb_popcount32_def Let_def x3_def x2_def x1_def by (rule refl)
  ultimately show ?thesis using e(3) by (simp add: b_def)
qed

lemma sum_bits: "sum_list (bits_of x) = int (card {n. bit x n})"
proof -
  have "sum_list (bits_of x) = (\<Sum>n < 32. of_bool (bit x n))"
    by (simp add: bits_of_def interv_sum_list_conv_sum_set_nat atLeast0LessThan)
  also have "\<dots> = int (card {n. n < 32 \<and> bit x n})"
    by (simp add: of_bool_def sum.If_cases Int_def)
  also have "{n. n < 32 \<and> bit x n} = {n. bit x n}" using bit_imp_le_length [of x] by auto
  finally show ?thesis .
qed

lemma bits_halves: "card {n. bit y n} = card {n. bit (ucast y :: 32 word) n} + card {n. bit (ucast (drop_bit 32 y) :: 32 word) n}"
  for y :: "64 word"
proof -
  let ?a = "ucast y :: 32 word" and ?b = "ucast (drop_bit 32 y) :: 32 word"
  have small: "n < 32" if "bit v n" for v :: "32 word" and n using bit_imp_le_length [OF that] by simp
  have "{n. bit y n} = {n. bit ?a n} \<union> (\<lambda>n. n + 32) ` {n. bit ?b n}"
  proof (intro set_eqI iffI)
    fix n
    assume n: "n \<in> {n. bit y n}"
    then have "n < 64" using bit_imp_le_length [of y n] by simp
    then show "n \<in> {n. bit ?a n} \<union> (\<lambda>n. n + 32) ` {n. bit ?b n}"
      using n by (cases "n < 32") (auto simp: bit_simps image_iff intro!: exI [of _ "n - 32"])
  qed (auto simp: bit_simps add.commute)
  moreover have "card ((\<lambda>n. n + 32) ` {n. bit ?b n}) = card {n. bit ?b n}" by (rule card_image) (simp add: inj_on_def)
  moreover have "finite {n. bit v n}" for v :: "32 word" by (rule finite_subset [of _ "{..<32}"]) (auto dest: small)
  moreover have "{n. bit ?a n} \<inter> (\<lambda>n. n + 32) ` {n. bit ?b n} = {}" by (auto dest: small)
  ultimately show ?thesis by (simp add: card_Un_disjoint)
qed

text \<open>
  C12. The population counts, which add up neighbouring fields of the word in parallel, count the
  bits that are set.
\<close>

theorem ecb_popcount_counts:
  "ecb_popcount32 x = int (card {n. bit x n}) \<and> ecb_popcount64 y = int (card {n. bit y n})"
  by (simp add: ecb_popcount64_def popcount_sum sum_bits bits_halves)

section \<open>Finding bits\<close>

lemma lowest_bit:
  fixes x :: "'a::len word"
  assumes "x \<noteq> 0"
  shows "\<exists>k < LENGTH('a). bit x k \<and> (\<forall>n < k. \<not> bit x n) \<and> x AND (NOT x + 1) = 2 ^ k"
proof -
  obtain k where k: "bit x k" "\<forall>n < k. \<not> bit x n"
    using assms bit_eqI [of x 0] exists_least_iff [of "bit x"] by auto
  define z where "z = x AND NOT (mask (Suc k))"
  have x: "x = z + push_bit k 1"
  proof -
    have "x = z OR push_bit k 1" using k by (intro bit_eqI) (auto simp: z_def bit_simps less_Suc_eq)
    also have "\<dots> = z + push_bit k 1" by (rule disjunctive_add [symmetric]) (auto simp: z_def bit_simps)
    finally show ?thesis .
  qed
  have "x - 1 = z + mask k" using x by (simp add: mask_eq_exp_minus_1 push_bit_eq_mult)
  also have "\<dots> = z OR mask k" by (rule disjunctive_add) (auto simp: z_def bit_simps)
  finally have x1: "x - 1 = z OR mask k" .
  have "NOT x + 1 = NOT (x - 1)" by (simp add: not_eq_complement)
  then have "x AND (NOT x + 1) = push_bit k 1"
    unfolding x1 using k by (intro bit_eqI) (auto simp: z_def bit_simps not_less_eq not_le less_Suc_eq)
  moreover have "k < LENGTH('a)" by (rule bit_imp_le_length [OF k(1)])
  ultimately show ?thesis using k by (auto simp: push_bit_eq_mult)
qed

lemma ctz_single: "k < 32 \<Longrightarrow> ctz_single (2 ^ k) = int k"
proof -
  have "list_all (\<lambda>k. ctz_single (push_bit k 1) = int k) [0..<32]" by code_simp
  then show "k < 32 \<Longrightarrow> ctz_single (2 ^ k) = int k" by (simp add: list_all_iff push_bit_eq_mult)
qed

definition is_lowest :: "int \<Rightarrow> 'a::len word \<Rightarrow> bool" where
  "is_lowest r x \<longleftrightarrow> 0 \<le> r \<and> bit x (nat r) \<and> (\<forall>n < nat r. \<not> bit x n)"

definition is_highest :: "int \<Rightarrow> 'a::len word \<Rightarrow> bool" where
  "is_highest r x \<longleftrightarrow> 0 \<le> r \<and> bit x (nat r) \<and> (\<forall>n > nat r. \<not> bit x n)"

lemma ecb_ctz32_ok: "x \<noteq> 0 \<Longrightarrow> is_lowest (ecb_ctz32 x) x"
  using lowest_bit [of x] by (auto simp: ecb_ctz32_def is_lowest_def ctz_single)

lemma low_half: "(x AND 0xffffffff \<noteq> 0) = ((ucast x :: 32 word) \<noteq> 0)" for x :: "64 word"
proof -
  have "x AND 0xffffffff = take_bit 32 x" by (simp add: take_bit_eq_mask mask_eq_exp_minus_1)
  also have "\<dots> = ucast (ucast x :: 32 word)" by (intro bit_eqI) (auto simp: bit_simps)
  finally have "x AND 0xffffffff = ucast (ucast x :: 32 word)" .
  moreover have "(ucast (ucast x :: 32 word) :: 64 word) = 0 \<longleftrightarrow> (ucast x :: 32 word) = 0"
    by (auto simp: bit_eq_iff bit_simps)
  ultimately show ?thesis by simp
qed

lemma ecb_ctz64_ok:
  assumes "x \<noteq> 0"
  shows "is_lowest (ecb_ctz64 x) x"
proof (cases "(ucast x :: 32 word) = 0")
  case True
  have low: "\<not> bit x n" if "n < 32" for n using arg_cong [OF True, of "\<lambda>v. bit v n"] that by (simp add: bit_simps)
  have "(ucast (drop_bit 32 x) :: 32 word) \<noteq> 0"
  proof
    assume z: "(ucast (drop_bit 32 x) :: 32 word) = 0"
    have "\<not> bit x n" for n
      using low [of n] arg_cong [OF z, of "\<lambda>v. bit v (n - 32)"] bit_imp_le_length [of x n] by (cases "n < 32") (auto simp: bit_simps)
    then show False using assms by (simp add: bit_eq_iff)
  qed
  from ecb_ctz32_ok [OF this] have h: "is_lowest (ecb_ctz32 (ucast (drop_bit 32 x))) (ucast (drop_bit 32 x) :: 32 word)" .
  have "\<not> bit x n" if "n < nat (ecb_ctz32 (ucast (drop_bit 32 x)) + 32)" for n
  proof (cases "n < 32")
    case False
    then have "n - 32 < nat (ecb_ctz32 (ucast (drop_bit 32 x)))" using that h by (auto simp: is_lowest_def)
    then have "\<not> bit (ucast (drop_bit 32 x) :: 32 word) (n - 32)" using h by (simp add: is_lowest_def)
    then show ?thesis using False bit_imp_le_length [of x n] by (auto simp: bit_simps)
  qed (use low in simp)
  then show ?thesis using h True by (auto simp: ecb_ctz64_def low_half is_lowest_def bit_simps nat_add_distrib add.commute)
next
  case False
  from ecb_ctz32_ok [OF False] show ?thesis
    using False bit_imp_le_length by (fastforce simp: ecb_ctz64_def low_half is_lowest_def bit_simps)
qed

definition ld_step :: "nat \<Rightarrow> ('a::len word \<Rightarrow> int) \<Rightarrow> 'a word \<Rightarrow> int" where
  "ld_step s f x = (if drop_bit s x \<noteq> 0 then f (drop_bit s x) + int s else f x)"

definition finds_below :: "nat \<Rightarrow> ('a::len word \<Rightarrow> int) \<Rightarrow> bool" where
  "finds_below s f \<longleftrightarrow> (\<forall>x. x \<noteq> 0 \<longrightarrow> (\<forall>n \<ge> s. \<not> bit x n) \<longrightarrow> is_highest (f x) x)"

lemma ld_step_finds:
  assumes "finds_below s f"
  shows "finds_below (2 * s) (ld_step s f)"
  unfolding finds_below_def
proof (intro allI impI)
  fix x :: "'a word"
  assume x: "x \<noteq> 0" "\<forall>n \<ge> 2 * s. \<not> bit x n"
  show "is_highest (ld_step s f x) x"
  proof (cases "drop_bit s x = 0")
    case True
    have "\<not> bit x n" if "n \<ge> s" for n using arg_cong [OF True, of "\<lambda>v. bit v (n - s)"] that by (simp add: bit_simps)
    then show ?thesis using assms x(1) True by (simp add: finds_below_def ld_step_def)
  next
    case False
    have "\<forall>n \<ge> s. \<not> bit (drop_bit s x) n" using x(2) by (simp add: bit_simps)
    then have h: "is_highest (f (drop_bit s x)) (drop_bit s x)" using assms False by (simp add: finds_below_def)
    have "\<not> bit x n" if "n > nat (f (drop_bit s x) + int s)" for n
    proof -
      have "n - s > nat (f (drop_bit s x))" "s \<le> n" using that h by (auto simp: is_highest_def)
      then have "\<not> bit (drop_bit s x) (n - s)" using h by (simp add: is_highest_def)
      then show ?thesis using \<open>s \<le> n\<close> by (simp add: bit_simps)
    qed
    then show ?thesis using h False by (auto simp: is_highest_def ld_step_def bit_simps nat_add_distrib add.commute)
  qed
qed

lemma finds_below_1: "finds_below 1 (\<lambda>_ :: 'a::len word. 0)"
  unfolding finds_below_def is_highest_def
proof (intro allI impI conjI)
  fix x :: "'a word"
  assume x: "x \<noteq> 0" "\<forall>n \<ge> 1. \<not> bit x n"
  then obtain n where "bit x n" by (auto simp: bit_eq_iff)
  then show "bit x (nat 0)" using x(2) by (cases n) auto
qed auto

text \<open>The steps of \<open>ecb_ld32\<close> from the last to the first, each given what the ones before have found.\<close>

definition ldr1 :: "32 word \<Rightarrow> int \<Rightarrow> int" where "ldr1 x r = (if drop_bit 1 x \<noteq> 0 then r + 1 else r)"
definition ldr2 :: "32 word \<Rightarrow> int \<Rightarrow> int" where "ldr2 x r = (if drop_bit 2 x \<noteq> 0 then ldr1 (drop_bit 2 x) (r + 2) else ldr1 x r)"
definition ldr4 :: "32 word \<Rightarrow> int \<Rightarrow> int" where "ldr4 x r = (if drop_bit 4 x \<noteq> 0 then ldr2 (drop_bit 4 x) (r + 4) else ldr2 x r)"
definition ldr8 :: "32 word \<Rightarrow> int \<Rightarrow> int" where "ldr8 x r = (if drop_bit 8 x \<noteq> 0 then ldr4 (drop_bit 8 x) (r + 8) else ldr4 x r)"

lemma ldr_steps:
  "ldr1 x r = r + ld_step 1 (\<lambda>_. 0) x" "ldr2 x r = r + ld_step 2 (ld_step 1 (\<lambda>_. 0)) x"
  "ldr4 x r = r + ld_step 4 (ld_step 2 (ld_step 1 (\<lambda>_. 0))) x"
  "ldr8 x r = r + ld_step 8 (ld_step 4 (ld_step 2 (ld_step 1 (\<lambda>_. 0)))) x"
proof -
  show 1: "ldr1 x r = r + ld_step 1 (\<lambda>_. 0) x" for x r by (simp add: ldr1_def ld_step_def)
  show 2: "ldr2 x r = r + ld_step 2 (ld_step 1 (\<lambda>_. 0)) x" for x r unfolding ldr2_def 1 by (simp add: ld_step_def [of 2])
  show 4: "ldr4 x r = r + ld_step 4 (ld_step 2 (ld_step 1 (\<lambda>_. 0))) x" for x r unfolding ldr4_def 2 by (simp add: ld_step_def [of 4])
  show "ldr8 x r = r + ld_step 8 (ld_step 4 (ld_step 2 (ld_step 1 (\<lambda>_. 0)))) x" for x r
    unfolding ldr8_def 4 by (simp add: ld_step_def [of 8])
qed

lemma ecb_ld32_steps: "ecb_ld32 x = ld_step 16 (ld_step 8 (ld_step 4 (ld_step 2 (ld_step 1 (\<lambda>_. 0))))) x"
proof -
  have let_if: "(case (if b then (x, r) else (y, q)) of (x, r) \<Rightarrow> g x r) = (if b then g x r else g y q)"
    for b x y r q and g :: "32 word \<Rightarrow> int \<Rightarrow> int" by simp
  have "ecb_ld32 x = (if drop_bit 16 x \<noteq> 0 then ldr8 (drop_bit 16 x) 16 else ldr8 x 0)"
    unfolding ecb_ld32_def Let_def let_if ldr1_def [symmetric] ldr2_def [symmetric] ldr4_def [symmetric] ldr8_def [symmetric]
    by simp
  then show ?thesis unfolding ldr_steps by (simp add: ld_step_def [of 16])
qed

lemma ecb_ld32_ok:
  assumes "x \<noteq> 0"
  shows "is_highest (ecb_ld32 x) x"
proof -
  have "finds_below 32 (ld_step 16 (ld_step 8 (ld_step 4 (ld_step 2 (ld_step 1 (\<lambda>_ :: 32 word. 0))))))"
    using ld_step_finds [OF ld_step_finds [OF ld_step_finds [OF ld_step_finds [OF ld_step_finds [OF finds_below_1]]]]] by simp
  moreover have "\<not> bit x n" if "n \<ge> 32" for n using bit_imp_le_length [of x n] that by auto
  ultimately show ?thesis using assms unfolding ecb_ld32_steps finds_below_def by blast
qed

lemma ecb_ld64_ok:
  assumes "x \<noteq> 0"
  shows "is_highest (ecb_ld64 x) x"
proof -
  have narrow: "is_highest (ecb_ld32 (ucast y)) y" if "y \<noteq> 0" "\<forall>n \<ge> 32. \<not> bit y n" for y :: "64 word"
  proof -
    have b: "bit (ucast y :: 32 word) n = bit y n" for n using that(2) by (cases "n < 32") (auto simp: bit_simps)
    have "y = 0" if "(ucast y :: 32 word) = 0" using b unfolding that by (intro bit_eqI) simp
    then have "(ucast y :: 32 word) \<noteq> 0" using that(1) by blast
    then show ?thesis using ecb_ld32_ok [of "ucast y"] by (simp add: is_highest_def b)
  qed
  have "finds_below (2 * 32) (ld_step 32 (\<lambda>y :: 64 word. ecb_ld32 (ucast y)))"
    by (rule ld_step_finds) (use narrow in \<open>simp add: finds_below_def\<close>)
  moreover have "\<not> bit x n" if "n \<ge> 2 * 32" for n using bit_imp_le_length [of x n] that by auto
  moreover have "ecb_ld64 x = ld_step 32 (\<lambda>y. ecb_ld32 (ucast y)) x" by (simp add: ecb_ld64_def ld_step_def Let_def)
  ultimately show ?thesis using assms unfolding finds_below_def by metis
qed

text \<open>
  C14. In a word that is not 0, \<open>ecb_ctz32\<close> and \<open>ecb_ctz64\<close> give the number of its lowest bit that is
  set, \<open>ecb_ld32\<close> and \<open>ecb_ld64\<close> that of its highest.
\<close>

theorem ecb_finds_bits:
  assumes "x \<noteq> 0" and "y \<noteq> 0"
  shows "is_lowest (ecb_ctz32 x) x \<and> is_lowest (ecb_ctz64 y) y \<and> is_highest (ecb_ld32 x) x \<and> is_highest (ecb_ld64 y) y"
  using ecb_ctz32_ok [OF assms(1)] ecb_ctz64_ok [OF assms(2)] ecb_ld32_ok [OF assms(1)] ecb_ld64_ok [OF assms(2)] by blast

theorem ecb_finds_bits_witness: "is_lowest (ecb_ctz32 0x00f000f0) (0x00f000f0 :: 32 word) \<and> is_highest (ecb_ld64 12) (12 :: 64 word)"
  using ecb_finds_bits [of "0x00f000f0" 12] by simp

end
