(* ===== verification/Spec2Isabelle.thy ===== *)
theory Spec2Isabelle
  imports Polling Extended Ev_Compat Ev_Ports Ev_Walk Ecb_Bits
begin

text \<open>
  A verification development for libcometd, a client library in C for the Bayeux protocol
  (the program under \<^verbatim>\<open>src/src\<close> and \<^verbatim>\<open>src/include\<close>), and for the event loop library libev that
  the repository carries under \<^verbatim>\<open>src/deps/ev\<close>. The two are independent developments: the client
  builds libev but runs its loop in a thread of its own. The tests, the examples and the
  fixtures are not modelled.

  \<^bold>\<open>The program.\<close> A program creates a handle (\<open>cometd_new\<close>), configures it and connects:
  a handshake over HTTP negotiates a transport and fetches a client id, with retries that
  back off, and then the run loop starts a thread that polls the server. Messages that come
  back are dispatched to the listeners of their channel, wildcard listeners included; the
  library listens itself on the handshake and the connect channel to drive the connection
  state. What the poll brings goes through an inbox to a listening thread. Extensions see
  every message in both directions.

  \<^bold>\<open>The event loop.\<close> A program starts watchers: for a descriptor that becomes ready, a relative
  or periodic timer, a signal, a child, another thread's wakeup, the attributes of a path, or a point of the
  loop itself.
  \<open>ev_run\<close> goes in rounds: tell the kernel which descriptors changed, block until something
  happens or a timer is due, make pending what happened, and call the pending watchers by
  priority. Callbacks may start and stop watchers and run the loop again.

  \<^bold>\<open>Theories, in the order in which they import each other.\<close>
  \<^item> \<open>Prelude\<close>: outcomes (a value or the fault that undefined behaviour, a failed assertion
    or exhausted fuel stands for), heaps, C integers, the GLib string functions.
  \<^item> \<open>Channel\<close> (\<^verbatim>\<open>channel.c\<close>): the wildcard test and the list of listener channels that a
    message channel reaches; shown equal to the globbing relation of the protocol.
  \<^item> \<open>Json\<close> (\<^verbatim>\<open>json.c\<close>): JSON documents, the accessors of json-glib, the text functions.
  \<^item> \<open>Conn\<close> (\<^verbatim>\<open>conn.c\<close>, \<^verbatim>\<open>error.c\<close>): the connection, its states as bit masks, advice, codes.
  \<^item> \<open>Event\<close> (\<^verbatim>\<open>event.c\<close>): the listener table over a heap of subscriptions.
  \<^item> \<open>Handle\<close> (\<^verbatim>\<open>cometd.h\<close>, \<^verbatim>\<open>loop.c\<close>, part of \<^verbatim>\<open>gthread.c\<close>): the handle, the environment, the
    loop's function table, configuration.
  \<^item> \<open>Msg\<close> (\<^verbatim>\<open>msg.c\<close> and the message constructors of \<^verbatim>\<open>cometd.c\<close>): reading and building messages.
  \<^item> \<open>Ext\<close> (\<^verbatim>\<open>ext.c\<close>, \<^verbatim>\<open>logger.c\<close>, \<^verbatim>\<open>yammer.c\<close>): extensions.
  \<^item> \<open>Http\<close> (\<^verbatim>\<open>http.c\<close>), \<open>Inbox\<close> (\<^verbatim>\<open>inbox.c\<close>), \<open>Transport\<close> (\<^verbatim>\<open>transport.c\<close>,
    \<^verbatim>\<open>transport_long_polling.c\<close>, the registry of \<^verbatim>\<open>cometd.c\<close>).
  \<^item> \<open>Cometd\<close> (\<^verbatim>\<open>cometd.c\<close>): backoff, state tests, handlers, dispatch, sending, the handshake
    and its retries, connecting, publishing, subscribing, listening, creation, destruction.
  \<^item> \<open>Gthread\<close> (\<^verbatim>\<open>gthread.c\<close>): the body of the loop thread.
  \<^item> \<open>Session\<close>, \<open>Lifecycle\<close>, \<open>Wire\<close>, \<open>Retry\<close>, \<open>Messaging\<close>, \<open>Dispatch\<close>, \<open>Invariant\<close>, \<open>Client\<close>,
    \<open>Polling\<close>, \<open>Extended\<close>: what the operations do together; the last with the library's extensions.

  \<^bold>\<open>Theories of the event loop\<close> (\<^verbatim>\<open>src/deps/ev/ev.c\<close> unless another file is named).
  \<^item> \<open>Ev_Types\<close> (\<^verbatim>\<open>ev.h\<close>, \<^verbatim>\<open>ev_vars.h\<close>): masks, watchers, the loop structure, the environment.
  \<^item> \<open>Ev_Heap\<close>: the 4-heap and the 2-heap (\<open>downheap\<close>, \<open>upheap\<close>, \<open>adjustheap\<close>, \<open>reheap\<close>); a locale over
    the parent function, interpreted for both, shows that sifting restores the order.
  \<^item> \<open>Ev_Pending\<close>: references, lists of watchers, pending events by priority.
  \<^item> \<open>Ev_Fd\<close>: io watchers, changed descriptors, bad descriptors.
  \<^item> \<open>Ev_Poll\<close> (\<^verbatim>\<open>ev_poll.c\<close>), \<open>Ev_Select\<close> (\<^verbatim>\<open>ev_select.c\<close>): the portable backends, each with the
    map from descriptors to masks that its arrays stand for.
  \<^item> \<open>Ev_Epoll\<close> (\<^verbatim>\<open>ev_epoll.c\<close>): the backend over \<open>epoll\<close>, whose list is the kernel's own; what the
    kernel's list holds is a function of the world, with the documented answers of \<open>epoll_ctl\<close>
    as the hypothesis \<open>epoll_kernel\<close>.
  \<^item> \<open>Ev_Kqueue\<close> (\<^verbatim>\<open>ev_kqueue.c\<close>), \<open>Ev_Port\<close> (\<^verbatim>\<open>ev_port.c\<close>): the backends of BSD and Solaris; the first
    is described by what its list of changes makes of the kernel's filters, the second by the
    hypothesis \<open>port_kernel\<close> about a port's associations.
  \<^item> \<open>Ev_Backend\<close>: passing changes on, and a locale for what the loop expects of a backend, in
    which starting, stopping and killing are shown to keep the books, interpreted by \<open>poll\<close>, \<open>select\<close>
    and \<open>kqueue\<close>.
  \<^item> \<open>Ev_Ready\<close>: what the backends report as a list of ready descriptors, and whom it queues.
  \<^item> \<open>Ev_Timer\<close>: timers, periodic timers, the clocks and time jumps.
  \<^item> \<open>Ev_Watch\<close>: the other watchers, the wakeup pipe, signals (by handler or \<open>signalfd\<close>), children.
  \<^item> \<open>Ev_Stat\<close>: attributes of paths: polling with \<open>lstat\<close>, the watches and events of \<open>inotify\<close>.
  \<^item> \<open>Ev_Event\<close> (\<^verbatim>\<open>event.c\<close>, \<^verbatim>\<open>event.h\<close>): the events of libevent, each an io or signal watcher with a
    timer, and the callbacks of their watchers.
  \<^item> \<open>Ev_Loop\<close>: making, running, forking, destroying and checking a loop, \<open>ev_once\<close>.
  \<^item> \<open>Ev_Verify\<close>, \<open>Ev_Typed\<close>: the types of watchers and the invariant \<open>loop_ok\<close> (every container holds
    watchers of its type in their places, the books of descriptors are in order); starting and
    stopping keep it, shown for the watchers in arrays in one locale that extends the interface of
    such an array, interpreted four times; a loop in order passes its self-check.
  \<^item> \<open>Ev_Count\<close>: the reference count as the number of started watchers, which every operation keeps, and
    what passing changes to \<open>epoll\<close> and to a port, which may kill a descriptor, does to a loop in order.
  \<^item> \<open>Ev_Reach\<close>: what a program can do to a loop as a step relation, with the changes passed to any of the five
    backends; it keeps \<open>loop_ok\<close>, the count, and the books of \<open>poll\<close>, \<open>select\<close> and \<open>kqueue\<close>.
  \<^item> \<open>Ev_Expire\<close>, \<open>Ev_Run\<close>, \<open>Ev_Props\<close>, \<open>Ev_Kernel\<close>: expiring timers, calling the pending watchers,
    wakeups and rounds, and the properties of the loop and of its dealings with the kernel.
  \<^item> \<open>Ev_Compat\<close> (\<^verbatim>\<open>event.c\<close>): the base of the emulation, and what a program gets from its events.
  \<^item> \<open>Ev_Ports\<close>, \<open>Ev_Attr\<close>: what the backends of BSD and Solaris and the watchers of attributes do, and
    how the version of the kernel is read.
  \<^item> \<open>Ev_Embed\<close>, \<open>Ev_Embedded\<close>: a loop inside another one. The world of the outer loop is the other loop, so
    its callbacks can run it; signals and children belong to one of the two loops only. Starting, stopping
    and the restart after a fork.
  \<^item> \<open>Ev_Walk\<close>: \<open>ev_walk\<close>, which is not compiled by default: stopping everything it meets is safe, but
    stopping some timers makes it miss others (\<open>walk_misses_timer\<close>).
  \<^item> \<open>Ecb\<close>, \<open>Ecb_Bits\<close>: the compiler helpers that libev carries, in their form without built-in functions:
    bit counts, bit searches, reversals, rotations and divisions on words of their width, equal to
    what they stand for; \<open>None\<close> is undefined behaviour.

  \<^bold>\<open>State of the event loop.\<close> Watchers are objects of the user: a memory from addresses to a record
  with the fields of all types. The loop is the record \<open>ev_loop\<close>. Its arrays are lists, or functions
  with a count for the heaps, without their spare capacity (only \<open>array_nextsize\<close> computes it).
  Timestamps are real numbers, so the rounding of \<open>double\<close> is not part of what is shown.
  The configuration is the default one for Unix: five priorities, the 4-heap with cached times,
  callbacks with a loop argument, \<open>eventfd\<close>, \<open>signalfd\<close> and \<open>inotify\<close> as on Linux, no consistency checks
  at every call, the backends poll and select compiled in, and epoll, kqueue and ports where the
  environment says so. The record \<open>ev_env\<close> holds the
  clocks, \<open>poll\<close>, \<open>select\<close>, the calls of \<open>epoll\<close>, \<open>kqueue\<close>, ports, \<open>inotify\<close> and \<open>signalfd\<close>, \<open>lstat\<close>, \<open>waitpid\<close>, signal dispositions and the user's callbacks, which may do anything to
  the loop. A failed \<open>assert\<close> or an index past an array is a fault. Fuel bounds the calls that
  \<open>ev_invoke_pending\<close> makes in one priority and the rounds of \<open>ev_run\<close>, as both can go on for ever;
  \<open>pending_called_in_order\<close> and \<open>idle_run_returns\<close> name amounts that are enough, the first for callbacks
  that leave the loop alone: one that feeds events to a higher priority than its own leaves them waiting. The loops of
  \<open>fd_kill\<close> and \<open>timers_reify\<close> take the lengths of their lists, shown to be enough in
  \<open>fd_kill_stops_watchers\<close> and \<open>timers_reify_in_order\<close>; \<open>fd_reify\<close>, whose list may grow while it is
  worked off, takes twice its length.

  \<^bold>\<open>State.\<close> The handle is the record \<open>cometd\<close>. Pointers whose lifetime matters are addresses
  into heaps of the handle (subscriptions, transports, extensions), so a stale pointer is
  the fault \<open>Use_after_free\<close>; an address is never reused. JSON nodes are values: what a
  handler or an extension changes in place is returned. \<open>json_node_copy\<close> shares the object or array of the node it copies, so
  \<open>cometd_msg_wrap_copy\<close> takes the message as the extensions leave it, under the assumption that they change
  the object and do not give the node another one; that published data stays shared with the caller is
  not modelled. NULL is \<open>None\<close>. A function pointer
  is a value of a datatype that names the library's functions and numbers the user's.

  \<^bold>\<open>Outside code.\<close> The record \<open>env\<close> holds what is not in the repository: json-glib's
  generator, parser and its answers for members that are missing or of another type,
  libcurl's answer to a POST with the allocator's, \<open>usleep\<close>, the join of the loop thread
  (the rest of its run, as a function on the handle), and the user's callbacks, extensions,
  transports and loops. Hypotheses about it are named: \<open>json_glib_ok\<close> (a missing member
  reads as NULL, 0 or FALSE), \<open>json_text_ok\<close> (a document's text parses to the document),
  \<open>serialises\<close>, \<open>environment_keeps\<close> (user code keeps an invariant).

  \<^bold>\<open>Recursion.\<close> A connect reply can start a handshake whose reply is dispatched again, so
  the operations that dispatch take the handshake as an argument and
  \<open>cometd_handshake_loop\<close> closes the knot with fuel, for its own attempts and the nested
  ones. Where fuel is used up the result is the fault \<open>Out_of_fuel\<close>. \<open>handshake_gives_up\<close> and
  \<open>handshake_recovers\<close> give the fuel that is enough for a refusing and for a recovering
  server, and \<open>advised_handshake_never_gives_up\<close> shows a case where none is.

  \<^bold>\<open>Threads.\<close> Inbox pushes and takes hold the inbox's mutex and are single steps. The
  loop thread takes a schedule: what other threads did to the handle before each of its rounds. A turn
  of the listening thread has what others did before its take, what is pushed while the take waits, and
  what others did after the take and before the message is processed or the state is tested. \<open>client_step\<close>
  interleaves calls, deliveries and polls at that grain. Finer races on the connection
  object, which the code does not protect, are not modelled.

  \<^bold>\<open>What the lemmas show.\<close> \<open>Channel\<close>, \<open>Event\<close>: a message reaches exactly the listeners whose
  channel globs it, once each, and the table is consistent under adding and removing.
  \<open>Msg\<close>, \<open>Http\<close>, \<open>Inbox\<close>, \<open>Transport\<close>: round trips, error codes, first-in first-out,
  negotiation. \<open>Session\<close>: the handlers and the state tests. \<open>Retry\<close>, \<open>Polling\<close>: how many
  attempts, with which waits, and with which result. \<open>Messaging\<close>, \<open>Dispatch\<close>: what a program
  gets from each call, with the cases in which it is not what it should get. \<open>Invariant\<close>,
  \<open>Client\<close>: two locales that show once that every operation keeps a predicate that the
  primitive updates keep, interpreted for the session, the memory and the message ids, and
  their consequences for every reachable state. For the event loop: the heaps stay heaps with
  their index fields right; the poll entries implement a map from descriptors to masks, which
  after \<open>fd_reify\<close> is what the watchers ask for, and what the kernel reports queues exactly those
  who wait for it; expired timers are called once and in order;
  pending watchers are called once and by priority; wakeups are not lost; blocking is
  bounded; a reachable loop is in order; an event of the emulation is started, called and deleted as
  a whole, with the cases in which it is not; starting and stopping a watcher of attributes keeps the
  count of references whatever its timer and the kernel's watches do, and so does starting and stopping an
  embedded loop.

  \<^bold>\<open>Bounds.\<close> \<open>long\<close> is 64 bits, its overflow a fault; the loop counters are 32-bit words; the
  state masks are 32-bit words. Channel names have at most 510 characters where they are
  listened to and 254 segments where they are matched, as in the code.

  \<^bold>\<open>Not modelled.\<close> Reference counts and allocation failure of GLib objects, the text that
  json-glib and \<open>printf\<close> produce, \<open>g_type_init\<close>, the creation of the listening thread
  (\<open>cometd_listen_async\<close>), and the warnings that failed preconditions of GLib print. Of libev: the system interface of
  Windows (\<^verbatim>\<open>ev_win32.c\<close>), several bases of the emulation that share events, replacing \<open>ev_invoke_pending\<close> and the locking
  callbacks, allocation failure, and the attributes and memory fences of the compiler helpers.
\<close>

end
